(* ===== verification/Prelude.thy ===== *)
theory Prelude
  imports Main "HOL-Library.AList" "HOL-Library.Sublist" "HOL-Library.Char_ord"
    "HOL-Library.List_Lexorder"
begin

section \<open>Shared vocabulary: strings, numbers, results, tables, runs\<close>

text \<open>
  What every component of the development uses.

  Go strings are byte sequences, and so is the type \<open>string\<close> here.  The functions of Go's
  \<^verbatim>\<open>strings\<close> and \<^verbatim>\<open>strconv\<close> packages that the sources call are defined below on bytes.
  Case mapping is the ASCII one (a byte from 128 on is left alone).  A Go map is an
  association list with one entry per key: its order stands for the iteration order of one
  particular execution, which Go leaves open, so a theorem about a table with an arbitrary
  order is a theorem about every iteration order.  A fallible operation returns
  \<open>'e + 'a\<close>, \<open>Inl\<close> for the error.
\<close>

named_theorems result_simps \<open>case analysis of fallible operations\<close>
named_theorems table_simps \<open>lookups and sizes of tables after an operation\<close>
named_theorems inv_intros \<open>preservation of component invariants\<close>

subsection \<open>Results\<close>

type_synonym ('e, 'a) result = "'e + 'a"

definition bind_result :: "('e, 'a) result \<Rightarrow> ('a \<Rightarrow> ('e, 'b) result) \<Rightarrow> ('e, 'b) result" where
  "bind_result r f = (case r of Inl e \<Rightarrow> Inl e | Inr x \<Rightarrow> f x)"

definition is_ok :: "('e, 'a) result \<Rightarrow> bool" where
  "is_ok r = (case r of Inl _ \<Rightarrow> False | Inr _ \<Rightarrow> True)"

text \<open>A guard that fails with \<open>e\<close> when the (bad) condition holds, as Go's early returns do.\<close>

definition reject_if :: "bool \<Rightarrow> 'e \<Rightarrow> ('e, 'a) result \<Rightarrow> ('e, 'a) result" where
  "reject_if bad e r = (if bad then Inl e else r)"

lemma bind_result_simps [simp, result_simps]:
  "bind_result (Inl e) f = Inl e"
  "bind_result (Inr x) f = f x"
  by (simp_all add: bind_result_def)

lemma is_ok_simps [simp, result_simps]: "\<not> is_ok (Inl e)" "is_ok (Inr x)"
  by (simp_all add: is_ok_def)

lemma reject_if_simps [simp, result_simps]:
  "reject_if True e r = Inl e"
  "reject_if False e r = r"
  by (simp_all add: reject_if_def)

lemma reject_if_Inr [simp, result_simps]: "reject_if b e r = Inr x \<longleftrightarrow> \<not> b \<and> r = Inr x"
  by (simp add: reject_if_def)

lemma reject_if_ok [simp, result_simps]: "is_ok (reject_if b e r) \<longleftrightarrow> \<not> b \<and> is_ok r"
  by (simp add: reject_if_def)

lemma bind_result_Inr [result_simps]: "bind_result r f = Inr y \<longleftrightarrow> (\<exists>x. r = Inr x \<and> f x = Inr y)"
  by (cases r) auto

lemma bind_result_ok [result_simps]: "is_ok (bind_result r f) \<longleftrightarrow> (\<exists>x. r = Inr x \<and> is_ok (f x))"
  by (cases r) auto

lemma is_ok_iff: "is_ok r \<longleftrightarrow> (\<exists>x. r = Inr x)"
  by (cases r) auto

subsection \<open>Strings\<close>

text \<open>The UTF-8 encodings of the characters for which Go's \<^verbatim>\<open>unicode.IsSpace\<close> holds.\<close>

definition space_encodings :: "string list" where
  "space_encodings =
     [[CHR 0x09], [CHR 0x0A], [CHR 0x0B], [CHR 0x0C], [CHR 0x0D], [CHR 0x20],
      [CHR 0xC2, CHR 0x85], [CHR 0xC2, CHR 0xA0], [CHR 0xE1, CHR 0x9A, CHR 0x80],
      [CHR 0xE2, CHR 0x80, CHR 0x80], [CHR 0xE2, CHR 0x80, CHR 0x81], [CHR 0xE2, CHR 0x80, CHR 0x82],
      [CHR 0xE2, CHR 0x80, CHR 0x83], [CHR 0xE2, CHR 0x80, CHR 0x84], [CHR 0xE2, CHR 0x80, CHR 0x85],
      [CHR 0xE2, CHR 0x80, CHR 0x86], [CHR 0xE2, CHR 0x80, CHR 0x87], [CHR 0xE2, CHR 0x80, CHR 0x88],
      [CHR 0xE2, CHR 0x80, CHR 0x89], [CHR 0xE2, CHR 0x80, CHR 0x8A],
      [CHR 0xE2, CHR 0x80, CHR 0xA8], [CHR 0xE2, CHR 0x80, CHR 0xA9], [CHR 0xE2, CHR 0x80, CHR 0xAF],
      [CHR 0xE2, CHR 0x81, CHR 0x9F], [CHR 0xE3, CHR 0x80, CHR 0x80]]"

fun strip_front :: "string list \<Rightarrow> string \<Rightarrow> string" where
  "strip_front ps [] = []"
| "strip_front ps (c # cs) =
     (case find (\<lambda>p. p \<noteq> [] \<and> prefix p (c # cs)) ps of
        None \<Rightarrow> c # cs
      | Some p \<Rightarrow> strip_front ps (drop (length p - 1) cs))"

definition trim_space :: "string \<Rightarrow> string" where
  "trim_space s = rev (strip_front (map rev space_encodings) (rev (strip_front space_encodings s)))"

fun split_on :: "char \<Rightarrow> string \<Rightarrow> string list" where
  "split_on c [] = [[]]"
| "split_on c (x # xs) =
     (if x = c then [] # split_on c xs
      else (case split_on c xs of [] \<Rightarrow> [[x]] | w # ws \<Rightarrow> (x # w) # ws))"

fun join_with :: "string \<Rightarrow> string list \<Rightarrow> string" where
  "join_with sep [] = []"
| "join_with sep [w] = w"
| "join_with sep (w # ws) = w @ sep @ join_with sep ws"

definition trim_prefix :: "string \<Rightarrow> string \<Rightarrow> string" where
  "trim_prefix p s = (if prefix p s then drop (length p) s else s)"

definition trim_suffix :: "string \<Rightarrow> string \<Rightarrow> string" where
  "trim_suffix p s = (if suffix p s then take (length s - length p) s else s)"

definition contains_any :: "string \<Rightarrow> string \<Rightarrow> bool" where
  "contains_any s cs = list_ex (\<lambda>c. c \<in> set cs) s"

definition lower_char :: "char \<Rightarrow> char" where
  "lower_char c =
     (let n = of_char c :: nat in if 65 \<le> n \<and> n \<le> 90 then char_of (n + 32) else c)"

definition upper_char :: "char \<Rightarrow> char" where
  "upper_char c =
     (let n = of_char c :: nat in if 97 \<le> n \<and> n \<le> 122 then char_of (n - 32) else c)"

definition to_lower :: "string \<Rightarrow> string" where
  "to_lower = map lower_char"

definition to_upper :: "string \<Rightarrow> string" where
  "to_upper = map upper_char"

text \<open>A value between double quotes, as the sources put names into their messages.\<close>

definition quoted :: "string \<Rightarrow> string" where
  "quoted s = CHR 0x22 # s @ [CHR 0x22]"

definition equal_fold :: "string \<Rightarrow> string \<Rightarrow> bool" where
  "equal_fold s t = (to_lower s = to_lower t)"

definition is_digit :: "char \<Rightarrow> bool" where
  "is_digit c = (48 \<le> (of_char c :: nat) \<and> (of_char c :: nat) \<le> 57)"

definition is_lower :: "char \<Rightarrow> bool" where
  "is_lower c = (97 \<le> (of_char c :: nat) \<and> (of_char c :: nat) \<le> 122)"

definition is_upper :: "char \<Rightarrow> bool" where
  "is_upper c = (65 \<le> (of_char c :: nat) \<and> (of_char c :: nat) \<le> 90)"

definition is_alnum :: "char \<Rightarrow> bool" where
  "is_alnum c = (is_lower c \<or> is_upper c \<or> is_digit c)"

text \<open>\<^verbatim>\<open>strings.Fields\<close>: the maximal pieces without white space.\<close>

fun fields_acc :: "string \<Rightarrow> string \<Rightarrow> string list" where
  "fields_acc w [] = (if w = [] then [] else [rev w])"
| "fields_acc w (c # cs) =
     (case find (\<lambda>p. prefix p (c # cs)) space_encodings of
        None \<Rightarrow> fields_acc (c # w) cs
      | Some p \<Rightarrow> (if w = [] then [] else [rev w]) @ fields_acc [] (drop (length p - 1) cs))"

definition fields_of :: "string \<Rightarrow> string list" where
  "fields_of = fields_acc []"


lemma strip_front_stops: "find (\<lambda>p. p \<noteq> [] \<and> prefix p (strip_front ps s)) ps = None"
  by (induction ps s rule: strip_front.induct) (auto split: option.splits simp: find_None_iff)

lemma strip_front_suffix: "suffix (strip_front ps s) s"
proof (induction ps s rule: strip_front.induct)
  case (2 ps c cs)
  show ?case
  proof (cases "find (\<lambda>p. p \<noteq> [] \<and> prefix p (c # cs)) ps")
    case (Some p)
    with 2 have "suffix (strip_front ps (drop (length p - 1) cs)) (drop (length p - 1) cs)" by simp
    moreover have "suffix (drop (length p - 1) cs) (c # cs)"
      by (metis drop_Suc_Cons suffix_drop)
    ultimately show ?thesis using Some by (auto intro: suffix_order.trans)
  qed simp
qed simp

lemma strip_front_fixed: "find (\<lambda>p. p \<noteq> [] \<and> prefix p s) ps = None \<Longrightarrow> strip_front ps s = s"
  by (cases s) auto

lemma strip_front_idem [simp]: "strip_front ps (strip_front ps s) = strip_front ps s"
  by (simp add: strip_front_fixed strip_front_stops)

lemma trim_space_idem [simp]: "trim_space (trim_space s) = trim_space s"
proof -
  let ?l = "strip_front space_encodings s"
  let ?r = "strip_front (map rev space_encodings) (rev ?l)"
  have "prefix (rev ?r) ?l"
    using strip_front_suffix [of "map rev space_encodings" "rev ?l"] by (simp add: suffix_to_prefix)
  with strip_front_stops [of space_encodings s]
  have "find (\<lambda>p. p \<noteq> [] \<and> prefix p (rev ?r)) space_encodings = None"
    by (auto simp: find_None_iff dest: prefix_order.trans)
  then have "strip_front space_encodings (rev ?r) = rev ?r" by (rule strip_front_fixed)
  then show ?thesis by (simp add: trim_space_def)
qed

lemma trim_space_Nil [simp]: "trim_space [] = []"
  by (simp add: trim_space_def)

lemma char_eq_of_char: "c = d \<longleftrightarrow> (of_char c :: nat) = of_char d"
  by (metis char_of_char)

lemma lower_char_idem [simp]: "lower_char (lower_char c) = lower_char c"
  by (auto simp: lower_char_def Let_def)

lemma to_lower_idem [simp]: "to_lower (to_lower s) = to_lower s"
  by (simp add: to_lower_def)

lemma lower_char_fixes_space:
  "list_all (\<lambda>p. list_all (\<lambda>d. d < 65 \<or> 90 < d \<and> (d < 97 \<or> 122 < d)) (map of_char p :: nat list))
     space_encodings"
  by (simp add: space_encodings_def upt_conv_Cons)

lemma lower_char_eq_outside:
  "(of_char d :: nat) < 65 \<or> 90 < (of_char d :: nat) \<and> ((of_char d :: nat) < 97 \<or> 122 < (of_char d :: nat))
   \<Longrightarrow> d = lower_char c \<longleftrightarrow> d = c"
  by (auto simp: lower_char_def Let_def)

lemma prefix_to_lower_outside:
  "list_all (\<lambda>d. d < 65 \<or> 90 < d \<and> (d < 97 \<or> 122 < d)) (map of_char p :: nat list)
   \<Longrightarrow> prefix p (to_lower s) \<longleftrightarrow> prefix p s"
proof (induction p arbitrary: s)
  case (Cons d p)
  then show ?case
    by (cases s) (simp_all add: to_lower_def lower_char_eq_outside)
qed simp

lemma strip_front_to_lower:
  assumes "list_all (\<lambda>p. list_all (\<lambda>d. d < 65 \<or> 90 < d \<and> (d < 97 \<or> 122 < d)) (map of_char p :: nat list)) ps"
  shows "strip_front ps (to_lower s) = to_lower (strip_front ps s)"
  using assms
proof (induction ps s rule: strip_front.induct)
  case (2 ps c cs)
  have same: "find (\<lambda>p. p \<noteq> [] \<and> prefix p (to_lower (c # cs))) ps
      = find (\<lambda>p. p \<noteq> [] \<and> prefix p (c # cs)) ps"
    using 2(2) prefix_to_lower_outside [of _ "c # cs"] by (intro find_cong) (auto simp: list_all_iff)
  show ?case
  proof (cases "find (\<lambda>p. p \<noteq> [] \<and> prefix p (c # cs)) ps")
    case None
    with same show ?thesis by (simp add: to_lower_def)
  next
    case (Some p)
    with same 2 show ?thesis by (simp add: to_lower_def drop_map)
  qed
qed (simp add: to_lower_def)

lemma trim_space_to_lower: "trim_space (to_lower s) = to_lower (trim_space s)"
proof -
  have "list_all (\<lambda>p. list_all (\<lambda>d. d < 65 \<or> 90 < d \<and> (d < 97 \<or> 122 < d)) (map of_char p :: nat list))
     (map rev space_encodings)"
    using lower_char_fixes_space by (simp add: list_all_iff)
  then show ?thesis
    by (simp add: trim_space_def strip_front_to_lower lower_char_fixes_space to_lower_def rev_map
        flip: rev_map strip_front_to_lower [unfolded to_lower_def])
qed

lemma length_to_lower [simp]: "length (to_lower s) = length s"
  by (simp add: to_lower_def)

lemma split_on_not_Nil [simp]: "split_on c s \<noteq> []"
  by (induction s) (auto split: list.splits)

lemma split_on_no_sep: "w \<in> set (split_on c s) \<Longrightarrow> c \<notin> set w"
  by (induction s arbitrary: w) (auto split: list.splits if_splits)

lemma join_with_Cons_char: "join_with sep ((x # w) # ws) = x # join_with sep (w # ws)"
  by (cases ws) auto

lemma join_with_Nil_Cons: "ws \<noteq> [] \<Longrightarrow> join_with sep ([] # ws) = sep @ join_with sep ws"
  by (cases ws) auto

lemma join_split [simp]: "join_with [c] (split_on c s) = s"
proof (induction s)
  case (Cons x xs)
  then show ?case
    by (cases "split_on c xs") (auto simp: join_with_Cons_char join_with_Nil_Cons)
qed simp

lemma split_on_single: "c \<notin> set s \<Longrightarrow> split_on c s = [s]"
  by (induction s) auto

lemma split_on_append: "c \<notin> set w \<Longrightarrow> split_on c (w @ c # s) = w # split_on c s"
  by (induction w) (auto split: list.splits)

lemma split_join: "ws \<noteq> [] \<Longrightarrow> \<forall>w \<in> set ws. c \<notin> set w \<Longrightarrow> split_on c (join_with [c] ws) = ws"
  by (induction "[c]" ws rule: join_with.induct) (auto simp: split_on_single split_on_append)

subsection \<open>Numbers\<close>

text \<open>
  Go's \<^verbatim>\<open>int\<close> is a 64-bit two's complement integer.  Values are \<open>int\<close>s; \<open>wrap64\<close> is the
  wrap-around of its arithmetic, written where an operation can leave the range.
\<close>

definition max_int64 :: int where
  "max_int64 = 2 ^ 63 - 1"

definition wrap64 :: "int \<Rightarrow> int" where
  "wrap64 n = (n + 2 ^ 63) mod 2 ^ 64 - 2 ^ 63"

lemma wrap64_id: "- (2 ^ 63) \<le> n \<Longrightarrow> n \<le> max_int64 \<Longrightarrow> wrap64 n = n"
  by (simp add: wrap64_def max_int64_def)

definition digit_value :: "char \<Rightarrow> nat" where
  "digit_value c = of_char c - 48"

definition digits_value :: "string \<Rightarrow> nat" where
  "digits_value s = foldl (\<lambda>n c. 10 * n + digit_value c) 0 s"

text \<open>\<^verbatim>\<open>strconv.Atoi\<close>: an optional sign, at least one digit, a value in the range of \<^verbatim>\<open>int\<close>.\<close>

definition atoi :: "string \<Rightarrow> int option" where
  "atoi s =
     (let neg = (s \<noteq> [] \<and> hd s = CHR ''-'');
          body = (if s \<noteq> [] \<and> (hd s = CHR ''-'' \<or> hd s = CHR ''+'') then tl s else s);
          n = (if neg then - int (digits_value body) else int (digits_value body))
      in if body = [] \<or> \<not> list_all is_digit body \<or> n < - (2 ^ 63) \<or> max_int64 < n then None
         else Some n)"

fun nat_digits :: "nat \<Rightarrow> string" where
  "nat_digits n =
     (if n < 10 then [char_of (48 + n)] else nat_digits (n div 10) @ [char_of (48 + n mod 10)])"

declare nat_digits.simps [simp del]

definition itoa :: "int \<Rightarrow> string" where
  "itoa n = (if n < 0 then CHR ''-'' # nat_digits (nat (- n)) else nat_digits (nat n))"

lemma of_char_char_of_small: "n < 256 \<Longrightarrow> (of_char (char_of n :: char) :: nat) = n"
  by simp

lemma nat_digits_not_Nil [simp]: "nat_digits n \<noteq> []"
  by (subst nat_digits.simps) simp

lemma is_digit_char_of: "n < (10 :: nat) \<Longrightarrow> is_digit (char_of (48 + n))"
  by (simp add: is_digit_def of_char_char_of_small)

lemma nat_digits_digits: "list_all is_digit (nat_digits n)"
proof (induction n rule: nat_digits.induct)
  case (1 n)
  then show ?case
    by (subst nat_digits.simps) (simp add: is_digit_char_of)
qed

lemma digits_value_snoc: "digits_value (s @ [c]) = 10 * digits_value s + digit_value c"
  by (simp add: digits_value_def)

lemma digits_value_nat_digits [simp]: "digits_value (nat_digits n) = n"
proof (induction n rule: nat_digits.induct)
  case (1 n)
  show ?case
  proof (cases "n < 10")
    case True
    then show ?thesis
      by (subst nat_digits.simps) (simp add: digits_value_def digit_value_def of_char_char_of_small)
  next
    case False
    with 1 show ?thesis
      by (subst nat_digits.simps) (simp add: digits_value_snoc digit_value_def of_char_char_of_small)
  qed
qed

lemma is_digit_simps [simp]: "\<not> is_digit (CHR ''-'')" "\<not> is_digit (CHR ''+'')"
  by (simp_all add: is_digit_def)

lemma hd_nat_digits: "is_digit (hd (nat_digits n))"
  using nat_digits_digits [of n] nat_digits_not_Nil [of n]
  by (cases "nat_digits n") auto

lemma atoi_itoa: "- (2 ^ 63) \<le> n \<Longrightarrow> n \<le> max_int64 \<Longrightarrow> atoi (itoa n) = Some n"
  using hd_nat_digits [of "nat n"] nat_digits_digits [of "nat n"] nat_digits_digits [of "nat (- n)"]
  by (auto simp: atoi_def itoa_def Let_def)

lemma itoa_inj: "itoa m = itoa n \<Longrightarrow> m = n"
proof -
  assume eq: "itoa m = itoa n"
  have hd_neg: "k < 0 \<longleftrightarrow> hd (itoa k) = CHR ''-''" for k
    using hd_nat_digits [of "nat k"] by (auto simp: itoa_def)
  then have same: "m < 0 \<longleftrightarrow> n < 0" using eq by metis
  have "nat_digits i = nat_digits j \<Longrightarrow> i = j" for i j
    by (metis digits_value_nat_digits)
  with eq same show ?thesis by (force simp: itoa_def split: if_splits)
qed

subsection \<open>Tables\<close>

type_synonym 'v table = "(string \<times> 'v) list"

abbreviation keys_distinct :: "('k \<times> 'v) list \<Rightarrow> bool" where
  "keys_distinct t \<equiv> distinct (map fst t)"

definition count_if :: "('v \<Rightarrow> bool) \<Rightarrow> ('k \<times> 'v) list \<Rightarrow> nat" where
  "count_if P t = length (filter (\<lambda>kv. P (snd kv)) t)"

text \<open>Change the entry of a key in place; a key without an entry is left without one.\<close>

definition modify :: "'k \<Rightarrow> ('v \<Rightarrow> 'v) \<Rightarrow> ('k \<times> 'v) list \<Rightarrow> ('k \<times> 'v) list" where
  "modify k f t = map (\<lambda>(k', v). (k', if k' = k then f v else v)) t"

text \<open>Keep the entries that satisfy a predicate (Go's \<^verbatim>\<open>for k, v := range m { if ... delete(m, k) }\<close>).\<close>

definition keep_if :: "('k \<Rightarrow> 'v \<Rightarrow> bool) \<Rightarrow> ('k \<times> 'v) list \<Rightarrow> ('k \<times> 'v) list" where
  "keep_if P t = filter (\<lambda>(k, v). P k v) t"

lemma keys_modify [simp]: "map fst (modify k f t) = map fst t"
  by (induction t) (auto simp: modify_def)

lemma map_of_modify [table_simps]:
  "map_of (modify k f t) k' = (if k' = k then map_option f (map_of t k) else map_of t k')"
  by (induction t) (auto simp: modify_def)

lemma keys_distinct_update [simp]: "keys_distinct (AList.update k v t) = keys_distinct t"
  by (induction t) (auto simp: update_keys)

lemma keys_distinct_delete [simp]: "keys_distinct t \<Longrightarrow> keys_distinct (AList.delete k t)"
  by (simp add: distinct_delete)

lemma keys_distinct_keep [simp]: "keys_distinct t \<Longrightarrow> keys_distinct (keep_if P t)"
  by (simp add: keep_if_def distinct_map_filter)

lemma map_of_update [table_simps]:
  "map_of (AList.update k v t) k' = (if k' = k then Some v else map_of t k')"
  by (simp add: update_conv')

lemma map_of_delete [table_simps]:
  "map_of (AList.delete k t) k' = (if k' = k then None else map_of t k')"
  by (simp add: delete_conv')

lemma map_of_keep [table_simps]:
  "keys_distinct t \<Longrightarrow>
   map_of (keep_if P t) k =
     (case map_of t k of None \<Rightarrow> None | Some v \<Rightarrow> if P k v then Some v else None)"
  by (induction t) (auto simp: keep_if_def map_of_eq_None_iff split: option.splits intro: rev_image_eqI)

lemma update_fresh: "k \<notin> fst ` set t \<Longrightarrow> AList.update k v t = t @ [(k, v)]"
  by (induction t) auto

lemma length_update_le: "length (AList.update k r t) \<le> (if map_of t k = None then Suc (length t) else length t)"
  by (induction t) auto

lemma set_update_sub: "set (AList.update k r t) \<subseteq> insert (k, r) (set t)"
  by (induction t) auto

lemma set_delete: "set (AList.delete k t) = {x \<in> set t. fst x \<noteq> k}"
  by (auto simp: AList.delete_eq)

lemma count_if_Nil [simp]: "count_if P [] = 0"
  by (simp add: count_if_def)

lemma count_if_Cons: "count_if P (kv # t) = (if P (snd kv) then 1 else 0) + count_if P t"
  by (simp add: count_if_def)

lemma count_if_delete_le: "count_if P (AList.delete k t) \<le> count_if P t"
  by (induction t) (auto simp: count_if_Cons)

lemma count_if_keep_le: "count_if P (keep_if Q t) \<le> count_if P t"
  by (induction t) (auto simp: count_if_Cons keep_if_def)

lemma count_if_update_le: "count_if P (AList.update k v t) \<le> count_if P t + (if P v then 1 else 0)"
  by (induction t) (auto simp: count_if_Cons)

lemma count_if_update_eq:
  "map_of t k = None \<Longrightarrow> count_if P (AList.update k v t) = count_if P t + (if P v then 1 else 0)"
  by (induction t) (auto simp: count_if_Cons split: if_splits)

lemma modify_Cons: "modify k f (kv # t) = (fst kv, if fst kv = k then f (snd kv) else snd kv) # modify k f t"
  by (cases kv) (simp add: modify_def)

lemma modify_Nil [simp]: "modify k f [] = []"
  by (simp add: modify_def)

lemma count_if_modify_le:
  assumes "\<And>v. P (f v) \<Longrightarrow> P v"
  shows "count_if P (modify k f t) \<le> count_if P t"
proof (induction t)
  case (Cons kv t)
  then show ?case using assms [of "snd kv"] by (simp add: count_if_Cons modify_Cons)
qed simp

lemma count_if_modify_eq:
  assumes "\<And>v. P (f v) = P v"
  shows "count_if P (modify k f t) = count_if P t"
  using assms by (induction t) (simp_all add: count_if_Cons modify_Cons)

lemma count_if_mono: "(\<And>v. P v \<Longrightarrow> Q v) \<Longrightarrow> count_if P t \<le> count_if Q t"
  by (induction t) (auto simp: count_if_Cons)

lemma count_if_True [simp]: "count_if (\<lambda>_. True) t = length t"
  by (simp add: count_if_def)

lemma count_if_le_length: "count_if P t \<le> length t"
  by (simp add: count_if_def)

lemma length_modify [simp]: "length (modify k f t) = length t"
  by (simp add: modify_def)

lemma length_delete_some: "map_of t k = Some v \<Longrightarrow> length (AList.delete k t) < length t"
  by (induction t) (auto simp: le_imp_less_Suc length_delete_le split: if_splits)

lemma count_if_delete_some:
  "keys_distinct t \<Longrightarrow> map_of t k = Some v \<Longrightarrow>
   count_if P t = count_if P (AList.delete k t) + (if P v then 1 else 0)"
proof (induction t)
  case (Cons kv t)
  show ?case
  proof (cases "fst kv = k")
    case True
    with Cons.prems have "k \<notin> fst ` set t" by auto
    then have "AList.delete k t = t" by (rule delete_id)
    with True Cons.prems show ?thesis by (cases kv) (simp add: count_if_Cons)
  next
    case False
    with Cons show ?thesis by (cases kv) (simp add: count_if_Cons)
  qed
qed simp

subsection \<open>Runs of a component\<close>

text \<open>
  A component is a state and a step per event.  \<open>run\<close> is a sequence of atomic events,
  \<open>admissible\<close> says that every event of it meets a side condition in the state it meets.
  A Go method that holds its lock throughout is one event; a method that releases the lock is
  one event per critical section, so a \<open>run\<close> is an arbitrary interleaving of goroutines.
\<close>

primrec run :: "('e \<Rightarrow> 's \<Rightarrow> 's) \<Rightarrow> 'e list \<Rightarrow> 's \<Rightarrow> 's" where
  "run step [] s = s"
| "run step (e # es) s = run step es (step e s)"

primrec admissible :: "('e \<Rightarrow> 's \<Rightarrow> 's) \<Rightarrow> ('e \<Rightarrow> 's \<Rightarrow> bool) \<Rightarrow> 'e list \<Rightarrow> 's \<Rightarrow> bool" where
  "admissible step ok [] s = True"
| "admissible step ok (e # es) s = (ok e s \<and> admissible step ok es (step e s))"

lemma run_append [simp]: "run step (es @ fs) s = run step fs (run step es s)"
  by (induction es arbitrary: s) auto

locale guarded_machine =
  fixes step :: "'e \<Rightarrow> 's \<Rightarrow> 's"
    and ok :: "'e \<Rightarrow> 's \<Rightarrow> bool"
    and inv :: "'s \<Rightarrow> bool"
  assumes step_inv: "inv s \<Longrightarrow> ok e s \<Longrightarrow> inv (step e s)"
begin

lemma run_inv: "inv s \<Longrightarrow> admissible step ok es s \<Longrightarrow> inv (run step es s)"
  by (induction es arbitrary: s) (auto intro: step_inv)

end

text \<open>The machine of a component whose steps keep the invariant unconditionally.\<close>

locale machine =
  fixes step :: "'e \<Rightarrow> 's \<Rightarrow> 's"
    and inv :: "'s \<Rightarrow> bool"
  assumes step_inv: "inv s \<Longrightarrow> inv (step e s)"
begin

lemma run_inv: "inv s \<Longrightarrow> inv (run step es s)"
  by (induction es arbitrary: s) (auto intro: step_inv)

end

text \<open>
  A machine whose events are the calls of owners: what one owner can see is not changed by the calls
  of another.
\<close>

locale owner_machine = guarded_machine step ok inv
  for step :: "'e \<Rightarrow> 's \<Rightarrow> 's" and ok :: "'e \<Rightarrow> 's \<Rightarrow> bool" and inv :: "'s \<Rightarrow> bool" +
  fixes view :: "string \<Rightarrow> 's \<Rightarrow> 'v"
    and actor :: "'e \<Rightarrow> string option"
  assumes isolated: "inv s \<Longrightarrow> ok e s \<Longrightarrow> actor e = Some a \<Longrightarrow> a \<noteq> b \<Longrightarrow> view b (step e s) = view b s"
begin

lemma run_isolated:
  "inv s \<Longrightarrow> admissible step ok es s \<Longrightarrow> \<forall>e \<in> set es. \<exists>a. actor e = Some a \<and> a \<noteq> b \<Longrightarrow>
     view b (run step es s) = view b s"
proof (induction es arbitrary: s)
  case (Cons e es)
  then obtain a where "actor e = Some a" "a \<noteq> b" by auto
  with Cons isolated [of s e a b] step_inv [of s e] show ?case by simp
qed simp

end

text \<open>
  What the events of a run add up to; and a ledger, where no step spends more than what was held plus what
  it earns, so that no run does.
\<close>

primrec tally :: "('e \<Rightarrow> 's \<Rightarrow> 's) \<Rightarrow> ('e \<Rightarrow> 's \<Rightarrow> nat) \<Rightarrow> 'e list \<Rightarrow> 's \<Rightarrow> nat" where
  "tally step amount [] s = 0"
| "tally step amount (e # es) s = amount e s + tally step amount es (step e s)"

locale ledger =
  fixes step :: "'e \<Rightarrow> 's \<Rightarrow> 's"
    and spent :: "'e \<Rightarrow> 's \<Rightarrow> nat"
    and earned :: "'e \<Rightarrow> 's \<Rightarrow> nat"
    and held :: "'s \<Rightarrow> nat"
  assumes step_balance: "spent e s + held (step e s) \<le> held s + earned e s"
begin

lemma run_balance: "tally step spent es s + held (run step es s) \<le> held s + tally step earned es s"
proof (induction es arbitrary: s)
  case (Cons e es)
  from Cons.IH [of "step e s"] step_balance [of e s] show ?case by simp
qed simp

end

text \<open>The failure a host capability answers with: a code and a message.\<close>

type_synonym host_failure = "string \<times> string"

text \<open>
  What a plugin finds in its storage at the host: nothing, a value it refuses to read (one that does not decode, has another
  version, or lacks a list), or what it decodes to; and a refusal of the host, \<open>Some\<close> of a capability error if it is one.
\<close>

datatype 'a stored = Absent | Unreadable | Readable 'a

type_synonym refusal = "host_failure option option"

text \<open>The largest \<^verbatim>\<open>uint64\<close>.\<close>

definition max_uint64 :: nat where
  "max_uint64 = 2 ^ 64 - 1"

end
