(* ===== verification/TaskModel.thy ===== *)
theory TaskModel
  imports Prelude
begin

section \<open>Task definitions: normalisation, validation, restart delays\<close>

text \<open>
  Models \<^verbatim>\<open>plugins/tasks/backend/model.go\<close>: the records of a persisted task, \<open>normalizeTask\<close>,
  \<open>validateTask\<close>, \<open>validateEnvironment\<close> and the restart backoff.  A nil slice or map is the
  empty list (the code never tells them apart, and \<open>normalizeTask\<close> maps both to nil); a nil
  pointer is \<open>None\<close>.  \<open>check\<close> is what a validation ends with: \<open>Panic\<close> is the nil dereference of
  \<open>t.Restart\<close>, which normalised tasks never reach.
\<close>

definition typeContinuous :: string where "typeContinuous = ''continuous''"
definition typeScheduled :: string where "typeScheduled = ''scheduled''"
definition restartNever :: string where "restartNever = ''never''"
definition restartOnFailure :: string where "restartOnFailure = ''on-failure''"
definition restartAlways :: string where "restartAlways = ''always''"
definition overlapSkip :: string where "overlapSkip = ''skip''"
definition overlapAllow :: string where "overlapAllow = ''allow''"

definition maxTasks :: nat where "maxTasks = 500"
definition maxNameLength :: nat where "maxNameLength = 200"
definition maxDescription :: nat where "maxDescription = 2000"
definition maxCommandString :: nat where "maxCommandString = 32768"
definition maxArguments :: nat where "maxArguments = 1024"
definition maxEnvironment :: nat where "maxEnvironment = 256"
definition maxTimeoutSeconds :: int where "maxTimeoutSeconds = 7 * 24 * 3600"
definition maxRetries :: int where "maxRetries = 1000"
definition maxDelaySeconds :: int where "maxDelaySeconds = 24 * 3600"

lemmas task_limits = maxTasks_def maxNameLength_def maxDescription_def maxCommandString_def
  maxArguments_def maxEnvironment_def maxTimeoutSeconds_def maxRetries_def maxDelaySeconds_def

lemmas task_names = typeContinuous_def typeScheduled_def restartNever_def restartOnFailure_def
  restartAlways_def overlapSkip_def overlapAllow_def

record command =
  cmd_path :: string
  cmd_args :: "string list"
  cmd_workdir :: string
  cmd_environment :: "string table"
  cmd_interpreter :: string

record restart =
  r_mode :: string
  r_initial :: int
  r_max :: int
  r_retries :: int

record schedule =
  s_type :: string
  s_interval :: int
  s_time_of_day :: string
  s_cron :: string
  s_time_zone :: string

record task =
  t_id :: string
  t_name :: string
  t_description :: string
  t_type :: string
  t_command :: command
  t_autostart :: bool
  t_restart :: "restart option"
  t_enabled :: bool
  t_schedule :: "schedule option"
  t_overlap :: string
  t_timeout :: int

datatype check = Valid | Invalid string | Panic

definition interpreters :: "string list" where
  "interpreters = ['''', ''auto'', ''direct'', ''powershell'', ''cmd'', ''sh'', ''bash'', ''sh-inline'', ''python'']"

definition normalizeCommand :: "command \<Rightarrow> command" where
  "normalizeCommand c =
     (let i = to_lower (trim_space (cmd_interpreter c))
      in c\<lparr>cmd_path := trim_space (cmd_path c),
           cmd_interpreter := (if i = ''auto'' then '''' else i)\<rparr>)"

definition normalizeRestart :: "restart option \<Rightarrow> restart" where
  "normalizeRestart r0 =
     (let r = (case r0 of
                 None \<Rightarrow> \<lparr>r_mode = restartOnFailure, r_initial = 2, r_max = 60, r_retries = 0\<rparr>
               | Some r \<Rightarrow>
                   (if r_mode r = '''' then \<lparr>r_mode = restartOnFailure, r_initial = 2, r_max = 60, r_retries = 0\<rparr>
                    else r));
          r = (if r_initial r \<le> 0 then r\<lparr>r_initial := 2\<rparr> else r)
      in (if r_max r \<le> 0 then r\<lparr>r_max := 60\<rparr> else r))"

definition normalizeSchedule :: "schedule \<Rightarrow> schedule" where
  "normalizeSchedule s =
     s\<lparr>s_type := trim_space (s_type s), s_time_of_day := trim_space (s_time_of_day s),
       s_cron := trim_space (s_cron s), s_time_zone := trim_space (s_time_zone s)\<rparr>"

definition normalizeTask :: "task \<Rightarrow> task" where
  "normalizeTask t0 =
     (let t = t0\<lparr>t_name := trim_space (t_name t0), t_description := trim_space (t_description t0),
                 t_command := normalizeCommand (t_command t0)\<rparr>
      in if t_type t = typeContinuous then
           t\<lparr>t_enabled := False, t_schedule := None, t_overlap := '''', t_timeout := 0,
             t_restart := Some (normalizeRestart (t_restart t))\<rparr>
         else if t_type t = typeScheduled then
           t\<lparr>t_autostart := False, t_restart := None,
             t_overlap := (if t_overlap t = '''' then overlapSkip else t_overlap t),
             t_schedule := map_option normalizeSchedule (t_schedule t)\<rparr>
         else t)"

text \<open>
  \<open>validateEnvironment\<close>: one pass over the map, in its iteration order, with the canonical
  names seen so far.
\<close>

fun check_environment :: "string table \<Rightarrow> string table \<Rightarrow> string option" where
  "check_environment seen [] = None"
| "check_environment seen ((name, value) # rest) =
     (if trim_space name = '''' then Some ''environment variable name is required''
      else if CHR ''='' \<in> set name then
        Some (''environment variable name '' @ quoted name @ '' must not contain ='')
      else if 1024 < length name \<or> maxCommandString < length value then
        Some ''environment variable is too long''
      else (case map_of seen (to_upper name) of
          Some previous \<Rightarrow>
            Some (''environment variable names '' @ quoted previous @ '' and '' @ quoted name
                  @ '' conflict on case-insensitive platforms'')
        | None \<Rightarrow> check_environment ((to_upper name, name) # seen) rest))"

definition validateEnvironment :: "string table \<Rightarrow> string option" where
  "validateEnvironment env =
     (if maxEnvironment < length env then Some ''too many environment variables''
      else check_environment [] env)"

definition check_restart :: "restart option \<Rightarrow> check" where
  "check_restart r0 =
     (case r0 of
        None \<Rightarrow> Panic
      | Some r \<Rightarrow>
          (if r_mode r \<noteq> restartNever \<and> r_mode r \<noteq> restartOnFailure \<and> r_mode r \<noteq> restartAlways
           then Invalid ''restart mode must be never, on-failure or always''
           else if r_retries r < 0 \<or> maxRetries < r_retries r \<or> maxDelaySeconds < r_initial r
                   \<or> maxDelaySeconds < r_max r
           then Invalid ''restart limits are out of range''
           else Valid))"

definition check_scheduled :: "task \<Rightarrow> check" where
  "check_scheduled t =
     (if t_schedule t = None then Invalid ''scheduled task requires a schedule''
      else if t_overlap t \<noteq> overlapSkip \<and> t_overlap t \<noteq> overlapAllow then
        Invalid ''overlap policy must be skip or allow''
      else if t_timeout t < 0 \<or> maxTimeoutSeconds < t_timeout t then
        Invalid (''timeoutSeconds must be between 0 and '' @ itoa maxTimeoutSeconds)
      else Valid)"

definition validateTask :: "task \<Rightarrow> check" where
  "validateTask t =
     (let c = t_command t in
      if t_type t \<noteq> typeContinuous \<and> t_type t \<noteq> typeScheduled then
        Invalid ''task type must be continuous or scheduled''
      else if t_name t = '''' then Invalid ''task name is required''
      else if maxNameLength < length (t_name t) \<or> maxDescription < length (t_description t) then
        Invalid ''task name or description is too long''
      else if cmd_path c = '''' then Invalid ''task command is required''
      else if maxCommandString < length (cmd_path c) \<or> maxCommandString < length (cmd_workdir c) then
        Invalid ''task command or working directory is too long''
      else if maxArguments < length (cmd_args c) then Invalid ''task has too many arguments''
      else if list_ex (\<lambda>a. maxCommandString < length a) (cmd_args c) then
        Invalid ''task argument is too long''
      else if cmd_interpreter c \<notin> set interpreters then
        Invalid (''unsupported interpreter '' @ quoted (cmd_interpreter c))
      else (case validateEnvironment (cmd_environment c) of
          Some e \<Rightarrow> Invalid e
        | None \<Rightarrow>
            (if t_type t = typeContinuous then check_restart (t_restart t) else check_scheduled t)))"

text \<open>The doubling loop of \<open>restartDelay\<close>; \<open>seconds *= 2\<close> wraps at 64 bits.\<close>

fun delay_loop :: "nat \<Rightarrow> int \<Rightarrow> int \<Rightarrow> int" where
  "delay_loop 0 cap seconds = seconds"
| "delay_loop (Suc n) cap seconds =
     (let seconds = wrap64 (seconds * 2)
      in if cap \<le> seconds then cap else delay_loop n cap seconds)"

definition restartDelay :: "restart \<Rightarrow> int \<Rightarrow> int" where
  "restartDelay r retry =
     (let base = (if r_initial r \<le> 0 then 2 else r_initial r);
          cap = (if r_max r \<le> 0 then 60 else r_max r)
      in delay_loop (nat retry) cap base)"

subsection \<open>Normalisation\<close>

lemma normalizeCommand_idem [simp]: "normalizeCommand (normalizeCommand c) = normalizeCommand c"
proof -
  have "to_lower (trim_space (to_lower (trim_space i))) = to_lower (trim_space i)" for i
    by (simp add: trim_space_to_lower)
  moreover have "trim_space '''' = ''''" "to_lower '''' = ''''" by (simp_all add: to_lower_def)
  ultimately show ?thesis by (simp add: normalizeCommand_def Let_def)
qed

lemma normalizeRestart_idem [simp]: "normalizeRestart (Some (normalizeRestart r)) = normalizeRestart r"
  by (auto simp: normalizeRestart_def Let_def restartOnFailure_def split: option.splits)

lemma normalizeSchedule_idem [simp]: "normalizeSchedule (normalizeSchedule s) = normalizeSchedule s"
  by (simp add: normalizeSchedule_def)

lemma types_differ [simp]: "typeContinuous \<noteq> typeScheduled" "typeScheduled \<noteq> typeContinuous"
  by (simp_all add: task_names)

lemma normalizeTask_type [simp]: "t_type (normalizeTask t) = t_type t"
  by (simp add: normalizeTask_def Let_def)

lemma normalizeTask_id [simp]: "t_id (normalizeTask t) = t_id t"
  by (simp add: normalizeTask_def Let_def)

text \<open>A task as \<open>normalizeTask\<close> leaves it.\<close>

definition normalized :: "task \<Rightarrow> bool" where
  "normalized t = (normalizeTask t = t)"

lemma normalized_normalizeTask [simp]: "normalized (normalizeTask t)"
  by (simp add: normalized_def normalizeTask_def Let_def option.map_comp o_def overlapSkip_def)

lemma normalized_restart:
  assumes "normalized t" and "t_type t = typeContinuous"
  shows "\<exists>r. t_restart t = Some r \<and> 0 < r_initial r \<and> 0 < r_max r"
proof -
  have "t_restart (normalizeTask t) = Some (normalizeRestart (t_restart t))"
    using assms(2) by (simp add: normalizeTask_def Let_def)
  with assms(1) have "t_restart t = Some (normalizeRestart (t_restart t))"
    by (simp add: normalized_def)
  moreover have "0 < r_initial (normalizeRestart r)" "0 < r_max (normalizeRestart r)" for r
    by (auto simp: normalizeRestart_def Let_def)
  ultimately show ?thesis by metis
qed

subsection \<open>Validation\<close>

definition valid_variable :: "string \<times> string \<Rightarrow> bool" where
  "valid_variable kv =
     (trim_space (fst kv) \<noteq> [] \<and> CHR ''='' \<notin> set (fst kv)
      \<and> length (fst kv) \<le> 1024 \<and> length (snd kv) \<le> maxCommandString)"

lemma valid_variable_pair:
  "valid_variable (name, v) \<longleftrightarrow>
     trim_space name \<noteq> [] \<and> CHR ''='' \<notin> set name \<and> length name \<le> 1024 \<and> length v \<le> maxCommandString"
  by (simp add: valid_variable_def)

definition valid_environment :: "string table \<Rightarrow> bool" where
  "valid_environment env =
     (length env \<le> maxEnvironment \<and> list_all valid_variable env
      \<and> distinct (map (\<lambda>kv. to_upper (fst kv)) env))"

lemma check_environment_None:
  "check_environment seen env = None \<longleftrightarrow>
     list_all valid_variable env \<and> distinct (map (\<lambda>kv. to_upper (fst kv)) env)
     \<and> (\<forall>kv \<in> set env. to_upper (fst kv) \<notin> fst ` set seen)"
proof (induction seen env rule: check_environment.induct)
  case (2 seen name v rest)
  show ?case
  proof (cases "map_of seen (to_upper name)")
    case None
    have nin: "to_upper name \<notin> fst ` set seen" using None by (simp add: map_of_eq_None_iff)
    have "check_environment seen ((name, v) # rest) = None \<longleftrightarrow>
        valid_variable (name, v) \<and> check_environment ((to_upper name, name) # seen) rest = None"
      by (simp add: None valid_variable_pair not_less)
    moreover have "valid_variable (name, v) \<Longrightarrow>
        check_environment ((to_upper name, name) # seen) rest = None \<longleftrightarrow>
        list_all valid_variable rest \<and> distinct (map (\<lambda>kv. to_upper (fst kv)) rest)
        \<and> (\<forall>kv \<in> set rest. to_upper (fst kv) \<notin> fst ` set ((to_upper name, name) # seen))"
      using 2 None by (simp add: valid_variable_pair not_less)
    moreover have "to_upper name \<notin> (\<lambda>kv. to_upper (fst kv)) ` set rest \<longleftrightarrow>
        (\<forall>kv \<in> set rest. to_upper (fst kv) \<noteq> to_upper name)"
      by (metis image_iff)
    ultimately show ?thesis using nin by (cases "valid_variable (name, v)") auto
  next
    case (Some previous)
    then have "to_upper name \<in> fst ` set seen" by (metis map_of_eq_None_iff option.distinct(1))
    with Some show ?thesis by auto
  qed
qed simp

lemma validateEnvironment_None: "validateEnvironment env = None \<longleftrightarrow> valid_environment env"
  by (simp add: validateEnvironment_def valid_environment_def check_environment_None not_less)

definition valid_restart :: "restart option \<Rightarrow> bool" where
  "valid_restart r0 =
     (case r0 of None \<Rightarrow> False
      | Some r \<Rightarrow> r_mode r \<in> {restartNever, restartOnFailure, restartAlways}
          \<and> 0 \<le> r_retries r \<and> r_retries r \<le> maxRetries
          \<and> r_initial r \<le> maxDelaySeconds \<and> r_max r \<le> maxDelaySeconds)"

definition valid_task :: "task \<Rightarrow> bool" where
  "valid_task t =
     (t_type t \<in> {typeContinuous, typeScheduled}
      \<and> t_name t \<noteq> '''' \<and> length (t_name t) \<le> maxNameLength \<and> length (t_description t) \<le> maxDescription
      \<and> cmd_path (t_command t) \<noteq> '''' \<and> length (cmd_path (t_command t)) \<le> maxCommandString
      \<and> length (cmd_workdir (t_command t)) \<le> maxCommandString
      \<and> length (cmd_args (t_command t)) \<le> maxArguments
      \<and> list_all (\<lambda>a. length a \<le> maxCommandString) (cmd_args (t_command t))
      \<and> cmd_interpreter (t_command t) \<in> set interpreters
      \<and> valid_environment (cmd_environment (t_command t))
      \<and> (t_type t = typeContinuous \<longrightarrow> valid_restart (t_restart t))
      \<and> (t_type t = typeScheduled \<longrightarrow> t_schedule t \<noteq> None \<and> t_overlap t \<in> {overlapSkip, overlapAllow}
           \<and> 0 \<le> t_timeout t \<and> t_timeout t \<le> maxTimeoutSeconds))"

lemma check_restart_Valid: "check_restart r = Valid \<longleftrightarrow> valid_restart r"
  by (auto simp: check_restart_def valid_restart_def split: option.splits)

lemma check_scheduled_Valid:
  "check_scheduled t = Valid \<longleftrightarrow>
     t_schedule t \<noteq> None \<and> t_overlap t \<in> {overlapSkip, overlapAllow}
     \<and> 0 \<le> t_timeout t \<and> t_timeout t \<le> maxTimeoutSeconds"
  by (auto simp: check_scheduled_def)

lemma list_ex_less: "list_ex (\<lambda>a. n < length a) xs \<longleftrightarrow> \<not> list_all (\<lambda>a. length a \<le> n) xs"
  by (auto simp: list_ex_iff list_all_iff not_le)

lemma validateTask_valid: "validateTask t = Valid \<longleftrightarrow> valid_task t"
  unfolding validateTask_def valid_task_def Let_def validateEnvironment_None [symmetric] list_ex_less
  by (simp add: check_restart_Valid check_scheduled_Valid not_less split: option.split)

lemma validateTask_no_panic: "normalized t \<Longrightarrow> validateTask t \<noteq> Panic"
proof -
  assume "normalized t"
  then have "t_type t = typeContinuous \<Longrightarrow> check_restart (t_restart t) \<noteq> Panic"
    by (auto simp: check_restart_def dest: normalized_restart split: option.splits if_splits)
  moreover have "check_scheduled t \<noteq> Panic" by (simp add: check_scheduled_def)
  ultimately show ?thesis
    by (simp add: validateTask_def Let_def split: option.split)
qed

subsection \<open>The restart delay\<close>

lemma delay_loop_value:
  assumes "0 < s" and "s \<le> 2 ^ 61" and "cap \<le> 2 ^ 61"
  shows "delay_loop n cap s = (if n = 0 then s else min cap (s * 2 ^ n))"
  using assms
proof (induction n arbitrary: s)
  case (Suc n)
  have w: "wrap64 (s * 2) = s * 2"
    using Suc.prems by (intro wrap64_id) (auto simp: max_int64_def)
  have grow: "s * 2 \<le> s * 2 * 2 ^ n" using Suc.prems by simp
  show ?case
  proof (cases "cap \<le> s * 2")
    case True
    with grow have "cap \<le> s * 2 * 2 ^ n" by linarith
    with True w show ?thesis by (simp add: mult.assoc)
  next
    case False
    with Suc.IH [of "s * 2"] Suc.prems have "delay_loop n cap (s * 2) = min cap (s * 2 * 2 ^ n)"
      by auto
    with False w show ?thesis by (simp add: mult.assoc)
  qed
qed simp

text \<open>The delay before the \<open>n\<close>-th restart of a continuous task: with an initial delay and a
  maximum inside the range (the defaults 2 and 60 standing in for values that are not positive),
  the first restart waits the initial delay, whatever the maximum is, and restart \<open>n > 0\<close> waits
  the initial delay doubled \<open>n\<close> times, capped at the maximum.  The doubling never overflows.\<close>

lemma restartDelay_value:
  assumes "r_initial r \<le> maxDelaySeconds" and "r_max r \<le> maxDelaySeconds" and "0 \<le> retry"
  shows "restartDelay r retry =
    (let base = (if r_initial r \<le> 0 then 2 else r_initial r);
         cap = (if r_max r \<le> 0 then 60 else r_max r)
     in if retry = 0 then base else min cap (base * 2 ^ nat retry))"
proof -
  let ?base = "if r_initial r \<le> 0 then 2 else r_initial r"
  let ?cap = "if r_max r \<le> 0 then 60 else r_max r"
  have "0 < ?base" "?base \<le> 2 ^ 61" "?cap \<le> 2 ^ 61"
    using assms by (auto simp: maxDelaySeconds_def)
  then have "delay_loop (nat retry) ?cap ?base
      = (if nat retry = 0 then ?base else min ?cap (?base * 2 ^ nat retry))"
    by (rule delay_loop_value)
  then show ?thesis using assms(3) unfolding restartDelay_def Let_def by simp
qed

lemma restartDelay_value_witness:
  "map (restartDelay \<lparr>r_mode = restartAlways, r_initial = 7, r_max = 50, r_retries = 0\<rparr>) [0, 1, 2, 3] = [7, 14, 28, 50]
   \<and> restartDelay \<lparr>r_mode = restartAlways, r_initial = 90, r_max = 50, r_retries = 0\<rparr> 0 = 90"
  using restartDelay_value [of "\<lparr>r_mode = restartAlways, r_initial = 7, r_max = 50, r_retries = 0\<rparr>"]
    restartDelay_value [of "\<lparr>r_mode = restartAlways, r_initial = 90, r_max = 50, r_retries = 0\<rparr>" 0]
  by (simp add: maxDelaySeconds_def Let_def)

text \<open>\<open>validateTask\<close> accepts exactly the tasks that meet every documented bound, and on a task
  that \<open>normalizeTask\<close> has left it never dereferences a missing restart policy.\<close>

lemma validateTask_spec:
  "(validateTask t = Valid) = valid_task t \<and> validateTask (normalizeTask t) \<noteq> Panic"
  by (simp add: validateTask_valid validateTask_no_panic)

text \<open>Normalising is idempotent, keeps the identity and the type of a task, and leaves it
  unambiguous: a continuous task has a restart policy with positive delays and no scheduling
  field, a scheduled task has an overlap policy and no restart field.\<close>

lemma normalizeTask_canonical:
  "normalizeTask (normalizeTask t) = normalizeTask t
   \<and> t_id (normalizeTask t) = t_id t \<and> t_type (normalizeTask t) = t_type t
   \<and> (t_type t = typeContinuous \<longrightarrow>
        \<not> t_enabled (normalizeTask t) \<and> t_schedule (normalizeTask t) = None
        \<and> t_overlap (normalizeTask t) = '''' \<and> t_timeout (normalizeTask t) = 0
        \<and> (\<exists>r. t_restart (normalizeTask t) = Some r \<and> 0 < r_initial r \<and> 0 < r_max r))
   \<and> (t_type t = typeScheduled \<longrightarrow>
        \<not> t_autostart (normalizeTask t) \<and> t_restart (normalizeTask t) = None
        \<and> t_overlap (normalizeTask t) \<noteq> '''')"
proof -
  have "normalizeTask (normalizeTask t) = normalizeTask t"
    using normalized_normalizeTask [of t] by (simp only: normalized_def)
  moreover have "t_type t = typeContinuous \<Longrightarrow>
      \<exists>r. t_restart (normalizeTask t) = Some r \<and> 0 < r_initial r \<and> 0 < r_max r"
    by (rule normalized_restart) simp_all
  moreover have "t_type t = typeContinuous \<Longrightarrow> \<not> t_enabled (normalizeTask t)
      \<and> t_schedule (normalizeTask t) = None \<and> t_overlap (normalizeTask t) = ''''
      \<and> t_timeout (normalizeTask t) = 0"
    by (simp add: normalizeTask_def Let_def)
  moreover have "t_type t = typeScheduled \<Longrightarrow> \<not> t_autostart (normalizeTask t)
      \<and> t_restart (normalizeTask t) = None \<and> t_overlap (normalizeTask t) \<noteq> ''''"
    by (simp add: normalizeTask_def Let_def overlapSkip_def)
  ultimately show ?thesis by (metis normalizeTask_id normalizeTask_type)
qed

definition sample_command :: command where
  "sample_command = \<lparr>cmd_path = '' /bin/run '', cmd_args = [], cmd_workdir = '''',
     cmd_environment = [], cmd_interpreter = ''AUTO''\<rparr>"

definition sample_task :: "string \<Rightarrow> task" where
  "sample_task ty = \<lparr>t_id = ''task-1'', t_name = '' backup '', t_description = '''', t_type = ty,
     t_command = sample_command, t_autostart = True, t_restart = None, t_enabled = True,
     t_schedule = Some \<lparr>s_type = ''cron '', s_interval = 0, s_time_of_day = '''', s_cron = ''@daily'',
       s_time_zone = ''''\<rparr>, t_overlap = '''', t_timeout = 5\<rparr>"

lemma normalizeTask_canonical_witness:
  "(\<exists>r. t_restart (normalizeTask (sample_task typeContinuous)) = Some r \<and> 0 < r_max r)
   \<and> t_overlap (normalizeTask (sample_task typeScheduled)) \<noteq> ''''"
  using normalizeTask_canonical [of "sample_task typeContinuous"]
    normalizeTask_canonical [of "sample_task typeScheduled"]
  by (auto simp: sample_task_def)

end
