(* ===== verification/Tasks.thy ===== *)
theory Tasks
  imports TaskModel "HOL-Library.Product_Lexorder"
begin

section \<open>The tasks plugin: state, host calls, executions\<close>

text \<open>
  Models \<^verbatim>\<open>plugins/tasks/backend/plugin.go\<close>.  The plugin is the record \<open>plugin\<close>; its field
  \<open>p_calls\<close> is a ghost that lists the host calls made so far, newest first.  The capability host
  is not part of the plugin: it is a parameter \<open>h :: host\<close> whose replies are arbitrary functions of
  the call and of the calls before it, so a theorem for all \<open>h\<close> holds for every behaviour of the
  host, errors included.  A reply is a decoded JSON value; a reply that does not decode is an
  error, as in the code.  RunPilot serialises the entries of a module, so an operation is one
  function on the state.  A Go pointer \<open>r := pl.rt[id]\<close> is the entry of \<open>id\<close> in \<open>p_rt\<close>, updated in
  place with \<open>upd_rt\<close>.
\<close>

subsection \<open>Data\<close>

definition stateStopped :: string where "stateStopped = ''stopped''"
definition stateRunning :: string where "stateRunning = ''running''"
definition stateStopping :: string where "stateStopping = ''stopping''"
definition stateRestarting :: string where "stateRestarting = ''restarting''"

lemmas task_states = stateStopped_def stateRunning_def stateStopping_def stateRestarting_def

lemma task_states_differ [simp]:
  "stateStopped \<noteq> stateRunning" "stateRunning \<noteq> stateStopped"
  "stateStopped \<noteq> stateStopping" "stateStopping \<noteq> stateStopped"
  "stateStopped \<noteq> stateRestarting" "stateRestarting \<noteq> stateStopped"
  "stateRunning \<noteq> stateStopping" "stateStopping \<noteq> stateRunning"
  "stateRunning \<noteq> stateRestarting" "stateRestarting \<noteq> stateRunning"
  "stateStopping \<noteq> stateRestarting" "stateRestarting \<noteq> stateStopping"
  by (simp_all add: task_states)

definition restartPrefix :: string where "restartPrefix = ''restart:''"

datatype host_error = Capability (cap_code: string) (cap_message: string) | Transport string

record rpc_error =
  e_code :: string
  e_message :: string

datatype op_error = HostErr host_error | RpcErr rpc_error

record state_file =
  sf_version :: int
  sf_next :: int
  sf_tasks :: "task list"

datatype stored = StoredNothing | StoredUnreadable string | StoredState state_file

record task_runtime =
  rt_state :: string
  rt_desired :: bool
  rt_pending :: bool
  rt_timer :: bool
  rt_count :: int
  rt_process :: string
  rt_pid :: int
  rt_active :: int
  rt_run :: string
  rt_started :: string
  rt_last_run :: string
  rt_last_at :: string
  rt_last_exit :: "int option"
  rt_last_success :: "bool option"
  rt_message :: string
  rt_err :: string

record proc_ref =
  pr_task :: string
  pr_run :: string
  pr_started :: string
  pr_timeout :: int

record task_status =
  st_state :: string
  st_pid :: int
  st_started :: string
  st_restarts :: int
  st_run :: string
  st_running :: int
  st_last_run :: string
  st_last_at :: string
  st_last_exit :: "int option"
  st_last_success :: "bool option"
  st_message :: string
  st_error :: string

record view =
  v_task :: task
  v_status :: task_status

record process_start =
  ps_command :: command
  ps_interpreter :: string
  ps_timeout :: int
  ps_history :: string

record proc_status =
  status_running :: bool
  status_code :: "int option"
  status_terminated :: bool
  status_timed_out :: bool

record execution =
  x_id :: string
  x_started :: string
  x_exit :: "int option"
  x_success :: "bool option"
  x_message :: string

record run_completed =
  rc_id :: string
  rc_name :: string
  rc_run :: string
  rc_exit :: int
  rc_success :: bool
  rc_message :: string

datatype publication =
    PubStatus view
  | PubChanged string string
  | PubCompleted run_completed

datatype host_call =
    StorageGet string
  | StorageSet string state_file
  | SchedulerRegister string string "schedule option"
  | SchedulerRemove string
  | SchedulerValidate "schedule option"
  | HistoryBegin string string string
  | HistoryAppend string string
  | HistoryFinish string "int option" bool string
  | HistoryList string int
  | HistoryGet string
  | HistoryOutput string int
  | ProcessStart process_start
  | ProcessStatus string
  | ProcessTerminate string
  | EventsPublish publication

type_synonym 'r answer = "host_call list \<Rightarrow> host_call \<Rightarrow> 'r"

record host =
  h_unit :: "host_error option answer"
  h_storage :: "(host_error, stored) result answer"
  h_begin :: "(host_error, string \<times> string) result answer"
  h_start :: "(host_error, string \<times> int) result answer"
  h_status :: "(host_error, proc_status) result answer"
  h_list :: "(host_error, execution list) result answer"
  h_get :: "(host_error, string) result answer"
  h_output :: "(host_error, string \<times> int \<times> bool) result answer"

record plugin =
  p_tasks :: "task list"
  p_next :: int
  p_loadError :: string
  p_rt :: "task_runtime table"
  p_procs :: "proc_ref table"
  p_calls :: "host_call list"

definition new_runtime :: task_runtime where
  "new_runtime = \<lparr>rt_state = stateStopped, rt_desired = False, rt_pending = False, rt_timer = False,
     rt_count = 0, rt_process = '''', rt_pid = 0, rt_active = 0, rt_run = '''', rt_started = '''',
     rt_last_run = '''', rt_last_at = '''', rt_last_exit = None, rt_last_success = None,
     rt_message = '''', rt_err = ''''\<rparr>"

definition newPlugin :: plugin where
  "newPlugin = \<lparr>p_tasks = [], p_next = 1, p_loadError = '''', p_rt = [], p_procs = [], p_calls = []\<rparr>"

subsection \<open>Host calls and state access\<close>

definition ask :: "'r answer \<Rightarrow> host_call \<Rightarrow> plugin \<Rightarrow> 'r \<times> plugin" where
  "ask answer c pl = (answer (p_calls pl) c, pl\<lparr>p_calls := c # p_calls pl\<rparr>)"

text \<open>A call whose result the code ignores.\<close>

definition tell :: "host \<Rightarrow> host_call \<Rightarrow> plugin \<Rightarrow> plugin" where
  "tell h c pl = snd (ask (h_unit h) c pl)"

definition errText :: "host_error \<Rightarrow> string" where
  "errText e = (case e of Capability code m \<Rightarrow> m | Transport m \<Rightarrow> m)"

definition isNotFound :: "host_error \<Rightarrow> bool" where
  "isNotFound e = (case e of Capability code m \<Rightarrow> code = ''not_found'' | Transport m \<Rightarrow> False)"

definition hostFailure :: "host_error \<Rightarrow> rpc_error" where
  "hostFailure e =
     (case e of Capability code m \<Rightarrow> \<lparr>e_code = code, e_message = m\<rparr>
      | Transport m \<Rightarrow> \<lparr>e_code = ''host_failure'', e_message = m\<rparr>)"

definition rpcFail :: "string \<Rightarrow> string \<Rightarrow> rpc_error" where
  "rpcFail code message = \<lparr>e_code = code, e_message = message\<rparr>"

definition find_task :: "string \<Rightarrow> task list \<Rightarrow> task option" where
  "find_task i ts = find (\<lambda>t. t_id t = i) ts"

definition runtimeOf :: "string \<Rightarrow> plugin \<Rightarrow> task_runtime \<times> plugin" where
  "runtimeOf i pl =
     (case map_of (p_rt pl) i of
        Some r \<Rightarrow> (r, pl)
      | None \<Rightarrow> (new_runtime, pl\<lparr>p_rt := AList.update i new_runtime (p_rt pl)\<rparr>))"

definition upd_rt :: "string \<Rightarrow> (task_runtime \<Rightarrow> task_runtime) \<Rightarrow> plugin \<Rightarrow> plugin" where
  "upd_rt i f pl = pl\<lparr>p_rt := modify i f (p_rt pl)\<rparr>"

definition publish :: "host \<Rightarrow> publication \<Rightarrow> plugin \<Rightarrow> plugin" where
  "publish h d pl = tell h (EventsPublish d) pl"

subsection \<open>Views\<close>

definition view_of :: "task \<Rightarrow> task_runtime \<Rightarrow> view" where
  "view_of t r =
     (let s = \<lparr>st_state = '''', st_pid = 0, st_started = rt_started r, st_restarts = rt_count r,
               st_run = rt_run r, st_running = 0, st_last_run = rt_last_run r, st_last_at = rt_last_at r,
               st_last_exit = rt_last_exit r, st_last_success = rt_last_success r,
               st_message = rt_message r, st_error = rt_err r\<rparr>
      in \<lparr>v_task = t,
          v_status =
            (if t_type t = typeScheduled then
               s\<lparr>st_running := rt_active r,
                 st_state := (if 0 < rt_active r then stateRunning
                              else if rt_last_success r = Some False then ''failure'' else ''idle''),
                 st_pid := rt_pid r,
                 st_started := (if rt_active r = 0 then '''' else rt_started r)\<rparr>
             else s\<lparr>st_state := rt_state r, st_pid := rt_pid r\<rparr>)\<rparr>)"

definition view_task :: "task \<Rightarrow> plugin \<Rightarrow> view \<times> plugin" where
  "view_task t pl = (let (r, pl) = runtimeOf (t_id t) pl in (view_of t r, pl))"

definition publishStatus :: "host \<Rightarrow> task \<Rightarrow> plugin \<Rightarrow> plugin" where
  "publishStatus h t pl = (let (v, pl) = view_task t pl in publish h (PubStatus v) pl)"

fun view_all :: "task list \<Rightarrow> plugin \<Rightarrow> view list \<times> plugin" where
  "view_all [] pl = ([], pl)"
| "view_all (t # ts) pl =
     (let (v, pl) = view_task t pl; (vs, pl) = view_all ts pl in (v # vs, pl))"

definition views :: "plugin \<Rightarrow> view list \<times> plugin" where
  "views pl =
     (let (vs, pl) = view_all (p_tasks pl) pl
      in (sort_key (\<lambda>v. (to_lower (t_name (v_task v)), t_id (v_task v))) vs, pl))"

subsection \<open>Schedules\<close>

definition register :: "host \<Rightarrow> string \<Rightarrow> string \<Rightarrow> schedule option \<Rightarrow> plugin \<Rightarrow> host_error option \<times> plugin" where
  "register h i callback s pl = ask (h_unit h) (SchedulerRegister i callback s) pl"

definition unregister :: "host \<Rightarrow> string \<Rightarrow> plugin \<Rightarrow> plugin" where
  "unregister h i pl = tell h (SchedulerRemove i) pl"

definition applySchedule :: "host \<Rightarrow> task \<Rightarrow> plugin \<Rightarrow> host_error option \<times> plugin" where
  "applySchedule h t pl =
     (let pl = unregister h (t_id t) pl
      in if t_type t = typeScheduled \<and> t_enabled t then register h (t_id t) ''task'' (t_schedule t) pl
         else (None, pl))"

definition validateSchedule :: "host \<Rightarrow> task \<Rightarrow> plugin \<Rightarrow> host_error option \<times> plugin" where
  "validateSchedule h t pl =
     (if t_type t \<noteq> typeScheduled then (None, pl)
      else ask (h_unit h) (SchedulerValidate (t_schedule t)) pl)"

definition cancelRestartTimer :: "host \<Rightarrow> string \<Rightarrow> plugin \<Rightarrow> plugin" where
  "cancelRestartTimer h i pl =
     (let (r, pl) = runtimeOf i pl
      in if rt_timer r then upd_rt i (\<lambda>r. r\<lparr>rt_timer := False\<rparr>) (unregister h (restartPrefix @ i) pl)
         else pl)"

subsection \<open>Executions\<close>

definition finishExecution :: "host \<Rightarrow> string \<Rightarrow> int option \<Rightarrow> bool \<Rightarrow> string \<Rightarrow> plugin \<Rightarrow> plugin" where
  "finishExecution h runID code success message pl = tell h (HistoryFinish runID code success message) pl"

definition start_request :: "task \<Rightarrow> string \<Rightarrow> process_start" where
  "start_request t runID =
     \<lparr>ps_command = t_command t,
      ps_interpreter = (if cmd_interpreter (t_command t) = '''' then ''auto'' else cmd_interpreter (t_command t)),
      ps_timeout = t_timeout t, ps_history = runID\<rparr>"

definition launch_failed :: "host \<Rightarrow> task \<Rightarrow> string \<Rightarrow> string \<Rightarrow> string \<Rightarrow> plugin \<Rightarrow> plugin" where
  "launch_failed h t runID started message pl =
     (let pl = tell h (HistoryAppend runID (''start error: '' @ message @ [CHR 0x0A])) pl;
          pl = finishExecution h runID (Some (- 1)) False message pl;
          pl = upd_rt (t_id t) (\<lambda>r. r\<lparr>rt_last_run := runID, rt_last_at := started,
                 rt_last_exit := Some (- 1), rt_last_success := Some False, rt_message := message\<rparr>) pl
      in publish h (PubCompleted \<lparr>rc_id = t_id t, rc_name = t_name t, rc_run = runID, rc_exit = - 1,
           rc_success = False, rc_message = message\<rparr>) pl)"

definition launch_started :: "task \<Rightarrow> string \<Rightarrow> string \<Rightarrow> string \<Rightarrow> int \<Rightarrow> plugin \<Rightarrow> plugin" where
  "launch_started t runID started processID pid pl =
     (let ref = \<lparr>pr_task = t_id t, pr_run = runID, pr_started = started, pr_timeout = t_timeout t\<rparr>
      in upd_rt (t_id t) (\<lambda>r. r\<lparr>rt_process := processID, rt_pid := pid, rt_run := runID,
           rt_started := started, rt_message := ''''\<rparr>)
           (pl\<lparr>p_procs := AList.update processID ref (p_procs pl)\<rparr>))"

definition launch :: "host \<Rightarrow> task \<Rightarrow> plugin \<Rightarrow> (host_error, string) result \<times> plugin" where
  "launch h t pl =
     (let kind = (if t_type t = typeScheduled then ''command'' else ''process'');
          (begin_reply, pl) = ask (h_begin h) (HistoryBegin kind (t_id t) (t_name t)) pl
      in case begin_reply of
           Inl e \<Rightarrow> (Inl e, pl)
         | Inr (runID, started) \<Rightarrow>
             (let (start_reply, pl) = ask (h_start h) (ProcessStart (start_request t runID)) pl
              in case start_reply of
                   Inl e \<Rightarrow> (Inl e, launch_failed h t runID started (errText e) pl)
                 | Inr (processID, pid) \<Rightarrow> (Inr runID, launch_started t runID started processID pid pl)))"

definition clear_process :: "task_runtime \<Rightarrow> task_runtime" where
  "clear_process r = r\<lparr>rt_process := '''', rt_pid := 0, rt_run := '''', rt_started := ''''\<rparr>"

definition spawn :: "host \<Rightarrow> task \<Rightarrow> plugin \<Rightarrow> host_error option \<times> plugin" where
  "spawn h t pl =
     (let (reply, pl) = launch h t pl
      in case reply of
           Inl e \<Rightarrow>
             (Some e, publishStatus h t (upd_rt (t_id t)
               (\<lambda>r. clear_process (r\<lparr>rt_state := stateStopped, rt_desired := False\<rparr>)) pl))
         | Inr _ \<Rightarrow>
             (None, publishStatus h t (upd_rt (t_id t) (\<lambda>r. r\<lparr>rt_state := stateRunning\<rparr>) pl)))"

record exit_info =
  ei_code :: int
  ei_success :: bool
  ei_terminated :: bool
  ei_timed_out :: bool

definition exitMessage :: "proc_ref \<Rightarrow> exit_info \<Rightarrow> string" where
  "exitMessage ref info =
     (if ei_timed_out info then ''timed out after '' @ itoa (pr_timeout ref) @ '' seconds''
      else if ei_terminated info then ''stopped''
      else if \<not> ei_success info then ''exit code '' @ itoa (ei_code info)
      else '''')"

definition schedule_restart :: "host \<Rightarrow> task \<Rightarrow> restart \<Rightarrow> task_runtime \<Rightarrow> plugin \<Rightarrow> plugin" where
  "schedule_restart h t policy r pl =
     (let delay = restartDelay policy (rt_count r);
          pl = upd_rt (t_id t) (\<lambda>r. r\<lparr>rt_count := rt_count r + 1\<rparr>) pl;
          (err, pl) = register h (restartPrefix @ t_id t) ''restart''
            (Some \<lparr>s_type = ''interval'', s_interval = delay, s_time_of_day = '''', s_cron = '''', s_time_zone = ''''\<rparr>) pl
      in case err of
           Some e \<Rightarrow>
             publishStatus h t (upd_rt (t_id t) (\<lambda>r. r\<lparr>rt_desired := False,
               rt_message := ''restart not scheduled: '' @ errText e\<rparr>) pl)
         | None \<Rightarrow>
             publishStatus h t (upd_rt (t_id t) (\<lambda>r. r\<lparr>rt_timer := True, rt_state := stateRestarting\<rparr>) pl))"

definition wants_restart :: "task_runtime \<Rightarrow> restart option \<Rightarrow> bool \<Rightarrow> bool" where
  "wants_restart r policy success =
     (rt_desired r \<and> (case policy of None \<Rightarrow> False
        | Some p \<Rightarrow> r_mode p = restartAlways \<or> (r_mode p = restartOnFailure \<and> \<not> success)))"

definition continuousExited :: "host \<Rightarrow> task \<Rightarrow> exit_info \<Rightarrow> bool \<Rightarrow> plugin \<Rightarrow> plugin" where
  "continuousExited h t info success pl0 =
     (let pl = upd_rt (t_id t) (\<lambda>r. (clear_process r)\<lparr>rt_state := stateStopped\<rparr>) pl0;
          (r, pl) = runtimeOf (t_id t) pl
      in if rt_pending r then
           snd (spawn h t (upd_rt (t_id t) (\<lambda>r. r\<lparr>rt_pending := False, rt_count := 0, rt_desired := True\<rparr>) pl))
         else if \<not> wants_restart r (t_restart t) success then publishStatus h t pl
         else (case t_restart t of
             None \<Rightarrow> pl
           | Some policy \<Rightarrow>
               (if 0 < r_retries policy \<and> r_retries policy \<le> rt_count r then
                  publishStatus h t (upd_rt (t_id t) (\<lambda>r. r\<lparr>rt_desired := False,
                    rt_message := ''restart limit reached ('' @ itoa (r_retries policy) @ '')''\<rparr>) pl)
                else schedule_restart h t policy r pl)))"

definition record_exit :: "proc_ref \<Rightarrow> exit_info \<Rightarrow> bool \<Rightarrow> string \<Rightarrow> task_runtime \<Rightarrow> task_runtime" where
  "record_exit ref info success message r =
     r\<lparr>rt_last_run := pr_run ref, rt_last_at := pr_started ref, rt_last_exit := Some (ei_code info),
       rt_last_success := Some success, rt_message := (if success then '''' else message)\<rparr>"

definition scheduled_exited :: "task_runtime \<Rightarrow> task_runtime" where
  "scheduled_exited r =
     (let r = (if 0 < rt_active r then r\<lparr>rt_active := rt_active r - 1\<rparr> else r)
      in if rt_active r = 0 then clear_process r else r)"

definition processExited :: "host \<Rightarrow> string \<Rightarrow> exit_info \<Rightarrow> plugin \<Rightarrow> plugin" where
  "processExited h processID info pl0 =
     (case map_of (p_procs pl0) processID of
        None \<Rightarrow> pl0
      | Some ref \<Rightarrow>
          (let pl = pl0\<lparr>p_procs := AList.delete processID (p_procs pl0)\<rparr>;
               message = exitMessage ref info;
               success = (ei_success info \<and> \<not> ei_timed_out info);
               pl = finishExecution h (pr_run ref) (Some (ei_code info)) success message pl;
               t0 = find_task (pr_task ref) (p_tasks pl);
               r0 = map_of (p_rt pl) (pr_task ref);
               pl = publish h (PubCompleted \<lparr>rc_id = pr_task ref,
                      rc_name = (case t0 of None \<Rightarrow> '''' | Some t \<Rightarrow> t_name t), rc_run = pr_run ref,
                      rc_exit = ei_code info, rc_success = success, rc_message = message\<rparr>) pl
           in case (t0, r0) of
                (Some t, Some r) \<Rightarrow>
                  (let pl = upd_rt (pr_task ref) (record_exit ref info success message) pl
                   in if t_type t = typeScheduled then
                        publishStatus h t (upd_rt (pr_task ref) scheduled_exited pl)
                      else if rt_process r \<noteq> processID then pl
                      else continuousExited h t info success pl)
              | _ \<Rightarrow> pl))"

definition restartFired :: "host \<Rightarrow> string \<Rightarrow> plugin \<Rightarrow> plugin" where
  "restartFired h i pl =
     (let pl = unregister h (restartPrefix @ i) pl
      in case (find_task i (p_tasks pl), map_of (p_rt pl) i) of
           (Some t, Some r) \<Rightarrow>
             (let pl = upd_rt i (\<lambda>r. r\<lparr>rt_timer := False\<rparr>) pl
              in if rt_state r \<noteq> stateRestarting \<or> \<not> rt_desired r then pl
                 else snd (spawn h t pl))
         | _ \<Rightarrow> pl)"

definition status_exit :: "proc_status \<Rightarrow> exit_info" where
  "status_exit s =
     (let code = (case status_code s of None \<Rightarrow> - 1 | Some c \<Rightarrow> c)
      in \<lparr>ei_code = code, ei_success = (code = 0 \<and> \<not> status_timed_out s),
          ei_terminated = status_terminated s, ei_timed_out = status_timed_out s\<rparr>)"

definition lost_exit :: exit_info where
  "lost_exit = \<lparr>ei_code = - 1, ei_success = False, ei_terminated = False, ei_timed_out = False\<rparr>"

definition reconcile_one :: "host \<Rightarrow> string \<Rightarrow> plugin \<Rightarrow> plugin" where
  "reconcile_one h i pl =
     (let (reply, pl) = ask (h_status h) (ProcessStatus i) pl
      in case reply of
           Inl e \<Rightarrow> if isNotFound e then processExited h i lost_exit pl else pl
         | Inr s \<Rightarrow> if status_running s then pl else processExited h i (status_exit s) pl)"

definition reconcile :: "host \<Rightarrow> plugin \<Rightarrow> plugin" where
  "reconcile h pl = fold (reconcile_one h) (sort (map fst (p_procs pl))) pl"

subsection \<open>Control\<close>

definition terminate :: "host \<Rightarrow> string \<Rightarrow> plugin \<Rightarrow> host_error option \<times> plugin" where
  "terminate h processID pl =
     (let (reply, pl) = ask (h_status h) (ProcessTerminate processID) pl
      in case reply of
           Inl e \<Rightarrow> if isNotFound e then (None, processExited h processID lost_exit pl) else (Some e, pl)
         | Inr s \<Rightarrow> (None, if status_running s then pl else processExited h processID (status_exit s) pl))"

fun terminate_all :: "host \<Rightarrow> string list \<Rightarrow> plugin \<Rightarrow> host_error option \<times> plugin" where
  "terminate_all h [] pl = (None, pl)"
| "terminate_all h (i # ids) pl =
     (let (err, pl) = terminate h i pl
      in if err \<noteq> None then (err, pl) else terminate_all h ids pl)"

definition procs_of :: "string \<Rightarrow> plugin \<Rightarrow> string list" where
  "procs_of i pl = map fst (filter (\<lambda>(_, ref). pr_task ref = i) (p_procs pl))"

definition stopTask :: "host \<Rightarrow> task \<Rightarrow> bool \<Rightarrow> plugin \<Rightarrow> op_error option \<times> plugin" where
  "stopTask h t keepPending pl =
     (let pl = upd_rt (t_id t) (\<lambda>r. r\<lparr>rt_desired := False,
                 rt_pending := (if keepPending then rt_pending r else False)\<rparr>) pl;
          pl = cancelRestartTimer h (t_id t) pl
      in if t_type t = typeScheduled then
           (let (err, pl) = terminate_all h (procs_of (t_id t) pl) pl in (map_option HostErr err, pl))
         else
           (let (r, pl) = runtimeOf (t_id t) pl
            in if rt_process r = '''' then
                 (None, publishStatus h t (upd_rt (t_id t) (\<lambda>r. r\<lparr>rt_state := stateStopped\<rparr>) pl))
               else
                 (let pl = publishStatus h t (upd_rt (t_id t) (\<lambda>r. r\<lparr>rt_state := stateStopping\<rparr>) pl);
                      (err, pl) = terminate h (rt_process r) pl
                  in case err of
                       Some e \<Rightarrow>
                         (Some (HostErr e),
                          publishStatus h t (upd_rt (t_id t) (\<lambda>r'. r'\<lparr>rt_state := rt_state r\<rparr>) pl))
                     | None \<Rightarrow> (None, pl))))"

definition startTask :: "host \<Rightarrow> task \<Rightarrow> plugin \<Rightarrow> op_error option \<times> plugin" where
  "startTask h t pl =
     (let (r, pl) = runtimeOf (t_id t) pl
      in if rt_state r = stateRunning \<or> rt_state r = stateStopping then
           (Some (RpcErr (rpcFail ''already_running''
              (''task '' @ quoted (t_name t) @ '' is already '' @ rt_state r))), pl)
         else
           (let pl = cancelRestartTimer h (t_id t) pl;
                pl = upd_rt (t_id t) (\<lambda>r. r\<lparr>rt_desired := True, rt_count := 0, rt_pending := False,
                       rt_err := ''''\<rparr>) pl;
                (err, pl) = spawn h t pl
            in (map_option HostErr err, pl)))"

definition runNow :: "host \<Rightarrow> task \<Rightarrow> bool \<Rightarrow> plugin \<Rightarrow> (op_error, string) result \<times> plugin" where
  "runNow h t manual pl =
     (let (r, pl) = runtimeOf (t_id t) pl
      in if 0 < rt_active r \<and> t_overlap t \<noteq> overlapAllow then
           (if manual
            then (Inl (RpcErr (rpcFail ''already_running''
                   (''task '' @ quoted (t_name t) @ '' is already running''))), pl)
            else (Inr '''', pl))
         else
           (let (reply, pl) = launch h t pl
            in case reply of
                 Inl e \<Rightarrow> (Inl (HostErr e), publishStatus h t pl)
               | Inr runID \<Rightarrow>
                   (Inr runID, publishStatus h t (upd_rt (t_id t)
                      (\<lambda>r. r\<lparr>rt_active := rt_active r + 1, rt_state := stateRunning\<rparr>) pl))))"

subsection \<open>Persistence\<close>

fun load_tasks :: "string list \<Rightarrow> int \<Rightarrow> task list \<Rightarrow> (task list \<times> int) option" where
  "load_tasks seen next [] = Some ([], next)"
| "load_tasks seen next (t # ts) =
     (if t_id t = '''' \<or> t_id t \<in> set seen then None
      else
        (let next = (case atoi (trim_prefix ''task-'' (t_id t)) of
                       Some n \<Rightarrow> if next \<le> n then wrap64 (n + 1) else next
                     | None \<Rightarrow> next)
         in case load_tasks (t_id t # seen) next ts of
              None \<Rightarrow> None
            | Some (us, next) \<Rightarrow> Some (normalizeTask t # us, next)))"

definition load :: "host \<Rightarrow> plugin \<Rightarrow> plugin" where
  "load h pl =
     (let (reply, pl) = ask (h_storage h) (StorageGet ''tasks'') pl
      in case reply of
           Inl e \<Rightarrow> pl\<lparr>p_loadError := ''could not read stored tasks: '' @ errText e\<rparr>
         | Inr StoredNothing \<Rightarrow> pl
         | Inr (StoredUnreadable m) \<Rightarrow>
             pl\<lparr>p_loadError := ''stored task configuration is unreadable: '' @ m\<rparr>
         | Inr (StoredState f) \<Rightarrow>
             (if sf_version f \<noteq> 1 then
                pl\<lparr>p_loadError := ''stored task configuration has unsupported version '' @ itoa (sf_version f)\<rparr>
              else (case load_tasks [] (sf_next f) (sf_tasks f) of
                  None \<Rightarrow>
                    pl\<lparr>p_loadError := ''stored task configuration contains a missing or duplicate task ID'',
                       p_tasks := [], p_next := 1\<rparr>
                | Some (ts, next) \<Rightarrow>
                    pl\<lparr>p_tasks := p_tasks pl @ ts, p_next := (if next < 1 then 1 else next)\<rparr>)))"

definition save :: "host \<Rightarrow> task list \<Rightarrow> int \<Rightarrow> plugin \<Rightarrow> host_error option \<times> plugin" where
  "save h ts next pl =
     ask (h_unit h) (StorageSet ''tasks'' \<lparr>sf_version = 1, sf_next = next, sf_tasks = ts\<rparr>) pl"

subsection \<open>Lifecycle\<close>

definition loadLastRun :: "host \<Rightarrow> task \<Rightarrow> plugin \<Rightarrow> plugin" where
  "loadLastRun h t pl =
     (let (reply, pl) = ask (h_list h) (HistoryList (t_id t) 1) pl
      in case reply of
           Inl e \<Rightarrow> pl
         | Inr [] \<Rightarrow> pl
         | Inr (e # es) \<Rightarrow>
             upd_rt (t_id t) (\<lambda>r. r\<lparr>rt_last_run := x_id e, rt_last_at := x_started e,
               rt_last_exit := x_exit e, rt_last_success := x_success e,
               rt_message := (if x_success e = Some False then x_message e else rt_message r)\<rparr>) pl)"

definition restore :: "host \<Rightarrow> task \<Rightarrow> plugin \<Rightarrow> plugin" where
  "restore h t pl =
     (let pl = loadLastRun h t (snd (runtimeOf (t_id t) pl))
      in case validateTask t of
           Invalid m \<Rightarrow> upd_rt (t_id t) (\<lambda>r. r\<lparr>rt_err := m\<rparr>) pl
         | Panic \<Rightarrow> pl
         | Valid \<Rightarrow>
             (if t_type t = typeScheduled then
                (if t_enabled t then
                   (let (err, pl) = register h (t_id t) ''task'' (t_schedule t) pl
                    in case err of
                         Some e \<Rightarrow> upd_rt (t_id t) (\<lambda>r. r\<lparr>rt_err := ''schedule not registered: '' @ errText e\<rparr>) pl
                       | None \<Rightarrow> pl)
                 else pl)
              else
                (if t_autostart t then
                   (let (err, pl) = spawn h t (upd_rt (t_id t) (\<lambda>r. r\<lparr>rt_desired := True\<rparr>) pl)
                    in case err of
                         Some e \<Rightarrow> upd_rt (t_id t) (\<lambda>r. r\<lparr>rt_err := ''autostart failed: '' @ errText e\<rparr>) pl
                       | None \<Rightarrow> pl)
                 else pl)))"

definition init :: "host \<Rightarrow> plugin \<Rightarrow> plugin" where
  "init h pl =
     (let pl = load h pl;
          pl = (if p_loadError pl = '''' then fold (restore h) (p_tasks pl) pl else pl)
      in snd (register h ''reconcile'' ''reconcile''
           (Some \<lparr>s_type = ''interval'', s_interval = 30, s_time_of_day = '''', s_cron = '''', s_time_zone = ''''\<rparr>) pl))"

definition shutdown_process :: "host \<Rightarrow> string \<times> proc_ref \<Rightarrow> plugin \<Rightarrow> plugin" where
  "shutdown_process h p pl =
     finishExecution h (pr_run (snd p)) None False ''stopped: RunPilot is shutting down''
       (snd (ask (h_status h) (ProcessTerminate (fst p)) pl))"

definition shutdown_runtime :: "host \<Rightarrow> string \<times> task_runtime \<Rightarrow> plugin \<Rightarrow> plugin" where
  "shutdown_runtime h p pl =
     upd_rt (fst p) (\<lambda>r. r\<lparr>rt_desired := False\<rparr>)
       (if rt_timer (snd p)
        then upd_rt (fst p) (\<lambda>r. r\<lparr>rt_timer := False\<rparr>) (tell h (SchedulerRemove (restartPrefix @ fst p)) pl)
        else pl)"

definition shutdown :: "host \<Rightarrow> plugin \<Rightarrow> plugin" where
  "shutdown h pl0 =
     (let pl = fold (shutdown_process h) (p_procs pl0) pl0;
          pl = pl\<lparr>p_procs := []\<rparr>
      in fold (shutdown_runtime h) (p_rt pl) pl)"

end
