(* ===== verification/TaskRpc.thy ===== *)
theory TaskRpc
  imports Tasks
begin

section \<open>The tasks plugin: requests and events\<close>

text \<open>
  Models \<^verbatim>\<open>plugins/tasks/backend/rpc.go\<close>: the browser requests (\<open>handle\<close>, \<open>create\<close>, \<open>update\<close>,
  \<open>control\<close>) and the host's callbacks (\<open>event\<close>).  A request or a callback carries the decoded
  JSON argument, or the decoder's error.
\<close>

datatype rpc_value =
    TaskList "view list" "string option"
  | TaskView view
  | TaskDeleted string
  | RunStarted string view
  | TaskRuns "execution list"
  | TaskOutput string string int bool

definition index_of :: "string \<Rightarrow> task list \<Rightarrow> nat option" where
  "index_of i ts = find (\<lambda>n. t_id (ts ! n) = i) [0..<length ts]"

definition asRPC :: "op_error \<Rightarrow> rpc_error" where
  "asRPC e = (case e of HostErr h \<Rightarrow> hostFailure h | RpcErr r \<Rightarrow> r)"

definition writable :: "plugin \<Rightarrow> rpc_error option" where
  "writable pl =
     (if p_loadError pl \<noteq> '''' then Some (rpcFail ''state_unreadable'' (p_loadError pl)) else None)"

definition panicked :: rpc_error where
  "panicked = rpcFail ''trap'' ''nil pointer dereference''"

definition prepared :: "plugin \<Rightarrow> task \<Rightarrow> task" where
  "prepared pl input = normalizeTask (input\<lparr>t_id := ''task-'' @ itoa (p_next pl)\<rparr>)"

text \<open>\<open>create\<close> and \<open>update\<close> after the definition has been validated: the host checks the schedule,
  the registration is replaced, the new state file is stored, and only then the memory changes.\<close>

definition create_checked :: "host \<Rightarrow> task \<Rightarrow> plugin \<Rightarrow> (rpc_error, rpc_value) result \<times> plugin" where
  "create_checked h t pl =
     (let (err, pl) = validateSchedule h t pl
      in case err of Some e \<Rightarrow> (Inl (hostFailure e), pl) | None \<Rightarrow>
      (let (err, pl) = applySchedule h t pl
       in case err of Some e \<Rightarrow> (Inl (hostFailure e), unregister h (t_id t) pl) | None \<Rightarrow>
       (let ts = p_tasks pl @ [t];
            next = wrap64 (p_next pl + 1);
            (err, pl) = save h ts next pl
        in case err of Some e \<Rightarrow> (Inl (hostFailure e), unregister h (t_id t) pl) | None \<Rightarrow>
        (let pl = pl\<lparr>p_tasks := ts, p_next := next\<rparr>;
             pl = snd (runtimeOf (t_id t) pl);
             pl = publish h (PubChanged ''created'' (t_id t)) pl;
             (v, pl) = view_task t pl
         in (Inr (TaskView v), pl)))))"

definition create :: "host \<Rightarrow> task \<Rightarrow> plugin \<Rightarrow> (rpc_error, rpc_value) result \<times> plugin" where
  "create h input pl =
     (case writable pl of Some e \<Rightarrow> (Inl e, pl) | None \<Rightarrow>
      if maxTasks \<le> length (p_tasks pl) then (Inl (rpcFail ''limit_reached'' ''too many tasks''), pl)
      else
        (let t = prepared pl input
         in case validateTask t of
              Invalid m \<Rightarrow> (Inl (rpcFail ''invalid_argument'' m), pl)
            | Panic \<Rightarrow> (Inl panicked, pl)
            | Valid \<Rightarrow> create_checked h t pl))"

definition update_checked :: "host \<Rightarrow> nat \<Rightarrow> task \<Rightarrow> task \<Rightarrow> plugin \<Rightarrow> (rpc_error, rpc_value) result \<times> plugin" where
  "update_checked h i old t pl =
     (let (err, pl) = validateSchedule h t pl
      in case err of Some e \<Rightarrow> (Inl (hostFailure e), pl) | None \<Rightarrow>
      (let (err, pl) = applySchedule h t pl
       in case err of Some e \<Rightarrow> (Inl (hostFailure e), snd (applySchedule h old pl)) | None \<Rightarrow>
       (let ts = (p_tasks pl)[i := t];
            (err, pl) = save h ts (p_next pl) pl
        in case err of Some e \<Rightarrow> (Inl (hostFailure e), snd (applySchedule h old pl)) | None \<Rightarrow>
        (let pl = snd (runtimeOf (t_id t) (pl\<lparr>p_tasks := ts\<rparr>));
             pl = upd_rt (t_id t) (\<lambda>r. r\<lparr>rt_err := ''''\<rparr>) pl;
             pl = publish h (PubChanged ''updated'' (t_id t)) pl;
             (v, pl) = view_task t pl
         in (Inr (TaskView v), pl)))))"

definition update :: "host \<Rightarrow> task \<Rightarrow> plugin \<Rightarrow> (rpc_error, rpc_value) result \<times> plugin" where
  "update h input pl =
     (case writable pl of Some e \<Rightarrow> (Inl e, pl) | None \<Rightarrow>
      (case index_of (t_id input) (p_tasks pl) of
         None \<Rightarrow> (Inl (rpcFail ''not_found'' ''unknown task''), pl)
       | Some i \<Rightarrow>
         (let old = p_tasks pl ! i
          in if t_type input \<noteq> t_type old
             then (Inl (rpcFail ''invalid_argument'' ''task type cannot be changed''), pl)
             else
               (let t = normalizeTask input
                in case validateTask t of
                     Invalid m \<Rightarrow> (Inl (rpcFail ''invalid_argument'' m), pl)
                   | Panic \<Rightarrow> (Inl panicked, pl)
                   | Valid \<Rightarrow> update_checked h i old t pl))))"

subsection \<open>Control operations\<close>

definition answer_view :: "task \<Rightarrow> op_error option \<Rightarrow> plugin \<Rightarrow> (rpc_error, rpc_value) result \<times> plugin" where
  "answer_view t err pl =
     (case err of Some e \<Rightarrow> (Inl (asRPC e), pl)
      | None \<Rightarrow> (let (v, pl) = view_task t pl in (Inr (TaskView v), pl)))"

definition delete_task :: "host \<Rightarrow> nat \<Rightarrow> task \<Rightarrow> plugin \<Rightarrow> (rpc_error, rpc_value) result \<times> plugin" where
  "delete_task h i t pl =
     (let ts = take i (p_tasks pl) @ drop (Suc i) (p_tasks pl);
          (err, pl) = save h ts (p_next pl) pl
      in case err of Some e \<Rightarrow> (Inl (hostFailure e), pl) | None \<Rightarrow>
         (let pl = snd (stopTask h t False (pl\<lparr>p_tasks := ts\<rparr>));
              pl = unregister h (t_id t) pl;
              pl = pl\<lparr>p_rt := AList.delete (t_id t) (p_rt pl)\<rparr>;
              pl = publish h (PubChanged ''deleted'' (t_id t)) pl
          in (Inr (TaskDeleted (t_id t)), pl)))"

definition restart_task :: "host \<Rightarrow> task \<Rightarrow> plugin \<Rightarrow> op_error option \<times> plugin" where
  "restart_task h t pl =
     (let (r, pl) = runtimeOf (t_id t) pl
      in if rt_process r = '''' then startTask h t pl
         else
           (let (err, pl) = stopTask h t True (upd_rt (t_id t) (\<lambda>r. r\<lparr>rt_pending := True\<rparr>) pl)
            in (err, if err \<noteq> None then upd_rt (t_id t) (\<lambda>r. r\<lparr>rt_pending := False\<rparr>) pl else pl)))"

datatype control_op = CDelete | CStart | CStop | CRestart | CRun

definition run_task :: "host \<Rightarrow> task \<Rightarrow> plugin \<Rightarrow> (rpc_error, rpc_value) result \<times> plugin" where
  "run_task h t pl =
     (let (reply, pl) = runNow h t True pl
      in case reply of Inl e \<Rightarrow> (Inl (asRPC e), pl)
         | Inr runID \<Rightarrow> (let (v, pl) = view_task t pl in (Inr (RunStarted runID v), pl)))"

definition control :: "host \<Rightarrow> control_op \<Rightarrow> string \<Rightarrow> plugin \<Rightarrow> (rpc_error, rpc_value) result \<times> plugin" where
  "control h op i pl =
     (case writable pl of Some e \<Rightarrow> (Inl e, pl) | None \<Rightarrow>
      (case index_of i (p_tasks pl) of
         None \<Rightarrow> (Inl (rpcFail ''not_found'' ''unknown task''), pl)
       | Some n \<Rightarrow>
         (let t = p_tasks pl ! n;
              pl = reconcile h (snd (runtimeOf (t_id t) pl))
          in case op of
               CDelete \<Rightarrow> delete_task h n t pl
             | CStart \<Rightarrow>
                 (if t_type t \<noteq> typeContinuous
                  then (Inl (rpcFail ''invalid_argument''
                    ''only continuous tasks can be started; use run for scheduled tasks''), pl)
                  else (let (err, pl) = startTask h t pl in answer_view t err pl))
             | CStop \<Rightarrow> (let (err, pl) = stopTask h t False pl in answer_view t err pl)
             | CRestart \<Rightarrow>
                 (if t_type t \<noteq> typeContinuous
                  then (Inl (rpcFail ''invalid_argument'' ''only continuous tasks can be restarted''), pl)
                  else (let (err, pl) = restart_task h t pl in answer_view t err pl))
             | CRun \<Rightarrow>
                 (if t_type t \<noteq> typeScheduled
                  then (Inl (rpcFail ''invalid_argument''
                    ''only scheduled tasks can be run; use start for continuous tasks''), pl)
                  else run_task h t pl))))"

subsection \<open>Dispatch\<close>

type_synonym 'a decoded = "(string, 'a) result"

datatype rpc =
    TasksList
  | TasksCreate "task decoded"
  | TasksUpdate "task decoded"
  | TasksControl control_op "string decoded"
  | TasksHistory "(string \<times> int) decoded"
  | TasksOutput "(string \<times> int) decoded"
  | TasksUnknown

definition decodeRequest ::
    "'a decoded \<Rightarrow> ('a \<Rightarrow> (rpc_error, rpc_value) result \<times> plugin) \<Rightarrow> plugin
     \<Rightarrow> (rpc_error, rpc_value) result \<times> plugin" where
  "decodeRequest d k pl =
     (case d of Inl m \<Rightarrow> (Inl (rpcFail ''invalid_argument'' (''invalid request: '' @ m)), pl)
      | Inr x \<Rightarrow> k x)"

definition task_history :: "host \<Rightarrow> string \<Rightarrow> int \<Rightarrow> plugin \<Rightarrow> (rpc_error, rpc_value) result \<times> plugin" where
  "task_history h i limit pl =
     (let (reply, pl) = ask (h_list h) (HistoryList i limit) pl
      in case reply of Inl e \<Rightarrow> (Inl (hostFailure e), pl) | Inr xs \<Rightarrow> (Inr (TaskRuns xs), pl))"

definition task_output :: "host \<Rightarrow> string \<Rightarrow> int \<Rightarrow> plugin \<Rightarrow> (rpc_error, rpc_value) result \<times> plugin" where
  "task_output h i maxBytes pl =
     (let (reply, pl) = ask (h_get h) (HistoryGet i) pl
      in case reply of Inl e \<Rightarrow> (Inl (hostFailure e), pl)
         | Inr execution \<Rightarrow>
             (let (reply, pl) = ask (h_output h) (HistoryOutput i maxBytes) pl
              in case reply of Inl e \<Rightarrow> (Inl (hostFailure e), pl)
                 | Inr (output, sz, truncated) \<Rightarrow> (Inr (TaskOutput execution output sz truncated), pl)))"

definition list_tasks :: "host \<Rightarrow> plugin \<Rightarrow> (rpc_error, rpc_value) result \<times> plugin" where
  "list_tasks h pl =
     (let pl = reconcile h pl;
          (vs, pl) = views pl
      in (Inr (TaskList vs (if p_loadError pl \<noteq> '''' then Some (p_loadError pl) else None)), pl))"

definition handle :: "host \<Rightarrow> rpc \<Rightarrow> plugin \<Rightarrow> (rpc_error, rpc_value) result \<times> plugin" where
  "handle h request pl =
     (case request of
        TasksList \<Rightarrow> list_tasks h pl
      | TasksCreate d \<Rightarrow> decodeRequest d (\<lambda>t. create h t pl) pl
      | TasksUpdate d \<Rightarrow> decodeRequest d (\<lambda>t. update h t pl) pl
      | TasksControl op d \<Rightarrow> decodeRequest d (\<lambda>i. control h op i pl) pl
      | TasksHistory d \<Rightarrow> decodeRequest d (\<lambda>(i, limit). task_history h i limit pl) pl
      | TasksOutput d \<Rightarrow> decodeRequest d (\<lambda>(i, maxBytes). task_output h i maxBytes pl) pl
      | TasksUnknown \<Rightarrow> (Inl (rpcFail ''unknown_method'' ''unknown tasks method''), pl))"

datatype callback =
    ProcessExit "(string \<times> exit_info) decoded"
  | SchedulerFired "(string \<times> string) decoded"
  | UnknownEvent

definition task_fired :: "host \<Rightarrow> string \<Rightarrow> plugin \<Rightarrow> plugin" where
  "task_fired h i pl =
     (case find_task i (p_tasks pl) of
        None \<Rightarrow> unregister h i pl
      | Some t \<Rightarrow>
          (if p_loadError pl \<noteq> '''' \<or> t_type t \<noteq> typeScheduled \<or> \<not> t_enabled t then unregister h i pl
           else snd (runNow h t False pl)))"

definition event :: "host \<Rightarrow> callback \<Rightarrow> plugin \<Rightarrow> plugin" where
  "event h c pl =
     (case c of
        ProcessExit (Inr (i, info)) \<Rightarrow> processExited h i info pl
      | SchedulerFired (Inr (i, name)) \<Rightarrow>
          (if name = ''reconcile'' then reconcile h pl
           else if name = ''restart'' then restartFired h (trim_prefix restartPrefix i) pl
           else if name = ''task'' then task_fired h i pl
           else pl)
      | _ \<Rightarrow> pl)"

end
