(* ===== verification/TaskInvariant.thy ===== *)
theory TaskInvariant
  imports TaskRpc
begin

section \<open>The tasks plugin: what every operation keeps\<close>

text \<open>
  Frame lemmas and the invariant of the plugin.  \<open>config\<close> is the persisted configuration in
  memory, which only \<open>load\<close>, \<open>create\<close>, \<open>update\<close> and \<open>delete_task\<close> change.  \<open>slot i pl\<close> is what
  the plugin knows of the executions of task \<open>i\<close>: the part of its runtime entry that the state
  machine of a task uses and the host processes recorded for it.  \<open>slot_ok\<close> is the invariant of
  one slot, \<open>exec_inv\<close> of all of them, \<open>plugin_inv\<close> of the whole plugin.
\<close>

subsection \<open>The configuration is left alone by executions\<close>

definition config :: "plugin \<Rightarrow> task list \<times> int \<times> string" where
  "config pl = (p_tasks pl, p_next pl, p_loadError pl)"

named_theorems config_simps \<open>operations that keep the configuration\<close>

lemma config_eqD: "config pl = config pl' \<Longrightarrow> p_tasks pl = p_tasks pl' \<and> p_next pl = p_next pl' \<and> p_loadError pl = p_loadError pl'"
  by (simp add: config_def)

lemma config_calls [simp]: "config (pl\<lparr>p_calls := cs\<rparr>) = config pl"
  "config (pl\<lparr>p_rt := rt\<rparr>) = config pl" "config (pl\<lparr>p_procs := ps\<rparr>) = config pl"
  by (simp_all add: config_def)

lemma config_ask [simp, config_simps]: "config (snd (ask a c pl)) = config pl"
  by (simp add: ask_def)

lemma config_tell [simp, config_simps]: "config (tell h c pl) = config pl"
  by (simp add: tell_def)

lemma config_upd_rt [simp, config_simps]: "config (upd_rt i f pl) = config pl"
  by (simp add: upd_rt_def)

lemma config_runtimeOf [simp, config_simps]: "config (snd (runtimeOf i pl)) = config pl"
  by (simp add: runtimeOf_def split: option.split)

lemma config_publish [simp, config_simps]: "config (publish h d pl) = config pl"
  by (simp add: publish_def)

lemma config_view_task [simp, config_simps]: "config (snd (view_task t pl)) = config pl"
  using config_runtimeOf [of "t_id t" pl] by (simp add: view_task_def Let_def case_prod_unfold)

lemma config_publishStatus [simp, config_simps]: "config (publishStatus h t pl) = config pl"
  by (simp add: publishStatus_def Let_def case_prod_unfold)

lemma config_register [simp, config_simps]: "config (snd (register h i c s pl)) = config pl"
  by (simp add: register_def)

lemma config_unregister [simp, config_simps]: "config (unregister h i pl) = config pl"
  by (simp add: unregister_def)

lemma config_cancelRestartTimer [simp, config_simps]: "config (cancelRestartTimer h i pl) = config pl"
  by (simp add: cancelRestartTimer_def Let_def case_prod_unfold)

lemma config_finishExecution [simp, config_simps]: "config (finishExecution h i c b m pl) = config pl"
  by (simp add: finishExecution_def)

lemma config_launch [simp, config_simps]: "config (snd (launch h t pl)) = config pl"
  by (simp add: launch_def launch_failed_def launch_started_def Let_def case_prod_unfold split: sum.split)

lemma config_spawn [simp, config_simps]: "config (snd (spawn h t pl)) = config pl"
  by (simp add: spawn_def Let_def case_prod_unfold split: sum.split)

lemma config_schedule_restart [simp, config_simps]: "config (schedule_restart h t p r pl) = config pl"
  by (simp add: schedule_restart_def Let_def case_prod_unfold split: option.split)

lemma config_continuousExited [simp, config_simps]: "config (continuousExited h t info success pl) = config pl"
  by (simp add: continuousExited_def Let_def case_prod_unfold split: option.split)

lemma config_processExited [simp, config_simps]: "config (processExited h i info pl) = config pl"
  by (simp add: processExited_def Let_def split: option.split)

lemma config_restartFired [simp, config_simps]: "config (restartFired h i pl) = config pl"
  by (simp add: restartFired_def Let_def split: option.split)

lemma config_reconcile_one [simp, config_simps]: "config (reconcile_one h i pl) = config pl"
  by (simp add: reconcile_one_def Let_def case_prod_unfold split: sum.split)

lemma config_reconcile [simp, config_simps]: "config (reconcile h pl) = config pl"
proof -
  have "config (fold (reconcile_one h) ids pl) = config pl" for ids
    by (induction ids arbitrary: pl) auto
  then show ?thesis by (simp add: reconcile_def)
qed

lemma config_terminate [simp, config_simps]: "config (snd (terminate h i pl)) = config pl"
  by (simp add: terminate_def Let_def case_prod_unfold split: sum.split)

lemma config_terminate_all [simp, config_simps]: "config (snd (terminate_all h ids pl)) = config pl"
  by (induction ids arbitrary: pl) (auto simp: case_prod_unfold Let_def)

lemma config_stopTask [simp, config_simps]: "config (snd (stopTask h t k pl)) = config pl"
  by (simp add: stopTask_def Let_def case_prod_unfold split: option.split)

lemma config_startTask [simp, config_simps]: "config (snd (startTask h t pl)) = config pl"
  by (simp add: startTask_def Let_def case_prod_unfold)

lemma config_runNow [simp, config_simps]: "config (snd (runNow h t m pl)) = config pl"
  by (simp add: runNow_def Let_def case_prod_unfold split: sum.split)

lemma config_applySchedule [simp, config_simps]: "config (snd (applySchedule h t pl)) = config pl"
  by (simp add: applySchedule_def Let_def)

lemma config_validateSchedule [simp, config_simps]: "config (snd (validateSchedule h t pl)) = config pl"
  by (simp add: validateSchedule_def)

lemma config_save [simp, config_simps]: "config (snd (save h ts n pl)) = config pl"
  by (simp add: save_def)

subsection \<open>The execution state of one task\<close>

definition core :: "task_runtime \<Rightarrow> string \<times> bool \<times> bool \<times> string \<times> int" where
  "core r = (rt_state r, rt_desired r, rt_timer r, rt_process r, rt_active r)"

definition slot :: "string \<Rightarrow> plugin \<Rightarrow> (string \<times> bool \<times> bool \<times> string \<times> int) option \<times> string list" where
  "slot i pl = (map_option core (map_of (p_rt pl) i), procs_of i pl)"

definition has_rt :: "string \<Rightarrow> plugin \<Rightarrow> bool" where
  "has_rt i pl = (map_of (p_rt pl) i \<noteq> None)"

text \<open>
  Every task has a runtime entry.  A scheduled task counts its processes in \<open>rt_active\<close> and has no
  restart timer.  A continuous
  task has a process exactly when it is running or stopping, the one that \<open>rt_process\<close> names, and
  a restart timer exactly when it waits for a restart, which it then wants.
\<close>

fun core_ok :: "bool \<Rightarrow> (string \<times> bool \<times> bool \<times> string \<times> int) option \<times> string list \<Rightarrow> bool" where
  "core_ok scheduled (None, ps) = False"
| "core_ok scheduled (Some (state, desired, timer, process, active), ps) =
     (if scheduled then active = int (length ps) \<and> \<not> timer \<and> state \<noteq> stateRestarting
      else ps = (if process = '''' then [] else [process])
        \<and> (process \<noteq> '''' \<longleftrightarrow> state = stateRunning \<or> state = stateStopping)
        \<and> (timer \<longleftrightarrow> state = stateRestarting) \<and> (timer \<longrightarrow> desired))"

definition slot_ok :: "task \<Rightarrow> plugin \<Rightarrow> bool" where
  "slot_ok t pl = core_ok (t_type t = typeScheduled) (slot (t_id t) pl)"

text \<open>Process IDs are never empty and never reused by the host.\<close>

definition unique_process_ids :: "host \<Rightarrow> bool" where
  "unique_process_ids h =
     (\<forall>cs c p n. h_start h cs c = Inr (p, n) \<longrightarrow>
        p \<noteq> '''' \<and> (\<forall>cs' c' n'. h_start h cs' c' = Inr (p, n') \<longrightarrow> length cs' = length cs))"

definition issued :: "host \<Rightarrow> plugin \<Rightarrow> string \<Rightarrow> bool" where
  "issued h pl p = (\<exists>cs c n. h_start h cs c = Inr (p, n) \<and> length cs < length (p_calls pl))"

definition tables_ok :: "host \<Rightarrow> plugin \<Rightarrow> bool" where
  "tables_ok h pl = (keys_distinct (p_rt pl) \<and> keys_distinct (p_procs pl)
     \<and> (\<forall>p \<in> fst ` set (p_procs pl). p \<noteq> '''' \<and> issued h pl p))"

text \<open>What an operation on task \<open>i\<close> leaves alone.\<close>

definition others_same :: "string \<Rightarrow> plugin \<Rightarrow> plugin \<Rightarrow> bool" where
  "others_same i pl pl' = (\<forall>j. j \<noteq> i \<longrightarrow> slot j pl' = slot j pl)"

named_theorems slot_simps \<open>the slots after an operation\<close>

lemma others_same_refl [simp]: "others_same i pl pl"
  by (simp add: others_same_def)

lemma others_same_trans [trans]: "others_same i a b \<Longrightarrow> others_same i b c \<Longrightarrow> others_same i a c"
  by (simp add: others_same_def)

lemma others_sameI: "(\<And>j. slot j pl' = slot j pl) \<Longrightarrow> others_same i pl pl'"
  by (simp add: others_same_def)

lemma has_rt_slot: "has_rt i pl \<longleftrightarrow> fst (slot i pl) \<noteq> None"
  by (simp add: has_rt_def slot_def)

lemma procs_of_calls [simp]: "procs_of i (pl\<lparr>p_calls := cs\<rparr>) = procs_of i pl"
  "procs_of i (pl\<lparr>p_rt := rt\<rparr>) = procs_of i pl"
  by (simp_all add: procs_of_def)

lemma slot_calls [simp]: "slot i (pl\<lparr>p_calls := cs\<rparr>) = slot i pl"
  by (simp add: slot_def)

lemma tables_ok_calls [simp]: "tables_ok h pl \<Longrightarrow> length (p_calls pl) \<le> length cs \<Longrightarrow> tables_ok h (pl\<lparr>p_calls := cs\<rparr>)"
  by (fastforce simp: tables_ok_def issued_def)

lemma slot_ask [simp]: "slot i (snd (ask a c pl)) = slot i pl"
  by (simp add: ask_def)

lemma tables_ok_ask [simp]: "tables_ok h pl \<Longrightarrow> tables_ok h (snd (ask a c pl))"
  by (simp add: ask_def)

lemma slot_tell [simp]: "slot i (tell h c pl) = slot i pl"
  by (simp add: tell_def)

lemma tables_ok_tell [simp]: "tables_ok h pl \<Longrightarrow> tables_ok h (tell h' c pl)"
  by (simp add: tell_def)

lemma has_rt_simps [simp]:
  "has_rt i (pl\<lparr>p_calls := cs\<rparr>) = has_rt i pl"
  "has_rt i (snd (ask a c pl)) = has_rt i pl"
  "has_rt i (tell h c pl) = has_rt i pl"
  "has_rt i (upd_rt j f pl) = has_rt i pl"
  by (auto simp: has_rt_def ask_def tell_def upd_rt_def table_simps)

lemma runtimeOf_has [simp]: "has_rt i pl \<Longrightarrow> snd (runtimeOf i pl) = pl"
  by (auto simp: has_rt_def runtimeOf_def)

lemma fst_runtimeOf: "map_of (p_rt pl) i = Some r \<Longrightarrow> runtimeOf i pl = (r, pl)"
  by (simp add: runtimeOf_def)

lemma has_rt_runtimeOf [simp]: "has_rt i (snd (runtimeOf i pl))"
  by (auto simp: has_rt_def runtimeOf_def table_simps split: option.split)

lemma slot_publishStatus [simp]: "has_rt (t_id t) pl \<Longrightarrow> slot i (publishStatus h t pl) = slot i pl"
  by (simp add: publishStatus_def view_task_def case_prod_unfold Let_def publish_def)

lemma tables_ok_publishStatus [simp]: "has_rt (t_id t) pl \<Longrightarrow> tables_ok h pl \<Longrightarrow> tables_ok h (publishStatus h' t pl)"
  by (simp add: publishStatus_def view_task_def case_prod_unfold Let_def publish_def)

lemma has_rt_publishStatus [simp]: "has_rt (t_id t) pl \<Longrightarrow> has_rt i (publishStatus h t pl) = has_rt i pl"
  by (simp add: publishStatus_def view_task_def case_prod_unfold Let_def publish_def)

lemma tables_ok_upd_rt [simp]: "tables_ok h (upd_rt i f pl) = tables_ok h pl"
  by (simp add: tables_ok_def upd_rt_def issued_def)

lemma slot_upd_rt:
  "slot j (upd_rt i f pl) =
     (if j = i then (map_option (\<lambda>r. core (f r)) (map_of (p_rt pl) i), procs_of i pl) else slot j pl)"
  by (auto simp: slot_def upd_rt_def table_simps option.map_comp o_def)

lemma slot_upd_rt_other [simp]: "j \<noteq> i \<Longrightarrow> slot j (upd_rt i f pl) = slot j pl"
  by (simp add: slot_upd_rt)

lemma slot_upd_rt_core: "(\<And>r. core (f r) = core r) \<Longrightarrow> slot j (upd_rt i f pl) = slot j pl"
  unfolding slot_upd_rt by (auto simp: slot_def)

lemma slot_runtimeOf:
  "slot j (snd (runtimeOf i pl)) =
     (if j = i \<and> \<not> has_rt i pl then (Some (core new_runtime), procs_of i pl) else slot j pl)"
  by (auto simp: runtimeOf_def slot_def has_rt_def table_simps split: option.split)

lemma tables_ok_runtimeOf [simp]: "tables_ok h pl \<Longrightarrow> tables_ok h (snd (runtimeOf i pl))"
  by (auto simp: runtimeOf_def tables_ok_def issued_def split: option.split)
subsection \<open>The effect of the operations on the slots\<close>

lemma map_of_rt_frame [simp]:
  "p_rt (snd (ask a c pl)) = p_rt pl" "p_rt (tell h c pl) = p_rt pl" "p_rt (publish h d pl) = p_rt pl"
  "p_procs (snd (ask a c pl)) = p_procs pl" "p_procs (tell h c pl) = p_procs pl"
  "p_procs (publish h d pl) = p_procs pl" "p_procs (upd_rt i f pl) = p_procs pl"
  by (simp_all add: ask_def tell_def publish_def upd_rt_def)

lemma slot_simple [simp]:
  "slot i (publish h d pl) = slot i pl" "slot i (unregister h j pl) = slot i pl"
  "slot i (snd (register h j c s pl)) = slot i pl" "slot i (finishExecution h r oc b m pl) = slot i pl"
  by (simp_all add: publish_def unregister_def register_def finishExecution_def)

lemma tables_ok_simple [simp]:
  assumes "tables_ok h pl"
  shows "tables_ok h (publish h' d pl)" "tables_ok h (unregister h' j pl)" "tables_ok h (snd (register h' j c s pl))"
    "tables_ok h (finishExecution h' r oc b m pl)"
  using assms by (simp_all add: publish_def unregister_def register_def finishExecution_def)

lemma has_rt_simple [simp]:
  "has_rt i (publish h d pl) = has_rt i pl" "has_rt i (unregister h j pl) = has_rt i pl"
  "has_rt i (snd (register h j c s pl)) = has_rt i pl" "has_rt i (finishExecution h r oc b m pl) = has_rt i pl"
  by (simp_all add: has_rt_slot)

lemma procs_of_started:
  "p \<notin> fst ` set (p_procs pl) \<Longrightarrow>
   procs_of i (pl\<lparr>p_procs := AList.update p ref (p_procs pl)\<rparr>)
     = procs_of i pl @ (if pr_task ref = i then [p] else [])"
  by (simp add: procs_of_def update_fresh)

lemma procs_of_upd_rt [simp]: "procs_of i (upd_rt j f pl) = procs_of i pl"
  by (simp add: procs_of_def upd_rt_def)

lemma procs_of_ask [simp]: "procs_of i (snd (ask a c pl)) = procs_of i pl"
  by (simp add: procs_of_def)

lemma fresh_process:
  assumes "unique_process_ids h" "tables_ok h pl" "h_start h (p_calls pl) c = Inr (p, n)"
  shows "p \<noteq> ''''" "p \<notin> fst ` set (p_procs pl)"
proof -
  show "p \<noteq> ''''" using assms(1,3) by (auto simp: unique_process_ids_def)
  show "p \<notin> fst ` set (p_procs pl)"
  proof
    assume "p \<in> fst ` set (p_procs pl)"
    then obtain cs c' n' where "h_start h cs c' = Inr (p, n')" "length cs < length (p_calls pl)"
      using assms(2) by (auto simp: tables_ok_def issued_def)
    with assms(1,3) show False unfolding unique_process_ids_def by (metis less_irrefl)
  qed
qed

lemma tables_ok_add_process:
  "tables_ok h pl \<Longrightarrow> p \<notin> fst ` set (p_procs pl) \<Longrightarrow> p \<noteq> [] \<Longrightarrow> issued h pl p \<Longrightarrow>
   tables_ok h (pl\<lparr>p_procs := AList.update p ref (p_procs pl)\<rparr>)"
  by (auto simp: tables_ok_def issued_def update_fresh)

lemma launch_cases:
  assumes u: "unique_process_ids h" and w: "tables_ok h pl"
  obtains (failed) e pl' where "launch h t pl = (Inl e, pl')" "tables_ok h pl'" "\<And>j. slot j pl' = slot j pl"
  | (started) runID p pl' where "launch h t pl = (Inr runID, pl')" "tables_ok h pl'" "p \<noteq> ''''"
      "others_same (t_id t) pl pl'"
      "slot (t_id t) pl' = (map_option (\<lambda>(st, des, tm, pr, act). (st, des, tm, p, act)) (fst (slot (t_id t) pl)),
         snd (slot (t_id t) pl) @ [p])"
proof -
  let ?kind = "if t_type t = typeScheduled then ''command'' else ''process''"
  obtain b pl1 where b: "ask (h_begin h) (HistoryBegin ?kind (t_id t) (t_name t)) pl = (b, pl1)"
    by fastforce
  have w1: "tables_ok h pl1" and s1: "slot j pl1 = slot j pl" for j
    using b tables_ok_ask [OF w] slot_ask by (metis snd_conv)+
  show ?thesis
  proof (cases b)
    case (Inl e)
    with b have "launch h t pl = (Inl e, pl1)" by (simp add: launch_def Let_def)
    with w1 s1 failed show ?thesis by blast
  next
    case (Inr rs)
    obtain runID st where rs: "rs = (runID, st)" by fastforce
    let ?req = "ProcessStart (start_request t runID)"
    let ?pl2 = "pl1\<lparr>p_calls := ?req # p_calls pl1\<rparr>"
    have w2: "tables_ok h ?pl2" using w1 by simp
    show ?thesis
    proof (cases "h_start h (p_calls pl1) ?req")
      case (Inl e)
      with b Inr rs have "launch h t pl = (Inl e, launch_failed h t runID st (errText e) ?pl2)"
        by (simp add: launch_def Let_def ask_def)
      moreover have "tables_ok h (launch_failed h t runID st (errText e) ?pl2)"
        using w2 by (simp add: launch_failed_def Let_def)
      moreover have "slot j (launch_failed h t runID st (errText e) ?pl2) = slot j pl" for j
        using s1 by (simp add: launch_failed_def Let_def slot_upd_rt_core core_def)
      ultimately show ?thesis using failed by blast
    next
      case (Inr pn)
      obtain p n where pn: "pn = (p, n)" by fastforce
      have l: "launch h t pl = (Inr runID, launch_started t runID st p n ?pl2)"
        using b \<open>b = Inr rs\<close> rs Inr pn by (simp add: launch_def Let_def ask_def)
      have fresh: "p \<noteq> ''''" "p \<notin> fst ` set (p_procs pl1)"
        using fresh_process [OF u w1] Inr pn by auto
      have iss: "issued h ?pl2 p" using Inr pn by (auto simp: issued_def)
      have "tables_ok h (launch_started t runID st p n ?pl2)"
        using w2 fresh iss tables_ok_add_process [of h ?pl2 p] by (simp add: launch_started_def Let_def)
      moreover have "others_same (t_id t) pl (launch_started t runID st p n ?pl2)"
        using s1 fresh by (simp add: launch_started_def Let_def others_same_def slot_def procs_of_def update_fresh upd_rt_def table_simps)
      moreover have "slot (t_id t) (launch_started t runID st p n ?pl2)
          = (map_option (\<lambda>(st, des, tm, pr, act). (st, des, tm, p, act)) (fst (slot (t_id t) pl)),
             snd (slot (t_id t) pl) @ [p])"
        using fresh unfolding s1 [symmetric]
        by (simp add: launch_started_def Let_def slot_upd_rt procs_of_def update_fresh)
           (simp add: slot_def option.map_comp o_def core_def procs_of_def)
      ultimately show ?thesis using l fresh(1) started by blast
    qed
  qed
qed

lemma slot_upd_some:
  "slot i pl = (Some c, ps) \<Longrightarrow> (\<And>r. core r = c \<Longrightarrow> core (f r) = c') \<Longrightarrow> slot i (upd_rt i f pl) = (Some c', ps)"
  unfolding slot_upd_rt by (auto simp: slot_def)
text \<open>What an operation on task \<open>i\<close> has to establish.\<close>

definition good_step :: "host \<Rightarrow> string \<Rightarrow> bool \<Rightarrow> plugin \<Rightarrow> plugin \<Rightarrow> bool" where
  "good_step h i scheduled pl pl' = (tables_ok h pl' \<and> others_same i pl pl' \<and> core_ok scheduled (slot i pl'))"

lemma slot_cleared:
  "slot i pl = (Some (st, des, tm, pr, act), ps) \<Longrightarrow>
   slot i (upd_rt i (\<lambda>r. clear_process (r\<lparr>rt_state := st', rt_desired := des'\<rparr>)) pl) = (Some (st', des', tm, '''', act), ps)"
  by (rule slot_upd_some) (auto simp: core_def clear_process_def)

lemma has_rt_slotI [simp]: "slot i pl = (Some c, ps) \<Longrightarrow> has_rt i pl"
  by (simp add: has_rt_slot)

lemma others_same_upd_rt [simp]: "others_same i pl (upd_rt i f pl') \<longleftrightarrow> others_same i pl pl'"
  by (simp add: others_same_def)

lemma others_same_publishStatus [simp]:
  "has_rt (t_id t) pl' \<Longrightarrow> others_same i pl (publishStatus h t pl') \<longleftrightarrow> others_same i pl pl'"
  by (simp add: others_same_def)

lemma good_publishStatus:
  assumes "slot (t_id t) pl' = (Some c, ps)" "core_ok b (Some c, ps)" "tables_ok h pl'" "others_same (t_id t) pl pl'"
  shows "good_step h (t_id t) b pl (publishStatus h t pl')"
proof -
  have "has_rt (t_id t) pl'" using assms(1) by simp
  with assms show ?thesis by (simp add: good_step_def)
qed

lemma spawn_good:
  assumes u: "unique_process_ids h" and w: "tables_ok h pl"
    and s: "slot (t_id t) pl = (Some (st, des, False, pr, act), [])"
  shows "good_step h (t_id t) False pl (snd (spawn h t pl))"
  using u w
proof (cases rule: launch_cases [where t = t])
  case (failed e pl')
  let ?pl = "upd_rt (t_id t) (\<lambda>r. clear_process (r\<lparr>rt_state := stateStopped, rt_desired := False\<rparr>)) pl'"
  have "slot (t_id t) ?pl = (Some (stateStopped, False, False, '''', act), [])"
    using failed(3) s slot_cleared by metis
  then have "good_step h (t_id t) False pl (publishStatus h t ?pl)"
    by (rule good_publishStatus) (use failed in \<open>auto intro: others_sameI\<close>)
  with failed show ?thesis by (simp add: spawn_def)
next
  case (started runID p pl')
  have "slot (t_id t) pl' = (Some (st, des, False, p, act), [p])" using started(5) s by simp
  then have "slot (t_id t) (upd_rt (t_id t) (\<lambda>r. r\<lparr>rt_state := stateRunning\<rparr>) pl')
      = (Some (stateRunning, des, False, p, act), [p])"
    by (rule slot_upd_some) (auto simp: core_def)
  then have "good_step h (t_id t) False pl
      (publishStatus h t (upd_rt (t_id t) (\<lambda>r. r\<lparr>rt_state := stateRunning\<rparr>) pl'))"
    by (rule good_publishStatus) (use started in auto)
  with started show ?thesis by (simp add: spawn_def)
qed

lemma good_step_after:
  "others_same i pl pl1 \<Longrightarrow> good_step h i b pl1 pl2 \<Longrightarrow> good_step h i b pl pl2"
  by (auto simp: good_step_def others_same_def)

lemma register_slot: "register h i c s pl = (err, pl') \<Longrightarrow> slot j pl' = slot j pl"
  using slot_simple(3) [of j h i c s pl] by simp

lemma register_tables_ok: "register h i c s pl = (err, pl') \<Longrightarrow> tables_ok h' pl \<Longrightarrow> tables_ok h' pl'"
  using tables_ok_simple(3) [of h' pl h i c s] by simp

lemma schedule_restart_good:
  assumes w: "tables_ok h pl" and s: "slot (t_id t) pl = (Some (stateStopped, True, False, '''', act), [])"
  shows "good_step h (t_id t) False pl (schedule_restart h t policy r pl)"
proof -
  let ?i = "t_id t"
  let ?pl1 = "upd_rt ?i (\<lambda>r. r\<lparr>rt_count := rt_count r + 1\<rparr>) pl"
  obtain err pl2 where reg: "register h (restartPrefix @ ?i) ''restart''
            (Some \<lparr>s_type = ''interval'', s_interval = restartDelay policy (rt_count r),
               s_time_of_day = '''', s_cron = '''', s_time_zone = ''''\<rparr>) ?pl1 = (err, pl2)"
    by fastforce
  have s1: "slot j ?pl1 = slot j pl" for j by (rule slot_upd_rt_core) (simp add: core_def)
  have s2: "slot j pl2 = slot j pl" for j by (simp only: register_slot [OF reg] s1)
  have w2: "tables_ok h pl2" by (rule register_tables_ok [OF reg]) (simp add: w)
  have si: "slot ?i pl2 = (Some (stateStopped, True, False, '''', act), [])" using s s2 by simp
  have a: "slot ?i (upd_rt ?i (\<lambda>r. r\<lparr>rt_timer := True, rt_state := stateRestarting\<rparr>) pl2)
      = (Some (stateRestarting, True, True, '''', act), [])"
    using si by (rule slot_upd_some) (auto simp: core_def)
  have b: "slot ?i (upd_rt ?i (\<lambda>r. r\<lparr>rt_desired := False, rt_message := m\<rparr>) pl2)
      = (Some (stateStopped, False, False, '''', act), [])" for m
    using si by (rule slot_upd_some) (auto simp: core_def)
  have o: "others_same ?i pl pl2" by (simp add: others_same_def s2)
  have "good_step h ?i False pl (publishStatus h t (upd_rt ?i (\<lambda>r. r\<lparr>rt_timer := True, rt_state := stateRestarting\<rparr>) pl2))"
    using a by (rule good_publishStatus) (use w2 o in auto)
  moreover have "good_step h ?i False pl
      (publishStatus h t (upd_rt ?i (\<lambda>r. r\<lparr>rt_desired := False, rt_message := m\<rparr>) pl2))" for m
    using b by (rule good_publishStatus) (use w2 o in auto)
  ultimately show ?thesis
    using reg by (cases err) (simp_all add: schedule_restart_def)
qed

lemma continuousExited_good:
  assumes u: "unique_process_ids h" and w: "tables_ok h pl"
    and s: "slot (t_id t) pl = (Some (st, des, False, pr, act), [])"
  shows "good_step h (t_id t) False pl (continuousExited h t info success pl)"
proof -
  let ?i = "t_id t"
  let ?pl = "upd_rt ?i (\<lambda>r. (clear_process r)\<lparr>rt_state := stateStopped\<rparr>) pl"
  have s1: "slot ?i ?pl = (Some (stateStopped, des, False, '''', act), [])"
    using s by (rule slot_upd_some) (auto simp: core_def clear_process_def)
  then obtain r where r: "map_of (p_rt ?pl) ?i = Some r" and cr: "core r = (stateStopped, des, False, '''', act)"
    by (auto simp: slot_def)
  have w1: "tables_ok h ?pl" using w by simp
  have o1: "others_same ?i pl ?pl" by simp
  have "good_step h ?i False ?pl (continuousExited h t info success pl)"
  proof (cases "rt_pending r")
    case True
    let ?pl2 = "upd_rt ?i (\<lambda>r. r\<lparr>rt_pending := False, rt_count := 0, rt_desired := True\<rparr>) ?pl"
    have "slot ?i ?pl2 = (Some (stateStopped, True, False, '''', act), [])"
      using s1 by (rule slot_upd_some) (auto simp: core_def)
    then have "good_step h ?i False ?pl2 (snd (spawn h t ?pl2))"
      using u w1 by (intro spawn_good) auto
    with True r show ?thesis
      by (simp add: continuousExited_def Let_def fst_runtimeOf good_step_def others_same_def)
  next
    case False
    show ?thesis
    proof (cases "wants_restart r (t_restart t) success")
      case False
      have "good_step h ?i False ?pl (publishStatus h t ?pl)"
        using s1 by (rule good_publishStatus) (use w1 in auto)
      with False \<open>\<not> rt_pending r\<close> r show ?thesis
        by (simp add: continuousExited_def Let_def fst_runtimeOf)
    next
      case True
      then obtain policy where p: "t_restart t = Some policy" and d: "rt_desired r"
        by (auto simp: wants_restart_def split: option.splits)
      have s2: "slot ?i ?pl = (Some (stateStopped, True, False, '''', act), [])"
        using s1 d cr by (simp add: core_def)
      have sd: "slot ?i (upd_rt ?i (\<lambda>r. r\<lparr>rt_desired := False, rt_message := m\<rparr>) ?pl)
          = (Some (stateStopped, False, False, '''', act), [])" for m
        using s2 by (rule slot_upd_some) (auto simp: core_def)
      have "good_step h ?i False ?pl
          (publishStatus h t (upd_rt ?i (\<lambda>r. r\<lparr>rt_desired := False, rt_message := m\<rparr>) ?pl))" for m
        using sd by (rule good_publishStatus) (use w1 in auto)
      with True p r \<open>\<not> rt_pending r\<close> schedule_restart_good [OF w1 s2] show ?thesis
        by (simp add: continuousExited_def Let_def fst_runtimeOf)
    qed
  qed
  with o1 show ?thesis by (rule good_step_after)
qed

subsection \<open>The invariant of the executions\<close>

definition task_name :: "int \<Rightarrow> string" where
  "task_name n = ''task-'' @ itoa n"

text \<open>Nothing is known yet under the IDs that \<open>create\<close> is going to hand out.\<close>

definition fresh_ids :: "plugin \<Rightarrow> bool" where
  "fresh_ids pl = (\<forall>n. p_next pl \<le> n \<and> n \<le> max_int64 \<longrightarrow>
     slot (task_name n) pl = (None, []) \<and> find_task (task_name n) (p_tasks pl) = None)"

definition exec_inv :: "host \<Rightarrow> plugin \<Rightarrow> bool" where
  "exec_inv h pl = (tables_ok h pl \<and> distinct (map t_id (p_tasks pl))
     \<and> list_all (\<lambda>t. slot_ok t pl) (p_tasks pl) \<and> fresh_ids pl)"

lemma find_task_Some: "find_task i ts = Some t \<Longrightarrow> t \<in> set ts \<and> t_id t = i"
  by (auto simp: find_task_def find_Some_iff)

lemma find_task_None: "find_task i ts = None \<Longrightarrow> t \<in> set ts \<Longrightarrow> t_id t \<noteq> i"
  by (auto simp: find_task_def find_None_iff)

lemma find_task_in: "distinct (map t_id ts) \<Longrightarrow> t \<in> set ts \<Longrightarrow> find_task (t_id t) ts = Some t"
  by (induction ts) (auto simp: find_task_def)

lemma config_tasks: "config pl' = config pl \<Longrightarrow> p_tasks pl' = p_tasks pl"
  by (simp add: config_def)

lemma fresh_ids_config:
  assumes "fresh_ids pl" "config pl' = config pl"
    and "\<And>n. p_next pl \<le> n \<Longrightarrow> n \<le> max_int64 \<Longrightarrow> slot (task_name n) pl' = slot (task_name n) pl"
  shows "fresh_ids pl'"
proof -
  have "p_next pl' = p_next pl" "p_tasks pl' = p_tasks pl" using assms(2) by (simp_all add: config_def)
  with assms(1,3) show ?thesis by (simp add: fresh_ids_def)
qed

text \<open>An operation that only touches the slot of \<open>i\<close> and leaves it good keeps the invariant, and
  so does one whose task is no longer defined.\<close>

lemma exec_inv_good_step:
  assumes "exec_inv h pl" "config pl' = config pl" "find_task i (p_tasks pl) = Some t"
    "good_step h i (t_type t = typeScheduled) pl pl'"
  shows "exec_inv h pl'"
proof -
  from assms(3) have t: "t \<in> set (p_tasks pl)" "t_id t = i" by (auto dest: find_task_Some)
  have "slot_ok t' pl'" if "t' \<in> set (p_tasks pl)" for t'
  proof (cases "t_id t' = i")
    case True
    with that assms(1,3) have "t' = t" by (metis exec_inv_def find_task_in option.inject)
    with assms(4) t show ?thesis by (simp add: slot_ok_def good_step_def)
  next
    case False
    with that assms(1,4) show ?thesis
      by (auto simp: slot_ok_def good_step_def others_same_def exec_inv_def list_all_iff)
  qed
  moreover have "fresh_ids pl'"
  proof (rule fresh_ids_config [OF _ assms(2)])
    show "fresh_ids pl" using assms(1) by (simp add: exec_inv_def)
    fix n assume "p_next pl \<le> n" "n \<le> max_int64"
    then have "task_name n \<noteq> i" using assms(1,3) by (auto simp: exec_inv_def fresh_ids_def)
    then show "slot (task_name n) pl' = slot (task_name n) pl"
      using assms(4) by (simp add: good_step_def others_same_def)
  qed
  ultimately show ?thesis using assms(1,4)
    by (simp add: exec_inv_def config_tasks [OF assms(2)] good_step_def list_all_iff)
qed

lemma exec_inv_undefined:
  assumes "exec_inv h pl" "config pl' = config pl" "find_task i (p_tasks pl) = None"
    "tables_ok h pl'" "others_same i pl pl'" and used: "\<And>n. p_next pl \<le> n \<Longrightarrow> n \<le> max_int64 \<Longrightarrow> i \<noteq> task_name n"
  shows "exec_inv h pl'"
proof -
  have "fresh_ids pl'"
  proof (rule fresh_ids_config [OF _ assms(2)])
    show "fresh_ids pl" using assms(1) by (simp add: exec_inv_def)
    fix n assume "p_next pl \<le> n" "n \<le> max_int64"
    then have "task_name n \<noteq> i" using used [of n] by simp
    then show "slot (task_name n) pl' = slot (task_name n) pl" using assms(5) by (simp add: others_same_def)
  qed
  then show ?thesis
    using assms(1,4,5) find_task_None [OF assms(3)]
    by (simp add: exec_inv_def config_tasks [OF assms(2)] list_all_iff slot_ok_def others_same_def)
qed

lemma exec_inv_same:
  assumes "exec_inv h pl" "config pl' = config pl" "tables_ok h pl'" "\<And>j. slot j pl' = slot j pl"
  shows "exec_inv h pl'"
  using assms(1,3,4) fresh_ids_config [OF _ assms(2)]
  by (simp add: exec_inv_def config_tasks [OF assms(2)] list_all_iff slot_ok_def)

lemma exec_inv_task: "exec_inv h pl \<Longrightarrow> find_task i (p_tasks pl) = Some t \<Longrightarrow>
    tables_ok h pl \<and> core_ok (t_type t = typeScheduled) (slot i pl)"
  by (auto simp: exec_inv_def list_all_iff slot_ok_def dest!: find_task_Some)

lemma exec_inv_tables [intro]: "exec_inv h pl \<Longrightarrow> tables_ok h pl"
  by (simp add: exec_inv_def)

lemma exec_inv_simple [simp]:
  assumes "exec_inv h pl"
  shows "exec_inv h (publish h' d pl)" "exec_inv h (unregister h' j pl)" "exec_inv h (snd (register h' j c s pl))"
    "exec_inv h (finishExecution h' r oc b m pl)" "exec_inv h (snd (ask a c' pl))" "exec_inv h (tell h' c' pl)"
  using exec_inv_tables [OF assms] by (auto intro!: exec_inv_same [OF assms])

subsection \<open>Process exits\<close>

definition drop_process :: "string \<Rightarrow> plugin \<Rightarrow> plugin" where
  "drop_process p pl = pl\<lparr>p_procs := AList.delete p (p_procs pl)\<rparr>"

lemma procs_of_drop: "procs_of i (drop_process p pl) = filter (\<lambda>q. q \<noteq> p) (procs_of i pl)"
proof -
  have "map fst (filter (\<lambda>(_, ref). pr_task ref = i) (AList.delete p t))
      = filter (\<lambda>q. q \<noteq> p) (map fst (filter (\<lambda>(_, ref). pr_task ref = i) t))" for t :: "proc_ref table"
    by (induction t) auto
  then show ?thesis by (simp add: procs_of_def drop_process_def)
qed

lemma slot_drop: "slot i (drop_process p pl) = (fst (slot i pl), filter (\<lambda>q. q \<noteq> p) (snd (slot i pl)))"
  by (simp add: slot_def procs_of_drop) (simp add: drop_process_def)

lemma tables_ok_drop [simp]: "tables_ok h pl \<Longrightarrow> tables_ok h (drop_process p pl)"
  by (auto simp: tables_ok_def drop_process_def issued_def AList.delete_eq distinct_map_filter)

lemma in_procs_of: "keys_distinct (p_procs pl) \<Longrightarrow> map_of (p_procs pl) p = Some ref \<Longrightarrow>
    p \<in> set (procs_of i pl) \<longleftrightarrow> pr_task ref = i"
proof -
  assume d: "keys_distinct (p_procs pl)" and m: "map_of (p_procs pl) p = Some ref"
  have "p \<in> set (procs_of i pl) \<longleftrightarrow> (\<exists>ref'. (p, ref') \<in> set (p_procs pl) \<and> pr_task ref' = i)"
    by (force simp: procs_of_def)
  also have "\<dots> \<longleftrightarrow> (\<exists>ref'. map_of (p_procs pl) p = Some ref' \<and> pr_task ref' = i)"
    using d by (auto simp: map_of_eq_Some_iff)
  finally show ?thesis using m by simp
qed

lemma distinct_procs_of: "tables_ok h pl \<Longrightarrow> distinct (procs_of i pl)"
  by (simp add: procs_of_def tables_ok_def distinct_map_filter)

lemma others_same_drop:
  assumes "tables_ok h pl" "map_of (p_procs pl) p = Some ref"
  shows "others_same (pr_task ref) pl (drop_process p pl)"
proof -
  have "filter (\<lambda>q. q \<noteq> p) (procs_of j pl) = procs_of j pl" if "j \<noteq> pr_task ref" for j
  proof (rule filter_True)
    have "keys_distinct (p_procs pl)" using assms(1) by (simp add: tables_ok_def)
    then have "p \<notin> set (procs_of j pl)" using in_procs_of [OF _ assms(2), of j] that by simp
    then show "\<forall>q \<in> set (procs_of j pl). q \<noteq> p" by auto
  qed
  then show ?thesis by (simp add: others_same_def slot_drop) (simp add: slot_def)
qed

lemma length_filter_remove: "distinct xs \<Longrightarrow> p \<in> set xs \<Longrightarrow> Suc (length (filter (\<lambda>q. q \<noteq> p) xs)) = length xs"
proof (induction xs)
  case (Cons x xs)
  show ?case
  proof (cases "x = p")
    case True
    with Cons.prems have "filter (\<lambda>q. q \<noteq> p) xs = xs" by (auto intro!: filter_True)
    with True show ?thesis by simp
  next
    case False
    with Cons show ?thesis by simp
  qed
qed simp

lemma slot_after_exit:
  assumes "tables_ok h pl" "map_of (p_procs pl) p = Some ref" "core_ok scheduled (slot (pr_task ref) pl)"
  shows "(scheduled \<longrightarrow> (\<exists>st des pr ps. st \<noteq> stateRestarting
      \<and> slot (pr_task ref) (drop_process p pl) = (Some (st, des, False, pr, int (length ps) + 1), ps)))
    \<and> (\<not> scheduled \<longrightarrow> (\<exists>st des act. slot (pr_task ref) (drop_process p pl) = (Some (st, des, False, p, act), [])))"
proof -
  let ?i = "pr_task ref"
  have "keys_distinct (p_procs pl)" using assms(1) by (simp add: tables_ok_def)
  then have mem: "p \<in> set (procs_of ?i pl)" using in_procs_of [OF _ assms(2)] by simp
  have dist: "distinct (procs_of ?i pl)" using assms(1) by (rule distinct_procs_of)
  have sec: "snd (slot ?i pl) = procs_of ?i pl" by (simp add: slot_def)
  obtain st des tm pr act where s: "slot ?i pl = (Some (st, des, tm, pr, act), procs_of ?i pl)"
    using assms(3) mem sec by (cases "slot ?i pl"; cases "fst (slot ?i pl)") auto
  have len: "length (filter (\<lambda>q. q \<noteq> p) (procs_of ?i pl)) + 1 = length (procs_of ?i pl)"
    using length_filter_remove [OF dist mem] by simp
  show ?thesis
  proof (cases scheduled)
    case True
    with assms(3) s len show ?thesis by (auto simp: slot_drop)
  next
    case False
    with assms(3) s mem show ?thesis by (auto simp: slot_drop split: if_splits)
  qed
qed

lemma core_record_exit [simp]: "core (record_exit ref info success message r) = core r"
  by (simp add: core_def record_exit_def)

lemma core_clear_scheduled:
  "core r = (st, des, False, pr, int n + 1) \<Longrightarrow>
   \<exists>des' pr'. core (scheduled_exited r) = (st, des', False, pr', int n)"
  by (auto simp: core_def scheduled_exited_def clear_process_def Let_def)

lemma good_stepD_publish:
  assumes "good_step h i b pl pl'" "t_id t = i" "has_rt i pl'"
  shows "good_step h i b pl (publishStatus h t pl')"
  using assms by (auto simp: good_step_def)

lemma scheduled_exit_good:
  assumes w: "tables_ok h pl"
    and st: "st \<noteq> stateRestarting"
    and s: "slot (t_id t) pl = (Some (st, des, False, pr, int (length ps) + 1), ps)"
  shows "good_step h (t_id t) True pl (publishStatus h t (upd_rt (t_id t) scheduled_exited pl))"
proof -
  obtain r where r: "map_of (p_rt pl) (t_id t) = Some r" and cr: "core r = (st, des, False, pr, int (length ps) + 1)"
    using s by (auto simp: slot_def)
  obtain des' pr' where "core (scheduled_exited r) = (st, des', False, pr', int (length ps))"
    using core_clear_scheduled [OF cr] by blast
  with r s have s': "slot (t_id t) (upd_rt (t_id t) scheduled_exited pl) = (Some (st, des', False, pr', int (length ps)), ps)"
    by (simp add: slot_upd_rt) (simp add: slot_def)
  then show ?thesis by (rule good_publishStatus) (use w st in auto)
qed

definition exit_success :: "proc_ref \<Rightarrow> exit_info \<Rightarrow> bool" where
  "exit_success ref info = (ei_success info \<and> \<not> ei_timed_out info)"

text \<open>The first half of \<open>processExited\<close>: the process is forgotten and its run finished.\<close>

definition run_finished :: "host \<Rightarrow> string \<Rightarrow> proc_ref \<Rightarrow> exit_info \<Rightarrow> task option \<Rightarrow> plugin \<Rightarrow> plugin" where
  "run_finished h p ref info t0 pl =
     publish h (PubCompleted \<lparr>rc_id = pr_task ref, rc_name = (case t0 of None \<Rightarrow> '''' | Some t \<Rightarrow> t_name t),
         rc_run = pr_run ref, rc_exit = ei_code info, rc_success = exit_success ref info,
         rc_message = exitMessage ref info\<rparr>)
       (finishExecution h (pr_run ref) (Some (ei_code info)) (exit_success ref info) (exitMessage ref info)
         (drop_process p pl))"

lemma run_finished_frame [simp]:
  "slot i (run_finished h p ref info t0 pl) = slot i (drop_process p pl)"
  "tables_ok h' pl \<Longrightarrow> tables_ok h' (run_finished h p ref info t0 pl)"
  "config (run_finished h p ref info t0 pl) = config pl"
  "p_rt (run_finished h p ref info t0 pl) = p_rt pl"
  by (simp_all add: run_finished_def finishExecution_def drop_process_def config_def publish_def tell_def ask_def)
     (simp_all add: tables_ok_drop [unfolded drop_process_def])

lemma processExited_eq:
  assumes "map_of (p_procs pl) p = Some ref"
  shows "processExited h p info pl =
    (let t0 = find_task (pr_task ref) (p_tasks pl); pl1 = run_finished h p ref info t0 pl
     in case (t0, map_of (p_rt pl) (pr_task ref)) of
          (Some t, Some r) \<Rightarrow>
            (let pl2 = upd_rt (pr_task ref) (record_exit ref info (exit_success ref info) (exitMessage ref info)) pl1
             in if t_type t = typeScheduled then publishStatus h t (upd_rt (pr_task ref) scheduled_exited pl2)
                else if rt_process r \<noteq> p then pl2
                else continuousExited h t info (exit_success ref info) pl2)
        | _ \<Rightarrow> pl1)"
  using assms
  by (simp add: processExited_def run_finished_def exit_success_def Let_def drop_process_def
      finishExecution_def tell_def ask_def cong: option.case_cong if_cong)

lemma processExited_inv:
  assumes u: "unique_process_ids h" and inv: "exec_inv h pl"
  shows "exec_inv h (processExited h p info pl)"
proof (cases "map_of (p_procs pl) p")
  case None
  with inv show ?thesis by (simp add: processExited_def)
next
  case (Some ref)
  let ?i = "pr_task ref"
  let ?t0 = "find_task ?i (p_tasks pl)"
  let ?pl1 = "run_finished h p ref info ?t0 pl"
  let ?rec = "record_exit ref info (exit_success ref info) (exitMessage ref info)"
  let ?pl2 = "upd_rt ?i ?rec ?pl1"
  have w: "tables_ok h pl" using inv by auto
  have o1: "others_same ?i pl ?pl1"
    using others_same_drop [OF w Some] by (simp add: others_same_def)
  have s2: "slot j ?pl2 = slot j (drop_process p pl)" for j
    by (subst slot_upd_rt_core) simp_all
  have o2: "others_same ?i pl ?pl2" using o1 by simp
  have w2: "tables_ok h ?pl2" using w by simp
  have c2: "config ?pl2 = config pl" by simp
  have c: "config (processExited h p info pl) = config pl" by simp
  show ?thesis
  proof (cases ?t0)
    case None
    then have "processExited h p info pl = ?pl1" using processExited_eq [OF Some] by (simp add: Let_def)
    moreover have "?i \<noteq> task_name n" if "p_next pl \<le> n" "n \<le> max_int64" for n
    proof
      assume "?i = task_name n"
      then have "procs_of ?i pl = []" using that inv by (auto simp: exec_inv_def fresh_ids_def slot_def)
      moreover have "keys_distinct (p_procs pl)" using w by (simp add: tables_ok_def)
      ultimately show False using in_procs_of [OF _ \<open>map_of (p_procs pl) p = Some ref\<close>, of ?i] by simp
    qed
    ultimately show ?thesis using exec_inv_undefined [OF inv c None] w o1 by simp
  next
    case (Some t)
    have ti: "t_id t = ?i" using Some by (auto dest: find_task_Some)
    have ok: "core_ok (t_type t = typeScheduled) (slot ?i pl)" using exec_inv_task [OF inv Some] by simp
    note after = slot_after_exit [OF w \<open>map_of (p_procs pl) p = Some ref\<close> ok]
    then obtain r where r: "map_of (p_rt pl) ?i = Some r"
      by (cases "t_type t = typeScheduled") (auto simp: slot_def drop_process_def)
    have "good_step h ?i (t_type t = typeScheduled) pl (processExited h p info pl)"
    proof (cases "t_type t = typeScheduled")
      case True
      with after obtain st des pr ps where "st \<noteq> stateRestarting"
        "slot ?i ?pl2 = (Some (st, des, False, pr, int (length ps) + 1), ps)"
        using s2 by auto
      then have "good_step h ?i True ?pl2 (publishStatus h t (upd_rt ?i scheduled_exited ?pl2))"
        using w2 scheduled_exit_good ti by metis
      with o2 have "good_step h ?i True pl (publishStatus h t (upd_rt ?i scheduled_exited ?pl2))"
        by (rule good_step_after)
      with True Some r processExited_eq [OF \<open>map_of (p_procs pl) p = Some ref\<close>] show ?thesis
        by (simp add: Let_def)
    next
      case False
      with after obtain st des act where s: "slot ?i ?pl2 = (Some (st, des, False, p, act), [])"
        using s2 by auto
      have "rt_process r = p"
        using False after r by (auto simp: slot_def drop_process_def core_def)
      moreover have "good_step h ?i False ?pl2 (continuousExited h t info (exit_success ref info) ?pl2)"
        using continuousExited_good [OF u w2] s ti by metis
      then have "good_step h ?i False pl (continuousExited h t info (exit_success ref info) ?pl2)"
        by (rule good_step_after [OF o2])
      ultimately show ?thesis
        using False Some r processExited_eq [OF \<open>map_of (p_procs pl) p = Some ref\<close>] by (simp add: Let_def)
    qed
    then show ?thesis using exec_inv_good_step [OF inv c Some] by simp
  qed
qed

subsection \<open>Every execution operation keeps the invariant\<close>

lemma exec_inv_slot:
  assumes "exec_inv h pl" "find_task i (p_tasks pl) = Some t"
  obtains st des tm pr act ps where "slot i pl = (Some (st, des, tm, pr, act), ps)"
    "core_ok (t_type t = typeScheduled) (Some (st, des, tm, pr, act), ps)"
proof -
  have ok: "core_ok (t_type t = typeScheduled) (slot i pl)" using exec_inv_task [OF assms] by simp
  obtain c ps where s: "slot i pl = (c, ps)" by fastforce
  with ok obtain c' where "c = Some c'" by (cases c) auto
  with s ok that show ?thesis by (cases c') auto
qed

lemma exec_inv_has_rt: "exec_inv h pl \<Longrightarrow> find_task i (p_tasks pl) = Some t \<Longrightarrow> has_rt i pl"
  by (erule (1) exec_inv_slot) simp

lemma find_task_config: "config pl' = config pl \<Longrightarrow> find_task i (p_tasks pl') = find_task i (p_tasks pl)"
  using config_tasks [of pl' pl] by simp

lemma restartFired_inv:
  assumes u: "unique_process_ids h" and inv: "exec_inv h pl"
  shows "exec_inv h (restartFired h i pl)"
proof (cases "find_task i (p_tasks pl)")
  case None
  have t: "p_tasks (unregister h j pl) = p_tasks pl" for j by (rule config_tasks) simp
  from None inv show ?thesis by (simp add: restartFired_def Let_def t)
next
  case (Some t)
  let ?pl1 = "unregister h (restartPrefix @ i) pl"
  let ?pl2 = "upd_rt i (\<lambda>r. r\<lparr>rt_timer := False\<rparr>) ?pl1"
  have ti: "t_id t = i" using Some by (auto dest: find_task_Some)
  have t1: "p_tasks ?pl1 = p_tasks pl" by (rule config_tasks) simp
  obtain st des tm pr act ps where s: "slot i pl = (Some (st, des, tm, pr, act), ps)"
    and ok: "core_ok (t_type t = typeScheduled) (Some (st, des, tm, pr, act), ps)"
    using inv Some by (rule exec_inv_slot)
  have s1: "slot i ?pl1 = (Some (st, des, tm, pr, act), ps)" using s by simp
  then obtain r where r: "map_of (p_rt ?pl1) i = Some r" and cr: "core r = (st, des, tm, pr, act)"
    by (auto simp: slot_def)
  have s2: "slot i ?pl2 = (Some (st, des, False, pr, act), ps)"
    using s1 by (rule slot_upd_some) (auto simp: core_def)
  have w2: "tables_ok h ?pl2" using inv by auto
  have o2: "others_same i pl ?pl2" by (simp add: others_same_def)
  have "good_step h i (t_type t = typeScheduled) pl (restartFired h i pl)"
  proof (cases "st \<noteq> stateRestarting \<or> \<not> des")
    case True
    then have "restartFired h i pl = ?pl2"
      using Some r cr by (auto simp: restartFired_def Let_def t1 core_def)
    with s2 w2 o2 ok True show ?thesis by (auto simp: good_step_def split: if_splits)
  next
    case False
    then have "restartFired h i pl = snd (spawn h t ?pl2)"
      using Some r cr by (auto simp: restartFired_def Let_def t1 core_def)
    moreover from False ok have ns: "t_type t \<noteq> typeScheduled" "ps = []"
      by (auto split: if_splits)
    then have "good_step h i False ?pl2 (snd (spawn h t ?pl2))"
      using spawn_good [OF u w2, of t] s2 ti by simp
    ultimately show ?thesis using ns good_step_after [OF o2] by simp
  qed
  then show ?thesis using exec_inv_good_step [OF inv _ Some] by simp
qed

lemma reconcile_one_inv:
  assumes u: "unique_process_ids h" and inv: "exec_inv h pl"
  shows "exec_inv h (reconcile_one h i pl)"
proof -
  have "exec_inv h (snd (ask (h_status h) (ProcessStatus i) pl))" using inv by simp
  then show ?thesis using u
    by (simp add: reconcile_one_def case_prod_unfold Let_def processExited_inv split: sum.split)
qed

lemma reconcile_inv:
  assumes "unique_process_ids h" "exec_inv h pl"
  shows "exec_inv h (reconcile h pl)"
proof -
  have "exec_inv h (fold (reconcile_one h) ids pl)" for ids
    using assms(2) by (induction ids arbitrary: pl) (auto intro: reconcile_one_inv [OF assms(1)])
  then show ?thesis by (simp add: reconcile_def)
qed

lemma terminate_cases:
  assumes u: "unique_process_ids h" and inv: "exec_inv h pl"
  shows "exec_inv h (snd (terminate h p pl))
    \<and> (\<forall>e. fst (terminate h p pl) = Some e \<longrightarrow> snd (terminate h p pl) = snd (ask (h_status h) (ProcessTerminate p) pl))"
proof -
  have "exec_inv h (snd (ask (h_status h) (ProcessTerminate p) pl))" using inv by simp
  then show ?thesis using u
    by (simp add: terminate_def case_prod_unfold Let_def processExited_inv split: sum.split)
qed

lemma terminate_inv: "unique_process_ids h \<Longrightarrow> exec_inv h pl \<Longrightarrow> exec_inv h (snd (terminate h p pl))"
  using terminate_cases by blast

lemma terminate_failed:
  "unique_process_ids h \<Longrightarrow> exec_inv h pl \<Longrightarrow> terminate h p pl = (Some e, pl') \<Longrightarrow> slot j pl' = slot j pl"
  using terminate_cases [of h pl p] by (metis fst_conv slot_ask snd_conv)

lemma terminate_all_inv:
  "unique_process_ids h \<Longrightarrow> exec_inv h pl \<Longrightarrow> exec_inv h (snd (terminate_all h ids pl))"
  by (induction ids arbitrary: pl) (auto simp: case_prod_unfold Let_def terminate_inv)

lemma others_same_publish_own: "others_same (t_id t) pl (publishStatus h t pl)"
  by (simp add: others_same_def publishStatus_def view_task_def case_prod_unfold Let_def slot_runtimeOf)

lemma tables_ok_publish_own: "tables_ok h pl \<Longrightarrow> tables_ok h (publishStatus h' t pl)"
  by (simp add: publishStatus_def view_task_def case_prod_unfold Let_def)

lemma cancelRestartTimer_frame:
  "others_same i pl (cancelRestartTimer h i pl)" "tables_ok h' pl \<Longrightarrow> tables_ok h' (cancelRestartTimer h i pl)"
  by (simp_all add: cancelRestartTimer_def case_prod_unfold Let_def others_same_def slot_runtimeOf)

lemma cancelRestartTimer_slot:
  assumes "slot i pl = (Some (st, des, tm, pr, act), ps)"
  shows "slot i (cancelRestartTimer h i pl) = (Some (st, des, False, pr, act), ps)"
proof -
  obtain r where r: "map_of (p_rt pl) i = Some r" and cr: "core r = (st, des, tm, pr, act)"
    using assms by (auto simp: slot_def)
  show ?thesis
  proof (cases "rt_timer r")
    case True
    have "slot i (unregister h (restartPrefix @ i) pl) = (Some (st, des, tm, pr, act), ps)"
      using assms by simp
    then have "slot i (upd_rt i (\<lambda>r. r\<lparr>rt_timer := False\<rparr>) (unregister h (restartPrefix @ i) pl))
        = (Some (st, des, False, pr, act), ps)"
      by (rule slot_upd_some) (auto simp: core_def)
    with True r show ?thesis by (simp add: cancelRestartTimer_def fst_runtimeOf)
  next
    case False
    with r cr assms show ?thesis by (simp add: cancelRestartTimer_def fst_runtimeOf core_def)
  qed
qed
lemma stopTask_undefined_inv:
  assumes u: "unique_process_ids h" and inv: "exec_inv h pl" and none: "find_task (t_id t) (p_tasks pl) = None"
    and used: "\<And>n. p_next pl \<le> n \<Longrightarrow> n \<le> max_int64 \<Longrightarrow> t_id t \<noteq> task_name n"
  shows "exec_inv h (snd (stopTask h t k pl))"
proof -
  let ?i = "t_id t"
  have own: "exec_inv h pl'" if "exec_inv h p" "config p = config pl" "config pl' = config p" "tables_ok h pl'"
    "others_same ?i p pl'" for p pl'
    using exec_inv_undefined [OF that(1,3) _ that(4,5)] none used that(2) find_task_config [OF that(2)]
    by (simp add: config_def)
  have up: "exec_inv h (upd_rt ?i f p)" if "exec_inv h p" "config p = config pl" for p f
    by (rule own [OF that]) (use that in auto)
  have pub: "exec_inv h (publishStatus h t p)" if "exec_inv h p" "config p = config pl" for p
    by (rule own [OF that]) (use that in \<open>auto intro: others_same_publish_own tables_ok_publish_own\<close>)
  have canc: "exec_inv h (cancelRestartTimer h ?i p)" if "exec_inv h p" "config p = config pl" for p
    by (rule own [OF that]) (use that in \<open>auto intro: cancelRestartTimer_frame\<close>)
  have rt: "exec_inv h (snd (runtimeOf ?i p))" if "exec_inv h p" "config p = config pl" for p
    by (rule own [OF that]) (use exec_inv_tables [OF that(1)] in \<open>auto simp: others_same_def slot_runtimeOf\<close>)
  have trm: "exec_inv h (snd (terminate h p q))" if "exec_inv h q" for p q
    by (rule terminate_inv [OF u that])
  show ?thesis
    by (simp add: stopTask_def Let_def case_prod_unfold inv up pub canc rt trm terminate_all_inv [OF u]
        split: option.split)
qed

lemma stopTask_inv:
  assumes u: "unique_process_ids h" and inv: "exec_inv h pl" and t: "find_task (t_id t) (p_tasks pl) = Some t"
  shows "exec_inv h (snd (stopTask h t k pl))"
proof -
  let ?i = "t_id t"
  let ?upd = "\<lambda>r. r\<lparr>rt_desired := False, rt_pending := (if k then rt_pending r else False)\<rparr>"
  let ?pl1 = "cancelRestartTimer h ?i (upd_rt ?i ?upd pl)"
  obtain st des tm pr act ps where s: "slot ?i pl = (Some (st, des, tm, pr, act), ps)"
    and ok: "core_ok (t_type t = typeScheduled) (Some (st, des, tm, pr, act), ps)"
    using inv t by (rule exec_inv_slot)
  have "slot ?i (upd_rt ?i ?upd pl) = (Some (st, False, tm, pr, act), ps)"
    using s by (rule slot_upd_some) (auto simp: core_def)
  then have s1: "slot ?i ?pl1 = (Some (st, False, False, pr, act), ps)" by (rule cancelRestartTimer_slot)
  have w1: "tables_ok h ?pl1" using exec_inv_tables [OF inv] by (intro cancelRestartTimer_frame(2)) simp
  have o1: "others_same ?i pl ?pl1"
    by (rule others_same_trans [OF _ cancelRestartTimer_frame(1)]) simp
  obtain r where r: "map_of (p_rt ?pl1) ?i = Some r" and cr: "core r = (st, False, False, pr, act)"
    using s1 by (auto simp: slot_def)
  show ?thesis
  proof (cases "t_type t = typeScheduled")
    case True
    with ok s1 w1 o1 have "good_step h ?i (t_type t = typeScheduled) pl ?pl1" by (simp add: good_step_def)
    then have "exec_inv h ?pl1" using exec_inv_good_step [OF inv _ t] by simp
    then show ?thesis
      using True by (simp add: stopTask_def Let_def case_prod_unfold terminate_all_inv [OF u])
  next
    case False
    show ?thesis
    proof (cases "pr = ''''")
      case True
      let ?pl2 = "upd_rt ?i (\<lambda>r. r\<lparr>rt_state := stateStopped\<rparr>) ?pl1"
      have "slot ?i ?pl2 = (Some (stateStopped, False, False, pr, act), ps)"
        using s1 by (rule slot_upd_some) (auto simp: core_def)
      then have "good_step h ?i False pl (publishStatus h t ?pl2)"
        by (rule good_publishStatus) (use True False ok w1 o1 in auto)
      moreover have "snd (stopTask h t k pl) = publishStatus h t ?pl2"
        using True False r cr by (simp add: stopTask_def Let_def fst_runtimeOf core_def)
      ultimately show ?thesis using exec_inv_good_step [OF inv _ t] False by simp
    next
      case pr: False
      let ?pl2 = "publishStatus h t (upd_rt ?i (\<lambda>r. r\<lparr>rt_state := stateStopping\<rparr>) ?pl1)"
      have s2': "slot ?i (upd_rt ?i (\<lambda>r. r\<lparr>rt_state := stateStopping\<rparr>) ?pl1)
          = (Some (stateStopping, False, False, pr, act), ps)"
        using s1 by (rule slot_upd_some) (auto simp: core_def)
      then have "good_step h ?i False pl ?pl2"
        by (rule good_publishStatus) (use pr False ok w1 o1 in auto)
      then have inv2: "exec_inv h ?pl2" using exec_inv_good_step [OF inv _ t] False by simp
      have s2: "slot ?i ?pl2 = (Some (stateStopping, False, False, pr, act), ps)"
        using slot_publishStatus [OF has_rt_slotI [OF s2']] s2' by simp
      obtain err pl3 where trm: "terminate h pr ?pl2 = (err, pl3)" by fastforce
      have inv3: "exec_inv h pl3" using terminate_inv [OF u inv2, of pr] trm by simp
      show ?thesis
      proof (cases err)
        case None
        with trm False pr r cr inv3 show ?thesis
          by (simp add: stopTask_def Let_def fst_runtimeOf core_def)
      next
        case (Some e)
        have s3: "slot ?i pl3 = (Some (stateStopping, False, False, pr, act), ps)"
          using terminate_failed [OF u inv2] trm Some s2 by simp
        have c3: "config pl3 = config pl" using config_terminate [of h pr ?pl2] trm by simp
        have "slot ?i (upd_rt ?i (\<lambda>r'. r'\<lparr>rt_state := rt_state r\<rparr>) pl3) = (Some (st, False, False, pr, act), ps)"
          using s3 cr by (intro slot_upd_some) (auto simp: core_def)
        then have "good_step h ?i False pl3 (publishStatus h t (upd_rt ?i (\<lambda>r'. r'\<lparr>rt_state := rt_state r\<rparr>) pl3))"
          by (rule good_publishStatus) (use pr False ok inv3 in auto)
        then have "exec_inv h (publishStatus h t (upd_rt ?i (\<lambda>r'. r'\<lparr>rt_state := rt_state r\<rparr>) pl3))"
          using exec_inv_good_step [OF inv3] t find_task_config [OF c3] False by simp
        with trm Some False pr r cr show ?thesis
          by (simp add: stopTask_def Let_def fst_runtimeOf core_def)
      qed
    qed
  qed
qed

lemma startTask_inv:
  assumes u: "unique_process_ids h" and inv: "exec_inv h pl" and t: "find_task (t_id t) (p_tasks pl) = Some t"
    and c: "t_type t \<noteq> typeScheduled"
  shows "exec_inv h (snd (startTask h t pl))"
proof -
  let ?i = "t_id t"
  obtain st des tm pr act ps where s: "slot ?i pl = (Some (st, des, tm, pr, act), ps)"
    and ok: "core_ok (t_type t = typeScheduled) (Some (st, des, tm, pr, act), ps)"
    using inv t by (rule exec_inv_slot)
  obtain r where r: "map_of (p_rt pl) ?i = Some r" and cr: "core r = (st, des, tm, pr, act)"
    using s by (auto simp: slot_def)
  show ?thesis
  proof (cases "st = stateRunning \<or> st = stateStopping")
    case True
    with r cr inv show ?thesis by (auto simp: startTask_def Let_def fst_runtimeOf core_def)
  next
    case False
    let ?pl1 = "cancelRestartTimer h ?i pl"
    let ?pl2 = "upd_rt ?i (\<lambda>r. r\<lparr>rt_desired := True, rt_count := 0, rt_pending := False, rt_err := ''''\<rparr>) ?pl1"
    have ps: "ps = []" using ok False c by (auto split: if_splits)
    have s1: "slot ?i ?pl1 = (Some (st, des, False, pr, act), ps)" using s by (rule cancelRestartTimer_slot)
    have s2: "slot ?i ?pl2 = (Some (st, True, False, pr, act), [])"
      using s1 unfolding ps by (rule slot_upd_some) (auto simp: core_def)
    have w2: "tables_ok h ?pl2" using exec_inv_tables [OF inv] by (simp add: cancelRestartTimer_frame(2))
    have o2: "others_same ?i pl ?pl2" using cancelRestartTimer_frame(1) by simp
    have "good_step h ?i False ?pl2 (snd (spawn h t ?pl2))" by (rule spawn_good [OF u w2 s2])
    then have "good_step h ?i False pl (snd (spawn h t ?pl2))" by (rule good_step_after [OF o2])
    then have "exec_inv h (snd (spawn h t ?pl2))" using exec_inv_good_step [OF inv _ t] c by simp
    with False r cr show ?thesis
      by (simp add: startTask_def Let_def fst_runtimeOf core_def case_prod_unfold)
  qed
qed

lemma runNow_inv:
  assumes u: "unique_process_ids h" and inv: "exec_inv h pl" and t: "find_task (t_id t) (p_tasks pl) = Some t"
    and sch: "t_type t = typeScheduled"
  shows "exec_inv h (snd (runNow h t m pl))"
proof -
  let ?i = "t_id t"
  obtain st des tm pr act ps where s: "slot ?i pl = (Some (st, des, tm, pr, act), ps)"
    and ok: "core_ok (t_type t = typeScheduled) (Some (st, des, tm, pr, act), ps)"
    using inv t by (rule exec_inv_slot)
  obtain r where r: "map_of (p_rt pl) ?i = Some r" and cr: "core r = (st, des, tm, pr, act)"
    using s by (auto simp: slot_def)
  have w: "tables_ok h pl" using inv by auto
  show ?thesis
  proof (cases "0 < rt_active r \<and> t_overlap t \<noteq> overlapAllow")
    case True
    with r inv show ?thesis by (auto simp: runNow_def Let_def fst_runtimeOf)
  next
    case False
    note run = False
    from u w show ?thesis
    proof (cases rule: launch_cases [where t = t])
      case (failed e pl')
      have "slot ?i pl' = (Some (st, des, tm, pr, act), ps)" using failed(3) s by simp
      then have "good_step h ?i True pl (publishStatus h t pl')"
        by (rule good_publishStatus) (use failed ok sch in \<open>auto simp: others_same_def\<close>)
      then have "exec_inv h (publishStatus h t pl')"
        using exec_inv_good_step [OF inv _ t] sch config_launch [of h t pl] failed(1) by simp
      with failed(1) run r show ?thesis by (auto simp: runNow_def Let_def fst_runtimeOf)
    next
      case (started runID p pl')
      let ?pl2 = "upd_rt ?i (\<lambda>r. r\<lparr>rt_active := rt_active r + 1, rt_state := stateRunning\<rparr>) pl'"
      have "slot ?i pl' = (Some (st, des, tm, p, act), ps @ [p])" using started(5) s by simp
      then have "slot ?i ?pl2 = (Some (stateRunning, des, tm, p, act + 1), ps @ [p])"
        by (rule slot_upd_some) (auto simp: core_def)
      then have "good_step h ?i True pl (publishStatus h t ?pl2)"
        by (rule good_publishStatus) (use started ok sch in auto)
      then have "exec_inv h (publishStatus h t ?pl2)"
        using exec_inv_good_step [OF inv _ t] sch config_launch [of h t pl] started(1) by simp
      with started(1) run r show ?thesis by (auto simp: runNow_def Let_def fst_runtimeOf)
    qed
  qed
qed

subsection \<open>What is on disk\<close>

text \<open>The state file of the last \<open>storage.set\<close> call that the host accepted.\<close>

fun last_saved :: "host \<Rightarrow> host_call list \<Rightarrow> state_file option" where
  "last_saved h [] = None"
| "last_saved h (c # cs) =
     (case c of StorageSet k f \<Rightarrow> if h_unit h cs c = None then Some f else last_saved h cs
      | _ \<Rightarrow> last_saved h cs)"

definition disk :: "host \<Rightarrow> plugin \<Rightarrow> state_file option" where
  "disk h pl = last_saved h (p_calls pl)"

definition is_store :: "host_call \<Rightarrow> bool" where
  "is_store c = (case c of StorageSet k f \<Rightarrow> True | _ \<Rightarrow> False)"

lemma disk_fields [simp]:
  "disk h (pl\<lparr>p_rt := rt\<rparr>) = disk h pl" "disk h (pl\<lparr>p_procs := ps\<rparr>) = disk h pl"
  "disk h (pl\<lparr>p_tasks := ts\<rparr>) = disk h pl" "disk h (pl\<lparr>p_next := n\<rparr>) = disk h pl"
  by (simp_all add: disk_def)

lemma is_store_simps [simp]:
  "\<not> is_store (StorageGet k)" "\<not> is_store (SchedulerRegister i cb s)" "\<not> is_store (SchedulerRemove i)"
  "\<not> is_store (SchedulerValidate s)" "\<not> is_store (HistoryBegin i l m)" "\<not> is_store (HistoryAppend i m)"
  "\<not> is_store (HistoryFinish i oc b m)" "\<not> is_store (HistoryList i n)" "\<not> is_store (HistoryGet i)"
  "\<not> is_store (HistoryOutput i n)" "\<not> is_store (ProcessStart ps)" "\<not> is_store (ProcessStatus i)"
  "\<not> is_store (ProcessTerminate i)" "\<not> is_store (EventsPublish d)"
  by (simp_all add: is_store_def)

lemma disk_ask [simp]: "\<not> is_store c \<Longrightarrow> disk h (snd (ask a c pl)) = disk h pl"
  by (cases c) (simp_all add: disk_def ask_def is_store_def)

lemma disk_tell [simp]: "\<not> is_store c \<Longrightarrow> disk h (tell h' c pl) = disk h pl"
  by (simp add: tell_def disk_ask)

lemma disk_upd_rt [simp]: "disk h (upd_rt i f pl) = disk h pl"
  by (simp add: upd_rt_def)

lemma disk_runtimeOf [simp]: "disk h (snd (runtimeOf i pl)) = disk h pl"
  by (simp add: runtimeOf_def split: option.split)

lemma disk_publish [simp]: "disk h (publish h d pl) = disk h pl"
  by (simp add: publish_def)

lemma disk_view_task [simp]: "disk h (snd (view_task t pl)) = disk h pl"
  using disk_runtimeOf [of h "t_id t" pl] by (simp add: view_task_def Let_def case_prod_unfold)

lemma disk_publishStatus [simp]: "disk h (publishStatus h t pl) = disk h pl"
  by (simp add: publishStatus_def Let_def case_prod_unfold)

lemma disk_register [simp]: "disk h (snd (register h i c s pl)) = disk h pl"
  by (simp add: register_def)

lemma disk_unregister [simp]: "disk h (unregister h i pl) = disk h pl"
  by (simp add: unregister_def)

lemma disk_cancelRestartTimer [simp]: "disk h (cancelRestartTimer h i pl) = disk h pl"
  by (simp add: cancelRestartTimer_def Let_def case_prod_unfold)

lemma disk_finishExecution [simp]: "disk h (finishExecution h i c b m pl) = disk h pl"
  by (simp add: finishExecution_def)

lemma disk_launch [simp]: "disk h (snd (launch h t pl)) = disk h pl"
  by (simp add: launch_def launch_failed_def launch_started_def Let_def case_prod_unfold split: sum.split)

lemma disk_spawn [simp]: "disk h (snd (spawn h t pl)) = disk h pl"
  by (simp add: spawn_def Let_def case_prod_unfold split: sum.split)

lemma disk_schedule_restart [simp]: "disk h (schedule_restart h t p r pl) = disk h pl"
  by (simp add: schedule_restart_def Let_def case_prod_unfold split: option.split)

lemma disk_continuousExited [simp]: "disk h (continuousExited h t info success pl) = disk h pl"
  by (simp add: continuousExited_def Let_def case_prod_unfold split: option.split)

lemma disk_processExited [simp]: "disk h (processExited h i info pl) = disk h pl"
  by (simp add: processExited_def Let_def split: option.split)

lemma disk_restartFired [simp]: "disk h (restartFired h i pl) = disk h pl"
  by (simp add: restartFired_def Let_def split: option.split)

lemma disk_reconcile_one [simp]: "disk h (reconcile_one h i pl) = disk h pl"
  by (simp add: reconcile_one_def Let_def case_prod_unfold split: sum.split)

lemma disk_reconcile [simp]: "disk h (reconcile h pl) = disk h pl"
proof -
  have "disk h (fold (reconcile_one h) ids pl) = disk h pl" for ids
    by (induction ids arbitrary: pl) auto
  then show ?thesis by (simp add: reconcile_def)
qed

lemma disk_terminate [simp]: "disk h (snd (terminate h i pl)) = disk h pl"
  by (simp add: terminate_def Let_def case_prod_unfold split: sum.split)

lemma disk_terminate_all [simp]: "disk h (snd (terminate_all h ids pl)) = disk h pl"
  by (induction ids arbitrary: pl) (auto simp: case_prod_unfold Let_def)

lemma disk_stopTask [simp]: "disk h (snd (stopTask h t k pl)) = disk h pl"
  by (simp add: stopTask_def Let_def case_prod_unfold split: option.split)

lemma disk_startTask [simp]: "disk h (snd (startTask h t pl)) = disk h pl"
  by (simp add: startTask_def Let_def case_prod_unfold)

lemma disk_runNow [simp]: "disk h (snd (runNow h t m pl)) = disk h pl"
  by (simp add: runNow_def Let_def case_prod_unfold split: sum.split)

lemma disk_applySchedule [simp]: "disk h (snd (applySchedule h t pl)) = disk h pl"
  by (simp add: applySchedule_def Let_def)

lemma disk_validateSchedule [simp]: "disk h (snd (validateSchedule h t pl)) = disk h pl"
  by (simp add: validateSchedule_def)

end
