(* ===== verification/TaskPlugin.thy ===== *)
theory TaskPlugin
  imports TaskInvariant
begin

section \<open>The tasks plugin: requests, events and whole runs\<close>

text \<open>
  What the requests of \<^verbatim>\<open>rpc.go\<close> and the host's callbacks do to the plugin: failed requests change
  nothing, successful ones are on disk before they are in memory, and every sequence of requests
  and callbacks, in any order and with any replies of the host, keeps the invariant of
  \<^verbatim>\<open>TaskInvariant\<close>: a continuous task has at most one process.
\<close>

subsection \<open>Requests that fail\<close>

text \<open>\<open>quiet\<close>: the host may have been called, but nothing the plugin knows has changed.\<close>

definition quiet :: "host \<Rightarrow> plugin \<Rightarrow> plugin \<Rightarrow> bool" where
  "quiet h pl pl' = (\<exists>cs. pl' = pl\<lparr>p_calls := cs @ p_calls pl\<rparr> \<and> disk h pl' = disk h pl)"

lemma quiet_refl [simp]: "quiet h pl pl"
  unfolding quiet_def by (rule exI [of _ "[]"]) simp

lemma quiet_trans: "quiet h a b \<Longrightarrow> quiet h b c \<Longrightarrow> quiet h a c"
proof -
  assume "quiet h a b" and "quiet h b c"
  then obtain cs ds where "b = a\<lparr>p_calls := cs @ p_calls a\<rparr>" "c = b\<lparr>p_calls := ds @ p_calls b\<rparr>"
    "disk h b = disk h a" "disk h c = disk h b" by (auto simp: quiet_def)
  then have "c = a\<lparr>p_calls := (ds @ cs) @ p_calls a\<rparr>" "disk h c = disk h a" by simp_all
  then show ?thesis unfolding quiet_def by blast
qed

lemma quiet_ask: "\<not> is_store c \<or> h_unit h (p_calls pl) c \<noteq> None \<Longrightarrow> quiet h pl (snd (ask a c pl))"
  unfolding quiet_def by (rule exI [of _ "[c]"]) (cases c; auto simp: ask_def disk_def is_store_def)

lemma quiet_asks [simp]:
  "quiet h pl (snd (validateSchedule h t pl))" "quiet h pl (unregister h i pl)" "quiet h pl (publish h d pl)"
  "quiet h pl (snd (register h i c s pl))"
  by (simp_all add: validateSchedule_def unregister_def publish_def register_def tell_def quiet_ask)

lemma quiet_apply [simp]: "quiet h pl (snd (applySchedule h t pl))"
  using quiet_trans [OF quiet_asks(2) quiet_asks(4)] by (simp add: applySchedule_def Let_def)

lemma quiet_save: "fst (save h ts n pl) = Some e \<Longrightarrow> quiet h pl (snd (save h ts n pl))"
  unfolding save_def by (rule quiet_ask) (simp add: ask_def)

lemma save_ok:
  "fst (save h ts n pl) = None \<Longrightarrow> disk h (snd (save h ts n pl)) = Some \<lparr>sf_version = 1, sf_next = n, sf_tasks = ts\<rparr>"
  by (simp add: save_def ask_def disk_def)

lemma save_frame [simp]: "slot j (snd (save h ts n pl)) = slot j pl" "tables_ok h' pl \<Longrightarrow> tables_ok h' (snd (save h ts n pl))"
  by (simp_all add: save_def)

lemma quiet_config: "quiet h pl pl' \<Longrightarrow> config pl' = config pl"
  by (auto simp: quiet_def)

lemma quiet_disk: "quiet h pl pl' \<Longrightarrow> disk h pl' = disk h pl"
  by (auto simp: quiet_def)

lemma quiet_slot: "quiet h pl pl' \<Longrightarrow> slot j pl' = slot j pl"
  by (auto simp: quiet_def)

lemma quiet_tables: "quiet h pl pl' \<Longrightarrow> tables_ok h' pl \<Longrightarrow> tables_ok h' pl'"
  by (auto simp: quiet_def)

lemma quiet_exec_inv: "quiet h pl pl' \<Longrightarrow> exec_inv h pl \<Longrightarrow> exec_inv h pl'"
  by (rule exec_inv_same) (assumption | erule quiet_config quiet_slot quiet_tables exec_inv_tables)+

subsection \<open>Creating a task\<close>

text \<open>What a successful \<open>create\<close> does after the host has accepted the new state file.\<close>

definition add_task :: "task \<Rightarrow> plugin \<Rightarrow> plugin" where
  "add_task t pl =
     snd (runtimeOf (t_id t) (pl\<lparr>p_tasks := p_tasks pl @ [t], p_next := wrap64 (p_next pl + 1)\<rparr>))"

lemma view_task_has: "has_rt (t_id t) pl \<Longrightarrow> \<exists>v. view_task t pl = (v, pl) \<and> v_task v = t"
  by (auto simp: view_task_def case_prod_unfold Let_def view_of_def)

lemma create_checked_cases:
  obtains (failed) "\<not> is_ok (fst (create_checked h t pl))" "quiet h pl (snd (create_checked h t pl))"
  | (created) v pl1 pl2 pl3 where "create_checked h t pl = (Inr (TaskView v), pl3)" "quiet h pl pl1"
      "save h (p_tasks pl @ [t]) (wrap64 (p_next pl + 1)) pl1 = (None, pl2)"
      "quiet h (add_task t pl2) pl3" "v_task v = t"
proof -
  obtain e1 pl1 where v: "validateSchedule h t pl = (e1, pl1)" by fastforce
  obtain e2 pl2 where a: "applySchedule h t pl1 = (e2, pl2)" by fastforce
  obtain e3 pl3 where s: "save h (p_tasks pl @ [t]) (wrap64 (p_next pl + 1)) pl2 = (e3, pl3)" by fastforce
  have q1: "quiet h pl pl1" using quiet_asks(1) [of h pl t] v by simp
  have q2: "quiet h pl pl2" using quiet_trans [OF q1] quiet_apply [of h pl1 t] a by simp
  have c2: "p_tasks pl2 = p_tasks pl" "p_next pl2 = p_next pl"
    using quiet_config [OF q2] by (simp_all add: config_def)
  consider "e1 \<noteq> None" | "e1 = None" "e2 \<noteq> None" | "e1 = None" "e2 = None" "e3 \<noteq> None"
    | "e1 = None" "e2 = None" "e3 = None" by blast
  then show ?thesis
  proof cases
    case 1
    with v q1 show ?thesis by (intro failed) (auto simp: create_checked_def)
  next
    case 2
    have "quiet h pl (unregister h (t_id t) pl2)" by (rule quiet_trans [OF q2]) simp
    with 2 v a show ?thesis by (intro failed) (auto simp: create_checked_def)
  next
    case 3
    then have "quiet h pl2 pl3"
      using quiet_save [of h "p_tasks pl @ [t]" "wrap64 (p_next pl + 1)" pl2] s by auto
    with q2 have "quiet h pl pl3" by (rule quiet_trans)
    then have "quiet h pl (unregister h (t_id t) pl3)" by (rule quiet_trans) simp
    with 3 v a s c2 show ?thesis by (intro failed) (auto simp: create_checked_def)
  next
    case 4
    let ?pl5 = "publish h (PubChanged ''created'' (t_id t)) (add_task t pl3)"
    have c3: "p_tasks pl3 = p_tasks pl" "p_next pl3 = p_next pl"
      using config_save [of h "p_tasks pl @ [t]" "wrap64 (p_next pl + 1)" pl2] s c2 by (auto simp: config_def)
    obtain v5 where vt: "view_task t ?pl5 = (v5, ?pl5)" "v_task v5 = t"
      using view_task_has [of t ?pl5] by (auto simp: add_task_def)
    have "create_checked h t pl = (Inr (TaskView v5), ?pl5)"
      using 4 v a s vt(1) by (simp add: create_checked_def add_task_def c2 c3)
    then show ?thesis using 4 s q2 vt(2) by (intro created) auto
  qed
qed

lemma create_cases:
  obtains (failed) "\<not> is_ok (fst (create h input pl))" "quiet h pl (snd (create h input pl))"
  | (created) v pl1 pl2 pl3 where "create h input pl = (Inr (TaskView v), pl3)" "quiet h pl pl1"
      "save h (p_tasks pl @ [prepared pl input]) (wrap64 (p_next pl + 1)) pl1 = (None, pl2)"
      "quiet h (add_task (prepared pl input) pl2) pl3" "v_task v = prepared pl input"
      "p_loadError pl = ''''" "length (p_tasks pl) < maxTasks" "valid_task (prepared pl input)"
proof -
  let ?t = "prepared pl input"
  have "(\<exists>e. create h input pl = (Inl e, pl)) \<or>
      p_loadError pl = [] \<and> length (p_tasks pl) < maxTasks \<and> valid_task ?t
      \<and> create h input pl = create_checked h ?t pl"
    unfolding validateTask_valid [symmetric]
    by (cases "p_loadError pl = []"; cases "maxTasks \<le> length (p_tasks pl)"; cases "validateTask ?t")
       (simp_all add: create_def writable_def Let_def)
  then consider (early) e where "create h input pl = (Inl e, pl)"
    | (late) "p_loadError pl = []" "length (p_tasks pl) < maxTasks" "valid_task ?t"
        "create h input pl = create_checked h ?t pl" by blast
  then show ?thesis
  proof cases
    case early
    then show ?thesis by (intro failed) auto
  next
    case late
    show ?thesis
    proof (cases rule: create_checked_cases [of h ?t pl])
      case failed
      with late(4) show ?thesis by (intro that(1)) simp_all
    next
      case (created v pl1 pl2 pl3)
      with late show ?thesis by (intro that(2)) simp_all
    qed
  qed
qed
lemma exec_inv_next:
  assumes "exec_inv h pl" "p_next pl \<le> n"
  shows "exec_inv h (pl\<lparr>p_next := n\<rparr>)"
  using assms by (auto simp: exec_inv_def tables_ok_def issued_def slot_ok_def slot_def procs_of_def fresh_ids_def)

lemma task_name_inj [simp]: "task_name m = task_name n \<longleftrightarrow> m = n"
  by (auto simp: task_name_def dest: itoa_inj)

lemma tables_ok_tasks [simp]: "tables_ok h (pl\<lparr>p_tasks := ts\<rparr>) = tables_ok h pl" "tables_ok h (pl\<lparr>p_next := n\<rparr>) = tables_ok h pl"
  by (simp_all add: tables_ok_def issued_def)

lemma slot_tasks [simp]: "slot i (pl\<lparr>p_tasks := ts\<rparr>) = slot i pl" "slot i (pl\<lparr>p_next := n\<rparr>) = slot i pl"
  by (simp_all add: slot_def procs_of_def)

lemma has_rt_tasks [simp]: "has_rt i (pl\<lparr>p_tasks := ts\<rparr>) = has_rt i pl" "has_rt i (pl\<lparr>p_next := n\<rparr>) = has_rt i pl"
  by (simp_all add: has_rt_def)

lemma add_task_inv:
  assumes inv: "exec_inv h pl" and nx: "1 \<le> p_next pl" "p_next pl < max_int64" and t: "t_id t = task_name (p_next pl)"
  shows "exec_inv h (add_task t pl)"
proof -
  let ?i = "t_id t"
  let ?pl1 = "pl\<lparr>p_tasks := p_tasks pl @ [t], p_next := wrap64 (p_next pl + 1)\<rparr>"
  have w: "wrap64 (p_next pl + 1) = p_next pl + 1"
    using nx by (intro wrap64_id) (auto simp: max_int64_def)
  have old: "slot ?i pl = (None, [])" "find_task ?i (p_tasks pl) = None"
    using inv t nx(2) by (auto simp: exec_inv_def fresh_ids_def)
  have si: "slot j (add_task t pl) = (if j = ?i then (Some (core new_runtime), []) else slot j pl)" for j
    using old(1) by (auto simp: add_task_def slot_runtimeOf has_rt_slot) (auto simp: slot_def procs_of_def)
  have new_ok: "slot_ok t (add_task t pl)"
    by (simp add: slot_ok_def si core_def new_runtime_def)
  have other_ok: "slot_ok u (add_task t pl)" if "u \<in> set (p_tasks pl)" for u
    using that find_task_None [OF old(2) that] inv by (simp add: slot_ok_def si exec_inv_def list_all_iff)
  have c: "p_tasks (add_task t pl) = p_tasks pl @ [t]" "p_next (add_task t pl) = p_next pl + 1"
    using config_runtimeOf [of ?i ?pl1] w by (simp_all add: add_task_def config_def)
  have "fresh_ids (add_task t pl)"
    unfolding fresh_ids_def c
  proof (intro allI impI conjI)
    fix n assume n: "p_next pl + 1 \<le> n \<and> n \<le> max_int64"
    then have ne: "task_name n \<noteq> ?i" using t by simp
    have f: "slot (task_name n) pl = (None, [])" "find_task (task_name n) (p_tasks pl) = None"
      using inv n by (auto simp: exec_inv_def fresh_ids_def)
    show "slot (task_name n) (add_task t pl) = (None, [])" using ne f by (simp add: si)
    show "find_task (task_name n) (p_tasks pl @ [t]) = None"
      using ne f(2) by (auto simp: find_task_def find_None_iff)
  qed
  moreover have "distinct (map t_id (p_tasks pl @ [t]))"
    using inv find_task_None [OF old(2)] by (fastforce simp: exec_inv_def)
  moreover have "tables_ok h (add_task t pl)"
    using inv by (auto simp: add_task_def intro!: tables_ok_runtimeOf)
  ultimately show ?thesis using new_ok other_ok by (auto simp: exec_inv_def c list_all_iff)
qed

lemma index_of_Some: "index_of i ts = Some n \<Longrightarrow> n < length ts \<and> t_id (ts ! n) = i"
  by (auto simp: index_of_def find_Some_iff)

lemma index_of_None: "index_of i ts = None \<longleftrightarrow> i \<notin> t_id ` set ts"
proof -
  have "index_of i ts = None \<longleftrightarrow> (\<forall>n < length ts. t_id (ts ! n) \<noteq> i)"
    by (auto simp: index_of_def find_None_iff)
  then show ?thesis by (metis image_iff in_set_conv_nth)
qed

subsection \<open>Updating a task\<close>

definition replace_task :: "nat \<Rightarrow> task \<Rightarrow> plugin \<Rightarrow> plugin" where
  "replace_task i t pl = upd_rt (t_id t) (\<lambda>r. r\<lparr>rt_err := []\<rparr>) (snd (runtimeOf (t_id t) (pl\<lparr>p_tasks := (p_tasks pl)[i := t]\<rparr>)))"

lemma update_checked_cases:
  obtains (failed) "\<not> is_ok (fst (update_checked h i old t pl))" "quiet h pl (snd (update_checked h i old t pl))"
  | (updated) v pl1 pl2 pl3 where "update_checked h i old t pl = (Inr (TaskView v), pl3)" "quiet h pl pl1"
      "save h ((p_tasks pl)[i := t]) (p_next pl) pl1 = (None, pl2)" "quiet h (replace_task i t pl2) pl3" "v_task v = t"
proof -
  obtain e1 pl1 where v: "validateSchedule h t pl = (e1, pl1)" by fastforce
  obtain e2 pl2 where a: "applySchedule h t pl1 = (e2, pl2)" by fastforce
  obtain e3 pl3 where s: "save h ((p_tasks pl)[i := t]) (p_next pl) pl2 = (e3, pl3)" by fastforce
  have q1: "quiet h pl pl1" using quiet_asks(1) [of h pl t] v by simp
  have q2: "quiet h pl pl2" using quiet_trans [OF q1] quiet_apply [of h pl1 t] a by simp
  have c2: "p_tasks pl2 = p_tasks pl" "p_next pl2 = p_next pl"
    using quiet_config [OF q2] by (simp_all add: config_def)
  consider "e1 \<noteq> None" | "e1 = None" "e2 \<noteq> None" | "e1 = None" "e2 = None" "e3 \<noteq> None"
    | "e1 = None" "e2 = None" "e3 = None" by blast
  then show ?thesis
  proof cases
    case 1
    with v q1 show ?thesis by (intro failed) (auto simp: update_checked_def)
  next
    case 2
    have "quiet h pl (snd (applySchedule h old pl2))" by (rule quiet_trans [OF q2]) simp
    with 2 v a show ?thesis by (intro failed) (auto simp: update_checked_def)
  next
    case 3
    then have "quiet h pl2 pl3"
      using quiet_save [of h "(p_tasks pl)[i := t]" "p_next pl" pl2] s by auto
    with q2 have "quiet h pl pl3" by (rule quiet_trans)
    then have "quiet h pl (snd (applySchedule h old pl3))" by (rule quiet_trans) simp
    with 3 v a s c2 show ?thesis by (intro failed) (auto simp: update_checked_def)
  next
    case 4
    let ?pl5 = "publish h (PubChanged ''updated'' (t_id t)) (replace_task i t pl3)"
    have c3: "p_tasks pl3 = p_tasks pl" "p_next pl3 = p_next pl"
      using config_save [of h "(p_tasks pl)[i := t]" "p_next pl" pl2] s c2 by (auto simp: config_def)
    obtain v5 where vt: "view_task t ?pl5 = (v5, ?pl5)" "v_task v5 = t"
      using view_task_has [of t ?pl5] by (auto simp: replace_task_def)
    have "update_checked h i old t pl = (Inr (TaskView v5), ?pl5)"
      using 4 v a s vt(1) by (simp add: update_checked_def replace_task_def c2 c3)
    then show ?thesis using 4 s q2 vt(2) by (intro updated) auto
  qed
qed

lemma update_cases:
  obtains (failed) "\<not> is_ok (fst (update h input pl))" "quiet h pl (snd (update h input pl))"
  | (updated) i v pl1 pl2 pl3 where "update h input pl = (Inr (TaskView v), pl3)" "quiet h pl pl1"
      "save h ((p_tasks pl)[i := normalizeTask input]) (p_next pl) pl1 = (None, pl2)"
      "quiet h (replace_task i (normalizeTask input) pl2) pl3" "v_task v = normalizeTask input"
      "p_loadError pl = []" "index_of (t_id input) (p_tasks pl) = Some i"
      "t_type input = t_type (p_tasks pl ! i)" "valid_task (normalizeTask input)"
proof -
  let ?t = "normalizeTask input"
  have "(\<exists>e. update h input pl = (Inl e, pl)) \<or>
      (\<exists>i. p_loadError pl = [] \<and> index_of (t_id input) (p_tasks pl) = Some i
        \<and> t_type input = t_type (p_tasks pl ! i) \<and> valid_task ?t
        \<and> update h input pl = update_checked h i (p_tasks pl ! i) ?t pl)"
    unfolding validateTask_valid [symmetric]
    by (cases "p_loadError pl = []"; cases "index_of (t_id input) (p_tasks pl)"; cases "validateTask ?t")
       (simp_all add: update_def writable_def Let_def)
  then consider (early) e where "update h input pl = (Inl e, pl)"
    | (late) i where "p_loadError pl = []" "index_of (t_id input) (p_tasks pl) = Some i"
        "t_type input = t_type (p_tasks pl ! i)" "valid_task ?t"
        "update h input pl = update_checked h i (p_tasks pl ! i) ?t pl" by blast
  then show ?thesis
  proof cases
    case early
    then show ?thesis by (intro failed) auto
  next
    case late
    show ?thesis
    proof (cases rule: update_checked_cases [of h i "p_tasks pl ! i" ?t pl])
      case failed
      with late(5) show ?thesis by (intro that(1)) simp_all
    next
      case (updated v pl1 pl2 pl3)
      with late show ?thesis by (intro that(2)) simp_all
    qed
  qed
qed
lemma find_task_none_iff: "find_task i ts = None \<longleftrightarrow> i \<notin> t_id ` set ts"
  by (auto simp: find_task_def find_None_iff)

lemma replace_task_inv:
  assumes inv: "exec_inv h pl" and i: "index_of (t_id t) (p_tasks pl) = Some i" and ty: "t_type t = t_type (p_tasks pl ! i)"
  shows "exec_inv h (replace_task i t pl)"
proof -
  let ?ts = "(p_tasks pl)[i := t]"
  have lt: "i < length (p_tasks pl)" and id: "t_id (p_tasks pl ! i) = t_id t"
    using index_of_Some [OF i] by auto
  let ?old = "p_tasks pl ! i"
  have mem: "?old \<in> set (p_tasks pl)" using lt by simp
  have "has_rt (t_id t) pl"
    using exec_inv_has_rt [OF inv find_task_in [OF _ mem]] inv id by (simp add: exec_inv_def)
  then have eq: "replace_task i t pl = upd_rt (t_id t) (\<lambda>r. r\<lparr>rt_err := []\<rparr>) (pl\<lparr>p_tasks := ?ts\<rparr>)"
    by (simp add: replace_task_def)
  have s: "slot j (replace_task i t pl) = slot j pl" for j
    unfolding eq by (subst slot_upd_rt_core) (simp_all add: core_def)
  have ids: "map t_id ?ts = map t_id (p_tasks pl)"
    by (metis id list_update_id map_update)
  have ft: "find_task (task_name n) ?ts = None \<longleftrightarrow> find_task (task_name n) (p_tasks pl) = None" for n
    using arg_cong [OF ids, of set] by (simp add: find_task_none_iff)
  have ok: "slot_ok u (replace_task i t pl)" if "u \<in> set ?ts" for u
  proof -
    from that have "u = t \<or> u \<in> set (p_tasks pl)" by (meson insertE set_update_subset_insert subsetD)
    then show ?thesis
      using inv mem id ty s by (auto simp: exec_inv_def slot_ok_def list_all_iff)
  qed
  show ?thesis
    using inv ok ids ft s unfolding exec_inv_def fresh_ids_def
    by (simp add: eq list_all_iff) (simp add: upd_rt_def)
qed

subsection \<open>Deleting a task\<close>

definition without_task :: "nat \<Rightarrow> plugin \<Rightarrow> plugin" where
  "without_task i pl = pl\<lparr>p_tasks := take i (p_tasks pl) @ drop (Suc i) (p_tasks pl)\<rparr>"

lemma remove_image: "f y \<notin> f ` R \<Longrightarrow> {x \<in> insert y R. f x \<noteq> f y} = R"
  by auto (metis imageI)

lemma in_take_drop:
  assumes "distinct (map f xs)" "i < length xs"
  shows "set (take i xs @ drop (Suc i) xs) = {x \<in> set xs. f x \<noteq> f (xs ! i)}"
    and "distinct (map f (take i xs @ drop (Suc i) xs))"
proof -
  have xs: "xs = take i xs @ xs ! i # drop (Suc i) xs" using assms(2) by (rule id_take_nth_drop)
  then have m: "map f xs = map f (take i xs) @ f (xs ! i) # map f (drop (Suc i) xs)"
    by (metis list.simps(9) map_append)
  with assms(1) have d: "f (xs ! i) \<notin> f ` set (take i xs @ drop (Suc i) xs)"
    "distinct (map f (take i xs @ drop (Suc i) xs))" by auto
  moreover have "set xs = insert (xs ! i) (set (take i xs @ drop (Suc i) xs))"
    using xs by (metis Un_insert_right list.simps(15) set_append)
  ultimately show "set (take i xs @ drop (Suc i) xs) = {x \<in> set xs. f x \<noteq> f (xs ! i)}"
    using remove_image [OF d(1)] by simp
  show "distinct (map f (take i xs @ drop (Suc i) xs))" by (rule d(2))
qed

lemma without_task_inv:
  assumes inv: "exec_inv h pl" and i: "index_of (t_id t) (p_tasks pl) = Some i"
  shows "exec_inv h (without_task i pl)" "find_task (t_id t) (p_tasks (without_task i pl)) = None"
proof -
  have lt: "i < length (p_tasks pl)" "t_id (p_tasks pl ! i) = t_id t" using index_of_Some [OF i] by auto
  have d: "distinct (map t_id (p_tasks pl))" using inv by (simp add: exec_inv_def)
  note rest = in_take_drop [OF d lt(1)]
  have s: "slot j (without_task i pl) = slot j pl" for j by (simp add: without_task_def)
  show "find_task (t_id t) (p_tasks (without_task i pl)) = None"
    using rest(1) lt(2) by (simp add: without_task_def find_task_def find_None_iff del: set_append)
  have "fresh_ids (without_task i pl)"
    using inv rest(1) by (auto simp: exec_inv_def fresh_ids_def s find_task_def find_None_iff without_task_def simp del: set_append)
  then show "exec_inv h (without_task i pl)"
    using inv rest by (simp add: exec_inv_def s slot_ok_def list_all_iff del: set_append map_append)
      (simp add: without_task_def del: set_append map_append)
qed

definition forget_rt :: "string \<Rightarrow> plugin \<Rightarrow> plugin" where
  "forget_rt i pl = pl\<lparr>p_rt := AList.delete i (p_rt pl)\<rparr>"

lemma forget_rt_inv:
  assumes inv: "exec_inv h pl" and none: "find_task i (p_tasks pl) = None"
    and used: "\<And>n. p_next pl \<le> n \<Longrightarrow> n \<le> max_int64 \<Longrightarrow> i \<noteq> task_name n"
  shows "exec_inv h (forget_rt i pl)"
proof (rule exec_inv_undefined [OF inv _ none _ _ used])
  show "config (forget_rt i pl) = config pl" by (simp add: forget_rt_def)
  show "tables_ok h (forget_rt i pl)"
    using inv by (auto simp: forget_rt_def exec_inv_def tables_ok_def issued_def)
  show "others_same i pl (forget_rt i pl)"
    by (simp add: others_same_def slot_def forget_rt_def table_simps)
qed

text \<open>A failed deletion is quiet; a successful one stores first and then forgets the task.\<close>

lemma delete_task_cases:
  assumes u: "unique_process_ids h" and inv: "exec_inv h pl" and i: "index_of (t_id t) (p_tasks pl) = Some i"
  obtains (failed) "\<not> is_ok (fst (delete_task h i t pl))" "quiet h pl (snd (delete_task h i t pl))"
  | (deleted) pl1 pl2 where
      "save h (take i (p_tasks pl) @ drop (Suc i) (p_tasks pl)) (p_next pl) pl = (None, pl1)"
      "delete_task h i t pl = (Inr (TaskDeleted (t_id t)), pl2)"
      "exec_inv h pl2" "disk h pl2 = disk h pl1" "p_next pl2 = p_next pl"
      "p_tasks pl2 = take i (p_tasks pl) @ drop (Suc i) (p_tasks pl)" "slot (t_id t) pl2 = (None, procs_of (t_id t) pl2)"
proof -
  let ?i = "t_id t"
  let ?ts = "take i (p_tasks pl) @ drop (Suc i) (p_tasks pl)"
  obtain e pl1 where s: "save h ?ts (p_next pl) pl = (e, pl1)" by fastforce
  show ?thesis
  proof (cases e)
    case (Some x)
    then have "quiet h pl pl1" using quiet_save [of h ?ts "p_next pl" pl] s by auto
    with Some s show ?thesis by (intro failed) (auto simp: delete_task_def)
  next
    case None
    have c1: "config pl1 = config pl" and s1: "slot j pl1 = slot j pl" and w1: "tables_ok h pl1" for j
      using config_save [of h ?ts "p_next pl" pl] save_frame(1) [of j h ?ts "p_next pl" pl]
        save_frame(2) [of h pl h ?ts "p_next pl"] s exec_inv_tables [OF inv]
      by auto
    have t1: "p_tasks pl1 = p_tasks pl" "p_next pl1 = p_next pl" using c1 by (simp_all add: config_def)
    have inv1: "exec_inv h pl1" by (rule exec_inv_same [OF inv c1 w1 s1])
    let ?pl2 = "without_task i pl1"
    have i1: "index_of ?i (p_tasks pl1) = Some i" using i t1 by simp
    have inv2: "exec_inv h ?pl2" and none2: "find_task ?i (p_tasks ?pl2) = None"
      using without_task_inv [OF inv1 i1] by auto
    have used: "?i \<noteq> task_name n" if "p_next pl \<le> n" "n \<le> max_int64" for n
    proof
      assume "?i = task_name n"
      then have "find_task ?i (p_tasks pl) = None" using inv that by (auto simp: exec_inv_def fresh_ids_def)
      moreover have "?i \<in> t_id ` set (p_tasks pl)" using i by (metis index_of_None option.distinct(1))
      ultimately show False by (auto simp: find_task_def find_None_iff)
    qed
    have n2: "p_next ?pl2 = p_next pl" using t1 by (simp add: without_task_def)
    let ?pl3 = "snd (stopTask h t False ?pl2)"
    have inv3: "exec_inv h ?pl3"
      by (rule stopTask_undefined_inv [OF u inv2 none2]) (use used n2 in auto)
    let ?pl4 = "unregister h ?i ?pl3"
    have c4: "config ?pl4 = config ?pl2" by simp
    then have t4: "p_tasks ?pl4 = p_tasks ?pl2" "p_next ?pl4 = p_next pl" using n2 by (simp_all add: config_def)
    have inv4: "exec_inv h ?pl4" using inv3 by simp
    let ?pl5 = "forget_rt ?i ?pl4"
    have inv5: "exec_inv h ?pl5"
      by (rule forget_rt_inv [OF inv4]) (use none2 t4 used in auto)
    let ?pl6 = "publish h (PubChanged ''deleted'' ?i) ?pl5"
    have "delete_task h i t pl = (Inr (TaskDeleted ?i), ?pl6)"
      using s None t1 by (simp add: delete_task_def Let_def without_task_def forget_rt_def)
    moreover have "config ?pl6 = config ?pl5" by simp
    then have "p_tasks ?pl6 = ?ts" "p_next ?pl6 = p_next pl"
      using t4 t1 by (simp_all add: config_def forget_rt_def without_task_def)
    moreover have "disk h ?pl6 = disk h pl1" by (simp add: forget_rt_def without_task_def)
    moreover have "slot ?i ?pl6 = (None, procs_of ?i ?pl6)" by (simp add: slot_def forget_rt_def table_simps)
    moreover have "exec_inv h ?pl6" using inv5 by simp
    ultimately show ?thesis using s None by (intro deleted) auto
  qed
qed

subsection \<open>Control requests, events\<close>

definition synced :: "host \<Rightarrow> task list \<times> int \<Rightarrow> plugin \<Rightarrow> bool" where
  "synced h c0 pl =
     (case disk h pl of None \<Rightarrow> (p_tasks pl, p_next pl) = c0
      | Some f \<Rightarrow> f = \<lparr>sf_version = 1, sf_next = p_next pl, sf_tasks = p_tasks pl\<rparr>)"

text \<open>The number in the ID of a task, as \<open>load\<close> reads it, and a definition fit to be stored.\<close>

definition id_number :: "string \<Rightarrow> int option" where
  "id_number i = atoi (trim_prefix ''task-'' i)"

definition storable :: "int \<Rightarrow> task \<Rightarrow> bool" where
  "storable n t = (normalized t \<and> t_id t \<noteq> [] \<and> (case id_number (t_id t) of None \<Rightarrow> True | Some k \<Rightarrow> k < n))"

lemma storable_mono: "storable m t \<Longrightarrow> m \<le> n \<Longrightarrow> storable n t"
  by (auto simp: storable_def split: option.splits)

lemma id_number_task_name: "1 \<le> n \<Longrightarrow> n \<le> max_int64 \<Longrightarrow> id_number (task_name n) = Some n"
proof -
  assume n: "1 \<le> n" "n \<le> max_int64"
  have "trim_prefix ''task-'' (task_name n) = itoa n" by (simp add: trim_prefix_def task_name_def)
  with n show ?thesis using atoi_itoa [of n] by (simp add: id_number_def max_int64_def)
qed

text \<open>\<open>c0\<close> is the configuration the plugin was loaded with.\<close>

definition plugin_inv :: "host \<Rightarrow> task list \<times> int \<Rightarrow> plugin \<Rightarrow> bool" where
  "plugin_inv h c0 pl =
     (exec_inv h pl \<and> 1 \<le> p_next pl \<and> list_all (storable (p_next pl)) (p_tasks pl) \<and> synced h c0 pl)"

lemma plugin_inv_exec:
  assumes "plugin_inv h c0 pl" "exec_inv h pl'" "config pl' = config pl" "disk h pl' = disk h pl"
  shows "plugin_inv h c0 pl'"
proof -
  have "p_tasks pl' = p_tasks pl" "p_next pl' = p_next pl" using assms(3) by (simp_all add: config_def)
  with assms show ?thesis by (simp add: plugin_inv_def synced_def split: option.splits)
qed

lemma plugin_inv_quiet: "plugin_inv h c0 pl \<Longrightarrow> quiet h pl pl' \<Longrightarrow> plugin_inv h c0 pl'"
  by (rule plugin_inv_exec) (simp_all add: quiet_config quiet_disk plugin_inv_def quiet_exec_inv)

lemma plugin_inv_stored:
  assumes "exec_inv h pl" "1 \<le> p_next pl" "list_all (storable (p_next pl)) (p_tasks pl)"
    "disk h pl = Some \<lparr>sf_version = 1, sf_next = p_next pl, sf_tasks = p_tasks pl\<rparr>"
  shows "plugin_inv h c0 pl"
  using assms by (simp add: plugin_inv_def synced_def)

lemma save_effect:
  assumes "save h ts n pl = (None, pl')"
  shows "disk h pl' = Some \<lparr>sf_version = 1, sf_next = n, sf_tasks = ts\<rparr>" "config pl' = config pl"
    "exec_inv h pl \<Longrightarrow> exec_inv h pl'"
proof -
  show "disk h pl' = Some \<lparr>sf_version = 1, sf_next = n, sf_tasks = ts\<rparr>"
    using save_ok [of h ts n pl] assms by simp
  show c: "config pl' = config pl" using config_save [of h ts n pl] assms by simp
  have s: "slot j pl' = slot j pl" for j using save_frame(1) [of j h ts n pl] assms by simp
  have w: "tables_ok h pl \<Longrightarrow> tables_ok h pl'" using save_frame(2) [of h pl h ts n] assms by simp
  show "exec_inv h pl'" if "exec_inv h pl"
    by (rule exec_inv_same [OF that c w [OF exec_inv_tables [OF that]] s])
qed

lemma create_inv:
  assumes inv: "plugin_inv h c0 pl" and nx: "p_next pl < max_int64"
  shows "plugin_inv h c0 (snd (create h input pl))"
proof (cases rule: create_cases [of h input pl])
  case failed
  with inv show ?thesis by (auto intro: plugin_inv_quiet)
next
  case (created v pl1 pl2 pl3)
  let ?t = "prepared pl input"
  have t: "t_id ?t = task_name (p_next pl)" by (simp add: prepared_def task_name_def)
  have inv1: "exec_inv h pl1" using inv created(2) by (auto simp: plugin_inv_def intro: quiet_exec_inv)
  note s = save_effect [OF created(3)]
  have c2: "p_tasks pl2 = p_tasks pl" "p_next pl2 = p_next pl"
    using s(2) quiet_config [OF created(2)] by (simp_all add: config_def)
  have bounds: "1 \<le> p_next pl2" "p_next pl2 < max_int64" using inv nx c2 by (simp_all add: plugin_inv_def)
  have inv3: "exec_inv h (add_task ?t pl2)"
    by (rule add_task_inv [OF s(3) [OF inv1] bounds]) (simp add: t c2)
  have w: "wrap64 (p_next pl + 1) = p_next pl + 1"
    using bounds c2 by (intro wrap64_id) (auto simp: max_int64_def)
  let ?pl' = "pl2\<lparr>p_tasks := p_tasks pl2 @ [?t], p_next := wrap64 (p_next pl2 + 1)\<rparr>"
  have c3: "p_tasks (add_task ?t pl2) = p_tasks pl @ [?t]" "p_next (add_task ?t pl2) = p_next pl + 1"
    using config_runtimeOf [of "t_id ?t" ?pl'] w c2 by (simp_all add: add_task_def config_def)
  have d3: "disk h (add_task ?t pl2) = disk h pl2" by (simp add: add_task_def)
  have "id_number (task_name (p_next pl)) = Some (p_next pl)"
    using bounds c2 by (intro id_number_task_name) auto
  then have "storable (p_next pl + 1) ?t"
    unfolding storable_def t by (simp add: prepared_def) (simp add: task_name_def)
  moreover have "storable (p_next pl + 1) u" if "u \<in> set (p_tasks pl)" for u
    using inv that by (auto simp: plugin_inv_def list_all_iff intro: storable_mono)
  ultimately have store: "list_all (storable (p_next pl + 1)) (p_tasks pl @ [?t])" by (auto simp: list_all_iff)
  have "plugin_inv h c0 (add_task ?t pl2)"
  proof (rule plugin_inv_stored [OF inv3])
    show "disk h (add_task ?t pl2)
        = Some \<lparr>sf_version = 1, sf_next = p_next (add_task ?t pl2), sf_tasks = p_tasks (add_task ?t pl2)\<rparr>"
      using s(1) d3 c3 w by simp
  qed (use c3 bounds c2 store in \<open>simp_all\<close>)
  then have "plugin_inv h c0 pl3" using created(4) by (rule plugin_inv_quiet)
  with created(1) show ?thesis by simp
qed

lemma update_inv:
  assumes inv: "plugin_inv h c0 pl"
  shows "plugin_inv h c0 (snd (update h input pl))"
proof (cases rule: update_cases [of h input pl])
  case failed
  with inv show ?thesis by (auto intro: plugin_inv_quiet)
next
  case (updated i v pl1 pl2 pl3)
  let ?t = "normalizeTask input"
  have inv1: "exec_inv h pl1" using inv updated(2) by (auto simp: plugin_inv_def intro: quiet_exec_inv)
  note s = save_effect [OF updated(3)]
  have c2: "p_tasks pl2 = p_tasks pl" "p_next pl2 = p_next pl"
    using s(2) quiet_config [OF updated(2)] by (simp_all add: config_def)
  have inv3: "exec_inv h (replace_task i ?t pl2)"
    by (rule replace_task_inv [OF s(3) [OF inv1]]) (use updated c2 in auto)
  let ?pl' = "pl2\<lparr>p_tasks := (p_tasks pl2)[i := ?t]\<rparr>"
  have c3: "p_tasks (replace_task i ?t pl2) = (p_tasks pl)[i := ?t]" "p_next (replace_task i ?t pl2) = p_next pl"
    using config_runtimeOf [of "t_id ?t" ?pl'] c2 by (simp_all add: replace_task_def config_def upd_rt_def)
  have d3: "disk h (replace_task i ?t pl2) = disk h pl2" by (simp add: replace_task_def)
  have "storable (p_next pl) (p_tasks pl ! i)" "t_id (p_tasks pl ! i) = t_id ?t"
    using inv index_of_Some [OF updated(7)] by (auto simp: plugin_inv_def list_all_iff)
  then have "storable (p_next pl) ?t" by (simp add: storable_def)
  then have norm: "list_all (storable (p_next pl)) ((p_tasks pl)[i := ?t])"
    using inv set_update_subset_insert [of "p_tasks pl" i ?t] by (auto simp: plugin_inv_def list_all_iff)
  have "plugin_inv h c0 (replace_task i ?t pl2)"
  proof (rule plugin_inv_stored [OF inv3])
    show "disk h (replace_task i ?t pl2)
        = Some \<lparr>sf_version = 1, sf_next = p_next (replace_task i ?t pl2), sf_tasks = p_tasks (replace_task i ?t pl2)\<rparr>"
      using s(1) d3 c3 by simp
  qed (use c3 norm inv in \<open>auto simp: plugin_inv_def\<close>)
  then have "plugin_inv h c0 pl3" using updated(4) by (rule plugin_inv_quiet)
  with updated(1) show ?thesis by simp
qed

lemma delete_task_inv:
  assumes u: "unique_process_ids h" and inv: "plugin_inv h c0 pl" and i: "index_of (t_id t) (p_tasks pl) = Some i"
  shows "plugin_inv h c0 (snd (delete_task h i t pl))"
proof -
  have ex: "exec_inv h pl" using inv by (simp add: plugin_inv_def)
  from u ex i show ?thesis
  proof (cases rule: delete_task_cases)
    case failed
    with inv show ?thesis by (auto intro: plugin_inv_quiet)
  next
    case (deleted pl1 pl2)
    have "list_all (storable (p_next pl)) (take i (p_tasks pl) @ drop (Suc i) (p_tasks pl))"
      using inv by (auto simp: plugin_inv_def list_all_iff dest: in_set_takeD in_set_dropD)
    then have "plugin_inv h c0 pl2"
      using deleted inv save_effect(1) [OF deleted(1)] by (intro plugin_inv_stored) (auto simp: plugin_inv_def)
    with deleted(2) show ?thesis by simp
  qed
qed
lemma has_rt_of_task:
  assumes "exec_inv h pl" "t \<in> set (p_tasks pl)"
  shows "has_rt (t_id t) pl"
proof (rule exec_inv_has_rt [OF assms(1) find_task_in])
  show "distinct (map t_id (p_tasks pl))" using assms(1) by (simp add: exec_inv_def)
qed (rule assms(2))

lemma plugin_inv_step:
  assumes "plugin_inv h c0 pl" "exec_inv h (snd (f pl))" "config (snd (f pl)) = config pl" "disk h (snd (f pl)) = disk h pl"
  shows "plugin_inv h c0 (snd (f pl))"
  using assms by (rule plugin_inv_exec)

lemma answer_view_inv:
  assumes "plugin_inv h c0 pl" "t \<in> set (p_tasks pl)"
  shows "plugin_inv h c0 (snd (answer_view t err pl))"
proof -
  have "has_rt (t_id t) pl" using assms by (auto simp: plugin_inv_def intro: has_rt_of_task)
  with assms(1) show ?thesis
    by (auto simp: answer_view_def view_task_def case_prod_unfold Let_def split: option.split)
qed

lemma restart_task_inv:
  assumes u: "unique_process_ids h" and inv: "exec_inv h pl" and t: "find_task (t_id t) (p_tasks pl) = Some t"
    and c: "t_type t \<noteq> typeScheduled"
  shows "exec_inv h (snd (restart_task h t pl))"
proof -
  have h: "has_rt (t_id t) pl" by (rule exec_inv_has_rt [OF inv t])
  have pend: "exec_inv h (upd_rt (t_id t) (\<lambda>r. r\<lparr>rt_pending := b\<rparr>) p)" if "exec_inv h p" for b p
    using that exec_inv_tables [OF that] slot_upd_rt_core [of "\<lambda>r. r\<lparr>rt_pending := b\<rparr>"]
    by (intro exec_inv_same [OF that]) (auto simp: core_def)
  have ft: "find_task (t_id t) (p_tasks (upd_rt (t_id t) f pl)) = Some t" for f
    using t by (simp add: upd_rt_def)
  have stop: "exec_inv h (snd (stopTask h t k (upd_rt (t_id t) (\<lambda>r. r\<lparr>rt_pending := b\<rparr>) pl)))" for k b
    by (rule stopTask_inv [OF u pend [OF inv] ft])
  show ?thesis
    using h by (simp add: restart_task_def Let_def case_prod_unfold startTask_inv [OF u inv t c] stop pend)
qed

lemma config_restart_task [simp]: "config (snd (restart_task h t pl)) = config pl"
  by (simp add: restart_task_def Let_def case_prod_unfold)

lemma disk_restart_task [simp]: "disk h (snd (restart_task h t pl)) = disk h pl"
  by (simp add: restart_task_def Let_def case_prod_unfold)

lemma run_task_inv:
  assumes u: "unique_process_ids h" and inv: "plugin_inv h c0 pl" and t: "t \<in> set (p_tasks pl)"
    and s: "t_type t = typeScheduled"
  shows "plugin_inv h c0 (snd (run_task h t pl))"
proof -
  have d: "distinct (map t_id (p_tasks pl))" and ex: "exec_inv h pl"
    using inv by (simp_all add: plugin_inv_def exec_inv_def)
  have inv1: "plugin_inv h c0 (snd (runNow h t True pl))"
    by (rule plugin_inv_exec [OF inv runNow_inv [OF u ex find_task_in [OF d t] s]]) simp_all
  have "t \<in> set (p_tasks (snd (runNow h t True pl)))"
    using t config_tasks [OF config_runNow [of h t True pl]] by simp
  then have "has_rt (t_id t) (snd (runNow h t True pl))"
    using inv1 by (auto simp: plugin_inv_def intro: has_rt_of_task)
  with inv1 show ?thesis
    by (auto simp: run_task_def view_task_def case_prod_unfold Let_def split: sum.split)
qed

lemma typed_continuous: "t_type t = typeContinuous \<Longrightarrow> t_type t \<noteq> typeScheduled"
  by simp

lemma control_inv:
  assumes u: "unique_process_ids h" and inv: "plugin_inv h c0 pl"
  shows "plugin_inv h c0 (snd (control h op i pl))"
proof (cases "writable pl")
  case (Some e)
  with inv show ?thesis by (simp add: control_def)
next
  case None
  note w = None
  show ?thesis
  proof (cases "index_of i (p_tasks pl)")
    case None
    with inv w show ?thesis by (simp add: control_def)
  next
    case (Some n)
    let ?t = "p_tasks pl ! n"
    let ?pl = "reconcile h pl"
    have n: "n < length (p_tasks pl)" and id: "t_id ?t = i" using index_of_Some [OF Some] by auto
    have ex: "exec_inv h pl" using inv by (simp add: plugin_inv_def)
    have rt: "snd (runtimeOf (t_id ?t) pl) = pl"
      by (rule runtimeOf_has) (use has_rt_of_task [OF ex] n in auto)
    have inv1: "plugin_inv h c0 ?pl"
      by (rule plugin_inv_exec [OF inv reconcile_inv [OF u ex]]) simp_all
    have ex1: "exec_inv h ?pl" using inv1 by (simp add: plugin_inv_def)
    have tasks1: "p_tasks ?pl = p_tasks pl" by (rule config_tasks) simp
    have mem: "?t \<in> set (p_tasks ?pl)" using n tasks1 by simp
    have ft: "find_task (t_id ?t) (p_tasks ?pl) = Some ?t"
      using ex1 mem by (intro find_task_in) (simp_all add: exec_inv_def)
    have view: "plugin_inv h c0 (snd (answer_view ?t err (snd (f ?pl))))"
      if "exec_inv h (snd (f ?pl))" "config (snd (f ?pl)) = config ?pl" "disk h (snd (f ?pl)) = disk h ?pl"
      for err and f :: "plugin \<Rightarrow> op_error option \<times> plugin"
      using plugin_inv_exec [OF inv1 that] mem config_tasks [OF that(2)] by (intro answer_view_inv) simp_all
    have del: "plugin_inv h c0 (snd (delete_task h n ?t ?pl))"
      by (rule delete_task_inv [OF u inv1]) (use Some id tasks1 in simp)
    have start: "t_type ?t = typeContinuous \<Longrightarrow> plugin_inv h c0 (snd (answer_view ?t err (snd (startTask h ?t ?pl))))" for err
      by (rule view) (auto intro: startTask_inv [OF u ex1 ft] typed_continuous)
    have restart: "t_type ?t = typeContinuous \<Longrightarrow> plugin_inv h c0 (snd (answer_view ?t err (snd (restart_task h ?t ?pl))))" for err
      by (rule view) (auto intro: restart_task_inv [OF u ex1 ft] typed_continuous)
    have stop: "plugin_inv h c0 (snd (answer_view ?t err (snd (stopTask h ?t False ?pl))))" for err
      by (rule view) (auto intro: stopTask_inv [OF u ex1 ft])
    have run: "t_type ?t = typeScheduled \<Longrightarrow> plugin_inv h c0 (snd (run_task h ?t ?pl))"
      by (rule run_task_inv [OF u inv1 mem])
    show ?thesis
      using w Some by (cases op) (simp_all add: control_def Let_def rt case_prod_unfold inv1 del start restart stop run)
  qed
qed

lemma view_all_frame: "(\<And>t. t \<in> set ts \<Longrightarrow> has_rt (t_id t) pl) \<Longrightarrow> snd (view_all ts pl) = pl"
  by (induction ts) (auto simp: view_task_def case_prod_unfold Let_def)

lemma list_tasks_inv:
  assumes "unique_process_ids h" "plugin_inv h c0 pl"
  shows "plugin_inv h c0 (snd (list_tasks h pl))"
proof -
  have ex: "exec_inv h (reconcile h pl)" using assms by (simp add: plugin_inv_def reconcile_inv)
  have "plugin_inv h c0 (reconcile h pl)" by (rule plugin_inv_exec [OF assms(2) ex]) simp_all
  moreover have "snd (view_all (p_tasks (reconcile h pl)) (reconcile h pl)) = reconcile h pl"
    by (rule view_all_frame) (rule has_rt_of_task [OF ex])
  ultimately show ?thesis by (simp add: list_tasks_def views_def case_prod_unfold Let_def)
qed

lemma handle_inv:
  assumes u: "unique_process_ids h" and inv: "plugin_inv h c0 pl" and nx: "p_next pl < max_int64"
  shows "plugin_inv h c0 (snd (handle h req pl))"
proof -
  have "plugin_inv h c0 (snd (task_history h i n pl))" for i n
    by (rule plugin_inv_quiet [OF inv]) (simp add: task_history_def case_prod_unfold Let_def quiet_ask split: sum.split)
  moreover have "quiet h pl (snd (task_output h i n pl))" for i n
    using quiet_ask [of "HistoryGet i" h pl "h_get h"]
      quiet_trans [OF quiet_ask [of "HistoryGet i" h pl "h_get h"] quiet_ask [of "HistoryOutput i n" h _ "h_output h"]]
    by (simp add: task_output_def case_prod_unfold Let_def split: sum.split)
  then have "plugin_inv h c0 (snd (task_output h i n pl))" for i n by (rule plugin_inv_quiet [OF inv])
  ultimately show ?thesis
    using assms by (auto simp: handle_def decodeRequest_def create_inv update_inv control_inv list_tasks_inv
        split: rpc.split sum.split)
qed

lemma task_fired_inv:
  assumes u: "unique_process_ids h" and inv: "exec_inv h pl"
  shows "exec_inv h (task_fired h i pl)"
proof (cases "find_task i (p_tasks pl)")
  case None
  with inv show ?thesis by (simp add: task_fired_def)
next
  case (Some t)
  have "find_task (t_id t) (p_tasks pl) = Some t" using find_task_Some [OF Some] Some by simp
  from runNow_inv [OF u inv this] inv Some show ?thesis by (simp add: task_fired_def)
qed

lemma event_inv:
  assumes u: "unique_process_ids h" and inv: "plugin_inv h c0 pl"
  shows "plugin_inv h c0 (event h c pl)"
proof -
  have ex: "exec_inv h pl" using inv by (simp add: plugin_inv_def)
  have fired: "config (task_fired h i pl) = config pl" "disk h (task_fired h i pl) = disk h pl" for i
    by (simp_all add: task_fired_def split: option.split)
  have "exec_inv h (event h c pl) \<and> config (event h c pl) = config pl \<and> disk h (event h c pl) = disk h pl"
    using ex processExited_inv [OF u ex] reconcile_inv [OF u ex] restartFired_inv [OF u ex]
      task_fired_inv [OF u ex] fired
    by (auto simp: event_def split: callback.split sum.split)
  then show ?thesis using plugin_inv_exec [OF inv] by blast
qed

subsection \<open>Whole runs\<close>

datatype entry = Request rpc | Callback callback

definition entry_step :: "host \<Rightarrow> entry \<Rightarrow> plugin \<Rightarrow> plugin" where
  "entry_step h e pl = (case e of Request r \<Rightarrow> snd (handle h r pl) | Callback c \<Rightarrow> event h c pl)"

text \<open>The host keeps process IDs unique, and the counter of task IDs has not reached its last value.\<close>

definition entry_ok :: "host \<Rightarrow> entry \<Rightarrow> plugin \<Rightarrow> bool" where
  "entry_ok h e pl = (unique_process_ids h \<and> p_next pl < max_int64)"

interpretation task_machine: guarded_machine "entry_step h" "entry_ok h" "plugin_inv h c0" for h c0
  by unfold_locales (auto simp: entry_step_def entry_ok_def handle_inv event_inv split: entry.split)

subsection \<open>Start-up\<close>

definition no_last_number :: "task list \<Rightarrow> bool" where
  "no_last_number ts = list_all (\<lambda>t. id_number (t_id t) \<noteq> Some max_int64) ts"

lemma load_tasks_ok:
  assumes "load_tasks seen n ts = Some (us, m)" "no_last_number ts"
  shows "us = map normalizeTask ts \<and> n \<le> m \<and> list_all (storable m) us \<and> distinct (map t_id us)
    \<and> (\<forall>t \<in> set us. t_id t \<notin> set seen)"
  using assms
proof (induction seen n ts arbitrary: us m rule: load_tasks.induct)
  case (2 seen n t ts)
  let ?n = "case atoi (trim_prefix ''task-'' (t_id t)) of Some k \<Rightarrow> if n \<le> k then wrap64 (k + 1) else n | None \<Rightarrow> n"
  have fresh: "t_id t \<noteq> []" "t_id t \<notin> set seen" using 2(2) by (auto split: if_splits)
  obtain vs where rest: "load_tasks (t_id t # seen) ?n ts = Some (vs, m)" and us: "us = normalizeTask t # vs"
    using 2(2) fresh by (auto simp: Let_def split: option.splits prod.splits)
  have last: "id_number (t_id t) \<noteq> Some max_int64" "no_last_number ts"
    using 2(3) by (simp_all add: no_last_number_def)
  have w: "wrap64 (k + 1) = k + 1" if "id_number (t_id t) = Some k" for k
  proof -
    have "- (2 ^ 63) \<le> k" "k \<le> max_int64"
      using that by (auto simp: id_number_def atoi_def Let_def split: if_splits)
    moreover have "k \<noteq> max_int64" using that last(1) by auto
    ultimately show ?thesis by (intro wrap64_id) (auto simp: max_int64_def)
  qed
  have ge: "n \<le> ?n" and lt: "id_number (t_id t) = Some k \<Longrightarrow> k < ?n" for k
    using w by (auto simp: id_number_def split: option.splits)
  from 2(1) [OF _ refl rest last(2)] fresh
  have IH: "vs = map normalizeTask ts" "?n \<le> m" "list_all (storable m) vs" "distinct (map t_id vs)"
    "\<forall>u \<in> set vs. t_id u \<notin> set (t_id t # seen)" by auto
  have "storable m (normalizeTask t)"
    using fresh lt IH(2) by (fastforce simp: storable_def split: option.split)
  with IH us ge fresh show ?case by (auto simp: image_iff)
qed simp

text \<open>Tasks are restored one after the other; those still to come have no runtime yet.\<close>

definition restored :: "host \<Rightarrow> task list \<Rightarrow> plugin \<Rightarrow> bool" where
  "restored h ts pl =
     (tables_ok h pl \<and> list_all (\<lambda>t. slot_ok t pl) ts \<and> (\<forall>i. i \<notin> t_id ` set ts \<longrightarrow> slot i pl = (None, [])))"

lemma core_neutral [simp]:
  "slot j (upd_rt i (\<lambda>r. r\<lparr>rt_err := m\<rparr>) pl) = slot j pl"
  by (rule slot_upd_rt_core) (simp add: core_def)

lemma loadLastRun_frame [simp]:
  "slot j (loadLastRun h t pl) = slot j pl" "tables_ok h' pl \<Longrightarrow> tables_ok h' (loadLastRun h t pl)"
proof -
  have "slot j (upd_rt i (\<lambda>r. r\<lparr>rt_last_run := a, rt_last_at := b, rt_last_exit := c, rt_last_success := d,
      rt_message := f r\<rparr>) p) = slot j p" for i a b c d f p
    by (rule slot_upd_rt_core) (simp add: core_def)
  then show "slot j (loadLastRun h t pl) = slot j pl"
    by (simp add: loadLastRun_def case_prod_unfold Let_def split: sum.split list.split)
  show "tables_ok h' pl \<Longrightarrow> tables_ok h' (loadLastRun h t pl)"
    by (simp add: loadLastRun_def case_prod_unfold Let_def split: sum.split list.split)
qed

lemma good_step_err: "good_step h i b pl pl' \<Longrightarrow> good_step h i b pl (upd_rt j (\<lambda>r. r\<lparr>rt_err := m\<rparr>) pl')"
  by (auto simp: good_step_def others_same_def)

lemma restore_good:
  assumes u: "unique_process_ids h" and w: "tables_ok h pl" and none: "slot (t_id t) pl = (None, [])"
  shows "good_step h (t_id t) (t_type t = typeScheduled) pl (restore h t pl)"
proof -
  let ?i = "t_id t"
  let ?pl1 = "loadLastRun h t (snd (runtimeOf ?i pl))"
  have s1: "slot j (snd (runtimeOf ?i pl)) = (if j = ?i then (Some (core new_runtime), []) else slot j pl)" for j
    using none by (simp add: slot_runtimeOf has_rt_slot) (simp add: slot_def)
  have w1: "tables_ok h ?pl1" using w by simp
  have base: "good_step h ?i b pl ?pl1" for b
    using w1 by (simp add: good_step_def others_same_def s1) (simp add: core_def new_runtime_def)
  have reg: "good_step h ?i b pl (snd (register h ?i c s ?pl1))" for b c s
    using base by (simp add: good_step_def others_same_def)
  have des: "slot ?i (upd_rt ?i (\<lambda>r. r\<lparr>rt_desired := True\<rparr>) ?pl1) = (Some (stateStopped, True, False, [], 0), [])"
    by (rule slot_upd_some [of ?i _ "core new_runtime"]) (simp_all add: s1 core_def new_runtime_def)
  have "good_step h ?i False (upd_rt ?i (\<lambda>r. r\<lparr>rt_desired := True\<rparr>) ?pl1)
      (snd (spawn h t (upd_rt ?i (\<lambda>r. r\<lparr>rt_desired := True\<rparr>) ?pl1)))"
    by (rule spawn_good [OF u _ des]) (simp add: w1)
  then have sp: "good_step h ?i False pl (snd (spawn h t (upd_rt ?i (\<lambda>r. r\<lparr>rt_desired := True\<rparr>) ?pl1)))"
    by (rule good_step_after [rotated]) (simp add: others_same_def s1)
  show ?thesis
    using base reg sp good_step_err
    by (simp add: restore_def Let_def case_prod_unfold split: check.split option.split)
qed

lemma restore_restored:
  assumes u: "unique_process_ids h" and r: "restored h ts pl" and t: "t_id t \<notin> t_id ` set ts"
  shows "restored h (t # ts) (restore h t pl)"
proof -
  have g: "good_step h (t_id t) (t_type t = typeScheduled) pl (restore h t pl)"
    using r t by (intro restore_good [OF u]) (auto simp: restored_def)
  have "slot_ok v (restore h t pl)" if "v \<in> set ts" for v
  proof -
    have "t_id v \<noteq> t_id t" using that t by (metis imageI)
    with g r that show ?thesis by (auto simp: good_step_def others_same_def slot_ok_def restored_def list_all_iff)
  qed
  with g r t show ?thesis
    by (auto simp: restored_def good_step_def others_same_def slot_ok_def list_all_iff)
qed

lemma restore_all:
  assumes "unique_process_ids h" "restored h ts pl" "distinct (map t_id (us @ ts))"
  shows "restored h (rev us @ ts) (fold (restore h) us pl)"
  using assms(2,3)
proof (induction us arbitrary: ts pl)
  case (Cons t us)
  have "restored h (t # ts) (restore h t pl)"
    using Cons.prems by (intro restore_restored [OF assms(1)]) auto
  then have "restored h (rev us @ t # ts) (fold (restore h) us (restore h t pl))"
    using Cons.prems by (intro Cons.IH) auto
  then show ?case by simp
qed simp

lemma config_restore [simp]: "config (restore h t pl) = config pl"
  by (simp add: restore_def Let_def loadLastRun_def case_prod_unfold split: check.split option.split sum.split list.split)

lemma disk_restore [simp]: "disk h (restore h t pl) = disk h pl"
  by (simp add: restore_def Let_def loadLastRun_def case_prod_unfold split: check.split option.split sum.split list.split)

lemma fold_restore_frame: "config (fold (restore h) us pl) = config pl \<and> disk h (fold (restore h) us pl) = disk h pl"
  by (induction us arbitrary: pl) auto

definition sound_store :: "host \<Rightarrow> bool" where
  "sound_store h =
     (case h_storage h [] (StorageGet ''tasks'') of Inr (StoredState f) \<Rightarrow> no_last_number (sf_tasks f)
      | _ \<Rightarrow> True)"

lemma load_new:
  assumes "sound_store h"
  obtains ts n m where "load h newPlugin
      = newPlugin\<lparr>p_calls := [StorageGet ''tasks''], p_loadError := m, p_tasks := ts, p_next := n\<rparr>"
    "1 \<le> n" "list_all (storable n) ts" "distinct (map t_id ts)" "m \<noteq> [] \<Longrightarrow> ts = [] \<and> n = 1"
proof (cases "h_storage h [] (StorageGet ''tasks'')")
  case (Inl e)
  then show ?thesis
    by (intro that [where m = "''could not read stored tasks: '' @ errText e" and ts = "[]" and n = 1])
       (auto simp: load_def newPlugin_def ask_def)
next
  case (Inr st)
  show ?thesis
  proof (cases st)
    case StoredNothing
    with Inr show ?thesis by (intro that [where m = "[]" and ts = "[]" and n = 1]) (auto simp: load_def newPlugin_def ask_def)
  next
    case (StoredUnreadable e)
    with Inr show ?thesis
      by (intro that [where m = "''stored task configuration is unreadable: '' @ e" and ts = "[]" and n = 1])
         (auto simp: load_def newPlugin_def ask_def)
  next
    case (StoredState f)
    show ?thesis
    proof (cases "sf_version f = 1 \<and> load_tasks [] (sf_next f) (sf_tasks f) \<noteq> None")
      case False
      show ?thesis
      proof (cases "sf_version f = 1")
        case True
        with False Inr StoredState show ?thesis
          by (intro that [where m = "''stored task configuration contains a missing or duplicate task ID''"
                and ts = "[]" and n = 1]) (auto simp: load_def newPlugin_def ask_def split: option.split)
      next
        case False
        with Inr StoredState show ?thesis
          by (intro that [where m = "''stored task configuration has unsupported version '' @ itoa (sf_version f)"
                and ts = "[]" and n = 1]) (auto simp: load_def newPlugin_def ask_def)
      qed
    next
      case True
      then obtain us m where l: "load_tasks [] (sf_next f) (sf_tasks f) = Some (us, m)" by auto
      have "no_last_number (sf_tasks f)" using assms Inr StoredState by (simp add: sound_store_def)
      note ok = load_tasks_ok [OF l this]
      let ?n = "if m < 1 then 1 else m"
      have "storable ?n t" if "t \<in> set us" for t
        by (rule storable_mono [of m]) (use ok that in \<open>auto simp: list_all_iff\<close>)
      then have "list_all (storable ?n) us" by (simp add: list_all_iff)
      with conjunct2 [OF conjunct2 [OF conjunct2 [OF ok]]] True l Inr StoredState show ?thesis
        by (intro that [where m = "[]" and ts = us and n = ?n]) (simp_all add: load_def newPlugin_def ask_def)
    qed
  qed
qed
lemma find_task_storable:
  assumes "list_all (storable n) ts" "n \<le> k" "1 \<le> n" "k \<le> max_int64"
  shows "find_task (task_name k) ts = None"
proof -
  have "t_id t \<noteq> task_name k" if "t \<in> set ts" for t
  proof
    assume "t_id t = task_name k"
    moreover have "id_number (task_name k) = Some k" using assms by (intro id_number_task_name) auto
    ultimately show False using assms that by (auto simp: storable_def list_all_iff)
  qed
  then show ?thesis by (fastforce simp: find_task_none_iff)
qed

lemma init_inv:
  assumes u: "unique_process_ids h" and st: "sound_store h"
  shows "plugin_inv h (p_tasks (init h newPlugin), p_next (init h newPlugin)) (init h newPlugin)"
    and "disk h (init h newPlugin) = None"
proof -
  from st obtain ts n m where l: "load h newPlugin
      = newPlugin\<lparr>p_calls := [StorageGet ''tasks''], p_loadError := m, p_tasks := ts, p_next := n\<rparr>"
    and ts: "1 \<le> n" "list_all (storable n) ts" "distinct (map t_id ts)" "m \<noteq> [] \<Longrightarrow> ts = [] \<and> n = 1"
    by (rule load_new) blast
  let ?pl0 = "load h newPlugin"
  let ?pl1 = "if p_loadError ?pl0 = [] then fold (restore h) (p_tasks ?pl0) ?pl0 else ?pl0"
  have t0: "p_tasks ?pl0 = ts" "p_next ?pl0 = n" "p_loadError ?pl0 = m" by (simp_all add: l)
  have r0: "restored h [] ?pl0"
    unfolding l by (simp add: restored_def tables_ok_def slot_def procs_of_def newPlugin_def)
  have "restored h (rev ts) (fold (restore h) ts ?pl0)"
    using restore_all [OF u r0, of ts] ts(3) by simp
  then have r1: "restored h (rev ts) ?pl1" using t0 ts(4) r0 by auto
  have c1: "config ?pl1 = config ?pl0" "disk h ?pl1 = disk h ?pl0"
    using fold_restore_frame [of h "p_tasks ?pl0" ?pl0] by auto
  have t1: "p_tasks ?pl1 = ts" "p_next ?pl1 = n" using c1(1) t0 by (simp_all add: config_def)
  have "slot (task_name k) ?pl1 = (None, []) \<and> find_task (task_name k) ts = None" if "n \<le> k" "k \<le> max_int64" for k
  proof -
    have none: "find_task (task_name k) ts = None" by (rule find_task_storable [OF ts(2) that(1) ts(1) that(2)])
    with r1 show ?thesis by (simp add: restored_def find_task_none_iff)
  qed
  then have "fresh_ids ?pl1" by (simp add: fresh_ids_def t1)
  then have ex: "exec_inv h ?pl1" using r1 ts(3) by (simp add: exec_inv_def t1 restored_def list_all_iff)
  have d: "disk h ?pl1 = None" using c1(2) by (simp add: l disk_def)
  let ?pl2 = "init h newPlugin"
  have i: "quiet h ?pl1 ?pl2" unfolding init_def Let_def by (rule quiet_asks(4))
  have t2: "p_tasks ?pl2 = ts" "p_next ?pl2 = n" using quiet_config [OF i] t1 by (simp_all add: config_def)
  show "disk h ?pl2 = None" using quiet_disk [OF i] d by simp
  then show "plugin_inv h (p_tasks ?pl2, p_next ?pl2) ?pl2"
    using quiet_exec_inv [OF i ex] ts t2 by (simp add: plugin_inv_def synced_def)
qed

end
