(* ===== verification/TaskProperties.thy ===== *)
theory TaskProperties
  imports TaskPlugin
begin

section \<open>The tasks plugin: properties\<close>

text \<open>
  The theorems about the tasks plugin, over arbitrary hosts, each with an instance on the host
  \<open>demo_host\<close>, which accepts every call and numbers its processes.
\<close>

definition demo_host :: host where
  "demo_host =
     \<lparr>h_unit = \<lambda>_ _. None, h_storage = \<lambda>_ _. Inr StoredNothing,
      h_begin = \<lambda>cs _. Inr (''run-'' @ nat_digits (length cs), ''now''),
      h_start = \<lambda>cs _. Inr (''p'' @ nat_digits (length cs), 7),
      h_status = \<lambda>_ _. Inr \<lparr>status_running = True, status_code = None, status_terminated = False,
                          status_timed_out = False\<rparr>,
      h_list = \<lambda>_ _. Inr [], h_get = \<lambda>_ _. Inr ''{}'', h_output = \<lambda>_ _. Inr ([], 0, False)\<rparr>"

lemma nat_digits_inj: "nat_digits m = nat_digits n \<Longrightarrow> m = n"
  by (metis digits_value_nat_digits)

lemma demo_host_ok [simp]: "unique_process_ids demo_host" "sound_store demo_host"
  by (auto simp: unique_process_ids_def demo_host_def sound_store_def dest: nat_digits_inj)

definition service :: task where
  "service = (sample_task typeContinuous)\<lparr>t_autostart := False\<rparr>"

definition create_service :: entry where
  "create_service = Request (TasksCreate (Inr service))"

definition start_service :: entry where
  "start_service = Request (TasksControl CStart (Inr ''task-1''))"

text \<open>C1: Safety of every run.  The host gives every process it starts an identifier that it has not given before and that is not
  empty, and no task it has stored has the largest integer in its ID; apart from this it may refuse or answer as it likes.  Then,
  after start-up and any sequence of browser requests and host callbacks, in any order, as long as the counter of task IDs has not
  reached the largest integer, the task IDs are distinct and every task has one runtime entry; a continuous task has at most one host process,
  has one exactly when it is running or stopping, and waits on a restart timer exactly when it is
  restarting; the run counter of a scheduled task is the number of its processes.\<close>

theorem task_run_safe:
  assumes "unique_process_ids h" and "sound_store h"
    and "admissible (entry_step h) (entry_ok h) es (init h newPlugin)"
    and "pl = run (entry_step h) es (init h newPlugin)"
  shows "distinct (map t_id (p_tasks pl))
    \<and> (\<forall>t \<in> set (p_tasks pl). \<exists>r. map_of (p_rt pl) (t_id t) = Some r
        \<and> (t_type t \<noteq> typeScheduled \<longrightarrow>
             length (procs_of (t_id t) pl) \<le> 1
             \<and> (procs_of (t_id t) pl \<noteq> [] \<longleftrightarrow> rt_state r = stateRunning \<or> rt_state r = stateStopping)
             \<and> (rt_timer r \<longleftrightarrow> rt_state r = stateRestarting))
        \<and> (t_type t = typeScheduled \<longrightarrow> rt_active r = int (length (procs_of (t_id t) pl))))"
proof -
  have "plugin_inv h (p_tasks (init h newPlugin), p_next (init h newPlugin)) pl"
    unfolding assms(4) by (rule task_machine.run_inv [OF init_inv(1) [OF assms(1,2)] assms(3)])
  then have ex: "exec_inv h pl" by (simp add: plugin_inv_def)
  have "\<exists>r. map_of (p_rt pl) (t_id t) = Some r
        \<and> (t_type t \<noteq> typeScheduled \<longrightarrow>
             length (procs_of (t_id t) pl) \<le> 1
             \<and> (procs_of (t_id t) pl \<noteq> [] \<longleftrightarrow> rt_state r = stateRunning \<or> rt_state r = stateStopping)
             \<and> (rt_timer r \<longleftrightarrow> rt_state r = stateRestarting))
        \<and> (t_type t = typeScheduled \<longrightarrow> rt_active r = int (length (procs_of (t_id t) pl)))"
    if "t \<in> set (p_tasks pl)" for t
  proof -
    have "core_ok (t_type t = typeScheduled) (slot (t_id t) pl)"
      using ex that by (simp add: exec_inv_def list_all_iff slot_ok_def)
    then show ?thesis
      by (cases "map_of (p_rt pl) (t_id t)") (auto simp: slot_def core_def split: if_splits)
  qed
  with ex show ?thesis by (simp add: exec_inv_def)
qed

lemma demo_init: "init demo_host newPlugin = newPlugin\<lparr>p_calls := [SchedulerRegister ''reconcile'' ''reconcile''
    (Some \<lparr>s_type = ''interval'', s_interval = 30, s_time_of_day = [], s_cron = [], s_time_zone = []\<rparr>), StorageGet ''tasks'']\<rparr>"
  by (simp add: init_def load_def ask_def demo_host_def newPlugin_def register_def Let_def)

lemma demo_run_admissible:
  "admissible (entry_step demo_host) (entry_ok demo_host) [create_service] (init demo_host newPlugin)"
  unfolding demo_init by (simp add: entry_ok_def newPlugin_def max_int64_def)

theorem task_run_safe_witness:
  "distinct (map t_id (p_tasks (run (entry_step demo_host) [create_service] (init demo_host newPlugin))))"
  using task_run_safe [OF demo_host_ok demo_run_admissible refl] by blast
text \<open>C2: Durability.  After start-up and any run, the task list and the ID counter in memory are
  those of the last state file the host accepted; if it accepted none, they are what start-up
  loaded.  So a change of the configuration is never visible without having been stored first,
  and a change whose storing failed is never visible.\<close>

theorem config_durable:
  assumes "unique_process_ids h" and "sound_store h"
    and "admissible (entry_step h) (entry_ok h) es (init h newPlugin)"
    and "pl = run (entry_step h) es (init h newPlugin)"
  shows "case last_saved h (p_calls pl) of
      None \<Rightarrow> p_tasks pl = p_tasks (init h newPlugin) \<and> p_next pl = p_next (init h newPlugin)
    | Some f \<Rightarrow> f = \<lparr>sf_version = 1, sf_next = p_next pl, sf_tasks = p_tasks pl\<rparr>"
proof -
  have "plugin_inv h (p_tasks (init h newPlugin), p_next (init h newPlugin)) pl"
    unfolding assms(4) by (rule task_machine.run_inv [OF init_inv(1) [OF assms(1,2)] assms(3)])
  then show ?thesis by (simp add: plugin_inv_def synced_def disk_def split: option.splits)
qed

theorem config_durable_witness:
  "case last_saved demo_host (p_calls (run (entry_step demo_host) [create_service] (init demo_host newPlugin))) of
      None \<Rightarrow> p_tasks (run (entry_step demo_host) [create_service] (init demo_host newPlugin)) = p_tasks (init demo_host newPlugin)
        \<and> p_next (run (entry_step demo_host) [create_service] (init demo_host newPlugin)) = p_next (init demo_host newPlugin)
    | Some f \<Rightarrow> f = \<lparr>sf_version = 1,
        sf_next = p_next (run (entry_step demo_host) [create_service] (init demo_host newPlugin)),
        sf_tasks = p_tasks (run (entry_step demo_host) [create_service] (init demo_host newPlugin))\<rparr>"
  by (rule config_durable [OF demo_host_ok demo_run_admissible refl])

lemma load_tasks_storable:
  assumes "list_all (storable m) ts" "distinct (map t_id ts)" "\<forall>t \<in> set ts. t_id t \<notin> set seen"
  shows "load_tasks seen m ts = Some (ts, m)"
  using assms(1,2,3)
proof (induction ts arbitrary: seen)
  case (Cons t ts)
  then have "load_tasks (t_id t # seen) m ts = Some (ts, m)"    using Cons.prems by (intro Cons.IH) (auto, metis imageI)
  moreover have "(case atoi (trim_prefix ''task-'' (t_id t)) of Some k \<Rightarrow> if m \<le> k then wrap64 (k + 1) else m | None \<Rightarrow> m) = m"
    using Cons.prems by (auto simp: storable_def id_number_def split: option.splits)
  ultimately show ?case using Cons.prems by (simp add: storable_def normalized_def)
qed simp

text \<open>C3: Round trip through the disk.  The state file that a run stored last, given back by the
  host at the next start, is loaded without error and yields the same tasks and the same ID
  counter, so no task ID is ever handed out twice across restarts.\<close>

theorem save_load_roundtrip:
  assumes "unique_process_ids h" and "sound_store h"
    and "admissible (entry_step h) (entry_ok h) es (init h newPlugin)"
    and "pl = run (entry_step h) es (init h newPlugin)"
    and "last_saved h (p_calls pl) = Some f"
    and "h_storage h' [] (StorageGet ''tasks'') = Inr (StoredState f)"
  shows "p_tasks (load h' newPlugin) = p_tasks pl \<and> p_next (load h' newPlugin) = p_next pl
    \<and> p_loadError (load h' newPlugin) = []"
proof -
  have inv: "plugin_inv h (p_tasks (init h newPlugin), p_next (init h newPlugin)) pl"
    unfolding assms(4) by (rule task_machine.run_inv [OF init_inv(1) [OF assms(1,2)] assms(3)])
  then have f: "f = \<lparr>sf_version = 1, sf_next = p_next pl, sf_tasks = p_tasks pl\<rparr>"
    using assms(5) by (simp add: plugin_inv_def synced_def disk_def)
  have "load_tasks [] (p_next pl) (p_tasks pl) = Some (p_tasks pl, p_next pl)"
    using inv by (intro load_tasks_storable) (simp_all add: plugin_inv_def exec_inv_def)
  moreover have "\<not> p_next pl < 1" using inv by (simp add: plugin_inv_def)
  ultimately show ?thesis using assms(6) f by (simp add: load_def ask_def newPlugin_def)
qed

definition stored_service :: task where
  "stored_service = \<lparr>t_id = ''task-1'', t_name = ''backup'', t_description = [], t_type = typeContinuous,
     t_command = \<lparr>cmd_path = ''/bin/run'', cmd_args = [], cmd_workdir = [], cmd_environment = [], cmd_interpreter = []\<rparr>,
     t_autostart = False, t_restart = Some \<lparr>r_mode = restartOnFailure, r_initial = 2, r_max = 60, r_retries = 0\<rparr>,
     t_enabled = False, t_schedule = None, t_overlap = [], t_timeout = 0\<rparr>"

lemma service_normalized: "normalizeTask (service\<lparr>t_id := ''task-1''\<rparr>) = stored_service"
  by code_simp

lemma service_prepared: "p_next pl = 1 \<Longrightarrow> prepared pl service = stored_service"
proof -
  have "itoa 1 = ''1''" by code_simp
  then show "p_next pl = 1 \<Longrightarrow> prepared pl service = stored_service"
    by (simp add: prepared_def service_normalized)
qed

lemma service_valid: "validateTask stored_service = Valid"
  unfolding validateTask_valid
  by (simp add: valid_task_def stored_service_def valid_environment_def valid_restart_def interpreters_def
      task_limits)

definition demo_file :: state_file where
  "demo_file = \<lparr>sf_version = 1, sf_next = 2, sf_tasks = [stored_service]\<rparr>"

lemma demo_saved:
  "last_saved demo_host (p_calls (run (entry_step demo_host) [create_service] (init demo_host newPlugin))) = Some demo_file"
proof -
  have "wrap64 2 = 2" by (rule wrap64_id) (simp_all add: max_int64_def)
  then show ?thesis
    unfolding demo_init
    by (simp add: entry_step_def create_service_def handle_def decodeRequest_def create_def writable_def
        service_prepared service_valid create_checked_def validateSchedule_def applySchedule_def unregister_def
        tell_def ask_def save_def runtimeOf_def publish_def view_task_def demo_file_def maxTasks_def newPlugin_def Let_def
        demo_host_def case_prod_unfold) (simp add: stored_service_def)
qed

theorem save_load_roundtrip_witness:
  "p_tasks (load (demo_host\<lparr>h_storage := \<lambda>_ _. Inr (StoredState demo_file)\<rparr>) newPlugin)
     = p_tasks (run (entry_step demo_host) [create_service] (init demo_host newPlugin))"
  using save_load_roundtrip [OF demo_host_ok demo_run_admissible refl demo_saved,
      of "demo_host\<lparr>h_storage := \<lambda>_ _. Inr (StoredState demo_file)\<rparr>"]
  by simp

text \<open>C6: A plugin that could not read its stored state is read-only: every create, update and
  control request is refused with the load error, and neither the memory nor the disk changes.\<close>

theorem unreadable_is_read_only:
  assumes "p_loadError pl \<noteq> []"
  shows "create h input pl = (Inl (rpcFail ''state_unreadable'' (p_loadError pl)), pl)
    \<and> update h input pl = (Inl (rpcFail ''state_unreadable'' (p_loadError pl)), pl)
    \<and> control h op i pl = (Inl (rpcFail ''state_unreadable'' (p_loadError pl)), pl)
    \<and> p_tasks (snd (handle h req pl)) = p_tasks pl
    \<and> last_saved h (p_calls (snd (handle h req pl))) = last_saved h (p_calls pl)"
proof -
  have refused: "create h input' pl = (Inl (rpcFail ''state_unreadable'' (p_loadError pl)), pl)"
    "update h input' pl = (Inl (rpcFail ''state_unreadable'' (p_loadError pl)), pl)"
    "control h op' i' pl = (Inl (rpcFail ''state_unreadable'' (p_loadError pl)), pl)" for input' op' i'
    using assms by (simp_all add: create_def update_def control_def writable_def)
  have va: "config (snd (view_all ts p)) = config p \<and> disk h (snd (view_all ts p)) = disk h p" for ts p
    by (induction ts arbitrary: p) (auto simp: case_prod_unfold Let_def)
  have "config (snd (handle h req pl)) = config pl \<and> disk h (snd (handle h req pl)) = disk h pl"
    by (auto simp: handle_def decodeRequest_def refused list_tasks_def views_def task_history_def task_output_def
        case_prod_unfold Let_def va split: rpc.split sum.split)
  then have "p_tasks (snd (handle h req pl)) = p_tasks pl"
    "last_saved h (p_calls (snd (handle h req pl))) = last_saved h (p_calls pl)"
    by (auto simp: config_def disk_def)
  with refused show ?thesis by blast
qed

theorem unreadable_is_read_only_witness:
  "p_tasks (snd (handle demo_host (TasksCreate (Inr service)) (newPlugin\<lparr>p_loadError := ''broken''\<rparr>))) = []"
  using unreadable_is_read_only [of "newPlugin\<lparr>p_loadError := ''broken''\<rparr>" demo_host service CStop "[]" "TasksCreate (Inr service)"]
  by (simp add: newPlugin_def)

text \<open>Creating a task is all or nothing.  Either the request fails and the configuration, the
  runtime entries, the processes and the file on disk are what they were; or the file with the new
  task has been stored, the task list has grown by exactly the normalised, valid task under the ID
  \<open>task-<next>\<close>, the counter has advanced, and the list was below its limit of 500.\<close>

theorem create_all_or_nothing:
  "(\<not> is_ok (fst (create h input pl))
      \<and> (\<exists>cs. snd (create h input pl) = pl\<lparr>p_calls := cs @ p_calls pl\<rparr>)
      \<and> last_saved h (p_calls (snd (create h input pl))) = last_saved h (p_calls pl))
   \<or> (\<exists>v. fst (create h input pl) = Inr (TaskView v) \<and> v_task v = prepared pl input
      \<and> t_id (prepared pl input) = ''task-'' @ itoa (p_next pl)
      \<and> valid_task (prepared pl input) \<and> p_loadError pl = [] \<and> length (p_tasks pl) < 500
      \<and> p_tasks (snd (create h input pl)) = p_tasks pl @ [prepared pl input]
      \<and> p_next (snd (create h input pl)) = wrap64 (p_next pl + 1)
      \<and> last_saved h (p_calls (snd (create h input pl)))
          = Some \<lparr>sf_version = 1, sf_next = wrap64 (p_next pl + 1), sf_tasks = p_tasks pl @ [prepared pl input]\<rparr>)"
proof (cases rule: create_cases [of h input pl])
  case failed
  then show ?thesis by (auto simp: quiet_def disk_def)
next
  case (created v pl1 pl2 pl3)
  let ?t = "prepared pl input"
  note s = save_effect [OF created(3)]
  have c2: "p_tasks pl2 = p_tasks pl" "p_next pl2 = p_next pl"
    using s(2) quiet_config [OF created(2)] by (simp_all add: config_def)
  let ?pl' = "pl2\<lparr>p_tasks := p_tasks pl2 @ [?t], p_next := wrap64 (p_next pl2 + 1)\<rparr>"
  have c3: "p_tasks pl3 = p_tasks pl @ [?t]" "p_next pl3 = wrap64 (p_next pl + 1)"
    using config_runtimeOf [of "t_id ?t" ?pl'] quiet_config [OF created(4)] c2 by (simp_all add: add_task_def config_def)
  have "disk h pl3 = disk h pl2" using quiet_disk [OF created(4)] by (simp add: add_task_def)
  with created s c3 show ?thesis by (auto simp: disk_def maxTasks_def prepared_def)
qed

text \<open>Updating a task is all or nothing.  Either the request fails and nothing but the host
  registrations is touched; or the file with the new definition has been stored and exactly the
  entry with that ID is replaced by the normalised, valid definition of the same type.\<close>

theorem update_all_or_nothing:
  "(\<not> is_ok (fst (update h input pl))
      \<and> (\<exists>cs. snd (update h input pl) = pl\<lparr>p_calls := cs @ p_calls pl\<rparr>)
      \<and> last_saved h (p_calls (snd (update h input pl))) = last_saved h (p_calls pl))
   \<or> (\<exists>v i. fst (update h input pl) = Inr (TaskView v) \<and> v_task v = normalizeTask input
      \<and> i < length (p_tasks pl) \<and> t_id (p_tasks pl ! i) = t_id input \<and> t_type (p_tasks pl ! i) = t_type input
      \<and> valid_task (normalizeTask input) \<and> p_loadError pl = []
      \<and> p_tasks (snd (update h input pl)) = (p_tasks pl)[i := normalizeTask input]
      \<and> p_next (snd (update h input pl)) = p_next pl
      \<and> last_saved h (p_calls (snd (update h input pl)))
          = Some \<lparr>sf_version = 1, sf_next = p_next pl, sf_tasks = (p_tasks pl)[i := normalizeTask input]\<rparr>)"
proof (cases rule: update_cases [of h input pl])
  case failed
  then show ?thesis by (auto simp: quiet_def disk_def)
next
  case (updated i v pl1 pl2 pl3)
  let ?t = "normalizeTask input"
  note s = save_effect [OF updated(3)]
  have c2: "p_tasks pl2 = p_tasks pl" "p_next pl2 = p_next pl"
    using s(2) quiet_config [OF updated(2)] by (simp_all add: config_def)
  let ?pl' = "pl2\<lparr>p_tasks := (p_tasks pl2)[i := ?t]\<rparr>"
  have c3: "p_tasks pl3 = (p_tasks pl)[i := ?t]" "p_next pl3 = p_next pl"
    using config_runtimeOf [of "t_id ?t" ?pl'] quiet_config [OF updated(4)] c2
    by (simp_all add: replace_task_def config_def upd_rt_def)
  have "disk h pl3 = disk h pl2" using quiet_disk [OF updated(4)] by (simp add: replace_task_def)
  with updated s c3 index_of_Some [OF updated(7)] show ?thesis
    by (intro disjI2 exI [of _ v] exI [of _ i]) (simp add: disk_def)
qed
subsection \<open>Helpers\<close>

lemma upd_rt_lookup: "map_of (p_rt (upd_rt i f pl)) j = (if j = i then map_option f (map_of (p_rt pl) i) else map_of (p_rt pl) j)"
  by (simp add: upd_rt_def table_simps)

lemma rt_publishStatus: "map_of (p_rt pl) (t_id t) = Some r \<Longrightarrow> p_rt (publishStatus h t pl) = p_rt pl"
  by (simp add: publishStatus_def view_task_def fst_runtimeOf)

lemma calls_publishStatus: "set (p_calls pl) \<subseteq> set (p_calls (publishStatus h t pl))"
  by (auto simp: publishStatus_def view_task_def runtimeOf_def publish_def tell_def ask_def split: option.split)

lemma calls_upd_rt [simp]: "p_calls (upd_rt i f pl) = p_calls pl"
  by (simp add: upd_rt_def)

lemma suffix_publishStatus: "suffix cs (p_calls pl) \<Longrightarrow> suffix cs (p_calls (publishStatus h t pl))"
  by (auto simp: publishStatus_def view_task_def runtimeOf_def publish_def tell_def ask_def suffix_def split: option.split)

definition restart_timer :: "string \<Rightarrow> int \<Rightarrow> host_call" where
  "restart_timer i delay = SchedulerRegister (''restart:'' @ i) ''restart''
     (Some \<lparr>s_type = ''interval'', s_interval = delay, s_time_of_day = [], s_cron = [], s_time_zone = []\<rparr>)"

lemma schedule_restart_eq:
  "schedule_restart h t policy r pl =
    (let c = restart_timer (t_id t) (restartDelay policy (rt_count r));
         pl' = upd_rt (t_id t) (\<lambda>r. r\<lparr>rt_count := rt_count r + 1\<rparr>) pl\<lparr>p_calls := c # p_calls pl\<rparr>
     in publishStatus h t (upd_rt (t_id t)
          (case h_unit h (p_calls pl) c of
             None \<Rightarrow> (\<lambda>r. r\<lparr>rt_timer := True, rt_state := stateRestarting\<rparr>)
           | Some e \<Rightarrow> (\<lambda>r. r\<lparr>rt_desired := False, rt_message := ''restart not scheduled: '' @ errText e\<rparr>)) pl'))"
  by (simp add: schedule_restart_def restart_timer_def restartPrefix_def register_def ask_def Let_def split: option.split)

lemma schedule_restart_effect:
  assumes "map_of (p_rt pl) (t_id t) = Some r"
    and c_def: "c = restart_timer (t_id t) (restartDelay policy (rt_count r))"
  shows "map_of (p_rt (schedule_restart h t policy r pl)) (t_id t) =
      Some (case h_unit h (p_calls pl) c of
              None \<Rightarrow> r\<lparr>rt_count := rt_count r + 1, rt_timer := True, rt_state := stateRestarting\<rparr>
            | Some e \<Rightarrow> r\<lparr>rt_count := rt_count r + 1, rt_desired := False, rt_message := ''restart not scheduled: '' @ errText e\<rparr>)"
    and "suffix (c # p_calls pl) (p_calls (schedule_restart h t policy r pl))"
proof -
  show "map_of (p_rt (schedule_restart h t policy r pl)) (t_id t) =
      Some (case h_unit h (p_calls pl) c of
              None \<Rightarrow> r\<lparr>rt_count := rt_count r + 1, rt_timer := True, rt_state := stateRestarting\<rparr>
            | Some e \<Rightarrow> r\<lparr>rt_count := rt_count r + 1, rt_desired := False, rt_message := ''restart not scheduled: '' @ errText e\<rparr>)"
  proof -
    let ?pl = "upd_rt (t_id t) (\<lambda>r. r\<lparr>rt_count := rt_count r + 1\<rparr>) pl\<lparr>p_calls := c # p_calls pl\<rparr>"
    have counted: "map_of (p_rt ?pl) (t_id t) = Some (r\<lparr>rt_count := rt_count r + 1\<rparr>)"
      using upd_rt_lookup [of "t_id t" _ pl "t_id t"] assms(1) by (simp add: upd_rt_def)
    have "map_of (p_rt (publishStatus h t (upd_rt (t_id t) f ?pl))) (t_id t) = Some (f (r\<lparr>rt_count := rt_count r + 1\<rparr>))" for f
    proof -
      have "map_of (p_rt (upd_rt (t_id t) f ?pl)) (t_id t) = Some (f (r\<lparr>rt_count := rt_count r + 1\<rparr>))"
        by (subst upd_rt_lookup) (simp only: counted option.map if_True simp_thms)
      then show ?thesis by (simp only: rt_publishStatus)
    qed
    then show ?thesis unfolding schedule_restart_eq Let_def c_def by (simp split: option.split)
  qed
  show "suffix (c # p_calls pl) (p_calls (schedule_restart h t policy r pl))"
    unfolding schedule_restart_eq Let_def c_def by (rule suffix_publishStatus) (simp add: suffix_def)
qed

text \<open>A process that has been issued and forgotten never comes back.\<close>

definition gone :: "host \<Rightarrow> string \<Rightarrow> plugin \<Rightarrow> bool" where
  "gone h p pl = (issued h pl p \<and> p \<notin> fst ` set (p_procs pl))"

lemma gone_calls: "gone h p pl \<Longrightarrow> length (p_calls pl) \<le> length (p_calls pl') \<Longrightarrow> p_procs pl' = p_procs pl \<Longrightarrow> gone h p pl'"
  by (auto simp: gone_def issued_def dest: less_le_trans)

lemma gone_simps [simp]:
  assumes "gone h p pl"
  shows "gone h p (snd (ask a c pl))" "gone h p (tell h' c pl)" "gone h p (upd_rt i f pl)" "gone h p (publish h' d pl)"
    "gone h p (snd (register h' i cb s pl))" "gone h p (finishExecution h' i oc b m pl)" "gone h p (snd (runtimeOf i pl))"
proof -
  show a: "gone h p (snd (ask a c pl))" for a :: "'r answer" and c
    using assms by (rule gone_calls) (simp_all add: ask_def)
  show "gone h p (tell h' c pl)" "gone h p (publish h' d pl)" "gone h p (snd (register h' i cb s pl))"
    "gone h p (finishExecution h' i oc b m pl)" "gone h p (upd_rt i f pl)"
    using assms by (auto simp: gone_def issued_def upd_rt_def tell_def ask_def publish_def register_def
        finishExecution_def dest: less_SucI)
  show "gone h p (snd (runtimeOf i pl))"
    using assms by (auto simp: gone_def issued_def runtimeOf_def split: option.split)
qed

lemma gone_publishStatus [simp]: "gone h p pl \<Longrightarrow> gone h p (publishStatus h' t pl)"
  by (simp add: publishStatus_def view_task_def case_prod_unfold Let_def)

lemma gone_launch [simp]:
  assumes "unique_process_ids h" "gone h p pl"
  shows "gone h p (snd (launch h t pl))"
proof -
  have start: "gone h p (launch_started t r st q n (pl\<lparr>p_calls := c # p_calls pl\<rparr>))"
    if "h_start h (p_calls pl) c = Inr (q, n)" "gone h p pl" for pl c r st q n
  proof -
    note hyp = that
    have "p \<noteq> q"
    proof
      assume "p = q"
      then obtain cs c' n' where "h_start h cs c' = Inr (q, n')" "length cs < length (p_calls pl)"
        using hyp(2) by (auto simp: gone_def issued_def)
      with hyp(1) assms(1) show False unfolding unique_process_ids_def by (metis less_irrefl)
    qed
    with hyp(2) show ?thesis
      by (auto simp: launch_started_def Let_def gone_def issued_def upd_rt_def dom_update dest: less_SucI)
  qed
  let ?kind = "if t_type t = typeScheduled then ''command'' else ''process''"
  obtain b pl1 where b: "ask (h_begin h) (HistoryBegin ?kind (t_id t) (t_name t)) pl = (b, pl1)" by fastforce
  have g1: "gone h p pl1" using gone_simps(1) [OF assms(2), of "h_begin h"] b by (metis snd_conv)
  show ?thesis
  proof (cases b)
    case (Inl e)
    with b g1 show ?thesis by (simp add: launch_def)
  next
    case (Inr rs)
    obtain runID st where rs: "rs = (runID, st)" by fastforce
    let ?req = "ProcessStart (start_request t runID)"
    show ?thesis
    proof (cases "h_start h (p_calls pl1) ?req")
      case (Inl e)
      have "gone h p (pl1\<lparr>p_calls := ?req # p_calls pl1\<rparr>)" using g1 by (rule gone_calls) simp_all
      with b Inr rs Inl show ?thesis by (simp add: launch_def ask_def launch_failed_def Let_def)
    next
      case (Inr qn)
      obtain q n where qn: "qn = (q, n)" by fastforce
      have "gone h p (launch_started t runID st q n (pl1\<lparr>p_calls := ?req # p_calls pl1\<rparr>))"
        using start [OF _ g1] Inr qn by simp
      with b \<open>b = Inr rs\<close> rs Inr qn show ?thesis by (simp add: launch_def ask_def)
    qed
  qed
qed

lemma gone_spawn [simp]: "unique_process_ids h \<Longrightarrow> gone h p pl \<Longrightarrow> gone h p (snd (spawn h t pl))"
  by (simp add: spawn_def case_prod_unfold Let_def split: sum.split)

lemma gone_continuousExited:
  assumes "unique_process_ids h" "gone h p pl"
  shows "gone h p (continuousExited h t info success pl)"
  using assms by (simp add: continuousExited_def schedule_restart_def case_prod_unfold Let_def split: option.split)

lemma processExited_gone:
  assumes u: "unique_process_ids h" and w: "tables_ok h pl" and p: "map_of (p_procs pl) p = Some ref"
  shows "gone h p (processExited h p info pl)"
proof -
  have "p \<in> fst ` set (p_procs pl)" using p by (force dest: map_of_SomeD)
  with w have "gone h p (drop_process p pl)"
    by (auto simp: tables_ok_def gone_def drop_process_def issued_def AList.delete_eq)
  then have "gone h p (run_finished h p ref info t0 pl)" for t0 by (simp add: run_finished_def)
  then show ?thesis
    unfolding processExited_eq [OF p] Let_def
    by (simp add: gone_continuousExited [OF u] split: option.split)
qed
text \<open>Deleting a task stores the shorter list first.  If storing fails nothing is touched.
  Otherwise the file without the task is on disk, exactly that entry is gone from the list, and
  its runtime entry is gone too, whatever the host answered to the stop request.\<close>

theorem delete_stores_first:
  assumes "unique_process_ids h" and "plugin_inv h c0 pl" and "index_of (t_id t) (p_tasks pl) = Some i"
  shows "(\<not> is_ok (fst (delete_task h i t pl))
      \<and> (\<exists>cs. snd (delete_task h i t pl) = pl\<lparr>p_calls := cs @ p_calls pl\<rparr>)
      \<and> last_saved h (p_calls (snd (delete_task h i t pl))) = last_saved h (p_calls pl))
   \<or> (fst (delete_task h i t pl) = Inr (TaskDeleted (t_id t))
      \<and> p_tasks (snd (delete_task h i t pl)) = take i (p_tasks pl) @ drop (Suc i) (p_tasks pl)
      \<and> map_of (p_rt (snd (delete_task h i t pl))) (t_id t) = None
      \<and> last_saved h (p_calls (snd (delete_task h i t pl)))
          = Some \<lparr>sf_version = 1, sf_next = p_next pl, sf_tasks = take i (p_tasks pl) @ drop (Suc i) (p_tasks pl)\<rparr>)"
proof -
  have "exec_inv h pl" using assms(2) by (simp add: plugin_inv_def)
  from assms(1) this assms(3) show ?thesis
  proof (cases rule: delete_task_cases)
    case failed
    then show ?thesis by (auto simp: quiet_def disk_def)
  next
    case (deleted pl1 pl2)
    with save_effect(1) [OF deleted(1)] show ?thesis by (auto simp: slot_def disk_def)
  qed
qed

lemma empty_plugin_inv:
  "plugin_inv demo_host ([stored_service], 2) (newPlugin\<lparr>p_tasks := [stored_service], p_next := 2, p_rt := [(''task-1'', new_runtime)]\<rparr>)"
proof -
  let ?pl = "newPlugin\<lparr>p_tasks := [stored_service], p_next := 2, p_rt := [(''task-1'', new_runtime)]\<rparr>"
  have ne: "task_name n \<noteq> ''task-1''" if "2 \<le> n" "n \<le> max_int64" for n
  proof
    assume eq: "task_name n = ''task-1''"
    have "itoa 1 = ''1''" by code_simp
    then have "task_name 1 = ''task-1''" by (simp add: task_name_def)
    with eq have "task_name n = task_name 1" by simp
    with that show False by simp
  qed
  have s: "slot i ?pl = (if i = ''task-1'' then Some (core new_runtime) else None, [])" for i
    by (simp add: slot_def procs_of_def newPlugin_def)
  have id: "t_id stored_service = ''task-1''" "t_type stored_service = typeContinuous"
    by (simp_all add: stored_service_def)
  have "fresh_ids ?pl" using ne ne [symmetric] by (simp add: fresh_ids_def s find_task_def id)
  moreover have "id_number ''task-1'' = Some 1" by code_simp
  moreover have "normalized stored_service" using service_normalized normalized_normalizeTask by metis
  moreover have "slot_ok stored_service ?pl" unfolding slot_ok_def id s by (simp add: core_def new_runtime_def)
  moreover have "tables_ok demo_host ?pl" by (simp add: tables_ok_def newPlugin_def)
  moreover have "synced demo_host ([stored_service], 2) ?pl" by (simp add: synced_def disk_def newPlugin_def)
  ultimately show ?thesis by (simp add: plugin_inv_def exec_inv_def id storable_def)
qed

theorem delete_stores_first_witness:
  "let pl = newPlugin\<lparr>p_tasks := [stored_service], p_next := 2, p_rt := [(''task-1'', new_runtime)]\<rparr>
   in is_ok (fst (delete_task demo_host 0 stored_service pl)) \<longrightarrow> p_tasks (snd (delete_task demo_host 0 stored_service pl)) = []"
  using delete_stores_first [OF demo_host_ok(1) empty_plugin_inv, of stored_service 0]
  by (auto simp: index_of_def newPlugin_def stored_service_def)

text \<open>C4: A process exit takes effect once.  The host event, a reconcile pass and a termination may
  all observe the same exit; after the first of them, any further report for that process changes
  nothing at all and makes no host call, although a new process may have been started meanwhile.\<close>

theorem process_exit_once:
  assumes "unique_process_ids h" and "plugin_inv h c0 pl" and "p \<in> fst ` set (p_procs pl)"
  shows "processExited h p info' (processExited h p info pl) = processExited h p info pl"
proof -
  have "tables_ok h pl" using assms(2) by (auto simp: plugin_inv_def)
  moreover obtain ref where "map_of (p_procs pl) p = Some ref"
    using assms(3) by (metis map_of_eq_None_iff not_None_eq)
  ultimately have "gone h p (processExited h p info pl)" by (rule processExited_gone [OF assms(1)])
  then have "map_of (p_procs (processExited h p info pl)) p = None"
    by (simp add: gone_def map_of_eq_None_iff)
  then show ?thesis by (subst processExited_def) simp
qed

definition demo_running :: plugin where
  "demo_running = newPlugin\<lparr>p_tasks := [stored_service], p_next := 2,
     p_rt := [(''task-1'', new_runtime\<lparr>rt_state := stateRunning, rt_desired := True, rt_process := ''p1'', rt_count := 3\<rparr>)],
     p_procs := [(''p1'', \<lparr>pr_task = ''task-1'', pr_run = ''run-0'', pr_started = ''now'', pr_timeout = 0\<rparr>)]\<rparr>"

definition failed_exit :: exit_info where
  "failed_exit = \<lparr>ei_code = 1, ei_success = False, ei_terminated = False, ei_timed_out = False\<rparr>"


lemma running_inv: "plugin_inv demo_host ([stored_service], 2) (demo_running\<lparr>p_calls := [StorageGet ''x''],
    p_procs := [(''p0'', \<lparr>pr_task = ''task-1'', pr_run = ''run-0'', pr_started = ''now'', pr_timeout = 0\<rparr>)],
    p_rt := [(''task-1'', new_runtime\<lparr>rt_state := stateRunning, rt_desired := True, rt_process := ''p0'', rt_count := 3\<rparr>)]\<rparr>)"
  (is "plugin_inv _ _ ?pl")
proof -
  have ne: "task_name n \<noteq> ''task-1''" if "2 \<le> n" "n \<le> max_int64" for n
  proof
    assume eq: "task_name n = ''task-1''"
    have "itoa 1 = ''1''" by code_simp
    then have "task_name 1 = ''task-1''" by (simp add: task_name_def)
    with eq have "task_name n = task_name 1" by simp
    with that show False by simp
  qed
  have s: "slot i ?pl = (if i = ''task-1'' then (Some (stateRunning, True, False, ''p0'', 0), [''p0'']) else (None, []))" for i
    by (simp add: slot_def procs_of_def demo_running_def core_def new_runtime_def)
  have id: "t_id stored_service = ''task-1''" "t_type stored_service = typeContinuous"
    by (simp_all add: stored_service_def)
  have pl: "p_tasks ?pl = [stored_service]" "p_next ?pl = 2" by (simp_all add: demo_running_def)
  have "fresh_ids ?pl" using ne ne [symmetric] unfolding fresh_ids_def pl by (simp add: s find_task_def id)
  moreover have "id_number ''task-1'' = Some 1" by code_simp
  moreover have "normalized stored_service" using service_normalized normalized_normalizeTask by metis
  moreover have "slot_ok stored_service ?pl" unfolding slot_ok_def id s by simp
  moreover have "issued demo_host ?pl ''p0''"
  proof -
    have "nat_digits 0 = ''0''" by code_simp
    then have "h_start demo_host [] (StorageGet []) = Inr (''p0'', 7)" by (simp add: demo_host_def)
    then show ?thesis unfolding issued_def by (intro exI [of _ "[]"] exI [of _ "StorageGet []"] exI [of _ 7]) simp
  qed
  then have "tables_ok demo_host ?pl" by (simp add: tables_ok_def)
  moreover have "synced demo_host ([stored_service], 2) ?pl" by (simp add: synced_def disk_def pl)
  ultimately show ?thesis by (simp add: plugin_inv_def exec_inv_def id storable_def pl)
qed

theorem process_exit_once_witness:
  "let pl = demo_running\<lparr>p_calls := [StorageGet ''x''],
       p_procs := [(''p0'', \<lparr>pr_task = ''task-1'', pr_run = ''run-0'', pr_started = ''now'', pr_timeout = 0\<rparr>)],
       p_rt := [(''task-1'', new_runtime\<lparr>rt_state := stateRunning, rt_desired := True, rt_process := ''p0'', rt_count := 3\<rparr>)]\<rparr>
   in processExited demo_host ''p0'' lost_exit (processExited demo_host ''p0'' failed_exit pl)
      = processExited demo_host ''p0'' failed_exit pl"
  unfolding Let_def by (rule process_exit_once [OF demo_host_ok(1) running_inv]) simp

text \<open>Overlap policy.  When the scheduler fires an enabled scheduled task that is still running
  and whose policy is not \<open>allow\<close>, nothing happens: no host call is made and nothing changes; a
  manual run request is refused.  When the policy is \<open>allow\<close> or nothing runs, the plugin records a
  new execution.\<close>

theorem overlap_policy:
  assumes "find_task i (p_tasks pl) = Some t" and "t_type t = typeScheduled" and "t_enabled t"
    and "p_loadError pl = []" and "map_of (p_rt pl) i = Some r"
  shows "(0 < rt_active r \<and> t_overlap t \<noteq> overlapAllow
      \<longrightarrow> event h (SchedulerFired (Inr (i, ''task''))) pl = pl
        \<and> runNow h t True pl = (Inl (RpcErr (rpcFail ''already_running'' (''task '' @ quoted (t_name t) @ '' is already running''))), pl))
    \<and> (\<not> (0 < rt_active r \<and> t_overlap t \<noteq> overlapAllow)
      \<longrightarrow> HistoryBegin ''command'' i (t_name t) \<in> set (p_calls (event h (SchedulerFired (Inr (i, ''task''))) pl)))"
proof -
  have id: "t_id t = i" using assms(1) by (auto dest: find_task_Some)
  have ev: "event h (SchedulerFired (Inr (i, ''task''))) pl = snd (runNow h t False pl)"
    using assms by (simp add: event_def task_fired_def)
  have skipped: "0 < rt_active r \<and> t_overlap t \<noteq> overlapAllow
      \<longrightarrow> event h (SchedulerFired (Inr (i, ''task''))) pl = pl
        \<and> runNow h t True pl = (Inl (RpcErr (rpcFail ''already_running'' (''task '' @ quoted (t_name t) @ '' is already running''))), pl)"
    unfolding ev using id assms(5) by (simp add: runNow_def fst_runtimeOf)
  have begun: "HistoryBegin ''command'' i (t_name t) \<in> set (p_calls (snd (launch h t pl)))"
    using assms(2) id by (auto simp: launch_def ask_def launch_failed_def launch_started_def Let_def tell_def
        finishExecution_def publish_def split: sum.split)
  have sub: "set (p_calls p) \<subseteq> set (p_calls (publishStatus h t (upd_rt j f p)))" for p j f
    using calls_publishStatus [of "upd_rt j f p"] by simp
  have started: "\<not> (0 < rt_active r \<and> t_overlap t \<noteq> overlapAllow)
      \<longrightarrow> HistoryBegin ''command'' i (t_name t) \<in> set (p_calls (event h (SchedulerFired (Inr (i, ''task''))) pl))"
  proof
    assume run: "\<not> (0 < rt_active r \<and> t_overlap t \<noteq> overlapAllow)"
    have "set (p_calls (snd (launch h t pl))) \<subseteq> set (p_calls (snd (runNow h t False pl)))"
      using run id assms(5) calls_publishStatus [of "snd (launch h t pl)"] sub [of "snd (launch h t pl)"]
      by (cases "fst (launch h t pl)"; cases "0 < rt_active r")
         (simp_all add: runNow_def fst_runtimeOf case_prod_unfold Let_def)
    with begun show "HistoryBegin ''command'' i (t_name t) \<in> set (p_calls (event h (SchedulerFired (Inr (i, ''task''))) pl))"
      unfolding ev by blast
  qed
  from skipped started show ?thesis by (rule conjI)
qed

definition demo_job :: task where
  "demo_job = stored_service\<lparr>t_type := typeScheduled, t_enabled := True, t_overlap := overlapSkip\<rparr>"

theorem overlap_policy_witness:
  "let pl = newPlugin\<lparr>p_tasks := [demo_job], p_rt := [(''task-1'', new_runtime\<lparr>rt_active := 1\<rparr>)]\<rparr>
   in event demo_host (SchedulerFired (Inr (''task-1'', ''task''))) pl = pl"
  using overlap_policy [of "''task-1''" "newPlugin\<lparr>p_tasks := [demo_job], p_rt := [(''task-1'', new_runtime\<lparr>rt_active := 1\<rparr>)]\<rparr>"
      demo_job "new_runtime\<lparr>rt_active := 1\<rparr>" demo_host]
  by (simp add: demo_job_def stored_service_def find_task_def newPlugin_def Let_def) (simp add: task_names)

end
