(* ===== verification/Model.thy ===== *)
theory Model
  imports Prelude
begin

section \<open>The shared data model\<close>

text \<open>
  Models \<^verbatim>\<open>internal/model\<close>: the configuration records, \<open>ValidateEnvironment\<close> and
  \<open>ValidateCommand\<close> (command.go), \<open>NormalizeJob\<close> (defaults.go) and the Xpra options (xpra.go).
  A nil pointer is \<open>None\<close>, a nil or empty slice or map is the empty list; JSON and YAML tags are
  left out.  Named string types of the source are strings, their constants definitions.
\<close>

record command_spec =
  c_path :: string
  c_args :: "string list"
  c_workdir :: string
  c_env :: "string table"
  c_interpreter :: string

definition ScheduleInterval :: string where "ScheduleInterval = ''interval''"
definition ScheduleDaily :: string where "ScheduleDaily = ''daily''"
definition ScheduleCron :: string where "ScheduleCron = ''cron''"

record schedule_spec =
  sp_type :: string
  sp_interval :: int
  sp_time_of_day :: string
  sp_cron :: string
  sp_time_zone :: string

definition JobBackup :: string where "JobBackup = ''backup''"
definition BackupCopy :: string where "BackupCopy = ''copy''"
definition BackupMirror :: string where "BackupMirror = ''mirror''"

record robocopy_spec =
  rb_source :: string
  rb_destination :: string
  rb_mode :: string
  rb_exclude_dirs :: "string list"
  rb_exclude_files :: "string list"
  rb_retries :: int
  rb_wait :: int
  rb_args :: "string list"

record restic_retention =
  keep_last :: int
  keep_daily :: int
  keep_weekly :: int
  keep_monthly :: int
  keep_yearly :: int
  keep_within :: string
  keep_prune :: bool

record restic_spec =
  rs_executable :: string
  rs_repository :: string
  rs_password_file :: string
  rs_sources :: "string list"
  rs_excludes :: "string list"
  rs_tags :: "string list"
  rs_use_vss :: bool
  rs_retention :: "restic_retention option"
  rs_check :: bool

record rdiff_spec =
  rd_executable :: string
  rd_source :: string
  rd_destination :: string
  rd_excludes :: "string list"
  rd_older_than :: "string option"
  rd_verify :: bool

record backup_spec =
  b_engine :: string
  b_robocopy :: "robocopy_spec option"
  b_restic :: "restic_spec option"
  b_rdiff :: "rdiff_spec option"
  b_source :: string
  b_destination :: string
  b_mode :: string
  b_exclude_dirs :: "string list"
  b_exclude_files :: "string list"
  b_retries :: int
  b_wait :: int
  b_args :: "string list"

record job_definition =
  j_id :: string
  j_name :: string
  j_description :: string
  j_enabled :: bool
  j_type :: string
  j_schedule :: schedule_spec
  j_overlap :: string
  j_timeout :: int
  j_backup :: "backup_spec option"

subsection \<open>Commands\<close>

fun check_names :: "string table \<Rightarrow> string list \<Rightarrow> string option" where
  "check_names seen [] = None"
| "check_names seen (name # rest) =
     (if trim_space name = [] then Some ''environment variable name is required''
      else if CHR ''='' \<in> set name then
        Some (''environment variable name '' @ quoted name @ '' must not contain ='')
      else (case map_of seen (to_upper name) of
          Some previous \<Rightarrow>
            Some (''environment variable names '' @ quoted previous @ '' and '' @ quoted name
                  @ '' conflict on case-insensitive platforms'')
        | None \<Rightarrow> check_names ((to_upper name, name) # seen) rest))"

definition ValidateEnvironment :: "string table \<Rightarrow> string option" where
  "ValidateEnvironment env = check_names [] (map fst env)"

definition ValidateCommand :: "command_spec \<Rightarrow> string option" where
  "ValidateCommand spec = ValidateEnvironment (c_env spec)"

subsection \<open>Job defaults\<close>

definition legacy_robocopy :: "backup_spec \<Rightarrow> robocopy_spec" where
  "legacy_robocopy b =
     \<lparr>rb_source = b_source b, rb_destination = b_destination b, rb_mode = b_mode b,
      rb_exclude_dirs = b_exclude_dirs b, rb_exclude_files = b_exclude_files b,
      rb_retries = b_retries b, rb_wait = b_wait b, rb_args = b_args b\<rparr>"

definition normalize_robocopy :: "robocopy_spec \<Rightarrow> robocopy_spec" where
  "normalize_robocopy r =
     r\<lparr>rb_mode := (if rb_mode r = [] then BackupCopy else rb_mode r),
       rb_retries := (if rb_retries r < 0 then 0 else rb_retries r),
       rb_wait := (if rb_wait r \<le> 0 then 5 else rb_wait r)\<rparr>"

definition normalize_backup :: "backup_spec \<Rightarrow> backup_spec" where
  "normalize_backup b0 =
     (let b = (if b_engine b0 = [] then b0\<lparr>b_engine := ''robocopy''\<rparr> else b0);
          b = (if b_engine b = ''robocopy'' \<and> b_robocopy b = None then
                 b\<lparr>b_robocopy := Some (legacy_robocopy b), b_source := [], b_destination := [],
                   b_mode := [], b_exclude_dirs := [], b_exclude_files := [], b_args := [],
                   b_retries := 0, b_wait := 0\<rparr>
               else b)
      in b\<lparr>b_robocopy := map_option normalize_robocopy (b_robocopy b)\<rparr>)"

definition NormalizeJob :: "job_definition \<Rightarrow> job_definition" where
  "NormalizeJob j0 =
     (let j = (if j_overlap j0 = [] then j0\<lparr>j_overlap := ''skip''\<rparr> else j0)
      in if j_type j = JobBackup then j\<lparr>j_backup := map_option normalize_backup (j_backup j)\<rparr> else j)"

subsection \<open>Xpra options\<close>

definition XpraProfileRecommended :: string where "XpraProfileRecommended = ''recommended''"
definition XpraProfileAutomatic :: string where "XpraProfileAutomatic = ''automatic''"
definition XpraProfileCompatibility :: string where "XpraProfileCompatibility = ''compatibility''"
definition XpraProfileCustom :: string where "XpraProfileCustom = ''custom''"
definition XpraDPIAuto :: string where "XpraDPIAuto = ''auto''"
definition XpraDPI96 :: string where "XpraDPI96 = ''96''"
definition XpraDPICustom :: string where "XpraDPICustom = ''custom''"
definition XpraMenuAutohide :: string where "XpraMenuAutohide = ''autohide''"
definition XpraMenuVisible :: string where "XpraMenuVisible = ''visible''"
definition XpraMenuHidden :: string where "XpraMenuHidden = ''hidden''"

lemmas xpra_names = XpraProfileRecommended_def XpraProfileAutomatic_def XpraProfileCompatibility_def
  XpraProfileCustom_def XpraDPIAuto_def XpraDPI96_def XpraDPICustom_def XpraMenuAutohide_def
  XpraMenuVisible_def XpraMenuHidden_def

record xpra_options =
  x_profile :: string
  x_encoding :: string
  x_video :: "bool option"
  x_dpi_mode :: string
  x_dpi :: int
  x_launch :: "bool option"
  x_clipboard :: "bool option"
  x_resize :: "bool option"
  x_menu :: string
  x_toolbar :: string
  x_sound :: "bool option"
  x_printing :: "bool option"
  x_file_transfer :: "bool option"

definition DefaultXpraRemoteOptions :: xpra_options where
  "DefaultXpraRemoteOptions =
     \<lparr>x_profile = XpraProfileRecommended, x_encoding = ''webp'', x_video = Some False,
      x_dpi_mode = XpraDPIAuto, x_dpi = 0, x_launch = Some True, x_clipboard = Some True,
      x_resize = Some True, x_menu = XpraMenuAutohide, x_toolbar = ''top-left'', x_sound = Some False,
      x_printing = Some False, x_file_transfer = Some False\<rparr>"

definition validXpraProfile :: "string \<Rightarrow> bool" where
  "validXpraProfile v =
     (v = XpraProfileRecommended \<or> v = XpraProfileAutomatic \<or> v = XpraProfileCompatibility \<or> v = XpraProfileCustom)"

definition validXpraEncoding :: "string \<Rightarrow> bool" where
  "validXpraEncoding v = (v = ''auto'' \<or> v = ''webp'' \<or> v = ''rgb'')"

definition validXpraDPIMode :: "string \<Rightarrow> bool" where
  "validXpraDPIMode v = (v = XpraDPIAuto \<or> v = XpraDPI96 \<or> v = XpraDPICustom)"

definition validXpraMenu :: "string \<Rightarrow> bool" where
  "validXpraMenu v = (v = XpraMenuAutohide \<or> v = XpraMenuVisible \<or> v = XpraMenuHidden)"

definition presetEncoding :: "string \<Rightarrow> string" where
  "presetEncoding profile =
     (if profile = XpraProfileCompatibility then ''rgb''
      else if profile = XpraProfileAutomatic then ''auto'' else ''webp'')"

definition presetVideo :: "string \<Rightarrow> bool" where
  "presetVideo profile = (profile = XpraProfileAutomatic)"

definition or_else :: "'a option \<Rightarrow> 'a option \<Rightarrow> 'a option" where
  "or_else a b = (case a of None \<Rightarrow> b | Some x \<Rightarrow> Some x)"

definition non_empty_or :: "string \<Rightarrow> string \<Rightarrow> string" where
  "non_empty_or a b = (if a \<noteq> [] then a else b)"

text \<open>The defaults with every given setting laid over them.\<close>

definition overlay_xpra :: "xpra_options \<Rightarrow> xpra_options" where
  "overlay_xpra i =
     (let d = DefaultXpraRemoteOptions
      in \<lparr>x_profile = non_empty_or (x_profile i) (x_profile d),
          x_encoding = non_empty_or (x_encoding i) (x_encoding d),
          x_video = or_else (x_video i) (x_video d),
          x_dpi_mode = non_empty_or (x_dpi_mode i) (x_dpi_mode d),
          x_dpi = (if x_dpi i \<noteq> 0 then x_dpi i else x_dpi d),
          x_launch = or_else (x_launch i) (x_launch d),
          x_clipboard = or_else (x_clipboard i) (x_clipboard d),
          x_resize = or_else (x_resize i) (x_resize d),
          x_menu = non_empty_or (x_menu i) (x_menu d),
          x_toolbar = non_empty_or (x_toolbar i) (x_toolbar d),
          x_sound = or_else (x_sound i) (x_sound d),
          x_printing = or_else (x_printing i) (x_printing d),
          x_file_transfer = or_else (x_file_transfer i) (x_file_transfer d)\<rparr>)"

text \<open>A preset wins only while its rendering values are unchanged.\<close>

definition settle_profile :: "xpra_options \<Rightarrow> xpra_options \<Rightarrow> xpra_options" where
  "settle_profile i out0 =
     (let out = (if x_profile out0 \<noteq> XpraProfileCustom
                    \<and> ((x_encoding i \<noteq> [] \<and> x_encoding out0 \<noteq> presetEncoding (x_profile out0))
                       \<or> (x_video i \<noteq> None \<and> x_video out0 \<noteq> Some (presetVideo (x_profile out0))))
                 then out0\<lparr>x_profile := XpraProfileCustom\<rparr> else out0)
      in if x_profile out \<noteq> XpraProfileCustom
         then out\<lparr>x_encoding := presetEncoding (x_profile out), x_video := Some (presetVideo (x_profile out))\<rparr>
         else out)"

definition NormalizeXpraRemoteOptions :: "xpra_options option \<Rightarrow> (string, xpra_options) result" where
  "NormalizeXpraRemoteOptions input =
     (case input of None \<Rightarrow> Inr DefaultXpraRemoteOptions | Some i \<Rightarrow>
        if x_sound i = Some True then Inl ''Xpra sound is disabled by the RunPilot Remote profile''
        else if x_printing i = Some True then Inl ''Xpra printing is disabled by the RunPilot Remote profile''
        else if x_file_transfer i = Some True then
          Inl ''Xpra file transfer is disabled by the RunPilot Remote profile''
        else
          (let out = overlay_xpra i
           in if \<not> validXpraProfile (x_profile out) then
                Inl ''Xpra rendering profile must be recommended, automatic, compatibility, or custom''
              else if \<not> validXpraEncoding (x_encoding out) then
                Inl ''Xpra picture encoding must be auto, webp, or rgb''
              else if \<not> validXpraDPIMode (x_dpi_mode out) then
                Inl ''Xpra DPI mode must be auto, 96, or custom''
              else if \<not> validXpraMenu (x_menu out) then
                Inl ''Xpra menu mode must be auto-hide, visible, or hidden''
              else if x_toolbar out \<noteq> ''top-left'' \<and> x_toolbar out \<noteq> ''top-right'' then
                Inl ''Xpra toolbar position must be top-left or top-right''
              else if x_dpi_mode out = XpraDPIAuto then Inr (settle_profile i (out\<lparr>x_dpi := 0\<rparr>))
              else if x_dpi_mode out = XpraDPI96 then Inr (settle_profile i (out\<lparr>x_dpi := 96\<rparr>))
              else if x_dpi out < 72 \<or> 240 < x_dpi out then
                Inl ''custom Xpra DPI must be between 72 and 240''
              else Inr (settle_profile i out)))"

subsection \<open>Properties\<close>

lemma check_names_None:
  "check_names seen names = None \<longleftrightarrow>
     list_all (\<lambda>n. trim_space n \<noteq> [] \<and> CHR ''='' \<notin> set n) names \<and> distinct (map to_upper names)
     \<and> (\<forall>n \<in> set names. to_upper n \<notin> fst ` set seen)"
proof (induction seen names rule: check_names.induct)
  case (2 seen name rest)
  show ?case
  proof (cases "map_of seen (to_upper name)")
    case None
    have nin: "to_upper name \<notin> fst ` set seen" using None by (simp add: map_of_eq_None_iff)
    have "to_upper name \<notin> to_upper ` set rest \<longleftrightarrow> (\<forall>n \<in> set rest. to_upper n \<noteq> to_upper name)"
      by (metis image_iff)
    with 2 None nin show ?thesis by auto
  next
    case (Some previous)
    then have "to_upper name \<in> fst ` set seen" by (metis map_of_eq_None_iff option.distinct(1))
    with Some show ?thesis by auto
  qed
qed simp

text \<open>\<open>ValidateCommand\<close> accepts a command exactly when every environment variable has a name
  that is not blank and has no equals sign, and no two names agree up to case; so the verdict does
  not depend on the order in which the map is iterated.\<close>

theorem ValidateCommand_spec:
  "ValidateCommand spec = None \<longleftrightarrow>
     list_all (\<lambda>(name, _). trim_space name \<noteq> [] \<and> CHR ''='' \<notin> set name) (c_env spec)
     \<and> distinct (map (to_upper \<circ> fst) (c_env spec))"
  by (simp add: ValidateCommand_def ValidateEnvironment_def check_names_None list_all_iff split_def o_def)

lemma normalize_robocopy_idem [simp]: "normalize_robocopy (normalize_robocopy r) = normalize_robocopy r"
  by (simp add: normalize_robocopy_def BackupCopy_def)

lemma normalize_backup_idem [simp]: "normalize_backup (normalize_backup b) = normalize_backup b"
  by (cases "b_robocopy b") (simp_all add: normalize_backup_def Let_def)

text \<open>Normalising a job twice is normalising it once, and a normalised Robocopy job has a typed
  configuration with a copy mode, no negative retry count and a positive retry wait.\<close>

theorem NormalizeJob_canonical:
  "NormalizeJob (NormalizeJob j) = NormalizeJob j
   \<and> j_overlap (NormalizeJob j) \<noteq> []
   \<and> (j_type j = JobBackup \<and> j_backup j = Some b \<and> b_engine b \<in> {[], ''robocopy''} \<longrightarrow>
        (\<exists>b' r. j_backup (NormalizeJob j) = Some b' \<and> b_robocopy b' = Some r
          \<and> rb_mode r \<noteq> [] \<and> 0 \<le> rb_retries r \<and> 0 < rb_wait r))"
proof -
  have "NormalizeJob (NormalizeJob j) = NormalizeJob j"
    by (cases "j_backup j") (simp_all add: NormalizeJob_def Let_def)
  moreover have "j_overlap (NormalizeJob j) \<noteq> []" by (simp add: NormalizeJob_def Let_def)
  moreover have "\<exists>r. b_robocopy (normalize_backup b) = Some r \<and> rb_mode r \<noteq> [] \<and> 0 \<le> rb_retries r \<and> 0 < rb_wait r"
    if "b_engine b \<in> {[], ''robocopy''}"
    using that by (cases "b_robocopy b") (auto simp: normalize_backup_def normalize_robocopy_def BackupCopy_def Let_def)
  ultimately show ?thesis by (auto simp: NormalizeJob_def Let_def)
qed

definition sample_backup :: backup_spec where
  "sample_backup = \<lparr>b_engine = [], b_robocopy = None, b_restic = None, b_rdiff = None, b_source = ''a'',
     b_destination = ''b'', b_mode = [], b_exclude_dirs = [], b_exclude_files = [], b_retries = - 1, b_wait = 0,
     b_args = []\<rparr>"

definition sample_job :: job_definition where
  "sample_job = \<lparr>j_id = ''j'', j_name = ''n'', j_description = [], j_enabled = True, j_type = JobBackup,
     j_schedule = \<lparr>sp_type = ScheduleCron, sp_interval = 0, sp_time_of_day = [], sp_cron = ''@x'', sp_time_zone = []\<rparr>,
     j_overlap = [], j_timeout = 0, j_backup = Some sample_backup\<rparr>"

theorem NormalizeJob_canonical_witness:
  "\<exists>b' r. j_backup (NormalizeJob sample_job) = Some b' \<and> b_robocopy b' = Some r \<and> 0 < rb_wait r"
  using NormalizeJob_canonical [of sample_job sample_backup]
  by (auto simp: sample_job_def sample_backup_def)

text \<open>What \<open>NormalizeXpraRemoteOptions\<close> promises of its result.\<close>

definition xpra_ok :: "xpra_options \<Rightarrow> bool" where
  "xpra_ok o' =
     (x_sound o' = Some False \<and> x_printing o' = Some False \<and> x_file_transfer o' = Some False
    \<and> x_launch o' \<noteq> None \<and> x_clipboard o' \<noteq> None \<and> x_resize o' \<noteq> None \<and> x_video o' \<noteq> None
    \<and> validXpraProfile (x_profile o') \<and> validXpraEncoding (x_encoding o')
    \<and> validXpraMenu (x_menu o') \<and> x_toolbar o' \<in> {''top-left'', ''top-right''}
    \<and> (x_profile o' \<noteq> XpraProfileCustom \<longrightarrow>
         x_encoding o' = presetEncoding (x_profile o') \<and> x_video o' = Some (presetVideo (x_profile o')))
    \<and> (x_dpi_mode o' = XpraDPIAuto \<and> x_dpi o' = 0 \<or> x_dpi_mode o' = XpraDPI96 \<and> x_dpi o' = 96
       \<or> x_dpi_mode o' = XpraDPICustom \<and> 72 \<le> x_dpi o' \<and> x_dpi o' \<le> 240))"

lemma default_xpra_ok: "xpra_ok DefaultXpraRemoteOptions"
  by (simp add: xpra_ok_def DefaultXpraRemoteOptions_def presetEncoding_def
          presetVideo_def validXpraProfile_def validXpraEncoding_def validXpraMenu_def) (simp add: xpra_names)

lemma settled_xpra_ok:
  assumes "x_sound j \<noteq> Some True" "x_printing j \<noteq> Some True" "x_file_transfer j \<noteq> Some True"
    "validXpraProfile (x_profile (overlay_xpra j))" "validXpraEncoding (x_encoding (overlay_xpra j))"
    "validXpraMenu (x_menu (overlay_xpra j))" "x_toolbar (overlay_xpra j) \<in> {''top-left'', ''top-right''}"
    "x_dpi_mode (overlay_xpra j) = XpraDPIAuto \<and> d = 0 \<or> x_dpi_mode (overlay_xpra j) = XpraDPI96 \<and> d = 96
     \<or> x_dpi_mode (overlay_xpra j) = XpraDPICustom \<and> 72 \<le> d \<and> d \<le> 240"
  shows "xpra_ok (settle_profile j ((overlay_xpra j)\<lparr>x_dpi := d\<rparr>))"
proof -
  let ?o = "overlay_xpra j"
  have en: "validXpraEncoding (presetEncoding q)" for q by (simp add: presetEncoding_def validXpraEncoding_def)
  have cust: "validXpraProfile XpraProfileCustom" by (simp add: validXpraProfile_def)
  have shape: "x_launch ?o \<noteq> None" "x_clipboard ?o \<noteq> None" "x_resize ?o \<noteq> None" "x_video ?o \<noteq> None"
    by (auto simp: overlay_xpra_def Let_def or_else_def DefaultXpraRemoteOptions_def split: option.split)
  have off: "x_sound ?o = Some False" "x_printing ?o = Some False" "x_file_transfer ?o = Some False"
    using assms(1-3)
    by (auto simp: overlay_xpra_def Let_def or_else_def DefaultXpraRemoteOptions_def split: option.split)
  show ?thesis
    using assms(4-8) shape off en cust by (auto simp: xpra_ok_def settle_profile_def Let_def)
qed

lemma NormalizeXpra_ok:
  assumes "NormalizeXpraRemoteOptions i = Inr out"
  shows "xpra_ok out"
proof (cases i)
  case None
  with assms default_xpra_ok show ?thesis by (simp add: NormalizeXpraRemoteOptions_def)
next
  case (Some j)
  have id: "(overlay_xpra j)\<lparr>x_dpi := x_dpi (overlay_xpra j)\<rparr> = overlay_xpra j" by simp
  show ?thesis
    using assms Some settled_xpra_ok [of j 0] settled_xpra_ok [of j 96] settled_xpra_ok [of j "x_dpi (overlay_xpra j)"]
    by (auto simp: NormalizeXpraRemoteOptions_def Let_def validXpraDPIMode_def id split: if_splits)
qed

lemma xpra_ok_fixed:
  assumes "xpra_ok out"
  shows "NormalizeXpraRemoteOptions (Some out) = Inr out"
proof -
  have given: "validXpraProfile v \<Longrightarrow> v \<noteq> []" "validXpraEncoding v \<Longrightarrow> v \<noteq> []" "validXpraMenu v \<Longrightarrow> v \<noteq> []" for v
    by (auto simp: validXpraProfile_def validXpraEncoding_def validXpraMenu_def xpra_names)
  have dpi: "x_dpi_mode out \<noteq> []" using assms by (auto simp: xpra_ok_def xpra_names)
  have or: "or_else (Some a) b = Some a" for a :: bool and b by (simp add: or_else_def)
  have "x_dpi DefaultXpraRemoteOptions = 0" by (simp add: DefaultXpraRemoteOptions_def)
  then have ov: "overlay_xpra out = out"
    using assms dpi given or unfolding xpra_ok_def overlay_xpra_def Let_def
    by (intro xpra_options.equality) (auto simp: non_empty_or_def)
  have st: "settle_profile out out = out"
    using assms by (cases out) (auto simp: xpra_ok_def settle_profile_def Let_def)
  have d0: "x_dpi out = k \<Longrightarrow> out\<lparr>x_dpi := k\<rparr> = out" for k by auto
  have ne: "XpraDPIAuto \<noteq> XpraDPI96" "XpraDPIAuto \<noteq> XpraDPICustom" "XpraDPI96 \<noteq> XpraDPICustom"
    by (simp_all add: xpra_names)
  show ?thesis
    using assms ne by (auto simp: NormalizeXpraRemoteOptions_def xpra_ok_def ov st Let_def validXpraDPIMode_def d0)
qed

text \<open>Xpra options. Whatever \<open>NormalizeXpraRemoteOptions\<close> returns is a fixed point of it and
  \<open>xpra_ok\<close>: sound, printing and file transfer are off, every setting is given and valid, the
  encoding and video setting are those of the preset unless the profile is custom, and the DPI fits
  its mode.\<close>

theorem NormalizeXpra_canonical:
  assumes "NormalizeXpraRemoteOptions i = Inr out"
  shows "NormalizeXpraRemoteOptions (Some out) = Inr out \<and> xpra_ok out"
  using NormalizeXpra_ok [OF assms] xpra_ok_fixed by blast

theorem NormalizeXpra_canonical_witness:
  "NormalizeXpraRemoteOptions (Some DefaultXpraRemoteOptions) = Inr DefaultXpraRemoteOptions"
proof -
  have "NormalizeXpraRemoteOptions None = Inr DefaultXpraRemoteOptions" by (simp add: NormalizeXpraRemoteOptions_def)
  from NormalizeXpra_canonical [OF this] show ?thesis by blast
qed

end
