(* ===== verification/Backup.thy ===== *)
theory Backup
  imports Model
begin

section \<open>Backup providers\<close>

text \<open>
  Models \<^verbatim>\<open>internal/backup\<close>: the choice of the provider, the normalisation of legacy
  specifications (\<open>canonical\<close>), validation, and the plan of commands of each provider.  The
  operating system (\<^verbatim>\<open>runtime.GOOS\<close>) is the parameter \<open>windows\<close>.  The success test of a step, a
  function value in the source, is the datatype \<open>success_test\<close>.
\<close>

datatype success_test = ExitZero | RobocopyExit

definition exitZero :: "int \<Rightarrow> bool" where
  "exitZero code = (code = 0)"

definition ExitCodeSuccess :: "int \<Rightarrow> bool" where
  "ExitCodeSuccess code = (0 \<le> code \<and> code < 8)"

definition step_success :: "success_test \<Rightarrow> int \<Rightarrow> bool" where
  "step_success t code = (case t of ExitZero \<Rightarrow> exitZero code | RobocopyExit \<Rightarrow> ExitCodeSuccess code)"

record step =
  step_name :: string
  step_command :: command_spec
  step_test :: success_test

record plan =
  plan_provider :: string
  plan_steps :: "step list"

datatype provider = Robocopy | Restic | RdiffBackup

definition ProviderFor :: "string \<Rightarrow> (string, provider) result" where
  "ProviderFor engine =
     (let e = to_lower (trim_space engine)
      in if e = [] \<or> e = ''robocopy'' then Inr Robocopy
         else if e = ''restic'' then Inr Restic
         else if e = ''rdiff-backup'' \<or> e = ''rdiffbackup'' then Inr RdiffBackup
         else Inl (''unsupported backup provider '' @ quoted engine))"

definition canonical_robocopy :: "backup_spec \<Rightarrow> robocopy_spec" where
  "canonical_robocopy b =
     (let r = legacy_robocopy b
      in r\<lparr>rb_mode := (if rb_mode r = [] then BackupCopy else rb_mode r),
           rb_wait := (if rb_wait r = 0 then 5 else rb_wait r)\<rparr>)"

definition canonical :: "backup_spec \<Rightarrow> backup_spec" where
  "canonical s0 =
     (let s = (if (b_engine s0 = [] \<or> equal_fold (b_engine s0) ''robocopy'') \<and> b_robocopy s0 = None
               then s0\<lparr>b_robocopy := Some (canonical_robocopy s0)\<rparr> else s0);
          s = (if equal_fold (b_engine s) ''restic'' \<and> b_restic s = None
               then s\<lparr>b_restic := Some \<lparr>rs_executable = [], rs_repository = b_destination s, rs_password_file = [],
                       rs_sources = [b_source s], rs_excludes = b_exclude_dirs s @ b_exclude_files s,
                       rs_tags = [], rs_use_vss = False, rs_retention = None, rs_check = False\<rparr>\<rparr>
               else s)
      in (if (equal_fold (b_engine s) ''rdiff-backup'' \<or> equal_fold (b_engine s) ''rdiffbackup'') \<and> b_rdiff s = None
          then s\<lparr>b_rdiff := Some \<lparr>rd_executable = [], rd_source = b_source s, rd_destination = b_destination s,
                  rd_excludes = b_exclude_dirs s @ b_exclude_files s, rd_older_than = None, rd_verify = False\<rparr>\<rparr>
          else s))"

record capabilities =
  cap_retention :: bool
  cap_verification :: bool
  cap_versioned :: bool
  cap_direct_mirror :: bool

definition robocopy_capabilities :: capabilities where
  "robocopy_capabilities =
     \<lparr>cap_retention = False, cap_verification = False, cap_versioned = False, cap_direct_mirror = True\<rparr>"

definition restic_capabilities :: capabilities where
  "restic_capabilities =
     \<lparr>cap_retention = True, cap_verification = True, cap_versioned = True, cap_direct_mirror = False\<rparr>"

definition rdiff_capabilities :: capabilities where
  "rdiff_capabilities =
     \<lparr>cap_retention = True, cap_verification = True, cap_versioned = True, cap_direct_mirror = True\<rparr>"

definition provider_capabilities :: "provider \<Rightarrow> capabilities" where
  "provider_capabilities p =
     (case p of Robocopy \<Rightarrow> robocopy_capabilities | Restic \<Rightarrow> restic_capabilities | RdiffBackup \<Rightarrow> rdiff_capabilities)"

definition nonEmpty :: "string list \<Rightarrow> string list" where
  "nonEmpty xs = filter (\<lambda>v. v \<noteq> []) (map trim_space xs)"

definition blank :: "string \<Rightarrow> bool" where
  "blank s = (trim_space s = [])"

definition direct_command :: "string \<Rightarrow> string list \<Rightarrow> command_spec" where
  "direct_command exe args = \<lparr>c_path = exe, c_args = args, c_workdir = [], c_env = [], c_interpreter = ''direct''\<rparr>"

subsection \<open>Robocopy\<close>

definition robocopy_validate :: "bool \<Rightarrow> backup_spec \<Rightarrow> string option" where
  "robocopy_validate windows s =
     (if \<not> windows then Some ''robocopy backup engine is only available on Windows''
      else (case b_robocopy s of
          None \<Rightarrow> Some ''robocopy configuration is required''
        | Some r \<Rightarrow>
            (if blank (rb_source r) \<or> blank (rb_destination r) then Some ''robocopy source and destination are required''
             else if rb_mode r \<noteq> [] \<and> rb_mode r \<noteq> BackupCopy \<and> rb_mode r \<noteq> BackupMirror then
               Some (''unsupported robocopy mode '' @ quoted (rb_mode r))
             else if rb_retries r < 0 \<or> rb_wait r < 0 then
               Some ''robocopy retries and retry wait cannot be negative''
             else None)))"

definition robocopy_mode_args :: "string \<Rightarrow> (string, string list) result" where
  "robocopy_mode_args mode =
     (if mode = BackupMirror then Inr [''/MIR'']
      else if mode = BackupCopy \<or> mode = [] then Inr [''/E'']
      else Inl (''unsupported backup mode '' @ quoted mode))"

definition robocopy_plan :: "robocopy_spec \<Rightarrow> (string, plan) result" where
  "robocopy_plan r =
     bind_result (robocopy_mode_args (rb_mode r)) (\<lambda>mode.
       (let args = [rb_source r, rb_destination r] @ mode
              @ [''/COPY:DAT'', ''/DCOPY:DAT'', ''/XJ'', ''/R:'' @ itoa (rb_retries r), ''/W:'' @ itoa (rb_wait r), ''/NP'']
              @ (if rb_exclude_dirs r \<noteq> [] then ''/XD'' # rb_exclude_dirs r else [])
              @ (if rb_exclude_files r \<noteq> [] then ''/XF'' # rb_exclude_files r else [])
              @ rb_args r
        in Inr \<lparr>plan_provider = ''Robocopy'',
                plan_steps = [\<lparr>step_name = ''backup'', step_command = direct_command ''robocopy.exe'' args,
                               step_test = RobocopyExit\<rparr>]\<rparr>))"

subsection \<open>Restic\<close>

definition restic_retention_error :: "restic_retention \<Rightarrow> string option" where
  "restic_retention_error k =
     (if list_ex (\<lambda>n. n < 0) [keep_last k, keep_daily k, keep_weekly k, keep_monthly k, keep_yearly k] then
        Some ''restic retention values cannot be negative''
      else if blank (keep_within k) \<and> keep_last k = 0 \<and> keep_daily k = 0 \<and> keep_weekly k = 0
              \<and> keep_monthly k = 0 \<and> keep_yearly k = 0 then
        Some ''restic retention needs at least one keep setting''
      else None)"

definition restic_validate :: "backup_spec \<Rightarrow> string option" where
  "restic_validate s =
     (case b_restic s of
        None \<Rightarrow> Some ''restic configuration is required''
      | Some r \<Rightarrow>
          (if blank (rs_repository r) then Some ''restic repository is required''
           else if nonEmpty (rs_sources r) = [] then Some ''at least one restic source is required''
           else (case rs_retention r of None \<Rightarrow> None | Some k \<Rightarrow> restic_retention_error k)))"

definition resticBase :: "bool \<Rightarrow> restic_spec \<Rightarrow> string list \<times> string" where
  "resticBase windows r =
     ([''--repo'', rs_repository r]
        @ (if blank (rs_password_file r) then [] else [''--password-file'', rs_password_file r]),
      if blank (rs_executable r) then (if windows then ''restic.exe'' else ''restic'') else rs_executable r)"

definition retentionArgs :: "restic_retention \<Rightarrow> string list" where
  "retentionArgs k =
     concat (map (\<lambda>(f, n). if 0 < n then [f, itoa n] else [])
       [(''--keep-last'', keep_last k), (''--keep-daily'', keep_daily k), (''--keep-weekly'', keep_weekly k),
        (''--keep-monthly'', keep_monthly k), (''--keep-yearly'', keep_yearly k)])
     @ (if blank (keep_within k) then [] else [''--keep-within'', keep_within k])"

definition restic_plan :: "bool \<Rightarrow> restic_spec \<Rightarrow> plan" where
  "restic_plan windows r =
     (let (base, exe) = resticBase windows r;
          backup = base @ [''backup'']
            @ concat (map (\<lambda>x. [''--exclude'', x]) (nonEmpty (rs_excludes r)))
            @ concat (map (\<lambda>x. [''--tag'', x]) (nonEmpty (rs_tags r)))
            @ (if rs_use_vss r then [''--use-fs-snapshot''] else [])
            @ nonEmpty (rs_sources r);
          retention = (case rs_retention r of None \<Rightarrow> []
            | Some k \<Rightarrow> [\<lparr>step_name = ''retention'',
                step_command = direct_command exe
                  (base @ [''forget''] @ retentionArgs k @ (if keep_prune k then [''--prune''] else [])),
                step_test = ExitZero\<rparr>]);
          check = (if rs_check r then [\<lparr>step_name = ''check'', step_command = direct_command exe (base @ [''check'']),
                step_test = ExitZero\<rparr>] else [])
      in \<lparr>plan_provider = ''Restic'',
          plan_steps = [\<lparr>step_name = ''backup'', step_command = direct_command exe backup, step_test = ExitZero\<rparr>]
            @ retention @ check\<rparr>)"

subsection \<open>Rdiff-backup\<close>

definition rdiff_validate :: "backup_spec \<Rightarrow> string option" where
  "rdiff_validate s =
     (case b_rdiff s of
        None \<Rightarrow> Some ''rdiff-backup configuration is required''
      | Some r \<Rightarrow>
          (if blank (rd_source r) \<or> blank (rd_destination r) then Some ''rdiff-backup source and destination are required''
           else (case rd_older_than r of
               Some v \<Rightarrow> if blank v then Some ''rdiff-backup retention value is required when retention is enabled'' else None
             | None \<Rightarrow> None)))"

definition rdiffBase :: "bool \<Rightarrow> rdiff_spec \<Rightarrow> string" where
  "rdiffBase windows r =
     (if \<not> blank (rd_executable r) then rd_executable r
      else if windows then ''rdiff-backup.exe'' else ''rdiff-backup'')"

definition rdiff_plan :: "bool \<Rightarrow> rdiff_spec \<Rightarrow> plan" where
  "rdiff_plan windows r =
     (let exe = rdiffBase windows r;
          cmd = (\<lambda>name args. \<lparr>step_name = name, step_command = direct_command exe args, step_test = ExitZero\<rparr>)
      in \<lparr>plan_provider = ''rdiff-backup'',
          plan_steps =
            [cmd ''backup'' (concat (map (\<lambda>x. [''--exclude'', x]) (nonEmpty (rd_excludes r))) @ [rd_source r, rd_destination r])]
            @ (case rd_older_than r of None \<Rightarrow> []
               | Some v \<Rightarrow> [cmd ''retention'' [''remove'', ''increments'', ''--older-than'', v, rd_destination r]])
            @ (if rd_verify r then [cmd ''verify'' [''verify'', rd_destination r]] else [])\<rparr>)"

subsection \<open>Validation and planning\<close>

definition provider_validate :: "bool \<Rightarrow> provider \<Rightarrow> backup_spec \<Rightarrow> string option" where
  "provider_validate windows p s =
     (case p of Robocopy \<Rightarrow> robocopy_validate windows s | Restic \<Rightarrow> restic_validate s | RdiffBackup \<Rightarrow> rdiff_validate s)"

text \<open>\<open>Plan\<close> dereferences the typed configuration; \<open>Validate\<close> has made sure that it is there.\<close>

definition provider_plan :: "bool \<Rightarrow> provider \<Rightarrow> backup_spec \<Rightarrow> (string, plan) result" where
  "provider_plan windows p s =
     (case p of
        Robocopy \<Rightarrow> (case b_robocopy s of None \<Rightarrow> Inl ''nil pointer dereference'' | Some r \<Rightarrow> robocopy_plan r)
      | Restic \<Rightarrow> (case b_restic s of None \<Rightarrow> Inl ''nil pointer dereference'' | Some r \<Rightarrow> Inr (restic_plan windows r))
      | RdiffBackup \<Rightarrow> (case b_rdiff s of None \<Rightarrow> Inl ''nil pointer dereference'' | Some r \<Rightarrow> Inr (rdiff_plan windows r)))"

definition validate_backup :: "bool \<Rightarrow> backup_spec \<Rightarrow> string option" where
  "validate_backup windows s0 =
     (let s = canonical s0
      in case ProviderFor (b_engine s) of Inl e \<Rightarrow> Some e | Inr p \<Rightarrow> provider_validate windows p s)"

definition BuildPlan :: "bool \<Rightarrow> backup_spec \<Rightarrow> (string, plan) result" where
  "BuildPlan windows s0 =
     (let s = canonical s0
      in bind_result (ProviderFor (b_engine s)) (\<lambda>p.
           (case provider_validate windows p s of
              Some e \<Rightarrow> Inl e
            | None \<Rightarrow> provider_plan windows p s)))"

definition Build :: "bool \<Rightarrow> backup_spec \<Rightarrow> (string, command_spec) result" where
  "Build windows s =
     bind_result (BuildPlan windows s) (\<lambda>p.
       (if length (plan_steps p) \<noteq> 1 then
          Inl (''backup provider '' @ quoted (plan_provider p) @ '' requires multiple commands'')
        else Inr (step_command (hd (plan_steps p)))))"

subsection \<open>Properties\<close>


lemma b_engine_canonical [simp]: "b_engine (canonical s) = b_engine s"
  by (simp add: canonical_def Let_def)

lemma robocopy_mode_args_ok: "mode = [] \<or> mode = BackupCopy \<or> mode = BackupMirror \<Longrightarrow> is_ok (robocopy_mode_args mode)"
  by (auto simp: robocopy_mode_args_def)

text \<open>A step that a provider with the given capabilities may have after the backup itself.\<close>

definition extra_step :: "capabilities \<Rightarrow> step \<Rightarrow> bool" where
  "extra_step c st =
     (step_name st = ''retention'' \<and> cap_retention c
      \<or> (step_name st = ''check'' \<or> step_name st = ''verify'') \<and> cap_verification c)"

lemma extra_step_names: "extra_step c st \<Longrightarrow> step_name st \<noteq> ''backup''"
  by (auto simp: extra_step_def)

lemmas capability_defs = provider_capabilities_def robocopy_capabilities_def restic_capabilities_def
  rdiff_capabilities_def extra_step_def

lemma valid_provider_plans:
  assumes "provider_validate windows p s = None"
  shows "\<exists>pl. provider_plan windows p s = Inr pl \<and> plan_steps pl \<noteq> []
    \<and> step_name (hd (plan_steps pl)) = ''backup''
    \<and> (\<forall>st \<in> set (tl (plan_steps pl)). extra_step (provider_capabilities p) st)"
proof (cases p)
  case Robocopy
  with assms obtain r where r: "b_robocopy s = Some r" "is_ok (robocopy_mode_args (rb_mode r))"
    by (auto simp: provider_validate_def robocopy_validate_def intro: robocopy_mode_args_ok split: option.splits if_splits)
  then show ?thesis using Robocopy by (auto simp: provider_plan_def robocopy_plan_def Let_def is_ok_iff)
next
  case Restic
  with assms show ?thesis
    by (auto simp: provider_validate_def restic_validate_def provider_plan_def restic_plan_def Let_def
        case_prod_unfold capability_defs split: option.splits if_splits)
next
  case RdiffBackup
  with assms show ?thesis
    by (auto simp: provider_validate_def rdiff_validate_def provider_plan_def rdiff_plan_def Let_def
        capability_defs split: option.splits if_splits)
qed

text \<open>C7: A backup specification can be planned exactly when it validates: \<open>BuildPlan\<close> fails with the
  error of \<open>Validate\<close>, and when there is none it never fails and never dereferences a missing
  configuration; the plan then starts with the backup step, the steps after it are retention or
  verification steps, and the provider announces the capability of each of them.\<close>

theorem BuildPlan_iff_Validate:
  "(case validate_backup windows s of
      Some e \<Rightarrow> BuildPlan windows s = Inl e
    | None \<Rightarrow> \<exists>p pl. ProviderFor (b_engine s) = Inr p \<and> BuildPlan windows s = Inr pl \<and> plan_steps pl \<noteq> []
        \<and> step_name (hd (plan_steps pl)) = ''backup''
        \<and> (\<forall>st \<in> set (tl (plan_steps pl)). extra_step (provider_capabilities p) st))"
proof (cases "ProviderFor (b_engine s)")
  case (Inr p)
  then show ?thesis
    using valid_provider_plans [of windows p "canonical s"]
    by (cases "provider_validate windows p (canonical s)") (simp_all add: validate_backup_def BuildPlan_def Let_def)
qed (simp add: validate_backup_def BuildPlan_def Let_def)

definition sample_restic_backup :: backup_spec where
  "sample_restic_backup = sample_backup\<lparr>b_engine := ''restic'',
     b_restic := Some \<lparr>rs_executable = [], rs_repository = ''r'', rs_password_file = [], rs_sources = [''d''],
       rs_excludes = [], rs_tags = [], rs_use_vss = False, rs_retention = None, rs_check = True\<rparr>\<rparr>"

theorem BuildPlan_iff_Validate_witness:
  "\<exists>pl. BuildPlan False sample_restic_backup = Inr pl \<and> step_name (hd (plan_steps pl)) = ''backup''"
proof -
  have "validate_backup False sample_restic_backup = None" by code_simp
  with BuildPlan_iff_Validate [of sample_restic_backup False] show ?thesis by auto
qed

end
