(* ===== verification/Launcher.thy ===== *)
theory Launcher
  imports Model
begin

section \<open>The command launcher\<close>

text \<open>
  Models \<^verbatim>\<open>internal/launcher/launcher.go\<close>: the command line and the environment of a child process.
  The operating system is the parameter \<open>windows\<close>, the environment of the daemon
  (\<^verbatim>\<open>os.Environ\<close>) is \<open>inherited\<close>.  The \<^verbatim>\<open>exec.Cmd\<close> that \<open>Build\<close> returns is the record \<open>exec_cmd\<close>;
  the process attributes that \<^verbatim>\<open>platform.ConfigureCommand\<close> adds are left out.
\<close>

record exec_cmd =
  x_name :: string
  x_args :: "string list"
  x_dir :: string
  x_env :: "string list"

definition trimOuterQuotes :: "string \<Rightarrow> string" where
  "trimOuterQuotes value0 =
     (let v = trim_space value0
      in if 2 \<le> length v \<and> (hd v = CHR 0x22 \<and> last v = CHR 0x22 \<or> hd v = CHR 0x27 \<and> last v = CHR 0x27)
         then butlast (tl v) else v)"

subsection \<open>The environment\<close>

definition canonicalName :: "bool \<Rightarrow> string \<Rightarrow> string" where
  "canonicalName caseInsensitive name = (if caseInsensitive then to_upper name else name)"

definition entry_name :: "string \<Rightarrow> string" where
  "entry_name entry = takeWhile (\<lambda>c. c \<noteq> CHR ''='') entry"

definition env_entry :: "string \<Rightarrow> string \<Rightarrow> string" where
  "env_entry name v = name @ ''='' @ v"

definition mergeEnvironment :: "string list \<Rightarrow> string table \<Rightarrow> bool \<Rightarrow> string list" where
  "mergeEnvironment inherited configured ci =
     (if configured = [] then inherited
      else (let overrides = map (canonicalName ci \<circ> fst) configured;
                keys = sort (map fst configured)
            in filter (\<lambda>e. \<not> (CHR ''='' \<in> set e \<and> canonicalName ci (entry_name e) \<in> set overrides)) inherited
               @ map (\<lambda>name. env_entry name (the (map_of configured name))) keys))"

subsection \<open>The command line\<close>

definition is_separator :: "bool \<Rightarrow> char \<Rightarrow> bool" where
  "is_separator windows c = (c = CHR ''/'' \<or> windows \<and> c = CHR 0x5C)"

text \<open>\<^verbatim>\<open>filepath.Ext\<close>: from the last dot on, when no separator follows it.\<close>

fun ext_scan :: "bool \<Rightarrow> string \<Rightarrow> string \<Rightarrow> string" where
  "ext_scan windows [] seen = []"
| "ext_scan windows (c # before) seen =
     (if is_separator windows c then []
      else if c = CHR ''.'' then c # seen
      else ext_scan windows before (c # seen))"

definition file_ext :: "bool \<Rightarrow> string \<Rightarrow> string" where
  "file_ext windows path = ext_scan windows (rev path) []"

definition inferInterpreter :: "bool \<Rightarrow> string \<Rightarrow> string" where
  "inferInterpreter windows path =
     (let e = to_lower (file_ext windows path)
      in if e = ''.ps1'' then ''powershell''
         else if e = ''.bat'' \<or> e = ''.cmd'' then ''cmd''
         else if e = ''.py'' then ''python''
         else if e = ''.sh'' then ''sh''
         else if e = ''.bash'' then ''bash''
         else ''direct'')"

definition cmd_specials :: string where
  "cmd_specials = CHR 0x09 # CHR 0x27 # '' &()[]{}^=;!+,`~''"

definition quoteCMD :: "string \<Rightarrow> string" where
  "quoteCMD s =
     (if s = [] then [CHR 0x22, CHR 0x22]
      else if \<not> contains_any s cmd_specials then s
      else quoted (concat (map (\<lambda>c. if c = CHR 0x22 then [CHR 0x5C, CHR 0x22] else [c]) s)))"

definition windowsCommandLine :: "string \<Rightarrow> string list \<Rightarrow> string" where
  "windowsCommandLine path args = join_with '' '' (map quoteCMD (path # args))"

definition interpreter_of :: "bool \<Rightarrow> command_spec \<Rightarrow> string" where
  "interpreter_of windows spec =
     (let i = to_lower (trim_space (c_interpreter spec))
      in if i = [] \<or> i = ''auto'' then inferInterpreter windows (c_path spec) else i)"

definition program :: "bool \<Rightarrow> string \<Rightarrow> command_spec \<Rightarrow> (string, string \<times> string list) result" where
  "program windows interp spec =
     (let path = c_path spec; args = c_args spec
      in if interp = ''direct'' then Inr (path, args)
         else if interp = ''powershell'' then
           Inr (if windows then ''powershell.exe'' else ''pwsh'',
                [''-NoLogo'', ''-NoProfile'', ''-NonInteractive'', ''-File'', path] @ args)
         else if interp = ''cmd'' then
           (if \<not> windows then Inl ''cmd interpreter is only available on Windows''
            else Inr (''cmd.exe'', [''/d'', ''/s'', ''/c'', windowsCommandLine path args]))
         else if interp = ''sh'' \<or> interp = ''bash'' then
           (if windows then Inl (interp @ '' interpreter is only available on Unix-like systems'')
            else Inr (interp, path # args))
         else if interp = ''sh-inline'' then
           (if windows then Inl ''inline shell commands are only available on Unix-like systems''
            else Inr (''sh'', [''-c'', trimOuterQuotes path]))
         else if interp = ''python'' then
           Inr (if windows then ''python.exe'' else ''python3'', path # args)
         else Inl (''unsupported interpreter '' @ quoted interp))"

definition Build :: "bool \<Rightarrow> string list \<Rightarrow> command_spec \<Rightarrow> (string, exec_cmd) result" where
  "Build windows inherited spec =
     (if trim_space (c_path spec) = [] then Inl ''command path is required''
      else (case ValidateCommand spec of
          Some e \<Rightarrow> Inl e
        | None \<Rightarrow> bind_result (program windows (interpreter_of windows spec) spec)
            (\<lambda>(name, args). Inr \<lparr>x_name = name, x_args = args, x_dir = c_workdir spec,
               x_env = mergeEnvironment inherited (c_env spec) windows\<rparr>)))"

subsection \<open>Properties\<close>

text \<open>The entries of an environment that a child process reads as the variable \<open>name\<close>.\<close>

definition names_var :: "bool \<Rightarrow> string \<Rightarrow> string \<Rightarrow> bool" where
  "names_var ci name entry = (CHR ''='' \<in> set entry \<and> canonicalName ci (entry_name entry) = canonicalName ci name)"

lemma entry_name_env_entry [simp]: "CHR ''='' \<notin> set name \<Longrightarrow> entry_name (env_entry name v) = name"
  by (induction name) (auto simp: entry_name_def env_entry_def)

lemma sep_in_env_entry [simp]: "CHR ''='' \<in> set (env_entry name v)"
  by (simp add: env_entry_def)

lemma canonicalName_eq_upper: "canonicalName ci a = canonicalName ci b \<Longrightarrow> to_upper a = to_upper b"
  by (auto simp: canonicalName_def split: if_splits)

lemma filter_unique:
  "distinct xs \<Longrightarrow> x \<in> set xs \<Longrightarrow> \<forall>y \<in> set xs. P y \<longleftrightarrow> y = x \<Longrightarrow> filter P xs = [x]"
proof (induction xs)
  case (Cons z zs)
  show ?case
  proof (cases "z = x")
    case True
    with Cons.prems have "filter P zs = []" by (auto simp: filter_empty_conv)
    with True Cons.prems show ?thesis by simp
  next
    case False
    with Cons.prems have "filter P zs = [x]" by (intro Cons.IH) auto
    with False Cons.prems show ?thesis by simp
  qed
qed simp

lemma merged_configured:
  assumes valid: "ValidateEnvironment env = None" and n: "map_of env n = Some v"
  shows "filter (names_var ci n) (mergeEnvironment inherited env ci) = [env_entry n v]"
proof -
  have ne: "env \<noteq> []" and mem: "n \<in> fst ` set env"
    using n by (auto simp: rev_image_eqI dest: map_of_SomeD)
  have ok: "\<And>m. m \<in> fst ` set env \<Longrightarrow> CHR ''='' \<notin> set m"
    and dup: "distinct (map (to_upper \<circ> fst) env)"
    using valid by (auto simp: ValidateEnvironment_def check_names_None list_all_iff)
  have inj: "inj_on to_upper (fst ` set env)" and ks: "distinct (map fst env)"
    using dup by (auto simp: distinct_map inj_on_def image_iff)
  have uniq: "m = n" if "m \<in> fst ` set env" "canonicalName ci m = canonicalName ci n" for m
    using inj_onD [OF inj canonicalName_eq_upper [OF that(2)] that(1) mem] .
  let ?keep = "filter (\<lambda>e. \<not> (CHR ''='' \<in> set e \<and> canonicalName ci (entry_name e) \<in> set (map (canonicalName ci \<circ> fst) env))) inherited"
  have "filter (names_var ci n) ?keep = []"
    using mem by (auto simp: filter_empty_conv names_var_def)
  moreover have "filter (\<lambda>m. names_var ci n (env_entry m (the (map_of env m)))) (sort (map fst env)) = [n]"
  proof (intro filter_unique ballI)
    fix y assume "y \<in> set (sort (map fst env))"
    then have y: "y \<in> fst ` set env" by simp
    have "names_var ci n (env_entry y (the (map_of env y))) \<longleftrightarrow> canonicalName ci y = canonicalName ci n"
      using ok [OF y] by (simp add: names_var_def)
    then show "names_var ci n (env_entry y (the (map_of env y))) \<longleftrightarrow> y = n" using uniq [OF y] by auto
  qed (use ks mem in auto)
  ultimately show ?thesis using ne n
    by (simp add: mergeEnvironment_def Let_def filter_map o_def)
qed

lemma merged_other:
  assumes valid: "ValidateEnvironment env = None"
    and m: "\<forall>n \<in> fst ` set env. canonicalName ci n \<noteq> canonicalName ci m"
  shows "filter (names_var ci m) (mergeEnvironment inherited env ci) = filter (names_var ci m) inherited"
proof -
  have ok: "\<And>m. m \<in> fst ` set env \<Longrightarrow> CHR ''='' \<notin> set m"
    using valid by (auto simp: ValidateEnvironment_def check_names_None list_all_iff)
  have "filter (\<lambda>k. names_var ci m (env_entry k (the (map_of env k)))) (sort (map fst env)) = []"
    using m ok by (auto simp: filter_empty_conv names_var_def)
  moreover have "filter (names_var ci m)
      (filter (\<lambda>e. \<not> (CHR ''='' \<in> set e \<and> canonicalName ci (entry_name e) \<in> set (map (canonicalName ci \<circ> fst) env))) inherited)
      = filter (names_var ci m) inherited"
    unfolding filter_filter using m by (intro filter_cong) (auto simp: names_var_def)
  ultimately show ?thesis by (simp add: mergeEnvironment_def Let_def filter_map o_def)
qed

lemma Build_Inr:
  "Build windows inherited spec = Inr cmd \<Longrightarrow>
     ValidateEnvironment (c_env spec) = None \<and> x_env cmd = mergeEnvironment inherited (c_env spec) windows"
  by (auto simp: Build_def ValidateCommand_def bind_result_Inr split: if_splits option.splits)

text \<open>The environment of a started child is unambiguous.  Whatever the daemon inherited, the
  only entry the child reads for a configured variable is the configured one, compared without
  case on Windows and with case elsewhere, and every variable that is not configured has exactly
  the inherited entries in their order.\<close>

theorem Build_environment:
  assumes "Build windows inherited spec = Inr cmd"
  shows "(map_of (c_env spec) n = Some v \<longrightarrow> filter (names_var windows n) (x_env cmd) = [env_entry n v])
    \<and> ((\<forall>k \<in> fst ` set (c_env spec). canonicalName windows k \<noteq> canonicalName windows m) \<longrightarrow>
           filter (names_var windows m) (x_env cmd) = filter (names_var windows m) inherited)"
  using Build_Inr [OF assms] merged_configured merged_other by auto

definition sample_command :: command_spec where
  "sample_command = \<lparr>c_path = ''run.PS1'', c_args = [''x''], c_workdir = [], c_env = [(''Path'', ''b'')], c_interpreter = []\<rparr>"

theorem Build_environment_witness:
  "filter (names_var True ''Path'') (mergeEnvironment [''PATH=a'', ''TMP=c''] [(''Path'', ''b'')] True) = [''Path=b'']"
proof -
  have "Build True [''PATH=a'', ''TMP=c''] sample_command = Inr \<lparr>x_name = ''powershell.exe'',
      x_args = [''-NoLogo'', ''-NoProfile'', ''-NonInteractive'', ''-File'', ''run.PS1'', ''x''], x_dir = [],
      x_env = mergeEnvironment [''PATH=a'', ''TMP=c''] [(''Path'', ''b'')] True\<rparr>"
    by code_simp
  from Build_environment [OF this, of "''Path''" "''b''"] show ?thesis
    by (simp add: sample_command_def env_entry_def)
qed

text \<open>The interpreters that exist on a platform.\<close>

definition available :: "bool \<Rightarrow> string \<Rightarrow> bool" where
  "available windows i =
     (i \<in> {''direct'', ''powershell'', ''python''} \<or> windows \<and> i = ''cmd''
      \<or> \<not> windows \<and> i \<in> {''sh'', ''bash'', ''sh-inline''})"

lemma program_ok: "is_ok (program windows i spec) = available windows i"
  by (simp add: program_def available_def Let_def)

text \<open>\<open>Build\<close> fails exactly for a blank path, an invalid environment, or an interpreter that the
  platform does not have; the interpreter is the configured one up to case and white space, or the
  one the file extension stands for.\<close>

theorem Build_succeeds_iff:
  "is_ok (Build windows inherited spec) \<longleftrightarrow>
     trim_space (c_path spec) \<noteq> [] \<and> ValidateCommand spec = None
     \<and> available windows (interpreter_of windows spec)"
  using program_ok [of windows "interpreter_of windows spec" spec]
  by (cases "program windows (interpreter_of windows spec) spec") (auto simp: Build_def split: option.splits)

text \<open>The pipe and the redirections of \<^verbatim>\<open>cmd.exe\<close> are not among the characters that lead to quoting.\<close>

lemma quoteCMD_leaves_operators: "quoteCMD ''a|b>c<d'' = ''a|b>c<d''"
  by code_simp

end
