(* ===== verification/Jobs.thy ===== *)
theory Jobs
  imports Backup Launcher
begin

section \<open>Backup jobs\<close>

text \<open>
  Models \<^verbatim>\<open>internal/jobs/runner.go\<close>.  \<open>Run\<close> and \<open>finish\<close> hold the runner's lock and are single steps on the
  \<open>runner\<close> record; \<open>execute\<close> runs without the lock, so its effect is the value it hands to \<open>finish\<close>.
  What the operating system does with the process of a step is the record \<open>proc_run\<close>.  Instants are
  nanoseconds.  The run identifier of \<^verbatim>\<open>config.NewID\<close> is an argument.
\<close>

subsection \<open>One step\<close>

text \<open>
  \<open>pr_begin\<close> is the instant at which \<open>runStep\<close> looks at the deadline, \<open>pr_end\<close> the instant at which
  the process ends by itself; \<open>pr_code\<close> is the exit code it ends with, \<open>pr_killed\<close> the code it has
  when it is killed (-1 for a signal), \<open>pr_io\<close> the error of copying its output.
\<close>

record proc_run =
  pr_start_error :: "string option"
  pr_begin :: int
  pr_end :: int
  pr_code :: int
  pr_killed :: int
  pr_io :: "string option"

text \<open>\<^verbatim>\<open>cmd.Wait\<close> returns nil exactly when the process exits with status zero and its output was copied.\<close>

definition wait_error :: "int \<Rightarrow> string option \<Rightarrow> string option" where
  "wait_error code io = (if code \<noteq> 0 then Some (''exit status '' @ itoa code) else io)"

definition timed_out :: "int option \<Rightarrow> proc_run \<Rightarrow> bool" where
  "timed_out deadline r =
     (case deadline of None \<Rightarrow> False | Some d \<Rightarrow> d \<le> pr_begin r \<or> d < pr_end r)"

record outcome =
  oc_code :: int
  oc_success :: bool
  oc_message :: string

definition run_started :: "step \<Rightarrow> int option \<Rightarrow> int \<Rightarrow> proc_run \<Rightarrow> outcome" where
  "run_started step deadline timeoutSeconds r =
     (let timedOut = timed_out deadline r;
          code = (if timedOut then pr_killed r else pr_code r);
          waitErr = wait_error code (pr_io r);
          ok = (waitErr = None \<and> step_success (step_test step) code)
      in if timedOut then \<lparr>oc_code = code, oc_success = False,
             oc_message = ''timed out after '' @ itoa timeoutSeconds @ '' seconds''\<rparr>
         else (case waitErr of
             Some e \<Rightarrow> \<lparr>oc_code = code, oc_success = False, oc_message = e\<rparr>
           | None \<Rightarrow>
               if \<not> ok then \<lparr>oc_code = code, oc_success = False,
                   oc_message = ''step '' @ step_name step @ '' failed with exit code '' @ itoa code\<rparr>
               else \<lparr>oc_code = code, oc_success = True, oc_message = []\<rparr>))"

definition runStep :: "bool \<Rightarrow> string list \<Rightarrow> step \<Rightarrow> int option \<Rightarrow> int \<Rightarrow> proc_run \<Rightarrow> outcome" where
  "runStep windows inherited step deadline timeoutSeconds r =
     (case Launcher.Build windows inherited (step_command step) of
        Inl e \<Rightarrow> \<lparr>oc_code = - 1, oc_success = False, oc_message = e\<rparr>
      | Inr cmd \<Rightarrow>
          (case pr_start_error r of
             Some e \<Rightarrow> \<lparr>oc_code = - 1, oc_success = False, oc_message = e\<rparr>
           | None \<Rightarrow> run_started step deadline timeoutSeconds r))"

subsection \<open>One run\<close>

definition planFor :: "bool \<Rightarrow> job_definition \<Rightarrow> (string, plan) result" where
  "planFor windows def =
     (if j_type def = JobBackup then
        (case j_backup def of
           None \<Rightarrow> Inl ''backup job has no backup specification''
         | Some b \<Rightarrow> BuildPlan windows b)
      else Inl (''unsupported job type '' @ quoted (j_type def)))"

text \<open>The loop over the steps: the headings it has written to the log and the outcome of the last
  step it ran.  \<open>procs i\<close> is what happens to the process of step \<open>i\<close>.\<close>

definition step_heading :: "nat \<Rightarrow> nat \<Rightarrow> step \<Rightarrow> string" where
  "step_heading i n s = ''=== Step '' @ itoa (int i + 1) @ ''/'' @ itoa (int n) @ '': '' @ step_name s @ '' ===''"

fun run_steps :: "(step \<Rightarrow> nat \<Rightarrow> outcome) \<Rightarrow> nat \<Rightarrow> nat \<Rightarrow> step list \<Rightarrow> outcome \<Rightarrow> string list \<times> outcome" where
  "run_steps exec n i [] oc0 = ([], oc0)"
| "run_steps exec n i (s # rest) oc0 =
     (let oc = exec s i
      in if \<not> oc_success oc then ([step_heading i n s], oc)
         else (let (lines, oc') = run_steps exec n (i + 1) rest oc in (step_heading i n s # lines, oc')))"

definition deadline_of :: "job_definition \<Rightarrow> int \<Rightarrow> int option" where
  "deadline_of def started =
     (if 0 < j_timeout def then Some (started + wrap64 (j_timeout def * 10 ^ 9)) else None)"

text \<open>\<open>log_error\<close> is the error of creating the log file, if any.  The result is the log's own lines
  (without the output of the steps) and the outcome passed to \<open>finish\<close>.\<close>

definition execute :: "bool \<Rightarrow> string list \<Rightarrow> job_definition \<Rightarrow> int \<Rightarrow> string option \<Rightarrow> (nat \<Rightarrow> proc_run)
    \<Rightarrow> string list \<times> outcome" where
  "execute windows inherited def started log_error procs =
     (case log_error of
        Some e \<Rightarrow> ([], \<lparr>oc_code = - 1, oc_success = False, oc_message = e\<rparr>)
      | None \<Rightarrow>
          (case planFor windows def of
             Inl e \<Rightarrow> ([e], \<lparr>oc_code = - 1, oc_success = False, oc_message = e\<rparr>)
           | Inr plan \<Rightarrow>
               (let (lines, oc) = run_steps
                      (\<lambda>s i. runStep windows inherited s (deadline_of def started) (j_timeout def) (procs i))
                      (length (plan_steps plan)) 0 (plan_steps plan)
                      \<lparr>oc_code = - 1, oc_success = True, oc_message = []\<rparr>
                in ((if j_type def = JobBackup then [''=== Backup: '' @ plan_provider plan @ '' ===''] else []) @ lines, oc))))"

subsection \<open>The runner\<close>

record job_status =
  js_id :: string
  js_name :: string
  js_running :: bool
  js_current :: string
  js_last_run :: "int option"
  js_last_code :: "int option"
  js_last_success :: "bool option"

definition no_status :: job_status where
  "no_status = \<lparr>js_id = [], js_name = [], js_running = False, js_current = [], js_last_run = None,
     js_last_code = None, js_last_success = None\<rparr>"

record runner =
  rn_active :: "string table"
  rn_status :: "job_status table"

definition New :: runner where
  "New = \<lparr>rn_active = [], rn_status = []\<rparr>"

definition status_of :: "runner \<Rightarrow> string \<Rightarrow> job_status" where
  "status_of r jid = (case map_of (rn_status r) jid of None \<Rightarrow> no_status | Some st \<Rightarrow> st)"

definition begin_run :: "job_definition \<Rightarrow> string \<Rightarrow> runner \<Rightarrow> runner" where
  "begin_run def runID r =
     r\<lparr>rn_active := AList.update (j_id def) runID (rn_active r),
       rn_status := AList.update (j_id def) ((status_of r (j_id def))\<lparr>js_id := j_id def,
         js_name := j_name def, js_running := True, js_current := runID\<rparr>) (rn_status r)\<rparr>"

definition Run :: "job_definition \<Rightarrow> string \<Rightarrow> runner \<Rightarrow> (string, string) result \<times> runner" where
  "Run def0 newID r =
     (let def = NormalizeJob def0
      in case map_of (rn_active r) (j_id def) of
           None \<Rightarrow> (Inr newID, begin_run def newID r)
         | Some current \<Rightarrow>
             if j_overlap def \<noteq> ''allow'' then
               (Inl (''job '' @ quoted (j_name def) @ '' is already running as '' @ current), r)
             else (Inr newID, begin_run def newID r))"

definition finish :: "job_definition \<Rightarrow> int \<Rightarrow> outcome \<Rightarrow> runner \<Rightarrow> runner" where
  "finish def started oc r =
     r\<lparr>rn_active := AList.delete (j_id def) (rn_active r),
       rn_status := AList.update (j_id def) ((status_of r (j_id def))\<lparr>js_id := j_id def, js_name := j_name def,
          js_running := False, js_current := [], js_last_run := Some started,
          js_last_code := Some (oc_code oc), js_last_success := Some (oc_success oc)\<rparr>) (rn_status r)\<rparr>"

text \<open>\<^verbatim>\<open>sort.Slice\<close> is not stable; the order of views with the same name is one that it may produce.\<close>

definition Views :: "runner \<Rightarrow> job_definition list \<Rightarrow> (job_definition \<times> job_status) list" where
  "Views r defs =
     sort_key (\<lambda>v. j_name (fst v))
       (map (\<lambda>def. (def, (status_of r (j_id def))\<lparr>js_id := j_id def, js_name := j_name def\<rparr>)) defs)"

subsection \<open>Properties of a run\<close>

lemma run_started_success:
  "oc_success (run_started step d t r) \<longleftrightarrow> \<not> timed_out d r \<and> pr_code r = 0 \<and> pr_io r = None"
  by (cases "step_test step")
    (auto simp: run_started_def wait_error_def step_success_def exitZero_def ExitCodeSuccess_def Let_def split: option.splits)

text \<open>C8: A step is successful exactly when its command could be built and started, it ended within the
  deadline of the job, and its process exited with status zero and without an error on its output.  The
  success test of the step makes no difference: a Robocopy exit code from 1 to 7, which
  \<open>ExitCodeSuccess\<close> accepts, is reported as a failure.\<close>

theorem runStep_success_iff:
  "oc_success (runStep windows inherited step deadline timeout r) \<longleftrightarrow>
     is_ok (Launcher.Build windows inherited (step_command step)) \<and> pr_start_error r = None
     \<and> \<not> timed_out deadline r \<and> pr_code r = 0 \<and> pr_io r = None"
  by (simp add: runStep_def run_started_success is_ok_def split: sum.splits option.splits)

lemma robocopy_copied_is_failure:
  "ExitCodeSuccess 1 \<and> \<not> oc_success (run_started \<lparr>step_name = ''backup'',
     step_command = direct_command ''robocopy.exe'' [], step_test = RobocopyExit\<rparr> None 0
     \<lparr>pr_start_error = None, pr_begin = 0, pr_end = 1, pr_code = 1, pr_killed = - 1, pr_io = None\<rparr>)"
  by (simp add: run_started_success ExitCodeSuccess_def)

text \<open>The steps that ran, with their positions: up to the first that failed, and that one.\<close>

definition steps_run :: "(step \<Rightarrow> nat \<Rightarrow> outcome) \<Rightarrow> nat \<Rightarrow> step list \<Rightarrow> (step \<times> nat) list" where
  "steps_run exec i ss =
     (let xs = zip ss [i..<i + length ss]
      in take (Suc (length (takeWhile (\<lambda>(s, k). oc_success (exec s k)) xs))) xs)"

lemma steps_run_simps [simp]:
  "steps_run exec i [] = []"
  "steps_run exec i (s # ss) = (s, i) # (if oc_success (exec s i) then steps_run exec (Suc i) ss else [])"
  by (simp_all add: steps_run_def upt_conv_Cons Let_def del: upt_Suc)

lemma run_steps_eq:
  "run_steps exec n i ss oc0 =
     (map (\<lambda>(s, k). step_heading k n s) (steps_run exec i ss),
      if ss = [] then oc0 else (case last (steps_run exec i ss) of (s, k) \<Rightarrow> exec s k))"
proof (induction ss arbitrary: i oc0)
  case (Cons s ss)
  then show ?case by (cases ss) (simp_all add: Let_def)
qed simp

lemma run_steps_success:
  "oc_success (snd (run_steps exec n i ss oc0)) \<longleftrightarrow>
     (if ss = [] then oc_success oc0 else (\<forall>k < length ss. oc_success (exec (ss ! k) (i + k))))"
proof (induction ss arbitrary: i oc0)
  case (Cons s ss)
  have all_Suc: "(\<forall>k < length (s # ss). oc_success (exec ((s # ss) ! k) (i + k))) \<longleftrightarrow>
      oc_success (exec s i) \<and> (\<forall>k < length ss. oc_success (exec (ss ! k) (Suc i + k)))"
    by (auto simp: less_Suc_eq_0_disj)
  show ?case
    using Cons.IH [of "Suc i" "exec s i"] unfolding all_Suc
    by (cases "oc_success (exec s i)") (auto simp: Let_def case_prod_unfold split: if_splits)
qed simp

definition step_outcome :: "bool \<Rightarrow> string list \<Rightarrow> job_definition \<Rightarrow> int \<Rightarrow> (nat \<Rightarrow> proc_run) \<Rightarrow> step \<Rightarrow> nat \<Rightarrow> outcome" where
  "step_outcome windows inherited def started procs =
     (\<lambda>s i. runStep windows inherited s (deadline_of def started) (j_timeout def) (procs i))"

lemma planFor_steps: "planFor windows def = Inr plan \<Longrightarrow> plan_steps plan \<noteq> []"
proof -
  assume "planFor windows def = Inr plan"
  then obtain s p where "provider_validate windows p s = None" "provider_plan windows p s = Inr plan"
    by (auto simp: planFor_def BuildPlan_def Let_def bind_result_Inr split: if_splits option.splits)
  then show ?thesis using valid_provider_plans [of windows p s] by auto
qed

text \<open>A job runs the steps of its plan in order up to and including the first that fails, the log has
  the heading of exactly those, and the job succeeds exactly when every step of the plan succeeded;
  then its exit code is zero and it has no message.\<close>

theorem execute_runs_plan:
  assumes plan: "planFor windows def = Inr plan"
  shows "(let exec = step_outcome windows inherited def started procs;
              ran = steps_run exec 0 (plan_steps plan);
              (lines, oc) = execute windows inherited def started None procs
          in (\<exists>banner. lines = banner @ map (\<lambda>(s, k). step_heading k (length (plan_steps plan)) s) ran)
             \<and> oc = (case last ran of (s, k) \<Rightarrow> exec s k)
             \<and> (oc_success oc \<longleftrightarrow> (\<forall>k < length (plan_steps plan). oc_success (exec (plan_steps plan ! k) k)))
             \<and> (oc_success oc \<longrightarrow> oc_code oc = 0 \<and> oc_message oc = []))"
proof -
  let ?exec = "step_outcome windows inherited def started procs"
  let ?n = "length (plan_steps plan)"
  let ?oc0 = "\<lparr>oc_code = - 1, oc_success = True, oc_message = []\<rparr>"
  have steps: "plan_steps plan \<noteq> []" using plan by (rule planFor_steps)
  have ex: "snd (execute windows inherited def started None procs) = snd (run_steps ?exec ?n 0 (plan_steps plan) ?oc0)"
    "\<exists>banner. fst (execute windows inherited def started None procs)
       = banner @ fst (run_steps ?exec ?n 0 (plan_steps plan) ?oc0)"
    using plan by (simp_all add: execute_def step_outcome_def case_prod_unfold Let_def)
  have ok: "oc_success (?exec s k) \<Longrightarrow> oc_code (?exec s k) = 0 \<and> oc_message (?exec s k) = []" for s k
    by (auto simp: step_outcome_def runStep_def run_started_def wait_error_def Let_def
        split: sum.splits option.splits if_splits)
  have last: "snd (run_steps ?exec ?n 0 (plan_steps plan) ?oc0) = (case last (steps_run ?exec 0 (plan_steps plan)) of (s, k) \<Rightarrow> ?exec s k)"
    using steps by (simp add: run_steps_eq)
  from ex ok last steps run_steps_success [of ?exec ?n 0 "plan_steps plan" ?oc0]
  show ?thesis by (auto simp: Let_def case_prod_unfold run_steps_eq)
qed


definition sample_restic :: job_definition where
  "sample_restic = sample_job\<lparr>j_timeout := 60, j_backup := Some sample_restic_backup\<rparr>"

definition sample_proc :: "nat \<Rightarrow> proc_run" where
  "sample_proc i = \<lparr>pr_start_error = None, pr_begin = 0, pr_end = 1, pr_code = 0, pr_killed = - 1, pr_io = None\<rparr>"

lemma sample_restic_plan: "\<exists>plan. planFor False sample_restic = Inr plan \<and> length (plan_steps plan) = 2"
proof -
  have "case planFor False sample_restic of Inl e \<Rightarrow> False | Inr plan \<Rightarrow> length (plan_steps plan) = 2"
    by code_simp
  then show ?thesis by (auto split: sum.splits)
qed

theorem execute_runs_plan_witness:
  "\<exists>plan. planFor False sample_restic = Inr plan \<and> length (plan_steps plan) = 2 \<and>
     (oc_success (snd (execute False [] sample_restic 0 None sample_proc)) \<longleftrightarrow>
       (\<forall>k < 2. oc_success (step_outcome False [] sample_restic 0 sample_proc (plan_steps plan ! k) k)))"
proof -
  from sample_restic_plan obtain plan where "planFor False sample_restic = Inr plan" "length (plan_steps plan) = 2"
    by blast
  with execute_runs_plan [OF this(1), of "[]" 0 sample_proc] show ?thesis
    by (auto simp: Let_def case_prod_unfold)
qed

subsection \<open>Runs in parallel\<close>

text \<open>
  The runner together with the executions that are in flight (the goroutines of \<open>execute\<close>).  \<open>JRun\<close>
  is a call of \<open>Run\<close>, \<open>JFinish\<close> the end of one of the executions; they may come in any order.
\<close>

record job_system =
  jy_runner :: runner
  jy_flight :: "(job_definition \<times> string) list"

datatype job_event = JRun job_definition string | JFinish nat int outcome

fun job_step :: "job_event \<Rightarrow> job_system \<Rightarrow> job_system" where
  "job_step (JRun def runID) y =
     (case Run def runID (jy_runner y) of
        (Inl e, _) \<Rightarrow> y
      | (Inr started, r) \<Rightarrow> \<lparr>jy_runner = r, jy_flight = jy_flight y @ [(NormalizeJob def, started)]\<rparr>)"
| "job_step (JFinish k started oc) y =
     (if k < length (jy_flight y) then
        \<lparr>jy_runner = finish (fst (jy_flight y ! k)) started oc (jy_runner y),
         jy_flight = take k (jy_flight y) @ drop (Suc k) (jy_flight y)\<rparr>
      else y)"

definition flights :: "string \<Rightarrow> job_system \<Rightarrow> string list" where
  "flights jid y = map snd (filter (\<lambda>(def, _). j_id def = jid) (jy_flight y))"

text \<open>The job \<open>jid\<close> is never asked to overlap.\<close>

fun no_overlap_event :: "string \<Rightarrow> job_event \<Rightarrow> bool" where
  "no_overlap_event jid (JRun def _) = (j_id def = jid \<longrightarrow> j_overlap def \<noteq> ''allow'')"
| "no_overlap_event jid (JFinish _ _ _) = True"

definition single_inv :: "string \<Rightarrow> job_system \<Rightarrow> bool" where
  "single_inv jid y =
     (length (flights jid y) \<le> 1
      \<and> map_of (rn_active (jy_runner y)) jid = (case flights jid y of [] \<Rightarrow> None | i # _ \<Rightarrow> Some i)
      \<and> js_running (status_of (jy_runner y) jid) = (flights jid y \<noteq> [])
      \<and> js_current (status_of (jy_runner y) jid) = (case flights jid y of [] \<Rightarrow> [] | i # _ \<Rightarrow> i))"

lemma NormalizeJob_fields [simp]:
  "j_id (NormalizeJob d) = j_id d" "j_name (NormalizeJob d) = j_name d"
  "j_overlap (NormalizeJob d) = (if j_overlap d = [] then ''skip'' else j_overlap d)"
  by (simp_all add: NormalizeJob_def Let_def)

lemma status_of_begin:
  "status_of (begin_run d i r) jid =
     (if jid = j_id d then (status_of r jid)\<lparr>js_id := j_id d, js_name := j_name d, js_running := True, js_current := i\<rparr>
      else status_of r jid)"
  by (simp add: begin_run_def status_of_def table_simps)

lemma status_of_finish:
  "status_of (finish d t oc r) jid =
     (if jid = j_id d then (status_of r jid)\<lparr>js_id := j_id d, js_name := j_name d, js_running := False,
         js_current := [], js_last_run := Some t, js_last_code := Some (oc_code oc), js_last_success := Some (oc_success oc)\<rparr>
      else status_of r jid)"
  by (simp add: finish_def status_of_def table_simps)

lemma active_begin: "map_of (rn_active (begin_run d i r)) jid = (if jid = j_id d then Some i else map_of (rn_active r) jid)"
  by (simp add: begin_run_def table_simps)

lemma active_finish: "map_of (rn_active (finish d t oc r)) jid = (if jid = j_id d then None else map_of (rn_active r) jid)"
  by (simp add: finish_def table_simps)

lemma filter_split_nth:
  "k < length xs \<Longrightarrow> filter P xs = filter P (take k xs) @ (if P (xs ! k) then [xs ! k] else []) @ filter P (drop (Suc k) xs)"
  by (subst id_take_nth_drop [of k xs]) simp_all

lemma flights_finish_same:
  assumes "k < length (jy_flight y)" "j_id (fst (jy_flight y ! k)) = jid" "length (flights jid y) \<le> 1"
  shows "flights jid (job_step (JFinish k t oc) y) = []"
  using assms filter_split_nth [of k "jy_flight y" "\<lambda>(def, _). j_id def = jid"]
  by (auto simp: flights_def case_prod_unfold)

lemma flights_finish_other:
  assumes "k < length (jy_flight y)" "j_id (fst (jy_flight y ! k)) \<noteq> jid"
  shows "flights jid (job_step (JFinish k t oc) y) = flights jid y"
  using assms filter_split_nth [of k "jy_flight y" "\<lambda>(def, _). j_id def = jid"]
  by (auto simp: flights_def case_prod_unfold)

lemma single_inv_finish:
  assumes "single_inv jid y"
  shows "single_inv jid (job_step (JFinish k t oc) y)"
proof (cases "k < length (jy_flight y)")
  case True
  show ?thesis
  proof (cases "j_id (fst (jy_flight y ! k)) = jid")
    case same: True
    with assms True flights_finish_same [OF True same] show ?thesis
      by (simp add: single_inv_def status_of_finish active_finish)
  next
    case False
    with assms True flights_finish_other [OF True False] show ?thesis
      by (simp add: single_inv_def status_of_finish active_finish)
  qed
qed (use assms in simp)

lemma single_inv_run:
  assumes inv: "single_inv jid y" and ok: "no_overlap_event jid (JRun d i)"
  shows "single_inv jid (job_step (JRun d i) y)"
proof -
  have flown: "flights jid \<lparr>jy_runner = r, jy_flight = jy_flight y @ [(NormalizeJob d, s)]\<rparr>
      = flights jid y @ (if j_id d = jid then [s] else [])" for r s
    by (simp add: flights_def)
  show ?thesis
  proof (cases "j_id d = jid")
    case True
    with inv ok show ?thesis
      by (cases "flights jid y")
        (auto simp: single_inv_def Run_def Let_def flown status_of_begin active_begin)
  next
    case False
    with inv show ?thesis
      by (auto simp: single_inv_def Run_def Let_def flown status_of_begin active_begin split: option.splits)
  qed
qed

interpretation single_run: guarded_machine job_step "\<lambda>e _. no_overlap_event jid e" "single_inv jid" for jid
proof
  fix y e
  assume "single_inv jid y" "no_overlap_event jid e"
  then show "single_inv jid (job_step e y)"
    by (cases e) (simp_all only: single_inv_run single_inv_finish)
qed


definition job_start :: job_system where
  "job_start = \<lparr>jy_runner = New, jy_flight = []\<rparr>"

text \<open>C9: A job whose overlap policy never is \<open>allow\<close> has at most one execution in flight at any time,
  however calls of \<open>Run\<close> and ends of executions interleave and whatever other jobs do; and the
  status shown for it is exact: it is running exactly when an execution is in flight, under that run
  identifier.\<close>

theorem one_run_per_job:
  assumes "admissible job_step (\<lambda>e _. no_overlap_event jid e) es job_start"
  shows "length (flights jid (run job_step es job_start)) \<le> 1
    \<and> js_running (status_of (jy_runner (run job_step es job_start)) jid) = (flights jid (run job_step es job_start) \<noteq> [])
    \<and> (flights jid (run job_step es job_start) = [i] \<longrightarrow>
         js_current (status_of (jy_runner (run job_step es job_start)) jid) = i)"
proof -
  have "single_inv jid job_start"
    by (simp add: single_inv_def job_start_def flights_def New_def status_of_def no_status_def)
  from single_run.run_inv [OF this assms] show ?thesis by (simp add: single_inv_def)
qed

theorem one_run_per_job_witness:
  "(let y = run job_step [JRun sample_job ''r1'', JRun sample_job ''r2''] job_start
    in flights ''j'' y = [''r1''] \<and> js_running (status_of (jy_runner y) ''j''))"
proof -
  let ?es = "[JRun sample_job ''r1'', JRun sample_job ''r2'']"
  have adm: "admissible job_step (\<lambda>e _. no_overlap_event ''j'' e) ?es job_start" by code_simp
  have fl: "flights ''j'' (run job_step ?es job_start) = [''r1'']" by code_simp
  from one_run_per_job [OF adm] fl show ?thesis by (simp add: Let_def)
qed

text \<open>With the policy \<open>allow\<close>, the end of one execution clears the job although another one is still in
  flight.\<close>

lemma allow_forgets_running:
  "(let d = sample_job\<lparr>j_overlap := ''allow''\<rparr>;
        y = run job_step [JRun d ''r1'', JRun d ''r2'', JFinish 0 0 \<lparr>oc_code = 0, oc_success = True, oc_message = []\<rparr>] job_start
    in flights ''j'' y = [''r2''] \<and> \<not> js_running (status_of (jy_runner y) ''j'')
       \<and> map_of (rn_active (jy_runner y)) ''j'' = None)"
  by code_simp

end
