(* ===== verification/Calendar.thy ===== *)
theory Calendar
  imports Prelude
begin

section \<open>Civil time\<close>

text \<open>
  What the scheduler uses of Go's \<^verbatim>\<open>time\<close> package.  An instant is an \<open>int\<close>, nanoseconds or (where
  the name says so) seconds since 1970-01-01T00:00:00Z.  A \<^verbatim>\<open>time.Location\<close> is the function from an
  instant in seconds to the offset of local time in seconds.  The calendar is the proleptic
  Gregorian one, in closed form on years that start in March.
\<close>

type_synonym location = "int \<Rightarrow> int"

definition days_from_civil :: "int \<Rightarrow> int \<Rightarrow> int \<Rightarrow> int" where
  "days_from_civil y m d =
     (let y' = (if m \<le> 2 then y - 1 else y);
          mp = (if 2 < m then m - 3 else m + 9)
      in 365 * y' + y' div 4 - y' div 100 + y' div 400 + (153 * mp + 2) div 5 + d - 1 - 719468)"

text \<open>A year count inside 400 years, and the day in that year, from the day inside 400 years: the last
  century and the last year of four have one more day.\<close>

definition year_of_era :: "int \<Rightarrow> int \<times> int" where
  "year_of_era doe =
     (let c = min 3 (doe div 36524); r1 = doe - 36524 * c;
          q = r1 div 1461; r2 = r1 - 1461 * q;
          n = min 3 (r2 div 365)
      in (100 * c + 4 * q + n, r2 - 365 * n))"

definition civil_from_days :: "int \<Rightarrow> int \<times> int \<times> int" where
  "civil_from_days z0 =
     (let z = z0 + 719468;
          (yoe, doy) = year_of_era (z mod 146097);
          mp = (5 * doy + 2) div 153;
          m = (if mp < 10 then mp + 3 else mp - 9)
      in (400 * (z div 146097) + yoe + (if m \<le> 2 then 1 else 0), m, doy - (153 * mp + 2) div 5 + 1))"

record civil =
  cv_year :: int
  cv_month :: int
  cv_day :: int
  cv_hour :: int
  cv_minute :: int
  cv_second :: int
  cv_weekday :: int

text \<open>The fields of an instant in a location (\<^verbatim>\<open>t.In(loc).Year()\<close> and so on; Sunday is 0).\<close>

definition civil_of :: "location \<Rightarrow> int \<Rightarrow> civil" where
  "civil_of loc sec =
     (let l = sec + loc sec; days = l div 86400; tod = l mod 86400;
          (y, m, d) = civil_from_days days
      in \<lparr>cv_year = y, cv_month = m, cv_day = d, cv_hour = tod div 3600, cv_minute = tod mod 3600 div 60,
          cv_second = tod mod 60, cv_weekday = (days + 4) mod 7\<rparr>)"

text \<open>
  \<^verbatim>\<open>time.Date\<close> in seconds: the offset is looked up at the civil time taken as UTC, and looked up
  again at the instant which that offset gives.  A day out of the month's range carries over.
\<close>

definition time_date :: "location \<Rightarrow> int \<Rightarrow> int \<Rightarrow> int \<Rightarrow> int \<Rightarrow> int \<Rightarrow> int \<Rightarrow> int" where
  "time_date loc y m d h mi s =
     (let unix = days_from_civil y m d * 86400 + h * 3600 + mi * 60 + s;
          off = loc unix
      in if off = 0 then unix else unix - loc (unix - off))"

text \<open>\<^verbatim>\<open>t.AddDate(years, 0, days)\<close> of an instant in seconds.\<close>

definition add_date :: "location \<Rightarrow> int \<Rightarrow> int \<Rightarrow> int \<Rightarrow> int" where
  "add_date loc years days sec =
     (let c = civil_of loc sec
      in time_date loc (cv_year c + years) (cv_month c) (cv_day c + days) (cv_hour c) (cv_minute c) (cv_second c))"

text \<open>A location whose offsets stay within a day of UTC.\<close>

definition sane_location :: "location \<Rightarrow> bool" where
  "sane_location loc = (\<forall>t. \<bar>loc t\<bar> < 86400)"

subsection \<open>The calendar is consistent\<close>

lemma min3_rest:
  fixes x k :: int
  assumes "0 \<le> x" "x \<le> 4 * k" "0 < k"
  shows "0 \<le> x - k * min 3 (x div k) \<and> x - k * min 3 (x div k) \<le> k \<and> 0 \<le> min 3 (x div k)"
proof (cases "3 \<le> x div k")
  case True
  then have "3 * k \<le> x"
    using assms mult_right_mono [of 3 "x div k" k] div_mult_mod_eq [of x k] pos_mod_sign [of k x] by linarith
  with True assms show ?thesis by (simp add: min_def)
next
  case False
  have "x - k * (x div k) = x mod k" by (simp add: minus_mult_div_eq_mod)
  moreover have "x mod k \<le> k" using pos_mod_bound [of k x] assms by linarith
  ultimately have "x - k * (x div k) = x mod k" "x mod k \<le> k" by auto
  with False assms pos_mod_bound [of k x] pos_mod_sign [of k x] show ?thesis
    by (simp add: min_def pos_imp_zdiv_nonneg_iff)
qed

lemma year_of_era_parts:
  fixes doe :: int
  assumes "0 \<le> doe" "doe < 146097"
  obtains c q n where "year_of_era doe = (100 * c + 4 * q + n, doe - 36524 * c - 1461 * q - 365 * n)"
    "0 \<le> c" "c \<le> 3" "0 \<le> q" "q \<le> 24" "0 \<le> n" "n \<le> 3"
    "0 \<le> doe - 36524 * c - 1461 * q - 365 * n" "doe - 36524 * c - 1461 * q - 365 * n \<le> 365"
proof -
  define c where "c = min 3 (doe div 36524)"
  define r1 where "r1 = doe - 36524 * c"
  define q where "q = r1 div 1461"
  define r2 where "r2 = r1 - 1461 * q"
  define n where "n = min 3 (r2 div 365)"
  have c: "0 \<le> c" "c \<le> 3" "0 \<le> r1" "r1 \<le> 36524"
    using min3_rest [of doe 36524] assms unfolding r1_def c_def by auto
  have q: "0 \<le> q" "q \<le> 24" using c(3,4) unfolding q_def by linarith+
  have r2: "r2 = r1 mod 1461" unfolding r2_def q_def by (simp add: minus_mult_div_eq_mod)
  have r2b: "0 \<le> r2" "r2 \<le> 1460" unfolding r2 using pos_mod_bound [of 1461 r1] by simp_all
  have n: "n \<le> 3" "0 \<le> n" "0 \<le> r2 - 365 * n" "r2 - 365 * n \<le> 365"
    using min3_rest [of r2 365] r2b unfolding n_def by auto
  have "year_of_era doe = (100 * c + 4 * q + n, r2 - 365 * n)"
    unfolding year_of_era_def Let_def c_def r1_def q_def r2_def n_def by (rule refl)
  with c q n show ?thesis by (intro that [of c q n]) (simp_all add: r2_def r1_def)
qed

lemma days_of_era:
  fixes E c q n doy :: int
  assumes b: "0 \<le> c" "c \<le> 3" "0 \<le> q" "q \<le> 24" "0 \<le> n" "n \<le> 3"
    and y: "y = 400 * E + (100 * c + 4 * q + n)"
  shows "365 * y + y div 4 - y div 100 + y div 400 = 146097 * E + 36524 * c + 1461 * q + 365 * n"
proof -
  have "y div 4 = 100 * E + 25 * c + q" "y div 100 = 4 * E + c" "y div 400 = E"
    using b unfolding y by linarith+
  then show ?thesis unfolding y by simp
qed

lemma month_day_back:
  fixes doy y :: int
  assumes doy: "0 \<le> doy" "doy \<le> 365" and mp: "mp = (5 * doy + 2) div 153"
    and m: "m = (if mp < 10 then mp + 3 else mp - 9)"
  shows "days_from_civil (y + (if m \<le> 2 then 1 else 0)) m (doy - (153 * mp + 2) div 5 + 1)
     = 365 * y + y div 4 - y div 100 + y div 400 + doy - 719468"
proof -
  have "0 \<le> mp" "mp \<le> 11" using doy unfolding mp by linarith+
  then show ?thesis by (auto simp: days_from_civil_def m Let_def)
qed

lemma days_civil_roundtrip: "(case civil_from_days z of (y, m, d) \<Rightarrow> days_from_civil y m d) = z"
proof -
  define E where "E = (z + 719468) div 146097"
  define doe where "doe = (z + 719468) mod 146097"
  have z: "z + 719468 = 146097 * E + doe" unfolding E_def doe_def by simp
  have doe: "0 \<le> doe" "doe < 146097" unfolding doe_def by simp_all
  obtain c q n where p: "year_of_era doe = (100 * c + 4 * q + n, doe - 36524 * c - 1461 * q - 365 * n)"
    and b: "0 \<le> c" "c \<le> 3" "0 \<le> q" "q \<le> 24" "0 \<le> n" "n \<le> 3"
    and doy: "0 \<le> doe - 36524 * c - 1461 * q - 365 * n" "doe - 36524 * c - 1461 * q - 365 * n \<le> 365"
    by (rule year_of_era_parts [OF doe])
  have "civil_from_days z =
     (let mp = (5 * (doe - 36524 * c - 1461 * q - 365 * n) + 2) div 153; m = (if mp < 10 then mp + 3 else mp - 9)
      in (400 * E + (100 * c + 4 * q + n) + (if m \<le> 2 then 1 else 0), m,
          (doe - 36524 * c - 1461 * q - 365 * n) - (153 * mp + 2) div 5 + 1))"
    unfolding civil_from_days_def Let_def E_def [symmetric] doe_def [symmetric] p by simp
  then show ?thesis
    unfolding Let_def using z days_of_era [OF b refl, of E] month_day_back [OF doy refl refl, of "400 * E + (100 * c + 4 * q + n)"]
    by (simp only: prod.case)
qed

lemma civil_month_range: "civil_from_days z = (y, m, d) \<Longrightarrow> 1 \<le> m \<and> m \<le> 12"
proof -
  assume c: "civil_from_days z = (y, m, d)"
  have doe: "0 \<le> (z + 719468) mod 146097" "(z + 719468) mod 146097 < 146097" by simp_all
  obtain yoe doy where p: "year_of_era ((z + 719468) mod 146097) = (yoe, doy)" "0 \<le> doy" "doy \<le> 365"
    by (rule year_of_era_parts [OF doe]) blast
  have "0 \<le> (5 * doy + 2) div 153" "(5 * doy + 2) div 153 \<le> 11" using p(2,3) by linarith+
  then show ?thesis using c p(1) by (auto simp: civil_from_days_def Let_def split: if_splits)
qed

lemma days_from_civil_next_day: "days_from_civil y m (d + k) = days_from_civil y m d + k"
  by (simp add: days_from_civil_def Let_def)

lemma days_from_civil_next_year: "days_from_civil y m d + 365 \<le> days_from_civil (y + 1) m d"
proof -
  have mono: "y' div 4 - y' div 100 + y' div 400 \<le> (y' + 1) div 4 - (y' + 1) div 100 + (y' + 1) div 400" for y' :: int
  proof -
    have m4: "y' div 4 \<le> (y' + 1) div 4" and m400: "y' div 400 \<le> (y' + 1) div 400" by linarith+
    show ?thesis
    proof (cases "(y' + 1) mod 100 = 0")
      case True
      then have "y' + 1 = 100 * ((y' + 1) div 100)"
        using div_mult_mod_eq [of "y' + 1" 100] by simp
      then obtain a where a: "y' + 1 = 100 * a" by blast
      then have "y' = 100 * a - 1" by simp
      then have "y' div 4 = 25 * a - 1" "(y' + 1) div 4 = 25 * a" "y' div 100 = a - 1" "(y' + 1) div 100 = a"
        by linarith+
      with m400 show ?thesis by linarith
    next
      case False
      then obtain a r where a: "y' + 1 = 100 * a + r" "0 < r" "r < 100"
        using div_mult_mod_eq [of "y' + 1" 100] pos_mod_bound [of 100 "y' + 1"] pos_mod_sign [of 100 "y' + 1"]
        by (metis mult.commute order_le_less zero_less_numeral)
      then have "y' = 100 * a + (r - 1)" by simp
      with a have "(y' + 1) div 100 = a" "y' div 100 = a" by linarith+
      with m4 m400 show ?thesis by simp
    qed
  qed
  show ?thesis using mono [of y] mono [of "y - 1"] by (simp add: days_from_civil_def Let_def)
qed

end
