(* ===== verification/Schedule.thy ===== *)
theory Schedule
  imports Calendar Model
begin

section \<open>Schedules\<close>

text \<open>
  Models the schedule compiler of \<^verbatim>\<open>internal/scheduler/scheduler.go\<close>: times of day, cron expressions,
  the schedule expression and the function that gives the next instant to fire.  The time zone
  database is the record \<open>zones\<close>: \<open>zn_load\<close> is \<^verbatim>\<open>time.LoadLocation\<close> (with its error text), \<open>zn_local\<close>
  is \<^verbatim>\<open>time.Local\<close>.  Instants are nanoseconds since 1970; \<open>sec_of\<close> is the second an instant is in.
\<close>

record zones =
  zn_load :: "string \<Rightarrow> (string, location) result"
  zn_local :: location

definition nanos :: int where
  "nanos = 10 ^ 9"

definition sec_of :: "int \<Rightarrow> int" where
  "sec_of t = t div nanos"

subsection \<open>Times of day\<close>

definition parseTimeOfDay :: "string \<Rightarrow> (string, int \<times> int) result" where
  "parseTimeOfDay v =
     (case split_on (CHR '':'') (trim_space v) of
        [a, b] \<Rightarrow>
          (case (atoi a, atoi b) of
             (Some h, Some m) \<Rightarrow>
               if h < 0 \<or> 23 < h \<or> m < 0 \<or> 59 < m then Inl (''invalid timeOfDay '' @ quoted v) else Inr (h, m)
           | _ \<Rightarrow> Inl (''invalid timeOfDay '' @ quoted v))
      | _ \<Rightarrow> Inl ''timeOfDay must use HH:MM'')"

subsection \<open>Cron fields\<close>

text \<open>The number of a range bound, with its error.\<close>

definition cron_number :: "string \<Rightarrow> (string, int) result" where
  "cron_number s = (case atoi s of None \<Rightarrow> Inl (''invalid number '' @ quoted s) | Some n \<Rightarrow> Inr n)"

definition cron_step :: "string \<Rightarrow> (string, string \<times> int) result" where
  "cron_step token =
     (if CHR ''/'' \<in> set token then
        (case split_on (CHR ''/'') token of
           [base, s] \<Rightarrow>
             (case atoi s of
                Some n \<Rightarrow> if n \<le> 0 then Inl (''invalid step '' @ quoted token) else Inr (base, n)
              | None \<Rightarrow> Inl (''invalid step '' @ quoted token))
         | _ \<Rightarrow> Inl (''invalid step '' @ quoted token))
      else Inr (token, 1))"

definition cron_range :: "string \<Rightarrow> int \<Rightarrow> int \<Rightarrow> (string, int \<times> int) result" where
  "cron_range base lo hi =
     (if base = ''*'' then Inr (lo, hi)
      else if CHR ''-'' \<in> set base then
        (case split_on (CHR ''-'') base of
           [a, b] \<Rightarrow> bind_result (cron_number a) (\<lambda>s. bind_result (cron_number b) (\<lambda>e. Inr (s, e)))
         | _ \<Rightarrow> Inl (''invalid range '' @ quoted base))
      else bind_result (cron_number base) (\<lambda>n. Inr (n, n)))"

text \<open>
  The loop \<^verbatim>\<open>for v := start; v <= end; v += step\<close>; the addition wraps.  \<open>None\<close> when the fuel runs out,
  which \<open>field_loop_returns\<close> below excludes for the ranges of a cron field.
\<close>

fun field_loop :: "nat \<Rightarrow> int \<Rightarrow> int \<Rightarrow> int \<Rightarrow> int list option" where
  "field_loop 0 v e step = None"
| "field_loop (Suc n) v e step =
     (if v \<le> e then map_option (Cons v) (field_loop n (wrap64 (v + step)) e step) else Some [])"

definition field_fuel :: nat where
  "field_fuel = 200"

definition cron_values :: "int \<Rightarrow> int \<Rightarrow> int \<Rightarrow> (string, int list) result" where
  "cron_values s e step =
     (case field_loop field_fuel s e step of None \<Rightarrow> Inl ''the loop does not end'' | Some vs \<Rightarrow> Inr vs)"

definition cron_token :: "string \<Rightarrow> int \<Rightarrow> int \<Rightarrow> (string, int list) result" where
  "cron_token token lo hi =
     (if token = [] then Inl ''empty cron token''
      else bind_result (cron_step token) (\<lambda>(base, step).
        bind_result (cron_range base lo hi) (\<lambda>(s, e).
          (if s < lo \<or> hi < e \<or> e < s then
             Inl (''value '' @ itoa s @ ''-'' @ itoa e @ '' outside '' @ itoa lo @ ''-'' @ itoa hi)
           else cron_values s e step))))"

fun cron_tokens :: "string list \<Rightarrow> int \<Rightarrow> int \<Rightarrow> (string, int list) result" where
  "cron_tokens [] lo hi = Inr []"
| "cron_tokens (t # ts) lo hi =
     bind_result (cron_token (trim_space t) lo hi) (\<lambda>vs.
       bind_result (cron_tokens ts lo hi) (\<lambda>ws. Inr (vs @ ws)))"

definition parseCronField :: "string \<Rightarrow> int \<Rightarrow> int \<Rightarrow> (string, int list) result" where
  "parseCronField raw lo hi = cron_tokens (split_on (CHR '','') raw) lo hi"

subsection \<open>Cron expressions\<close>

text \<open>A field is the set of its values, as a list.\<close>

record cron_expr =
  ce_second :: "int list"
  ce_minute :: "int list"
  ce_hour :: "int list"
  ce_dom :: "int list"
  ce_month :: "int list"
  ce_dow :: "int list"
  ce_dom_any :: bool
  ce_dow_any :: bool

definition cron_ranges :: "(int \<times> int) list" where
  "cron_ranges = [(0, 59), (0, 59), (0, 23), (1, 31), (1, 12), (0, 6)]"

fun cron_fields :: "nat \<Rightarrow> string list \<Rightarrow> (int \<times> int) list \<Rightarrow> (string, int list list) result" where
  "cron_fields i (p # ps) ((lo, hi) # rs) =
     (case parseCronField p lo hi of
        Inl e \<Rightarrow> Inl (''cron field '' @ itoa (int i + 1) @ '': '' @ e)
      | Inr f \<Rightarrow> bind_result (cron_fields (i + 1) ps rs) (\<lambda>fs. Inr (f # fs)))"
| "cron_fields i _ _ = Inr []"

definition parseCron :: "string \<Rightarrow> (string, cron_expr) result" where
  "parseCron raw =
     (let parts0 = fields_of raw;
          parts = (if length parts0 = 5 then ''0'' # parts0 else parts0)
      in if length parts \<noteq> 6 then Inl ''cron must contain 5 or 6 fields''
         else bind_result (cron_fields 0 parts cron_ranges) (\<lambda>fs.
           Inr \<lparr>ce_second = fs ! 0, ce_minute = fs ! 1, ce_hour = fs ! 2, ce_dom = fs ! 3, ce_month = fs ! 4,
                ce_dow = fs ! 5, ce_dom_any = (parts ! 3 = ''*''), ce_dow_any = (parts ! 5 = ''*'')\<rparr>))"

definition cron_match :: "cron_expr \<Rightarrow> location \<Rightarrow> int \<Rightarrow> bool" where
  "cron_match c loc sec =
     (let t = civil_of loc sec
      in if cv_second t \<notin> set (ce_second c) \<or> cv_minute t \<notin> set (ce_minute c)
            \<or> cv_hour t \<notin> set (ce_hour c) \<or> cv_month t \<notin> set (ce_month c) then False
         else (let domMatch = cv_day t \<in> set (ce_dom c); dowMatch = cv_weekday t \<in> set (ce_dow c)
               in if ce_dom_any c \<and> ce_dow_any c then True
                  else if ce_dom_any c then dowMatch
                  else if ce_dow_any c then domMatch
                  else domMatch \<or> dowMatch))"

text \<open>The loop of \<open>next\<close>, on whole seconds up to \<open>limit\<close>.\<close>

function cron_search :: "cron_expr \<Rightarrow> location \<Rightarrow> int \<Rightarrow> int \<Rightarrow> int" where
  "cron_search c loc t limit =
     (if limit < t then limit else if cron_match c loc t then t else cron_search c loc (t + 1) limit)"
  by pat_completeness auto

termination
  by (relation "measure (\<lambda>(c, loc, t, limit). nat (limit + 1 - t))") auto

declare cron_search.simps [simp del]

definition cron_next :: "cron_expr \<Rightarrow> location \<Rightarrow> int \<Rightarrow> int" where
  "cron_next c loc now =
     (let t = sec_of now + 1 in cron_search c loc t (add_date loc 1 0 t) * nanos)"

subsection \<open>Schedule expressions and next instants\<close>

definition load_zone :: "zones \<Rightarrow> string \<Rightarrow> (string, location) result" where
  "load_zone z name =
     (case zn_load z name of
        Inl e \<Rightarrow> Inl (''invalid timeZone '' @ quoted name @ '': '' @ e)
      | Inr loc \<Rightarrow> Inr loc)"

definition zone_prefix :: "zones \<Rightarrow> string \<Rightarrow> (string, string) result" where
  "zone_prefix z name =
     (if name = [] then Inr []
      else bind_result (load_zone z name) (\<lambda>_. Inr (''TZ='' @ name @ '' '')))"

definition Expression :: "zones \<Rightarrow> schedule_spec \<Rightarrow> (string, string) result" where
  "Expression z s =
     (if sp_type s = ScheduleInterval then
        (if sp_interval s \<le> 0 then Inl ''intervalSeconds must be > 0''
         else Inr (''@every '' @ itoa (sp_interval s) @ ''s''))
      else if sp_type s = ScheduleDaily then
        bind_result (parseTimeOfDay (sp_time_of_day s)) (\<lambda>_.
          bind_result (zone_prefix z (sp_time_zone s)) (\<lambda>prefix. Inr (prefix @ ''daily '' @ sp_time_of_day s)))
      else if sp_type s = ScheduleCron then
        bind_result (parseCron (sp_cron s)) (\<lambda>_.
          bind_result (zone_prefix z (sp_time_zone s)) (\<lambda>prefix. Inr (prefix @ trim_space (sp_cron s))))
      else Inl (''unsupported schedule type '' @ quoted (sp_type s)))"

definition daily_next :: "int \<Rightarrow> int \<Rightarrow> location \<Rightarrow> int \<Rightarrow> int" where
  "daily_next h m loc now =
     (let l = civil_of loc (sec_of now);
          nxt = time_date loc (cv_year l) (cv_month l) (cv_day l) h m 0
      in (if nxt * nanos > now then nxt else add_date loc 0 1 nxt) * nanos)"

definition interval_next :: "int \<Rightarrow> int \<Rightarrow> int" where
  "interval_next seconds now = now + wrap64 (seconds * nanos)"

definition compile :: "zones \<Rightarrow> schedule_spec \<Rightarrow> (string, int \<Rightarrow> int) result" where
  "compile z s =
     bind_result (Expression z s) (\<lambda>_.
       bind_result (if sp_time_zone s = [] then Inr (zn_local z) else zn_load z (sp_time_zone s)) (\<lambda>loc.
         (if sp_type s = ScheduleInterval then Inr (interval_next (sp_interval s))
          else if sp_type s = ScheduleDaily then
            (case parseTimeOfDay (sp_time_of_day s) of
               Inr (h, m) \<Rightarrow> Inr (daily_next h m loc)
             | Inl _ \<Rightarrow> Inr (daily_next 0 0 loc))
          else if sp_type s = ScheduleCron then
            (case parseCron (sp_cron s) of
               Inr expr \<Rightarrow> Inr (cron_next expr loc)
             | Inl e \<Rightarrow> Inl e)
          else Inl (''unsupported schedule type '' @ quoted (sp_type s)))))"


subsection \<open>The values of a field\<close>

text \<open>What a field is meant to hold: every \<open>step\<close>-th value of a range.\<close>

definition progression :: "int \<Rightarrow> int \<Rightarrow> int \<Rightarrow> int set" where
  "progression s e step = {x. s \<le> x \<and> x \<le> e \<and> step dvd (x - s)}"

lemma progression_empty: "e < s \<Longrightarrow> progression s e step = {}"
  by (auto simp: progression_def)

lemma progression_step:
  assumes "s \<le> e" "0 < step"
  shows "progression s e step = insert s (progression (s + step) e step)"
proof (intro set_eqI iffI)
  fix x assume "x \<in> progression s e step"
  then have x: "s \<le> x" "x \<le> e" "step dvd (x - s)" by (auto simp: progression_def)
  show "x \<in> insert s (progression (s + step) e step)"
  proof (cases "x = s")
    case False
    with x have "step \<le> x - s" by (intro zdvd_imp_le) auto
    moreover have "step dvd (x - (s + step))"
      using dvd_diff [OF x(3) dvd_refl [of step]] by (simp add: algebra_simps)
    ultimately show ?thesis using x by (simp add: progression_def)
  qed simp
next
  fix x assume "x \<in> insert s (progression (s + step) e step)"
  then show "x \<in> progression s e step"
  proof (elim insertE)
    assume "x \<in> progression (s + step) e step"
    then have x: "s + step \<le> x" "x \<le> e" "step dvd (x - (s + step))" by (auto simp: progression_def)
    from dvd_add [OF x(3) dvd_refl [of step]] x assms show ?thesis by (simp add: progression_def)
  qed (use assms in \<open>simp add: progression_def\<close>)
qed

lemma field_loop_values:
  assumes "0 < step" "e + step \<le> max_int64"
  shows "- (2 ^ 63) \<le> v \<Longrightarrow> nat (e + 1 - v) < n \<Longrightarrow>
    \<exists>vs. field_loop n v e step = Some vs \<and> set vs = progression v e step"
proof (induction n arbitrary: v)
  case (Suc n)
  show ?case
  proof (cases "v \<le> e")
    case True
    have w: "wrap64 (v + step) = v + step"
      using True assms Suc.prems by (intro wrap64_id) auto
    have "- (2 ^ 63) \<le> v + step" "nat (e + 1 - (v + step)) < n" using Suc.prems assms True by auto
    from Suc.IH [OF this] obtain vs where "field_loop n (v + step) e step = Some vs"
      "set vs = progression (v + step) e step" by blast
    with True w show ?thesis by (auto simp: progression_step [OF True assms(1)])
  qed (simp add: progression_empty)
qed simp

lemma wrap64_over: "2 ^ 63 \<le> n \<Longrightarrow> n < 2 ^ 64 + 2 ^ 63 \<Longrightarrow> wrap64 n = n - 2 ^ 64"
proof -
  assume "2 ^ 63 \<le> n" "n < 2 ^ 64 + 2 ^ 63"
  then have "(n + 2 ^ 63 - 2 ^ 64) mod 2 ^ 64 = n + 2 ^ 63 - 2 ^ 64" by (intro mod_pos_pos_trivial) simp_all
  moreover have "(n + 2 ^ 63 - 2 ^ 64) mod 2 ^ 64 = (n + 2 ^ 63) mod 2 ^ 64" by (rule minus_mod_self2)
  ultimately show ?thesis by (simp add: wrap64_def)
qed

lemma field_loop_go:
  "v \<le> e \<Longrightarrow> wrap64 (v + step) = w \<Longrightarrow> \<exists>vs. field_loop n w e step = Some vs \<Longrightarrow>
     \<exists>vs. field_loop (Suc n) v e step = Some vs"
  by auto

lemma field_loop_stop: "\<not> v \<le> e \<Longrightarrow> \<exists>vs. field_loop (Suc n) v e step = Some vs"
  by simp

text \<open>A step within 59 of the largest integer: the additions wrap, but the values that come back into
  the range go down.\<close>

lemma field_loop_wraps:
  assumes j: "step = 2 ^ 63 - j" "1 \<le> j" "j \<le> 59" and e: "0 \<le> e" "e \<le> 59"
  shows "0 \<le> v \<Longrightarrow> v \<le> 59 \<Longrightarrow> \<exists>vs. field_loop (nat v + 4 + m) v e step = Some vs"
proof (induction "nat v" arbitrary: v m rule: less_induct)
  case less
  have w1: "wrap64 (v + step) = (if v < j then v + step else v - j - 2 ^ 63)"
  proof (cases "v < j")
    case True
    then have "wrap64 (v + step) = v + step"
      using less.prems j by (intro wrap64_id) (simp_all add: max_int64_def)
    with True show ?thesis by simp
  next
    case False
    then have "wrap64 (v + step) = v + step - 2 ^ 64"
      using less.prems j by (intro wrap64_over) simp_all
    with False j show ?thesis by simp
  qed
  show ?case
  proof (cases "v \<le> e \<and> j \<le> v")
    case True
    have "v - j - 2 ^ 63 + step = v - 2 * j" using j by simp
    then have w2: "wrap64 (v - j - 2 ^ 63 + step) = v - 2 * j"
      using j less.prems by (simp add: wrap64_id max_int64_def)
    show ?thesis
    proof (cases "2 * j \<le> v")
      case down: True
      have "nat (v - 2 * j) < nat v" "0 \<le> v - 2 * j" "v - 2 * j \<le> 59" using j less.prems down by auto
      from less.hyps [OF this, of "m + nat v - 2 - nat (v - 2 * j)"]
      have "\<exists>vs. field_loop (nat v + 2 + m) (v - 2 * j) e step = Some vs"
        using down j by (simp add: add.commute add.left_commute)
      then have "\<exists>vs. field_loop (Suc (nat v + 2 + m)) (v - j - 2 ^ 63) e step = Some vs"
        by (rule field_loop_go [OF _ w2, rotated]) (use e True less.prems j in simp)
      then have "\<exists>vs. field_loop (Suc (Suc (nat v + 2 + m))) v e step = Some vs"
        by (rule field_loop_go [rotated 2]) (use True w1 in simp_all)
      moreover have "nat v + 4 + m = Suc (Suc (nat v + 2 + m))" by simp
      ultimately show ?thesis by (simp only:)
    next
      case False
      have w3: "wrap64 (v - 2 * j + step) = 2 ^ 63 + v - 3 * j"
        using j less.prems True False by (subst wrap64_id) (simp_all add: max_int64_def)
      have le: "v - j - 2 ^ 63 \<le> e" "v - 2 * j \<le> e" "\<not> 2 ^ 63 + v - 3 * j \<le> e"
        using j e less.prems True False by auto
      have "\<exists>vs. field_loop (Suc (Suc (nat v + m))) (v - 2 * j) e step = Some vs"
        by (rule field_loop_go [OF le(2) w3 field_loop_stop [OF le(3)]])
      then have "\<exists>vs. field_loop (Suc (Suc (Suc (nat v + m)))) (v - j - 2 ^ 63) e step = Some vs"
        by (rule field_loop_go [OF le(1) w2])
      then have "\<exists>vs. field_loop (Suc (Suc (Suc (Suc (nat v + m))))) v e step = Some vs"
        by (rule field_loop_go [rotated 2]) (use True w1 in simp_all)
      moreover have "nat v + 4 + m = Suc (Suc (Suc (Suc (nat v + m))))" by simp
      ultimately show ?thesis by (simp only:)
    qed
  next
    case False
    have "\<exists>vs. field_loop (Suc (Suc (nat v + 2 + m))) v e step = Some vs"
    proof (cases "v \<le> e")
      case True
      with False have "v < j" by simp
      then have "\<not> v + step \<le> e" using j e less.prems by auto
      from field_loop_go [OF True _ field_loop_stop [OF this]] w1 \<open>v < j\<close> show ?thesis by simp
    qed simp
    moreover have "nat v + 4 + m = Suc (Suc (nat v + 2 + m))" by simp
    ultimately show ?thesis by (simp only:)
  qed
qed

lemma cron_values_ok:
  assumes "0 \<le> s" "s \<le> e" "e \<le> 59" "0 < step" "step \<le> max_int64"
  shows "\<exists>vs. cron_values s e step = Inr vs"
proof (cases "e + step \<le> max_int64")
  case True
  have "- (2 ^ 63) \<le> s" "nat (e + 1 - s) < 200" using assms by auto
  from field_loop_values [OF assms(4) True this] show ?thesis
    by (auto simp: cron_values_def field_fuel_def)
next
  case False
  define j where "j = 2 ^ 63 - step"
  have j: "step = 2 ^ 63 - j" "1 \<le> j" "j \<le> 59"
    using assms False by (auto simp: j_def max_int64_def)
  have "0 \<le> e" "s \<le> 59" using assms by auto
  from field_loop_wraps [OF j this(1) assms(3,1) this(2), of "196 - nat s"] assms
  show ?thesis by (auto simp: cron_values_def field_fuel_def)
qed

text \<open>The loop over the values of a cron token always ends, for every range of a cron field and every
  step that \<open>strconv.Atoi\<close> can return, although its addition may wrap around.\<close>

theorem field_loop_returns:
  assumes "0 \<le> s" "s \<le> e" "e \<le> 59" "0 < step" "step \<le> max_int64"
  shows "\<exists>vs. field_loop field_fuel s e step = Some vs \<and> cron_values s e step = Inr vs"
  using cron_values_ok [OF assms] by (auto simp: cron_values_def split: option.splits)

theorem field_loop_returns_witness: "\<exists>vs. field_loop field_fuel 5 59 (2 ^ 63 - 1) = Some vs"
  using field_loop_returns [of 5 59 "2 ^ 63 - 1"] by (auto simp: max_int64_def)

text \<open>With the largest step the wrapped additions bring values into the field that its token does not
  name: \<^verbatim>\<open>5-59/9223372036854775807\<close> also matches 3 and 1.\<close>

lemma huge_step_wraps: "\<exists>vs. cron_values 5 59 (2 ^ 63 - 1) = Inr vs \<and> 3 \<in> set vs \<and> 1 \<in> set vs"
proof -
  have "(case cron_values 5 59 (2 ^ 63 - 1) of Inl _ \<Rightarrow> False | Inr vs \<Rightarrow> 3 \<in> set vs \<and> 1 \<in> set vs)"
    by code_simp
  then show ?thesis by (auto split: sum.splits)
qed


text \<open>What a token names: its range and step.\<close>

definition token_range :: "string \<Rightarrow> int \<Rightarrow> int \<Rightarrow> (string, int \<times> int \<times> int) result" where
  "token_range token lo hi =
     bind_result (cron_step token) (\<lambda>(base, step). bind_result (cron_range base lo hi) (\<lambda>(s, e). Inr (s, e, step)))"

lemma cron_step_positive: "cron_step token = Inr (base, n) \<Longrightarrow> 0 < n \<and> n \<le> max_int64"
  by (auto simp: cron_step_def atoi_def Let_def max_int64_def split: if_splits list.splits option.splits)

lemma cron_token_values:
  assumes tok: "cron_token token lo hi = Inr vs" and range: "0 \<le> lo" "hi \<le> 59"
  shows "\<exists>s e step. token_range token lo hi = Inr (s, e, step) \<and> lo \<le> s \<and> s \<le> e \<and> e \<le> hi
    \<and> (step \<le> max_int64 - 59 \<longrightarrow> set vs = progression s e step)"
proof -
  obtain base step s e where st: "cron_step token = Inr (base, step)" and r: "cron_range base lo hi = Inr (s, e)"
    and b: "lo \<le> s" "e \<le> hi" "s \<le> e" and v: "cron_values s e step = Inr vs"
    using tok by (auto simp: cron_token_def bind_result_Inr split: if_splits)
  have "set vs = progression s e step" if "step \<le> max_int64 - 59"
    using field_loop_values [of step e s field_fuel] cron_step_positive [OF st] v b range that
    by (auto simp: cron_values_def field_fuel_def split: option.splits)
  with st r b show ?thesis by (auto simp: token_range_def)
qed

lemma cron_token_accepts:
  assumes "token_range token lo hi = Inr (s, e, step)" "token \<noteq> []" "lo \<le> s" "s \<le> e" "e \<le> hi" "0 \<le> lo" "hi \<le> 59"
  shows "is_ok (cron_token token lo hi)"
proof -
  obtain base where st: "cron_step token = Inr (base, step)" and r: "cron_range base lo hi = Inr (s, e)"
    using assms(1) by (auto simp: token_range_def bind_result_Inr)
  have "\<exists>vs. cron_values s e step = Inr vs"
    using assms cron_step_positive [OF st] by (intro cron_values_ok) auto
  with assms st r show ?thesis by (auto simp: cron_token_def is_ok_iff)
qed

definition token_ok :: "int \<Rightarrow> int \<Rightarrow> string \<Rightarrow> bool" where
  "token_ok lo hi token =
     (token \<noteq> [] \<and> (case token_range token lo hi of Inl _ \<Rightarrow> False | Inr (s, e, _) \<Rightarrow> lo \<le> s \<and> s \<le> e \<and> e \<le> hi))"

lemma cron_token_ok_iff:
  assumes "0 \<le> lo" "hi \<le> 59"
  shows "is_ok (cron_token token lo hi) = token_ok lo hi token"
proof
  assume "is_ok (cron_token token lo hi)"
  then obtain vs where vs: "cron_token token lo hi = Inr vs" by (auto simp: is_ok_iff)
  from cron_token_values [OF vs assms] vs show "token_ok lo hi token"
    by (auto simp: token_ok_def cron_token_def)
next
  assume "token_ok lo hi token"
  then obtain s e step where "token_range token lo hi = Inr (s, e, step)" "token \<noteq> []" "lo \<le> s" "s \<le> e" "e \<le> hi"
    by (auto simp: token_ok_def split: sum.splits)
  from cron_token_accepts [OF this assms] show "is_ok (cron_token token lo hi)" .
qed

lemma cron_tokens_ok_iff:
  "0 \<le> lo \<Longrightarrow> hi \<le> 59 \<Longrightarrow> is_ok (cron_tokens ts lo hi) \<longleftrightarrow> (\<forall>t \<in> set ts. token_ok lo hi (trim_space t))"
  by (induction ts) (auto simp: bind_result_Inr is_ok_iff cron_token_ok_iff [symmetric])

definition small_step :: "int \<Rightarrow> int \<Rightarrow> string \<Rightarrow> bool" where
  "small_step lo hi token = (case token_range token lo hi of Inl _ \<Rightarrow> True | Inr (_, _, step) \<Rightarrow> step \<le> max_int64 - 59)"

definition token_values :: "int \<Rightarrow> int \<Rightarrow> string \<Rightarrow> int set" where
  "token_values lo hi token = (case token_range token lo hi of Inl _ \<Rightarrow> {} | Inr (s, e, step) \<Rightarrow> progression s e step)"

lemma cron_tokens_values:
  "cron_tokens ts lo hi = Inr vs \<Longrightarrow> 0 \<le> lo \<Longrightarrow> hi \<le> 59 \<Longrightarrow> \<forall>t \<in> set ts. small_step lo hi (trim_space t) \<Longrightarrow>
     set vs = (\<Union>t \<in> set ts. token_values lo hi (trim_space t))"
proof (induction ts arbitrary: vs)
  case (Cons t ts)
  then obtain us ws where u: "cron_token (trim_space t) lo hi = Inr us" and w: "cron_tokens ts lo hi = Inr ws"
    and vs: "vs = us @ ws" by (auto simp: bind_result_Inr)
  from cron_token_values [OF u Cons.prems(2,3)] Cons.prems(4) have "set us = token_values lo hi (trim_space t)"
    by (auto simp: token_values_def small_step_def)
  with Cons.IH [OF w Cons.prems(2,3)] Cons.prems(4) vs show ?case by simp
qed simp

text \<open>C10: A cron field is accepted exactly when each of its comma-separated tokens names a range within
  the bounds of the field, and its values are then exactly those its tokens name: every \<open>step\<close>-th
  value of each range, as long as no step is within 59 of the largest integer.\<close>

theorem parseCronField_values:
  assumes "0 \<le> lo" "hi \<le> 59"
  shows "(is_ok (parseCronField raw lo hi) \<longleftrightarrow> (\<forall>t \<in> set (split_on (CHR '','') raw). token_ok lo hi (trim_space t)))
    \<and> (\<forall>vs. parseCronField raw lo hi = Inr vs \<longrightarrow>
         (\<forall>t \<in> set (split_on (CHR '','') raw). small_step lo hi (trim_space t)) \<longrightarrow>
         set vs = (\<Union>t \<in> set (split_on (CHR '','') raw). token_values lo hi (trim_space t)))"
  using cron_tokens_ok_iff [OF assms] cron_tokens_values [OF _ assms] by (simp add: parseCronField_def)

theorem parseCronField_values_witness:
  "is_ok (parseCronField ''1-5/2, 9'' 0 23) \<longleftrightarrow>
     (\<forall>t \<in> set (split_on (CHR '','') ''1-5/2, 9''). token_ok 0 23 (trim_space t))"
  using parseCronField_values [of 0 23] by simp


subsection \<open>The next instant\<close>

lemma cron_search_first:
  "cron_search c loc t limit =
     (if \<exists>u. t \<le> u \<and> u \<le> limit \<and> cron_match c loc u then cron_search c loc t limit else limit)
   \<and> ((\<exists>u. t \<le> u \<and> u \<le> limit \<and> cron_match c loc u) \<longrightarrow>
        t \<le> cron_search c loc t limit \<and> cron_search c loc t limit \<le> limit
        \<and> cron_match c loc (cron_search c loc t limit)
        \<and> (\<forall>u. t \<le> u \<and> u < cron_search c loc t limit \<longrightarrow> \<not> cron_match c loc u))"
proof (induction c loc t limit rule: cron_search.induct)
  case (1 c loc t limit)
  consider "limit < t" | "t \<le> limit" "cron_match c loc t" | "t \<le> limit" "\<not> cron_match c loc t" by linarith
  then show ?case
  proof cases
    case 3
    have unf: "cron_search c loc t limit = cron_search c loc (t + 1) limit"
      using 3 by (simp add: cron_search.simps [of c loc t])
    have split: "t \<le> u \<longleftrightarrow> u = t \<or> t + 1 \<le> u" for u :: int by auto
    have same: "(\<exists>u. t \<le> u \<and> u \<le> limit \<and> cron_match c loc u) \<longleftrightarrow> (\<exists>u. t + 1 \<le> u \<and> u \<le> limit \<and> cron_match c loc u)"
      unfolding split using 3 by auto
    show ?thesis
      unfolding unf same using 1 3 by (auto simp: split)
  qed (auto simp: cron_search.simps [of c loc t])
qed

lemma sane_bound: "sane_location loc \<Longrightarrow> - 86400 < loc t \<and> loc t < 86400"
  by (force simp: sane_location_def abs_less_iff minus_less_iff)

lemma time_date_near:
  "sane_location loc \<Longrightarrow>
     days_from_civil y m d * 86400 + h * 3600 + mi * 60 + s - 86400 < time_date loc y m d h mi s"
  using sane_bound [of loc] by (simp add: time_date_def Let_def)

lemma civil_of_back:
  "days_from_civil (cv_year (civil_of loc t)) (cv_month (civil_of loc t)) (cv_day (civil_of loc t)) = (t + loc t) div 86400"
  using days_civil_roundtrip [of "(t + loc t) div 86400"]
  by (simp add: civil_of_def Let_def case_prod_unfold)

lemma civil_of_clock:
  "cv_hour (civil_of loc t) * 3600 + cv_minute (civil_of loc t) * 60 + cv_second (civil_of loc t) = (t + loc t) mod 86400"
proof -
  have "x div 3600 * 3600 + x mod 3600 div 60 * 60 + x mod 60 = x" for x :: int
  proof -
    have "x mod 60 = x mod 3600 mod 60" by (simp add: mod_mod_cancel)
    then show ?thesis by (metis add.assoc div_mult_mod_eq)
  qed
  then show ?thesis by (simp add: civil_of_def Let_def case_prod_unfold)
qed

lemma add_year_later:
  assumes "sane_location loc"
  shows "t < add_date loc 1 0 t"
proof -
  let ?c = "civil_of loc t"
  have "days_from_civil (cv_year ?c + 1) (cv_month ?c) (cv_day ?c) * 86400
      + (cv_hour ?c * 3600 + cv_minute ?c * 60 + cv_second ?c) - 86400 < add_date loc 1 0 t"
    using time_date_near [OF assms, of "cv_year ?c + 1" "cv_month ?c" "cv_day ?c" "cv_hour ?c" "cv_minute ?c" "cv_second ?c"]
    by (simp add: add_date_def Let_def add.assoc)
  moreover have "(t + loc t) div 86400 + 365 \<le> days_from_civil (cv_year ?c + 1) (cv_month ?c) (cv_day ?c)"
    using days_from_civil_next_year civil_of_back [of loc t] by metis
  moreover have "(t + loc t) div 86400 * 86400 + (t + loc t) mod 86400 = t + loc t" by simp
  moreover have "0 \<le> (t + loc t) mod 86400" by simp
  ultimately show ?thesis using sane_bound [OF assms, of t] unfolding civil_of_clock by linarith
qed

text \<open>C11: \<open>next\<close> of a cron expression is the first second after now that matches it, when one exists up to
  the limit of a year; when none does it is the limit, matching or not.  In a location whose offsets
  stay within a day it is after now.\<close>

theorem cron_next_first:
  "(let t0 = sec_of now + 1; limit = add_date loc 1 0 t0; r = sec_of (cron_next c loc now)
    in (\<exists>u. t0 \<le> u \<and> u \<le> limit \<and> cron_match c loc u) \<longrightarrow>
         (t0 \<le> r \<and> r \<le> limit \<and> cron_match c loc r \<and> (\<forall>u. t0 \<le> u \<and> u < r \<longrightarrow> \<not> cron_match c loc u)))
   \<and> (let t0 = sec_of now + 1; limit = add_date loc 1 0 t0
      in (\<forall>u. t0 \<le> u \<and> u \<le> limit \<longrightarrow> \<not> cron_match c loc u) \<longrightarrow> cron_next c loc now = limit * nanos)
   \<and> (sane_location loc \<longrightarrow> now < cron_next c loc now)"
proof -
  let ?t0 = "sec_of now + 1"
  let ?limit = "add_date loc 1 0 ?t0"
  let ?r = "cron_search c loc ?t0 ?limit"
  have r: "cron_next c loc now = ?r * nanos" "sec_of (cron_next c loc now) = ?r"
    by (simp_all add: cron_next_def Let_def sec_of_def nanos_def)
  have first: "(\<exists>u. ?t0 \<le> u \<and> u \<le> ?limit \<and> cron_match c loc u) \<longrightarrow>
        ?t0 \<le> ?r \<and> ?r \<le> ?limit \<and> cron_match c loc ?r \<and> (\<forall>u. ?t0 \<le> u \<and> u < ?r \<longrightarrow> \<not> cron_match c loc u)"
    and none: "\<not> (\<exists>u. ?t0 \<le> u \<and> u \<le> ?limit \<and> cron_match c loc u) \<longrightarrow> ?r = ?limit"
    using cron_search_first [of c loc ?t0 ?limit] by auto
  have "now < cron_next c loc now" if sane: "sane_location loc"
  proof -
    have "?t0 \<le> ?r" using first none add_year_later [OF sane, of ?t0] by auto
    then have "(now div nanos + 1) * nanos \<le> ?r * nanos" by (simp add: sec_of_def nanos_def)
    moreover have "now < (now div nanos + 1) * nanos"
      using div_mult_mod_eq [of now nanos] pos_mod_bound [of nanos now] by (simp add: nanos_def algebra_simps)
    ultimately show ?thesis using r by simp
  qed
  then show ?thesis unfolding Let_def r(2) using first none r(1) by (metis linorder_not_le)
qed


theorem cron_next_first_witness:
  "0 < cron_next \<lparr>ce_second = [30], ce_minute = [0], ce_hour = [0], ce_dom = [], ce_month = [1], ce_dow = [],
     ce_dom_any = True, ce_dow_any = True\<rparr> (\<lambda>_. 0) 0"
  using cron_next_first [of 0 "\<lambda>_. 0"] by (simp add: sane_location_def)

text \<open>In a location with a constant offset \<open>time.Date\<close> only subtracts the offset.\<close>

lemma time_date_fixed: "time_date (\<lambda>_. off) y m d h mi s = days_from_civil y m d * 86400 + h * 3600 + mi * 60 + s - off"
  by (simp add: time_date_def Let_def)

lemma daily_today_fixed:
  "time_date (\<lambda>_. off) (cv_year (civil_of (\<lambda>_. off) t)) (cv_month (civil_of (\<lambda>_. off) t)) (cv_day (civil_of (\<lambda>_. off) t)) h m 0
     = (t + off) div 86400 * 86400 + h * 3600 + m * 60 - off"
  by (simp add: time_date_fixed civil_of_back)

lemma add_day_fixed: "add_date (\<lambda>_. off) 0 1 t = t + 86400"
proof -
  let ?c = "civil_of (\<lambda>_. off) t"
  have "add_date (\<lambda>_. off) 0 1 t = ((t + off) div 86400 + 1) * 86400
      + (cv_hour ?c * 3600 + cv_minute ?c * 60 + cv_second ?c) - off"
    by (simp add: add_date_def Let_def time_date_fixed days_from_civil_next_day civil_of_back)
  also have "\<dots> = (t + off) div 86400 * 86400 + (t + off) mod 86400 + 86400 - off"
    unfolding civil_of_clock by (simp add: algebra_simps)
  also have "\<dots> = t + 86400" unfolding div_mult_mod_eq by simp
  finally show ?thesis .
qed

text \<open>In a location with a constant offset a daily schedule fires at the next instant, after now and at
  most a day later, whose local time is the time of day, on the second.\<close>

theorem daily_next_fixed:
  assumes "0 \<le> h" "h \<le> 23" "0 \<le> m" "m \<le> 59"
  shows "(let r = daily_next h m (\<lambda>_. off) now
    in now < r \<and> r \<le> now + 86400 * nanos \<and> r mod nanos = 0
       \<and> (sec_of r + off) mod 86400 = h * 3600 + m * 60)"
proof -
  define t where "t = sec_of now"
  define tod where "tod = h * 3600 + m * 60"
  have tod: "0 \<le> tod" "tod < 86400" using assms by (auto simp: tod_def)
  define D where "D = (t + off) div 86400"
  have D: "D * 86400 \<le> t + off" "t + off < D * 86400 + 86400"
    using div_mult_mod_eq [of "t + off" 86400] pos_mod_bound [of 86400 "t + off"] pos_mod_sign [of 86400 "t + off"]
    unfolding D_def by linarith+
  define nxt where "nxt = D * 86400 + tod - off"
  have now: "t * nanos \<le> now" "now < (t + 1) * nanos"
    using div_mult_mod_eq [of now nanos] pos_mod_bound [of nanos now] pos_mod_sign [of nanos now]
    by (auto simp: t_def sec_of_def nanos_def algebra_simps)
  define r where "r = (if nxt * nanos > now then nxt else nxt + 86400)"
  have daily: "daily_next h m (\<lambda>_. off) now = r * nanos"
    unfolding daily_next_def Let_def t_def [symmetric] daily_today_fixed add_day_fixed
    by (simp add: r_def nxt_def D_def tod_def add.assoc)
  have mod: "(r + off) mod 86400 = tod"
    using tod by (simp add: r_def nxt_def)
  have lo: "now < r * nanos" using now D tod by (auto simp: r_def nxt_def nanos_def)
  have hi: "r * nanos \<le> now + 86400 * nanos"
    using now D tod by (auto simp: r_def nxt_def nanos_def)
  show ?thesis unfolding daily Let_def using lo hi mod by (simp add: sec_of_def nanos_def tod_def)
qed

theorem daily_next_fixed_witness: "0 < daily_next 0 0 (\<lambda>_. 3600) 0"
  using daily_next_fixed [of 0 0 3600 0] by (simp add: Let_def)

lemma zone_prefix_ok: "is_ok (zone_prefix z name) \<longleftrightarrow> name = [] \<or> is_ok (zn_load z name)"
  by (auto simp: zone_prefix_def load_zone_def is_ok_def split: sum.splits)

lemma Expression_daily:
  "sp_type s = ScheduleDaily \<Longrightarrow> is_ok (Expression z s) \<longleftrightarrow>
     is_ok (parseTimeOfDay (sp_time_of_day s)) \<and> is_ok (zone_prefix z (sp_time_zone s))"
  by (auto simp: Expression_def ScheduleDaily_def ScheduleInterval_def bind_result_ok is_ok_iff bind_result_Inr)

lemma Expression_cron:
  "sp_type s = ScheduleCron \<Longrightarrow> is_ok (Expression z s) \<longleftrightarrow>
     is_ok (parseCron (sp_cron s)) \<and> is_ok (zone_prefix z (sp_time_zone s))"
  by (auto simp: Expression_def ScheduleDaily_def ScheduleInterval_def ScheduleCron_def is_ok_iff bind_result_Inr)

lemma Expression_kinds: "is_ok (Expression z s) \<Longrightarrow> sp_type s \<in> {ScheduleInterval, ScheduleDaily, ScheduleCron}"
  by (auto simp: Expression_def split: if_splits)

lemma compile_ok:
  assumes "is_ok (Expression z s)" "sp_time_zone s = [] \<or> is_ok (zn_load z (sp_time_zone s))"
  shows "is_ok (compile z s)"
proof -
  obtain ex where ex: "Expression z s = Inr ex" using assms(1) by (auto simp: is_ok_iff)
  obtain loc where loc: "(if sp_time_zone s = [] then Inr (zn_local z) else zn_load z (sp_time_zone s)) = Inr loc"
    using assms(2) by (cases "sp_time_zone s = []") (auto simp: is_ok_iff)
  consider "sp_type s = ScheduleInterval" | "sp_type s = ScheduleDaily" | "sp_type s = ScheduleCron"
    using Expression_kinds [OF assms(1)] by blast
  then show ?thesis
  proof cases
    case 2
    with assms(1) obtain h m where "parseTimeOfDay (sp_time_of_day s) = Inr (h, m)"
      by (cases "parseTimeOfDay (sp_time_of_day s)") (auto simp: Expression_daily)
    with 2 show ?thesis unfolding compile_def ex loc by (simp add: ScheduleDaily_def ScheduleInterval_def)
  next
    case 3
    with assms(1) obtain c where "parseCron (sp_cron s) = Inr c" by (cases "parseCron (sp_cron s)") (auto simp: Expression_cron)
    with 3 show ?thesis
      unfolding compile_def ex loc by (simp add: ScheduleDaily_def ScheduleInterval_def ScheduleCron_def)
  qed (unfold compile_def ex loc, simp)
qed

text \<open>\<open>compile\<close> accepts a schedule exactly when \<open>Expression\<close> has an expression for it and the time zone,
  if one is named, can be loaded; it fails with the error of \<open>Expression\<close> when there is one, and an
  interval schedule is the only kind for which \<open>Expression\<close> does not look at the zone.\<close>

theorem compile_iff_Expression:
  "is_ok (compile z s) = (is_ok (Expression z s) \<and> (sp_time_zone s = [] \<or> is_ok (zn_load z (sp_time_zone s))))
   \<and> (sp_type s \<noteq> ScheduleInterval \<longrightarrow> is_ok (compile z s) = is_ok (Expression z s))
   \<and> (case Expression z s of Inl e \<Rightarrow> compile z s = Inl e | Inr _ \<Rightarrow> True)"
proof -
  have only: "is_ok (Expression z s) \<and> (sp_time_zone s = [] \<or> is_ok (zn_load z (sp_time_zone s)))"
    if "is_ok (compile z s)"
  proof -
    note ok = that
    obtain ex where ex: "Expression z s = Inr ex" using ok unfolding compile_def by (cases "Expression z s") (simp_all add: compile_def)
    show ?thesis
    proof (cases "sp_time_zone s = []")
      case False
      with that ex obtain loc where "zn_load z (sp_time_zone s) = Inr loc"
        by (cases "zn_load z (sp_time_zone s)") (simp_all add: compile_def)
      with ex show ?thesis by simp
    qed (simp add: ex)
  qed
  have zone: "sp_time_zone s = [] \<or> is_ok (zn_load z (sp_time_zone s))"
    if "is_ok (Expression z s)" "sp_type s \<noteq> ScheduleInterval"
    using that Expression_kinds [OF that(1)] by (auto simp: Expression_daily Expression_cron zone_prefix_ok)
  have err: "case Expression z s of Inl e \<Rightarrow> compile z s = Inl e | Inr _ \<Rightarrow> True"
    by (cases "Expression z s") (simp_all add: compile_def)
  from only zone err compile_ok [of z s] show ?thesis by blast
qed

theorem compile_iff_Expression_witness:
  "let z = \<lparr>zn_load = (\<lambda>n. if n = ''UTC'' then Inr (\<lambda>_. 0) else Inl ''unknown time zone''), zn_local = (\<lambda>_. 3600)\<rparr>;
       s = \<lparr>sp_type = ScheduleDaily, sp_interval = 0, sp_time_of_day = ''02:30'', sp_cron = [], sp_time_zone = ''UTC''\<rparr>
   in is_ok (compile z s) = is_ok (Expression z s)"
  unfolding Let_def
  by (rule compile_iff_Expression [THEN conjunct2, THEN conjunct1, rule_format])
    (simp add: ScheduleDaily_def ScheduleInterval_def)

subsection \<open>Instants that are not the intended ones\<close>

text \<open>The duration of an interval from 9223372037 seconds on wraps to a negative one: the next instant
  lies in the past, and the loop of the scheduler then fires every second.\<close>

lemma interval_wraps: "interval_next 9223372037 now < now"
  by (simp add: interval_next_def wrap64_def nanos_def)

text \<open>A daily 02:30 where summer time begins at 02:00: on the day of the change 02:30 does not exist and
  the schedule fires at 03:30; the instant after that is computed from those shifted fields, so the
  next day it fires at 03:30 again although 02:30 exists.\<close>

definition summer_from :: "int \<Rightarrow> location" where
  "summer_from start t = (if t < start then 3600 else 7200)"

lemma daily_shifts_after_change:
  "(let loc = summer_from 1743296400;
        first = daily_next 2 30 loc (1743292800 * nanos);
        second = daily_next 2 30 loc first
    in cv_hour (civil_of loc (sec_of first)) = 3 \<and> cv_hour (civil_of loc (sec_of second)) = 3
       \<and> cv_day (civil_of loc (sec_of second)) = 31)"
  by code_simp

text \<open>A cron expression for the 29th of February: seen from March 2025 it matches nothing within a year,
  and the instant returned, on the first of March, is one it does not match.\<close>

definition leap_day :: cron_expr where
  "leap_day = \<lparr>ce_second = [0], ce_minute = [0], ce_hour = [0], ce_dom = [29], ce_month = [2],
     ce_dow = [0, 1, 2, 3, 4, 5, 6], ce_dom_any = False, ce_dow_any = True\<rparr>"

lemma leap_day_parsed: "parseCron ''0 0 29 2 *'' = Inr leap_day"
  by code_simp

lemma leap_day_of_year:
  assumes "civil_from_days z = (y, 2, 29)" "year_of_era ((z + 719468) mod 146097) = (yoe, doy)"
  shows "doy = 365"
proof -
  define mp where "mp = (5 * doy + 2) div 153"
  have "(if mp < 10 then mp + 3 else mp - 9) = 2" "doy - (153 * mp + 2) div 5 + 1 = 29"
    using assms unfolding civil_from_days_def Let_def assms(2) prod.case mp_def by simp_all
  moreover have "0 \<le> doy"
  proof -
    have doe: "0 \<le> (z + 719468) mod 146097" "(z + 719468) mod 146097 < 146097" by simp_all
    show ?thesis by (rule year_of_era_parts [OF doe]) (use assms(2) in auto)
  qed
  moreover then have "0 \<le> mp" unfolding mp_def by linarith
  ultimately show ?thesis by (auto split: if_splits)
qed

lemma no_leap_day:
  assumes d: "20148 \<le> d" "d \<le> 20513"
  shows "civil_from_days d \<noteq> (y, 2, 29)"
proof
  assume leap: "civil_from_days d = (y, 2, 29)"
  have doe: "(d + 719468) mod 146097 = d - 11017"
  proof -
    have "d + 719468 = (d - 11017) + 5 * 146097" by simp
    then have "(d + 719468) mod 146097 = (d - 11017) mod 146097" by (simp only: mod_mult_self1)
    also have "\<dots> = d - 11017" using d by (intro mod_pos_pos_trivial) auto
    finally show ?thesis .
  qed
  define r where "r = d - 19783"
  have r: "365 \<le> r" "r \<le> 730" using d by (auto simp: r_def)
  have "(d - 11017) div 36524 = 0" "(d - 11017) div 1461 = 6" using d by linarith+
  then have "year_of_era (d - 11017) = (24 + min 3 (r div 365), r - 365 * min 3 (r div 365))"
    by (simp add: year_of_era_def Let_def r_def)
  from leap_day_of_year [OF leap, unfolded doe, OF this] have "r - 365 * min 3 (r div 365) = 365" .
  moreover have "r div 365 = 1 \<or> r = 730" "1 \<le> r div 365" using r by linarith+
  ultimately show False using r by auto
qed

lemma leap_day_match: "cron_match leap_day (\<lambda>_. 0) u \<Longrightarrow> \<exists>y. civil_from_days (u div 86400) = (y, 2, 29)"
  by (cases "civil_from_days (u div 86400)") (auto simp: cron_match_def leap_day_def civil_of_def Let_def case_prod_unfold split: if_splits)

lemma leap_day_limit: "add_date (\<lambda>_. 0) 1 0 (20148 * 86400 + 1) = 20513 * 86400 + 1"
  by code_simp

lemma leap_day_fires_on_march_first:
  "cron_next leap_day (\<lambda>_. 0) (20148 * 86400 * nanos) = (20513 * 86400 + 1) * nanos
   \<and> \<not> cron_match leap_day (\<lambda>_. 0) (20513 * 86400 + 1)"
proof -
  have none: "\<not> cron_match leap_day (\<lambda>_. 0) u" if "20148 * 86400 \<le> u" "u \<le> 20513 * 86400 + 1" for u
  proof
    assume "cron_match leap_day (\<lambda>_. 0) u"
    from leap_day_match [OF this] obtain y where "civil_from_days (u div 86400) = (y, 2, 29)" by blast
    moreover have "20148 \<le> u div 86400" "u div 86400 \<le> 20513" using that by linarith+
    ultimately show False using no_leap_day by blast
  qed
  have t0: "sec_of (20148 * 86400 * nanos) + 1 = 20148 * 86400 + 1" by (simp add: sec_of_def nanos_def)
  have "cron_search leap_day (\<lambda>_. 0) (20148 * 86400 + 1) (20513 * 86400 + 1) = 20513 * 86400 + 1"
  proof -
    have "\<not> (\<exists>u. 20148 * 86400 + 1 \<le> u \<and> u \<le> 20513 * 86400 + 1 \<and> cron_match leap_day (\<lambda>_. 0) u)"
      using none by auto
    with cron_search_first [of leap_day "\<lambda>_. 0" "20148 * 86400 + 1" "20513 * 86400 + 1"] show ?thesis by argo
  qed
  then show ?thesis using none [of "20513 * 86400 + 1"] unfolding cron_next_def Let_def t0 leap_day_limit
    by (auto simp only: order_refl)
qed

end
