(* ===== verification/Scheduler.thy ===== *)
theory Scheduler
  imports Schedule Jobs
begin

section \<open>The scheduler\<close>

text \<open>
  Models the registry of \<^verbatim>\<open>internal/scheduler/scheduler.go\<close>: schedules that plugins register under an
  owner and an identifier, and the loops of the enabled jobs.  A timer goroutine is the deadline its
  timer is set to; \<open>tick\<close> is the firing of every timer that is due, which sets it again.  A closed
  \<^verbatim>\<open>cancel\<close> channel is the absence of the entry.  \<open>RemovePluginOwner\<close> and \<open>Stop\<close> release the lock between
  their removals; they are modelled without other calls in between.
\<close>

record plugin_schedule =
  ps_owner :: string
  ps_id :: string
  ps_callback :: string
  ps_schedule :: schedule_spec
  ps_data :: string

record sched_item =
  it_value :: plugin_schedule
  it_next :: "int \<Rightarrow> int"
  it_deadline :: int

record scheduled_job =
  sj_def :: job_definition
  sj_next :: "int \<Rightarrow> int"
  sj_deadline :: int

record scheduler =
  sc_plugin :: "sched_item table"
  sc_jobs :: "scheduled_job list option"

definition New :: scheduler where
  "New = \<lparr>sc_plugin = [], sc_jobs = None\<rparr>"

definition sched_key :: "string \<Rightarrow> string \<Rightarrow> string" where
  "sched_key owner sid = owner @ CHR 0x00 # sid"

text \<open>The deadline of a timer set at \<open>now\<close>: a next instant in the past is retried after a second.\<close>

definition arm :: "(int \<Rightarrow> int) \<Rightarrow> int \<Rightarrow> int" where
  "arm nxt now = (let delay = nxt now - now in now + (if delay < 0 then nanos else delay))"

definition blank_name :: "string \<Rightarrow> bool" where
  "blank_name s = (trim_space s = [])"

definition RegisterPlugin :: "zones \<Rightarrow> int \<Rightarrow> plugin_schedule \<Rightarrow> scheduler \<Rightarrow> string option \<times> scheduler" where
  "RegisterPlugin z now v s =
     (if blank_name (ps_owner v) \<or> blank_name (ps_id v) \<or> blank_name (ps_callback v) then
        (Some ''plugin schedule owner, id, and callback are required'', s)
      else (case compile z (ps_schedule v) of
          Inl e \<Rightarrow> (Some e, s)
        | Inr nxt \<Rightarrow>
            (let key = sched_key (ps_owner v) (ps_id v)
             in if map_of (sc_plugin s) key \<noteq> None then
                  (Some (''schedule '' @ quoted (ps_id v) @ '' already exists''), s)
                else (None, s\<lparr>sc_plugin := AList.update key
                       \<lparr>it_value = v, it_next = nxt, it_deadline = arm nxt now\<rparr> (sc_plugin s)\<rparr>))))"

definition RemovePlugin :: "string \<Rightarrow> string \<Rightarrow> scheduler \<Rightarrow> bool \<times> scheduler" where
  "RemovePlugin owner sid s =
     (let key = sched_key owner sid
      in case map_of (sc_plugin s) key of
           None \<Rightarrow> (False, s)
         | Some _ \<Rightarrow> (True, s\<lparr>sc_plugin := AList.delete key (sc_plugin s)\<rparr>))"

definition owner_ids :: "string \<Rightarrow> scheduler \<Rightarrow> string list" where
  "owner_ids owner s =
     map (trim_prefix (owner @ [CHR 0x00])) (filter (prefix (owner @ [CHR 0x00])) (map fst (sc_plugin s)))"

definition RemovePluginOwner :: "string \<Rightarrow> scheduler \<Rightarrow> scheduler" where
  "RemovePluginOwner owner s = fold (\<lambda>sid. snd \<circ> RemovePlugin owner sid) (owner_ids owner s) s"

definition ListPlugin :: "string \<Rightarrow> scheduler \<Rightarrow> plugin_schedule list" where
  "ListPlugin owner s = filter (\<lambda>v. ps_owner v = owner) (map (it_value \<circ> snd) (sc_plugin s))"

definition stopJobs :: "scheduler \<Rightarrow> scheduler" where
  "stopJobs s = s\<lparr>sc_jobs := None\<rparr>"

fun compile_jobs :: "zones \<Rightarrow> int \<Rightarrow> job_definition list \<Rightarrow> (string, scheduled_job list) result" where
  "compile_jobs z now [] = Inr []"
| "compile_jobs z now (d # ds) =
     (if \<not> j_enabled d then compile_jobs z now ds
      else (case compile z (j_schedule d) of
          Inl e \<Rightarrow> Inl (''job '' @ quoted (j_name d) @ '': '' @ e)
        | Inr nxt \<Rightarrow> bind_result (compile_jobs z now ds)
            (\<lambda>js. Inr (\<lparr>sj_def = d, sj_next = nxt, sj_deadline = arm nxt now\<rparr> # js))))"

definition Reload :: "zones \<Rightarrow> int \<Rightarrow> job_definition list \<Rightarrow> scheduler \<Rightarrow> string option \<times> scheduler" where
  "Reload z now defs s =
     (case compile_jobs z now defs of
        Inl e \<Rightarrow> (Some e, s)
      | Inr js \<Rightarrow> (None, (stopJobs s)\<lparr>sc_jobs := Some js\<rparr>))"

definition key_owners :: "scheduler \<Rightarrow> string list" where
  "key_owners s = remdups (map (\<lambda>k. hd (split_on (CHR 0x00) k)) (map fst (sc_plugin s)))"

definition Stop :: "scheduler \<Rightarrow> scheduler" where
  "Stop s = stopJobs (fold RemovePluginOwner (key_owners s) s)"

text \<open>The timers that are due at \<open>now\<close>: the schedules that fire, the jobs the runner is asked to run.\<close>

definition fired :: "int \<Rightarrow> scheduler \<Rightarrow> plugin_schedule list" where
  "fired now s = map (it_value \<circ> snd) (filter (\<lambda>(k, it). it_deadline it \<le> now) (sc_plugin s))"

definition due_jobs :: "int \<Rightarrow> scheduler \<Rightarrow> job_definition list" where
  "due_jobs now s =
     (case sc_jobs s of None \<Rightarrow> [] | Some js \<Rightarrow> map sj_def (filter (\<lambda>j. sj_deadline j \<le> now) js))"

definition tick :: "int \<Rightarrow> scheduler \<Rightarrow> scheduler" where
  "tick now s =
     s\<lparr>sc_plugin := map (\<lambda>(k, it). (k, if it_deadline it \<le> now then it\<lparr>it_deadline := arm (it_next it) now\<rparr> else it)) (sc_plugin s),
       sc_jobs := map_option (map (\<lambda>j. if sj_deadline j \<le> now then j\<lparr>sj_deadline := arm (sj_next j) now\<rparr> else j)) (sc_jobs s)\<rparr>"

subsection \<open>Keys\<close>

lemma owner_split:
  "c \<notin> set a \<Longrightarrow> c \<notin> set b \<Longrightarrow> a @ c # i = b @ c # j \<longleftrightarrow> a = b \<and> i = j"
proof (induction a arbitrary: b)
  case Nil
  then show ?case by (cases b) auto
next
  case (Cons x a)
  then show ?case by (cases b) auto
qed

lemma sched_key_inj:
  "CHR 0x00 \<notin> set a \<Longrightarrow> CHR 0x00 \<notin> set b \<Longrightarrow> sched_key a i = sched_key b j \<longleftrightarrow> a = b \<and> i = j"
  by (simp add: sched_key_def owner_split)

lemma prefix_sched_key:
  "CHR 0x00 \<notin> set a \<Longrightarrow> CHR 0x00 \<notin> set b \<Longrightarrow> prefix (a @ [CHR 0x00]) (sched_key b j) \<longleftrightarrow> a = b"
  by (auto simp: prefix_def sched_key_def owner_split)

lemma key_of_owner_id: "prefix (a @ [CHR 0x00]) k \<Longrightarrow> sched_key a (trim_prefix (a @ [CHR 0x00]) k) = k"
  by (auto simp: prefix_def trim_prefix_def sched_key_def)

lemma RemovePlugin_table: "sc_plugin (snd (RemovePlugin a i s)) = AList.delete (sched_key a i) (sc_plugin s)"
  by (auto simp: RemovePlugin_def Let_def delete_id map_of_eq_None_iff split: option.splits)

lemma RemovePlugin_jobs: "sc_jobs (snd (RemovePlugin a i s)) = sc_jobs s"
  by (simp add: RemovePlugin_def Let_def split: option.splits)

lemma fold_RemovePlugin:
  "sc_plugin (fold (\<lambda>i. snd \<circ> RemovePlugin a i) ids s) = fold (\<lambda>i. AList.delete (sched_key a i)) ids (sc_plugin s)"
  "sc_jobs (fold (\<lambda>i. snd \<circ> RemovePlugin a i) ids s) = sc_jobs s"
  by (induction ids arbitrary: s) (simp_all add: RemovePlugin_table RemovePlugin_jobs)

lemma fold_delete_filter:
  "fold (\<lambda>i. AList.delete (f i)) ids t = filter (\<lambda>(k, _). k \<notin> f ` set ids) t"
  by (induction ids arbitrary: t) (auto simp: AList.delete_eq intro!: filter_cong)

lemma RemovePluginOwner_table:
  "sc_plugin (RemovePluginOwner a s) = filter (\<lambda>(k, _). \<not> prefix (a @ [CHR 0x00]) k) (sc_plugin s)"
proof -
  have "sched_key a ` set (owner_ids a s) = {k \<in> fst ` set (sc_plugin s). prefix (a @ [CHR 0x00]) k}"
    by (force simp: owner_ids_def key_of_owner_id image_iff)
  then show ?thesis
    by (auto simp: RemovePluginOwner_def fold_RemovePlugin fold_delete_filter rev_image_eqI intro!: filter_cong)
qed

lemma RemovePluginOwner_jobs [simp]: "sc_jobs (RemovePluginOwner a s) = sc_jobs s"
  by (simp add: RemovePluginOwner_def fold_RemovePlugin)

lemma fold_RemovePluginOwner:
  "sc_plugin (fold RemovePluginOwner os s) = filter (\<lambda>(k, _). \<forall>a \<in> set os. \<not> prefix (a @ [CHR 0x00]) k) (sc_plugin s)"
  by (induction os arbitrary: s) (auto simp: RemovePluginOwner_table intro!: filter_cong)

lemma hd_split_on: "c \<in> set k \<Longrightarrow> prefix (hd (split_on c k) @ [c]) k"
proof (induction k)
  case (Cons x k)
  then show ?case by (cases "split_on c k") (auto simp: prefix_def split: list.splits)
qed simp

subsection \<open>The registry as a map from owners and identifiers\<close>

text \<open>
  The key of a schedule separates the owner from the identifier by a NUL byte.  As long as no owner has
  one (owners are plugin identifiers), the table is a map from pairs, every operation acts on the pairs
  as it should, and owners cannot touch each other's schedules.
\<close>

definition sched_inv :: "scheduler \<Rightarrow> bool" where
  "sched_inv s =
     (keys_distinct (sc_plugin s)
      \<and> (\<forall>k it. map_of (sc_plugin s) k = Some it \<longrightarrow> k = sched_key (ps_owner (it_value it)) (ps_id (it_value it))
            \<and> CHR 0x00 \<notin> set (ps_owner (it_value it))))"

definition registered :: "scheduler \<Rightarrow> (string \<times> string) \<rightharpoonup> plugin_schedule" where
  "registered s = (\<lambda>(a, i). if CHR 0x00 \<in> set a then None else map_option it_value (map_of (sc_plugin s) (sched_key a i)))"

datatype sched_event =
  SRegister zones int plugin_schedule
| SRemove string string
| SRemoveOwner string
| SReload zones int "job_definition list"
| STick int
| SStop

fun sched_step :: "sched_event \<Rightarrow> scheduler \<Rightarrow> scheduler" where
  "sched_step (SRegister z now v) s = snd (RegisterPlugin z now v s)"
| "sched_step (SRemove a i) s = snd (RemovePlugin a i s)"
| "sched_step (SRemoveOwner a) s = RemovePluginOwner a s"
| "sched_step (SReload z now defs) s = snd (Reload z now defs s)"
| "sched_step (STick now) s = tick now s"
| "sched_step SStop s = Stop s"

fun sched_event_ok :: "sched_event \<Rightarrow> bool" where
  "sched_event_ok (SRegister z now v) = (CHR 0x00 \<notin> set (ps_owner v))"
| "sched_event_ok (SRemove a i) = (CHR 0x00 \<notin> set a)"
| "sched_event_ok (SRemoveOwner a) = (CHR 0x00 \<notin> set a)"
| "sched_event_ok _ = True"

text \<open>What the operations mean on the pairs.\<close>

fun registry_step :: "sched_event \<Rightarrow> ((string \<times> string) \<rightharpoonup> plugin_schedule) \<Rightarrow> ((string \<times> string) \<rightharpoonup> plugin_schedule)" where
  "registry_step (SRegister z now v) r =
     (if blank_name (ps_owner v) \<or> blank_name (ps_id v) \<or> blank_name (ps_callback v)
         \<or> \<not> is_ok (compile z (ps_schedule v)) \<or> r (ps_owner v, ps_id v) \<noteq> None then r
      else r((ps_owner v, ps_id v) \<mapsto> v))"
| "registry_step (SRemove a i) r = r((a, i) := None)"
| "registry_step (SRemoveOwner a) r = (\<lambda>(b, i). if b = a then None else r (b, i))"
| "registry_step SStop r = (\<lambda>_. None)"
| "registry_step (SReload _ _ _) r = r"
| "registry_step (STick _) r = r"

lemma Stop_empty:
  assumes "sched_inv s"
  shows "sc_plugin (Stop s) = []"
proof -
  have "\<exists>a \<in> set (key_owners s). prefix (a @ [CHR 0x00]) k" if "(k, it) \<in> set (sc_plugin s)" for k it
  proof -
    from that assms have "k = sched_key (ps_owner (it_value it)) (ps_id (it_value it))" by (simp add: sched_inv_def)
    then have "CHR 0x00 \<in> set k" by (metis in_set_conv_decomp sched_key_def)
    moreover have "hd (split_on (CHR 0x00) k) \<in> set (key_owners s)" using that by (force simp: key_owners_def)
    ultimately show ?thesis using hd_split_on by blast
  qed
  then show ?thesis by (auto simp: Stop_def stopJobs_def fold_RemovePluginOwner filter_empty_conv)
qed

lemma map_of_filter_keys: "map_of (filter (\<lambda>(k, _). P k) t) k = (if P k then map_of t k else None)"
  by (induction t) auto

lemma map_of_tick:
  "map_of (sc_plugin (tick now s)) k =
     map_option (\<lambda>it. if it_deadline it \<le> now then it\<lparr>it_deadline := arm (it_next it) now\<rparr> else it) (map_of (sc_plugin s) k)"
  by (induction "sc_plugin s") (auto simp: tick_def map_of_map)

lemma keys_tick [simp]: "map fst (sc_plugin (tick now s)) = map fst (sc_plugin s)"
  by (simp add: tick_def case_prod_unfold o_def)

lemma sched_inv_step:
  assumes inv: "sched_inv s" and ok: "sched_event_ok e"
  shows "sched_inv (sched_step e s)"
proof (cases e)
  case (SRegister z now v)
  with inv ok show ?thesis
    by (auto simp: sched_inv_def RegisterPlugin_def Let_def table_simps simp del: map_of_eq_Some_iff
        split: sum.splits if_splits)
next
  case (SRemove a i)
  with inv show ?thesis
    by (auto simp: sched_inv_def RemovePlugin_table table_simps split: if_splits)
next
  case (SRemoveOwner a)
  with inv show ?thesis
    by (auto simp: sched_inv_def RemovePluginOwner_table map_of_filter_keys distinct_map_filter split: if_splits)
next
  case (SReload z now defs)
  with inv show ?thesis by (auto simp: sched_inv_def Reload_def stopJobs_def split: sum.splits)
next
  case (STick now)
  with inv show ?thesis by (auto simp: sched_inv_def map_of_tick split: if_splits)
next
  case SStop
  with Stop_empty [OF inv] show ?thesis by (simp add: sched_inv_def)
qed

lemma registered_step:
  assumes inv: "sched_inv s" and ok: "sched_event_ok e"
  shows "registered (sched_step e s) = registry_step e (registered s)"
proof (cases e)
  case (SRegister z now v)
  with ok show ?thesis
    by (auto simp: registered_def RegisterPlugin_def Let_def table_simps sched_key_inj fun_eq_iff is_ok_def
        split: sum.splits if_splits)
next
  case (SRemove a i)
  with ok show ?thesis
    by (auto simp: registered_def RemovePlugin_table table_simps sched_key_inj fun_eq_iff)
next
  case (SRemoveOwner a)
  with ok show ?thesis
    by (auto simp: registered_def RemovePluginOwner_table map_of_filter_keys prefix_sched_key fun_eq_iff)
next
  case (SReload z now defs)
  then show ?thesis by (auto simp: registered_def Reload_def stopJobs_def split: sum.splits)
next
  case (STick now)
  then show ?thesis by (auto simp: registered_def map_of_tick option.map_comp fun_eq_iff intro!: option.map_cong)
next
  case SStop
  with Stop_empty [OF inv] show ?thesis by (simp add: registered_def fun_eq_iff)
qed

interpretation registry: guarded_machine sched_step "\<lambda>e _. sched_event_ok e" sched_inv
  by unfold_locales (rule sched_inv_step)

lemma registered_run:
  "sched_inv s \<Longrightarrow> admissible sched_step (\<lambda>e _. sched_event_ok e) es s \<Longrightarrow>
     registered (run sched_step es s) = run registry_step es (registered s)"
proof (induction es arbitrary: s)
  case (Cons e es)
  then have "sched_inv (sched_step e s)" by (auto intro: sched_inv_step)
  with Cons show ?case by (simp add: registered_step)
qed simp

lemma ListPlugin_registered:
  assumes inv: "sched_inv s" and a: "CHR 0x00 \<notin> set a"
  shows "v \<in> set (ListPlugin a s) \<longleftrightarrow> (\<exists>i. registered s (a, i) = Some v)"
proof
  assume "v \<in> set (ListPlugin a s)"
  then obtain k it where it: "(k, it) \<in> set (sc_plugin s)" "v = it_value it" "ps_owner v = a"
    by (auto simp: ListPlugin_def)
  with inv have "map_of (sc_plugin s) k = Some it" "k = sched_key a (ps_id v)" by (auto simp: sched_inv_def)
  with a it show "\<exists>i. registered s (a, i) = Some v" by (auto simp: registered_def)
next
  assume "\<exists>i. registered s (a, i) = Some v"
  then obtain i it where it: "map_of (sc_plugin s) (sched_key a i) = Some it" "v = it_value it"
    by (auto simp: registered_def split: if_splits)
  with inv have "sched_key a i = sched_key (ps_owner v) (ps_id v)" "CHR 0x00 \<notin> set (ps_owner v)"
    unfolding sched_inv_def by auto
  then have "ps_owner v = a" using a by (auto simp: sched_key_inj)
  with it show "v \<in> set (ListPlugin a s)" by (force simp: ListPlugin_def dest: map_of_SomeD)
qed

lemma sched_inv_New: "sched_inv New"
  by (simp add: sched_inv_def New_def)

text \<open>C12: As long as owners have no NUL byte, any sequence of registrations, removals, reloads, ticks and
  stops leaves the scheduler with exactly the schedules that the same sequence leaves on a map from
  owner and identifier: a registration of a taken pair changes nothing, removing an owner removes all
  of its schedules and none of another's, reloading the jobs or firing timers touches none, and a stop
  removes all; \<open>ListPlugin\<close> lists exactly the owner's schedules.\<close>

theorem registry_refines_map:
  assumes "admissible sched_step (\<lambda>e _. sched_event_ok e) es New"
  shows "registered (run sched_step es New) = run registry_step es (\<lambda>_. None)
    \<and> (CHR 0x00 \<notin> set a \<longrightarrow>
        (v \<in> set (ListPlugin a (run sched_step es New)) \<longleftrightarrow> (\<exists>i. run registry_step es (\<lambda>_. None) (a, i) = Some v)))"
proof -
  have "registered New = (\<lambda>_. None)" by (simp add: registered_def New_def fun_eq_iff)
  with registered_run [OF sched_inv_New assms] have eq: "registered (run sched_step es New) = run registry_step es (\<lambda>_. None)"
    by simp
  with ListPlugin_registered [OF registry.run_inv [OF sched_inv_New assms], of a v] show ?thesis by simp
qed

definition sample_schedule :: "string \<Rightarrow> plugin_schedule" where
  "sample_schedule a = \<lparr>ps_owner = a, ps_id = ''i'', ps_callback = ''c'',
     ps_schedule = \<lparr>sp_type = ScheduleInterval, sp_interval = 5, sp_time_of_day = [], sp_cron = [], sp_time_zone = []\<rparr>, ps_data = []\<rparr>"

definition utc_zones :: zones where
  "utc_zones = \<lparr>zn_load = (\<lambda>_. Inl ''unknown''), zn_local = (\<lambda>_. 0)\<rparr>"

theorem registry_refines_map_witness:
  "registered (run sched_step [SRegister utc_zones 0 (sample_schedule ''a''), SRegister utc_zones 0 (sample_schedule ''b''),
       SRemoveOwner ''a''] New) =
   run registry_step [SRegister utc_zones 0 (sample_schedule ''a''), SRegister utc_zones 0 (sample_schedule ''b''),
       SRemoveOwner ''a''] (\<lambda>_. None)"
  by (rule registry_refines_map [THEN conjunct1]) (simp add: sample_schedule_def)

text \<open>With a NUL byte in an owner the separation fails: the second registration is refused, although its
  owner and identifier are new.\<close>

lemma nul_owner_collides:
  "(let v = (sample_schedule ''a'')\<lparr>ps_id := ''b'' @ CHR 0x00 # ''i''\<rparr>;
        w = sample_schedule (''a'' @ CHR 0x00 # ''b'')
    in fst (RegisterPlugin utc_zones 0 w (snd (RegisterPlugin utc_zones 0 v New))) \<noteq> None)"
  by code_simp

subsection \<open>Jobs\<close>

lemma compile_jobs_Inr:
  "compile_jobs z now defs = Inr js \<Longrightarrow> map sj_def js = filter j_enabled defs
     \<and> (\<forall>j \<in> set js. compile z (j_schedule (sj_def j)) = Inr (sj_next j) \<and> sj_deadline j = arm (sj_next j) now)"
proof (induction defs arbitrary: js)
  case (Cons d ds)
  then show ?case by (auto simp: bind_result_Inr split: if_splits sum.splits)
qed simp

lemma compile_jobs_ok: "is_ok (compile_jobs z now defs) \<longleftrightarrow> (\<forall>d \<in> set defs. j_enabled d \<longrightarrow> is_ok (compile z (j_schedule d)))"
proof (induction defs)
  case (Cons d ds)
  then show ?case by (cases "compile z (j_schedule d)") (auto simp: bind_result_ok is_ok_iff bind_result_Inr)
qed simp

text \<open>\<open>Reload\<close> is all or nothing: it fails exactly when the schedule of some enabled job does not
  compile, and then leaves the scheduler as it was; otherwise exactly the enabled jobs are scheduled, each
  for the next instant of its schedule, and no plugin schedule is touched.\<close>

theorem Reload_all_or_nothing:
  "(case Reload z now defs s of
      (Some e, s') \<Rightarrow> s' = s \<and> (\<exists>d \<in> set defs. j_enabled d \<and> \<not> is_ok (compile z (j_schedule d)))
    | (None, s') \<Rightarrow> (\<forall>d \<in> set defs. j_enabled d \<longrightarrow> is_ok (compile z (j_schedule d)))
        \<and> sc_plugin s' = sc_plugin s
        \<and> (\<exists>js. sc_jobs s' = Some js \<and> map sj_def js = filter j_enabled defs
             \<and> (\<forall>j \<in> set js. compile z (j_schedule (sj_def j)) = Inr (sj_next j) \<and> sj_deadline j = arm (sj_next j) now)))"
  using compile_jobs_Inr [of z now defs] compile_jobs_ok [of z now defs]
  by (auto simp: Reload_def stopJobs_def is_ok_def split: sum.splits)

theorem Reload_all_or_nothing_witness:
  "\<exists>js. sc_jobs (snd (Reload utc_zones 0 [] New)) = Some js \<and> map sj_def js = []"
proof -
  have "fst (Reload utc_zones 0 [] New) = None" by code_simp
  with Reload_all_or_nothing [where z = utc_zones and now = 0 and defs = "[]" and s = New] show ?thesis
    by (cases "Reload utc_zones 0 [] New") auto
qed

end
