(* ===== verification/NetStreams.thy ===== *)
theory NetStreams
  imports Prelude
begin

section \<open>Network streams of plugins\<close>

text \<open>
  Models \<^verbatim>\<open>internal/core/plugin_network_streams.go\<close>.  The request of a call is the decoded record, \<open>None\<close>
  when the JSON does not decode (unknown fields and trailing values included).  What the network does
  is an argument: the outcome of dialling, reading and writing.  A call that releases the manager's
  lock around the network is one step per critical section: the answer of \<open>read\<close> and \<open>write\<close> depends on
  the check under the lock, their only later effect is \<open>markClosed\<close>.  Instants are nanoseconds.
\<close>

subsection \<open>Addresses\<close>

text \<open>\<^verbatim>\<open>net.ParseIP(s) != nil\<close>: four decimal numbers, or IPv6 with at most one ellipsis and an optional
  trailing IPv4 part; no zone.\<close>

definition is_ipv4 :: "string \<Rightarrow> bool" where
  "is_ipv4 s =
     (let parts = split_on (CHR ''.'') s
      in length parts = 4
         \<and> list_all (\<lambda>p. p \<noteq> [] \<and> length p \<le> 3 \<and> list_all is_digit p \<and> digits_value p \<le> 255
               \<and> (length p = 1 \<or> hd p \<noteq> CHR ''0'')) parts)"

definition is_hex :: "char \<Rightarrow> bool" where
  "is_hex c = (is_digit c \<or> c \<in> set ''abcdefABCDEF'')"

text \<open>The fields from the \<open>i\<close>-th byte of the address on; \<open>ell\<close> tells whether an ellipsis was seen.\<close>

function ipv6_fields :: "nat \<Rightarrow> bool \<Rightarrow> string \<Rightarrow> bool" where
  "ipv6_fields i ell s =
     (let h = takeWhile is_hex s; rest = dropWhile is_hex s
      in if 16 \<le> i \<or> h = [] \<or> 4 < length h then False
         else if rest = [] then (if ell then i + 2 < 16 else i + 2 = 16)
         else if hd rest = CHR ''.'' then (if ell then i + 4 < 16 else i + 4 = 16) \<and> is_ipv4 s
         else if hd rest \<noteq> CHR '':'' \<or> tl rest = [] then False
         else if hd (tl rest) = CHR '':'' then
           \<not> ell \<and> (if tl (tl rest) = [] then i + 2 < 16 else ipv6_fields (i + 2) True (tl (tl rest)))
         else ipv6_fields (i + 2) ell (tl rest))"
  by pat_completeness auto

termination
  by (relation "measure (\<lambda>(i, ell, s). 16 - i)") auto

declare ipv6_fields.simps [simp del]

definition is_ipv6 :: "string \<Rightarrow> bool" where
  "is_ipv6 s =
     (if prefix ''::'' s then (drop 2 s = [] \<or> ipv6_fields 0 True (drop 2 s)) else ipv6_fields 0 False s)"

definition parse_ip :: "string \<Rightarrow> bool" where
  "parse_ip s =
     (case find (\<lambda>c. c \<in> set ''.:%'') s of
        Some c \<Rightarrow> if c = CHR ''.'' then is_ipv4 s else if c = CHR '':'' then is_ipv6 s else False
      | None \<Rightarrow> False)"

definition host_specials :: string where
  "host_specials = CHR 0x5C # CHR 0x00 # '':/?#@[]''"

definition valid_label :: "string \<Rightarrow> bool" where
  "valid_label l =
     (l \<noteq> [] \<and> length l \<le> 63 \<and> hd l \<noteq> CHR ''-'' \<and> last l \<noteq> CHR ''-''
      \<and> list_all (\<lambda>c. is_alnum c \<or> c = CHR ''-'') l)"

definition validNetworkHost :: "string \<Rightarrow> bool" where
  "validNetworkHost host =
     (if host = [] \<or> trim_space host \<noteq> host \<or> 253 < length host \<or> contains_any host host_specials
      then parse_ip host \<and> length host \<le> 45
      else if parse_ip host then True
      else list_all valid_label (split_on (CHR ''.'') host))"

subsection \<open>The manager\<close>

definition maxPluginNetworkStreamsPerOwner :: nat where "maxPluginNetworkStreamsPerOwner = 8"
definition maxPluginNetworkStreamsGlobal :: nat where "maxPluginNetworkStreamsGlobal = 64"
definition maxPluginNetworkRecordsPerOwner :: nat where "maxPluginNetworkRecordsPerOwner = 32"
definition maxPluginNetworkRecordsGlobal :: nat where "maxPluginNetworkRecordsGlobal = 256"
definition maxPluginNetworkStreamBytes :: int where "maxPluginNetworkStreamBytes = 65536"
definition maxPluginNetworkLookahead :: int where "maxPluginNetworkLookahead = 65536"
definition pluginNetworkStreamRetention :: int where "pluginNetworkStreamRetention = 300 * 10 ^ 9"

record net_stream =
  ns_owner :: string
  ns_state :: string
  ns_attached :: bool
  ns_closed_at :: int

record net_manager =
  nm_items :: "net_stream table"
  nm_closed :: bool

definition newPluginNetworkStreamManager :: net_manager where
  "newPluginNetworkStreamManager = \<lparr>nm_items = [], nm_closed = False\<rparr>"

definition is_open :: "net_stream \<Rightarrow> bool" where
  "is_open i = (ns_state i = ''open'')"

definition networkInvalid :: "string \<Rightarrow> host_failure" where
  "networkInvalid message = (''invalid_argument'', message)"

record net_open =
  no_host :: string
  no_port :: int
  no_timeout :: int
  no_tls :: bool
  no_server_name :: string

datatype dial_outcome = Dialled | DialTimedOut | DialFailed

definition pruneClosedLocked :: "int \<Rightarrow> net_stream table \<Rightarrow> net_stream table" where
  "pruneClosedLocked now items =
     keep_if (\<lambda>_ i. \<not> (\<not> is_open i \<and> pluginNetworkStreamRetention \<le> now - ns_closed_at i)) items"

definition ownerRecordCountLocked :: "string \<Rightarrow> net_stream table \<Rightarrow> nat" where
  "ownerRecordCountLocked owner items = count_if (\<lambda>i. ns_owner i = owner) items"

definition evictable :: "string \<Rightarrow> net_stream \<Rightarrow> bool" where
  "evictable owner i = (\<not> (is_open i \<or> owner \<noteq> [] \<and> ns_owner i \<noteq> owner))"

fun oldest_closed :: "string \<Rightarrow> (string \<times> net_stream) option \<Rightarrow> net_stream table \<Rightarrow> (string \<times> net_stream) option" where
  "oldest_closed owner best [] = best"
| "oldest_closed owner best ((k, i) # rest) =
     oldest_closed owner
       (if \<not> evictable owner i then best
        else (case best of None \<Rightarrow> Some (k, i) | Some b \<Rightarrow> if ns_closed_at i < ns_closed_at (snd b) then Some (k, i) else best))
       rest"

definition evictOldestClosedLocked :: "string \<Rightarrow> net_stream table \<Rightarrow> net_stream table" where
  "evictOldestClosedLocked owner items =
     (case oldest_closed owner None items of None \<Rightarrow> items | Some (k, _) \<Rightarrow> AList.delete k items)"

text \<open>Room is made before the record limits are checked.\<close>

definition make_room :: "string \<Rightarrow> nat \<Rightarrow> net_stream table \<Rightarrow> net_stream table" where
  "make_room owner ownerRecords items0 =
     (let items = (if maxPluginNetworkRecordsPerOwner \<le> ownerRecords then evictOldestClosedLocked owner items0 else items0)
      in if maxPluginNetworkRecordsGlobal \<le> length items then evictOldestClosedLocked [] items else items)"

definition admit :: "string \<Rightarrow> string \<Rightarrow> int \<Rightarrow> net_manager \<Rightarrow> (host_failure, string) result \<times> net_manager" where
  "admit owner sid now m =
     (if nm_closed m then (Inl (''failed_precondition'', ''network stream manager is shutting down''), m)
      else (let items = pruneClosedLocked now (nm_items m);
                ownerRecords = count_if (\<lambda>i. ns_owner i = owner) items;
                active = count_if is_open items;
                owned = count_if (\<lambda>i. is_open i \<and> ns_owner i = owner) items
            in if maxPluginNetworkStreamsPerOwner \<le> owned \<or> maxPluginNetworkStreamsGlobal \<le> active then
                 (Inl (''resource_limit'', ''network stream limit reached''), m\<lparr>nm_items := items\<rparr>)
               else (let room = make_room owner ownerRecords items
                     in if maxPluginNetworkRecordsGlobal \<le> length room
                           \<or> maxPluginNetworkRecordsPerOwner \<le> ownerRecordCountLocked owner room then
                          (Inl (''resource_limit'', ''network stream record limit reached''), m\<lparr>nm_items := room\<rparr>)
                        else (Inr sid, m\<lparr>nm_items := AList.update sid
                               \<lparr>ns_owner = owner, ns_state = ''open'', ns_attached = False, ns_closed_at = 0\<rparr> room\<rparr>))))"

definition valid_open :: "net_open \<Rightarrow> bool" where
  "valid_open r =
     (validNetworkHost (no_host r) \<and> 1 \<le> no_port r \<and> no_port r \<le> 65535 \<and> 1 \<le> no_timeout r
      \<and> wrap64 (no_timeout r * 10 ^ 9) \<le> 30 * 10 ^ 9)"

text \<open>\<open>sid\<close> is the random identifier, \<open>None\<close> when none could be drawn.\<close>

definition open_stream :: "string \<Rightarrow> net_open option \<Rightarrow> dial_outcome \<Rightarrow> string option \<Rightarrow> int \<Rightarrow> net_manager
    \<Rightarrow> (host_failure, string) result \<times> net_manager" where
  "open_stream owner req dial sid now m =
     (case req of
        None \<Rightarrow> (Inl (networkInvalid ''host, port and connect timeout are invalid''), m)
      | Some r \<Rightarrow>
          if \<not> valid_open r then (Inl (networkInvalid ''host, port and connect timeout are invalid''), m)
          else if no_server_name r \<noteq> [] \<and> \<not> validNetworkHost (no_server_name r) then
            (Inl (networkInvalid ''TLS server name is invalid''), m)
          else (case dial of
              DialTimedOut \<Rightarrow> (Inl (''timeout'', ''network connection timed out''), m)
            | DialFailed \<Rightarrow> (Inl (''failed'', ''network connection failed''), m)
            | Dialled \<Rightarrow>
                (case sid of
                   None \<Rightarrow> (Inl (''failed'', ''could not allocate network stream''), m)
                 | Some i \<Rightarrow> admit owner i now m)))"

definition lookup :: "string \<Rightarrow> string \<Rightarrow> net_manager \<Rightarrow> (host_failure, net_stream) result" where
  "lookup owner sid m =
     (case map_of (nm_items m) sid of
        None \<Rightarrow> Inl (''not_found'', ''unknown network stream'')
      | Some i \<Rightarrow> if ns_owner i \<noteq> owner then Inl (''not_found'', ''unknown network stream'') else Inr i)"

text \<open>The stream changes state once; the result tells whether the owner is notified.\<close>

definition markClosed :: "string \<Rightarrow> string \<Rightarrow> int \<Rightarrow> net_manager \<Rightarrow> bool \<times> net_manager" where
  "markClosed sid state now m =
     (case map_of (nm_items m) sid of
        None \<Rightarrow> (False, m)
      | Some i \<Rightarrow>
          if is_open i then
            (True, m\<lparr>nm_items := modify sid (\<lambda>i. i\<lparr>ns_state := state, ns_closed_at := now\<rparr>) (nm_items m)\<rparr>)
          else (False, m))"

record net_read =
  nr_id :: string
  nr_max :: int
  nr_timeout :: int
  nr_peek :: bool
  nr_offset :: int

text \<open>What the reader does: bytes (possibly with the end of the stream), a timeout, or a failure.\<close>

datatype read_outcome = ReadBytes string bool | ReadTimedOut | ReadFailed

record net_data =
  nd_data :: string
  nd_eof :: bool
  nd_state :: string

definition read_check :: "string \<Rightarrow> net_read option \<Rightarrow> net_manager \<Rightarrow> (host_failure, string) result" where
  "read_check owner req m =
     (case req of
        None \<Rightarrow> Inl (networkInvalid ''id and read parameters are required'')
      | Some r \<Rightarrow>
          if nr_id r = [] then Inl (networkInvalid ''id and read parameters are required'')
          else if nr_max r < 1 \<or> maxPluginNetworkStreamBytes < nr_max r then
            Inl (networkInvalid ''maxBytes must be between 1 and 65536'')
          else if nr_timeout r < 1 \<or> 5 * 10 ^ 9 < wrap64 (nr_timeout r * 10 ^ 6) then
            Inl (networkInvalid ''timeoutMilliseconds must be between 1 and 5000'')
          else if nr_offset r < 0 \<or> nr_peek r \<and> maxPluginNetworkLookahead < wrap64 (nr_offset r + nr_max r) then
            Inl (networkInvalid ''lookahead offset and maxBytes exceed the 65536-byte limit'')
          else bind_result (lookup owner (nr_id r) m) (\<lambda>i.
            if \<not> is_open i \<or> ns_attached i then
              Inl (''failed_precondition'', ''network stream is not available for reads: '' @ ns_state i)
            else Inr (nr_id r)))"

text \<open>
  How the buffered reader gets there: \<open>buffered\<close> is what it holds once it has waited for the byte the
  call needs, \<open>fin\<close> what the connection answers when that byte does not come.  A peek looks behind
  \<open>nr_offset\<close> bytes and consumes nothing.
\<close>

definition reader_outcome :: "net_read \<Rightarrow> string \<Rightarrow> read_outcome \<Rightarrow> read_outcome" where
  "reader_outcome r buffered fin =
     (if nr_peek r then
        (if nr_offset r < int (length buffered)
         then ReadBytes (take (nat (nr_max r)) (drop (nat (nr_offset r)) buffered)) False else fin)
      else if buffered \<noteq> [] then ReadBytes (take (nat (nr_max r)) buffered) False else fin)"

definition read_answer :: "read_outcome \<Rightarrow> (host_failure, net_data) result" where
  "read_answer out =
     (case out of
        ReadBytes d eof \<Rightarrow> Inr \<lparr>nd_data = d, nd_eof = eof, nd_state = (if eof then ''eof'' else ''open'')\<rparr>
      | ReadTimedOut \<Rightarrow> Inl (''timeout'', ''network stream read timed out'')
      | ReadFailed \<Rightarrow> Inl (''failed'', ''network stream read failed''))"

definition read_effect :: "string \<Rightarrow> read_outcome \<Rightarrow> int \<Rightarrow> net_manager \<Rightarrow> net_manager" where
  "read_effect sid out now m =
     (case out of
        ReadBytes d eof \<Rightarrow> if eof then snd (markClosed sid ''eof'' now m) else m
      | ReadTimedOut \<Rightarrow> m
      | ReadFailed \<Rightarrow> snd (markClosed sid ''failed'' now m))"

definition read_stream :: "string \<Rightarrow> net_read option \<Rightarrow> read_outcome \<Rightarrow> int \<Rightarrow> net_manager
    \<Rightarrow> (host_failure, net_data) result \<times> net_manager" where
  "read_stream owner req out now m =
     (case read_check owner req m of
        Inl e \<Rightarrow> (Inl e, m)
      | Inr sid \<Rightarrow> (read_answer out, read_effect sid out now m))"

text \<open>\<open>write\<close> hands the connection what is left until nothing is; each attempt writes some bytes, times
  out, fails, or writes nothing.\<close>

datatype write_attempt = Wrote nat | WriteTimedOut | WriteFailed

fun write_loop :: "write_attempt list \<Rightarrow> string \<Rightarrow> write_attempt option" where
  "write_loop as [] = None"
| "write_loop [] (b # bs) = Some WriteFailed"
| "write_loop (a # as) (b # bs) =
     (case a of Wrote n \<Rightarrow> if n = 0 then Some (Wrote 0) else write_loop as (drop n (b # bs)) | _ \<Rightarrow> Some a)"

text \<open>\<open>data\<close> is the decoded payload, \<open>None\<close> when the base64 text is empty, too long or malformed.\<close>

definition write_check :: "string \<Rightarrow> (string \<times> string option) option \<Rightarrow> net_manager \<Rightarrow> (host_failure, string \<times> string) result" where
  "write_check owner req m =
     (case req of
        None \<Rightarrow> Inl (networkInvalid ''id and data containing at most 65536 bytes are required'')
      | Some (sid, None) \<Rightarrow>
          Inl (networkInvalid (if sid = [] then ''id and data containing at most 65536 bytes are required''
                               else ''data must be valid base64 containing at most 65536 bytes''))
      | Some (sid, Some data) \<Rightarrow>
          if sid = [] then Inl (networkInvalid ''id and data containing at most 65536 bytes are required'')
          else if data = [] \<or> maxPluginNetworkStreamBytes < int (length data) then
            Inl (networkInvalid ''data must be valid base64 containing at most 65536 bytes'')
          else bind_result (lookup owner sid m) (\<lambda>i.
            if \<not> is_open i \<or> ns_attached i then
              Inl (''failed_precondition'', ''network stream is not available for writes'')
            else Inr (sid, data)))"

definition write_stream :: "string \<Rightarrow> (string \<times> string option) option \<Rightarrow> write_attempt list \<Rightarrow> int \<Rightarrow> net_manager
    \<Rightarrow> (host_failure, unit) result \<times> net_manager" where
  "write_stream owner req attempts now m =
     (case write_check owner req m of
        Inl e \<Rightarrow> (Inl e, m)
      | Inr (sid, data) \<Rightarrow>
          (case write_loop attempts data of
             None \<Rightarrow> (Inr (), m)
           | Some WriteTimedOut \<Rightarrow> (Inl (''timeout'', ''network stream write timed out''), m)
           | Some WriteFailed \<Rightarrow> (Inl (''failed'', ''network stream write failed''), snd (markClosed sid ''failed'' now m))
           | Some (Wrote _) \<Rightarrow> (Inl (''failed'', ''network stream write failed''), m)))"

definition closeStream :: "string \<Rightarrow> string option \<Rightarrow> int \<Rightarrow> net_manager \<Rightarrow> (host_failure, unit) result \<times> net_manager" where
  "closeStream owner req now m =
     (case req of
        None \<Rightarrow> (Inl (networkInvalid ''id is required''), m)
      | Some sid \<Rightarrow>
          if sid = [] then (Inl (networkInvalid ''id is required''), m)
          else (case map_of (nm_items m) sid of
              None \<Rightarrow> (Inr (), m)
            | Some i \<Rightarrow>
                if ns_owner i \<noteq> owner then (Inl (''not_found'', ''unknown network stream''), m)
                else (Inr (), snd (markClosed sid ''closed'' now m))))"

definition attach :: "string \<Rightarrow> string \<Rightarrow> net_manager \<Rightarrow> (host_failure, unit) result \<times> net_manager" where
  "attach owner sid m =
     (case lookup owner sid m of
        Inl e \<Rightarrow> (Inl e, m)
      | Inr i \<Rightarrow>
          if \<not> is_open i \<or> ns_attached i then
            (Inl (''failed_precondition'', ''network stream is not available for attachment''), m)
          else (Inr (), m\<lparr>nm_items := modify sid (\<lambda>i. i\<lparr>ns_attached := True\<rparr>) (nm_items m)\<rparr>))"

text \<open>What the function that \<open>attach\<close> returns does, and the timer that \<open>markClosed\<close> starts.\<close>

definition release_stream :: "string \<Rightarrow> int \<Rightarrow> net_manager \<Rightarrow> net_manager" where
  "release_stream sid now m = snd (markClosed sid ''closed'' now m)"

definition retire :: "string \<Rightarrow> net_manager \<Rightarrow> net_manager" where
  "retire sid m =
     (case map_of (nm_items m) sid of
        None \<Rightarrow> m
      | Some i \<Rightarrow> if is_open i then m else m\<lparr>nm_items := AList.delete sid (nm_items m)\<rparr>)"

definition stopOwner :: "string \<Rightarrow> net_manager \<Rightarrow> net_manager" where
  "stopOwner owner m = m\<lparr>nm_items := keep_if (\<lambda>_ i. ns_owner i \<noteq> owner) (nm_items m)\<rparr>"

definition close_manager :: "net_manager \<Rightarrow> net_manager" where
  "close_manager m = m\<lparr>nm_closed := True, nm_items := []\<rparr>"

subsection \<open>Limits\<close>

text \<open>The steps of the manager, each one critical section.\<close>

datatype net_event =
  NOpen string "net_open option" dial_outcome "string option" int
| NRead string "net_read option" read_outcome int
| NWrite string "(string \<times> string option) option" "write_attempt list" int
| NClose string "string option" int
| NAttach string string
| NRelease string int
| NRetire string
| NStopOwner string
| NShutdown

fun net_step :: "net_event \<Rightarrow> net_manager \<Rightarrow> net_manager" where
  "net_step (NOpen owner req dial sid now) m = snd (open_stream owner req dial sid now m)"
| "net_step (NRead owner req out now) m = snd (read_stream owner req out now m)"
| "net_step (NWrite owner req as now) m = snd (write_stream owner req as now m)"
| "net_step (NClose owner req now) m = snd (closeStream owner req now m)"
| "net_step (NAttach owner sid) m = snd (attach owner sid m)"
| "net_step (NRelease sid now) m = release_stream sid now m"
| "net_step (NRetire sid) m = retire sid m"
| "net_step (NStopOwner owner) m = stopOwner owner m"
| "net_step NShutdown m = close_manager m"

definition net_limits :: "net_manager \<Rightarrow> bool" where
  "net_limits m =
     (count_if is_open (nm_items m) \<le> maxPluginNetworkStreamsGlobal
      \<and> length (nm_items m) \<le> maxPluginNetworkRecordsGlobal
      \<and> (\<forall>a. count_if (\<lambda>i. is_open i \<and> ns_owner i = a) (nm_items m) \<le> maxPluginNetworkStreamsPerOwner
            \<and> count_if (\<lambda>i. ns_owner i = a) (nm_items m) \<le> maxPluginNetworkRecordsPerOwner))"

text \<open>An operation that adds no record and opens no stream keeps every limit.\<close>

definition no_more :: "net_stream table \<Rightarrow> net_stream table \<Rightarrow> bool" where
  "no_more t' t = (length t' \<le> length t \<and> (\<forall>a. count_if (\<lambda>i. is_open i \<and> ns_owner i = a) t' \<le> count_if (\<lambda>i. is_open i \<and> ns_owner i = a) t
     \<and> count_if (\<lambda>i. ns_owner i = a) t' \<le> count_if (\<lambda>i. ns_owner i = a) t) \<and> count_if is_open t' \<le> count_if is_open t)"

lemma no_more_refl [simp]: "no_more t t"
  by (simp add: no_more_def)

lemma no_more_trans: "no_more t u \<Longrightarrow> no_more u v \<Longrightarrow> no_more t v"
  by (meson no_more_def order_trans)

lemma no_more_Nil [simp]: "no_more [] t"
  by (simp add: no_more_def)

lemma length_keep_if: "length (keep_if P t) \<le> length t"
  by (simp add: keep_if_def)

lemma no_more_keep [simp]: "no_more (keep_if P t) t"
  by (simp add: no_more_def length_keep_if count_if_keep_le)

lemma no_more_delete [simp]: "no_more (AList.delete k t) t"
  by (simp add: no_more_def length_delete_le count_if_delete_le)

lemma no_more_modify:
  assumes "\<And>i. ns_owner (f i) = ns_owner i" "\<And>i. is_open (f i) \<Longrightarrow> is_open i"
  shows "no_more (modify k f t) t"
  using assms by (auto simp: no_more_def intro!: count_if_modify_le)

lemma net_limits_no_more: "net_limits m \<Longrightarrow> no_more (nm_items m') (nm_items m) \<Longrightarrow> net_limits m'"
  by (meson net_limits_def no_more_def order_trans)

lemma no_more_markClosed: "state \<noteq> ''open'' \<Longrightarrow> no_more (nm_items (snd (markClosed sid state now m))) (nm_items m)"
  by (auto simp: markClosed_def is_open_def intro!: no_more_modify split: option.splits)


lemma no_more_evict [simp]: "no_more (evictOldestClosedLocked owner t) t"
  by (simp add: evictOldestClosedLocked_def split: option.splits)

lemma no_more_room: "no_more (make_room owner n t) t"
proof -
  have "no_more (evictOldestClosedLocked [] (evictOldestClosedLocked owner t)) t"
    by (rule no_more_trans [of _ "evictOldestClosedLocked owner t"]) simp_all
  then show ?thesis by (simp add: make_room_def Let_def)
qed

lemma length_update: "length (AList.update k v t) \<le> Suc (length t)"
  by (induction t) auto

lemma net_limits_admit:
  assumes lim: "net_limits m"
  shows "net_limits (snd (admit owner sid now m))"
proof -
  let ?items = "pruneClosedLocked now (nm_items m)"
  let ?room = "make_room owner (count_if (\<lambda>i. ns_owner i = owner) ?items) ?items"
  let ?new = "\<lparr>ns_owner = owner, ns_state = ''open'', ns_attached = False, ns_closed_at = 0\<rparr>"
  have prune: "no_more ?items (nm_items m)" by (simp add: pruneClosedLocked_def)
  have room: "no_more ?room ?items" by (rule no_more_room)
  have added: "net_limits (m\<lparr>nm_items := AList.update sid ?new ?room\<rparr>)"
    if own: "count_if (\<lambda>i. is_open i \<and> ns_owner i = owner) ?items < maxPluginNetworkStreamsPerOwner"
      and act: "count_if is_open ?items < maxPluginNetworkStreamsGlobal"
      and rec: "length ?room < maxPluginNetworkRecordsGlobal"
      and ownrec: "ownerRecordCountLocked owner ?room < maxPluginNetworkRecordsPerOwner"
  proof -
    have up: "count_if P (AList.update sid ?new ?room) \<le> count_if P ?room + (if P ?new then 1 else 0)" for P
      by (rule count_if_update_le)
    have le: "net_limits (m\<lparr>nm_items := ?room\<rparr>)"
      using net_limits_no_more [OF lim, of "m\<lparr>nm_items := ?room\<rparr>"] no_more_trans [OF room prune] by simp
    have "count_if (\<lambda>i. is_open i \<and> ns_owner i = a) (AList.update sid ?new ?room) \<le> maxPluginNetworkStreamsPerOwner" for a
    proof (cases "a = owner")
      case True
      have "count_if (\<lambda>i. is_open i \<and> ns_owner i = owner) ?room \<le> count_if (\<lambda>i. is_open i \<and> ns_owner i = owner) ?items"
        using room by (simp add: no_more_def)
      with True up [of "\<lambda>i. is_open i \<and> ns_owner i = owner"] own show ?thesis by (simp add: is_open_def)
    next
      case False
      with up [of "\<lambda>i. is_open i \<and> ns_owner i = a"] le show ?thesis
        by (fastforce simp: net_limits_def intro: order_trans)
    qed
    moreover have "count_if (\<lambda>i. ns_owner i = a) (AList.update sid ?new ?room) \<le> maxPluginNetworkRecordsPerOwner" for a
    proof (cases "a = owner")
      case True
      with up [of "\<lambda>i. ns_owner i = owner"] ownrec show ?thesis by (simp add: ownerRecordCountLocked_def)
    next
      case False
      with up [of "\<lambda>i. ns_owner i = a"] le show ?thesis
        by (fastforce simp: net_limits_def intro: order_trans)
    qed
    moreover have "count_if is_open (AList.update sid ?new ?room) \<le> maxPluginNetworkStreamsGlobal"
    proof -
      have "count_if is_open ?room \<le> count_if is_open ?items" using room by (simp add: no_more_def)
      with up [of is_open] act show ?thesis by (simp add: is_open_def)
    qed
    moreover have "length (AList.update sid ?new ?room) \<le> maxPluginNetworkRecordsGlobal"
      using length_update [of sid ?new ?room] rec by simp
    ultimately show ?thesis by (simp add: net_limits_def)
  qed
  have "net_limits (m\<lparr>nm_items := ?items\<rparr>)" "net_limits (m\<lparr>nm_items := ?room\<rparr>)"
    using net_limits_no_more [OF lim, of "m\<lparr>nm_items := ?items\<rparr>"]
      net_limits_no_more [OF lim, of "m\<lparr>nm_items := ?room\<rparr>"] prune no_more_trans [OF room prune] by simp_all
  with lim added show ?thesis by (auto simp: admit_def Let_def not_le)
qed

lemma net_limits_step: "net_limits m \<Longrightarrow> net_limits (net_step e m)"
proof (induction e m rule: net_step.induct)
  case (1 owner req dial sid now m)
  then show ?case by (auto simp: open_stream_def net_limits_admit split: option.splits dial_outcome.splits)
next
  case (2 owner req out now m)
  then show ?case
    by (auto simp: read_stream_def read_effect_def elim!: net_limits_no_more intro!: no_more_markClosed
        split: sum.splits read_outcome.splits)
next
  case (3 owner req as now m)
  then show ?case
    by (auto simp: write_stream_def elim!: net_limits_no_more intro!: no_more_markClosed
        split: sum.splits option.splits write_attempt.splits)
next
  case (4 owner req now m)
  then show ?case
    by (auto simp: closeStream_def elim!: net_limits_no_more intro!: no_more_markClosed split: option.splits)
next
  case (5 owner sid m)
  then show ?case
    by (auto simp: attach_def is_open_def elim!: net_limits_no_more intro!: no_more_modify split: sum.splits)
next
  case (6 sid now m)
  then show ?case by (auto simp: release_stream_def elim!: net_limits_no_more intro!: no_more_markClosed)
next
  case (7 sid m)
  then show ?case by (auto simp: retire_def elim!: net_limits_no_more split: option.splits)
next
  case (8 owner m)
  then show ?case by (auto simp: stopOwner_def elim!: net_limits_no_more)
next
  case (9 m)
  then show ?case by (auto simp: close_manager_def elim!: net_limits_no_more)
qed

interpretation net_machine: machine net_step net_limits
  by unfold_locales (rule net_limits_step)

lemma net_limits_new: "net_limits newPluginNetworkStreamManager"
  by (simp add: net_limits_def newPluginNetworkStreamManager_def)

text \<open>C13: Whatever calls come in whatever order, an owner never has more than 8 open streams and 32
  records, and all owners together never more than 64 open streams and 256 records.\<close>

theorem net_limits_always:
  "(let t = nm_items (run net_step es newPluginNetworkStreamManager)
    in count_if is_open t \<le> 64 \<and> length t \<le> 256
       \<and> count_if (\<lambda>i. is_open i \<and> ns_owner i = a) t \<le> 8 \<and> count_if (\<lambda>i. ns_owner i = a) t \<le> 32)"
  using net_machine.run_inv [OF net_limits_new, of es]
  by (simp add: net_limits_def Let_def maxPluginNetworkStreamsPerOwner_def maxPluginNetworkStreamsGlobal_def
      maxPluginNetworkRecordsPerOwner_def maxPluginNetworkRecordsGlobal_def)


subsection \<open>Owners\<close>

definition open_of :: "string \<Rightarrow> net_manager \<Rightarrow> net_stream table" where
  "open_of b m = filter (\<lambda>(k, i). is_open i \<and> ns_owner i = b) (nm_items m)"

fun net_actor :: "net_event \<Rightarrow> string option" where
  "net_actor (NOpen owner _ _ _ _) = Some owner"
| "net_actor (NRead owner _ _ _) = Some owner"
| "net_actor (NWrite owner _ _ _) = Some owner"
| "net_actor (NClose owner _ _) = Some owner"
| "net_actor (NAttach owner _) = Some owner"
| "net_actor (NStopOwner owner) = Some owner"
| "net_actor _ = None"

text \<open>A drawn identifier is not in use.\<close>

fun net_fresh :: "net_event \<Rightarrow> net_manager \<Rightarrow> bool" where
  "net_fresh (NOpen _ _ _ (Some sid) _) m = (sid \<notin> fst ` set (nm_items m))"
| "net_fresh _ m = True"

definition net_keys :: "net_manager \<Rightarrow> bool" where
  "net_keys m = keys_distinct (nm_items m)"

lemma oldest_closed_in:
  "oldest_closed owner best t = Some (k, i) \<Longrightarrow> best = Some (k, i) \<or> (k, i) \<in> set t \<and> evictable owner i"
  by (induction owner best t rule: oldest_closed.induct) (auto split: if_splits option.splits)

lemma filter_delete_other:
  "keys_distinct t \<Longrightarrow> (k, i) \<in> set t \<Longrightarrow> \<not> P (k, i) \<Longrightarrow> filter P (AList.delete k t) = filter P t"
proof -
  assume t: "keys_distinct t" "(k, i) \<in> set t" "\<not> P (k, i)"
  have "x = (k, i)" if "x \<in> set t" "fst x = k" for x
    using t that by (metis eq_key_imp_eq_value prod.collapse)
  with t(3) show ?thesis by (auto simp: AList.delete_eq intro!: filter_cong)
qed

lemma filter_evict:
  assumes "keys_distinct t" "\<And>k i. P (k, i) \<Longrightarrow> is_open i"
  shows "filter P (evictOldestClosedLocked owner t) = filter P t"
proof (cases "oldest_closed owner None t")
  case (Some ki)
  then obtain k i where ki: "ki = (k, i)" by (cases ki)
  with Some oldest_closed_in [of owner None t k i] have "(k, i) \<in> set t" "evictable owner i" by auto
  moreover then have "\<not> P (k, i)" using assms(2) by (auto simp: evictable_def)
  ultimately have "filter P (AList.delete k t) = filter P t" by (intro filter_delete_other assms(1))
  with Some ki show ?thesis by (simp add: evictOldestClosedLocked_def)
qed (simp add: evictOldestClosedLocked_def)

lemma keys_evict [simp]: "keys_distinct t \<Longrightarrow> keys_distinct (evictOldestClosedLocked owner t)"
  by (simp add: evictOldestClosedLocked_def split: option.splits)

lemma filter_room:
  assumes "keys_distinct t" "\<And>k i. P (k, i) \<Longrightarrow> is_open i"
  shows "filter P (make_room owner n t) = filter P t"
  using assms by (simp add: make_room_def Let_def filter_evict)

lemma keys_room [simp]: "keys_distinct t \<Longrightarrow> keys_distinct (make_room owner n t)"
  by (simp add: make_room_def Let_def)

lemma filter_update_other:
  "k \<notin> fst ` set t \<Longrightarrow> \<not> P (k, v) \<Longrightarrow> filter P (AList.update k v t) = filter P t"
  by (induction t) auto

lemma filter_modify_other:
  "\<forall>(k', i) \<in> set t. k' = k \<longrightarrow> \<not> P (k, i) \<and> \<not> P (k, f i) \<Longrightarrow> filter P (modify k f t) = filter P t"
  by (induction t) (auto simp: modify_Cons)

lemma subset_room: "fst ` set (make_room owner n t) \<subseteq> fst ` set t"
  by (auto simp: make_room_def Let_def evictOldestClosedLocked_def AList.delete_eq split: option.splits if_splits)

lemma open_of_admit:
  assumes "net_keys m" "sid \<notin> fst ` set (nm_items m)" "a \<noteq> b"
  shows "open_of b (snd (admit a sid now m)) = open_of b m"
proof -
  let ?P = "\<lambda>(k :: string, i). is_open i \<and> ns_owner i = b"
  let ?items = "pruneClosedLocked now (nm_items m)"
  have keys: "keys_distinct ?items" using assms(1) by (simp add: pruneClosedLocked_def net_keys_def)
  have prune: "filter ?P ?items = filter ?P (nm_items m)"
    by (auto simp: pruneClosedLocked_def keep_if_def intro!: filter_cong)
  have room: "filter ?P (make_room a n ?items) = filter ?P ?items" for n
    using keys by (intro filter_room) auto
  have "sid \<notin> fst ` set (make_room a n ?items)" for n
    using assms(2) subset_room [of a n ?items] by (auto simp: pruneClosedLocked_def keep_if_def)
  from filter_update_other [OF this] assms(3) prune room show ?thesis
    by (auto simp: admit_def Let_def open_of_def)
qed

lemma open_of_modify:
  assumes "net_keys m" "map_of (nm_items m) sid = Some i" "ns_owner i \<noteq> b" "\<And>i. ns_owner (f i) = ns_owner i"
  shows "open_of b (m\<lparr>nm_items := modify sid f (nm_items m)\<rparr>) = open_of b m"
proof -
  have "i' = i" if "(sid, i') \<in> set (nm_items m)" for i'
    using assms(1,2) that by (simp add: net_keys_def)
  with assms(3,4) show ?thesis by (auto simp: open_of_def intro!: filter_modify_other)
qed

lemma open_of_markClosed:
  "net_keys m \<Longrightarrow> map_of (nm_items m) sid = Some i \<Longrightarrow> ns_owner i \<noteq> b \<Longrightarrow>
     open_of b (snd (markClosed sid state now m)) = open_of b m"
  by (simp add: markClosed_def open_of_modify)

lemma lookup_owned: "lookup a sid m = Inr i \<Longrightarrow> map_of (nm_items m) sid = Some i \<and> ns_owner i = a"
  by (auto simp: lookup_def split: option.splits if_splits)

lemma read_check_owned:
  "read_check a req m = Inr sid \<Longrightarrow> \<exists>i. map_of (nm_items m) sid = Some i \<and> ns_owner i = a \<and> is_open i \<and> \<not> ns_attached i"
  by (auto simp: read_check_def bind_result_Inr dest!: lookup_owned split: option.splits if_splits)

lemma write_check_owned:
  "write_check a req m = Inr (sid, data) \<Longrightarrow> \<exists>i. map_of (nm_items m) sid = Some i \<and> ns_owner i = a \<and> is_open i \<and> \<not> ns_attached i"
  by (auto simp: write_check_def bind_result_Inr dest!: lookup_owned split: option.splits if_splits)

lemma keys_markClosed [simp]: "net_keys m \<Longrightarrow> net_keys (snd (markClosed sid state now m))"
  by (simp add: markClosed_def net_keys_def split: option.splits)

lemma net_keys_admit: "net_keys m \<Longrightarrow> net_keys (snd (admit a sid now m))"
  by (simp add: admit_def Let_def net_keys_def pruneClosedLocked_def)

lemmas net_ops = open_stream_def read_stream_def read_effect_def write_stream_def closeStream_def attach_def
  release_stream_def retire_def stopOwner_def close_manager_def

lemma net_keys_step: "net_keys m \<Longrightarrow> net_keys (net_step e m)"
  by (cases e) (auto simp: net_ops net_keys_admit net_keys_def [of "m\<lparr>nm_items := _\<rparr>"] net_keys_def [of "m\<lparr>nm_closed := _, nm_items := _\<rparr>"]
      net_keys_def [of m] split: option.splits dial_outcome.splits sum.splits read_outcome.splits write_attempt.splits)

lemma open_of_step:
  assumes "net_keys m" "net_fresh e m" "net_actor e = Some a" "a \<noteq> b"
  shows "open_of b (net_step e m) = open_of b m"
proof (cases e)
  case (NOpen owner req dial sid now)
  with assms show ?thesis by (auto simp: open_stream_def open_of_admit split: option.splits dial_outcome.splits)
next
  case (NRead owner req out now)
  with assms show ?thesis
    by (auto simp: read_stream_def read_effect_def open_of_markClosed dest!: read_check_owned
        split: sum.splits read_outcome.splits)
next
  case (NWrite owner req as now)
  with assms show ?thesis
    by (auto simp: write_stream_def open_of_markClosed dest!: write_check_owned
        split: sum.splits option.splits write_attempt.splits)
next
  case (NClose owner req now)
  with assms show ?thesis by (auto simp: closeStream_def open_of_markClosed split: option.splits)
next
  case (NAttach owner sid)
  with assms show ?thesis by (auto simp: attach_def open_of_modify dest!: lookup_owned split: sum.splits)
next
  case (NStopOwner owner)
  with assms show ?thesis by (auto simp: open_of_def stopOwner_def keep_if_def intro!: filter_cong)
qed (use assms in auto)

interpretation net_owners: owner_machine net_step net_fresh net_keys open_of net_actor
  by unfold_locales (rule net_keys_step, assumption, rule open_of_step)

lemma foreign_refused:
  assumes "map_of (nm_items m) sid = Some i" "ns_owner i = b" "a \<noteq> b"
  shows "attach a sid m = (Inl (''not_found'', ''unknown network stream''), m)"
    and "sid \<noteq> [] \<Longrightarrow> closeStream a (Some sid) now m = (Inl (''not_found'', ''unknown network stream''), m)"
    and "nr_id r = sid \<Longrightarrow> \<exists>e. read_stream a (Some r) out now m = (Inl e, m)"
    and "\<exists>e. write_stream a (Some (sid, data)) attempts now m = (Inl e, m)"
proof -
  have unknown: "lookup a sid m = Inl (''not_found'', ''unknown network stream'')" using assms by (simp add: lookup_def)
  then have "nr_id r = sid \<Longrightarrow> \<exists>e. read_check a (Some r) m = Inl e" by (auto simp: read_check_def bind_result_def)
  then show "nr_id r = sid \<Longrightarrow> \<exists>e. read_stream a (Some r) out now m = (Inl e, m)" by (auto simp: read_stream_def)
  have "\<exists>e. write_check a (Some (sid, data)) m = Inl e"
    using unknown by (auto simp: write_check_def bind_result_def split: option.split)
  then show "\<exists>e. write_stream a (Some (sid, data)) attempts now m = (Inl e, m)" by (auto simp: write_stream_def)
qed (use assms in \<open>simp_all add: attach_def lookup_def closeStream_def\<close>)

text \<open>C14: No sequence of calls by other plugins changes the open streams of a plugin: none is closed,
  attached, evicted to make room or handed over.  Every call of another plugin that names a stream of it is refused and changes
  nothing: to attach or close it is answered as \<open>not_found\<close>, and to read from it or write to it never succeeds.\<close>

theorem net_streams_isolated:
  assumes "net_keys m" "admissible net_step net_fresh es m" "\<forall>e \<in> set es. \<exists>a. net_actor e = Some a \<and> a \<noteq> b"
  shows "open_of b (run net_step es m) = open_of b m
    \<and> (\<forall>sid i a now. map_of (nm_items m) sid = Some i \<longrightarrow> ns_owner i = b \<longrightarrow> a \<noteq> b \<longrightarrow> sid \<noteq> [] \<longrightarrow>
         attach a sid m = (Inl (''not_found'', ''unknown network stream''), m)
         \<and> closeStream a (Some sid) now m = (Inl (''not_found'', ''unknown network stream''), m)
         \<and> (\<forall>r out. nr_id r = sid \<longrightarrow> (\<exists>e. read_stream a (Some r) out now m = (Inl e, m)))
         \<and> (\<forall>data attempts. \<exists>e. write_stream a (Some (sid, data)) attempts now m = (Inl e, m)))"
  by (intro conjI allI impI net_owners.run_isolated [OF assms])
    ((rule foreign_refused; assumption)+)

definition sample_net :: net_manager where
  "sample_net = \<lparr>nm_items = [(''s'', \<lparr>ns_owner = ''b'', ns_state = ''open'', ns_attached = False, ns_closed_at = 0\<rparr>)], nm_closed = False\<rparr>"

theorem net_streams_isolated_witness:
  "open_of ''b'' (run net_step [NClose ''a'' (Some ''s'') 5, NStopOwner ''a''] sample_net) = open_of ''b'' sample_net"
  by (rule net_streams_isolated [THEN conjunct1]) (simp_all add: sample_net_def net_keys_def)

text \<open>Once a stream is attached, or no longer open, the plugin can neither read, write nor attach it: the
  browser connection it was handed to is its only user.\<close>

lemma attached_exclusive:
  assumes "map_of (nm_items m) sid = Some i" "\<not> is_open i \<or> ns_attached i"
  shows "\<not> is_ok (fst (attach a sid m)) \<and> (\<forall>req. read_check a req m \<noteq> Inr sid) \<and> (\<forall>req d. write_check a req m \<noteq> Inr (sid, d))"
  using assms read_check_owned [of a _ m sid] write_check_owned [of a _ m sid]
  by (fastforce simp: attach_def dest!: lookup_owned split: sum.splits)

text \<open>A peek behind the last received byte of a connection whose peer has closed closes the stream, although
  the received bytes were not read: the next read is refused.\<close>

lemma peek_at_end_loses_bytes:
  "(let r = \<lparr>nr_id = ''s'', nr_max = 10, nr_timeout = 100, nr_peek = True, nr_offset = 3\<rparr>;
        m = snd (read_stream ''b'' (Some r) (reader_outcome r ''abc'' (ReadBytes [] True)) 7 sample_net)
    in \<not> is_ok (read_check ''b'' (Some (r\<lparr>nr_peek := False, nr_offset := 0\<rparr>)) m))"
  by code_simp

text \<open>The lookahead limit is computed with a wrapping addition: the largest offset passes the check.\<close>

lemma huge_offset_passes:
  "read_check ''b'' (Some \<lparr>nr_id = ''s'', nr_max = 10, nr_timeout = 100, nr_peek = True, nr_offset = 2 ^ 63 - 1\<rparr>) sample_net = Inr ''s''"
  by code_simp

end
