(* ===== verification/Processes.thy ===== *)
theory Processes
  imports Launcher
begin

section \<open>Processes of plugins\<close>

text \<open>
  Models \<^verbatim>\<open>internal/core/plugin_processes.go\<close> and \<^verbatim>\<open>internal/core/plugin_process_run.go\<close>: the processes a plugin
  starts in the background, the ones it runs to the end, and the notifications of captured output.  A method
  that holds the lock of the manager is one event; the goroutines of a process (its two readers and the one
  that waits for it) are events of their own, with what the operating system answers as their parameters.
\<close>

definition maxPluginProcessTimeoutSeconds :: int where
  "maxPluginProcessTimeoutSeconds = 604800"

definition maxPluginProcessArgs :: nat where
  "maxPluginProcessArgs = 1024"

definition maxPluginProcessEnvironment :: nat where
  "maxPluginProcessEnvironment = 1024"

definition maxPluginProcessString :: nat where
  "maxPluginProcessString = 32768"

record process_start =
  ps_command :: string
  ps_args :: "string list"
  ps_workdir :: string
  ps_environment :: "string table"
  ps_interpreter :: string
  ps_timeout :: int
  ps_history :: string

record process_report =
  pt_id :: string
  pt_pid :: int
  pt_running :: bool
  pt_exit :: "int option"
  pt_terminated :: bool
  pt_timed_out :: bool

definition invalidProcess :: "string \<Rightarrow> host_failure" where
  "invalidProcess m = (''invalid_argument'', m)"

definition validatePluginProcessStart :: "process_start \<Rightarrow> host_failure option" where
  "validatePluginProcessStart s =
     (if ps_command s = [] then Some (invalidProcess ''process command is required'')
      else if maxPluginProcessString < length (ps_command s) \<or> maxPluginProcessString < length (ps_workdir s) then
        Some (invalidProcess ''process command or working directory is too long'')
      else if maxPluginProcessArgs < length (ps_args s) \<or> maxPluginProcessEnvironment < length (ps_environment s) then
        Some (invalidProcess ''process has too many arguments or environment variables'')
      else if list_ex (\<lambda>a. maxPluginProcessString < length a) (ps_args s) then
        Some (invalidProcess ''process argument is too long'')
      else if list_ex (\<lambda>(k, v). 1024 < length k \<or> maxPluginProcessString < length v) (ps_environment s) then
        Some (invalidProcess ''process environment variable is too long'')
      else if ps_timeout s < 0 \<or> maxPluginProcessTimeoutSeconds < ps_timeout s then
        Some (invalidProcess (''timeoutSeconds must be between 0 and '' @ itoa maxPluginProcessTimeoutSeconds))
      else map_option invalidProcess (ValidateEnvironment (ps_environment s)))"

subsection \<open>The manager\<close>

text \<open>
  A process: its readers have a queue of at most eight chunks each until they end, and the sender of a reader has at most one chunk
  that it is telling the plugin (\<open>pp_sending\<close>).  Its waiter has collected the exit (\<open>pp_waited\<close>) before it records it, and has the
  exit in hand (\<open>pp_telling\<close>) from when it recorded it until it has told the plugin.
\<close>

datatype process_event =
    Output_Event string string string
  | Exit_Event string int bool bool bool string

record plugin_process =
  pp_owner :: string
  pp_history :: string
  pp_timeout :: int
  pp_pid :: int
  pp_running :: bool
  pp_terminated :: bool
  pp_timed_out :: bool
  pp_exit :: "int option"
  pp_queues :: "(string \<times> string list) list"
  pp_readers :: "string list"
  pp_waited :: "(int \<times> bool) option"
  pp_sending :: "string table"
  pp_telling :: "process_event option"

record process_manager =
  pm_items :: "plugin_process table"
  pm_captured :: "string list"
  pm_starting :: "(string \<times> string \<times> process_start) list"
  pm_events :: "(string \<times> process_event) list"

definition newPluginProcessManager :: process_manager where
  "newPluginProcessManager = \<lparr>pm_items = [], pm_captured = [], pm_starting = [], pm_events = []\<rparr>"

definition captureKey :: "string \<Rightarrow> string \<Rightarrow> string" where
  "captureKey owner h = owner @ [CHR 0x00] @ h"

definition process_command :: "process_start \<Rightarrow> command_spec" where
  "process_command s =
     \<lparr>c_path = ps_command s, c_args = ps_args s, c_workdir = ps_workdir s, c_env = ps_environment s,
      c_interpreter = (if ps_interpreter s = [] then ''direct'' else ps_interpreter s)\<rparr>"

text \<open>
  \<open>start\<close> up to the point where the lock is released: the request is checked, the command is built, the history
  execution is claimed.  \<open>i\<close> is the new identifier, \<open>history\<close> whether there is a history.
\<close>

definition start_claim ::
  "bool \<Rightarrow> string list \<Rightarrow> bool \<Rightarrow> string \<Rightarrow> string \<Rightarrow> process_start \<Rightarrow> process_manager
     \<Rightarrow> (host_failure, exec_cmd) result \<times> process_manager" where
  "start_claim windows inherited history i owner s m =
     (case validatePluginProcessStart s of
        Some e \<Rightarrow> (Inl e, m)
      | None \<Rightarrow>
          (case Build windows inherited (process_command s) of
             Inl e \<Rightarrow> (Inl (''invalid_argument'', e), m)
           | Inr cmd \<Rightarrow>
               if ps_history s = [] then (Inr cmd, m\<lparr>pm_starting := (i, owner, s) # pm_starting m\<rparr>)
               else if \<not> history then (Inl (''unavailable'', ''execution history is unavailable''), m)
               else if captureKey owner (ps_history s) \<in> set (pm_captured m) then
                 (Inl (invalidProcess ''execution is already capturing a process''), m)
               else (Inr cmd, m\<lparr>pm_captured := captureKey owner (ps_history s) # pm_captured m,
                                 pm_starting := (i, owner, s) # pm_starting m\<rparr>)))"

definition releaseCapture :: "string \<Rightarrow> process_manager \<Rightarrow> process_manager" where
  "releaseCapture k m = m\<lparr>pm_captured := removeAll k (pm_captured m)\<rparr>"

definition end_start :: "string \<Rightarrow> process_manager \<Rightarrow> process_manager" where
  "end_start i m = m\<lparr>pm_starting := filter (\<lambda>(j, _). j \<noteq> i) (pm_starting m)\<rparr>"

text \<open>The rest of \<open>start\<close>: the log of the execution is opened or the pipes are made (\<open>prepared\<close>, the failure
  otherwise), and the command starts with a process number or fails.\<close>

definition start_launch ::
  "string \<Rightarrow> host_failure option \<Rightarrow> (string, int) result \<Rightarrow> process_manager
     \<Rightarrow> (host_failure, process_report) result \<times> process_manager" where
  "start_launch i prepared started m =
     (case map_of (pm_starting m) i of
        None \<Rightarrow> (Inl (''not_found'', []), m)
      | Some (owner, s) \<Rightarrow>
          (let m' = end_start i m;
               failed = (if ps_history s = [] then m' else releaseCapture (captureKey owner (ps_history s)) m')
           in (case prepared of
                 Some e \<Rightarrow> (Inl e, failed)
               | None \<Rightarrow>
                   (case started of
                      Inl e \<Rightarrow> (Inl (''failed'', ''start process: '' @ e), failed)
                    | Inr pid \<Rightarrow>
                        (Inr \<lparr>pt_id = i, pt_pid = pid, pt_running = True, pt_exit = None, pt_terminated = False,
                              pt_timed_out = False\<rparr>,
                         m'\<lparr>pm_items := AList.update i
                              \<lparr>pp_owner = owner, pp_history = ps_history s, pp_timeout = ps_timeout s, pp_pid = pid, pp_running = True,
                               pp_terminated = False, pp_timed_out = False, pp_exit = None, pp_queues = [],
                               pp_readers = (if ps_history s = [] then [''stdout'', ''stderr''] else []),
                               pp_waited = None, pp_sending = [], pp_telling = None\<rparr> (pm_items m')\<rparr>)))))"

subsection \<open>Output\<close>

definition queue_of :: "string \<Rightarrow> plugin_process \<Rightarrow> string list" where
  "queue_of kind p = (case map_of (pp_queues p) kind of None \<Rightarrow> [] | Some q \<Rightarrow> q)"

text \<open>A reader reads a chunk: it is discarded when the queue is full.  The sender takes the first chunk of the queue, and
  tells the plugin.  The reader ends once its sender has done with the queue.\<close>

definition output_read :: "string \<Rightarrow> string \<Rightarrow> string \<Rightarrow> process_manager \<Rightarrow> process_manager" where
  "output_read i kind text m =
     m\<lparr>pm_items := modify i (\<lambda>p.
        if kind \<in> set (pp_readers p) \<and> length (queue_of kind p) < 8 \<and> text \<noteq> []
        then p\<lparr>pp_queues := AList.update kind (queue_of kind p @ [take 8192 text]) (pp_queues p)\<rparr> else p) (pm_items m)\<rparr>"

definition take_chunk :: "string \<Rightarrow> plugin_process \<Rightarrow> plugin_process" where
  "take_chunk kind p =
     (case (map_of (pp_sending p) kind, queue_of kind p) of
        (None, text # rest) \<Rightarrow>
          p\<lparr>pp_queues := AList.update kind rest (pp_queues p), pp_sending := AList.update kind text (pp_sending p)\<rparr>
      | _ \<Rightarrow> p)"

definition output_taken :: "string \<Rightarrow> string \<Rightarrow> process_manager \<Rightarrow> process_manager" where
  "output_taken i kind m = m\<lparr>pm_items := modify i (take_chunk kind) (pm_items m)\<rparr>"

definition output_sent :: "string \<Rightarrow> string \<Rightarrow> process_manager \<Rightarrow> process_manager" where
  "output_sent i kind m =
     (case map_of (pm_items m) i of
        None \<Rightarrow> m
      | Some p \<Rightarrow>
          (case map_of (pp_sending p) kind of
             None \<Rightarrow> m
           | Some text \<Rightarrow>
               m\<lparr>pm_items := modify i (\<lambda>p. p\<lparr>pp_sending := AList.delete kind (pp_sending p)\<rparr>) (pm_items m),
                 pm_events := pm_events m @ [(pp_owner p, Output_Event kind i text)]\<rparr>))"

definition reader_ended :: "string \<Rightarrow> string \<Rightarrow> process_manager \<Rightarrow> process_manager" where
  "reader_ended i kind m =
     m\<lparr>pm_items := modify i (\<lambda>p. if queue_of kind p = [] \<and> map_of (pp_sending p) kind = None
        then p\<lparr>pp_readers := removeAll kind (pp_readers p)\<rparr> else p) (pm_items m)\<rparr>"

subsection \<open>The end of a process\<close>

text \<open>
  The waiter: the process has ended with an exit code, without an error or with one (\<open>held\<close>: the error that a
  grandchild holds the output pipe, which a captured process forgives), and the readers are done; the capture is closed and
  released.  Then the outcome is recorded, from when on the process counts as ended, and after that the plugin is told.
\<close>

definition process_collected :: "string \<Rightarrow> int \<Rightarrow> bool \<Rightarrow> bool \<Rightarrow> process_manager \<Rightarrow> process_manager" where
  "process_collected i code ok held m =
     (case map_of (pm_items m) i of
        None \<Rightarrow> m
      | Some p \<Rightarrow>
          if \<not> pp_running p \<or> pp_waited p \<noteq> None \<or> pp_readers p \<noteq> [] then m
          else (let m = m\<lparr>pm_items := modify i (\<lambda>p. p\<lparr>pp_waited := Some (code, ok \<or> (pp_history p \<noteq> [] \<and> held))\<rparr>) (pm_items m)\<rparr>
                in if pp_history p = [] then m else releaseCapture (captureKey (pp_owner p) (pp_history p)) m))"

definition process_recorded :: "string \<Rightarrow> process_manager \<Rightarrow> process_manager" where
  "process_recorded i m =
     m\<lparr>pm_items := modify i (\<lambda>p.
        case pp_waited p of
          None \<Rightarrow> p
        | Some (code, ok) \<Rightarrow>
            if \<not> pp_running p then p
            else p\<lparr>pp_running := False, pp_exit := Some code,
                   pp_telling := Some (Exit_Event i code (ok \<and> code = 0) (pp_terminated p) (pp_timed_out p) (pp_history p))\<rparr>) (pm_items m)\<rparr>"

definition process_told :: "string \<Rightarrow> process_manager \<Rightarrow> process_manager" where
  "process_told i m =
     (case map_of (pm_items m) i of
        None \<Rightarrow> m
      | Some p \<Rightarrow>
          (case pp_telling p of
             None \<Rightarrow> m
           | Some e \<Rightarrow>
               m\<lparr>pm_items := modify i (\<lambda>p. p\<lparr>pp_telling := None\<rparr>) (pm_items m),
                 pm_events := pm_events m @ [(pp_owner p, e)]\<rparr>))"

text \<open>Five minutes after that the process is forgotten.\<close>

definition process_forgotten :: "string \<Rightarrow> process_manager \<Rightarrow> process_manager" where
  "process_forgotten i m =
     (case map_of (pm_items m) i of
        None \<Rightarrow> m
      | Some p \<Rightarrow> if pp_running p \<or> pp_telling p \<noteq> None then m else m\<lparr>pm_items := AList.delete i (pm_items m)\<rparr>)"

definition process_timeout :: "string \<Rightarrow> process_manager \<Rightarrow> process_manager" where
  "process_timeout i m =
     m\<lparr>pm_items := modify i (\<lambda>p. if 0 < pp_timeout p \<and> pp_running p then p\<lparr>pp_timed_out := True\<rparr> else p) (pm_items m)\<rparr>"

subsection \<open>Calls\<close>

definition process_lookup :: "string \<Rightarrow> string \<Rightarrow> process_manager \<Rightarrow> (host_failure, plugin_process) result" where
  "process_lookup owner i m =
     (case map_of (pm_items m) i of
        None \<Rightarrow> Inl (''not_found'', ''unknown process'')
      | Some p \<Rightarrow> if pp_owner p \<noteq> owner then Inl (''not_found'', ''unknown process'') else Inr p)"

definition status_of :: "string \<Rightarrow> plugin_process \<Rightarrow> process_report" where
  "status_of i p =
     \<lparr>pt_id = i, pt_pid = (if pp_running p then pp_pid p else 0), pt_running = pp_running p, pt_exit = pp_exit p,
      pt_terminated = pp_terminated p, pt_timed_out = pp_timed_out p\<rparr>"

definition processStatus :: "string \<Rightarrow> string \<Rightarrow> process_manager \<Rightarrow> (host_failure, process_report) result" where
  "processStatus owner i m = bind_result (process_lookup owner i m) (\<lambda>p. Inr (status_of i p))"

text \<open>\<open>killed\<close>: the error of killing the process tree.\<close>

definition process_terminate ::
  "string \<Rightarrow> string \<Rightarrow> string option \<Rightarrow> process_manager \<Rightarrow> (host_failure, process_report) result \<times> process_manager" where
  "process_terminate owner i killed m =
     (case process_lookup owner i m of
        Inl e \<Rightarrow> (Inl e, m)
      | Inr p \<Rightarrow>
          if \<not> pp_running p then (Inr (status_of i p), m)
          else (let m = m\<lparr>pm_items := modify i (\<lambda>p. p\<lparr>pp_terminated := True\<rparr>) (pm_items m)\<rparr>
                in case killed of Some e \<Rightarrow> (Inl (''failed'', e), m) | None \<Rightarrow> (processStatus owner i m, m)))"

definition stopOwner :: "string \<Rightarrow> process_manager \<Rightarrow> process_manager" where
  "stopOwner owner m =
     fold (\<lambda>i m. snd (process_terminate owner i None m))
       (map fst (filter (\<lambda>(_, p). pp_owner p = owner) (pm_items m))) m"

definition process_close :: "process_manager \<Rightarrow> process_manager" where
  "process_close m = fold stopOwner (remdups (map (pp_owner \<circ> snd) (pm_items m))) m"

subsection \<open>The events of the manager\<close>

datatype proc_action =
    Start_Claim bool "string list" bool string string process_start
  | Start_Launch string "host_failure option" "(string, int) result"
  | Output_Read string string string
  | Output_Taken string string
  | Output_Sent string string
  | Reader_Ended string string
  | Process_Collected string int bool bool
  | Process_Recorded string
  | Process_Told string
  | Process_Forgotten string
  | Process_Timeout string
  | Process_Terminate string string "string option"
  | Stop_Owner string
  | Process_Close

fun proc_step :: "proc_action \<Rightarrow> process_manager \<Rightarrow> process_manager" where
  "proc_step (Start_Claim windows inherited history i owner s) m = snd (start_claim windows inherited history i owner s m)"
| "proc_step (Start_Launch i prepared started) m = snd (start_launch i prepared started m)"
| "proc_step (Output_Read i kind text) m = output_read i kind text m"
| "proc_step (Output_Taken i kind) m = output_taken i kind m"
| "proc_step (Output_Sent i kind) m = output_sent i kind m"
| "proc_step (Reader_Ended i kind) m = reader_ended i kind m"
| "proc_step (Process_Collected i code ok held) m = process_collected i code ok held m"
| "proc_step (Process_Recorded i) m = process_recorded i m"
| "proc_step (Process_Told i) m = process_told i m"
| "proc_step (Process_Forgotten i) m = process_forgotten i m"
| "proc_step (Process_Timeout i) m = process_timeout i m"
| "proc_step (Process_Terminate owner i killed) m = snd (process_terminate owner i killed m)"
| "proc_step (Stop_Owner owner) m = stopOwner owner m"
| "proc_step Process_Close m = process_close m"

subsection \<open>What holds of every process\<close>

fun event_process :: "process_event \<Rightarrow> string" where
  "event_process (Output_Event _ i _) = i"
| "event_process (Exit_Event i _ _ _ _ _) = i"

fun is_output :: "process_event \<Rightarrow> bool" where
  "is_output (Output_Event _ _ _) = True"
| "is_output (Exit_Event _ _ _ _ _ _) = False"

definition events_of :: "string \<Rightarrow> process_manager \<Rightarrow> process_event list" where
  "events_of i m = filter (\<lambda>e. event_process e = i) (map snd (pm_events m))"

text \<open>The events of a process that has ended: output, and then its one exit.\<close>

definition ended :: "process_event list \<Rightarrow> bool" where
  "ended es = (es \<noteq> [] \<and> list_all is_output (butlast es) \<and> \<not> is_output (last es))"

definition tells_exit :: "string \<Rightarrow> plugin_process \<Rightarrow> bool" where
  "tells_exit i p = (\<forall>e. pp_telling p = Some e \<longrightarrow> \<not> pp_running p \<and> event_process e = i \<and> \<not> is_output e)"

definition process_ok :: "string \<Rightarrow> plugin_process \<Rightarrow> process_event list \<Rightarrow> bool" where
  "process_ok i p es =
     ((if pp_running p \<or> pp_telling p \<noteq> None then list_all is_output es else ended es)
      \<and> tells_exit i p
      \<and> (\<forall>kind. queue_of kind p \<noteq> [] \<or> map_of (pp_sending p) kind \<noteq> None \<longrightarrow> kind \<in> set (pp_readers p))
      \<and> (pp_waited p \<noteq> None \<longrightarrow> pp_readers p = [])
      \<and> (\<not> pp_running p \<longrightarrow> pp_waited p \<noteq> None))"

definition id_ok :: "process_manager \<Rightarrow> string \<Rightarrow> bool" where
  "id_ok m i =
     (case map_of (pm_items m) i of
        Some p \<Rightarrow> map_of (pm_starting m) i = None \<and> process_ok i p (events_of i m)
      | None \<Rightarrow> events_of i m = [] \<or> (ended (events_of i m) \<and> map_of (pm_starting m) i = None))"

lemma queue_of_update: "queue_of kind (p\<lparr>pp_queues := AList.update k q (pp_queues p)\<rparr>) = (if kind = k then q else queue_of kind p)"
  by (simp add: queue_of_def update_conv')

lemma queue_of_same [simp]:
  "queue_of kind (p\<lparr>pp_running := b\<rparr>) = queue_of kind p" "queue_of kind (p\<lparr>pp_exit := c\<rparr>) = queue_of kind p"
  "queue_of kind (p\<lparr>pp_telling := e\<rparr>) = queue_of kind p" "queue_of kind (p\<lparr>pp_sending := s\<rparr>) = queue_of kind p"
  "queue_of kind (p\<lparr>pp_waited := w\<rparr>) = queue_of kind p" "queue_of kind (p\<lparr>pp_readers := rs\<rparr>) = queue_of kind p"
  "queue_of kind (p\<lparr>pp_timed_out := b\<rparr>) = queue_of kind p" "queue_of kind (p\<lparr>pp_terminated := b\<rparr>) = queue_of kind p"
  by (simp_all add: queue_of_def)

text \<open>The history execution that a process holds: while it starts, and until its waiter lets go of it.\<close>

definition holds_capture :: "process_manager \<Rightarrow> string \<Rightarrow> string option" where
  "holds_capture m i =
     (case map_of (pm_starting m) i of
        Some (owner, s) \<Rightarrow> if ps_history s = [] then None else Some (captureKey owner (ps_history s))
      | None \<Rightarrow>
          (case map_of (pm_items m) i of
             None \<Rightarrow> None
           | Some p \<Rightarrow> if pp_history p = [] \<or> pp_waited p \<noteq> None then None else Some (captureKey (pp_owner p) (pp_history p))))"

definition captures_ok :: "(string \<Rightarrow> string option) \<Rightarrow> string set \<Rightarrow> bool" where
  "captures_ok h c = ((\<forall>i j k. h i = Some k \<and> h j = Some k \<longrightarrow> i = j) \<and> c = ran h)"

definition manager_ok :: "process_manager \<Rightarrow> bool" where
  "manager_ok m = ((\<forall>i. id_ok m i) \<and> captures_ok (holds_capture m) (set (pm_captured m)))"

fun fresh_process_id :: "proc_action \<Rightarrow> process_manager \<Rightarrow> bool" where
  "fresh_process_id (Start_Claim _ _ _ i _ _) m =
     (map_of (pm_items m) i = None \<and> map_of (pm_starting m) i = None \<and> events_of i m = [])"
| "fresh_process_id _ m = True"

lemma captures_claim:
  assumes "captures_ok h c" "k \<notin> c" "h i = None"
  shows "captures_ok (h(i \<mapsto> k)) (insert k c)"
proof -
  have "h j \<noteq> Some k" for j using assms by (auto simp: captures_ok_def ran_def)
  with assms show ?thesis by (auto simp: captures_ok_def ran_map_upd)
qed

lemma captures_release:
  assumes "captures_ok h c" "h i = Some k"
  shows "captures_ok (h(i := None)) (c - {k})"
proof -
  have other: "j = i" if "h j = Some k" for j using assms that by (simp add: captures_ok_def)
  have "ran (h(i := None)) = ran h - {k}"
  proof (intro set_eqI iffI)
    fix x assume "x \<in> ran (h(i := None))"
    then show "x \<in> ran h - {k}" using other by (auto simp: ran_def split: if_splits)
  next
    fix x assume "x \<in> ran h - {k}"
    then obtain j where "h j = Some x" "x \<noteq> k" by (auto simp: ran_def)
    with assms(2) have "(h(i := None)) j = Some x" by auto
    then show "x \<in> ran (h(i := None))" by (rule ranI)
  qed
  with assms(1) show ?thesis by (auto simp: captures_ok_def split: if_splits)
qed

lemma captures_same: "h' = h \<Longrightarrow> captures_ok h c \<Longrightarrow> captures_ok h' c"
  by simp

text \<open>A change of one process that keeps what it holds.\<close>

lemma map_of_end_start: "map_of (filter (\<lambda>(j, _). j \<noteq> i) t) = (map_of t)(i := None)"
  by (induction t) auto

lemma holds_modify:
  assumes "\<And>p. pp_history (f p) = pp_history p \<and> pp_owner (f p) = pp_owner p \<and> pp_waited (f p) = pp_waited p"
  shows "holds_capture (m\<lparr>pm_items := modify i f (pm_items m)\<rparr>) = holds_capture m"
  using assms by (simp add: holds_capture_def map_of_modify fun_eq_iff split: option.split)

lemma manager_modify:
  assumes m: "manager_ok m" and keep: "\<And>p. pp_history (f p) = pp_history p \<and> pp_owner (f p) = pp_owner p \<and> pp_waited (f p) = pp_waited p"
    and ok: "\<And>p. map_of (pm_items m) i = Some p \<Longrightarrow> process_ok i p (events_of i m) \<Longrightarrow> process_ok i (f p) (events_of i m)"
  shows "manager_ok (m\<lparr>pm_items := modify i f (pm_items m)\<rparr>)"
proof -
  let ?m = "m\<lparr>pm_items := modify i f (pm_items m)\<rparr>"
  have "id_ok ?m j" for j
  proof -
    have "id_ok m j" using m by (simp add: manager_ok_def)
    then show ?thesis
      using ok by (auto simp: id_ok_def map_of_modify events_of_def split: option.splits)
  qed
  with m holds_modify [of f i m] keep show ?thesis by (simp add: manager_ok_def)
qed

text \<open>A step that touches one process.\<close>

lemma manager_okI:
  assumes m: "manager_ok m"
    and same: "\<And>j. j \<noteq> i \<Longrightarrow> map_of (pm_items m') j = map_of (pm_items m) j
      \<and> map_of (pm_starting m') j = map_of (pm_starting m) j \<and> events_of j m' = events_of j m"
    and ok: "id_ok m' i" and captures: "captures_ok ((holds_capture m)(i := holds_capture m' i)) (set (pm_captured m'))"
  shows "manager_ok m'"
proof -
  have "id_ok m' j = id_ok m j" if "j \<noteq> i" for j
    using same [OF that] by (simp only: id_ok_def)
  then have "id_ok m' j" for j using ok m by (cases "j = i") (simp_all add: manager_ok_def)
  moreover have other: "holds_capture m' j = holds_capture m j" if "j \<noteq> i" for j
    using same [OF that] by (simp only: holds_capture_def)
  have "holds_capture m' = (holds_capture m)(i := holds_capture m' i)"
    by (rule ext) (simp add: other)
  ultimately show ?thesis using captures by (simp add: manager_ok_def)
qed

lemma captures_of: "manager_ok m \<Longrightarrow> captures_ok (holds_capture m) (set (pm_captured m))"
  by (simp add: manager_ok_def)

lemma captures_unchanged:
  "manager_ok m \<Longrightarrow> x = holds_capture m i \<Longrightarrow> captures_ok ((holds_capture m)(i := x)) (set (pm_captured m))"
  by (simp add: manager_ok_def)

lemma manager_start_claim:
  assumes m: "manager_ok m" and fresh: "map_of (pm_items m) i = None" "map_of (pm_starting m) i = None" "events_of i m = []"
  shows "manager_ok (snd (start_claim windows inherited history i owner s m))"
proof -
  have free: "holds_capture m i = None" using fresh by (simp add: holds_capture_def)
  have plain: "manager_ok (m\<lparr>pm_starting := (i, owner, s) # pm_starting m\<rparr>)" if "ps_history s = []"
  proof (rule manager_okI [OF m, where i = i])
    show "id_ok (m\<lparr>pm_starting := (i, owner, s) # pm_starting m\<rparr>) i" using fresh by (simp add: id_ok_def events_of_def)
    show "captures_ok ((holds_capture m)(i := holds_capture (m\<lparr>pm_starting := (i, owner, s) # pm_starting m\<rparr>) i))
        (set (pm_captured (m\<lparr>pm_starting := (i, owner, s) # pm_starting m\<rparr>)))"
      using captures_unchanged [OF m, of None i] that fresh by (simp add: holds_capture_def)
  qed (simp add: events_of_def)
  let ?k = "captureKey owner (ps_history s)"
  have claim: "manager_ok (m\<lparr>pm_captured := ?k # pm_captured m, pm_starting := (i, owner, s) # pm_starting m\<rparr>)"
    if "ps_history s \<noteq> []" "?k \<notin> set (pm_captured m)"
  proof (rule manager_okI [OF m, where i = i])
    show "id_ok (m\<lparr>pm_captured := ?k # pm_captured m, pm_starting := (i, owner, s) # pm_starting m\<rparr>) i"
      using fresh by (simp add: id_ok_def events_of_def)
    have "holds_capture (m\<lparr>pm_captured := ?k # pm_captured m, pm_starting := (i, owner, s) # pm_starting m\<rparr>) i = Some ?k"
      using that(1) by (simp add: holds_capture_def)
    then show "captures_ok ((holds_capture m)(i := holds_capture
        (m\<lparr>pm_captured := ?k # pm_captured m, pm_starting := (i, owner, s) # pm_starting m\<rparr>) i))
        (set (pm_captured (m\<lparr>pm_captured := ?k # pm_captured m, pm_starting := (i, owner, s) # pm_starting m\<rparr>)))"
      using captures_claim [OF captures_of [OF m] that(2) free] by simp
  qed (simp add: events_of_def)
  from plain claim m show ?thesis by (auto simp: start_claim_def split: option.split sum.split)
qed

lemma manager_start_launch:
  assumes m: "manager_ok m"
  shows "manager_ok (snd (start_launch i prepared started m))"
proof (cases "map_of (pm_starting m) i")
  case None
  with m show ?thesis by (simp add: start_launch_def)
next
  case (Some x)
  obtain owner s where x: "x = (owner, s)" by (cases x)
  have "id_ok m i" using m by (simp add: manager_ok_def)
  with Some have none: "map_of (pm_items m) i = None" and quiet: "events_of i m = []"
    by (auto simp: id_ok_def split: option.splits)
  let ?m = "end_start i m"
  let ?k = "captureKey owner (ps_history s)"
  have start: "map_of (pm_starting ?m) j = (if j = i then None else map_of (pm_starting m) j)" for j
    by (simp add: end_start_def map_of_end_start)
  have failed: "manager_ok (if ps_history s = [] then ?m else releaseCapture ?k ?m)" (is "manager_ok ?f")
  proof (rule manager_okI [OF m, where i = i])
    show "id_ok ?f i" using none quiet by (simp add: id_ok_def end_start_def releaseCapture_def events_of_def)
    have gone: "holds_capture ?f i = None" using none by (simp add: holds_capture_def end_start_def releaseCapture_def map_of_end_start)
    show "captures_ok ((holds_capture m)(i := holds_capture ?f i)) (set (pm_captured ?f))"
    proof (cases "ps_history s = []")
      case True
      then have "holds_capture m i = None" by (simp add: holds_capture_def Some x)
      with True gone captures_unchanged [OF m, of None i] show ?thesis by (simp add: end_start_def)
    next
      case False
      then have "holds_capture m i = Some ?k" by (simp add: holds_capture_def Some x)
      from captures_release [OF captures_of [OF m] this] False gone show ?thesis
        by (simp add: end_start_def releaseCapture_def)
    qed
  qed (auto simp: end_start_def releaseCapture_def events_of_def map_of_end_start)
  have ok: "manager_ok (?m\<lparr>pm_items := AList.update i p (pm_items ?m)\<rparr>)" (is "manager_ok ?s")
    if "process_ok i p []" "pp_owner p = owner" "pp_history p = ps_history s" "pp_waited p = None" for p
  proof (rule manager_okI [OF m, where i = i])
    show "id_ok ?s i" using that(1) quiet by (simp add: id_ok_def update_conv' end_start_def map_of_end_start events_of_def)
    have "holds_capture ?s i = holds_capture m i"
      using that by (simp add: holds_capture_def update_conv' end_start_def map_of_end_start Some x)
    then show "captures_ok ((holds_capture m)(i := holds_capture ?s i)) (set (pm_captured ?s))"
      using captures_of [OF m] by (simp add: end_start_def)
  qed (simp add: end_start_def events_of_def update_conv' map_of_end_start)
  show ?thesis
    using failed ok by (auto simp: start_launch_def Some x Let_def process_ok_def tells_exit_def queue_of_def split: option.split sum.split)
qed


lemma manager_output_read: "manager_ok m \<Longrightarrow> manager_ok (output_read i kind text m)"
  unfolding output_read_def
  by (rule manager_modify) (auto simp: process_ok_def tells_exit_def queue_of_update update_conv')

lemma manager_output_taken: "manager_ok m \<Longrightarrow> manager_ok (output_taken i kind m)"
  unfolding output_taken_def
proof (rule manager_modify)
  fix p
  assume ok: "process_ok i p (events_of i m)"
  show "process_ok i (take_chunk kind p) (events_of i m)"
  proof (cases "map_of (pp_sending p) kind = None \<and> queue_of kind p \<noteq> []")
    case True
    then obtain chunk rest where q: "queue_of kind p = chunk # rest" by (auto simp: neq_Nil_conv)
    then have "kind \<in> set (pp_readers p)" using ok by (simp add: process_ok_def)
    with True q ok show ?thesis
      by (auto simp: take_chunk_def process_ok_def tells_exit_def queue_of_update update_conv' split: if_splits)
  next
    case False
    then have "take_chunk kind p = p" by (auto simp: take_chunk_def split: option.split list.split)
    with ok show ?thesis by simp
  qed
qed (auto simp: take_chunk_def split: option.split list.split)

lemma manager_reader_ended: "manager_ok m \<Longrightarrow> manager_ok (reader_ended i kind m)"
  unfolding reader_ended_def
  by (rule manager_modify) (auto simp: process_ok_def tells_exit_def)

lemma manager_timeout: "manager_ok m \<Longrightarrow> manager_ok (process_timeout i m)"
  unfolding process_timeout_def
  by (rule manager_modify) (auto simp: process_ok_def tells_exit_def)

lemma manager_terminate: "manager_ok m \<Longrightarrow> manager_ok (snd (process_terminate owner i killed m))"
proof -
  assume m: "manager_ok m"
  have "manager_ok (m\<lparr>pm_items := modify i (\<lambda>p. p\<lparr>pp_terminated := True\<rparr>) (pm_items m)\<rparr>)"
    by (rule manager_modify [OF m]) (auto simp: process_ok_def tells_exit_def)
  with m show ?thesis by (auto simp: process_terminate_def Let_def split: sum.split option.split)
qed

lemma manager_stop_owner: "manager_ok m \<Longrightarrow> manager_ok (stopOwner owner m)"
proof -
  have "manager_ok m \<Longrightarrow> manager_ok (fold (\<lambda>i m. snd (process_terminate owner i None m)) is m)" for "is"
    by (induction "is" arbitrary: m) (simp_all add: manager_terminate)
  then show "manager_ok m \<Longrightarrow> ?thesis" by (simp add: stopOwner_def)
qed

lemma manager_close: "manager_ok m \<Longrightarrow> manager_ok (process_close m)"
proof -
  have "manager_ok m \<Longrightarrow> manager_ok (fold stopOwner owners m)" for owners
    by (induction owners arbitrary: m) (simp_all add: manager_stop_owner)
  then show "manager_ok m \<Longrightarrow> ?thesis" by (simp add: process_close_def)
qed

text \<open>An event of one process.\<close>

lemma events_of_emit:
  "events_of j (m\<lparr>pm_items := t, pm_events := pm_events m @ [(owner, e)]\<rparr>)
     = (if event_process e = j then events_of j m @ [e] else events_of j m)"
  by (simp add: events_of_def)

lemma holds_emit: "holds_capture (m\<lparr>pm_items := t, pm_events := es\<rparr>) = holds_capture (m\<lparr>pm_items := t\<rparr>)"
  by (simp add: holds_capture_def fun_eq_iff split: option.split)

lemma manager_emit:
  assumes m: "manager_ok m" and p: "map_of (pm_items m) i = Some p" and e: "event_process e = i"
    and keep: "\<And>p. pp_history (f p) = pp_history p \<and> pp_owner (f p) = pp_owner p \<and> pp_waited (f p) = pp_waited p"
    and ok: "process_ok i p (events_of i m) \<Longrightarrow> process_ok i (f p) (events_of i m @ [e])"
  shows "manager_ok (m\<lparr>pm_items := modify i f (pm_items m), pm_events := pm_events m @ [(owner, e)]\<rparr>)"
    (is "manager_ok ?m")
proof (rule manager_okI [OF m, where i = i])
  have "id_ok m i" using m by (simp add: manager_ok_def)
  with p e ok show "id_ok ?m i" by (simp add: id_ok_def map_of_modify events_of_emit)
  show "captures_ok ((holds_capture m)(i := holds_capture ?m i)) (set (pm_captured ?m))"
    using captures_of [OF m] holds_modify [of f i m] keep by (simp add: holds_emit)
qed (use e in \<open>simp add: map_of_modify events_of_emit\<close>)

lemma manager_output_sent:
  assumes m: "manager_ok m"
  shows "manager_ok (output_sent i kind m)"
proof (cases "map_of (pm_items m) i")
  case None
  with m show ?thesis by (simp add: output_sent_def)
next
  case (Some p)
  show ?thesis
  proof (cases "map_of (pp_sending p) kind")
    case None
    with m Some show ?thesis by (simp add: output_sent_def)
  next
    case chunk: (Some chunk)
    let ?f = "\<lambda>p. p\<lparr>pp_sending := AList.delete kind (pp_sending p)\<rparr>"
    have "process_ok i (?f p) (events_of i m @ [Output_Event kind i chunk])" if "process_ok i p (events_of i m)"
    proof -
      have reading: "kind \<in> set (pp_readers p)" using that chunk by (simp add: process_ok_def)
      then have "pp_running p" using that by (auto simp: process_ok_def)
      with reading that show ?thesis by (auto simp: process_ok_def tells_exit_def delete_conv')
    qed
    then have "manager_ok (m\<lparr>pm_items := modify i ?f (pm_items m),
        pm_events := pm_events m @ [(pp_owner p, Output_Event kind i chunk)]\<rparr>)"
      by (intro manager_emit [OF m Some]) simp_all
    with Some chunk show ?thesis by (simp add: output_sent_def)
  qed
qed

lemma manager_process_collected:
  assumes m: "manager_ok m"
  shows "manager_ok (process_collected i code ok held m)"
proof (cases "map_of (pm_items m) i")
  case None
  with m show ?thesis by (simp add: process_collected_def)
next
  case (Some p)
  have idi: "id_ok m i" using m by (simp add: manager_ok_def)
  with Some have p_ok: "process_ok i p (events_of i m)" and none: "map_of (pm_starting m) i = None"
    by (simp_all add: id_ok_def)
  let ?f = "\<lambda>p. p\<lparr>pp_waited := Some (code, ok \<or> (pp_history p \<noteq> [] \<and> held))\<rparr>"
  let ?k = "captureKey (pp_owner p) (pp_history p)"
  let ?m = "m\<lparr>pm_items := modify i ?f (pm_items m)\<rparr>"
  let ?m' = "if pp_history p = [] then ?m else releaseCapture ?k ?m"
  have "manager_ok ?m'" if run: "pp_running p" "pp_waited p = None" "pp_readers p = []"
  proof (rule manager_okI [OF m, where i = i])
    have "process_ok i (?f p) (events_of i m)" using p_ok run by (auto simp: process_ok_def tells_exit_def)
    moreover have "events_of i ?m' = events_of i m" by (simp add: events_of_def releaseCapture_def)
    ultimately show "id_ok ?m' i"
      using Some none by (simp add: id_ok_def map_of_modify releaseCapture_def split: if_splits)
    have gone: "holds_capture ?m' i = None"
      using Some none by (simp add: holds_capture_def map_of_modify releaseCapture_def)
    show "captures_ok ((holds_capture m)(i := holds_capture ?m' i)) (set (pm_captured ?m'))"
    proof (cases "pp_history p = []")
      case True
      then have "holds_capture m i = None" using Some none by (simp add: holds_capture_def)
      with True gone captures_unchanged [OF m, of None i] show ?thesis by simp
    next
      case False
      then have "holds_capture m i = Some ?k" using Some none run by (simp add: holds_capture_def)
      from captures_release [OF captures_of [OF m] this] False gone show ?thesis by (simp add: releaseCapture_def)
    qed
  qed (simp add: map_of_modify releaseCapture_def events_of_def)
  with m Some show ?thesis by (cases "pp_history p = []") (simp_all add: process_collected_def Let_def del: not_None_eq)
qed

lemma manager_recorded: "manager_ok m \<Longrightarrow> manager_ok (process_recorded i m)"
  unfolding process_recorded_def
  by (rule manager_modify) (auto simp: process_ok_def tells_exit_def split: option.splits)

lemma manager_told:
  assumes m: "manager_ok m"
  shows "manager_ok (process_told i m)"
proof (cases "map_of (pm_items m) i")
  case None
  with m show ?thesis by (simp add: process_told_def)
next
  case (Some p)
  show ?thesis
  proof (cases "pp_telling p")
    case None
    with m Some show ?thesis by (simp add: process_told_def)
  next
    case e: (Some e)
    have "id_ok m i" using m by (simp add: manager_ok_def)
    with Some e have "event_process e = i" by (simp add: id_ok_def process_ok_def tells_exit_def)
    then have "manager_ok (m\<lparr>pm_items := modify i (\<lambda>p. p\<lparr>pp_telling := None\<rparr>) (pm_items m),
        pm_events := pm_events m @ [(pp_owner p, e)]\<rparr>)"
      by (intro manager_emit [OF m Some]) (use e in \<open>auto simp: process_ok_def tells_exit_def ended_def\<close>)
    with Some e show ?thesis by (simp add: process_told_def)
  qed
qed

lemma manager_forgotten:
  assumes m: "manager_ok m"
  shows "manager_ok (process_forgotten i m)"
proof (cases "map_of (pm_items m) i")
  case None
  with m show ?thesis by (simp add: process_forgotten_def)
next
  case (Some p)
  have idi: "id_ok m i" using m by (simp add: manager_ok_def)
  with Some have p_ok: "process_ok i p (events_of i m)" and none: "map_of (pm_starting m) i = None"
    by (simp_all add: id_ok_def)
  let ?m = "m\<lparr>pm_items := AList.delete i (pm_items m)\<rparr>"
  have "manager_ok ?m" if stop: "\<not> pp_running p" "pp_telling p = None"
  proof (rule manager_okI [OF m, where i = i])
    show "id_ok ?m i" using p_ok none stop by (simp add: id_ok_def delete_conv' events_of_def process_ok_def)
    have "pp_waited p \<noteq> None" using p_ok stop by (auto simp: process_ok_def)
    then have "holds_capture m i = None" "holds_capture ?m i = None"
      using Some none by (auto simp: holds_capture_def delete_conv')
    then show "captures_ok ((holds_capture m)(i := holds_capture ?m i)) (set (pm_captured ?m))"
      using captures_unchanged [OF m, of None i] by simp
  qed (simp add: delete_conv' events_of_def)
  with m Some show ?thesis by (simp add: process_forgotten_def)
qed

lemma manager_step:
  assumes m: "manager_ok m" and fresh: "fresh_process_id e m"
  shows "manager_ok (proc_step e m)"
  using fresh
  by (cases e)
    (simp_all add: m manager_start_claim manager_start_launch manager_output_read manager_output_taken manager_output_sent
      manager_reader_ended manager_process_collected manager_recorded manager_told manager_forgotten manager_timeout
      manager_terminate manager_stop_owner manager_close)

interpretation processes: guarded_machine proc_step fresh_process_id manager_ok
  by unfold_locales (rule manager_step)

lemma outputs_butlast: "list_all is_output es \<Longrightarrow> list_all is_output (butlast es)"
  by (auto simp: list_all_iff dest: in_set_butlastD)

lemma outputs_last: "list_all is_output es \<Longrightarrow> es \<noteq> [] \<Longrightarrow> is_output (last es)"
  by (simp add: list_all_iff)

lemma manager_ok_new: "manager_ok newPluginProcessManager"
  by (simp add: manager_ok_def newPluginProcessManager_def id_ok_def events_of_def holds_capture_def captures_ok_def
      ran_def)

text \<open>C15: Over any run of the manager whose process identifiers are fresh, every event that a plugin gets of a process but the last is
  output.  Of a process that the manager knows, the plugin has been told the exit exactly when the process no longer runs and the
  exit is not still in hand; while it is, the plugin has had only output of it.  Nothing follows an exit: it is told once, after all
  output.  And no two processes capture into the same history execution.
\<close>

theorem process_exit_last:
  assumes "admissible proc_step fresh_process_id es newPluginProcessManager"
    and "run proc_step es newPluginProcessManager = m"
  shows "list_all is_output (butlast (events_of i m))
    \<and> (case map_of (pm_items m) i of
         None \<Rightarrow> True
       | Some p \<Rightarrow>
           (events_of i m \<noteq> [] \<and> \<not> is_output (last (events_of i m)) \<longleftrightarrow> \<not> pp_running p \<and> pp_telling p = None)
           \<and> (pp_telling p \<noteq> None \<longrightarrow> \<not> pp_running p \<and> \<not> is_output (the (pp_telling p))))
    \<and> (\<forall>j k. holds_capture m i = Some k \<and> holds_capture m j = Some k \<longrightarrow> i = j)
    \<and> (\<forall>k. holds_capture m i = Some k \<longrightarrow> k \<in> set (pm_captured m))"
proof -
  have ok: "manager_ok m" using processes.run_inv [OF manager_ok_new assms(1)] assms(2) by simp
  then have i: "id_ok m i" by (simp add: manager_ok_def)
  then have "list_all is_output (butlast (events_of i m))"
    by (auto simp: id_ok_def process_ok_def ended_def outputs_butlast split: option.splits if_splits)
  moreover have "events_of i m \<noteq> [] \<and> \<not> is_output (last (events_of i m)) \<longleftrightarrow> \<not> pp_running p \<and> pp_telling p = None"
    and "pp_telling p \<noteq> None \<longrightarrow> \<not> pp_running p \<and> \<not> is_output (the (pp_telling p))"
    if "map_of (pm_items m) i = Some p" for p
    using i that by (auto simp: id_ok_def process_ok_def tells_exit_def ended_def outputs_last split: if_splits)
  moreover have "captures_ok (holds_capture m) (set (pm_captured m))" using ok by (rule captures_of)
  ultimately show ?thesis by (simp add: captures_ok_def split: option.split) (auto intro: ranI)
qed

text \<open>A process that writes twice and exits, and another that captures the same execution afterwards.\<close>

definition echo_start :: "string \<Rightarrow> process_start" where
  "echo_start h = \<lparr>ps_command = ''echo'', ps_args = [''hi''], ps_workdir = [], ps_environment = [], ps_interpreter = [],
     ps_timeout = 5, ps_history = h\<rparr>"

definition echo_run :: "proc_action list" where
  "echo_run =
     [Start_Claim False [] True ''p1'' ''tasks'' (echo_start []), Start_Launch ''p1'' None (Inr 41),
      Start_Claim False [] True ''p2'' ''tasks'' (echo_start ''h1''), Start_Launch ''p2'' None (Inr 42),
      Start_Claim False [] True ''p3'' ''tasks'' (echo_start ''h1''),
      Output_Read ''p1'' ''stdout'' ''h'', Output_Read ''p1'' ''stdout'' ''i'', Output_Taken ''p1'' ''stdout'',
      Output_Sent ''p1'' ''stdout'', Output_Taken ''p1'' ''stdout'', Output_Sent ''p1'' ''stdout'', Reader_Ended ''p1'' ''stdout'', Reader_Ended ''p1'' ''stderr'',
      Process_Collected ''p1'' 0 True False, Process_Recorded ''p1'', Process_Told ''p1'']"

lemma echo_start_valid: "validatePluginProcessStart (echo_start h) = None"
  by (simp add: validatePluginProcessStart_def echo_start_def maxPluginProcessTimeoutSeconds_def
      maxPluginProcessString_def maxPluginProcessArgs_def maxPluginProcessEnvironment_def ValidateEnvironment_def)

lemma echo_start_builds: "\<exists>cmd. Build False [] (process_command (echo_start h)) = Inr cmd"
proof -
  have "process_command (echo_start h) = process_command (echo_start [])"
    by (simp add: process_command_def echo_start_def)
  moreover have "(case Build False [] (process_command (echo_start [])) of Inl _ \<Rightarrow> False | Inr _ \<Rightarrow> True)"
    by code_simp
  ultimately show ?thesis by (auto split: sum.splits)
qed

lemma echo_claim:
  "snd (start_claim False [] True i owner (echo_start h) m) =
     (if h = [] then m\<lparr>pm_starting := (i, owner, echo_start h) # pm_starting m\<rparr>
      else if captureKey owner h \<in> set (pm_captured m) then m
      else m\<lparr>pm_captured := captureKey owner h # pm_captured m, pm_starting := (i, owner, echo_start h) # pm_starting m\<rparr>)"
  using echo_start_builds [of h] by (auto simp: start_claim_def echo_start_valid) (simp_all add: echo_start_def)

lemma echo_history: "ps_history (echo_start h) = h" "ps_timeout (echo_start h) = 5"
  by (simp_all add: echo_start_def)

lemmas echo_eval = echo_history echo_run_def newPluginProcessManager_def echo_claim captureKey_def start_launch_def end_start_def
  output_read_def output_taken_def take_chunk_def output_sent_def reader_ended_def process_collected_def process_recorded_def process_told_def queue_of_def events_of_def

lemma echo_run_admissible: "admissible proc_step fresh_process_id echo_run newPluginProcessManager"
  by (simp add: echo_eval)

lemma echo_run_claims:
  "run proc_step (take 5 echo_run) newPluginProcessManager =
     \<lparr>pm_items =
        [(''p1'', \<lparr>pp_owner = ''tasks'', pp_history = [], pp_timeout = 5, pp_pid = 41, pp_running = True, pp_terminated = False,
                   pp_timed_out = False, pp_exit = None, pp_queues = [], pp_readers = [''stdout'', ''stderr''],
                   pp_waited = None, pp_sending = [], pp_telling = None\<rparr>),
         (''p2'', \<lparr>pp_owner = ''tasks'', pp_history = ''h1'', pp_timeout = 5, pp_pid = 42, pp_running = True, pp_terminated = False,
                   pp_timed_out = False, pp_exit = None, pp_queues = [], pp_readers = [], pp_waited = None,
                   pp_sending = [], pp_telling = None\<rparr>)],
      pm_captured = [captureKey ''tasks'' ''h1''], pm_starting = [], pm_events = []\<rparr>"
  by (simp add: echo_run_def newPluginProcessManager_def echo_history echo_claim start_launch_def end_start_def)

lemma echo_run_events:
  "events_of ''p1'' (run proc_step echo_run newPluginProcessManager)
     = [Output_Event ''stdout'' ''p1'' ''h'', Output_Event ''stdout'' ''p1'' ''i'', Exit_Event ''p1'' 0 True False False []]"
proof -
  have split: "run proc_step echo_run newPluginProcessManager
    = run proc_step (drop 5 echo_run) (run proc_step (take 5 echo_run) newPluginProcessManager)"
    by (metis append_take_drop_id run_append)
  show ?thesis by (simp only: split echo_run_claims) code_simp
qed

theorem process_exit_last_witness:
  "list_all is_output (butlast (events_of ''p1'' (run proc_step echo_run newPluginProcessManager)))
   \<and> events_of ''p1'' (run proc_step echo_run newPluginProcessManager) \<noteq> []"
  using process_exit_last [OF echo_run_admissible refl, of "''p1''"] by (simp add: echo_run_events)

subsection \<open>Notifications of captured output\<close>

text \<open>
  \<open>outputNotifier\<close>: at most one notification per interval of 250 ms.  Times are in milliseconds; \<open>on_last\<close> is \<open>None\<close>
  before the first notification (the zero time of the code), and \<open>on_sent\<close> what has been published.
\<close>

definition pluginOutputNotifyInterval :: int where
  "pluginOutputNotifyInterval = 250"

record output_notifier =
  on_last :: "int option"
  on_timer :: "int option"
  on_size :: int
  on_pending :: bool
  on_stopped :: bool
  on_sent :: "(int \<times> int) list"

definition newOutputNotifier :: output_notifier where
  "newOutputNotifier = \<lparr>on_last = None, on_timer = None, on_size = 0, on_pending = False, on_stopped = False, on_sent = []\<rparr>"

definition notify_wait :: "int \<Rightarrow> output_notifier \<Rightarrow> int" where
  "notify_wait now n = (case on_last n of None \<Rightarrow> 0 | Some t \<Rightarrow> pluginOutputNotifyInterval - (now - t))"

definition notify :: "int \<Rightarrow> int \<Rightarrow> output_notifier \<Rightarrow> output_notifier" where
  "notify now len n =
     (if on_stopped n then n
      else (let n = n\<lparr>on_size := len\<rparr>
            in if notify_wait now n \<le> 0
               then n\<lparr>on_last := Some now, on_pending := False, on_sent := on_sent n @ [(now, len)]\<rparr>
               else n\<lparr>on_pending := True,
                      on_timer := (case on_timer n of None \<Rightarrow> Some (now + notify_wait now n) | Some t \<Rightarrow> Some t)\<rparr>))"

definition flush :: "int \<Rightarrow> output_notifier \<Rightarrow> output_notifier" where
  "flush now n =
     (let n = n\<lparr>on_timer := None\<rparr>
      in if on_stopped n \<or> \<not> on_pending n then n
         else n\<lparr>on_last := Some now, on_pending := False, on_sent := on_sent n @ [(now, on_size n)]\<rparr>)"

definition notifier_stop :: "int \<Rightarrow> output_notifier \<Rightarrow> output_notifier" where
  "notifier_stop now n =
     (if on_stopped n then n
      else (let n = n\<lparr>on_stopped := True, on_timer := None\<rparr>
            in if on_pending n then n\<lparr>on_sent := on_sent n @ [(now, on_size n)]\<rparr> else n))"

datatype notifier_event = Notify int int | Flush int | Stop_Notifier int

fun notifier_step :: "notifier_event \<Rightarrow> output_notifier \<Rightarrow> output_notifier" where
  "notifier_step (Notify now len) n = notify now len n"
| "notifier_step (Flush now) n = flush now n"
| "notifier_step (Stop_Notifier now) n = notifier_stop now n"

text \<open>
  The size of the log that was notified last, before the notifier stopped, is published or pending; and a pending one has a timer.  A
  timer that fires early or late is a flush like any other.
\<close>

fun sizes :: "notifier_event list \<Rightarrow> int list" where
  "sizes [] = []"
| "sizes (Notify _ len # es) = len # sizes es"
| "sizes (Flush _ # es) = sizes es"
| "sizes (Stop_Notifier _ # es) = []"

definition delivered :: "int list \<Rightarrow> output_notifier \<Rightarrow> bool" where
  "delivered ss n =
     (if ss = [] then on_sent n = [] \<and> (on_pending n \<longrightarrow> on_stopped n)
      else if on_pending n \<and> \<not> on_stopped n then on_size n = last ss
      else on_sent n \<noteq> [] \<and> snd (last (on_sent n)) = last ss)"

lemma delivered_stopped: "on_stopped n \<Longrightarrow> on_stopped (run notifier_step es n) \<and> on_sent (run notifier_step es n) = on_sent n"
proof (induction es arbitrary: n)
  case (Cons e es)
  have "on_stopped (notifier_step e n) \<and> on_sent (notifier_step e n) = on_sent n"
    using Cons.prems by (cases e) (simp_all add: notify_def flush_def notifier_stop_def Let_def)
  with Cons.IH show ?case by simp
qed simp

lemma delivered_run:
  "delivered ss n \<Longrightarrow> \<not> on_stopped n \<Longrightarrow> delivered (ss @ sizes es) (run notifier_step es n)"
proof (induction es arbitrary: n ss)
  case (Cons e es)
  show ?case
  proof (cases e)
    case (Notify now s)
    have "delivered (ss @ [s]) (notify now s n)" "\<not> on_stopped (notify now s n)"
      using Cons.prems by (simp_all add: delivered_def notify_def Let_def)
    from Cons.IH [OF this] show ?thesis by (simp add: Notify)
  next
    case (Flush now)
    have "delivered ss (flush now n)" "\<not> on_stopped (flush now n)"
      using Cons.prems by (auto simp: delivered_def flush_def Let_def)
    from Cons.IH [OF this] show ?thesis by (simp add: Flush)
  next
    case (Stop_Notifier now)
    let ?n = "notifier_stop now n"
    have "delivered ss ?n" "on_stopped ?n"
      using Cons.prems by (auto simp: delivered_def notifier_stop_def Let_def)
    with delivered_stopped [of ?n es] show ?thesis
      by (auto simp: Stop_Notifier delivered_def)
  qed
qed simp

text \<open>Whatever the sequence of writes, timer firings and the stop, the size that the log had when it was notified
  for the last time before the stop is the last one published.
\<close>

theorem notifier_delivers_last:
  assumes "sizes es \<noteq> []" and "on_stopped (run notifier_step es newOutputNotifier)"
  shows "on_sent (run notifier_step es newOutputNotifier) \<noteq> []
    \<and> snd (last (on_sent (run notifier_step es newOutputNotifier))) = last (sizes es)"
proof -
  have "delivered [] newOutputNotifier" "\<not> on_stopped newOutputNotifier"
    by (simp_all add: delivered_def newOutputNotifier_def)
  from delivered_run [OF this, of es] assms show ?thesis by (simp add: delivered_def)
qed

definition chatty_run :: "notifier_event list" where
  "chatty_run = [Notify 0 10, Notify 100 20, Notify 120 30, Flush 250, Notify 260 40, Stop_Notifier 300, Notify 700 50]"

theorem notifier_delivers_last_witness:
  "on_sent (run notifier_step chatty_run newOutputNotifier) = [(0, 10), (250, 30), (300, 40)]
   \<and> snd (last (on_sent (run notifier_step chatty_run newOutputNotifier))) = 40"
proof -
  have sent: "on_sent (run notifier_step chatty_run newOutputNotifier) = [(0, 10), (250, 30), (300, 40)]"
    and stop: "on_stopped (run notifier_step chatty_run newOutputNotifier)"
    and last: "sizes chatty_run = [10, 20, 30, 40]"
    by code_simp+
  show ?thesis using notifier_delivers_last [of chatty_run] by (simp add: sent stop last)
qed

subsection \<open>Commands that run to their end\<close>

definition maxRunTimeoutSeconds :: int where
  "maxRunTimeoutSeconds = 110"

definition maxRunOutputBytes :: int where
  "maxRunOutputBytes = 2097152"

record run_capture =
  rc_bytes :: string
  rc_max :: nat
  rc_truncated :: bool
  rc_tail :: bool

definition capture_write :: "string \<Rightarrow> run_capture \<Rightarrow> run_capture" where
  "capture_write p c =
     (if rc_tail c
      then (let b = rc_bytes c @ p
            in if rc_max c < length b
               then c\<lparr>rc_bytes := drop (length b - rc_max c) b, rc_truncated := True\<rparr>
               else c\<lparr>rc_bytes := b\<rparr>)
      else (let space = int (rc_max c) - int (length (rc_bytes c));
                c' = (if 0 < space then c\<lparr>rc_bytes := rc_bytes c @ take (nat space) p\<rparr> else c)
            in if space < int (length p) then c'\<lparr>rc_truncated := True\<rparr> else c'))"

definition new_capture :: "nat \<Rightarrow> bool \<Rightarrow> run_capture" where
  "new_capture limit tail = \<lparr>rc_bytes = [], rc_max = limit, rc_truncated = False, rc_tail = tail\<rparr>"

text \<open>What a capture has kept of the bytes written to it.\<close>

definition captures :: "run_capture \<Rightarrow> string \<Rightarrow> bool" where
  "captures c out =
     (rc_bytes c = (if rc_tail c then drop (length out - rc_max c) out else take (rc_max c) out)
      \<and> rc_truncated c = (rc_max c < length out))"

lemma capture_write_settings [simp]: "rc_max (capture_write p c) = rc_max c" "rc_tail (capture_write p c) = rc_tail c"
  by (simp_all add: capture_write_def Let_def)

lemma captures_write: "captures c out \<Longrightarrow> captures (capture_write p c) (out @ p)"
proof (cases "rc_tail c")
  case True
  assume "captures c out"
  with True have c: "rc_bytes c = drop (length out - rc_max c) out" "rc_truncated c = (rc_max c < length out)"
    by (simp_all add: captures_def)
  show ?thesis
  proof (cases "rc_max c < length (rc_bytes c @ p)")
    case big: True
    then have "length out + length p - rc_max c = (length out - rc_max c) + (length (rc_bytes c @ p) - rc_max c)"
      using c by simp
    then have "drop (length out + length p - rc_max c) (out @ p)
        = drop (length (rc_bytes c @ p) - rc_max c) (drop (length out - rc_max c) (out @ p))"
      by (simp only: drop_drop add.commute)
    also have "drop (length out - rc_max c) (out @ p) = rc_bytes c @ p" using c by simp
    finally show ?thesis using big True c by (simp add: captures_def capture_write_def Let_def) 
  next
    case False
    with True c show ?thesis by (auto simp: captures_def capture_write_def Let_def)
  qed
next
  case False
  assume "captures c out"
  with False have c: "rc_bytes c = take (rc_max c) out" "rc_truncated c = (rc_max c < length out)"
    by (simp_all add: captures_def)
  then show ?thesis using False by (auto simp: captures_def capture_write_def Let_def min_def nat_diff_distrib)
qed

lemma captures_writes: "captures c out \<Longrightarrow> captures (fold capture_write ps c) (out @ concat ps)"
  by (induction ps arbitrary: c out) (simp_all, metis append_assoc captures_write)

text \<open>Whatever the pieces in which a child writes its output, the capture of a run keeps its first or its last
  bytes up to the limit, and says that it is truncated exactly when it is longer.
\<close>

theorem capture_keeps_end:
  "rc_bytes (fold capture_write ps (new_capture limit tail))
     = (if tail then drop (length (concat ps) - limit) (concat ps) else take limit (concat ps))
   \<and> rc_truncated (fold capture_write ps (new_capture limit tail)) = (limit < length (concat ps))"
proof -
  have "captures (new_capture limit tail) []" by (simp add: captures_def new_capture_def)
  from captures_writes [OF this, of ps]
  have "captures (fold capture_write ps (new_capture limit tail)) (concat ps)" by simp
  moreover have "rc_max (fold capture_write ps c) = rc_max c" "rc_tail (fold capture_write ps c) = rc_tail c" for c
    by (induction ps arbitrary: c) simp_all
  ultimately show ?thesis by (simp add: captures_def new_capture_def)
qed

end
