(* ===== verification/Sessions.thy ===== *)
theory Sessions
  imports Model
begin

section \<open>Interactive process sessions\<close>

text \<open>
  Models \<^verbatim>\<open>internal/core/plugin_process_sessions.go\<close>.  A request is the decoded record, \<open>None\<close> when the
  JSON does not decode.  The pseudo terminal and the process behind it are arguments: whether the start,
  a write, a resize or a signal succeeds, and what \<^verbatim>\<open>Wait\<close> reports.  The goroutines and timers of a session
  are steps of their own: a chunk of output, a failed read, the end of the process, the lifetime and
  grace timers, the retirement five minutes after the end.  \<open>sm_log\<close> is the list of the events that were
  handed to the emitter, oldest first; whether the emitter accepts one is an argument.
\<close>

definition maxPluginProcessArgs :: nat where "maxPluginProcessArgs = 1024"
definition maxPluginProcessEnvironment :: nat where "maxPluginProcessEnvironment = 1024"
definition maxPluginProcessString :: int where "maxPluginProcessString = 32768"
definition maxPluginSessionsPerOwner :: nat where "maxPluginSessionsPerOwner = 8"
definition maxPluginSessionsGlobal :: nat where "maxPluginSessionsGlobal = 32"
definition maxPluginSessionInput :: int where "maxPluginSessionInput = 16384"
definition maxPluginSessionSpec :: int where "maxPluginSessionSpec = 1048576"
definition maxPluginSessionRows :: nat where "maxPluginSessionRows = 300"
definition maxPluginSessionColumns :: nat where "maxPluginSessionColumns = 500"

record session_start =
  ss_command :: string
  ss_args :: "string list"
  ss_workdir :: string
  ss_env :: "string table"
  ss_rows :: nat
  ss_columns :: nat

record session_status =
  st_id :: string
  st_state :: string
  st_exit :: "int option"
  st_reason :: string

record session =
  se_owner :: string
  se_state :: string
  se_reason :: string
  se_requested :: string
  se_exit :: "int option"
  se_sequence :: nat

datatype session_event =
  EvOutput string nat string
| EvError string
| EvExit session_status

record session_manager =
  sm_items :: "session table"
  sm_closed :: bool
  sm_log :: "(string \<times> session_event) list"

definition newPluginSessionManager :: session_manager where
  "newPluginSessionManager = \<lparr>sm_items = [], sm_closed = False, sm_log = []\<rparr>"

definition sessionInvalid :: "string \<Rightarrow> host_failure" where
  "sessionInvalid message = (''invalid_argument'', message)"

definition sessionNotFound :: host_failure where
  "sessionNotFound = (''not_found'', ''unknown process session'')"

subsection \<open>Validation and environment\<close>

abbreviation len :: "'a list \<Rightarrow> int" where
  "len xs \<equiv> int (length xs)"

definition valid_size :: "nat \<Rightarrow> nat \<Rightarrow> bool" where
  "valid_size rows columns =
     (\<not> (rows = 0 \<or> columns = 0 \<or> maxPluginSessionRows < rows \<or> maxPluginSessionColumns < columns))"

definition spec_size :: "session_start \<Rightarrow> int" where
  "spec_size r =
     len (ss_command r) + len (ss_workdir r) + sum_list (map (\<lambda>a. len a) (ss_args r))
     + sum_list (map (\<lambda>(k, v). len k + len v) (ss_env r))"

definition validatePluginSessionStart :: "session_start \<Rightarrow> host_failure option" where
  "validatePluginSessionStart r =
     (if trim_space (ss_command r) = [] then Some (sessionInvalid ''command is required'')
      else if maxPluginProcessString < len (ss_command r) \<or> maxPluginProcessString < len (ss_workdir r) then
        Some (sessionInvalid ''command or working directory is too long'')
      else if maxPluginProcessArgs < length (ss_args r) \<or> maxPluginProcessEnvironment < length (ss_env r) then
        Some (sessionInvalid ''too many arguments or environment variables'')
      else if list_ex (\<lambda>a. maxPluginProcessString < len a) (ss_args r) then
        Some (sessionInvalid ''argument is too long'')
      else if list_ex (\<lambda>(k, v). 1024 < len k \<or> maxPluginProcessString < len v) (ss_env r) then
        Some (sessionInvalid ''environment variable is too long'')
      else if maxPluginSessionSpec < spec_size r then
        Some (sessionInvalid ''process session specification exceeds 1 MiB'')
      else (case ValidateEnvironment (ss_env r) of
          Some e \<Rightarrow> Some (sessionInvalid e)
        | None \<Rightarrow>
            if \<not> valid_size (ss_rows r) (ss_columns r) then
              Some (sessionInvalid ''terminal size must be between 1x1 and 300x500'')
            else None))"

definition env_key :: "string \<Rightarrow> string" where
  "env_key entry = takeWhile (\<lambda>c. c \<noteq> CHR ''='') entry"

text \<open>Replace the first entry of the variable, or append one.\<close>

fun put_env :: "bool \<Rightarrow> string \<Rightarrow> string \<Rightarrow> string list \<Rightarrow> string list" where
  "put_env windows name v [] = [name @ ''='' @ v]"
| "put_env windows name v (item # rest) =
     (if windows \<and> equal_fold (env_key item) name \<or> env_key item = name then (name @ ''='' @ v) # rest
      else item # put_env windows name v rest)"

definition mergeSessionEnvironment :: "bool \<Rightarrow> string list \<Rightarrow> string table \<Rightarrow> string list" where
  "mergeSessionEnvironment windows inherited vals = fold (\<lambda>(name, v). put_env windows name v) vals inherited"

definition has_env :: "string \<Rightarrow> string list \<Rightarrow> bool" where
  "has_env name env = list_ex (\<lambda>e. env_key e = name) env"

definition processSessionEnvironment :: "bool \<Rightarrow> string list \<Rightarrow> string table \<Rightarrow> string list" where
  "processSessionEnvironment windows inherited vals =
     (let r = mergeSessionEnvironment windows inherited vals
      in if windows then r
         else (let r = (if has_env ''TERM'' r then r else r @ [''TERM=xterm-256color''])
               in if has_env ''COLORTERM'' r then r else r @ [''COLORTERM=truecolor'']))"

subsection \<open>Sessions\<close>

definition is_running :: "session \<Rightarrow> bool" where
  "is_running s = (se_state s = ''running'')"

definition emit :: "string \<Rightarrow> session_event \<Rightarrow> session_manager \<Rightarrow> session_manager" where
  "emit owner ev m = m\<lparr>sm_log := sm_log m @ [(owner, ev)]\<rparr>"

text \<open>\<open>started\<close> tells whether the terminal and its process could be started.\<close>

definition create :: "string \<Rightarrow> session_start option \<Rightarrow> bool \<Rightarrow> string \<Rightarrow> session_manager
    \<Rightarrow> (host_failure, session_status) result \<times> session_manager" where
  "create owner req started sid m =
     (case req of
        None \<Rightarrow> (Inl (sessionInvalid ''invalid create request''), m)
      | Some r \<Rightarrow>
          (case validatePluginSessionStart r of
             Some e \<Rightarrow> (Inl e, m)
           | None \<Rightarrow>
               if sm_closed m then (Inl (''unavailable'', ''process session manager is shutting down''), m)
               else if maxPluginSessionsPerOwner \<le> count_if (\<lambda>s. is_running s \<and> se_owner s = owner) (sm_items m)
                       \<or> maxPluginSessionsGlobal \<le> count_if is_running (sm_items m) then
                 (Inl (''resource_limit'', ''process session limit reached''), m)
               else if \<not> started then (Inl (''failed'', ''could not start interactive process''), m)
               else (Inr \<lparr>st_id = sid, st_state = ''running'', st_exit = None, st_reason = []\<rparr>,
                     m\<lparr>sm_items := AList.update sid
                         \<lparr>se_owner = owner, se_state = ''running'', se_reason = [], se_requested = [],
                          se_exit = None, se_sequence = 0\<rparr> (sm_items m)\<rparr>)))"

text \<open>\<open>finish\<close> does its work once, \<^verbatim>\<open>finishOnce\<close>: the session is running exactly until then.\<close>

definition finish :: "string \<Rightarrow> string \<Rightarrow> int option \<Rightarrow> session_manager \<Rightarrow> session_manager" where
  "finish sid reason code m =
     (case map_of (sm_items m) sid of
        None \<Rightarrow> m
      | Some s \<Rightarrow>
          if \<not> is_running s then m
          else (let m = m\<lparr>sm_items := modify sid (\<lambda>s. s\<lparr>se_state := ''exited'', se_reason := reason, se_exit := code\<rparr>) (sm_items m)\<rparr>;
                    m = (if reason = ''io_error'' then emit (se_owner s) (EvError sid) m else m)
                in emit (se_owner s) (EvExit \<lparr>st_id = sid, st_state = ''exited'', st_exit = code, st_reason = reason\<rparr>) m))"

text \<open>\<open>failed\<close>: the signal to the process failed.\<close>

definition requestStop :: "string \<Rightarrow> string \<Rightarrow> bool \<Rightarrow> session_manager \<Rightarrow> session_manager" where
  "requestStop sid reason failed m =
     (case map_of (sm_items m) sid of
        None \<Rightarrow> m
      | Some s \<Rightarrow>
          if \<not> is_running s then m
          else (let m = m\<lparr>sm_items := modify sid
                      (\<lambda>s. if se_requested s = [] then s\<lparr>se_requested := reason\<rparr> else s) (sm_items m)\<rparr>
                in if failed then finish sid reason None m else m))"

text \<open>A chunk that the terminal gave: numbered, and handed to the emitter.\<close>

definition readOutput :: "string \<Rightarrow> string \<Rightarrow> bool \<Rightarrow> session_manager \<Rightarrow> session_manager" where
  "readOutput sid data accepted m =
     (case map_of (sm_items m) sid of
        None \<Rightarrow> m
      | Some s \<Rightarrow>
          (let m = m\<lparr>sm_items := modify sid (\<lambda>s. s\<lparr>se_sequence := Suc (se_sequence s)\<rparr>) (sm_items m)\<rparr>;
               m = emit (se_owner s) (EvOutput sid (Suc (se_sequence s)) data) m
           in if accepted then m else finish sid ''io_error'' None m))"

text \<open>What \<^verbatim>\<open>Wait\<close> reports: an exit error with its code (negative for a signal), or the state of the process.\<close>

datatype waited = ExitError int | ExitState "int option"

definition waited_code :: "waited \<Rightarrow> int option" where
  "waited_code w = (case w of ExitError c \<Rightarrow> if 0 \<le> c then Some c else None | ExitState c \<Rightarrow> c)"

definition process_waited :: "string \<Rightarrow> waited \<Rightarrow> session_manager \<Rightarrow> session_manager" where
  "process_waited sid w m =
     (case map_of (sm_items m) sid of
        None \<Rightarrow> m
      | Some s \<Rightarrow> finish sid (if se_requested s = [] then ''exited'' else se_requested s) (waited_code w) m)"

definition lookup :: "string \<Rightarrow> string \<Rightarrow> session_manager \<Rightarrow> (host_failure, session) result" where
  "lookup owner sid m =
     (case map_of (sm_items m) sid of
        None \<Rightarrow> Inl sessionNotFound
      | Some s \<Rightarrow> if se_owner s \<noteq> owner then Inl sessionNotFound else Inr s)"

text \<open>The payload is the decoded base64 text, \<open>None\<close> when that is empty, too long or malformed.\<close>

definition write_input :: "string \<Rightarrow> (string \<times> string option) option \<Rightarrow> bool \<Rightarrow> session_manager
    \<Rightarrow> (host_failure, unit) result \<times> session_manager" where
  "write_input owner req ok m =
     (case req of
        None \<Rightarrow> (Inl (sessionInvalid ''id and base64 data are required''), m)
      | Some (sid, payload) \<Rightarrow>
          if sid = [] then (Inl (sessionInvalid ''id and base64 data are required''), m)
          else (case payload of
              None \<Rightarrow> (Inl (sessionInvalid ''data must contain 1 to 16384 decoded bytes''), m)
            | Some d \<Rightarrow>
                if d = [] \<or> maxPluginSessionInput < len d then
                  (Inl (sessionInvalid ''data must contain 1 to 16384 decoded bytes''), m)
                else (case lookup owner sid m of
                    Inl e \<Rightarrow> (Inl e, m)
                  | Inr s \<Rightarrow>
                      if \<not> is_running s then (Inl (''failed_precondition'', ''process session is not running''), m)
                      else if \<not> ok then
                        (Inl (''failed'', ''could not write process session input''), finish sid ''io_error'' None m)
                      else (Inr (), m))))"

definition resize :: "string \<Rightarrow> (string \<times> nat \<times> nat) option \<Rightarrow> bool \<Rightarrow> session_manager
    \<Rightarrow> (host_failure, unit) result \<times> session_manager" where
  "resize owner req ok m =
     (case req of
        None \<Rightarrow> (Inl (sessionInvalid ''id, rows and columns are required''), m)
      | Some (sid, rows, columns) \<Rightarrow>
          if sid = [] then (Inl (sessionInvalid ''id, rows and columns are required''), m)
          else if \<not> valid_size rows columns then
            (Inl (sessionInvalid ''terminal size must be between 1x1 and 300x500''), m)
          else (case lookup owner sid m of
              Inl e \<Rightarrow> (Inl e, m)
            | Inr s \<Rightarrow>
                if \<not> is_running s then (Inl (''failed_precondition'', ''process session is not running''), m)
                else if \<not> ok then
                  (Inl (''failed'', ''could not resize process session''), finish sid ''io_error'' None m)
                else (Inr (), m)))"

definition decodeSessionID :: "string option \<Rightarrow> (host_failure, string) result" where
  "decodeSessionID req =
     (case req of
        None \<Rightarrow> Inl (sessionInvalid ''id is required'')
      | Some sid \<Rightarrow> if trim_space sid = [] then Inl (sessionInvalid ''id is required'') else Inr sid)"

definition status_of :: "string \<Rightarrow> session \<Rightarrow> session_status" where
  "status_of sid s = \<lparr>st_id = sid, st_state = se_state s, st_exit = se_exit s, st_reason = se_reason s\<rparr>"

definition status :: "string \<Rightarrow> string option \<Rightarrow> session_manager \<Rightarrow> (host_failure, session_status) result" where
  "status owner req m =
     bind_result (decodeSessionID req) (\<lambda>sid. bind_result (lookup owner sid m) (\<lambda>s. Inr (status_of sid s)))"

definition terminate :: "string \<Rightarrow> string option \<Rightarrow> bool \<Rightarrow> session_manager
    \<Rightarrow> (host_failure, session_status) result \<times> session_manager" where
  "terminate owner req failed m =
     (case req of
        None \<Rightarrow> (Inl (sessionInvalid ''id is required''), m)
      | Some sid \<Rightarrow>
          if sid = [] then (Inl (sessionInvalid ''id is required''), m)
          else (case lookup owner sid m of
              Inl e \<Rightarrow> (Inl e, m)
            | Inr s \<Rightarrow>
                if \<not> is_running s then (status owner (Some sid) m, m)
                else (let m = requestStop sid ''terminated'' failed m in (status owner (Some sid) m, m))))"

definition deliveryFailed :: "string \<Rightarrow> string \<Rightarrow> session_manager \<Rightarrow> session_manager" where
  "deliveryFailed owner sid m = (case lookup owner sid m of Inl _ \<Rightarrow> m | Inr _ \<Rightarrow> finish sid ''io_error'' None m)"

text \<open>\<open>failing\<close> tells for which sessions the signal fails.\<close>

definition stop_all :: "string list \<Rightarrow> (string \<Rightarrow> bool) \<Rightarrow> session_manager \<Rightarrow> session_manager" where
  "stop_all sids failing m = fold (\<lambda>sid. requestStop sid ''terminated'' (failing sid)) sids m"

definition stopOwner :: "string \<Rightarrow> (string \<Rightarrow> bool) \<Rightarrow> session_manager \<Rightarrow> session_manager" where
  "stopOwner owner failing m =
     stop_all (map fst (filter (\<lambda>(_, s). se_owner s = owner) (sm_items m))) failing m"

definition close_sessions :: "(string \<Rightarrow> bool) \<Rightarrow> session_manager \<Rightarrow> session_manager" where
  "close_sessions failing m = stop_all (map fst (sm_items m)) failing (m\<lparr>sm_closed := True\<rparr>)"

text \<open>The retention timer that \<open>finish\<close> starts.\<close>

definition retire :: "string \<Rightarrow> session_manager \<Rightarrow> session_manager" where
  "retire sid m =
     (case map_of (sm_items m) sid of
        None \<Rightarrow> m
      | Some s \<Rightarrow> if is_running s then m else m\<lparr>sm_items := AList.delete sid (sm_items m)\<rparr>)"

text \<open>A read that failed while the process had not ended.\<close>

definition read_failed :: "string \<Rightarrow> session_manager \<Rightarrow> session_manager" where
  "read_failed sid m = finish sid ''io_error'' None m"


subsection \<open>Steps\<close>

datatype session_call =
  SCreate string "session_start option" bool string
| SOutput string string bool
| SReadFailed string
| SWaited string waited
| SWrite string "(string \<times> string option) option" bool
| SResize string "(string \<times> nat \<times> nat) option" bool
| STerminate string "string option" bool
| STimer string string bool
| SDeliveryFailed string string
| SStopOwner string "string \<Rightarrow> bool"
| SClose "string \<Rightarrow> bool"
| SRetire string

fun session_step :: "session_call \<Rightarrow> session_manager \<Rightarrow> session_manager" where
  "session_step (SCreate owner req started sid) m = snd (create owner req started sid m)"
| "session_step (SOutput sid d accepted) m = readOutput sid d accepted m"
| "session_step (SReadFailed sid) m = read_failed sid m"
| "session_step (SWaited sid w) m = process_waited sid w m"
| "session_step (SWrite owner req ok) m = snd (write_input owner req ok m)"
| "session_step (SResize owner req ok) m = snd (resize owner req ok m)"
| "session_step (STerminate owner req failed) m = snd (terminate owner req failed m)"
| "session_step (STimer sid reason failed) m = requestStop sid reason failed m"
| "session_step (SDeliveryFailed owner sid) m = deliveryFailed owner sid m"
| "session_step (SStopOwner owner failing) m = stopOwner owner failing m"
| "session_step (SClose failing) m = close_sessions failing m"
| "session_step (SRetire sid) m = retire sid m"

definition exits_of :: "string \<Rightarrow> session_manager \<Rightarrow> (string \<times> session_status) list" where
  "exits_of sid m = List.map_filter (\<lambda>(a, e). case e of EvExit st \<Rightarrow> if st_id st = sid then Some (a, st) else None | _ \<Rightarrow> None) (sm_log m)"

definition outputs_of :: "string \<Rightarrow> session_manager \<Rightarrow> nat list" where
  "outputs_of sid m = List.map_filter (\<lambda>(a, e). case e of EvOutput i n _ \<Rightarrow> if i = sid then Some n else None | _ \<Rightarrow> None) (sm_log m)"

text \<open>The identifier of a new session was never used.\<close>

fun session_fresh :: "session_call \<Rightarrow> session_manager \<Rightarrow> bool" where
  "session_fresh (SCreate _ _ _ sid) m = (map_of (sm_items m) sid = None \<and> exits_of sid m = [] \<and> outputs_of sid m = [])"
| "session_fresh _ m = True"

text \<open>The exit events of a session agree with its record, and its output is numbered from 1 without gaps.\<close>

definition numbered :: "nat list \<Rightarrow> bool" where
  "numbered ns = (ns = [1..<Suc (length ns)])"

lemma numbered_Nil [simp]: "numbered []"
  by (simp add: numbered_def)

lemma numbered_snoc [simp]: "numbered ns \<Longrightarrow> numbered (ns @ [Suc (length ns)])"
  by (simp add: numbered_def)

definition session_facts :: "session_manager \<Rightarrow> string \<Rightarrow> bool" where
  "session_facts m sid =
     (length (exits_of sid m) \<le> 1 \<and> numbered (outputs_of sid m)
      \<and> (case map_of (sm_items m) sid of
            None \<Rightarrow> True
          | Some s \<Rightarrow> se_sequence s = length (outputs_of sid m)
              \<and> exits_of sid m = (if is_running s then [] else [(se_owner s, status_of sid s)])))"

definition session_limits :: "session table \<Rightarrow> bool" where
  "session_limits t =
     (count_if is_running t \<le> maxPluginSessionsGlobal
      \<and> (\<forall>a. count_if (\<lambda>s. is_running s \<and> se_owner s = a) t \<le> maxPluginSessionsPerOwner))"

definition session_inv :: "session_manager \<Rightarrow> bool" where
  "session_inv m = (keys_distinct (sm_items m) \<and> (\<forall>sid. session_facts m sid) \<and> session_limits (sm_items m))"

lemma log_of_emit [simp]:
  "exits_of sid (emit a e m) = exits_of sid m @ (case e of EvExit st \<Rightarrow> if st_id st = sid then [(a, st)] else [] | _ \<Rightarrow> [])"
  "outputs_of sid (emit a e m) = outputs_of sid m @ (case e of EvOutput i n _ \<Rightarrow> if i = sid then [n] else [] | _ \<Rightarrow> [])"
  "sm_items (emit a e m) = sm_items m" "sm_closed (emit a e m) = sm_closed m"
  by (auto simp: exits_of_def outputs_of_def emit_def map_filter_def split: session_event.splits)

lemma log_of_items [simp]:
  "exits_of sid (m\<lparr>sm_items := t\<rparr>) = exits_of sid m" "outputs_of sid (m\<lparr>sm_items := t\<rparr>) = outputs_of sid m"
  "exits_of sid (m\<lparr>sm_closed := c\<rparr>) = exits_of sid m" "outputs_of sid (m\<lparr>sm_closed := c\<rparr>) = outputs_of sid m"
  by (simp_all add: exits_of_def outputs_of_def)

lemma session_limits_modify:
  assumes lim: "session_limits t" and f: "\<And>s. is_running (f s) \<Longrightarrow> is_running s" "\<And>s. se_owner (f s) = se_owner s"
  shows "session_limits (modify k f t)"
proof -
  have "count_if is_running (modify k f t) \<le> count_if is_running t"
    using f by (intro count_if_modify_le)
  moreover have "count_if (\<lambda>s. is_running s \<and> se_owner s = a) (modify k f t)
      \<le> count_if (\<lambda>s. is_running s \<and> se_owner s = a) t" for a
    using f by (intro count_if_modify_le) auto
  ultimately show ?thesis using lim unfolding session_limits_def by (meson order_trans)
qed

lemma session_inv_finish: "session_inv m \<Longrightarrow> session_inv (finish sid reason code m)"
proof (cases "map_of (sm_items m) sid")
  case (Some s)
  assume inv: "session_inv m"
  let ?f = "\<lambda>s. s\<lparr>se_state := ''exited'', se_reason := reason, se_exit := code\<rparr>"
  have counts: "session_limits (modify sid ?f (sm_items m))"
    using inv by (intro session_limits_modify) (simp_all add: session_inv_def is_running_def)
  have facts: "session_facts (finish sid reason code m) i" if "is_running s" for i
  proof (cases "i = sid")
    case True
    from inv have "session_facts m sid" by (simp add: session_inv_def)
    with True Some that show ?thesis
      by (simp add: session_facts_def finish_def Let_def table_simps status_of_def is_running_def)
  next
    case False
    from inv have "session_facts m i" by (simp add: session_inv_def)
    with False Some that show ?thesis
      by (cases "map_of (sm_items m) i"; cases "reason = ''io_error''")
        (simp_all add: session_facts_def finish_def Let_def table_simps)
  qed
  show ?thesis
  proof (cases "is_running s")
    case True
    have "sm_items (finish sid reason code m) = modify sid ?f (sm_items m)"
      using Some True by (simp add: finish_def Let_def)
    with facts [OF True] counts inv show ?thesis unfolding session_inv_def by auto
  next
    case False
    with Some inv show ?thesis by (simp add: finish_def)
  qed
qed (simp add: finish_def)

lemma session_facts_same:
  "exits_of i m' = exits_of i m \<Longrightarrow> outputs_of i m' = outputs_of i m \<Longrightarrow>
     map_of (sm_items m') i = map_of (sm_items m) i \<Longrightarrow> session_facts m' i = session_facts m i"
  by (simp only: session_facts_def)

text \<open>A change of the record that touches neither what the events say nor the owner.\<close>

lemma session_inv_modify:
  assumes inv: "session_inv m"
    and f: "\<And>s. se_owner (f s) = se_owner s" "\<And>s. se_state (f s) = se_state s" "\<And>s. se_exit (f s) = se_exit s"
      "\<And>s. se_reason (f s) = se_reason s" "\<And>s. se_sequence (f s) = se_sequence s"
  shows "session_inv (m\<lparr>sm_items := modify sid f (sm_items m)\<rparr>)"
proof -
  have "session_facts (m\<lparr>sm_items := modify sid f (sm_items m)\<rparr>) i" for i
  proof -
    from inv have "session_facts m i" by (simp add: session_inv_def)
    with f show ?thesis by (auto simp: session_facts_def table_simps status_of_def is_running_def split: option.splits)
  qed
  moreover have "session_limits (modify sid f (sm_items m))"
    using inv f by (intro session_limits_modify) (simp_all add: session_inv_def is_running_def)
  ultimately show ?thesis using inv by (simp add: session_inv_def)
qed

lemma session_inv_requestStop: "session_inv m \<Longrightarrow> session_inv (requestStop sid reason failed m)"
proof -
  assume inv: "session_inv m"
  have "session_inv (m\<lparr>sm_items := modify sid (\<lambda>s. if se_requested s = [] then s\<lparr>se_requested := reason\<rparr> else s) (sm_items m)\<rparr>)"
    by (rule session_inv_modify [OF inv]) simp_all
  with inv show ?thesis
    by (auto simp: requestStop_def Let_def intro: session_inv_finish split: option.splits)
qed

lemma session_inv_stop_all: "session_inv m \<Longrightarrow> session_inv (stop_all sids failing m)"
  by (induction sids arbitrary: m) (auto simp: stop_all_def intro: session_inv_requestStop)

lemma session_inv_output: "session_inv m \<Longrightarrow> session_inv (readOutput sid d accepted m)"
proof (cases "map_of (sm_items m) sid")
  case (Some s)
  assume inv: "session_inv m"
  let ?f = "\<lambda>s. s\<lparr>se_sequence := Suc (se_sequence s)\<rparr>"
  let ?m = "emit (se_owner s) (EvOutput sid (Suc (se_sequence s)) d) (m\<lparr>sm_items := modify sid ?f (sm_items m)\<rparr>)"
  have "session_facts ?m i" for i
  proof -
    from inv have "session_facts m i" by (simp add: session_inv_def)
    with Some show ?thesis
      by (cases "i = sid") (auto simp: session_facts_def table_simps status_of_def is_running_def split: option.splits)
  qed
  moreover have "session_limits (modify sid ?f (sm_items m))"
    using inv by (intro session_limits_modify) (simp_all add: session_inv_def is_running_def)
  ultimately have "session_inv ?m" using inv by (simp add: session_inv_def)
  with Some show ?thesis by (simp add: readOutput_def Let_def session_inv_finish)
qed (simp add: readOutput_def)

lemma length_modify_limits: "session_limits t \<Longrightarrow> session_limits (AList.delete k t)"
  unfolding session_limits_def by (meson count_if_delete_le order_trans)

lemma session_inv_create:
  assumes inv: "session_inv m" and fresh: "session_fresh (SCreate owner req started sid) m"
  shows "session_inv (snd (create owner req started sid m))"
proof (cases "is_ok (fst (create owner req started sid m))")
  case False
  then have "snd (create owner req started sid m) = m"
    by (auto simp: create_def split: option.splits if_splits)
  with inv show ?thesis by simp
next
  case True
  let ?new = "\<lparr>se_owner = owner, se_state = ''running'', se_reason = [], se_requested = [], se_exit = None, se_sequence = 0\<rparr>"
  from True have items: "snd (create owner req started sid m) = m\<lparr>sm_items := AList.update sid ?new (sm_items m)\<rparr>"
    and room: "count_if (\<lambda>s. is_running s \<and> se_owner s = owner) (sm_items m) < maxPluginSessionsPerOwner"
      "count_if is_running (sm_items m) < maxPluginSessionsGlobal"
    by (auto simp: create_def split: option.splits if_splits)
  from fresh have none: "map_of (sm_items m) sid = None" by simp
  have "session_limits (AList.update sid ?new (sm_items m))"
    using room inv by (auto simp: session_limits_def count_if_update_eq [OF none] session_inv_def is_running_def)
  moreover have "session_facts (m\<lparr>sm_items := AList.update sid ?new (sm_items m)\<rparr>) i" for i
  proof -
    from inv have "session_facts m i" by (simp add: session_inv_def)
    with fresh show ?thesis
      by (cases "i = sid")
        (simp add: session_facts_def table_simps is_running_def, subst session_facts_same, simp_all add: table_simps)
  qed
  ultimately show ?thesis using inv unfolding items session_inv_def by auto
qed

lemma session_inv_step:
  assumes inv: "session_inv m" and fresh: "session_fresh e m"
  shows "session_inv (session_step e m)"
proof (cases e)
  case (SCreate owner req started sid)
  with session_inv_create [OF inv] fresh show ?thesis by simp
next
  case (SWaited sid w)
  with inv show ?thesis by (simp add: process_waited_def session_inv_finish split: option.splits)
next
  case (SWrite owner req ok)
  with inv show ?thesis by (auto simp: write_input_def session_inv_finish split: option.splits sum.splits)
next
  case (SResize owner req ok)
  with inv show ?thesis by (auto simp: resize_def session_inv_finish split: option.splits sum.splits)
next
  case (STerminate owner req failed)
  with inv show ?thesis
    by (auto simp: terminate_def Let_def session_inv_requestStop split: option.splits sum.splits)
next
  case (SDeliveryFailed owner sid)
  with inv show ?thesis by (auto simp: deliveryFailed_def session_inv_finish split: sum.splits)
next
  case (SClose failing)
  have "session_facts (m\<lparr>sm_closed := True\<rparr>) i = session_facts m i" for i by (rule session_facts_same) simp_all
  with inv have "session_inv (m\<lparr>sm_closed := True\<rparr>)" by (simp add: session_inv_def)
  with SClose show ?thesis by (simp add: close_sessions_def session_inv_stop_all)
next
  case (SRetire sid)
  have "session_facts (m\<lparr>sm_items := AList.delete sid (sm_items m)\<rparr>) i" for i
  proof -
    from inv have "session_facts m i" by (simp add: session_inv_def)
    then show ?thesis
      by (cases "i = sid") (simp add: session_facts_def table_simps, subst session_facts_same, simp_all add: table_simps)
  qed
  with inv SRetire show ?thesis
    by (auto simp: retire_def session_inv_def length_modify_limits split: option.splits)
qed (use inv in \<open>simp_all add: session_inv_output read_failed_def session_inv_finish session_inv_requestStop stopOwner_def session_inv_stop_all\<close>)

interpretation session_machine: guarded_machine session_step session_fresh session_inv
  by unfold_locales (rule session_inv_step)

lemma session_inv_new: "session_inv newPluginSessionManager"
  by (simp add: session_inv_def newPluginSessionManager_def session_facts_def exits_of_def outputs_of_def
      session_limits_def map_filter_def)

text \<open>C16: A session reports its exit once.  However calls, output, failures, signals and timers interleave, at
  most one exit event is emitted for a session, none while it is running, and after it the recorded
  status is the emitted one; the chunks of its output are numbered from 1 without gap or repetition; and
  no owner has more than 8 running sessions, all owners together not more than 32.\<close>

theorem session_exit_once:
  assumes "admissible session_step session_fresh es newPluginSessionManager"
  shows "(let m = run session_step es newPluginSessionManager
    in length (exits_of sid m) \<le> 1
       \<and> outputs_of sid m = [1..<Suc (length (outputs_of sid m))]
       \<and> (case map_of (sm_items m) sid of
             None \<Rightarrow> True
           | Some s \<Rightarrow> exits_of sid m = (if is_running s then [] else [(se_owner s, status_of sid s)]))
       \<and> count_if is_running (sm_items m) \<le> 32
       \<and> count_if (\<lambda>s. is_running s \<and> se_owner s = a) (sm_items m) \<le> 8)"
proof -
  let ?m = "run session_step es newPluginSessionManager"
  have inv: "session_inv ?m" using session_machine.run_inv [OF session_inv_new assms] .
  then have "session_facts ?m sid" "session_limits (sm_items ?m)" by (simp_all add: session_inv_def)
  then show ?thesis
    by (auto simp: Let_def session_facts_def numbered_def session_limits_def maxPluginSessionsGlobal_def
        maxPluginSessionsPerOwner_def simp del: upt_Suc split: option.splits)
qed

definition sample_start :: session_start where
  "sample_start = \<lparr>ss_command = ''sh'', ss_args = [], ss_workdir = [], ss_env = [], ss_rows = 24, ss_columns = 80\<rparr>"

definition sample_run :: "session_call list" where
  "sample_run = [SCreate ''a'' (Some sample_start) True ''s'', SOutput ''s'' ''x'' True,
     SWaited ''s'' (ExitState (Some 0)), SDeliveryFailed ''a'' ''s'']"

lemma sample_start_valid: "validatePluginSessionStart sample_start = None"
proof -
  have "trim_space ''sh'' \<noteq> []" "ValidateEnvironment [] = None" by code_simp+
  then show ?thesis
    by (simp add: validatePluginSessionStart_def sample_start_def maxPluginProcessString_def maxPluginProcessArgs_def
        maxPluginProcessEnvironment_def maxPluginSessionSpec_def spec_size_def valid_size_def
        maxPluginSessionRows_def maxPluginSessionColumns_def)
qed

lemma sample_run_admissible: "admissible session_step session_fresh sample_run newPluginSessionManager"
  by (simp add: sample_run_def newPluginSessionManager_def exits_of_def outputs_of_def map_filter_def)

theorem session_exit_once_witness:
  "length (exits_of ''s'' (run session_step sample_run newPluginSessionManager)) \<le> 1
   \<and> exits_of ''s'' (run session_step sample_run newPluginSessionManager)
       = [(''a'', \<lparr>st_id = ''s'', st_state = ''exited'', st_exit = Some 0, st_reason = ''exited''\<rparr>)]"
proof
  show "length (exits_of ''s'' (run session_step sample_run newPluginSessionManager)) \<le> 1"
    using session_exit_once [OF sample_run_admissible, of "''s''"] by (simp add: Let_def)
  show "exits_of ''s'' (run session_step sample_run newPluginSessionManager)
      = [(''a'', \<lparr>st_id = ''s'', st_state = ''exited'', st_exit = Some 0, st_reason = ''exited''\<rparr>)]"
    by (simp add: sample_run_def create_def sample_start_valid newPluginSessionManager_def readOutput_def Let_def
        process_waited_def waited_code_def finish_def is_running_def modify_def emit_def deliveryFailed_def lookup_def
        exits_of_def map_filter_def maxPluginSessionsPerOwner_def maxPluginSessionsGlobal_def)
qed

end
