(* ===== verification/Paths.thy ===== *)
theory Paths
  imports Prelude
begin

section \<open>Virtual paths\<close>

text \<open>
  Models \<^verbatim>\<open>internal/browserpath/path.go\<close>, \<open>safePackagePath\<close> of \<^verbatim>\<open>internal/plugins/types.go\<close> and
  \<open>browserAsset\<close> of \<^verbatim>\<open>internal/core/browser_publication.go\<close>: the tests that decide whether a path a plugin
  supplies may become part of a URL or of a file name, with what they use of Go's \<^verbatim>\<open>path\<close> and
  \<^verbatim>\<open>net/url\<close>.
\<close>

subsection \<open>Go's path and url packages\<close>

text \<open>\<^verbatim>\<open>path.Clean\<close> on the segments between the slashes; \<open>out\<close> holds the kept ones, last first.\<close>

fun clean_segments :: "bool \<Rightarrow> string list \<Rightarrow> string list \<Rightarrow> string list" where
  "clean_segments rooted out [] = rev out"
| "clean_segments rooted out (s # ss) =
     (if s = [] \<or> s = ''.'' then clean_segments rooted out ss
      else if s = ''..'' then
        (case out of
           [] \<Rightarrow> if rooted then clean_segments rooted [] ss else clean_segments rooted [''..''] ss
         | p # ps \<Rightarrow> if p = ''..'' then clean_segments rooted (''..'' # out) ss else clean_segments rooted ps ss)
      else clean_segments rooted (s # out) ss)"

definition path_clean :: "string \<Rightarrow> string" where
  "path_clean p =
     (let rooted = prefix ''/'' p;
          segs = clean_segments rooted [] (split_on (CHR ''/'') p)
      in if rooted then CHR ''/'' # join_with ''/'' segs
         else if segs = [] then ''.'' else join_with ''/'' segs)"

definition hex_value :: "char \<Rightarrow> nat option" where
  "hex_value c =
     (if is_digit c then Some (of_char c - 48)
      else if c \<in> set ''abcdef'' then Some (of_char c - 87)
      else if c \<in> set ''ABCDEF'' then Some (of_char c - 55) else None)"

text \<open>\<^verbatim>\<open>url.PathUnescape\<close>.\<close>

fun path_unescape :: "string \<Rightarrow> string option" where
  "path_unescape [] = Some []"
| "path_unescape (c # cs) =
     (if c \<noteq> CHR ''%'' then map_option (Cons c) (path_unescape cs)
      else (case cs of
          a # b # rest \<Rightarrow>
            (case (hex_value a, hex_value b) of
               (Some x, Some y) \<Rightarrow> map_option (Cons (char_of (16 * x + y))) (path_unescape rest)
             | _ \<Rightarrow> None)
        | _ \<Rightarrow> None))"

text \<open>\<^verbatim>\<open>(&url.URL{Path: value}).EscapedPath()\<close>.\<close>

definition url_literal :: "char \<Rightarrow> bool" where
  "url_literal c = (is_alnum c \<or> c \<in> set ''-_.~$&+,/:;=@'')"

definition hex_digit :: "nat \<Rightarrow> char" where
  "hex_digit n = (if n < 10 then char_of (48 + n) else char_of (55 + n))"

definition escape_char :: "char \<Rightarrow> string" where
  "escape_char c =
     (if url_literal c then [c]
      else [CHR ''%'', hex_digit (of_char c div 16), hex_digit (of_char c mod 16)])"

definition Escape :: "string \<Rightarrow> string" where
  "Escape v = (if v = ''*'' then ''*'' else concat (map escape_char v))"

subsection \<open>Mount paths\<close>

definition path_specials :: string where
  "path_specials = [CHR 0x5C, CHR 0x00, CHR 0x0D, CHR 0x0A]"

text \<open>At most four rounds of unescaping; \<open>Inr\<close> the last decoded form.\<close>

fun decode_rounds :: "nat \<Rightarrow> string \<Rightarrow> (string, string) result" where
  "decode_rounds 0 decoded = Inr decoded"
| "decode_rounds (Suc n) decoded =
     (case path_unescape decoded of
        None \<Rightarrow> Inl ''invalid escaping''
      | Some nxt \<Rightarrow>
          if contains_any nxt path_specials then Inl ''invalid path''
          else if list_ex (\<lambda>part. part = ''..'' \<or> part = ''.'') (split_on (CHR ''/'') nxt) then Inl ''path traversal''
          else if nxt = decoded then Inr decoded
          else decode_rounds n nxt)"

definition Validate :: "string \<Rightarrow> bool \<Rightarrow> string option" where
  "Validate v root =
     (if 1024 < length v \<or> \<not> prefix ''/'' v \<or> contains_any v (CHR ''?'' # CHR ''#'' # path_specials) then
        Some ''invalid path''
      else (case decode_rounds 4 v of
          Inl e \<Rightarrow> Some e
        | Inr decoded \<Rightarrow>
            if CHR ''%'' \<in> set decoded then Some ''ambiguous escaping''
            else if path_clean v \<noteq> v \<or> \<not> root \<and> v = ''/'' then Some ''path must be normalized''
            else None))"

definition Mount :: "string \<Rightarrow> string option" where
  "Mount v =
     (if Escape v \<noteq> v \<or> CHR ''%'' \<in> set v then Some ''mount must use literal URL-safe characters''
      else (case Validate v False of
          Some e \<Rightarrow> Some e
        | None \<Rightarrow>
            (let first = hd (split_on (CHR ''/'') (trim_prefix ''/'' v))
             in if CHR ''.'' \<in> set first then Some ''reserved mount''
                else if first \<in> {''api'', ''plugins'', ''vendor'', ''healthz'', ''__runpilot__''} then Some ''reserved mount''
                else None)))"

definition Overlap :: "string \<Rightarrow> string \<Rightarrow> bool" where
  "Overlap a b = (a = b \<or> prefix (b @ ''/'') a \<or> prefix (a @ ''/'') b)"

definition Join :: "string \<Rightarrow> string \<Rightarrow> string" where
  "Join base mount = trim_suffix ''/'' base @ mount"

subsection \<open>Package paths\<close>

text \<open>Does \<open>t\<close> occur in \<open>s\<close>?\<close>

definition contains_str :: "string \<Rightarrow> string \<Rightarrow> bool" where
  "contains_str s t = sublist t s"

definition safePackagePath :: "string \<Rightarrow> bool" where
  "safePackagePath v =
     (if trim_space v \<noteq> v \<or> path_clean v \<noteq> v \<or> CHR '':'' \<in> set v then False
      else v \<noteq> [] \<and> \<not> prefix ''/'' v \<and> CHR 0x5C \<notin> set v \<and> v \<noteq> ''.'' \<and> v \<noteq> ''..''
           \<and> \<not> prefix ''../'' v \<and> \<not> contains_str v ''/../'')"

definition browserAsset :: "string \<Rightarrow> bool" where
  "browserAsset v =
     (path_clean v = v \<and> trim_space v = v \<and> prefix ''web/'' v
      \<and> \<not> contains_any v (CHR ''?'' # CHR ''#'' # CHR '':'' # path_specials)
      \<and> \<not> contains_str v ''..'' \<and> length v < 256)"

subsection \<open>What a cleaned path looks like\<close>

definition plain :: "string \<Rightarrow> bool" where
  "plain s = (s \<noteq> [] \<and> s \<noteq> ''.'' \<and> s \<noteq> ''..'')"

text \<open>The kept segments: plain ones, after (in an unrooted path) a run of parent references.\<close>

definition clean_shape :: "bool \<Rightarrow> string list \<Rightarrow> bool" where
  "clean_shape rooted segs =
     (\<exists>ups downs. segs = ups @ downs \<and> (\<forall>s \<in> set ups. s = ''..'' \<and> \<not> rooted) \<and> (\<forall>s \<in> set downs. plain s))"

lemma clean_segments_shape:
  "clean_shape rooted (rev out) \<Longrightarrow> clean_shape rooted (clean_segments rooted out segs)"
proof (induction segs arbitrary: out)
  case (Cons s ss)
  from Cons.prems obtain ups downs where out: "rev out = ups @ downs"
    and u: "\<forall>s \<in> set ups. s = ''..'' \<and> \<not> rooted" and d: "\<forall>s \<in> set downs. plain s"
    by (auto simp: clean_shape_def)
  consider "s = [] \<or> s = ''.''" | "s = ''..''" | "plain s" by (auto simp: plain_def)
  then show ?case
  proof cases
    case 1
    then show ?thesis using Cons by auto
  next
    case 3
    have "clean_shape rooted (rev (s # out))"
      unfolding clean_shape_def by (rule exI [of _ ups], rule exI [of _ "downs @ [s]"]) (use out u d 3 in auto)
    then show ?thesis using Cons.IH [of "s # out"] 3 by (auto simp: plain_def)
  next
    case dots: 2
    show ?thesis
    proof (cases out)
      case Nil
      have "clean_shape rooted (rev [])" "\<not> rooted \<Longrightarrow> clean_shape rooted (rev [''..''])"
        unfolding clean_shape_def
        by simp (rule exI [of _ "[''..'']"], rule exI [of _ "[]"], simp)
      with Nil dots Cons.IH [of "[]"] Cons.IH [of "[''..'']"] show ?thesis by auto
    next
      case Out: (Cons p ps)
      show ?thesis
      proof (cases "p = ''..''")
        case True
        then have "downs = []" using out Out d
          by (cases downs rule: rev_cases) (auto simp: plain_def)
        then have "clean_shape rooted (rev (''..'' # out))"
          unfolding clean_shape_def
          by (intro exI [of _ "ups @ [''..'']"] exI [of _ "[]"]) (use out u Out True in auto)
        with Out True dots Cons.IH [of "''..'' # out"] show ?thesis by simp
      next
        case False
        then have "downs \<noteq> []" using out Out u by auto
        then obtain ds where ds: "downs = ds @ [p]" using out Out
          by (cases downs rule: rev_cases) auto
        then have "clean_shape rooted (rev ps)"
          unfolding clean_shape_def
          by (intro exI [of _ ups] exI [of _ ds]) (use out u d Out ds in auto)
        with Out False dots Cons.IH [of ps] show ?thesis by simp
      qed
    qed
  qed
qed simp

lemma clean_segments_sub: "set (clean_segments rooted out segs) \<subseteq> set out \<union> set segs"
proof (induction segs arbitrary: out)
  case (Cons s ss)
  show ?case using Cons [of out] Cons [of "s # out"] Cons [of "[]"] Cons [of "[''..'']"] Cons [of "tl out"]
    by (cases out) auto
qed simp

lemma clean_segments_plain:
  "list_all plain segs \<Longrightarrow> clean_segments rooted out segs = rev out @ segs"
  by (induction segs arbitrary: out) (auto simp: plain_def)

lemma join_with_hd: "segs \<noteq> [] \<Longrightarrow> hd segs \<noteq> [] \<Longrightarrow> join_with [c] segs \<noteq> [] \<and> hd (join_with [c] segs) = hd (hd segs)"
  by (cases segs rule: list.exhaust; cases "tl segs"; cases "hd segs") auto

lemma plain_unrooted: "list_all plain (split_on (CHR ''/'') v) \<Longrightarrow> \<not> prefix ''/'' v"
  by (cases v) (auto simp: plain_def)

text \<open>The segments of a cleaned unrooted path.\<close>

lemma clean_unrooted:
  assumes "path_clean v = v" "\<not> prefix ''/'' v" "v \<noteq> ''.''"
  shows "clean_shape False (split_on (CHR ''/'') v)"
proof -
  let ?cs = "clean_segments False [] (split_on (CHR ''/'') v)"
  from assms have v: "?cs \<noteq> []" "v = join_with ''/'' ?cs"
    by (auto simp: path_clean_def Let_def split: if_splits)
  have "\<forall>w \<in> set ?cs. CHR ''/'' \<notin> set w"
    using clean_segments_sub [of False "[]" "split_on (CHR ''/'') v"] split_on_no_sep by fastforce
  with v have "split_on (CHR ''/'') v = ?cs" using split_join by metis
  moreover have "clean_shape False ?cs"
    by (rule clean_segments_shape) (simp add: clean_shape_def)
  ultimately show ?thesis by simp
qed

lemma clean_rooted:
  assumes "path_clean v = v" "prefix ''/'' v" "v \<noteq> ''/''"
  shows "\<exists>segs. split_on (CHR ''/'') v = [] # segs \<and> list_all plain segs"
proof -
  let ?cs = "clean_segments True [] (split_on (CHR ''/'') v)"
  from assms have v: "v = CHR ''/'' # join_with ''/'' ?cs"
    by (simp add: path_clean_def Let_def)
  with assms(3) have ne: "?cs \<noteq> []" by (metis join_with.simps(1))
  have "\<forall>w \<in> set ?cs. CHR ''/'' \<notin> set w"
    using clean_segments_sub [of True "[]" "split_on (CHR ''/'') v"] split_on_no_sep by fastforce
  with ne have "split_on (CHR ''/'') (CHR ''/'' # join_with ''/'' ?cs) = [] # ?cs"
    using split_join [of ?cs] by simp
  then have "split_on (CHR ''/'') v = [] # ?cs" using v by metis
  moreover have "clean_shape True ?cs"
    by (rule clean_segments_shape) (simp add: clean_shape_def)
  then have "list_all plain ?cs" by (auto simp: clean_shape_def list_all_iff)
  ultimately show ?thesis by blast
qed

lemma split_on_parts: "split_on c (a @ c # b) = split_on c a @ split_on c b"
proof (induction a)
  case (Cons x a)
  then show ?case by (cases "split_on c a") auto
qed simp

lemma plain_no_parent: "list_all plain (split_on (CHR ''/'') v) \<Longrightarrow> \<not> contains_str v ''/../''"
proof
  assume plain: "list_all plain (split_on (CHR ''/'') v)" and "contains_str v ''/../''"
  then obtain a b where "v = a @ ''/../'' @ b" by (auto simp: contains_str_def sublist_def)
  then have "v = a @ CHR ''/'' # ''..'' @ CHR ''/'' # b" by simp
  then have "split_on (CHR ''/'') v = split_on (CHR ''/'') a @ split_on (CHR ''/'') (''..'' @ CHR ''/'' # b)"
    using split_on_parts [of "CHR ''/''" a "''..'' @ CHR ''/'' # b"] by simp
  then have "split_on (CHR ''/'') v = split_on (CHR ''/'') a @ ''..'' # split_on (CHR ''/'') b"
    using split_on_append [of "CHR ''/''" "''..''" b] by simp
  with plain show False by (simp add: plain_def)
qed

lemma plain_no_up: "list_all plain (split_on (CHR ''/'') v) \<Longrightarrow> \<not> prefix ''../'' v"
proof
  assume plain: "list_all plain (split_on (CHR ''/'') v)" and "prefix ''../'' v"
  then obtain b where "v = ''..'' @ CHR ''/'' # b" by (auto elim: prefixE)
  then have "split_on (CHR ''/'') v = ''..'' # split_on (CHR ''/'') b"
    using split_on_append [of "CHR ''/''" "''..''" b] by simp
  with plain show False by (simp add: plain_def)
qed

lemma dots_not_plain:
  "\<not> list_all plain (split_on (CHR ''/'') [])"
  "\<not> list_all plain (split_on (CHR ''/'') ''.'')"
  "\<not> list_all plain (split_on (CHR ''/'') ''..'')"
  by (simp_all add: plain_def)

lemma plain_clean:
  assumes "list_all plain (split_on (CHR ''/'') v)"
  shows "path_clean v = v"
  using assms plain_unrooted [OF assms] clean_segments_plain [OF assms, of False "[]"]
  by (simp add: path_clean_def Let_def)

lemma shape_plain:
  assumes "clean_shape False (split_on (CHR ''/'') v)" "v \<noteq> ''..''" "\<not> prefix ''../'' v"
  shows "list_all plain (split_on (CHR ''/'') v)"
proof -
  from assms(1) obtain ups downs where s: "split_on (CHR ''/'') v = ups @ downs"
    and u: "\<forall>s \<in> set ups. s = ''..''" and d: "\<forall>s \<in> set downs. plain s"
    by (auto simp: clean_shape_def)
  have "ups = []"
  proof (rule ccontr)
    assume "ups \<noteq> []"
    then obtain us where "ups = ''..'' # us" using u by (cases ups) auto
    with s have "v = join_with ''/'' (''..'' # (us @ downs))" using join_split [of "CHR ''/''" v] by simp
    with assms(2,3) show False by (cases "us @ downs") auto
  qed
  with s d show ?thesis by (simp add: list_all_iff)
qed

text \<open>a package path is accepted exactly when it has no surrounding space, no colon and no
  backslash, and every segment of it is a plain name: not empty, not the current and not the parent
  directory.\<close>

theorem safePackagePath_spec:
  "safePackagePath v =
     (trim_space v = v \<and> CHR '':'' \<notin> set v \<and> CHR 0x5C \<notin> set v
      \<and> list_all plain (split_on (CHR ''/'') v))"
proof -
  have "safePackagePath v \<Longrightarrow> list_all plain (split_on (CHR ''/'') v)"
    by (rule shape_plain [OF clean_unrooted]) (auto simp: safePackagePath_def split: if_splits)
  moreover have "list_all plain (split_on (CHR ''/'') v) \<Longrightarrow> v \<noteq> [] \<and> v \<noteq> ''.'' \<and> v \<noteq> ''..''"
    using dots_not_plain by metis
  ultimately show ?thesis
    unfolding safePackagePath_def
    using plain_clean [of v] plain_unrooted [of v] plain_no_parent [of v] plain_no_up [of v] by argo
qed

text \<open>Walking a path from a directory, the way a file system resolves it.\<close>

fun walk :: "string list \<Rightarrow> string list \<Rightarrow> string list" where
  "walk dir [] = dir"
| "walk dir (s # ss) =
     (if s = [] \<or> s = ''.'' then walk dir ss else if s = ''..'' then walk (butlast dir) ss
      else walk (dir @ [s]) ss)"

lemma walk_plain: "list_all plain segs \<Longrightarrow> walk dir segs = dir @ segs"
  by (induction segs arbitrary: dir) (auto simp: plain_def)

text \<open>A safe package path, resolved from the directory of the package, names an entry below it.\<close>

lemma safe_path_below: "safePackagePath v \<Longrightarrow> strict_prefix dir (walk dir (split_on (CHR ''/'') v))"
proof -
  assume "safePackagePath v"
  then have "list_all plain (split_on (CHR ''/'') v)" unfolding safePackagePath_spec by blast
  then show ?thesis by (simp add: walk_plain strict_prefix_def)
qed

subsection \<open>Escaped paths\<close>

text \<open>The path after \<open>n\<close> rounds of unescaping, as a chain of decoding proxies would see it.\<close>

primrec unescaped :: "nat \<Rightarrow> string \<Rightarrow> string option" where
  "unescaped 0 v = Some v"
| "unescaped (Suc n) v = Option.bind (path_unescape v) (unescaped n)"

definition traversal_free :: "string \<Rightarrow> bool" where
  "traversal_free v =
     (\<not> contains_any v path_specials \<and> list_all (\<lambda>s. s \<noteq> ''.'' \<and> s \<noteq> ''..'') (split_on (CHR ''/'') v))"

lemma unescape_literal: "CHR ''%'' \<notin> set v \<Longrightarrow> path_unescape v = Some v"
  by (induction v) auto

lemma unescape_fixed: "path_unescape v = Some v \<Longrightarrow> unescaped n v = Some v"
  by (induction n) auto

lemma decode_rounds_free:
  "decode_rounds m v = Inr w \<Longrightarrow> CHR ''%'' \<notin> set w \<Longrightarrow> 0 < m \<or> traversal_free v \<Longrightarrow>
   0 < n \<or> traversal_free v \<Longrightarrow>
   \<exists>u. unescaped n v = Some u \<and> traversal_free u"
proof (induction m arbitrary: v n)
  case 0
  then have "unescaped n v = Some v" using unescape_literal unescape_fixed by simp
  with 0 show ?case by auto
next
  case (Suc m)
  from Suc.prems(1) obtain nxt where nxt: "path_unescape v = Some nxt" and f: "traversal_free nxt"
    and more: "nxt = v \<and> w = v \<or> decode_rounds m nxt = Inr w"
    by (auto simp: traversal_free_def list_all_iff list_ex_iff split: option.splits if_splits)
  show ?case
  proof (cases n)
    case 0
    with Suc.prems f show ?thesis by auto
  next
    case (Suc k)
    from more show ?thesis
    proof
      assume "nxt = v \<and> w = v"
      with nxt f unescape_fixed [of v] show ?thesis by simp
    next
      assume "decode_rounds m nxt = Inr w"
      from Suc.IH [OF this Suc.prems(2)] f nxt Suc show ?thesis by simp
    qed
  qed
qed

lemma Validate_no_traversal_all:
  assumes "Validate v root = None"
  shows "\<exists>u. unescaped n v = Some u \<and> traversal_free u"
proof -
  from assms obtain w where w: "decode_rounds 4 v = Inr w" "CHR ''%'' \<notin> set w"
    and v: "path_clean v = v" "prefix ''/'' v" "\<not> contains_any v (CHR ''?'' # CHR ''#'' # path_specials)"
    by (auto simp: Validate_def split: if_splits sum.splits)
  have "list_all (\<lambda>s. s \<noteq> ''.'' \<and> s \<noteq> ''..'') (split_on (CHR ''/'') v)"
  proof (cases "v = ''/''")
    case False
    then obtain segs where "split_on (CHR ''/'') v = [] # segs" "list_all plain segs"
      using clean_rooted [OF v(1,2)] by blast
    then show ?thesis by (simp add: list_all_iff plain_def)
  qed simp
  moreover have "\<not> contains_any v path_specials" using v(3) by (simp add: contains_any_def list_ex_iff)
  ultimately have "traversal_free v" by (simp add: traversal_free_def)
  then show ?thesis using decode_rounds_free [OF w] by blast
qed

text \<open>C20: An accepted path has no segment that is a single or a double dot, no backslash and no NUL, CR or LF byte, and
  neither has what it is unescaped to, however often it is unescaped; and the unescaping never fails.\<close>

theorem Validate_no_traversal:
  assumes "Validate v root = None"
  shows "\<exists>u. unescaped n v = Some u \<and> traversal_free u"
  using assms by (rule Validate_no_traversal_all)

lemma Validate_no_traversal_witness:
  "\<exists>u. unescaped 7 ''/a%2520b'' = Some u \<and> traversal_free u"
  by (rule Validate_no_traversal [where root = True]) code_simp

text \<open>Two mounts that both contain a path overlap.\<close>

definition under :: "string \<Rightarrow> string \<Rightarrow> bool" where
  "under mount p = (p = mount \<or> prefix (mount @ ''/'') p)"

lemma under_both_overlap: "under a p \<Longrightarrow> under b p \<Longrightarrow> Overlap a b"
proof -
  assume "under a p" "under b p"
  then have "prefix (a @ ''/'') (p @ ''/'')" "prefix (b @ ''/'') (p @ ''/'')"
    by (auto simp: under_def)
  then have "prefix (a @ ''/'') (b @ ''/'') \<or> prefix (b @ ''/'') (a @ ''/'')"
    using prefix_same_cases by blast
  then show ?thesis by (auto simp: Overlap_def prefix_snoc)
qed

end
