(* ===== verification/Urls.thy ===== *)
theory Urls
  imports Paths
begin

section \<open>URLs\<close>

text \<open>
  What the sources use of Go's \<^verbatim>\<open>net/url\<close> (Go 1.24): parsing, the escaped path, resolving a reference and
  printing.  The messages of its errors are not modelled beyond the fact of the error, because the
  sources replace or only log them.
\<close>

record url =
  u_scheme :: string
  u_opaque :: string
  u_user :: "(string \<times> string option) option"
  u_host :: string
  u_path :: string
  u_raw_path :: string
  u_omit_host :: bool
  u_force_query :: bool
  u_raw_query :: string
  u_fragment :: string
  u_raw_fragment :: string

definition empty_url :: url where
  "empty_url = \<lparr>u_scheme = [], u_opaque = [], u_user = None, u_host = [], u_path = [], u_raw_path = [],
     u_omit_host = False, u_force_query = False, u_raw_query = [], u_fragment = [], u_raw_fragment = []\<rparr>"

subsection \<open>Cutting strings\<close>

text \<open>\<^verbatim>\<open>strings.Cut\<close> at a character: before, after, found.\<close>

fun cut :: "char \<Rightarrow> string \<Rightarrow> string \<times> string \<times> bool" where
  "cut c [] = ([], [], False)"
| "cut c (x # xs) = (if x = c then ([], xs, True) else (case cut c xs of (a, r) \<Rightarrow> (x # a, r)))"

text \<open>Cutting at the last occurrence.\<close>

definition cut_last :: "char \<Rightarrow> string \<Rightarrow> (string \<times> string) option" where
  "cut_last c s = (case cut c (rev s) of (a, b, found) \<Rightarrow> if found then Some (rev b, rev a) else None)"

subsection \<open>Escaping in the parts of a URL\<close>

datatype url_part = Host_Part | Zone_Part | Path_Part | User_Part | Fragment_Part

definition should_escape :: "url_part \<Rightarrow> char \<Rightarrow> bool" where
  "should_escape part c =
     (if is_alnum c then False
      else if (part = Host_Part \<or> part = Zone_Part) \<and> (c \<in> set ''!$&()*+,;=:[]<>'' \<or> c = CHR 0x27 \<or> c = CHR 0x22) then False
      else if c \<in> set ''-_.~'' then False
      else if c \<in> set ''$&+,/:;=?@'' \<and> part \<in> {Path_Part, User_Part, Fragment_Part} then
        (part = Path_Part \<and> c = CHR ''?'' \<or> part = User_Part \<and> c \<in> set ''@/?:'')
      else \<not> (part = Fragment_Part \<and> c \<in> set ''!()*''))"

definition escape_in :: "url_part \<Rightarrow> string \<Rightarrow> string" where
  "escape_in part s =
     concat (map (\<lambda>c. if should_escape part c then [CHR ''%'', hex_digit (of_char c div 16), hex_digit (of_char c mod 16)] else [c]) s)"

fun unescape_in :: "url_part \<Rightarrow> string \<Rightarrow> string option" where
  "unescape_in part [] = Some []"
| "unescape_in part (c # cs) =
     (if c \<noteq> CHR ''%'' then
        (if (part = Host_Part \<or> part = Zone_Part) \<and> (of_char c :: nat) < 128 \<and> should_escape part c then None
         else map_option (Cons c) (unescape_in part cs))
      else (case cs of
          a # b # rest \<Rightarrow>
            (case (hex_value a, hex_value b) of
               (Some x, Some y) \<Rightarrow>
                 if part = Host_Part \<and> x < 8 \<and> \<not> (a = CHR ''2'' \<and> b = CHR ''5'') then None
                 else if part = Zone_Part \<and> \<not> (a = CHR ''2'' \<and> b = CHR ''5'') \<and> 16 * x + y \<noteq> 32
                     \<and> should_escape Host_Part (char_of (16 * x + y)) then None
                 else map_option (Cons (char_of (16 * x + y))) (unescape_in part rest)
             | _ \<Rightarrow> None)
        | _ \<Rightarrow> None))"

subsection \<open>Parsing\<close>

fun get_scheme :: "bool \<Rightarrow> string \<Rightarrow> string \<Rightarrow> string \<Rightarrow> (string \<times> string) option" where
  "get_scheme first raw acc [] = Some ([], raw)"
| "get_scheme first raw acc (c # cs) =
     (if is_lower c \<or> is_upper c then get_scheme False raw (c # acc) cs
      else if is_digit c \<or> c \<in> set ''+-.'' then
        (if first then Some ([], raw) else get_scheme False raw (c # acc) cs)
      else if c = CHR '':'' then (if first then None else Some (rev acc, cs))
      else Some ([], raw))"

definition valid_optional_port :: "string \<Rightarrow> bool" where
  "valid_optional_port p = (p = [] \<or> hd p = CHR '':'' \<and> list_all is_digit (tl p))"

text \<open>The position of \<^verbatim>\<open>%25\<close>, the start of an IPv6 zone.\<close>

fun cut_zone :: "string \<Rightarrow> (string \<times> string) option" where
  "cut_zone [] = None"
| "cut_zone (c # cs) =
     (if prefix ''%25'' (c # cs) then Some ([], c # cs)
      else map_option (\<lambda>(a, b). (c # a, b)) (cut_zone cs))"

definition parse_host :: "string \<Rightarrow> string option" where
  "parse_host host =
     (if prefix ''['' host then
        (case cut_last (CHR '']'') host of
           None \<Rightarrow> None
         | Some (front, port) \<Rightarrow>
             if \<not> valid_optional_port port then None
             else (case cut_zone front of
                 None \<Rightarrow> unescape_in Host_Part host
               | Some (a, zone) \<Rightarrow>
                   (case (unescape_in Host_Part a, unescape_in Zone_Part zone, unescape_in Host_Part (CHR '']'' # port)) of
                      (Some x, Some y, Some z) \<Rightarrow> Some (x @ y @ z)
                    | _ \<Rightarrow> None)))
      else (case cut_last (CHR '':'') host of
          None \<Rightarrow> unescape_in Host_Part host
        | Some (_, port) \<Rightarrow>
            if valid_optional_port (CHR '':'' # port) then unescape_in Host_Part host else None))"

definition valid_userinfo :: "string \<Rightarrow> bool" where
  "valid_userinfo s = list_all (\<lambda>c. is_alnum c \<or> c \<in> set ''-._:~!$&()*+,;=%@'' \<or> c = CHR 0x27) s"

definition parse_user :: "string \<Rightarrow> (string \<times> string option) option" where
  "parse_user info =
     (if \<not> valid_userinfo info then None
      else (case cut (CHR '':'') info of
          (name, pass, found) \<Rightarrow>
            if \<not> found then map_option (\<lambda>u. (u, None)) (unescape_in User_Part info)
            else (case (unescape_in User_Part name, unescape_in User_Part pass) of
                (Some u, Some p) \<Rightarrow> Some (u, Some p)
              | _ \<Rightarrow> None)))"

definition parse_authority :: "string \<Rightarrow> ((string \<times> string option) option \<times> string) option" where
  "parse_authority authority =
     (case cut_last (CHR ''@'') authority of
        None \<Rightarrow> map_option (Pair None) (parse_host authority)
      | Some (info, host) \<Rightarrow>
          (case (parse_host host, parse_user info) of
             (Some h, Some u) \<Rightarrow> Some (Some u, h)
           | _ \<Rightarrow> None))"

definition set_path :: "string \<Rightarrow> url \<Rightarrow> url option" where
  "set_path p u =
     (case path_unescape p of
        None \<Rightarrow> None
      | Some v \<Rightarrow> Some (u\<lparr>u_path := v, u_raw_path := (if p = escape_in Path_Part v then [] else p)\<rparr>))"

definition set_fragment :: "string \<Rightarrow> url \<Rightarrow> url option" where
  "set_fragment f u =
     (case unescape_in Fragment_Part f of
        None \<Rightarrow> None
      | Some v \<Rightarrow> Some (u\<lparr>u_fragment := v, u_raw_fragment := (if f = escape_in Fragment_Part v then [] else f)\<rparr>))"

definition has_control :: "string \<Rightarrow> bool" where
  "has_control s = list_ex (\<lambda>c. (of_char c :: nat) < 32 \<or> (of_char c :: nat) = 127) s"

definition cut_query :: "string \<Rightarrow> url \<Rightarrow> string \<times> url" where
  "cut_query rest u =
     (if suffix ''?'' rest \<and> CHR ''?'' \<notin> set (butlast rest) then (butlast rest, u\<lparr>u_force_query := True\<rparr>)
      else (case cut (CHR ''?'') rest of (a, q, _) \<Rightarrow> (a, u\<lparr>u_raw_query := q\<rparr>)))"

definition parse_hierarchy :: "string \<Rightarrow> bool \<Rightarrow> url \<Rightarrow> url option" where
  "parse_hierarchy rest request u =
     (if (u_scheme u \<noteq> [] \<or> \<not> request \<and> \<not> prefix ''///'' rest) \<and> prefix ''//'' rest then
        (let body = drop 2 rest;
             authority = fst (cut (CHR ''/'') body)
         in case parse_authority authority of
              None \<Rightarrow> None
            | Some (user, host) \<Rightarrow> set_path (drop (length authority) body) (u\<lparr>u_user := user, u_host := host\<rparr>))
      else set_path rest (if u_scheme u \<noteq> [] \<and> prefix ''/'' rest then u\<lparr>u_omit_host := True\<rparr> else u))"

definition parse_url :: "string \<Rightarrow> bool \<Rightarrow> url option" where
  "parse_url raw request =
     (if has_control raw \<or> raw = [] \<and> request then None
      else if raw = ''*'' then Some (empty_url\<lparr>u_path := ''*''\<rparr>)
      else (case get_scheme True raw [] raw of
          None \<Rightarrow> None
        | Some (scheme, rest0) \<Rightarrow>
            (case cut_query rest0 (empty_url\<lparr>u_scheme := to_lower scheme\<rparr>) of
               (rest, u) \<Rightarrow>
                 if \<not> prefix ''/'' rest \<and> scheme \<noteq> [] then Some (u\<lparr>u_opaque := rest\<rparr>)
                 else if \<not> prefix ''/'' rest \<and> (request \<or> CHR '':'' \<in> set (fst (cut (CHR ''/'') rest))) then None
                 else parse_hierarchy rest request u)))"

text \<open>\<^verbatim>\<open>url.Parse\<close> and \<^verbatim>\<open>url.ParseRequestURI\<close>.\<close>

definition url_Parse :: "string \<Rightarrow> url option" where
  "url_Parse raw =
     (case cut (CHR ''#'') raw of
        (u, frag, _) \<Rightarrow>
          (case parse_url u False of
             None \<Rightarrow> None
           | Some v \<Rightarrow> if frag = [] then Some v else set_fragment frag v))"

definition url_ParseRequestURI :: "string \<Rightarrow> url option" where
  "url_ParseRequestURI raw = parse_url raw True"

subsection \<open>Reading a URL\<close>

definition valid_encoded :: "url_part \<Rightarrow> string \<Rightarrow> bool" where
  "valid_encoded part s =
     list_all (\<lambda>c. c \<in> set ''!$&()*+,;=:@[]%'' \<or> c = CHR 0x27 \<or> \<not> should_escape part c) s"

definition escaped_path :: "url \<Rightarrow> string" where
  "escaped_path u =
     (if u_raw_path u \<noteq> [] \<and> valid_encoded Path_Part (u_raw_path u)
         \<and> path_unescape (u_raw_path u) = Some (u_path u) then u_raw_path u
      else if u_path u = ''*'' then ''*'' else escape_in Path_Part (u_path u))"

definition escaped_fragment :: "url \<Rightarrow> string" where
  "escaped_fragment u =
     (if u_raw_fragment u \<noteq> [] \<and> valid_encoded Fragment_Part (u_raw_fragment u)
         \<and> unescape_in Fragment_Part (u_raw_fragment u) = Some (u_fragment u) then u_raw_fragment u
      else escape_in Fragment_Part (u_fragment u))"

definition split_host_port :: "string \<Rightarrow> string \<times> string" where
  "split_host_port hp =
     (let (host, port) =
            (case cut_last (CHR '':'') hp of
               None \<Rightarrow> (hp, [])
             | Some (h, p) \<Rightarrow> if valid_optional_port (CHR '':'' # p) then (h, p) else (hp, []))
      in (if prefix ''['' host \<and> suffix '']'' host then butlast (tl host) else host, port))"

definition hostname :: "url \<Rightarrow> string" where
  "hostname u = fst (split_host_port (u_host u))"

definition port_of :: "url \<Rightarrow> string" where
  "port_of u = snd (split_host_port (u_host u))"

definition query_text :: "url \<Rightarrow> string" where
  "query_text u = (if u_force_query u \<or> u_raw_query u \<noteq> [] then CHR ''?'' # u_raw_query u else [])"

text \<open>\<^verbatim>\<open>RequestURI\<close>.\<close>

definition request_uri :: "url \<Rightarrow> string" where
  "request_uri u =
     (let p = escaped_path u in
      (if u_opaque u = [] then (if p = [] then ''/'' else p)
       else if prefix ''//'' (u_opaque u) then u_scheme u @ '':'' @ u_opaque u else u_opaque u) @ query_text u)"

text \<open>\<^verbatim>\<open>String\<close>, for a URL without user information.\<close>

definition url_String :: "url \<Rightarrow> string" where
  "url_String u =
     (let scheme = (if u_scheme u \<noteq> [] then u_scheme u @ '':'' else []);
          authority = (if (u_scheme u \<noteq> [] \<or> u_host u \<noteq> []) \<and> \<not> (u_omit_host u \<and> u_host u = [])
                          \<and> (u_host u \<noteq> [] \<or> u_path u \<noteq> []) then ''//'' @ escape_in Host_Part (u_host u) else []);
          p = escaped_path u;
          lead = (if p \<noteq> [] \<and> hd p \<noteq> CHR ''/'' \<and> u_host u \<noteq> [] then ''/'' else []);
          dot = (if scheme @ authority @ lead = [] \<and> CHR '':'' \<in> set (fst (cut (CHR ''/'') p)) then ''./'' else [])
      in (if u_opaque u \<noteq> [] then scheme @ u_opaque u else scheme @ authority @ lead @ dot @ p) @ query_text u
         @ (if u_fragment u \<noteq> [] then CHR ''#'' # escaped_fragment u else []))"

subsection \<open>References\<close>

text \<open>\<^verbatim>\<open>resolvePath\<close>: the elements of the joined path, with the written output after its leading slash.\<close>

fun resolve_elements :: "bool \<Rightarrow> string \<Rightarrow> string list \<Rightarrow> string" where
  "resolve_elements first out [] = out"
| "resolve_elements first out (e # es) =
     (if e = ''.'' then resolve_elements False out es
      else if e = ''..'' then
        (case cut_last (CHR ''/'') out of
           None \<Rightarrow> resolve_elements True [] es
         | Some (front, _) \<Rightarrow> resolve_elements first front es)
      else resolve_elements False (out @ (if first then [] else ''/'') @ e) es)"

definition resolve_path :: "string \<Rightarrow> string \<Rightarrow> string" where
  "resolve_path base ref =
     (let full = (if ref = [] then base
                  else if hd ref \<noteq> CHR ''/'' then
                    (case cut_last (CHR ''/'') base of None \<Rightarrow> ref | Some (front, _) \<Rightarrow> front @ ''/'' @ ref)
                  else ref)
      in if full = [] then []
         else (let es = split_on (CHR ''/'') full;
                   out = resolve_elements True [] es @ (if last es \<in> {''.'', ''..''} then ''/'' else [])
               in if prefix ''/'' out then out else CHR ''/'' # out))"

definition set_path_lax :: "string \<Rightarrow> url \<Rightarrow> url" where
  "set_path_lax p u = (case set_path p u of None \<Rightarrow> u | Some v \<Rightarrow> v)"

definition ResolveReference :: "url \<Rightarrow> url \<Rightarrow> url" where
  "ResolveReference base ref =
     (let u = (if u_scheme ref = [] then ref\<lparr>u_scheme := u_scheme base\<rparr> else ref) in
      if u_scheme ref \<noteq> [] \<or> u_host ref \<noteq> [] \<or> u_user ref \<noteq> None then
        set_path_lax (resolve_path (escaped_path ref) []) u
      else if u_opaque ref \<noteq> [] then u\<lparr>u_user := None, u_host := [], u_path := []\<rparr>
      else
        (let u = (if u_path ref = [] \<and> \<not> u_force_query ref \<and> u_raw_query ref = [] then
                    (let v = u\<lparr>u_raw_query := u_raw_query base\<rparr> in
                     if u_fragment ref = [] then v\<lparr>u_fragment := u_fragment base, u_raw_fragment := u_raw_fragment base\<rparr> else v)
                  else u)
         in if u_path ref = [] \<and> u_opaque base \<noteq> [] then
              u\<lparr>u_opaque := u_opaque base, u_user := None, u_host := [], u_path := []\<rparr>
            else
              set_path_lax (resolve_path (escaped_path base) (escaped_path ref))
                (u\<lparr>u_host := u_host base, u_user := u_user base\<rparr>)))"

subsection \<open>The escaped path denotes the path\<close>

lemma hex_value_digit: "n < 16 \<Longrightarrow> hex_value (hex_digit n) = Some n"
  by (cases "n < 10") (auto simp: hex_value_def hex_digit_def is_digit_def char_eq_of_char)

lemma unescape_escape [simp]: "path_unescape (escape_in Path_Part s) = Some s"
proof (induction s)
  case (Cons c s)
  have "(of_char c :: nat) div 16 < 16" "(of_char c :: nat) mod 16 < 16"
    using nat_of_char_less_256 [of c] by (simp_all add: less_mult_imp_div_less del: nat_of_char_less_256)
  moreover have "should_escape Path_Part (CHR ''%'')" by code_simp
  then have "\<not> should_escape Path_Part c \<Longrightarrow> c \<noteq> CHR ''%''" by metis
  ultimately show ?case
    using Cons by (auto simp: escape_in_def hex_value_digit)
qed (simp add: escape_in_def)

lemma unescape_escaped_path [simp]: "path_unescape (escaped_path u) = Some (u_path u)"
  by (simp add: escaped_path_def)

lemma path_unescape_append:
  "path_unescape a = Some x \<Longrightarrow> path_unescape (a @ b) = map_option (\<lambda>y. x @ y) (path_unescape b)"
proof (induction a arbitrary: x rule: path_unescape.induct)
  case 1
  then show ?case by (cases "path_unescape b") auto
next
  case (2 c cs)
  then show ?case
    by (cases "path_unescape b") (auto split: if_splits list.splits option.splits)
qed

end
