(* ===== verification/Headers.thy ===== *)
theory Headers
  imports Prelude
begin

section \<open>HTTP headers of the gateway\<close>

text \<open>
  Models \<open>safeHeaders\<close>, \<open>validateCustomHeaders\<close> and \<open>validHeaderToken\<close> of
  \<^verbatim>\<open>internal/httpgateway/gateway.go\<close>, with what they use of Go's \<^verbatim>\<open>http.Header\<close>: a map from canonical
  names to lists of values.  The loops over a Go string go through its runes; every test of the sources
  rejects a rune that is not ASCII, and so does the same test on its bytes.
\<close>

type_synonym header = "string list table"

subsection \<open>\<^verbatim>\<open>http.Header\<close>\<close>

definition token_char :: "char \<Rightarrow> bool" where
  "token_char c = (is_alnum c \<or> c \<in> set ''!#$%&*+-.^_`|~'' \<or> c = CHR 0x27)"

fun canonical :: "bool \<Rightarrow> string \<Rightarrow> string" where
  "canonical upper [] = []"
| "canonical upper (c # cs) = (if upper then upper_char c else lower_char c) # canonical (c = CHR ''-'') cs"

definition canonicalKey :: "string \<Rightarrow> string" where
  "canonicalKey k = (if list_all token_char k then canonical True k else k)"

definition header_values :: "header \<Rightarrow> string \<Rightarrow> string list" where
  "header_values h k = (case map_of h (canonicalKey k) of None \<Rightarrow> [] | Some vs \<Rightarrow> vs)"

definition header_get :: "header \<Rightarrow> string \<Rightarrow> string" where
  "header_get h k = (case header_values h k of [] \<Rightarrow> [] | v # _ \<Rightarrow> v)"

definition header_set :: "string \<Rightarrow> string \<Rightarrow> header \<Rightarrow> header" where
  "header_set k v h = AList.update (canonicalKey k) [v] h"

definition header_add :: "string \<Rightarrow> string \<Rightarrow> header \<Rightarrow> header" where
  "header_add k v h = AList.update (canonicalKey k) (header_values h k @ [v]) h"

definition header_del :: "string \<Rightarrow> header \<Rightarrow> header" where
  "header_del k h = AList.delete (canonicalKey k) h"

subsection \<open>The headers that pass the gateway\<close>

definition line_specials :: string where
  "line_specials = [CHR 0x0D, CHR 0x0A, CHR 0x00]"

definition name_char :: "char \<Rightarrow> bool" where
  "name_char c =
     (32 < (of_char c :: nat) \<and> (of_char c :: nat) < 127
      \<and> c \<notin> set ''()<>@,;:/[]?={} '' \<and> c \<noteq> CHR 0x5C \<and> c \<noteq> CHR 0x22)"

definition collect_headers :: "header \<Rightarrow> header" where
  "collect_headers h = fold (\<lambda>(k, vs) out. fold (header_add k) vs out) h []"

fun check_values :: "string \<Rightarrow> nat \<Rightarrow> string list \<Rightarrow> (string, nat) result" where
  "check_values k n [] = Inr n"
| "check_values k n (v # vs) =
     (if contains_any v line_specials then Inl ''invalid header value''
      else check_values k (n + length k + length v) vs)"

fun check_headers :: "nat \<Rightarrow> header \<Rightarrow> (string, nat) result" where
  "check_headers n [] = Inr n"
| "check_headers n ((k, vs) # h) =
     (if \<not> list_all name_char k then Inl ''invalid header name''
      else (case check_values k n vs of Inl e \<Rightarrow> Inl e | Inr m \<Rightarrow> check_headers m h))"

definition connection_options :: "header \<Rightarrow> string list" where
  "connection_options h = map trim_space (concat (map (split_on (CHR '','')) (header_values h ''Connection'')))"

definition hop_headers :: "string list" where
  "hop_headers =
     [''Host'', ''Connection'', ''Keep-Alive'', ''Transfer-Encoding'', ''TE'', ''Trailer'', ''Upgrade'', ''Set-Cookie'']"

definition request_headers :: "string list" where
  "request_headers =
     [''Cookie'', ''Content-Length'', ''Forwarded'', ''X-Forwarded-Host'', ''X-Forwarded-Proto'',
      ''X-Forwarded-For'', ''Service-Worker'']"

definition is_proxy_header :: "string \<Rightarrow> bool" where
  "is_proxy_header k = prefix ''proxy-'' (to_lower k)"

definition safeHeaders :: "nat \<Rightarrow> header \<Rightarrow> bool \<Rightarrow> (string, header) result" where
  "safeHeaders max_metadata h request =
     (if 64 < length h then Inl ''too many headers''
      else (let out = collect_headers h in
        case check_headers 0 out of
          Inl e \<Rightarrow> Inl e
        | Inr n \<Rightarrow>
            if max_metadata < n then Inl ''headers too large''
            else (let out = fold header_del (connection_options out) out;
                      out = fold header_del (filter is_proxy_header (map fst out)) out;
                      out = fold header_del hop_headers out
                  in Inr (if request then fold header_del request_headers out else out))))"

subsection \<open>Custom headers\<close>

definition validHeaderToken :: "string \<Rightarrow> bool" where
  "validHeaderToken name = (name \<noteq> [] \<and> list_all token_char name)"

definition forbidden_custom :: "string list" where
  "forbidden_custom =
     [''host'', ''content-length'', ''transfer-encoding'', ''connection'', ''upgrade'', ''keep-alive'', ''te'',
      ''trailer'', ''cookie'', ''set-cookie'', ''authorization'', ''proxy-authorization'', ''forwarded'',
      ''origin'', ''referer'', ''service-worker'', ''accept-encoding'', ''range'', ''if-range'', ''x-real-ip'',
      ''x-forwarded-host'', ''x-forwarded-proto'', ''x-forwarded-for'', ''x-forwarded-prefix'', ''x-script-name'']"

fun check_custom :: "string list \<Rightarrow> nat \<Rightarrow> header \<Rightarrow> string option" where
  "check_custom seen n [] = None"
| "check_custom seen n ((name, vs) # h) =
     (let lower = to_lower name in
      if \<not> validHeaderToken name \<or> lower \<in> set seen \<or> prefix ''proxy-'' lower \<or> prefix ''sec-websocket-'' lower
      then Some ''invalid or forbidden custom header''
      else if lower \<in> set forbidden_custom then Some ''forbidden custom header''
      else if length vs \<noteq> 1 \<or> 128 < length name \<or> 1024 < length (hd vs) \<or> contains_any (hd vs) line_specials
      then Some ''invalid custom header value''
      else if 8192 < n + length name + length (hd vs) then Some ''custom headers too large''
      else check_custom (lower # seen) (n + length name + length (hd vs)) h)"

definition validateCustomHeaders :: "header \<Rightarrow> string option" where
  "validateCustomHeaders h = (if 16 < length h then Some ''too many custom headers'' else check_custom [] 0 h)"

subsection \<open>Lookups after the operations\<close>

lemma map_of_header_del [table_simps]:
  "map_of (header_del k h) k' = (if k' = canonicalKey k then None else map_of h k')"
  by (simp add: header_del_def map_of_delete)

lemma map_of_header_dels [table_simps]:
  "map_of (fold header_del ks h) k = (if k \<in> canonicalKey ` set ks then None else map_of h k)"
  by (induction ks arbitrary: h) (auto simp: table_simps)

lemma of_char_lower: "(of_char (lower_char c) :: nat) = (if is_upper c then of_char c + 32 else of_char c)"
  by (simp add: lower_char_def is_upper_def Let_def)

lemma of_char_upper: "(of_char (upper_char c) :: nat) = (if is_lower c then of_char c - 32 else of_char c)"
  by (auto simp: upper_char_def is_lower_def Let_def)

lemma case_char [simp]:
  "lower_char (upper_char c) = lower_char c" "upper_char (lower_char c) = upper_char c"
  "upper_char (upper_char c) = upper_char c"
  by (auto simp: char_eq_of_char of_char_lower of_char_upper is_upper_def is_lower_def)

lemma lower_char_dash: "lower_char c = CHR ''-'' \<longleftrightarrow> c = CHR ''-''" "upper_char c = CHR ''-'' \<longleftrightarrow> c = CHR ''-''"
  by (auto simp: char_eq_of_char of_char_lower of_char_upper is_upper_def is_lower_def)

lemma canonical_lower: "canonical b (to_lower k) = canonical b k"
  by (induction k arbitrary: b) (simp_all add: to_lower_def lower_char_dash)

lemma lower_canonical: "to_lower (canonical b k) = to_lower k"
  by (induction k arbitrary: b) (simp_all add: to_lower_def)

lemma canonical_idem: "canonical b (canonical b' k) = canonical b k"
  using canonical_lower [of b "canonical b' k"] canonical_lower [of b k] by (simp add: lower_canonical)

lemma token_lower [simp]: "token_char (lower_char c) = token_char c"
proof (cases "is_upper c")
  case True
  then have "is_lower (lower_char c)" by (auto simp: is_lower_def is_upper_def of_char_lower)
  with True show ?thesis by (simp add: token_char_def is_alnum_def)
next
  case False
  then have "lower_char c = c" by (simp add: char_eq_of_char of_char_lower)
  then show ?thesis by simp
qed

lemma token_upper [simp]: "token_char (upper_char c) = token_char c"
  using token_lower [of "upper_char c"] token_lower [of c] by simp

lemma token_to_lower [simp]: "list_all token_char (to_lower k) = list_all token_char k"
  by (simp add: to_lower_def list_all_iff)

lemma token_canonical [simp]: "list_all token_char (canonical b k) = list_all token_char k"
  using token_to_lower [of "canonical b k"] by (simp add: lower_canonical)

lemma canonicalKey_idem [simp]: "canonicalKey (canonicalKey k) = canonicalKey k"
  by (simp add: canonicalKey_def canonical_idem)

lemma canonicalKey_fold: "list_all token_char x \<Longrightarrow> to_lower k = to_lower x \<Longrightarrow> canonicalKey k = canonicalKey x"
  using token_to_lower [of k] canonical_lower [of True k] canonical_lower [of True x]
  by (simp add: canonicalKey_def)

lemma to_lower_canonicalKey [simp]: "to_lower (canonicalKey k) = to_lower k"
  by (simp add: canonicalKey_def lower_canonical)

text \<open>The name test of \<open>safeHeaders\<close> is the token test.\<close>

definition separators :: "nat list" where
  "separators = [40, 41, 60, 62, 64, 44, 59, 58, 47, 91, 93, 63, 61, 123, 125, 32, 92, 34]"

definition token_marks :: "nat list" where
  "token_marks = [33, 35, 36, 37, 38, 42, 43, 45, 46, 94, 95, 96, 124, 126, 39]"

lemma name_char_token: "name_char c = token_char c"
proof -
  define n where "n = (of_char c :: nat)"
  have "name_char c \<longleftrightarrow> 32 < n \<and> n < 127 \<and> n \<notin> set separators"
    unfolding name_char_def separators_def n_def by (simp add: char_eq_of_char)
  also have "\<dots> \<longleftrightarrow> 97 \<le> n \<and> n \<le> 122 \<or> 65 \<le> n \<and> n \<le> 90 \<or> 48 \<le> n \<and> n \<le> 57 \<or> n \<in> set token_marks"
    unfolding separators_def token_marks_def by simp presburger
  also have "\<dots> \<longleftrightarrow> token_char c"
    unfolding token_char_def is_alnum_def is_lower_def is_upper_def is_digit_def token_marks_def n_def
    by (simp add: char_eq_of_char)
  finally show ?thesis .
qed

subsection \<open>Every collected name is canonical\<close>

definition canonical_header :: "header \<Rightarrow> bool" where
  "canonical_header h = (keys_distinct h \<and> list_all (\<lambda>(k, _). canonicalKey k = k) h)"

lemma canonical_update: "canonical_header h \<Longrightarrow> canonical_header (AList.update (canonicalKey k) vs h)"
proof -
  assume "canonical_header h"
  moreover have "set (AList.update (canonicalKey k) vs h) \<subseteq> insert (canonicalKey k, vs) (set h)"
    by (induction h) auto
  ultimately show ?thesis by (auto simp: canonical_header_def list_all_iff)
qed

lemma canonical_add [simp]: "canonical_header h \<Longrightarrow> canonical_header (header_add k v h)"
  by (simp add: header_add_def canonical_update)

lemma canonical_adds: "canonical_header h \<Longrightarrow> canonical_header (fold (header_add k) vs h)"
  by (induction vs arbitrary: h) auto

lemma canonical_collect: "canonical_header (collect_headers h)"
proof -
  have "canonical_header out \<Longrightarrow> canonical_header (fold (\<lambda>(k, vs) out. fold (header_add k) vs out) h out)" for out
    by (induction h arbitrary: out) (auto simp: canonical_adds)
  then show ?thesis by (simp add: collect_headers_def canonical_header_def)
qed

lemma keys_distinct_dels: "keys_distinct h \<Longrightarrow> keys_distinct (fold header_del ks h)"
  by (induction ks arbitrary: h) (auto simp: header_del_def)

text \<open>The values under a name, in the order of the entries that carry it.\<close>

lemma header_values_add:
  "header_values (header_add k v h) k' = header_values h k' @ (if canonicalKey k' = canonicalKey k then [v] else [])"
  by (auto simp: header_values_def header_add_def map_of_update)

lemma header_values_adds:
  "header_values (fold (header_add k) vs h) k' = header_values h k' @ (if canonicalKey k' = canonicalKey k then vs else [])"
  by (induction vs arbitrary: h) (auto simp: header_values_add)

lemma header_values_collect:
  "header_values (collect_headers h) k' = concat (map snd (filter (\<lambda>(k, _). canonicalKey k = canonicalKey k') h))"
proof -
  have "header_values (fold (\<lambda>(k, vs) out. fold (header_add k) vs out) h out) k' =
      header_values out k' @ concat (map snd (filter (\<lambda>(k, _). canonicalKey k = canonicalKey k') h))" for out
    by (induction h arbitrary: out) (auto simp: header_values_adds)
  from this [of "[]"] show ?thesis by (simp add: collect_headers_def header_values_def)
qed

lemma check_values_eq:
  "check_values k n vs =
     (if list_all (\<lambda>v. \<not> contains_any v line_specials) vs then Inr (n + (\<Sum>v\<leftarrow>vs. length k + length v))
      else Inl ''invalid header value'')"
  by (induction vs arbitrary: n) (simp_all add: add.assoc)

definition clean_entry :: "string \<times> string list \<Rightarrow> bool" where
  "clean_entry = (\<lambda>(k, vs). list_all token_char k \<and> list_all (\<lambda>v. \<not> contains_any v line_specials) vs)"

lemma check_headers_ok:
  "check_headers n h = Inr m \<longleftrightarrow>
     list_all clean_entry h \<and> m = n + (\<Sum>(k, vs)\<leftarrow>h. \<Sum>v\<leftarrow>vs. length k + length v)"
proof (induction h arbitrary: n)
  case (Cons kv h)
  obtain k vs where "kv = (k, vs)" by (cases kv)
  then show ?case
    using Cons [of "n + (\<Sum>v\<leftarrow>vs. length k + length v)"]
    by (simp add: clean_entry_def name_char_token [abs_def] check_values_eq add.assoc)
qed auto

subsection \<open>What the gateway lets through\<close>

text \<open>A header that concerns one connection only, or that the other side must not set.\<close>

definition stripped :: "bool \<Rightarrow> header \<Rightarrow> string \<Rightarrow> bool" where
  "stripped request h k =
     (is_proxy_header k \<or> to_lower k \<in> set (map to_lower hop_headers)
      \<or> request \<and> to_lower k \<in> set (map to_lower request_headers)
      \<or> to_lower k \<in> set (map to_lower (connection_options h)))"

lemma connection_of_canonical: "canonicalKey ''Connection'' = ''Connection''"
  by code_simp

lemma listed_tokens: "list_all (list_all token_char) (hop_headers @ request_headers)"
  by code_simp

lemma canonicalKey_image:
  assumes "canonicalKey k = k" "list_all token_char k"
  shows "k \<in> canonicalKey ` set xs \<longleftrightarrow> to_lower k \<in> set (map to_lower xs)"
proof
  assume "to_lower k \<in> set (map to_lower xs)"
  then obtain x where x: "x \<in> set xs" "to_lower k = to_lower x" by auto
  with assms(2) have "list_all token_char x" by (metis token_to_lower)
  with x canonicalKey_fold [of x k] assms(1) show "k \<in> canonicalKey ` set xs" by auto
qed auto

lemma proxy_filter_image:
  assumes "canonicalKey k = k" "list_all token_char k" "map_of h k \<noteq> None"
  shows "k \<in> canonicalKey ` set (filter is_proxy_header (map fst h)) \<longleftrightarrow> is_proxy_header k"
proof
  assume "k \<in> canonicalKey ` set (filter is_proxy_header (map fst h))"
  then show "is_proxy_header k" by (auto simp: is_proxy_header_def)
next
  assume p: "is_proxy_header k"
  have "k \<in> set (map fst h)" using assms(3) by (auto simp: map_of_eq_None_iff)
  with p show "k \<in> canonicalKey ` set (filter is_proxy_header (map fst h))" using assms(1) by force
qed

lemma safeHeaders_entries:
  assumes "safeHeaders m h request = Inr out"
  shows "map_of out k =
      (if stripped request (collect_headers h) k then None else map_of (collect_headers h) k)
    \<and> list_all clean_entry (collect_headers h)"
proof -
  let ?a = "collect_headers h"
  from assms have clean: "list_all clean_entry ?a"
    by (auto simp: safeHeaders_def check_headers_ok Let_def split: if_splits sum.splits)
  define b where "b = fold header_del (connection_options ?a) ?a"
  define c where "c = fold header_del (filter is_proxy_header (map fst b)) b"
  from assms have out: "out = (if request then fold header_del request_headers (fold header_del hop_headers c)
      else fold header_del hop_headers c)"
    by (auto simp: safeHeaders_def b_def c_def Let_def split: if_splits sum.splits)
  show ?thesis
  proof (cases "map_of ?a k")
    case None
    then have "map_of out k = None" by (simp add: out b_def c_def table_simps)
    with None clean show ?thesis by simp
  next
    case (Some vs)
    then have "(k, vs) \<in> set ?a" by (rule map_of_SomeD)
    then have k: "canonicalKey k = k" "list_all token_char k"
      using canonical_collect [of h] clean by (auto simp: canonical_header_def clean_entry_def list_all_iff)
    show ?thesis
    proof (cases "map_of b k")
      case None
      then have "to_lower k \<in> set (map to_lower (connection_options ?a))"
        using Some k by (auto simp: b_def table_simps canonicalKey_image simp del: set_map split: if_splits)
      with None clean show ?thesis by (simp add: stripped_def out c_def table_simps del: set_map)
    next
      case (Some vs')
      then have b: "to_lower k \<notin> set (map to_lower (connection_options ?a))" "map_of b k = map_of ?a k"
        using k by (auto simp: b_def table_simps canonicalKey_image simp del: set_map split: if_splits)
      have c: "map_of c k = (if is_proxy_header k then None else map_of ?a k)"
        using proxy_filter_image [OF k, of b] Some b(2) by (simp add: c_def table_simps del: set_map set_filter)
      show ?thesis
        using b(1) c clean by (simp add: out stripped_def table_simps canonicalKey_image k del: set_map)
    qed
  qed
qed

text \<open>of the headers of a message, the gateway passes on exactly those that are not tied to one
  connection, not named by a \<^verbatim>\<open>Connection\<close> header, not for a proxy and (in a request) not reserved, each
  with all its values, spelled in whatever case; a name or a value that could break a header line makes it
  refuse the message.\<close>

theorem safeHeaders_passes:
  assumes "safeHeaders m h request = Inr out"
  shows "map_of out k =
      (if stripped request (collect_headers h) k then None else map_of (collect_headers h) k)
    \<and> list_all clean_entry (collect_headers h)"
  using assms by (rule safeHeaders_entries)

theorem safeHeaders_passes_witness:
  "map_of [(''Accept'', [''text''])] ''Accept'' =
     (if stripped True (collect_headers [(''accept'', [''text'']), (''connection'', [''x-a, b'']), (''X-A'', [''1'']), (''cookie'', [''c''])]) ''Accept''
      then None
      else map_of (collect_headers [(''accept'', [''text'']), (''connection'', [''x-a, b'']), (''X-A'', [''1'']), (''cookie'', [''c''])]) ''Accept'')
   \<and> list_all clean_entry (collect_headers [(''accept'', [''text'']), (''connection'', [''x-a, b'']), (''X-A'', [''1'']), (''cookie'', [''c''])])"
  by (rule safeHeaders_passes [where m = 100 and request = True]) code_simp

subsection \<open>Custom headers\<close>

definition custom_ok :: "string \<times> string list \<Rightarrow> bool" where
  "custom_ok = (\<lambda>(name, vs).
     validHeaderToken name \<and> \<not> is_proxy_header name \<and> \<not> prefix ''sec-websocket-'' (to_lower name)
     \<and> to_lower name \<notin> set forbidden_custom \<and> length vs = 1 \<and> length name \<le> 128 \<and> length (hd vs) \<le> 1024
     \<and> \<not> contains_any (hd vs) line_specials)"

lemma check_custom_iff:
  "n \<le> 8192 \<Longrightarrow>
   check_custom seen n h = None \<longleftrightarrow>
     list_all custom_ok h \<and> distinct (map (\<lambda>kv. to_lower (fst kv)) h) \<and> set (map (\<lambda>kv. to_lower (fst kv)) h) \<inter> set seen = {}
     \<and> n + (\<Sum>(name, vs)\<leftarrow>h. length name + length (hd vs)) \<le> 8192"
proof (induction h arbitrary: seen n)
  case (Cons kv h)
  obtain name vs where kv: "kv = (name, vs)" by (cases kv)
  let ?m = "n + length name + length (hd vs)"
  have "check_custom seen n (kv # h) = None \<longleftrightarrow>
      custom_ok kv \<and> to_lower name \<notin> set seen \<and> ?m \<le> 8192 \<and> check_custom (to_lower name # seen) ?m h = None"
    by (auto simp: kv Let_def custom_ok_def is_proxy_header_def)
  also have "\<dots> \<longleftrightarrow> custom_ok kv \<and> to_lower name \<notin> set seen \<and> ?m \<le> 8192
      \<and> list_all custom_ok h \<and> distinct (map (\<lambda>kv. to_lower (fst kv)) h)
      \<and> set (map (\<lambda>kv. to_lower (fst kv)) h) \<inter> set (to_lower name # seen) = {}
      \<and> ?m + (\<Sum>(name, vs)\<leftarrow>h. length name + length (hd vs)) \<le> 8192"
    using Cons.IH [of ?m "to_lower name # seen"] by blast
  finally show ?case by (auto simp: kv simp del: check_custom.simps)
qed simp

text \<open>Custom headers are accepted exactly when each is, no two are the same up to case, and together they
  are small.\<close>

lemma validateCustomHeaders_iff:
  "validateCustomHeaders h = None \<longleftrightarrow>
     length h \<le> 16 \<and> list_all custom_ok h \<and> distinct (map (\<lambda>kv. to_lower (fst kv)) h)
     \<and> (\<Sum>(name, vs)\<leftarrow>h. length name + length (hd vs)) \<le> 8192"
  unfolding validateCustomHeaders_def using check_custom_iff [of 0 "[]" h] by auto

text \<open>Setting an accepted custom header leaves every reserved name as it is.\<close>

lemma custom_header_keeps:
  assumes "custom_ok (name, vs)" "to_lower k \<in> set forbidden_custom"
  shows "header_values (header_set name v h) k = header_values h k"
proof -
  have "to_lower name \<notin> set forbidden_custom" using assms(1) by (simp add: custom_ok_def)
  then have "to_lower k \<noteq> to_lower name" using assms(2) by metis
  then have "canonicalKey k \<noteq> canonicalKey name"
    using to_lower_canonicalKey [of k] to_lower_canonicalKey [of name] by metis
  then show ?thesis by (simp add: header_values_def header_set_def map_of_update)
qed

end
