(* ===== verification/GatewayUrl.thy ===== *)
theory GatewayUrl
  imports Urls Headers
begin

section \<open>The URLs of the gateway\<close>

text \<open>
  Models \<open>New\<close>, \<open>mapURL\<close>, \<open>redirect\<close> and \<open>sameOrigin\<close> of \<^verbatim>\<open>internal/httpgateway/gateway.go\<close>: which
  configuration makes a gateway, which upstream URL a request path is mapped to, and how a redirect of the
  upstream comes back.
\<close>

record gateway_config =
  gc_upstream_url :: string
  gc_upstream_base :: string
  gc_public_prefix :: string
  gc_base_header :: string
  gc_base_header_value :: string
  gc_insecure :: bool
  gc_forward_host :: bool
  gc_forward_scheme :: bool
  gc_public_host :: string
  gc_public_scheme :: string
  gc_custom :: header

subsection \<open>The configuration\<close>

definition is_origin :: "url \<Rightarrow> bool" where
  "is_origin u =
     ((u_scheme u = ''http'' \<or> u_scheme u = ''https'') \<and> u_host u \<noteq> [] \<and> hostname u \<noteq> [] \<and> \<not> u_force_query u
      \<and> u_user u = None \<and> u_raw_query u = [] \<and> u_fragment u = [] \<and> (u_path u = [] \<or> u_path u = ''/''))"

definition valid_public_host :: "string \<Rightarrow> bool" where
  "valid_public_host host =
     (case url_Parse (''//'' @ host) of
        None \<Rightarrow> False
      | Some u \<Rightarrow> length host \<le> 255 \<and> u_host u = host \<and> hostname u \<noteq> [] \<and> u_user u = None \<and> u_path u = []
          \<and> \<not> contains_any host (CHR '' '' # CHR ''/'' # path_specials))"

text \<open>\<open>New\<close>: the parsed upstream, or why there is no gateway.\<close>

definition New :: "gateway_config \<Rightarrow> (string, url) result" where
  "New c =
     (case url_Parse (gc_upstream_url c) of
        None \<Rightarrow> Inl ''upstream must be an HTTP(S) origin without credentials''
      | Some upstream \<Rightarrow>
          if 2048 < length (gc_upstream_url c) \<or> \<not> is_origin upstream then
            Inl ''upstream must be an HTTP(S) origin without credentials''
          else (case (Validate (gc_public_prefix c) False, Validate (gc_upstream_base c) True) of
              (Some e, _) \<Rightarrow> Inl e
            | (None, Some e) \<Rightarrow> Inl e
            | (None, None) \<Rightarrow>
                if gc_base_header c \<notin> {'''', ''X-Forwarded-Prefix'', ''X-Script-Name''} then
                  Inl ''unsupported base path header''
                else if 1024 < length (gc_base_header_value c) \<or> contains_any (gc_base_header_value c) line_specials then
                  Inl ''invalid base path header value''
                else if gc_public_host c \<noteq> [] \<and> \<not> valid_public_host (gc_public_host c) then Inl ''invalid public host''
                else if gc_forward_host c \<and> gc_public_host c = [] then Inl ''public host is required''
                else if gc_forward_scheme c \<and> gc_public_scheme c \<notin> {''http'', ''https''} then
                  Inl ''invalid public scheme''
                else (case validateCustomHeaders (gc_custom c) of
                    Some e \<Rightarrow> Inl e
                  | None \<Rightarrow> Inr upstream)))"

definition basePathHeaderValue :: "gateway_config \<Rightarrow> string" where
  "basePathHeaderValue c = (if gc_base_header_value c \<noteq> [] then gc_base_header_value c else gc_public_prefix c)"

subsection \<open>From a request path to the upstream\<close>

text \<open>The loop of \<open>mapURL\<close>: at most four rounds of unescaping.\<close>

fun map_rounds :: "nat \<Rightarrow> string \<Rightarrow> (string, string) result" where
  "map_rounds 0 decoded = Inr decoded"
| "map_rounds (Suc n) decoded =
     (case path_unescape decoded of
        None \<Rightarrow> Inl ''invalid URL escape''
      | Some nxt \<Rightarrow>
          if list_ex (\<lambda>part. part = ''..'' \<or> part = ''.'') (split_on (CHR ''/'') nxt) then Inl ''path traversal''
          else if contains_any nxt path_specials then Inl ''invalid path''
          else if nxt = decoded then Inr decoded
          else map_rounds n nxt)"

definition map_target :: "gateway_config \<Rightarrow> url \<Rightarrow> url \<Rightarrow> (string, url) result" where
  "map_target c upstream u =
     (let pub = gc_public_prefix c;
          base = trim_suffix ''/'' (gc_upstream_base c);
          sfx = trim_prefix pub (u_path u);
          esfx = trim_prefix (Escape pub) (escaped_path u)
      in if esfx = escaped_path u \<and> u_path u \<noteq> pub then Inl ''encoded public prefix''
         else Inr (upstream\<lparr>u_path := (if base @ sfx = [] then ''/'' else base @ sfx),
                            u_raw_path := Escape base @ esfx, u_raw_query := u_raw_query u\<rparr>))"

definition mapURL :: "gateway_config \<Rightarrow> url \<Rightarrow> string \<Rightarrow> (string, url) result" where
  "mapURL c upstream v =
     (if 8192 < length v \<or> \<not> prefix ''/'' v \<or> prefix ''//'' v then Inl ''invalid request path''
      else (case url_ParseRequestURI v of
          None \<Rightarrow> Inl ''relative path required''
        | Some u \<Rightarrow>
            if u_scheme u \<noteq> [] \<or> u_host u \<noteq> [] then Inl ''relative path required''
            else if u_path u \<noteq> gc_public_prefix c \<and> \<not> prefix (gc_public_prefix c @ ''/'') (u_path u) then
              Inl ''path outside publication''
            else (case map_rounds 4 (escaped_path u) of
                Inl e \<Rightarrow> Inl e
              | Inr decoded \<Rightarrow>
                  if CHR ''%'' \<in> set decoded then Inl ''ambiguous path'' else map_target c upstream u)))"

subsection \<open>From an upstream redirect to the browser\<close>

definition default_port :: "url \<Rightarrow> string" where
  "default_port u =
     (if port_of u \<noteq> [] then port_of u else if equal_fold (u_scheme u) ''https'' then ''443'' else ''80'')"

definition sameOrigin :: "url \<Rightarrow> url \<Rightarrow> bool" where
  "sameOrigin a b =
     (equal_fold (u_scheme a) (u_scheme b) \<and> equal_fold (hostname a) (hostname b) \<and> default_port a = default_port b)"

definition redirect_url :: "gateway_config \<Rightarrow> url \<Rightarrow> url \<Rightarrow> string \<Rightarrow> (string, url) result" where
  "redirect_url c upstream current v =
     (case url_Parse v of
        None \<Rightarrow> Inl ''invalid redirect''
      | Some ref \<Rightarrow>
          (let u = ResolveReference current ref in
           if u_scheme u \<noteq> ''http'' \<and> u_scheme u \<noteq> ''https'' \<or> u_user u \<noteq> None then Inl ''unsafe redirect''
           else if sameOrigin u upstream then
             (let base = trim_suffix ''/'' (gc_upstream_base c) in
              if u_path u \<noteq> base \<and> \<not> prefix (base @ ''/'') (u_path u) then
                Inl ''redirect outside configured upstream base path''
              else Inr (u\<lparr>u_path := gc_public_prefix c @ trim_prefix base (u_path u),
                          u_raw_path := Escape (gc_public_prefix c) @ trim_prefix (Escape base) (escaped_path u),
                          u_scheme := [], u_host := []\<rparr>))
           else Inr u))"

definition redirect :: "gateway_config \<Rightarrow> url \<Rightarrow> url \<Rightarrow> string \<Rightarrow> (string, string) result" where
  "redirect c upstream current v = bind_result (redirect_url c upstream current v) (\<lambda>u. Inr (url_String u))"

subsection \<open>A mapped path stays below the upstream base\<close>

lemma map_rounds_decode: "map_rounds n v = Inr w \<longleftrightarrow> decode_rounds n v = Inr w"
  by (induction n arbitrary: v) (auto split: option.splits)

lemma unescaped_append:
  "unescaped n a = Some x \<Longrightarrow> unescaped n (a @ b) = map_option (\<lambda>y. x @ y) (unescaped n b)"
proof (induction n arbitrary: a b)
  case (Suc n)
  then obtain a' where a: "path_unescape a = Some a'" "unescaped n a' = Some x"
    by (auto simp: bind_eq_Some_conv)
  show ?case
    by (cases "path_unescape b") (simp_all add: path_unescape_append [OF a(1)] Suc.IH [OF a(2)])
qed simp

lemma unescaped_slash: "unescaped n (CHR ''/'' # s) = map_option (Cons (CHR ''/'')) (unescaped n s)"
proof (induction n arbitrary: s)
  case (Suc n)
  then show ?case by (cases "path_unescape s") auto
qed simp

lemma traversal_free_slash:
  "traversal_free (a @ CHR ''/'' # b) \<longleftrightarrow> traversal_free a \<and> traversal_free b"
  by (auto simp: traversal_free_def split_on_parts contains_any_def path_specials_def)

lemma traversal_free_Nil [simp]: "traversal_free []"
  by (simp add: traversal_free_def contains_any_def)

lemma New_valid:
  assumes "New c = Inr upstream"
  shows "Validate (gc_public_prefix c) False = None" "Validate (gc_upstream_base c) True = None"
    "is_origin upstream" "validateCustomHeaders (gc_custom c) = None"
  using assms by (auto simp: New_def split: option.splits if_splits)

text \<open>The upstream base path without its trailing slash is as safe as the base path.\<close>

lemma Validate_trimmed:
  assumes "Validate base True = None"
  shows "\<exists>w. unescaped n (trim_suffix ''/'' base) = Some w \<and> traversal_free w"
proof (cases "base = ''/''")
  case True
  have "unescaped n [] = Some []" by (induction n) auto
  with True show ?thesis by (simp add: trim_suffix_def)
next
  case False
  from assms have clean: "path_clean base = base" "prefix ''/'' base"
    by (auto simp: Validate_def split: if_splits sum.splits)
  have "\<not> suffix ''/'' base"
  proof
    assume "suffix ''/'' base"
    then obtain a where "base = a @ CHR ''/'' # []" by (auto simp: suffix_def)
    then have "split_on (CHR ''/'') base = split_on (CHR ''/'') a @ [[]]"
      using split_on_parts [of "CHR ''/''" a "[]"] by simp
    moreover obtain segs where "split_on (CHR ''/'') base = [] # segs" "list_all plain segs"
      using clean_rooted [OF clean False] by blast
    ultimately show False by (cases segs rule: rev_cases) (auto simp: plain_def)
  qed
  then show ?thesis using Validate_no_traversal_all [OF assms, of n] by (simp add: trim_suffix_def)
qed

lemma map_target_path:
  assumes "map_target c upstream u = Inr out"
  shows "u_path out = (let p = trim_suffix ''/'' (gc_upstream_base c) @ trim_prefix (gc_public_prefix c) (u_path u)
                       in if p = [] then ''/'' else p)
    \<and> u_scheme out = u_scheme upstream \<and> u_host out = u_host upstream \<and> u_user out = u_user upstream"
  using assms by (auto simp: map_target_def Let_def split: if_splits)

lemma mapURL_parts:
  assumes "mapURL c upstream v = Inr out"
  obtains u w sfx where "map_rounds 4 (escaped_path u) = Inr w" "CHR ''%'' \<notin> set w"
    "u_path u = gc_public_prefix c @ sfx" "sfx = [] \<or> (\<exists>s. sfx = CHR ''/'' # s)"
    "trim_prefix (gc_public_prefix c) (u_path u) = sfx" "map_target c upstream u = Inr out"
proof -
  from assms obtain u w where u: "map_rounds 4 (escaped_path u) = Inr w" "CHR ''%'' \<notin> set w"
      "map_target c upstream u = Inr out"
      "u_path u = gc_public_prefix c \<or> prefix (gc_public_prefix c @ ''/'') (u_path u)"
    by (auto simp: mapURL_def split: if_splits option.splits sum.splits)
  then obtain sfx where "u_path u = gc_public_prefix c @ sfx" "sfx = [] \<or> (\<exists>s. sfx = CHR ''/'' # s)"
    by (auto simp: prefix_def)
  with u that show thesis by (simp add: trim_prefix_def)
qed

text \<open>C22: whatever path a request asks for, the gateway sends it to the configured origin and to a path
  that is the upstream base path or continues it after a slash; the upstream decodes that path without
  error, and neither it nor any further decoding of it has a segment that is a single or a double dot, a backslash, or a NUL, CR or LF
  byte.\<close>

theorem mapURL_confined:
  assumes "New c = Inr upstream" "mapURL c upstream v = Inr out"
  shows "u_scheme out = u_scheme upstream \<and> u_host out = u_host upstream \<and> u_user out = None
    \<and> under (trim_suffix ''/'' (gc_upstream_base c)) (u_path out)
    \<and> path_unescape (escaped_path out) = Some (u_path out)
    \<and> (\<exists>w. unescaped n (u_path out) = Some w \<and> traversal_free w)"
proof -
  let ?base = "trim_suffix ''/'' (gc_upstream_base c)"
  from mapURL_parts [OF assms(2)] obtain u w sfx where rounds: "map_rounds 4 (escaped_path u) = Inr w" "CHR ''%'' \<notin> set w"
    and p: "u_path u = gc_public_prefix c @ sfx" and sfx: "sfx = [] \<or> (\<exists>s. sfx = CHR ''/'' # s)"
    and t: "trim_prefix (gc_public_prefix c) (u_path u) = sfx" and out: "map_target c upstream u = Inr out"
    by metis
  from rounds obtain full where full: "unescaped n (u_path u) = Some full" "traversal_free full"
    using decode_rounds_free [of 4 "escaped_path u" w "Suc n"] by (auto simp: map_rounds_decode)
  obtain pub where pub: "unescaped n (gc_public_prefix c) = Some pub"
    using Validate_no_traversal_all [OF New_valid(1) [OF assms(1)], of n] by blast
  obtain b where b: "unescaped n ?base = Some b" "traversal_free b"
    using Validate_trimmed [OF New_valid(2) [OF assms(1)], of n] by blast
  obtain s where s: "unescaped n sfx = Some s" "full = pub @ s"
    using full(1) unescaped_append [OF pub, of sfx] by (auto simp: p)
  have nil: "unescaped n [] = Some []" by (induction n) auto
  have "traversal_free (b @ s)"
    using sfx
  proof
    assume "\<exists>s. sfx = CHR ''/'' # s"
    with s(1) obtain r where r: "s = CHR ''/'' # r" by (auto simp: unescaped_slash)
    with full(2) b(2) show ?thesis by (simp add: s(2) traversal_free_slash)
  qed (use b(2) nil s(1) in simp)
  moreover have "unescaped n (?base @ sfx) = Some (b @ s)"
    using unescaped_append [OF b(1), of sfx] s(1) by simp
  moreover have "unescaped n ''/'' = Some ''/''" "traversal_free ''/''"
    using nil traversal_free_slash [of "[]" "[]"] by (simp_all add: unescaped_slash)
  moreover have "under ?base (?base @ sfx)" "?base = [] \<Longrightarrow> under ?base ''/''"
    using sfx by (auto simp: under_def)
  moreover have "u_user upstream = None"
    using New_valid(3) [OF assms(1)] by (simp add: is_origin_def)
  ultimately show ?thesis
    using map_target_path [OF out] by (auto simp: Let_def t split: if_splits)
qed

definition sample_config :: gateway_config where
  "sample_config = \<lparr>gc_upstream_url = ''http://h:81'', gc_upstream_base = ''/b'', gc_public_prefix = ''/app'',
     gc_base_header = [], gc_base_header_value = [], gc_insecure = False, gc_forward_host = False,
     gc_forward_scheme = False, gc_public_host = [], gc_public_scheme = [], gc_custom = [(''X-A'', [''1''])]\<rparr>"

definition sample_upstream :: url where
  "sample_upstream = empty_url\<lparr>u_scheme := ''http'', u_host := ''h:81''\<rparr>"

definition sample_mapped :: url where
  "sample_mapped = sample_upstream\<lparr>u_path := ''/b/x y'', u_raw_path := ''/b/x%20y'', u_raw_query := ''q''\<rparr>"

theorem mapURL_confined_witness:
  "u_scheme sample_mapped = u_scheme sample_upstream \<and> u_host sample_mapped = u_host sample_upstream
    \<and> u_user sample_mapped = None
    \<and> under (trim_suffix ''/'' (gc_upstream_base sample_config)) (u_path sample_mapped)
    \<and> path_unescape (escaped_path sample_mapped) = Some (u_path sample_mapped)
    \<and> (\<exists>w. unescaped 3 (u_path sample_mapped) = Some w \<and> traversal_free w)"
proof (rule mapURL_confined)
  show "New sample_config = Inr sample_upstream" by code_simp
  show "mapURL sample_config sample_upstream ''/app/x%20y?q'' = Inr sample_mapped" by code_simp
qed

text \<open>A redirect that stays at the upstream becomes a path below the public prefix; any other one leaves
  the upstream's origin and carries no credentials.\<close>

lemma redirect_confined:
  assumes "redirect_url c upstream current v = Inr out"
  shows "u_scheme out = [] \<and> u_host out = [] \<and> under (gc_public_prefix c) (u_path out)
    \<or> \<not> sameOrigin out upstream \<and> u_user out = None \<and> u_scheme out \<in> {''http'', ''https''}"
  using assms
  by (auto simp: redirect_url_def Let_def under_def trim_prefix_def prefix_def split: option.splits if_splits)

text \<open>An encoded parent reference in a redirect is not resolved, and comes back below the public prefix
  still encoded, where a browser does resolve it.\<close>

lemma redirect_keeps_encoded_dots:
  "redirect sample_config sample_upstream sample_mapped ''/b/%2e%2e/api'' = Inr ''/app/%2e%2e/api''"
  by code_simp

end
