(* ===== verification/Frames.thy ===== *)
theory Frames
  imports Prelude "HOL-Library.Word"
begin

section \<open>The frames of the HTTP tunnel\<close>

text \<open>
  Models \<^verbatim>\<open>internal/httpgateway/protocol.go\<close>: the frame types and limits of the tunnel, and the
  reading and writing of frames.  A byte is an \<open>8 word\<close>, an identifier a \<open>32 word\<close>.  The reader is the
  list of the bytes that still arrive before the end of the stream; the writer is a parameter: it
  takes the bytes offered to it and answers how many it accepted and whether it failed.
\<close>

unbundle bit_operations_syntax

type_synonym byte = "8 word"

definition Version :: byte where "Version = 2"

definition Start :: byte where "Start = 1"
definition Body :: byte where "Body = 2"
definition End :: byte where "End = 3"
definition Cancel :: byte where "Cancel = 4"
definition ResponseStart :: byte where "ResponseStart = 5"
definition ResponseBody :: byte where "ResponseBody = 6"
definition ResponseEnd :: byte where "ResponseEnd = 7"
definition ResponseError :: byte where "ResponseError = 8"
definition UploadCredit :: byte where "UploadCredit = 9"
definition DownloadCredit :: byte where "DownloadCredit = 10"
definition WebSocketOpen :: byte where "WebSocketOpen = 11"
definition WebSocketOpened :: byte where "WebSocketOpened = 12"
definition WebSocketText :: byte where "WebSocketText = 13"
definition WebSocketBinary :: byte where "WebSocketBinary = 14"
definition WebSocketClose :: byte where "WebSocketClose = 15"
definition WebSocketClosed :: byte where "WebSocketClosed = 16"
definition WebSocketError :: byte where "WebSocketError = 17"
definition WebSocketCredit :: byte where "WebSocketCredit = 18"

definition Chunk :: nat where "Chunk = 16384"
definition Window :: nat where "Window = 4 * Chunk"
definition MaxExchanges :: nat where "MaxExchanges = 16"
definition MaxMetadata :: nat where "MaxMetadata = Chunk"
definition MaxWebSockets :: nat where "MaxWebSockets = 16"
definition WebSocketWindow :: nat where "WebSocketWindow = 65536"
definition MaxWebSocketMessage :: nat where "MaxWebSocketMessage = 1048576"
definition WebSocketIDMask :: "32 word" where "WebSocketIDMask = push_bit 31 1"

record frame =
  f_type :: byte
  f_id :: "32 word"
  f_data :: "byte list"

subsection \<open>Big-endian numbers\<close>

definition put_uint32 :: "32 word \<Rightarrow> byte list" where
  "put_uint32 v = [ucast (drop_bit 24 v), ucast (drop_bit 16 v), ucast (drop_bit 8 v), ucast v]"

fun uint32 :: "byte list \<Rightarrow> 32 word" where
  "uint32 [a, b, c, d] = ucast d OR push_bit 8 (ucast c) OR push_bit 16 (ucast b) OR push_bit 24 (ucast a)"
| "uint32 _ = 0"

definition Credit :: "nat \<Rightarrow> byte list" where
  "Credit n = put_uint32 (of_nat n)"

lemma uint32_put [simp]: "uint32 (put_uint32 v) = v"
proof (rule bit_word_eqI)
  fix n :: nat
  assume "n < LENGTH(32)"
  then consider "n < 8" | "8 \<le> n" "n < 16" | "16 \<le> n" "n < 24" | "24 \<le> n" "n < 32" by fastforce
  then show "bit (uint32 (put_uint32 v)) n = bit v n"
    by cases (auto simp: put_uint32_def bit_simps)
qed

lemma no_high_bit: "\<not> bit (b :: byte) (8 + n)" "\<not> bit b (16 + n)" "\<not> bit b (24 + n)"
  by (auto dest: bit_imp_le_length)

lemma put_uint32_uint32 [simp]: "put_uint32 (uint32 [a, b, c, d]) = [a, b, c, d]"
  by (auto simp: put_uint32_def bit_simps no_high_bit intro!: bit_word_eqI)

lemma length_put_uint32 [simp]: "length (put_uint32 v) = 4"
  by (simp add: put_uint32_def)

subsection \<open>Reading and writing\<close>

text \<open>\<^verbatim>\<open>io.ReadFull\<close>.\<close>

definition read_full :: "nat \<Rightarrow> byte list \<Rightarrow> (string, byte list) result \<times> byte list" where
  "read_full n s =
     (if n \<le> length s then (Inr (take n s), drop n s)
      else (Inl (if s = [] then ''EOF'' else ''unexpected EOF''), []))"

definition ReadFrame :: "byte list \<Rightarrow> (string, frame) result \<times> byte list" where
  "ReadFrame s =
     (case read_full 10 s of
        (Inl e, rest) \<Rightarrow> (Inl e, rest)
      | (Inr header, rest) \<Rightarrow>
          (let n = uint32 (drop 6 header); i = uint32 (take 4 (drop 2 header))
           in if header ! 0 \<noteq> Version \<or> Chunk < unat n \<or> i = 0 then (Inl ''invalid HTTP tunnel frame'', rest)
              else (case read_full (unat n) rest of
                  (Inl e, rest') \<Rightarrow> (Inl e, rest')
                | (Inr data, rest') \<Rightarrow> (Inr \<lparr>f_type = header ! 1, f_id = i, f_data = data\<rparr>, rest'))))"

text \<open>The loop of \<open>WriteFrame\<close> over one buffer: the bytes the writer accepted, and the error.\<close>

function write_all ::
  "('w \<Rightarrow> byte list \<Rightarrow> nat \<times> string option \<times> 'w) \<Rightarrow> 'w \<Rightarrow> byte list \<Rightarrow> byte list \<times> string option \<times> 'w" where
  "write_all wr w data =
     (if data = [] then ([], None, w)
      else (case wr w data of
          (n, Some e, w') \<Rightarrow> (take n data, Some e, w')
        | (n, None, w') \<Rightarrow>
            if n = 0 then ([], Some ''short write'', w')
            else (case write_all wr w' (drop n data) of (out, r) \<Rightarrow> (take n data @ out, r))))"
  by pat_completeness auto
termination by (relation "measure (\<lambda>(_, _, data). length data)") auto

declare write_all.simps [simp del]

definition frame_header :: "frame \<Rightarrow> byte list" where
  "frame_header f = [Version, f_type f] @ put_uint32 (f_id f) @ put_uint32 (of_nat (length (f_data f)))"

definition WriteFrame ::
  "('w \<Rightarrow> byte list \<Rightarrow> nat \<times> string option \<times> 'w) \<Rightarrow> 'w \<Rightarrow> frame \<Rightarrow> byte list \<times> string option \<times> 'w" where
  "WriteFrame wr w f =
     (if Chunk < length (f_data f) \<or> f_id f = 0 then ([], Some ''invalid HTTP tunnel frame'', w)
      else (case write_all wr w (frame_header f) of
          (out, Some e, w') \<Rightarrow> (out, Some e, w')
        | (out, None, w') \<Rightarrow>
            (case write_all wr w' (f_data f) of (out', r) \<Rightarrow> (out @ out', r))))"

subsection \<open>What is read is what was written\<close>

lemma write_all_prefix: "write_all wr w data = (out, r, w') \<Longrightarrow> prefix out data"
proof (induction wr w data arbitrary: out rule: write_all.induct)
  case (1 wr w data)
  show ?case
  proof (cases "data = []")
    case False
    obtain n e v where wr: "wr w data = (n, e, v)" by (cases "wr w data") auto
    show ?thesis
    proof (cases "e = None \<and> n \<noteq> 0")
      case True
      then obtain out' where "write_all wr v (drop n data) = (out', r, w')" "out = take n data @ out'"
        using 1(2) False wr by (subst (asm) write_all.simps) (auto split: prod.splits)
      then have "prefix out' (drop n data)" using 1(1) False wr True by (metis prod.collapse fst_conv snd_conv)
      then have "prefix (take n data @ out') (take n data @ drop n data)" by (simp only: same_prefix_prefix)
      with \<open>out = _\<close> show ?thesis by simp
    next
      case stopped: False
      then show ?thesis
        using 1(2) False wr by (subst (asm) write_all.simps) (auto simp: take_is_prefix split: option.splits if_splits)
    qed
  qed (use 1(2) in \<open>simp add: write_all.simps\<close>)
qed

lemma write_all_ok: "write_all wr w data = (out, None, w') \<Longrightarrow> out = data"
proof (induction wr w data arbitrary: out rule: write_all.induct)
  case (1 wr w data)
  show ?case
  proof (cases "data = []")
    case False
    obtain n e v where wr: "wr w data = (n, e, v)" by (cases "wr w data") auto
    then have ok: "e = None" "n \<noteq> 0"
      using 1(2) False by (auto simp: write_all.simps [of wr w data] split: option.splits if_splits)
    then obtain out' where "write_all wr v (drop n data) = (out', None, w')" "out = take n data @ out'"
      using 1(2) False wr by (subst (asm) write_all.simps) (auto split: prod.splits)
    then show ?thesis using 1(1) False wr ok by (metis append_take_drop_id)
  qed (use 1(2) in \<open>simp add: write_all.simps\<close>)
qed

lemma WriteFrame_ok:
  assumes "WriteFrame wr w f = (out, None, w')"
  shows "out = frame_header f @ f_data f \<and> length (f_data f) \<le> Chunk \<and> f_id f \<noteq> 0"
proof -
  from assms have v: "length (f_data f) \<le> Chunk" "f_id f \<noteq> 0"
    by (auto simp: WriteFrame_def split: if_splits)
  with assms obtain h w1 d where "write_all wr w (frame_header f) = (h, None, w1)"
      "write_all wr w1 (f_data f) = (d, None, w')" "out = h @ d"
    by (auto simp: WriteFrame_def split: prod.splits option.splits)
  with v show ?thesis by (auto dest!: write_all_ok)
qed

lemma read_full_append: "length a = n \<Longrightarrow> read_full n (a @ b) = (Inr a, b)"
  by (simp add: read_full_def)

lemma length_frame_header [simp]: "length (frame_header f) = 10"
  by (simp add: frame_header_def)

lemma header_parts:
  "frame_header f ! 0 = Version" "frame_header f ! Suc 0 = f_type f"
  "take 4 (drop 2 (frame_header f)) = put_uint32 (f_id f)"
  "drop 6 (frame_header f) = put_uint32 (of_nat (length (f_data f)))"
  by (simp_all add: frame_header_def put_uint32_def)

text \<open>C21: a frame that was written, whatever the sizes in which the writer accepted it, is read back
  unchanged, and the reader stops exactly at its end.\<close>

theorem frame_roundtrip:
  assumes "WriteFrame wr w f = (out, None, w')"
  shows "ReadFrame (out @ rest) = (Inr f, rest)"
proof -
  from WriteFrame_ok [OF assms]
  have o: "out @ rest = frame_header f @ f_data f @ rest" and n: "length (f_data f) \<le> Chunk"
    and i: "f_id f \<noteq> 0" by simp_all
  have u: "unat (of_nat (length (f_data f)) :: 32 word) = length (f_data f)"
    using n by (simp add: Chunk_def unsigned_of_nat take_bit_nat_eq_self)
  show ?thesis
    using read_full_append [of "frame_header f" 10 "f_data f @ rest"] n i
    by (simp add: ReadFrame_def o header_parts u read_full_append)
qed

text \<open>A writer that accepts three bytes at a time.\<close>

theorem frame_roundtrip_witness:
  "ReadFrame ([2, 2, 0, 0, 0, 7, 0, 0, 0, 2, 65, 66] @ [9]) =
     (Inr \<lparr>f_type = Body, f_id = 7, f_data = [65, 66]\<rparr>, [9])"
proof (rule frame_roundtrip [where wr = "\<lambda>k data. (if k < 100 then 3 else 0, None, Suc k)" and w = 0 and w' = 5])
qed (simp add: WriteFrame_def frame_header_def put_uint32_def write_all.simps Version_def Body_def Chunk_def)

text \<open>Nothing else is read as a frame.\<close>

lemma ReadFrame_only:
  assumes "ReadFrame s = (Inr f, rest)"
  shows "s = frame_header f @ f_data f @ rest \<and> f_id f \<noteq> 0 \<and> length (f_data f) \<le> Chunk"
proof -
  from assms have len: "10 \<le> length s" by (auto simp: ReadFrame_def read_full_def split: if_splits)
  then obtain h t where s: "s = h @ t" and h: "length h = 10"
    by (metis append_take_drop_id length_take min.absorb2)
  then obtain a b i0 i1 i2 i3 n0 n1 n2 n3 where hd: "h = [a, b, i0, i1, i2, i3, n0, n1, n2, n3]"
    by (auto simp: length_Suc_conv eval_nat_numeral)
  let ?n = "uint32 [n0, n1, n2, n3]" and ?i = "uint32 [i0, i1, i2, i3]"
  from assms s hd have a: "a = Version" and n: "unat ?n \<le> Chunk" and i: "?i \<noteq> 0"
    and t: "unat ?n \<le> length t" "rest = drop (unat ?n) t"
    and f: "f = \<lparr>f_type = b, f_id = ?i, f_data = take (unat ?n) t\<rparr>"
    by (auto simp: ReadFrame_def read_full_def Let_def simp del: uint32.simps split: if_splits)
  have "frame_header f = h" using a t hd by (simp add: f frame_header_def del: uint32.simps)
  with s t n i f show ?thesis by (simp del: uint32.simps)
qed

end
