(* ===== verification/GatewayRequest.thy ===== *)
theory GatewayRequest
  imports GatewayUrl Frames
begin

section \<open>The requests and responses of the gateway\<close>

text \<open>
  Models how \<open>accept\<close>, \<open>acceptWebSocket\<close> and \<open>execute\<close> of \<^verbatim>\<open>internal/httpgateway\<close> build the request to the
  upstream and the response to the browser.
\<close>

record out_request =
  rq_method :: string
  rq_url :: url
  rq_headers :: header

definition origin_text :: "url \<Rightarrow> string" where
  "origin_text upstream = u_scheme upstream @ ''://'' @ u_host upstream"

definition set_origin :: "url \<Rightarrow> string \<Rightarrow> header \<Rightarrow> header" where
  "set_origin upstream verb h =
     (if header_get h ''Origin'' \<noteq> [] \<or> verb \<in> {''POST'', ''PUT'', ''PATCH'', ''DELETE''} then
        header_set ''Origin'' (origin_text upstream) h
      else h)"

definition set_referer :: "gateway_config \<Rightarrow> url \<Rightarrow> header \<Rightarrow> header" where
  "set_referer c upstream h =
     (let v = header_get h ''Referer'' in
      if v = [] then h
      else (let h = header_del ''Referer'' h in
        case url_Parse v of
          None \<Rightarrow> h
        | Some ref \<Rightarrow>
            if u_scheme ref = ''http'' \<or> u_scheme ref = ''https'' then
              (case mapURL c upstream (request_uri ref) of
                 Inl _ \<Rightarrow> h
               | Inr mapped \<Rightarrow> header_set ''Referer'' (url_String mapped) h)
            else h))"

text \<open>The headers of the configuration, set over those of the browser.\<close>

definition set_configured :: "gateway_config \<Rightarrow> header \<Rightarrow> header" where
  "set_configured c h =
     (let h = fold (\<lambda>(k, vs). fold (header_set k) vs) (gc_custom c) h;
          h = (if gc_forward_host c then header_set ''X-Forwarded-Host'' (gc_public_host c) h else h);
          h = (if gc_forward_scheme c then header_set ''X-Forwarded-Proto'' (gc_public_scheme c) h else h)
      in if gc_base_header c \<noteq> [] then header_set (gc_base_header c) (basePathHeaderValue c) h else h)"

definition request_methods :: "string list" where
  "request_methods = [''GET'', ''HEAD'', ''POST'', ''PUT'', ''PATCH'', ''DELETE'', ''OPTIONS'']"

definition build_request ::
  "gateway_config \<Rightarrow> url \<Rightarrow> string \<times> string \<times> header \<Rightarrow> (string, out_request) result" where
  "build_request c upstream m =
     (case m of (verb, p, hdr) \<Rightarrow>
        if verb \<notin> set request_methods then Inl ''unsupported verb''
        else (case mapURL c upstream p of
            Inl e \<Rightarrow> Inl e
          | Inr u \<Rightarrow>
              (case safeHeaders MaxMetadata hdr True of
                 Inl e \<Rightarrow> Inl e
               | Inr h \<Rightarrow>
                   Inr \<lparr>rq_method = verb, rq_url = u,
                        rq_headers = set_configured c (set_referer c upstream (set_origin upstream verb h))\<rparr>)))"

text \<open>The URL and headers of a WebSocket; \<open>cookies\<close> are those of the session for that URL.\<close>

definition websocket_request :: "gateway_config \<Rightarrow> url \<Rightarrow> string list \<Rightarrow> url \<Rightarrow> out_request" where
  "websocket_request c upstream cookies u =
     (let h = set_configured c (header_set ''Origin'' (origin_text upstream) [])
      in \<lparr>rq_method = ''GET'',
          rq_url = u\<lparr>u_scheme := (if u_scheme u = ''http'' then ''ws'' else ''wss'')\<rparr>,
          rq_headers = (if cookies \<noteq> [] then header_set ''Cookie'' (join_with ''; '' cookies) h else h)\<rparr>)"

text \<open>What \<open>execute\<close> makes of the upstream's status and headers.\<close>

definition build_response ::
  "gateway_config \<Rightarrow> url \<Rightarrow> url \<Rightarrow> nat \<times> header \<Rightarrow> (string, nat \<times> header) result" where
  "build_response c upstream target r =
     (case r of (status, hdr) \<Rightarrow>
        (case safeHeaders MaxMetadata hdr False of
           Inl _ \<Rightarrow> Inl ''invalid upstream headers''
         | Inr h \<Rightarrow>
             let location = header_get h ''Location'' in
             if location = [] then Inr (status, header_del ''Service-Worker-Allowed'' h)
             else (case redirect c upstream target location of
                 Inl _ \<Rightarrow> Inl ''unsafe upstream redirect''
               | Inr l \<Rightarrow> Inr (status, header_del ''Service-Worker-Allowed'' (header_set ''Location'' l h)))))"

subsection \<open>Values after the operations\<close>

lemma header_values_set [table_simps]:
  "header_values (header_set k v h) k' = (if canonicalKey k' = canonicalKey k then [v] else header_values h k')"
  by (simp add: header_values_def header_set_def map_of_update)

lemma header_values_del [table_simps]:
  "header_values (header_del k h) k' = (if canonicalKey k' = canonicalKey k then [] else header_values h k')"
  by (simp add: header_values_def table_simps)

lemma header_values_sets:
  "canonicalKey k' \<noteq> canonicalKey k \<Longrightarrow> header_values (fold (header_set k) vs h) k' = header_values h k'"
  by (induction vs arbitrary: h) (simp_all add: table_simps)

text \<open>A reserved name has the values it had before the custom headers.\<close>

lemma custom_keeps_reserved:
  assumes "list_all custom_ok custom" "to_lower k \<in> set forbidden_custom"
  shows "header_values (fold (\<lambda>(k, vs). fold (header_set k) vs) custom h) k = header_values h k"
  using assms
proof (induction custom arbitrary: h)
  case (Cons kv custom)
  obtain name vs where kv: "kv = (name, vs)" by (cases kv)
  with Cons.prems have "to_lower name \<notin> set forbidden_custom" by (simp add: custom_ok_def)
  with Cons.prems(2) have "to_lower k \<noteq> to_lower name" by metis
  then have "canonicalKey k \<noteq> canonicalKey name"
    using to_lower_canonicalKey [of k] to_lower_canonicalKey [of name] by metis
  with Cons kv show ?case by (simp add: header_values_sets)
qed simp

lemma removed_values:
  assumes "safeHeaders m h True = Inr out" "to_lower k \<in> set (map to_lower (hop_headers @ request_headers))"
  shows "header_values out k = []"
proof -
  have "stripped True (collect_headers h) (canonicalKey k)"
    using assms(2) by (auto simp: stripped_def)
  then show ?thesis
    using safeHeaders_entries [OF assms(1), of "canonicalKey k"] by (simp add: header_values_def)
qed

subsection \<open>Only the configuration speaks for the public side\<close>

lemma set_origin_values: "canonicalKey k \<noteq> ''Origin'' \<Longrightarrow> header_values (set_origin up verb h) k = header_values h k"
proof -
  have "canonicalKey ''Origin'' = ''Origin''" by code_simp
  then show "canonicalKey k \<noteq> ''Origin'' \<Longrightarrow> ?thesis" by (simp add: set_origin_def table_simps)
qed

lemma set_referer_values: "canonicalKey k \<noteq> ''Referer'' \<Longrightarrow> header_values (set_referer c up h) k = header_values h k"
proof -
  have "canonicalKey ''Referer'' = ''Referer''" by code_simp
  then show "canonicalKey k \<noteq> ''Referer'' \<Longrightarrow> ?thesis"
    by (simp add: set_referer_def table_simps Let_def split: option.splits sum.splits)
qed

text \<open>The names the host speaks for, as they are canonically spelled.\<close>

definition public_names :: "string list" where
  "public_names = [''X-Forwarded-Host'', ''X-Forwarded-Proto'', ''Cookie'', ''Host'', ''Content-Length'', ''Origin'']"

lemma public_names_canonical: "list_all (\<lambda>k. canonicalKey k = k) public_names"
  by code_simp

lemma public_names_reserved: "list_all (\<lambda>k. to_lower k \<in> set forbidden_custom) public_names"
  by code_simp

lemma base_header_canonical:
  assumes "New c = Inr upstream" "gc_base_header c \<noteq> []"
  shows "canonicalKey (gc_base_header c) \<in> {''X-Forwarded-Prefix'', ''X-Script-Name''}"
proof -
  have "canonicalKey ''X-Forwarded-Prefix'' = ''X-Forwarded-Prefix''" "canonicalKey ''X-Script-Name'' = ''X-Script-Name''"
    by code_simp+
  moreover have "gc_base_header c \<in> {''X-Forwarded-Prefix'', ''X-Script-Name''}"
    using assms by (auto simp: New_def split: option.splits if_splits)
  ultimately show ?thesis by auto
qed

lemma configured_values:
  assumes "New c = Inr upstream" "k \<in> set public_names"
  shows "header_values (set_configured c h) k =
    (if k = ''X-Forwarded-Host'' \<and> gc_forward_host c then [gc_public_host c]
     else if k = ''X-Forwarded-Proto'' \<and> gc_forward_scheme c then [gc_public_scheme c]
     else header_values h k)"
proof -
  have k: "canonicalKey k = k" "to_lower k \<in> set forbidden_custom"
    using assms(2) public_names_canonical public_names_reserved by (simp_all add: list_all_iff)
  have "list_all custom_ok (gc_custom c)"
    using New_valid(4) [OF assms(1)] by (simp add: validateCustomHeaders_iff)
  then have "header_values (fold (\<lambda>(k, vs). fold (header_set k) vs) (gc_custom c) h) k = header_values h k"
    using k(2) by (rule custom_keeps_reserved)
  moreover have "canonicalKey ''X-Forwarded-Host'' = ''X-Forwarded-Host''" "canonicalKey ''X-Forwarded-Proto'' = ''X-Forwarded-Proto''"
    using public_names_canonical by (simp_all add: public_names_def)
  moreover have "gc_base_header c \<noteq> [] \<Longrightarrow> k \<noteq> canonicalKey (gc_base_header c)"
    using base_header_canonical [OF assms(1)] assms(2) by (auto simp: public_names_def)
  ultimately show ?thesis
    unfolding set_configured_def Let_def using k(1)
    by (cases "gc_base_header c = []"; cases "gc_forward_host c"; cases "gc_forward_scheme c")
       (simp_all add: table_simps)
qed

text \<open>The methods whose requests always have an origin.\<close>

definition changing_methods :: "string list" where
  "changing_methods = [''POST'', ''PUT'', ''PATCH'', ''DELETE'']"

lemma origin_set:
  "header_values (set_origin up verb h) ''Origin'' =
     (if verb \<in> set changing_methods \<or> header_get h ''Origin'' \<noteq> [] then [origin_text up] else header_values h ''Origin'')"
  by (simp add: set_origin_def changing_methods_def table_simps)

text \<open>C23: whatever headers a browser sends, the upstream sees the public host and scheme exactly when the
  configuration forwards them, and those of the configuration; it sees no cookie, no host and no length of
  the browser's.  A request that changes something (POST, PUT, PATCH or DELETE), and any other whose first origin is not empty, has
  exactly one origin, the upstream's own; a request without the upstream's origin has none, or an empty one in front.\<close>

theorem request_speaks_for_host:
  assumes "New c = Inr upstream" "build_request c upstream m = Inr r"
  shows "header_values (rq_headers r) ''X-Forwarded-Host'' = (if gc_forward_host c then [gc_public_host c] else [])
    \<and> header_values (rq_headers r) ''X-Forwarded-Proto'' = (if gc_forward_scheme c then [gc_public_scheme c] else [])
    \<and> header_values (rq_headers r) ''Cookie'' = [] \<and> header_values (rq_headers r) ''Host'' = []
    \<and> header_values (rq_headers r) ''Content-Length'' = []
    \<and> (header_values (rq_headers r) ''Origin'' = [origin_text upstream]
       \<or> rq_method r \<notin> set changing_methods \<and> header_get (rq_headers r) ''Origin'' = [])"
proof -
  from assms(2) obtain verb hdr h where h: "safeHeaders MaxMetadata hdr True = Inr h"
    and r: "rq_headers r = set_configured c (set_referer c upstream (set_origin upstream verb h))" "rq_method r = verb"
    by (auto simp: build_request_def split: prod.splits if_splits sum.splits)
  let ?h = "set_referer c upstream (set_origin upstream verb h)"
  have names: "list_all (\<lambda>k. k \<noteq> ''Origin'' \<longrightarrow> to_lower k \<in> set (map to_lower (hop_headers @ request_headers))
      \<and> k \<noteq> ''Referer'') public_names" by code_simp
  have other: "header_values ?h k = []" if "k \<in> set public_names" "k \<noteq> ''Origin''" for k
  proof -
    have "canonicalKey k = k" "to_lower k \<in> set (map to_lower (hop_headers @ request_headers))" "k \<noteq> ''Referer''"
      using that names public_names_canonical by (auto simp: list_all_iff)
    then show ?thesis using removed_values [OF h, of k] that(2) by (simp add: set_origin_values set_referer_values)
  qed
  have "canonicalKey ''Origin'' = ''Origin''" using public_names_canonical by (simp add: public_names_def)
  then have "header_values ?h ''Origin'' = header_values (set_origin upstream verb h) ''Origin''"
    by (simp add: set_referer_values)
  then have "header_values (rq_headers r) ''Origin'' = header_values (set_origin upstream verb h) ''Origin''"
    using configured_values [OF assms(1), of "''Origin''"] by (simp add: r(1) public_names_def)
  then have "header_values (rq_headers r) ''Origin'' = [origin_text upstream]
       \<or> rq_method r \<notin> set changing_methods \<and> header_get (rq_headers r) ''Origin'' = []"
    by (auto simp: origin_set r(2) header_get_def)
  then show ?thesis
    using other configured_values [OF assms(1)] by (simp add: r(1) public_names_def)
qed

text \<open>A browser may send the prefix headers itself: they are reserved for custom headers, and not taken from
  a request.\<close>

lemma browser_sets_prefix:
  "map_option (\<lambda>h. header_values h ''X-Forwarded-Prefix'') (case safeHeaders 100 [(''X-Forwarded-Prefix'', [''/evil''])] True of Inr h \<Rightarrow> Some h | _ \<Rightarrow> None)
     = Some [''/evil'']"
  "''x-forwarded-prefix'' \<in> set forbidden_custom"
  by code_simp+

text \<open>An empty origin in front hides the others: they reach the upstream as the browser sent them.\<close>

lemma second_origin_passes:
  "safeHeaders 100 [(''Origin'', [[], ''https://evil''])] True = Inr [(''Origin'', [[], ''https://evil''])]"
  "header_values (set_configured sample_config (set_referer sample_config sample_upstream
     (set_origin sample_upstream ''GET'' [(''Origin'', [[], ''https://evil''])]))) ''Origin'' = [[], ''https://evil'']"
  by code_simp+

definition forwarding_config :: gateway_config where
  "forwarding_config = sample_config\<lparr>gc_forward_host := True, gc_public_host := ''p:8''\<rparr>"

definition sample_request :: out_request where
  "sample_request = \<lparr>rq_method = ''POST'', rq_url = sample_mapped,
     rq_headers = [(''X-Y'', [''z'']), (''Origin'', [''http://h:81'']), (''X-A'', [''1'']), (''X-Forwarded-Host'', [''p:8''])]\<rparr>"

theorem request_speaks_for_host_witness:
  "header_values (rq_headers sample_request) ''X-Forwarded-Host'' =
      (if gc_forward_host forwarding_config then [gc_public_host forwarding_config] else [])
    \<and> header_values (rq_headers sample_request) ''X-Forwarded-Proto'' =
      (if gc_forward_scheme forwarding_config then [gc_public_scheme forwarding_config] else [])
    \<and> header_values (rq_headers sample_request) ''Cookie'' = [] \<and> header_values (rq_headers sample_request) ''Host'' = []
    \<and> header_values (rq_headers sample_request) ''Content-Length'' = []
    \<and> (header_values (rq_headers sample_request) ''Origin'' = [origin_text sample_upstream]
       \<or> rq_method sample_request \<notin> set changing_methods \<and> header_get (rq_headers sample_request) ''Origin'' = [])"
proof (rule request_speaks_for_host)
  show "New forwarding_config = Inr sample_upstream" by code_simp
  have "MaxMetadata = 16384" by (simp add: MaxMetadata_def Chunk_def)
  moreover have "safeHeaders 16384 [(''Cookie'', [''c'']), (''x-y'', [''z'']), (''x-forwarded-host'', [''evil''])] True
      = Inr [(''X-Y'', [''z''])]" by code_simp
  ultimately have h: "safeHeaders MaxMetadata [(''Cookie'', [''c'']), (''x-y'', [''z'']), (''x-forwarded-host'', [''evil''])] True
      = Inr [(''X-Y'', [''z''])]" by (simp only:)
  have u: "mapURL forwarding_config sample_upstream ''/app/x%20y?q'' = Inr sample_mapped" by code_simp
  have s: "set_configured forwarding_config (set_referer forwarding_config sample_upstream
      (set_origin sample_upstream ''POST'' [(''X-Y'', [''z''])])) = rq_headers sample_request" by code_simp
  show "build_request forwarding_config sample_upstream
      (''POST'', ''/app/x%20y?q'', [(''Cookie'', [''c'']), (''x-y'', [''z'']), (''x-forwarded-host'', [''evil''])])
      = Inr sample_request"
    by (simp add: build_request_def h u s) (simp add: sample_request_def request_methods_def)
qed

end
