(* ===== verification/Cookies.thy ===== *)
theory Cookies
  imports Urls
begin

section \<open>The cookie jar of a gateway\<close>

text \<open>
  Models \<^verbatim>\<open>internal/httpgateway/cookies.go\<close>: the bound that a gateway puts on the cookies of an upstream.
  Times are nanoseconds.  The standard jar behind it takes the accepted cookies and is not modelled; the
  printed form of a cookie is a field of it.
\<close>

definition maxSessionCookies :: nat where "maxSessionCookies = 128"
definition maxSessionCookieBytes :: int where "maxSessionCookieBytes = 65536"

record cookie =
  ck_name :: string
  ck_domain :: string
  ck_path :: string
  ck_max_age :: int
  ck_expires :: "int option"
  ck_text :: string

record cookie_record =
  cr_size :: int
  cr_expires :: "int option"

record cookie_jar =
  jar_records :: "cookie_record table"
  jar_bytes :: int
  jar_overflow :: bool

definition newCookieJar :: cookie_jar where
  "newCookieJar = \<lparr>jar_records = [], jar_bytes = 0, jar_overflow = False\<rparr>"

definition record_expired :: "int \<Rightarrow> cookie_record \<Rightarrow> bool" where
  "record_expired now r = (case cr_expires r of None \<Rightarrow> False | Some t \<Rightarrow> t \<le> now)"

definition total_size :: "cookie_record table \<Rightarrow> int" where
  "total_size t = (\<Sum>(k, r)\<leftarrow>t. cr_size r)"

definition drop_expired :: "int \<Rightarrow> cookie_jar \<Rightarrow> cookie_jar" where
  "drop_expired now j =
     j\<lparr>jar_bytes := jar_bytes j - total_size (filter (\<lambda>kr. record_expired now (snd kr)) (jar_records j)),
       jar_records := filter (\<lambda>kr. \<not> record_expired now (snd kr)) (jar_records j)\<rparr>"

definition default_path :: "string \<Rightarrow> string" where
  "default_path p = (case cut_last (CHR ''/'') p of None \<Rightarrow> ''/'' | Some (front, _) \<Rightarrow> if front = [] then ''/'' else front)"

definition cookie_key :: "url \<Rightarrow> cookie \<Rightarrow> string" where
  "cookie_key u c =
     (let d = to_lower (trim_prefix ''.'' (ck_domain c));
          domain = (if d = [] then hostname u else d);
          p = (if prefix ''/'' (ck_path c) then ck_path c else default_path (u_path u))
      in domain @ [CHR 0x00] @ p @ [CHR 0x00] @ ck_name c)"

text \<open>One turn of the loop of \<open>SetCookies\<close>; \<open>True\<close> when the cookie goes to the standard jar.\<close>

definition set_cookie :: "url \<Rightarrow> int \<Rightarrow> cookie \<Rightarrow> cookie_jar \<Rightarrow> bool \<times> cookie_jar" where
  "set_cookie u now c j =
     (let key = cookie_key u c;
          previous = (case map_of (jar_records j) key of None \<Rightarrow> 0 | Some r \<Rightarrow> cr_size r)
      in if ck_max_age c < 0 \<or> (case ck_expires c of None \<Rightarrow> False | Some t \<Rightarrow> t \<le> now) then
           (True, j\<lparr>jar_bytes := jar_bytes j - previous, jar_records := AList.delete key (jar_records j)\<rparr>)
         else
           (let n = int (length key + length (ck_text c)) in
            if maxSessionCookieBytes < jar_bytes j - previous + n
               \<or> previous = 0 \<and> maxSessionCookies \<le> length (jar_records j) then (False, j\<lparr>jar_overflow := True\<rparr>)
            else
              (let expires = (if 0 < ck_max_age c then Some (now + wrap64 (ck_max_age c * 1000000000)) else ck_expires c)
               in (True, j\<lparr>jar_records := AList.update key \<lparr>cr_size = n, cr_expires = expires\<rparr> (jar_records j),
                           jar_bytes := jar_bytes j + n\<rparr>))))"

fun set_cookies :: "url \<Rightarrow> int \<Rightarrow> cookie list \<Rightarrow> cookie_jar \<Rightarrow> cookie list \<times> cookie_jar" where
  "set_cookies u now [] j = ([], j)"
| "set_cookies u now (c # cs) j =
     (case set_cookie u now c j of
        (ok, j) \<Rightarrow> (case set_cookies u now cs j of (accepted, j) \<Rightarrow> ((if ok then c # accepted else accepted), j)))"

text \<open>\<open>SetCookies\<close>: what goes to the standard jar, and the new bounds.\<close>

definition SetCookies :: "url \<Rightarrow> int \<Rightarrow> cookie list \<Rightarrow> cookie_jar \<Rightarrow> cookie list \<times> cookie_jar" where
  "SetCookies u now cs j = set_cookies u now cs (drop_expired now j)"

definition exceeded :: "cookie_jar \<Rightarrow> bool" where
  "exceeded j = jar_overflow j"

subsection \<open>The bound holds\<close>

text \<open>The counted bytes never fall below the sizes of the records, so the bound on the former bounds the
  latter.\<close>

definition jar_ok :: "cookie_jar \<Rightarrow> bool" where
  "jar_ok j =
     (keys_distinct (jar_records j) \<and> list_all (\<lambda>(k, r). 0 < cr_size r) (jar_records j)
      \<and> total_size (jar_records j) \<le> jar_bytes j
      \<and> total_size (jar_records j) \<le> maxSessionCookieBytes \<and> length (jar_records j) \<le> maxSessionCookies)"

definition previous_size :: "string \<Rightarrow> cookie_record table \<Rightarrow> int" where
  "previous_size k t = (case map_of t k of None \<Rightarrow> 0 | Some r \<Rightarrow> cr_size r)"

lemma total_size_simps [simp]: "total_size [] = 0" "total_size ((k, r) # t) = cr_size r + total_size t"
  by (simp_all add: total_size_def)

lemma total_size_filter: "total_size (filter P t) + total_size (filter (\<lambda>x. \<not> P x) t) = total_size t"
  by (induction t) auto

lemma total_size_update: "total_size (AList.update k r t) = total_size t - previous_size k t + cr_size r"
  by (induction t) (auto simp: previous_size_def)

lemma total_size_delete: "keys_distinct t \<Longrightarrow> total_size (AList.delete k t) = total_size t - previous_size k t"
proof (induction t)
  case (Cons kv t)
  obtain k' r where kv: "kv = (k', r)" by (cases kv)
  show ?case
  proof (cases "k' = k")
    case True
    with Cons.prems kv have "AList.delete k t = t" by (intro delete_id) auto
    with True kv show ?thesis by (simp add: previous_size_def)
  next
    case False
    with Cons kv show ?thesis by (simp add: previous_size_def)
  qed
qed (simp add: previous_size_def)

lemma total_size_nonneg: "list_all (\<lambda>(k, r). 0 < cr_size r) t \<Longrightarrow> 0 \<le> total_size t"
  by (induction t) auto

lemma jar_ok_drop: "jar_ok j \<Longrightarrow> jar_ok (drop_expired now j)"
proof -
  assume j: "jar_ok j"
  let ?P = "\<lambda>kr :: string \<times> cookie_record. record_expired now (snd kr)"
  have "0 \<le> total_size (filter ?P (jar_records j))"
    by (rule total_size_nonneg) (use j in \<open>auto simp: jar_ok_def list_all_iff\<close>)
  moreover note total_size_filter [of ?P "jar_records j"]
  moreover have "length (filter (\<lambda>x. \<not> ?P x) (jar_records j)) \<le> maxSessionCookies"
    by (rule order_trans [OF length_filter_le]) (use j in \<open>simp add: jar_ok_def\<close>)
  ultimately show ?thesis
    using j by (auto simp: jar_ok_def drop_expired_def list_all_iff distinct_map_filter)
qed

lemma previous_size_cases:
  assumes "jar_ok j"
  shows "0 \<le> previous_size k (jar_records j)" "previous_size k (jar_records j) = 0 \<longleftrightarrow> map_of (jar_records j) k = None"
proof -
  have "0 < cr_size r" if "map_of (jar_records j) k = Some r" for r
    using assms map_of_SomeD [OF that] by (auto simp: jar_ok_def list_all_iff)
  then show "0 \<le> previous_size k (jar_records j)" "previous_size k (jar_records j) = 0 \<longleftrightarrow> map_of (jar_records j) k = None"
    by (force simp: previous_size_def split: option.splits)+
qed

lemma jar_ok_remove:
  assumes "jar_ok j"
  shows "jar_ok (j\<lparr>jar_bytes := jar_bytes j - previous_size k (jar_records j),
                   jar_records := AList.delete k (jar_records j)\<rparr>)"
proof -
  have "set (AList.delete k (jar_records j)) \<subseteq> set (jar_records j)" by (auto simp: AList.delete_eq)
  moreover have "length (AList.delete k (jar_records j)) \<le> maxSessionCookies"
    by (rule order_trans [OF length_delete_le]) (use assms in \<open>simp add: jar_ok_def\<close>)
  ultimately show ?thesis
    using assms previous_size_cases [OF assms, of k]
    by (auto simp: jar_ok_def list_all_iff total_size_delete)
qed

lemma jar_ok_add:
  assumes "jar_ok j" "0 < cr_size r"
    and "jar_bytes j - previous_size k (jar_records j) + cr_size r \<le> maxSessionCookieBytes"
    and "previous_size k (jar_records j) = 0 \<longrightarrow> length (jar_records j) < maxSessionCookies"
  shows "jar_ok (j\<lparr>jar_records := AList.update k r (jar_records j), jar_bytes := jar_bytes j + cr_size r\<rparr>)"
proof -
  have "length (AList.update k r (jar_records j)) \<le> maxSessionCookies"
    using assms(1,4) previous_size_cases(2) [OF assms(1), of k] length_update_le [of k r "jar_records j"]
    by (auto simp: jar_ok_def split: if_splits)
  moreover have "list_all (\<lambda>(k, r). 0 < cr_size r) (AList.update k r (jar_records j))"
    using assms(1,2) set_update_sub [of k r "jar_records j"] by (fastforce simp: jar_ok_def list_all_iff)
  ultimately show ?thesis
    using assms previous_size_cases(1) [OF assms(1), of k] by (simp add: jar_ok_def total_size_update)
qed

lemma jar_ok_set: "jar_ok j \<Longrightarrow> jar_ok (snd (set_cookie u now c j))"
proof -
  assume j: "jar_ok j"
  have overflow: "jar_ok (j\<lparr>jar_overflow := True\<rparr>)" using j by (simp add: jar_ok_def)
  have "0 < int (length (cookie_key u c)) + int (length (ck_text c))" by (simp add: cookie_key_def Let_def)
  then show ?thesis
    using overflow jar_ok_remove [OF j, of "cookie_key u c"]
      jar_ok_add [OF j, where k = "cookie_key u c" and r = "\<lparr>cr_size = int (length (cookie_key u c) + length (ck_text c)), cr_expires = _\<rparr>"]
    by (simp add: set_cookie_def Let_def previous_size_def [symmetric] not_le not_less)
qed

lemma jar_ok_set_cookies: "jar_ok j \<Longrightarrow> jar_ok (snd (set_cookies u now cs j))"
proof (induction cs arbitrary: j)
  case (Cons c cs)
  then show ?case using jar_ok_set [of j u now c] by (auto split: prod.splits) (metis snd_conv)
qed simp

lemma jar_ok_SetCookies: "jar_ok j \<Longrightarrow> jar_ok (snd (SetCookies u now cs j))"
  by (simp add: SetCookies_def jar_ok_set_cookies jar_ok_drop)

lemma jar_ok_new: "jar_ok newCookieJar"
  by (simp add: jar_ok_def newCookieJar_def maxSessionCookieBytes_def)

text \<open>Storing a cookie again counts its bytes again: the counted bytes drift away from the stored ones, and a
  session whose cookie is refreshed often enough exceeds the limit with a single cookie.\<close>

definition session_cookie :: cookie where
  "session_cookie = \<lparr>ck_name = ''sid'', ck_domain = ''h'', ck_path = ''/'', ck_max_age = 0, ck_expires = None, ck_text = ''sid=1''\<rparr>"

lemma refresh_counts_twice:
  "(case SetCookies empty_url 0 [session_cookie, session_cookie] newCookieJar of
      (_, j) \<Rightarrow> (jar_bytes j, total_size (jar_records j), length (jar_records j))) = (24, 12, 1)"
  by code_simp

lemma refresh_drifts:
  assumes "map_of (jar_records j) (cookie_key u c) \<noteq> None" "ck_max_age c = 0" "ck_expires c = None"
    and "fst (set_cookie u now c j)"
  shows "jar_bytes (snd (set_cookie u now c j)) = jar_bytes j + int (length (cookie_key u c) + length (ck_text c))"
  using assms by (auto simp: set_cookie_def Let_def split: if_splits)

end
