(* ===== verification/GatewayFlow.thy ===== *)
theory GatewayFlow
  imports GatewayRequest Cookies
begin

section \<open>The HTTP exchanges of the gateway\<close>

text \<open>
  Models \<open>accept\<close>, \<open>send\<close>, \<open>execute\<close> and the upload goroutine of \<^verbatim>\<open>internal/httpgateway/gateway.go\<close> as a state
  machine.  Every critical section and every call that may block is one event, so a run is an
  interleaving of the reader of the tunnel, the uploads, the upstream responses and the closing of the
  gateway.  The JSON codec of the metadata is a parameter; the upstream is the outcomes of its events.

  An exchange that has left the map of the gateway stays in the model until its upload goroutine has
  ended: the goroutine still holds it and may still send a frame.

  The goroutine that serves the tunnel takes a frame, and may then still have to send a wake-up
  (\<open>ex_waking\<close>, \<open>ws_waking\<close>) or to dial the upstream (\<open>gw_dialing\<close>); the others go on meanwhile.
\<close>

datatype upload_state = Up_Idle | Up_Busy "byte list" | Up_Done
datatype download_state = Down_Request | Down_Check | Down_Waiting | Down_Read nat | Down_Done

record exchange =
  ex_request :: out_request
  ex_queue :: "byte list option list"
  ex_upload :: upload_state
  ex_uploaded :: nat
  ex_credit :: nat
  ex_ended :: bool
  ex_wake :: bool
  ex_waking :: bool
  ex_download :: download_state
  ex_cancelled :: bool
  ex_listed :: bool

text \<open>A WebSocket channel; its writer and reader goroutines are the last two fields.\<close>

type_synonym ws_message = "byte \<times> byte list"

datatype ws_writer = Ws_Idle | Ws_Writing ws_message | Ws_Writer_Done
datatype ws_reader = Ws_Receive | Ws_Check ws_message | Ws_Waiting ws_message | Ws_Reader_Done

record socket =
  ws_request :: out_request
  ws_write :: "ws_message list"
  ws_credit :: nat
  ws_wake :: bool
  ws_waking :: bool
  ws_queued :: nat
  ws_type :: byte
  ws_message :: "byte list"
  ws_writer :: ws_writer
  ws_reader :: ws_reader
  ws_closing :: bool
  ws_listed :: bool

record gateway =
  gw_config :: gateway_config
  gw_upstream :: url
  gw_open :: bool
  gw_last :: "32 word"
  gw_exchanges :: "(32 word \<times> exchange) list"
  gw_last_ws :: "32 word"
  gw_sockets :: "(32 word \<times> socket) list"
  gw_jar :: cookie_jar
  gw_dialing :: "(32 word \<times> url \<times> out_request) option"
  gw_sent :: "frame list"

definition new_exchange :: "out_request \<Rightarrow> exchange" where
  "new_exchange r =
     \<lparr>ex_request = r, ex_queue = [], ex_upload = Up_Idle, ex_uploaded = Window, ex_credit = 0, ex_ended = False,
      ex_wake = False, ex_waking = False,
      ex_download = Down_Request, ex_cancelled = False, ex_listed = True\<rparr>"

definition new_gateway :: "gateway_config \<Rightarrow> url \<Rightarrow> gateway" where
  "new_gateway c u =
     \<lparr>gw_config = c, gw_upstream = u, gw_open = True, gw_last = 0, gw_exchanges = [], gw_last_ws = 0,
      gw_sockets = [], gw_jar = newCookieJar, gw_dialing = None, gw_sent = []\<rparr>"

definition bytes_of :: "string \<Rightarrow> byte list" where
  "bytes_of s = map (\<lambda>c. of_nat (of_char c)) s"

text \<open>The upload queue is a channel of this capacity.\<close>

definition upload_capacity :: nat where
  "upload_capacity = 5"

subsection \<open>Sending and closing\<close>

definition update_exchange :: "32 word \<Rightarrow> (exchange \<Rightarrow> exchange) \<Rightarrow> gateway \<Rightarrow> gateway" where
  "update_exchange i f g = g\<lparr>gw_exchanges := modify i f (gw_exchanges g)\<rparr>"

text \<open>\<open>Close\<close>: the context and every listed exchange are cancelled.\<close>

definition close_gateway :: "gateway \<Rightarrow> gateway" where
  "close_gateway g =
     g\<lparr>gw_open := False, gw_exchanges := map (\<lambda>(i, e). (i, e\<lparr>ex_cancelled := True\<rparr>)) (gw_exchanges g)\<rparr>"

text \<open>\<open>send\<close>: a frame that cannot be written closes the connection; \<open>True\<close> when it was sent.\<close>

definition send :: "byte \<Rightarrow> 32 word \<Rightarrow> byte list \<Rightarrow> gateway \<Rightarrow> bool \<times> gateway" where
  "send t i d g =
     (if \<not> gw_open g \<or> Chunk < length d \<or> i = 0 then (False, close_gateway g)
      else (True, g\<lparr>gw_sent := gw_sent g @ [\<lparr>f_type = t, f_id = i, f_data = d\<rparr>]\<rparr>))"

definition listed :: "32 word \<Rightarrow> gateway \<Rightarrow> exchange option" where
  "listed i g =
     (case map_of (gw_exchanges g) i of
        None \<Rightarrow> None
      | Some e \<Rightarrow> if ex_listed e then Some e else None)"

subsection \<open>Accepting a frame\<close>

text \<open>A handler answers the error that ends the tunnel, or none.\<close>

definition accept_start ::
  "(byte list \<Rightarrow> (string \<times> string \<times> header) option) \<Rightarrow> frame \<Rightarrow> gateway \<Rightarrow> string option \<times> gateway" where
  "accept_start decode f g =
     (if f_id f \<le> gw_last g then (Some ''request IDs must increase'', g)
      else (let g = g\<lparr>gw_last := f_id f\<rparr> in
        case decode (f_data f) of
          None \<Rightarrow> (Some ''invalid request metadata'', g)
        | Some m \<Rightarrow>
            (case build_request (gw_config g) (gw_upstream g) m of
               Inl e \<Rightarrow> (Some e, g)
             | Inr r \<Rightarrow>
                 if MaxExchanges \<le> count_if ex_listed (gw_exchanges g) \<or> listed (f_id f) g \<noteq> None then
                   (Some ''exchange limit/duplicate ID'', g)
                 else (let g = g\<lparr>gw_exchanges := AList.update (f_id f) (new_exchange r) (gw_exchanges g)\<rparr> in
                   if url_Parse (url_String (rq_url r)) = None then
                     (Some ''invalid request URL'',
                      update_exchange (f_id f) (\<lambda>e. e\<lparr>ex_upload := Up_Done, ex_download := Down_Done\<rparr>) g)
                   else (case send UploadCredit (f_id f) (Credit Window) g of
                       (ok, g) \<Rightarrow> (if ok then None else Some ''send failed'', g))))))"

definition accept_body :: "frame \<Rightarrow> exchange \<Rightarrow> gateway \<Rightarrow> string option \<times> gateway" where
  "accept_body f e g =
     (if f_data f = [] then (Some ''empty body chunk'', g)
      else if ex_ended e \<or> ex_uploaded e < length (f_data f) then (Some ''upload window exceeded'', g)
      else if length (ex_queue e) < upload_capacity then
        (None, update_exchange (f_id f)
           (\<lambda>e. e\<lparr>ex_uploaded := ex_uploaded e - length (f_data f), ex_queue := ex_queue e @ [Some (f_data f)]\<rparr>) g)
      else (Some ''upload buffer exceeded'',
            update_exchange (f_id f) (\<lambda>e. e\<lparr>ex_uploaded := ex_uploaded e - length (f_data f)\<rparr>) g))"

definition accept_end :: "frame \<Rightarrow> exchange \<Rightarrow> gateway \<Rightarrow> string option \<times> gateway" where
  "accept_end f e g =
     (if f_data f \<noteq> [] then (Some ''invalid end frame'', g)
      else if ex_ended e then (Some ''duplicate end'', g)
      else if length (ex_queue e) < upload_capacity then
        (None, update_exchange (f_id f) (\<lambda>e. e\<lparr>ex_ended := True, ex_queue := ex_queue e @ [None]\<rparr>) g)
      else (Some ''upload buffer exceeded'', update_exchange (f_id f) (\<lambda>e. e\<lparr>ex_ended := True\<rparr>) g))"

definition accept_cancel :: "frame \<Rightarrow> gateway \<Rightarrow> string option \<times> gateway" where
  "accept_cancel f g =
     (if f_data f \<noteq> [] then (Some ''invalid cancel frame'', g)
      else (None, update_exchange (f_id f) (\<lambda>e. e\<lparr>ex_cancelled := True\<rparr>) g))"

text \<open>
  The credit is counted in a critical section of its own; then the goroutine that serves the tunnel wakes the
  response up, which it does before it reads the next frame.
\<close>

definition accept_credit :: "frame \<Rightarrow> exchange \<Rightarrow> gateway \<Rightarrow> string option \<times> gateway" where
  "accept_credit f e g =
     (if length (f_data f) \<noteq> 4 then (Some ''invalid credit'', g)
      else (let n = unat (uint32 (f_data f)) in
        if n < 1 \<or> Window < n \<or> Window < ex_credit e + n then (Some ''download window exceeded'', g)
        else (None, update_exchange (f_id f) (\<lambda>e. e\<lparr>ex_credit := ex_credit e + n, ex_waking := True\<rparr>) g)))"

definition wake_sent :: "32 word \<Rightarrow> gateway \<Rightarrow> gateway" where
  "wake_sent i g =
     (case map_of (gw_exchanges g) i of
        None \<Rightarrow> g
      | Some e \<Rightarrow> if ex_waking e then update_exchange i (\<lambda>e. e\<lparr>ex_wake := True, ex_waking := False\<rparr>) g else g)"

text \<open>The frames of HTTP exchanges.\<close>

definition accept_http ::
  "(byte list \<Rightarrow> (string \<times> string \<times> header) option) \<Rightarrow> frame \<Rightarrow> gateway \<Rightarrow> string option \<times> gateway" where
  "accept_http decode f g =
     (if f_type f = Start then accept_start decode f g
      else (case listed (f_id f) g of
          None \<Rightarrow>
            (if f_id f \<le> gw_last g \<and> f_type f \<in> {Cancel, DownloadCredit, End, Body} then None
             else Some ''unknown exchange'', g)
        | Some e \<Rightarrow>
            if f_type f = Body then accept_body f e g
            else if f_type f = End then accept_end f e g
            else if f_type f = Cancel then accept_cancel f g
            else if f_type f = DownloadCredit then accept_credit f e g
            else (Some ''unknown message type'', g)))"

subsection \<open>The upload goroutine\<close>

text \<open>Take the next chunk of the queue.\<close>

definition upload_take :: "32 word \<Rightarrow> gateway \<Rightarrow> gateway" where
  "upload_take i g =
     (case map_of (gw_exchanges g) i of
        None \<Rightarrow> g
      | Some e \<Rightarrow>
          if ex_upload e \<noteq> Up_Idle then g
          else (case ex_queue e of
              [] \<Rightarrow> g
            | None # q \<Rightarrow> update_exchange i (\<lambda>e. e\<lparr>ex_queue := q, ex_upload := Up_Done\<rparr>) g
            | Some d # q \<Rightarrow> update_exchange i (\<lambda>e. e\<lparr>ex_queue := q, ex_upload := Up_Busy d\<rparr>) g))"

text \<open>The request body took the chunk, or its reader is gone.\<close>

definition upload_written :: "32 word \<Rightarrow> bool \<Rightarrow> gateway \<Rightarrow> gateway" where
  "upload_written i ok g =
     (case map_of (gw_exchanges g) i of
        None \<Rightarrow> g
      | Some e \<Rightarrow>
          (case ex_upload e of
             Up_Busy d \<Rightarrow>
               if \<not> ok then update_exchange i (\<lambda>e. e\<lparr>ex_upload := Up_Done\<rparr>) g
               else (case send UploadCredit i (Credit (length d))
                       (update_exchange i (\<lambda>e. e\<lparr>ex_uploaded := ex_uploaded e + length d, ex_upload := Up_Idle\<rparr>) g) of
                   (True, g) \<Rightarrow> g
                 | (False, g) \<Rightarrow> update_exchange i (\<lambda>e. e\<lparr>ex_upload := Up_Done\<rparr>) g)
           | _ \<Rightarrow> g))"

definition upload_stop :: "32 word \<Rightarrow> gateway \<Rightarrow> gateway" where
  "upload_stop i g =
     (case map_of (gw_exchanges g) i of
        None \<Rightarrow> g
      | Some e \<Rightarrow>
          if ex_upload e = Up_Idle \<and> ex_cancelled e then update_exchange i (\<lambda>e. e\<lparr>ex_upload := Up_Done\<rparr>) g else g)"

subsection \<open>The response goroutine\<close>

text \<open>The deferred end of \<open>execute\<close>.\<close>

definition exchange_done :: "32 word \<Rightarrow> gateway \<Rightarrow> gateway" where
  "exchange_done i g =
     update_exchange i (\<lambda>e. e\<lparr>ex_cancelled := True, ex_listed := False, ex_download := Down_Done\<rparr>) g"

definition send_last :: "byte \<Rightarrow> 32 word \<Rightarrow> byte list \<Rightarrow> gateway \<Rightarrow> gateway" where
  "send_last t i d g = exchange_done i (snd (send t i d g))"

text \<open>The upstream's answer to a request: a failure, or a status, headers and cookies.\<close>

datatype upstream_answer = Request_Failed | Answered nat header "cookie list"

definition response ::
  "(nat \<times> header \<Rightarrow> byte list) \<Rightarrow> 32 word \<Rightarrow> int \<Rightarrow> upstream_answer \<Rightarrow> gateway \<Rightarrow> gateway" where
  "response encode i now a g =
     (case map_of (gw_exchanges g) i of
        None \<Rightarrow> g
      | Some e \<Rightarrow>
          if ex_download e \<noteq> Down_Request then g
          else (case a of
              Request_Failed \<Rightarrow> send_last ResponseError i (bytes_of ''upstream request failed'') g
            | Answered status hdr cookies \<Rightarrow>
                (let u = rq_url (ex_request e); g = g\<lparr>gw_jar := snd (SetCookies u now cookies (gw_jar g))\<rparr> in
                 if exceeded (gw_jar g) then
                   send_last ResponseError i (bytes_of ''upstream session cookie limit exceeded'') g
                 else (case build_response (gw_config g) (gw_upstream g) u (status, hdr) of
                     Inl err \<Rightarrow> send_last ResponseError i (bytes_of err) g
                   | Inr r \<Rightarrow>
                       if MaxMetadata < length (encode r) then
                         send_last ResponseError i (bytes_of ''response metadata too large'') g
                       else (case send ResponseStart i (encode r) g of
                           (False, g) \<Rightarrow> exchange_done i g
                         | (True, g) \<Rightarrow> update_exchange i (\<lambda>e. e\<lparr>ex_download := Down_Check\<rparr>) g)))))"

text \<open>One turn of the loop that waits for credit.\<close>

definition download_check :: "32 word \<Rightarrow> gateway \<Rightarrow> gateway" where
  "download_check i g =
     (case map_of (gw_exchanges g) i of
        None \<Rightarrow> g
      | Some e \<Rightarrow>
          if ex_download e \<noteq> Down_Check then g
          else update_exchange i
            (\<lambda>e. e\<lparr>ex_download := (if ex_credit e = 0 then Down_Waiting else Down_Read (min (ex_credit e) Chunk))\<rparr>) g)"

definition download_wake :: "32 word \<Rightarrow> gateway \<Rightarrow> gateway" where
  "download_wake i g =
     (case map_of (gw_exchanges g) i of
        None \<Rightarrow> g
      | Some e \<Rightarrow>
          if ex_download e \<noteq> Down_Waiting then g
          else if ex_wake e then update_exchange i (\<lambda>e. e\<lparr>ex_wake := False, ex_download := Down_Check\<rparr>) g
          else if ex_cancelled e then exchange_done i g
          else g)"

text \<open>What follows the data of a read: more of it, the end of the body, or an error.\<close>

datatype read_end = More | Body_End | Body_Error

definition download_read :: "32 word \<Rightarrow> byte list \<Rightarrow> read_end \<Rightarrow> gateway \<Rightarrow> gateway" where
  "download_read i d r g =
     (case map_of (gw_exchanges g) i of
        None \<Rightarrow> g
      | Some e \<Rightarrow>
          (case ex_download e of
             Down_Read allowed \<Rightarrow>
               if allowed < length d then g
               else (let g = update_exchange i (\<lambda>e. e\<lparr>ex_credit := ex_credit e - length d, ex_download := Down_Check\<rparr>) g in
                 case (if d = [] then (True, g) else send ResponseBody i d g) of
                   (False, g) \<Rightarrow> exchange_done i g
                 | (True, g) \<Rightarrow>
                     (case r of
                        More \<Rightarrow> g
                      | Body_End \<Rightarrow> send_last ResponseEnd i [] g
                      | Body_Error \<Rightarrow> send_last ResponseError i (bytes_of ''upstream response interrupted'') g))
           | _ \<Rightarrow> g))"

end
