(* ===== verification/GatewaySockets.thy ===== *)
theory GatewaySockets
  imports GatewayFlow
begin

section \<open>The WebSocket channels of the gateway\<close>

text \<open>
  Models \<^verbatim>\<open>internal/httpgateway/websocket.go\<close>.  The WebSocket library is the outcomes of its calls: whether
  a dial succeeds and with which subprotocol and cookies, what a read returns, whether a write succeeds.
  The JSON codecs are parameters.  A channel that was removed stays in the model until its goroutines end.
\<close>

text \<open>The message types of the library.\<close>

definition message_text :: byte where "message_text = 1"
definition message_binary :: byte where "message_binary = 2"

definition write_capacity :: nat where "write_capacity = 4"

definition new_socket :: "out_request \<Rightarrow> socket" where
  "new_socket r =
     \<lparr>ws_request = r, ws_write = [], ws_credit = 0, ws_wake = False, ws_waking = False, ws_queued = 0, ws_type = 0, ws_message = [],
      ws_writer = Ws_Idle, ws_reader = Ws_Receive, ws_closing = False, ws_listed = True\<rparr>"

definition update_socket :: "32 word \<Rightarrow> (socket \<Rightarrow> socket) \<Rightarrow> gateway \<Rightarrow> gateway" where
  "update_socket i f g = g\<lparr>gw_sockets := modify i f (gw_sockets g)\<rparr>"

definition removeSocket :: "32 word \<Rightarrow> gateway \<Rightarrow> gateway" where
  "removeSocket i g = update_socket i (\<lambda>w. w\<lparr>ws_listed := False\<rparr>) g"

definition listed_socket :: "32 word \<Rightarrow> gateway \<Rightarrow> socket option" where
  "listed_socket i g =
     (case map_of (gw_sockets g) i of
        None \<Rightarrow> None
      | Some w \<Rightarrow> if ws_listed w then Some w else None)"

subsection \<open>Opening a channel\<close>

text \<open>A dial: the subprotocol when it succeeded, and the cookies of the answer when there was one.\<close>

type_synonym dial = "string option \<times> cookie list option"

definition channel_id :: "32 word \<Rightarrow> 32 word" where
  "channel_id i = i AND NOT WebSocketIDMask"

definition valid_protocol :: "string \<Rightarrow> bool" where
  "valid_protocol p = (0 < length p \<and> length p \<le> 128 \<and> validHeaderToken p)"

text \<open>What follows a dial of a channel: the error, when there is one, ends the tunnel.\<close>

definition ws_dial ::
  "(string \<Rightarrow> byte list) \<Rightarrow> int \<Rightarrow> dial \<Rightarrow> 32 word \<Rightarrow> url \<Rightarrow> out_request \<Rightarrow> gateway \<Rightarrow> string option \<times> gateway" where
  "ws_dial encode now d i u r g =
     (let g' = (case snd d of None \<Rightarrow> g | Some cs \<Rightarrow> g\<lparr>gw_jar := snd (SetCookies u now cs (gw_jar g))\<rparr>) in
      case fst d of
        None \<Rightarrow> (None, snd (send WebSocketError i (bytes_of ''upstream WebSocket connection failed'') g'))
      | Some protocol \<Rightarrow>
          if MaxWebSockets \<le> count_if ws_listed (gw_sockets g') \<or> listed_socket i g' \<noteq> None then
            (Some ''WebSocket limit or duplicate ID'', g')
          else
            (let g' = g'\<lparr>gw_sockets := AList.update i (new_socket r) (gw_sockets g')\<rparr>
             in case send WebSocketOpened i (encode protocol) g' of
                  (True, g') \<Rightarrow> (None, g')
                | (False, g') \<Rightarrow> (Some ''send failed'', removeSocket i
                    (update_socket i (\<lambda>w. w\<lparr>ws_writer := Ws_Writer_Done, ws_reader := Ws_Reader_Done\<rparr>) g'))))"

definition ws_dialed :: "(string \<Rightarrow> byte list) \<Rightarrow> int \<Rightarrow> dial \<Rightarrow> gateway \<Rightarrow> gateway" where
  "ws_dialed encode now d g =
     (case gw_dialing g of
        None \<Rightarrow> g
      | Some (i, u, r) \<Rightarrow>
          (case ws_dial encode now d i u r (g\<lparr>gw_dialing := None\<rparr>) of
             (None, g) \<Rightarrow> g
           | (Some _, g) \<Rightarrow> close_gateway g))"

text \<open>The checks of the open, up to the dial, which takes the request with the cookies of this moment.\<close>

definition ws_open ::
  "(byte list \<Rightarrow> (string \<times> string list) option) \<Rightarrow> string list \<Rightarrow> frame \<Rightarrow> gateway \<Rightarrow> string option \<times> gateway" where
  "ws_open decode cookies f g =
     (if listed_socket (f_id f) g \<noteq> None \<or> channel_id (f_id f) = 0 \<or> MaxMetadata < length (f_data f) then
        (Some ''invalid WebSocket open'', g)
      else if channel_id (f_id f) \<le> gw_last_ws g then (Some ''WebSocket channel IDs must increase'', g)
      else (let g' = g\<lparr>gw_last_ws := channel_id (f_id f)\<rparr> in
        if MaxWebSockets \<le> count_if ws_listed (gw_sockets g') then
          (None, snd (send WebSocketError (f_id f) (bytes_of ''WebSocket gateway limit reached'') g'))
        else (case decode (f_data f) of
            None \<Rightarrow> (Some ''invalid WebSocket metadata'', g')
          | Some (p, protocols) \<Rightarrow>
              if 16 < length protocols then (Some ''invalid WebSocket metadata'', g')
              else if \<not> list_all valid_protocol protocols then (Some ''invalid WebSocket subprotocol'', g')
              else (case mapURL (gw_config g') (gw_upstream g') p of
                  Inl _ \<Rightarrow>
                    (None, snd (send WebSocketError (f_id f) (bytes_of ''WebSocket path outside publication'') g'))
                | Inr u \<Rightarrow>
                    (None, g'\<lparr>gw_dialing :=
                       Some (f_id f, u, websocket_request (gw_config g') (gw_upstream g') cookies u)\<rparr>)))))"

subsection \<open>Frames of an open channel\<close>

text \<open>Give up a channel with an error.\<close>

definition ws_fail :: "32 word \<Rightarrow> string \<Rightarrow> gateway \<Rightarrow> gateway" where
  "ws_fail i err g = removeSocket i (snd (send WebSocketError i (bytes_of err) g))"

definition ws_enqueue :: "32 word \<Rightarrow> ws_message \<Rightarrow> socket \<Rightarrow> gateway \<Rightarrow> gateway" where
  "ws_enqueue i m w g =
     (if MaxWebSocketMessage < ws_queued w + length (snd m) \<or> write_capacity \<le> length (ws_write w) then
        ws_fail i ''WebSocket send queue exceeded'' g
      else update_socket i (\<lambda>w. w\<lparr>ws_queued := ws_queued w + length (snd m), ws_write := ws_write w @ [m]\<rparr>) g)"

definition ws_chunk :: "frame \<Rightarrow> socket \<Rightarrow> gateway \<Rightarrow> string option \<times> gateway" where
  "ws_chunk f w g =
     (if length (f_data f) < 2 \<or> Chunk < length (f_data f) then (Some ''invalid WebSocket chunk'', g)
      else (let kind = f_data f ! 0; final = f_data f ! 1; body = drop 2 (f_data f) in
        if kind \<noteq> message_text \<and> kind \<noteq> message_binary then (Some ''invalid WebSocket message type'', g)
        else if 1 < final then (Some ''invalid WebSocket chunk flags'', g)
        else if ws_message w \<noteq> [] \<and> ws_type w \<noteq> kind then (Some ''mixed WebSocket message types'', g)
        else if MaxWebSocketMessage < length (ws_message w) + length body then
          (None, ws_fail (f_id f) ''WebSocket message exceeds limit''
             (update_socket (f_id f) (\<lambda>w. w\<lparr>ws_type := kind, ws_message := []\<rparr>) g))
        else if final = 1 then
          (None, ws_enqueue (f_id f) (kind, ws_message w @ body) w
             (update_socket (f_id f) (\<lambda>w. w\<lparr>ws_type := kind, ws_message := []\<rparr>) g))
        else (None, update_socket (f_id f) (\<lambda>w. w\<lparr>ws_type := kind, ws_message := ws_message w @ body\<rparr>) g)))"

definition ws_accept_credit :: "frame \<Rightarrow> socket \<Rightarrow> gateway \<Rightarrow> string option \<times> gateway" where
  "ws_accept_credit f w g =
     (if length (f_data f) \<noteq> 4 then (Some ''invalid WebSocket credit'', g)
      else (let n = unat (uint32 (f_data f)) in
        if n < 1 \<or> WebSocketWindow < n \<or> WebSocketWindow < ws_credit w + n then (Some ''WebSocket credit exceeded'', g)
        else (None, update_socket (f_id f) (\<lambda>w. w\<lparr>ws_credit := ws_credit w + n, ws_waking := True\<rparr>) g)))"

definition ws_wake_sent :: "32 word \<Rightarrow> gateway \<Rightarrow> gateway" where
  "ws_wake_sent i g =
     (case map_of (gw_sockets g) i of
        None \<Rightarrow> g
      | Some w \<Rightarrow> if ws_waking w then update_socket i (\<lambda>w. w\<lparr>ws_wake := True, ws_waking := False\<rparr>) g else g)"

definition ws_accept_close ::
  "(byte list \<Rightarrow> (int \<times> string) option) \<Rightarrow> frame \<Rightarrow> gateway \<Rightarrow> string option \<times> gateway" where
  "ws_accept_close decode f g =
     (case decode (f_data f) of
        None \<Rightarrow> (Some ''invalid WebSocket close'', g)
      | Some (code, reason) \<Rightarrow>
          if 128 < length (f_data f) \<or> code \<noteq> 0 \<and> code \<noteq> 1000 \<and> (code < 3000 \<or> 4999 < code) \<or> 123 < length reason then
            (Some ''invalid WebSocket close'', g)
          else (None, update_socket (f_id f) (\<lambda>w. w\<lparr>ws_closing := True\<rparr>) g))"

text \<open>The codecs of the tunnel.\<close>

record codecs =
  decode_request :: "byte list \<Rightarrow> (string \<times> string \<times> header) option"
  encode_response :: "nat \<times> header \<Rightarrow> byte list"
  decode_open :: "byte list \<Rightarrow> (string \<times> string list) option"
  encode_opened :: "string \<Rightarrow> byte list"
  decode_close :: "byte list \<Rightarrow> (int \<times> string) option"
  encode_closed :: "int \<times> string \<times> bool \<Rightarrow> byte list"

definition acceptWebSocket ::
  "codecs \<Rightarrow> string list \<Rightarrow> frame \<Rightarrow> gateway \<Rightarrow> string option \<times> gateway" where
  "acceptWebSocket k cookies f g =
     (if f_type f = WebSocketOpen then ws_open (decode_open k) cookies f g
      else (case listed_socket (f_id f) g of
          None \<Rightarrow> (if f_type f = WebSocketClose then None else Some ''unknown WebSocket channel'', g)
        | Some w \<Rightarrow>
            if f_type f = WebSocketText \<or> f_type f = WebSocketBinary then ws_chunk f w g
            else if f_type f = WebSocketCredit then ws_accept_credit f w g
            else if f_type f = WebSocketClose then ws_accept_close (decode_close k) f g
            else (Some ''unknown WebSocket tunnel frame'', g)))"

subsection \<open>The writer goroutine\<close>

definition ws_take :: "32 word \<Rightarrow> gateway \<Rightarrow> gateway" where
  "ws_take i g =
     (case map_of (gw_sockets g) i of
        None \<Rightarrow> g
      | Some w \<Rightarrow>
          if ws_writer w \<noteq> Ws_Idle then g
          else (case ws_write w of
              [] \<Rightarrow> g
            | m # q \<Rightarrow> update_socket i (\<lambda>w. w\<lparr>ws_write := q, ws_writer := Ws_Writing m\<rparr>) g))"

definition ws_written :: "32 word \<Rightarrow> bool \<Rightarrow> gateway \<Rightarrow> gateway" where
  "ws_written i ok g =
     (case map_of (gw_sockets g) i of
        None \<Rightarrow> g
      | Some w \<Rightarrow>
          (case ws_writer w of
             Ws_Writing m \<Rightarrow>
               (let g = update_socket i (\<lambda>w. w\<lparr>ws_queued := ws_queued w - length (snd m),
                            ws_writer := (if ok then Ws_Idle else Ws_Writer_Done)\<rparr>) g
                in if ok then g else ws_fail i ''upstream WebSocket write failed'' g)
           | _ \<Rightarrow> g))"

definition ws_writer_stop :: "32 word \<Rightarrow> gateway \<Rightarrow> gateway" where
  "ws_writer_stop i g =
     (case map_of (gw_sockets g) i of
        None \<Rightarrow> g
      | Some w \<Rightarrow>
          if ws_writer w = Ws_Idle \<and> \<not> gw_open g then
            removeSocket i (update_socket i (\<lambda>w. w\<lparr>ws_writer := Ws_Writer_Done\<rparr>) g)
          else g)"

definition ws_close_timeout :: "32 word \<Rightarrow> gateway \<Rightarrow> gateway" where
  "ws_close_timeout i g =
     (case map_of (gw_sockets g) i of
        None \<Rightarrow> g
      | Some w \<Rightarrow> if ws_closing w then removeSocket i g else g)"

subsection \<open>The reader goroutine\<close>

definition ws_reader_done :: "32 word \<Rightarrow> gateway \<Rightarrow> gateway" where
  "ws_reader_done i g = removeSocket i (update_socket i (\<lambda>w. w\<lparr>ws_reader := Ws_Reader_Done\<rparr>) g)"

definition frame_kind :: "byte \<Rightarrow> byte" where
  "frame_kind kind = (if kind = message_text then WebSocketText else WebSocketBinary)"

text \<open>What a read of the library returns: the end of the connection, or a message.\<close>

datatype ws_input = Ws_Closed_By "int \<times> string \<times> bool" | Ws_Message ws_message

definition ws_received :: "codecs \<Rightarrow> 32 word \<Rightarrow> ws_input \<Rightarrow> gateway \<Rightarrow> gateway" where
  "ws_received k i r g =
     (case map_of (gw_sockets g) i of
        None \<Rightarrow> g
      | Some w \<Rightarrow>
          if ws_reader w \<noteq> Ws_Receive then g
          else (case r of
              Ws_Closed_By c \<Rightarrow> ws_reader_done i (snd (send WebSocketClosed i (encode_closed k c) g))
            | Ws_Message (kind, m) \<Rightarrow>
                if MaxWebSocketMessage < length m then
                  ws_reader_done i (snd (send WebSocketError i (bytes_of ''upstream WebSocket message exceeds limit'') g))
                else if m = [] then
                  (case send (frame_kind kind) i [kind, 1] g of
                     (True, g) \<Rightarrow> g
                   | (False, g) \<Rightarrow> ws_reader_done i g)
                else update_socket i (\<lambda>w. w\<lparr>ws_reader := Ws_Check (kind, m)\<rparr>) g))"

definition ws_check :: "32 word \<Rightarrow> gateway \<Rightarrow> gateway" where
  "ws_check i g =
     (case map_of (gw_sockets g) i of
        None \<Rightarrow> g
      | Some w \<Rightarrow>
          (case ws_reader w of
             Ws_Check (kind, m) \<Rightarrow>
               (let n = min (ws_credit w) (min (length m) (Chunk - 2)) in
                if n = 0 then update_socket i (\<lambda>w. w\<lparr>ws_reader := Ws_Waiting (kind, m)\<rparr>) g
                else (case send (frame_kind kind) i ([kind, if n = length m then 1 else 0] @ take n m)
                          (update_socket i (\<lambda>w. w\<lparr>ws_credit := ws_credit w - n\<rparr>) g) of
                    (False, g) \<Rightarrow> ws_reader_done i g
                  | (True, g) \<Rightarrow> update_socket i
                      (\<lambda>w. w\<lparr>ws_reader := (if n = length m then Ws_Receive else Ws_Check (kind, drop n m))\<rparr>) g))
           | _ \<Rightarrow> g))"

definition ws_wait :: "32 word \<Rightarrow> gateway \<Rightarrow> gateway" where
  "ws_wait i g =
     (case map_of (gw_sockets g) i of
        None \<Rightarrow> g
      | Some w \<Rightarrow>
          (case ws_reader w of
             Ws_Waiting m \<Rightarrow>
               if ws_wake w then update_socket i (\<lambda>w. w\<lparr>ws_wake := False, ws_reader := Ws_Check m\<rparr>) g
               else if \<not> gw_open g then ws_reader_done i g
               else g
           | _ \<Rightarrow> g))"

end
