(* ===== verification/Tunnel.thy ===== *)
theory Tunnel
  imports GatewaySockets
begin

section \<open>The gateway as a whole\<close>

text \<open>
  The dispatch of \<open>accept\<close> and the loop of \<open>Serve\<close> (\<^verbatim>\<open>internal/httpgateway/gateway.go\<close>) over the exchanges and the
  channels, the events of all its goroutines, and what holds of every run of them.
\<close>

definition accept ::
  "codecs \<Rightarrow> string list \<Rightarrow> frame \<Rightarrow> gateway \<Rightarrow> string option \<times> gateway" where
  "accept k cookies f g =
     (if f_id f AND WebSocketIDMask \<noteq> 0 then acceptWebSocket k cookies f g
      else accept_http (decode_request k) f g)"

text \<open>One turn of \<open>Serve\<close>, once what the last frame asked for is done: an error of a frame ends the tunnel.\<close>

definition serving :: "gateway \<Rightarrow> bool" where
  "serving g =
     (gw_dialing g \<noteq> None \<or> list_ex (\<lambda>x. ex_waking (snd x)) (gw_exchanges g)
      \<or> list_ex (\<lambda>x. ws_waking (snd x)) (gw_sockets g))"

definition Serve ::
  "codecs \<Rightarrow> string list \<Rightarrow> frame \<Rightarrow> gateway \<Rightarrow> gateway" where
  "Serve k cookies f g =
     (if \<not> gw_open g \<or> serving g then g
      else (case accept k cookies f g of
          (None, g) \<Rightarrow> g
        | (Some _, g) \<Rightarrow> close_gateway g))"

datatype tunnel_event =
    Tunnel_Frame "string list" frame
  | Wake_Sent "32 word" | Ws_Wake_Sent "32 word" | Ws_Dialed int dial
  | Tunnel_Closed
  | Upload_Take "32 word" | Upload_Written "32 word" bool | Upload_Stop "32 word"
  | Upstream_Response "32 word" int upstream_answer
  | Download_Check "32 word" | Download_Wake "32 word" | Download_Read "32 word" "byte list" read_end
  | Ws_Take "32 word" | Ws_Written "32 word" bool | Ws_Writer_Stop "32 word" | Ws_Close_Timeout "32 word"
  | Ws_Received "32 word" ws_input | Ws_Check_Credit "32 word" | Ws_Wait "32 word"

fun tunnel_step :: "codecs \<Rightarrow> tunnel_event \<Rightarrow> gateway \<Rightarrow> gateway" where
  "tunnel_step k (Tunnel_Frame cookies f) g = Serve k cookies f g"
| "tunnel_step k (Wake_Sent i) g = wake_sent i g"
| "tunnel_step k (Ws_Wake_Sent i) g = ws_wake_sent i g"
| "tunnel_step k (Ws_Dialed now d) g = ws_dialed (encode_opened k) now d g"
| "tunnel_step k Tunnel_Closed g = close_gateway g"
| "tunnel_step k (Upload_Take i) g = upload_take i g"
| "tunnel_step k (Upload_Written i ok) g = upload_written i ok g"
| "tunnel_step k (Upload_Stop i) g = upload_stop i g"
| "tunnel_step k (Upstream_Response i now a) g = response (encode_response k) i now a g"
| "tunnel_step k (Download_Check i) g = download_check i g"
| "tunnel_step k (Download_Wake i) g = download_wake i g"
| "tunnel_step k (Download_Read i d r) g = download_read i d r g"
| "tunnel_step k (Ws_Take i) g = ws_take i g"
| "tunnel_step k (Ws_Written i ok) g = ws_written i ok g"
| "tunnel_step k (Ws_Writer_Stop i) g = ws_writer_stop i g"
| "tunnel_step k (Ws_Close_Timeout i) g = ws_close_timeout i g"
| "tunnel_step k (Ws_Received i r) g = ws_received k i r g"
| "tunnel_step k (Ws_Check_Credit i) g = ws_check i g"
| "tunnel_step k (Ws_Wait i) g = ws_wait i g"

subsection \<open>Bounds of one exchange and of one channel\<close>

definition queued_bytes :: "byte list option list \<Rightarrow> nat" where
  "queued_bytes q = (\<Sum>d\<leftarrow>q. case d of None \<Rightarrow> 0 | Some d \<Rightarrow> length d)"

definition busy_bytes :: "upload_state \<Rightarrow> nat" where
  "busy_bytes u = (case u of Up_Busy d \<Rightarrow> length d | _ \<Rightarrow> 0)"

text \<open>
  What an exchange buffers and what it may still receive is at most a window; it reads from the upstream no
  more than the browser has room for; and it does not wait while there is credit, unless a wake-up is there or
  being sent.
\<close>

definition exchange_ok :: "exchange \<Rightarrow> bool" where
  "exchange_ok e =
     (ex_uploaded e + queued_bytes (ex_queue e) + busy_bytes (ex_upload e) \<le> Window
      \<and> length (ex_queue e) \<le> upload_capacity
      \<and> ex_credit e \<le> Window
      \<and> (case ex_download e of
           Down_Read n \<Rightarrow> 0 < n \<and> n \<le> ex_credit e \<and> n \<le> Chunk
         | Down_Waiting \<Rightarrow> 0 < ex_credit e \<longrightarrow> ex_wake e \<or> ex_waking e
         | _ \<Rightarrow> True))"

definition message_bytes :: "ws_message list \<Rightarrow> nat" where
  "message_bytes q = (\<Sum>m\<leftarrow>q. length (snd m))"

definition writing_bytes :: "ws_writer \<Rightarrow> nat" where
  "writing_bytes w = (case w of Ws_Writing m \<Rightarrow> length (snd m) | _ \<Rightarrow> 0)"

definition socket_ok :: "socket \<Rightarrow> bool" where
  "socket_ok w =
     (message_bytes (ws_write w) + writing_bytes (ws_writer w) \<le> ws_queued w
      \<and> ws_queued w \<le> MaxWebSocketMessage \<and> length (ws_write w) \<le> write_capacity
      \<and> length (ws_message w) \<le> MaxWebSocketMessage
      \<and> ws_credit w \<le> WebSocketWindow
      \<and> (case ws_reader w of
           Ws_Check m \<Rightarrow> snd m \<noteq> []
         | Ws_Waiting m \<Rightarrow> snd m \<noteq> [] \<and> (0 < ws_credit w \<longrightarrow> ws_wake w \<or> ws_waking w)
         | _ \<Rightarrow> True))"

definition frame_ok :: "frame \<Rightarrow> bool" where
  "frame_ok f = (length (f_data f) \<le> Chunk \<and> f_id f \<noteq> 0)"

definition tunnel_ok :: "gateway \<Rightarrow> bool" where
  "tunnel_ok g =
     (keys_distinct (gw_exchanges g) \<and> list_all (\<lambda>x. exchange_ok (snd x)) (gw_exchanges g)
      \<and> count_if ex_listed (gw_exchanges g) \<le> MaxExchanges
      \<and> keys_distinct (gw_sockets g) \<and> list_all (\<lambda>x. socket_ok (snd x)) (gw_sockets g)
      \<and> count_if ws_listed (gw_sockets g) \<le> MaxWebSockets
      \<and> jar_ok (gw_jar g) \<and> list_all frame_ok (gw_sent g))"

lemma tunnel_ok_new: "tunnel_ok (new_gateway c u)"
  by (simp add: tunnel_ok_def new_gateway_def jar_ok_new)

subsection \<open>The building blocks keep the bounds\<close>

lemma list_all_modify:
  "list_all (\<lambda>x. P (snd x)) t \<Longrightarrow> (\<And>v. (k, v) \<in> set t \<Longrightarrow> P v \<Longrightarrow> P (f v)) \<Longrightarrow> list_all (\<lambda>x. P (snd x)) (modify k f t)"
  by (induction t) (auto simp: modify_Cons)

lemma tunnel_ok_exchange:
  assumes "tunnel_ok g" "map_of (gw_exchanges g) i = Some e" "exchange_ok e \<Longrightarrow> exchange_ok (f e)"
    and "\<And>x. ex_listed (f x) \<Longrightarrow> ex_listed x"
  shows "tunnel_ok (update_exchange i f g)"
proof -
  have "v = e" if "(i, v) \<in> set (gw_exchanges g)" for v
    using that assms(1,2) by (simp add: tunnel_ok_def)
  then have "list_all (\<lambda>x. exchange_ok (snd x)) (modify i f (gw_exchanges g))"
    using assms(1,3) by (intro list_all_modify) (auto simp: tunnel_ok_def)
  moreover have "count_if ex_listed (modify i f (gw_exchanges g)) \<le> MaxExchanges"
    using assms(1) count_if_modify_le [of ex_listed f i "gw_exchanges g"] assms(4) by (simp add: tunnel_ok_def)
  ultimately show ?thesis using assms(1) by (simp add: tunnel_ok_def update_exchange_def)
qed

lemma tunnel_ok_every_exchange:
  assumes "tunnel_ok g" "\<And>x. exchange_ok x \<Longrightarrow> exchange_ok (f x)" "\<And>x. ex_listed (f x) \<Longrightarrow> ex_listed x"
  shows "tunnel_ok (update_exchange i f g)"
proof -
  have "list_all (\<lambda>x. exchange_ok (snd x)) (modify i f (gw_exchanges g))"
    using assms(1,2) by (intro list_all_modify) (auto simp: tunnel_ok_def)
  moreover have "count_if ex_listed (modify i f (gw_exchanges g)) \<le> MaxExchanges"
    using assms(1) count_if_modify_le [of ex_listed f i "gw_exchanges g"] assms(3) by (simp add: tunnel_ok_def)
  ultimately show ?thesis using assms(1) by (simp add: tunnel_ok_def update_exchange_def)
qed

lemma tunnel_ok_socket:
  assumes "tunnel_ok g" "map_of (gw_sockets g) i = Some w" "socket_ok w \<Longrightarrow> socket_ok (f w)"
    and "\<And>x. ws_listed (f x) \<Longrightarrow> ws_listed x"
  shows "tunnel_ok (update_socket i f g)"
proof -
  have "v = w" if "(i, v) \<in> set (gw_sockets g)" for v
    using that assms(1,2) by (simp add: tunnel_ok_def)
  then have "list_all (\<lambda>x. socket_ok (snd x)) (modify i f (gw_sockets g))"
    using assms(1,3) by (intro list_all_modify) (auto simp: tunnel_ok_def)
  moreover have "count_if ws_listed (modify i f (gw_sockets g)) \<le> MaxWebSockets"
    using assms(1) count_if_modify_le [of ws_listed f i "gw_sockets g"] assms(4) by (simp add: tunnel_ok_def)
  ultimately show ?thesis using assms(1) by (simp add: tunnel_ok_def update_socket_def)
qed

lemma tunnel_ok_every_socket:
  assumes "tunnel_ok g" "\<And>x. socket_ok x \<Longrightarrow> socket_ok (f x)" "\<And>x. ws_listed (f x) \<Longrightarrow> ws_listed x"
  shows "tunnel_ok (update_socket i f g)"
proof -
  have "list_all (\<lambda>x. socket_ok (snd x)) (modify i f (gw_sockets g))"
    using assms(1,2) by (intro list_all_modify) (auto simp: tunnel_ok_def)
  moreover have "count_if ws_listed (modify i f (gw_sockets g)) \<le> MaxWebSockets"
    using assms(1) count_if_modify_le [of ws_listed f i "gw_sockets g"] assms(3) by (simp add: tunnel_ok_def)
  ultimately show ?thesis using assms(1) by (simp add: tunnel_ok_def update_socket_def)
qed

lemma exchange_ok_cancel [simp]: "exchange_ok (e\<lparr>ex_cancelled := b\<rparr>) = exchange_ok e"
  by (cases "ex_download e") (simp_all add: exchange_ok_def)

lemma tunnel_ok_close: "tunnel_ok g \<Longrightarrow> tunnel_ok (close_gateway g)"
proof -
  assume g: "tunnel_ok g"
  let ?f = "\<lambda>(i :: 32 word, e :: exchange). (i, e\<lparr>ex_cancelled := True\<rparr>)"
  have "fst \<circ> ?f = fst" by auto
  moreover have "count_if ex_listed (map ?f t) = count_if ex_listed t" for t
    by (induction t) (auto simp: count_if_Cons)
  moreover have "list_all (\<lambda>x. exchange_ok (snd x)) (map ?f t) = list_all (\<lambda>x. exchange_ok (snd x)) t" for t
    by (induction t) auto
  ultimately show ?thesis using g by (simp add: tunnel_ok_def close_gateway_def)
qed

lemma tunnel_ok_send: "tunnel_ok g \<Longrightarrow> send t i d g = (b, g') \<Longrightarrow> tunnel_ok g'"
  using tunnel_ok_close [of g] by (auto simp: send_def tunnel_ok_def frame_ok_def split: if_splits)

lemma tunnel_ok_snd_send: "tunnel_ok g \<Longrightarrow> tunnel_ok (snd (send t i d g))"
  using tunnel_ok_send by (metis prod.collapse)

lemma tunnel_ok_jar: "tunnel_ok g \<Longrightarrow> tunnel_ok (g\<lparr>gw_jar := snd (SetCookies u now cs (gw_jar g))\<rparr>)"
  by (simp add: tunnel_ok_def jar_ok_SetCookies)

subsection \<open>Every event keeps the bounds\<close>

lemmas exchange_cases = download_state.splits upload_state.splits

lemma tunnel_ok_exchange_done [intro]: "tunnel_ok g \<Longrightarrow> tunnel_ok (exchange_done i g)"
  unfolding exchange_done_def
  by (rule tunnel_ok_every_exchange) (auto simp: exchange_ok_def split: exchange_cases)

lemma tunnel_ok_send_last [intro]: "tunnel_ok g \<Longrightarrow> tunnel_ok (send_last t i d g)"
  unfolding send_last_def by (intro tunnel_ok_exchange_done tunnel_ok_snd_send)

lemma tunnel_ok_removeSocket [intro]: "tunnel_ok g \<Longrightarrow> tunnel_ok (removeSocket i g)"
  unfolding removeSocket_def
  by (rule tunnel_ok_every_socket) (auto simp: socket_ok_def split: ws_reader.splits)

lemma tunnel_ok_ws_fail [intro]: "tunnel_ok g \<Longrightarrow> tunnel_ok (ws_fail i e g)"
  unfolding ws_fail_def by (intro tunnel_ok_removeSocket tunnel_ok_snd_send)

lemma tunnel_ok_ws_reader_done [intro]: "tunnel_ok g \<Longrightarrow> tunnel_ok (ws_reader_done i g)"
  unfolding ws_reader_done_def
  by (intro tunnel_ok_removeSocket tunnel_ok_every_socket) (auto simp: socket_ok_def split: ws_reader.splits)

lemma listed_Some: "listed i g = Some e \<Longrightarrow> map_of (gw_exchanges g) i = Some e"
  by (auto simp: listed_def split: option.splits if_splits)

lemma listed_socket_Some: "listed_socket i g = Some w \<Longrightarrow> map_of (gw_sockets g) i = Some w"
  by (auto simp: listed_socket_def split: option.splits if_splits)

lemma exchange_ok_new [simp]: "exchange_ok (new_exchange r)"
  by (simp add: exchange_ok_def new_exchange_def queued_bytes_def busy_bytes_def)

lemma socket_ok_new [simp]: "socket_ok (new_socket r)"
  by (simp add: socket_ok_def new_socket_def message_bytes_def writing_bytes_def)

lemma list_all_update: "list_all (\<lambda>x. P (snd x)) t \<Longrightarrow> P v \<Longrightarrow> list_all (\<lambda>x. P (snd x)) (AList.update k v t)"
  by (induction t) auto

lemma count_if_update_less: "count_if P t < n \<Longrightarrow> count_if P (AList.update k v t) \<le> n"
  using count_if_update_le [of P k v t] by (auto split: if_splits)

lemma queued_bytes_simps [simp]:
  "queued_bytes [] = 0" "queued_bytes (d # q) = (case d of None \<Rightarrow> 0 | Some d \<Rightarrow> length d) + queued_bytes q"
  "queued_bytes (q @ q') = queued_bytes q + queued_bytes q'"
  by (simp_all add: queued_bytes_def)

lemma message_bytes_simps [simp]:
  "message_bytes [] = 0" "message_bytes (m # q) = length (snd m) + message_bytes q"
  "message_bytes (q @ q') = message_bytes q + message_bytes q'"
  by (simp_all add: message_bytes_def)

lemma tunnel_ok_start: "tunnel_ok g \<Longrightarrow> tunnel_ok (snd (accept_start dec f g))"
proof -
  assume g: "tunnel_ok g"
  let ?g = "g\<lparr>gw_last := f_id f\<rparr>"
  have last: "tunnel_ok ?g" using g by (simp add: tunnel_ok_def)
  have add: "tunnel_ok (?g\<lparr>gw_exchanges := AList.update (f_id f) (new_exchange r) (gw_exchanges g)\<rparr>)"
    if "\<not> MaxExchanges \<le> count_if ex_listed (gw_exchanges g)" for r
    using g that by (simp add: tunnel_ok_def list_all_update count_if_update_less)
  have unstarted: "tunnel_ok (update_exchange i (\<lambda>e. e\<lparr>ex_upload := Up_Done, ex_download := Down_Done\<rparr>) h)"
    if "tunnel_ok h" for i h
    by (rule tunnel_ok_every_exchange [OF that]) (auto simp: exchange_ok_def busy_bytes_def split: exchange_cases)
  show ?thesis
    using g last tunnel_ok_send [OF add]
    by (auto simp: accept_start_def Let_def add intro!: unstarted split: option.splits sum.splits prod.splits)
qed

lemma tunnel_ok_http: "tunnel_ok g \<Longrightarrow> tunnel_ok (snd (accept_http dec f g))"
proof -
  assume g: "tunnel_ok g"
  have "tunnel_ok (snd (accept_body f e g))" "tunnel_ok (snd (accept_end f e g))"
    "tunnel_ok (snd (accept_cancel f g))" "tunnel_ok (snd (accept_credit f e g))"
    if e: "map_of (gw_exchanges g) (f_id f) = Some e" for e
  proof -
    note keep = tunnel_ok_exchange [OF g e]
    show "tunnel_ok (snd (accept_body f e g))"
      unfolding accept_body_def using g
      by (auto intro!: keep simp: exchange_ok_def split: exchange_cases)
    show "tunnel_ok (snd (accept_end f e g))"
      unfolding accept_end_def using g
      by (auto intro!: keep simp: exchange_ok_def split: exchange_cases)
    show "tunnel_ok (snd (accept_cancel f g))"
      unfolding accept_cancel_def using g
      by (auto intro!: keep)
    show "tunnel_ok (snd (accept_credit f e g))"
      unfolding accept_credit_def Let_def using g
      by (auto intro!: keep simp: exchange_ok_def split: exchange_cases)
  qed
  then show ?thesis
    using g tunnel_ok_start [OF g] listed_Some
    by (auto simp: accept_http_def split: option.splits)
qed

lemma tunnel_ok_uploads:
  assumes g: "tunnel_ok g"
  shows "tunnel_ok (upload_take i g)" "tunnel_ok (upload_written i ok g)" "tunnel_ok (upload_stop i g)"
proof -
  have "tunnel_ok (upload_take i g) \<and> tunnel_ok (upload_written i ok g) \<and> tunnel_ok (upload_stop i g)"
  proof (cases "map_of (gw_exchanges g) i")
    case None
    with g show ?thesis by (simp add: upload_take_def upload_written_def upload_stop_def)
  next
    case (Some e)
    note keep = tunnel_ok_exchange [OF g Some]
    have "tunnel_ok (upload_take i g)"
      unfolding upload_take_def using g
      by (auto intro!: keep simp: Some exchange_ok_def busy_bytes_def split: exchange_cases list.splits option.splits)
    moreover have "tunnel_ok (upload_stop i g)"
      unfolding upload_stop_def using g
      by (auto intro!: keep simp: Some exchange_ok_def busy_bytes_def split: exchange_cases)
    moreover have "tunnel_ok (upload_written i ok g)"
    proof (cases "ex_upload e")
      case (Up_Busy d)
      have stop: "tunnel_ok (update_exchange i (\<lambda>e. e\<lparr>ex_upload := Up_Done\<rparr>) h)" if "tunnel_ok h" for h
        by (rule tunnel_ok_every_exchange [OF that]) (auto simp: exchange_ok_def busy_bytes_def split: exchange_cases)
      have "tunnel_ok (update_exchange i (\<lambda>e. e\<lparr>ex_uploaded := ex_uploaded e + length d, ex_upload := Up_Idle\<rparr>) g)"
        by (rule keep) (auto simp: exchange_ok_def busy_bytes_def Up_Busy split: exchange_cases)
      from tunnel_ok_send [OF this] show ?thesis
        unfolding upload_written_def using Up_Busy Some
        by (auto intro: stop g split: prod.splits bool.splits)
    qed (use g Some in \<open>simp_all add: upload_written_def\<close>)
    ultimately show ?thesis by simp
  qed
  then show "tunnel_ok (upload_take i g)" "tunnel_ok (upload_written i ok g)" "tunnel_ok (upload_stop i g)" by auto
qed

lemma tunnel_ok_response: "tunnel_ok g \<Longrightarrow> tunnel_ok (response enc i now a g)"
proof -
  assume g: "tunnel_ok g"
  have next_check: "tunnel_ok (update_exchange i (\<lambda>e. e\<lparr>ex_download := Down_Check\<rparr>) h)" if "tunnel_ok h" for h
    by (rule tunnel_ok_every_exchange [OF that]) (auto simp: exchange_ok_def split: exchange_cases)
  note jar = tunnel_ok_jar [OF g]
  show ?thesis
    using g jar tunnel_ok_send [OF jar]
    by (auto simp: response_def Let_def intro: next_check
        split: option.splits upstream_answer.splits sum.splits prod.splits bool.splits)
qed

lemma tunnel_ok_downloads:
  assumes g: "tunnel_ok g"
  shows "tunnel_ok (download_check i g)" "tunnel_ok (download_wake i g)" "tunnel_ok (download_read i d r g)"
proof -
  have "tunnel_ok (download_check i g) \<and> tunnel_ok (download_wake i g) \<and> tunnel_ok (download_read i d r g)"
  proof (cases "map_of (gw_exchanges g) i")
    case None
    with g show ?thesis by (simp add: download_check_def download_wake_def download_read_def)
  next
    case (Some e)
    note keep = tunnel_ok_exchange [OF g Some]
    have "0 < Chunk" by (simp add: Chunk_def)
    then have "tunnel_ok (download_check i g)"
      unfolding download_check_def using g
      by (auto intro!: keep simp: Some exchange_ok_def split: exchange_cases)
    moreover have "tunnel_ok (download_wake i g)"
      unfolding download_wake_def using g
      by (auto intro!: keep simp: Some exchange_ok_def split: exchange_cases)
    moreover have "tunnel_ok (download_read i d r g)"
    proof (cases "ex_download e")
      case (Down_Read n)
      have "tunnel_ok (update_exchange i (\<lambda>e. e\<lparr>ex_credit := ex_credit e - length d, ex_download := Down_Check\<rparr>) g)"
        by (rule keep) (auto simp: exchange_ok_def split: exchange_cases)
      with tunnel_ok_send [OF this] show ?thesis
        unfolding download_read_def using Down_Read Some g
        by (auto simp: Let_def split: prod.splits bool.splits read_end.splits if_splits)
    qed (use g Some in \<open>simp_all add: download_read_def\<close>)
    ultimately show ?thesis by simp
  qed
  then show "tunnel_ok (download_check i g)" "tunnel_ok (download_wake i g)" "tunnel_ok (download_read i d r g)" by auto
qed

lemma tunnel_ok_open: "tunnel_ok g \<Longrightarrow> tunnel_ok (snd (ws_open dec cookies f g))"
proof -
  assume g: "tunnel_ok g"
  have last: "tunnel_ok (g\<lparr>gw_last_ws := i\<rparr>)" "tunnel_ok (g\<lparr>gw_last_ws := i, gw_dialing := x\<rparr>)" for i x
    using g by (simp_all add: tunnel_ok_def)
  then show ?thesis
    using g by (auto simp: ws_open_def Let_def intro: tunnel_ok_snd_send split: option.splits prod.splits sum.splits)
qed

lemma tunnel_ok_dial: "tunnel_ok g \<Longrightarrow> tunnel_ok (snd (ws_dial enc now d i u r g))"
proof -
  assume g: "tunnel_ok g"
  define h where "h = (case snd d of None \<Rightarrow> g | Some cs \<Rightarrow> g\<lparr>gw_jar := snd (SetCookies u now cs (gw_jar g))\<rparr>)"
  have jar: "tunnel_ok h"
    using g tunnel_ok_jar [OF g] by (simp add: h_def split: option.splits)
  have add: "tunnel_ok (h\<lparr>gw_sockets := AList.update i (new_socket r) (gw_sockets h)\<rparr>)"
    if "\<not> MaxWebSockets \<le> count_if ws_listed (gw_sockets h)"
    using jar that by (simp add: tunnel_ok_def list_all_update count_if_update_less)
  have unstarted: "tunnel_ok (removeSocket i
      (update_socket i (\<lambda>w. w\<lparr>ws_writer := Ws_Writer_Done, ws_reader := Ws_Reader_Done\<rparr>) x))"
    if "tunnel_ok x" for x
    by (intro tunnel_ok_removeSocket tunnel_ok_every_socket [OF that])
       (auto simp: socket_ok_def writing_bytes_def split: ws_reader.splits)
  show ?thesis
    unfolding ws_dial_def Let_def h_def [symmetric]
    using jar add tunnel_ok_send [OF add]
    by (auto intro: tunnel_ok_snd_send unstarted split: option.splits prod.splits bool.splits)
qed

lemma tunnel_ok_served:
  assumes g: "tunnel_ok g"
  shows "tunnel_ok (ws_dialed enc now d g)" "tunnel_ok (wake_sent i g)" "tunnel_ok (ws_wake_sent i g)"
proof -
  have idle: "tunnel_ok (g\<lparr>gw_dialing := None\<rparr>)" using g by (simp add: tunnel_ok_def)
  show "tunnel_ok (ws_dialed enc now d g)"
    using g tunnel_ok_dial [OF idle, of enc now d]
    by (auto simp: ws_dialed_def split: option.splits prod.splits intro: tunnel_ok_close)
       (metis snd_conv tunnel_ok_close)+
  show "tunnel_ok (wake_sent i g)"
    unfolding wake_sent_def using g
    by (auto intro!: tunnel_ok_exchange simp: exchange_ok_def split: option.splits exchange_cases)
  show "tunnel_ok (ws_wake_sent i g)"
    unfolding ws_wake_sent_def using g
    by (auto intro!: tunnel_ok_socket simp: socket_ok_def split: option.splits ws_reader.splits)
qed

lemma tunnel_ok_websocket: "tunnel_ok g \<Longrightarrow> tunnel_ok (snd (acceptWebSocket k cookies f g))"
proof -
  assume g: "tunnel_ok g"
  have "tunnel_ok (snd (ws_chunk f w g))" "tunnel_ok (snd (ws_accept_credit f w g))"
    "tunnel_ok (snd (ws_accept_close dec f g))"
    if w: "map_of (gw_sockets g) (f_id f) = Some w" for w dec
  proof -
    note keep = tunnel_ok_socket [OF g w]
    show "tunnel_ok (snd (ws_accept_credit f w g))"
      unfolding ws_accept_credit_def Let_def using g
      by (auto intro!: keep simp: socket_ok_def split: ws_reader.splits)
    show "tunnel_ok (snd (ws_accept_close dec f g))"
      unfolding ws_accept_close_def using g
      by (auto intro!: keep simp: socket_ok_def split: ws_reader.splits option.splits)
    have clear: "tunnel_ok (update_socket (f_id f) (\<lambda>w. w\<lparr>ws_type := kind, ws_message := []\<rparr>) g)" for kind
      by (rule keep) (auto simp: socket_ok_def split: ws_reader.splits)
    have "tunnel_ok (update_socket (f_id f)
        (\<lambda>w. w\<lparr>ws_queued := ws_queued w + length (snd m), ws_write := ws_write w @ [m]\<rparr>)
        (update_socket (f_id f) (\<lambda>w. w\<lparr>ws_type := kind, ws_message := []\<rparr>) g))"
      if "ws_queued w + length (snd m) \<le> MaxWebSocketMessage" "length (ws_write w) < write_capacity" for kind m
      by (rule tunnel_ok_socket [OF clear, where w = "w\<lparr>ws_type := kind, ws_message := []\<rparr>"])
         (use that w in \<open>auto simp: socket_ok_def update_socket_def map_of_modify split: ws_reader.splits\<close>)
    then have full: "tunnel_ok (ws_enqueue (f_id f) m w (update_socket (f_id f) (\<lambda>w. w\<lparr>ws_type := kind, ws_message := []\<rparr>) g))" for kind m
      using clear by (auto simp: ws_enqueue_def)
    have more: "tunnel_ok (update_socket (f_id f) (\<lambda>w. w\<lparr>ws_type := kind, ws_message := ws_message w @ body\<rparr>) g)"
      if "\<not> MaxWebSocketMessage < length (ws_message w) + length body" for kind body
      by (rule keep) (use that in \<open>auto simp: socket_ok_def split: ws_reader.splits\<close>)
    show "tunnel_ok (snd (ws_chunk f w g))"
      unfolding ws_chunk_def Let_def
      using g full more tunnel_ok_ws_fail [OF clear] by (simp only: split: if_split) simp
  qed
  then show ?thesis
    using g tunnel_ok_open [OF g] listed_socket_Some
    by (auto simp: acceptWebSocket_def split: option.splits)
qed

lemma tunnel_ok_ws_steps:
  assumes g: "tunnel_ok g"
  shows "tunnel_ok (ws_take i g)" "tunnel_ok (ws_written i ok g)" "tunnel_ok (ws_writer_stop i g)"
    "tunnel_ok (ws_close_timeout i g)" "tunnel_ok (ws_received k i r g)" "tunnel_ok (ws_check i g)" "tunnel_ok (ws_wait i g)"
proof -
  have "tunnel_ok (ws_take i g) \<and> tunnel_ok (ws_written i ok g) \<and> tunnel_ok (ws_writer_stop i g)
    \<and> tunnel_ok (ws_close_timeout i g) \<and> tunnel_ok (ws_received k i r g) \<and> tunnel_ok (ws_check i g) \<and> tunnel_ok (ws_wait i g)"
  proof (cases "map_of (gw_sockets g) i")
    case None
    with g show ?thesis
      by (simp add: ws_take_def ws_written_def ws_writer_stop_def ws_close_timeout_def ws_received_def ws_check_def ws_wait_def)
  next
    case (Some w)
    note keep = tunnel_ok_socket [OF g Some]
    have "tunnel_ok (ws_take i g)"
      unfolding ws_take_def using g
      by (auto intro!: keep simp: Some socket_ok_def writing_bytes_def split: ws_reader.splits list.splits)
    moreover have "tunnel_ok (ws_written i ok g)"
    proof (cases "ws_writer w")
      case (Ws_Writing m)
      have "tunnel_ok (update_socket i (\<lambda>w. w\<lparr>ws_queued := ws_queued w - length (snd m),
          ws_writer := (if ok then Ws_Idle else Ws_Writer_Done)\<rparr>) g)"
        by (rule keep) (auto simp: Ws_Writing socket_ok_def writing_bytes_def split: ws_reader.splits)
      then show ?thesis using Some Ws_Writing by (auto simp: ws_written_def Let_def)
    qed (use g Some in \<open>simp_all add: ws_written_def\<close>)
    moreover have "tunnel_ok (ws_writer_stop i g)"
      unfolding ws_writer_stop_def using g
      by (auto intro!: tunnel_ok_removeSocket keep simp: Some socket_ok_def writing_bytes_def split: ws_reader.splits)
    moreover have "tunnel_ok (ws_close_timeout i g)"
      using g Some by (auto simp: ws_close_timeout_def)
    moreover have "tunnel_ok (ws_received k i r g)"
      unfolding ws_received_def using g tunnel_ok_send [OF g]
      by (auto intro!: keep tunnel_ok_ws_reader_done intro: tunnel_ok_snd_send simp: Some socket_ok_def
          split: ws_reader.splits ws_input.splits prod.splits bool.splits)
    moreover have "tunnel_ok (ws_check i g)"
    proof (cases "ws_reader w")
      case (Ws_Check km)
      obtain kind m where km: "km = (kind, m)" by (cases km)
      have pass: "tunnel_ok (update_socket i (\<lambda>w. w\<lparr>ws_reader := (if b then Ws_Receive else Ws_Check x)\<rparr>) h)"
        if "tunnel_ok h" "b \<or> snd x \<noteq> []" for h b x
        by (rule tunnel_ok_every_socket [OF that(1)]) (use that(2) in \<open>auto simp: socket_ok_def split: ws_reader.splits\<close>)
      have take: "tunnel_ok (update_socket i (\<lambda>w. w\<lparr>ws_credit := ws_credit w - n\<rparr>) g)" for n
        by (rule keep) (auto simp: Ws_Check socket_ok_def)
      have m: "m \<noteq> []"
        using g map_of_SomeD [OF Some] by (auto simp: tunnel_ok_def list_all_iff socket_ok_def Ws_Check km)
      then have wait: "tunnel_ok (update_socket i (\<lambda>w. w\<lparr>ws_reader := Ws_Waiting (kind, m)\<rparr>) g)" if "ws_credit w = 0"
        by (intro keep) (use that in \<open>auto simp: socket_ok_def split: ws_reader.splits\<close>)
      have "0 < Chunk - 2" by (simp add: Chunk_def)
      define n where "n = min (ws_credit w) (min (length m) (Chunk - 2))"
      have "n = 0 \<longleftrightarrow> ws_credit w = 0" using m \<open>0 < Chunk - 2\<close> by (auto simp: n_def min_def)
      moreover have "n \<le> length m" by (simp add: n_def)
      ultimately have n: "n = 0 \<longleftrightarrow> ws_credit w = 0" "n \<noteq> length m \<Longrightarrow> n < length m" by simp_all
      obtain b h where s: "send (frame_kind kind) i ([kind, if n = length m then 1 else 0] @ take n m)
          (update_socket i (\<lambda>w. w\<lparr>ws_credit := ws_credit w - n\<rparr>) g) = (b, h)"
        by (cases "send (frame_kind kind) i ([kind, if n = length m then 1 else 0] @ take n m)
          (update_socket i (\<lambda>w. w\<lparr>ws_credit := ws_credit w - n\<rparr>) g)")
      have h: "tunnel_ok h" using tunnel_ok_send [OF take s] .
      have eq: "ws_check i g = (if n = 0 then update_socket i (\<lambda>w. w\<lparr>ws_reader := Ws_Waiting (kind, m)\<rparr>) g
          else if b then update_socket i (\<lambda>w. w\<lparr>ws_reader := (if n = length m then Ws_Receive else Ws_Check (kind, drop n m))\<rparr>) h
          else ws_reader_done i h)"
        using s by (simp add: ws_check_def Some Ws_Check km n_def [symmetric] split: bool.splits)
      show ?thesis
      proof (cases "n = 0")
        case True
        then show ?thesis using wait n(1) by (simp add: eq)
      next
        case False
        have "tunnel_ok (update_socket i (\<lambda>w. w\<lparr>ws_reader := (if n = length m then Ws_Receive else Ws_Check (kind, drop n m))\<rparr>) h)"
          by (rule pass [OF h]) (use n in auto)
        with h False show ?thesis
          unfolding eq by (cases b) (simp_all only: if_True if_False tunnel_ok_ws_reader_done)
      qed
    qed (use g Some in \<open>simp_all add: ws_check_def\<close>)
    moreover have "tunnel_ok (ws_wait i g)"
      unfolding ws_wait_def using g
      by (auto intro!: keep simp: Some socket_ok_def split: ws_reader.splits)
    ultimately show ?thesis by simp
  qed
  then show "tunnel_ok (ws_take i g)" "tunnel_ok (ws_written i ok g)" "tunnel_ok (ws_writer_stop i g)"
    "tunnel_ok (ws_close_timeout i g)" "tunnel_ok (ws_received k i r g)" "tunnel_ok (ws_check i g)" "tunnel_ok (ws_wait i g)"
    by auto
qed

lemma tunnel_ok_serve: "tunnel_ok g \<Longrightarrow> tunnel_ok (Serve k cookies f g)"
proof -
  assume g: "tunnel_ok g"
  have "tunnel_ok (snd (accept k cookies f g))"
    using tunnel_ok_websocket [OF g] tunnel_ok_http [OF g] by (simp add: accept_def)
  with g show ?thesis
    by (auto simp: Serve_def intro: tunnel_ok_close split: prod.splits option.splits)
qed

lemma tunnel_ok_step: "tunnel_ok g \<Longrightarrow> tunnel_ok (tunnel_step k e g)"
  by (cases e)
     (simp_all add: tunnel_ok_serve tunnel_ok_served tunnel_ok_close tunnel_ok_uploads tunnel_ok_response tunnel_ok_downloads tunnel_ok_ws_steps)

interpretation tunnel: machine "tunnel_step k" tunnel_ok for k
  by unfold_locales (rule tunnel_ok_step)

text \<open>C24: However frames, uploads, responses, WebSocket messages and closing interleave: at most 16 exchanges
  and 16 channels are open; an exchange buffers at most 5 chunks and together with the upload credit it has
  given out at most one window; it never reads more of a response than the browser has credit for, and never
  waits while there is credit without a wake-up that is pending or being sent; a channel queues at most 4 messages and 1 MiB; the
  session's cookies stay within their bounds; and every frame sent is one the reader of the tunnel accepts.\<close>

theorem tunnel_bounds:
  "tunnel_ok (run (tunnel_step k) es (new_gateway c u))"
  by (rule tunnel.run_inv [OF tunnel_ok_new])

subsection \<open>Flow control towards the browser\<close>

definition body_bytes :: "32 word \<Rightarrow> frame list \<Rightarrow> nat" where
  "body_bytes i fs = (\<Sum>f\<leftarrow>filter (\<lambda>f. f_type f = ResponseBody \<and> f_id f = i) fs. length (f_data f))"

text \<open>The credit a browser gives to an exchange with its frames.\<close>

fun granted_by :: "32 word \<Rightarrow> tunnel_event \<Rightarrow> nat" where
  "granted_by i (Tunnel_Frame _ f) =
     (if f_type f = DownloadCredit \<and> f_id f = i \<and> length (f_data f) = 4 then unat (uint32 (f_data f)) else 0)"
| "granted_by i _ = 0"

definition granted :: "32 word \<Rightarrow> tunnel_event list \<Rightarrow> nat" where
  "granted i es = (\<Sum>e\<leftarrow>es. granted_by i e)"

definition credit_left :: "32 word \<Rightarrow> gateway \<Rightarrow> nat" where
  "credit_left i g = (case map_of (gw_exchanges g) i of None \<Rightarrow> 0 | Some e \<Rightarrow> ex_credit e)"

text \<open>What was sent and what may still be sent.\<close>

definition spent :: "32 word \<Rightarrow> gateway \<Rightarrow> nat" where
  "spent i g = body_bytes i (gw_sent g) + credit_left i g"

lemma body_bytes_simps [simp]:
  "body_bytes i [] = 0"
  "body_bytes i (fs @ [f]) = body_bytes i fs + (if f_type f = ResponseBody \<and> f_id f = i then length (f_data f) else 0)"
  by (simp_all add: body_bytes_def)

lemma map_of_cancel: "map_of (map (\<lambda>(i, e). (i, e\<lparr>ex_cancelled := True\<rparr>)) t) i = map_option (\<lambda>e. e\<lparr>ex_cancelled := True\<rparr>) (map_of t i)"
  by (induction t) auto

lemma spent_close [simp]: "spent i (close_gateway g) = spent i g"
  by (simp add: spent_def close_gateway_def credit_left_def map_of_cancel option.case_eq_if)
     (simp add: option.map_sel)

lemma spent_send:
  "send t j d g = (b, g') \<Longrightarrow> spent i g' \<le> spent i g + (if t = ResponseBody \<and> j = i then length d else 0)"
  by (auto simp: send_def spent_def credit_left_def split: if_splits)
     (simp_all flip: spent_def credit_left_def)

lemma spent_keep: "(\<And>x. ex_credit (f x) = ex_credit x) \<Longrightarrow> spent i (update_exchange j f g) = spent i g"
  by (auto simp: spent_def credit_left_def update_exchange_def map_of_modify split: option.splits)

lemma spent_socket [simp]: "spent i (update_socket j f g) = spent i g" "spent i (removeSocket j g) = spent i g"
  by (simp_all add: spent_def credit_left_def update_socket_def removeSocket_def)

lemma spent_keep_le: "(\<And>x. ex_credit (f x) = ex_credit x) \<Longrightarrow> spent i g \<le> n \<Longrightarrow> spent i (update_exchange j f g) \<le> n"
  by (simp add: spent_keep)

lemma spent_done [simp]: "spent i (exchange_done j g) = spent i g"
  by (simp add: exchange_done_def spent_keep)

lemma body_type: "t \<noteq> ResponseBody \<Longrightarrow> spent i (snd (send t j d g)) \<le> spent i g"
  using spent_send [of t j d g "fst (send t j d g)" "snd (send t j d g)" i] by simp

lemma frame_types [simp]:
  "UploadCredit \<noteq> ResponseBody" "ResponseStart \<noteq> ResponseBody" "ResponseEnd \<noteq> ResponseBody" "ResponseError \<noteq> ResponseBody"
  "WebSocketOpened \<noteq> ResponseBody" "WebSocketError \<noteq> ResponseBody" "WebSocketClosed \<noteq> ResponseBody" "frame_kind k \<noteq> ResponseBody"
  "DownloadCredit \<noteq> Start" "DownloadCredit \<noteq> Body" "DownloadCredit \<noteq> End" "DownloadCredit \<noteq> Cancel"
  by (simp_all add: frame_kind_def UploadCredit_def ResponseStart_def ResponseEnd_def ResponseError_def ResponseBody_def
      WebSocketOpened_def WebSocketError_def WebSocketClosed_def WebSocketText_def WebSocketBinary_def
      DownloadCredit_def Start_def Body_def End_def Cancel_def)

lemma spent_send_last [simp]: "t \<noteq> ResponseBody \<Longrightarrow> spent i (send_last t j d g) \<le> spent i g"
  by (simp add: send_last_def body_type)

lemma spent_jar [simp]: "spent i (g\<lparr>gw_jar := j\<rparr>) = spent i g" "spent i (g\<lparr>gw_last := a\<rparr>) = spent i g"
  "spent i (g\<lparr>gw_last_ws := a\<rparr>) = spent i g" "spent i (g\<lparr>gw_sockets := s\<rparr>) = spent i g"
  "spent i (g\<lparr>gw_dialing := x\<rparr>) = spent i g"
  by (simp_all add: spent_def credit_left_def)

lemma spent_start: "spent i (snd (accept_start dec f g)) \<le> spent i g"
proof -
  let ?g = "g\<lparr>gw_last := f_id f\<rparr>"
  have add: "spent i (?g\<lparr>gw_exchanges := AList.update (f_id f) (new_exchange r) (gw_exchanges g)\<rparr>) \<le> spent i g" for r
    by (auto simp: spent_def credit_left_def map_of_update new_exchange_def split: option.splits)
  have sent: "spent i (snd (send UploadCredit j d
      (?g\<lparr>gw_exchanges := AList.update (f_id f) (new_exchange r) (gw_exchanges g)\<rparr>))) \<le> spent i g" for j d r
    by (rule order_trans [OF body_type add]) simp
  show ?thesis
  proof (cases "f_id f \<le> gw_last g")
    case False
    then show ?thesis
      by (cases "dec (f_data f)"; cases "build_request (gw_config g) (gw_upstream g) (the (dec (f_data f)))")
         (simp_all add: accept_start_def Let_def case_prod_unfold add sent spent_keep)
  qed (simp add: accept_start_def)
qed

lemma spent_credit:
  assumes "map_of (gw_exchanges g) (f_id f) = Some e" "f_type f = DownloadCredit"
  shows "spent i (snd (accept_credit f e g)) \<le> spent i g + granted_by i (Tunnel_Frame cookies f)"
  using assms
  by (auto simp: accept_credit_def Let_def spent_def credit_left_def update_exchange_def map_of_modify split: option.splits)

lemma spent_http:
  "spent i (snd (accept_http dec f g)) \<le> spent i g + granted_by i (Tunnel_Frame cookies f)"
proof -
  have "spent i (snd (accept_body f e g)) \<le> spent i g" "spent i (snd (accept_end f e g)) \<le> spent i g"
    "spent i (snd (accept_cancel f g)) \<le> spent i g" for e
    by (simp_all add: accept_body_def accept_end_def accept_cancel_def spent_keep)
  then show ?thesis
    using spent_start [of i dec f g] spent_credit [of g f _ i cookies] listed_Some [of "f_id f" g]
    by (auto simp: accept_http_def trans_le_add1 simp del: granted_by.simps split: option.splits)
qed

lemma spent_ws_fail [simp]: "spent i (ws_fail j e g) \<le> spent i g"
  by (simp add: ws_fail_def body_type)

lemma spent_ws_fail_le: "spent i g \<le> n \<Longrightarrow> spent i (ws_fail j e g) \<le> n"
  using spent_ws_fail [of i j e g] by linarith

lemma spent_send_le: "t \<noteq> ResponseBody \<Longrightarrow> spent i g \<le> n \<Longrightarrow> spent i (snd (send t j d g)) \<le> n"
  using body_type [of t i j d g] by linarith

lemma spent_ws_reader_done [simp]: "spent i (ws_reader_done j g) = spent i g"
  by (simp add: ws_reader_done_def)

lemma spent_open: "spent i (snd (ws_open dec cookies f g)) \<le> spent i g"
  by (auto simp: ws_open_def Let_def spent_send_le split: option.splits sum.splits)

lemma spent_dial: "spent i (snd (ws_dial enc now d j u r g)) \<le> spent i g"
proof -
  define h where "h = (case snd d of None \<Rightarrow> g | Some cs \<Rightarrow> g\<lparr>gw_jar := snd (SetCookies u now cs (gw_jar g))\<rparr>)"
  have h: "spent i h = spent i g" by (simp add: h_def split: option.splits)
  then show ?thesis
    unfolding ws_dial_def h_def [symmetric]
    by (cases "fst d") (simp_all add: Let_def case_prod_unfold spent_send_le split: bool.splits)
qed

lemma spent_served:
  "spent i (ws_dialed enc now d g) \<le> spent i g" "spent i (wake_sent j g) \<le> spent i g" "spent i (ws_wake_sent j g) \<le> spent i g"
proof -
  show "spent i (ws_dialed enc now d g) \<le> spent i g"
    using spent_dial [of i enc now d _ _ _ "g\<lparr>gw_dialing := None\<rparr>"]
    by (auto simp: ws_dialed_def split: option.splits prod.splits) (metis snd_conv)+
  show "spent i (wake_sent j g) \<le> spent i g" "spent i (ws_wake_sent j g) \<le> spent i g"
    by (simp_all add: wake_sent_def ws_wake_sent_def spent_keep split: option.splits)
qed

lemma spent_websocket: "spent i (snd (acceptWebSocket k cookies f g)) \<le> spent i g"
proof -
  have "spent i (snd (ws_chunk f w g)) \<le> spent i g" for w
    by (simp add: ws_chunk_def ws_enqueue_def Let_def spent_ws_fail_le)
  moreover have "spent i (snd (ws_accept_credit f w g)) \<le> spent i g" for w
    by (simp add: ws_accept_credit_def Let_def)
  moreover have "spent i (snd (ws_accept_close dec f g)) \<le> spent i g" for dec
    by (simp add: ws_accept_close_def split: option.splits)
  ultimately show ?thesis
    using spent_open by (simp add: acceptWebSocket_def split: option.splits)
qed

lemma spent_serve: "spent i (Serve k cookies f g) \<le> spent i g + granted_by i (Tunnel_Frame cookies f)"
proof -
  have "spent i (snd (accept k cookies f g)) \<le> spent i g + granted_by i (Tunnel_Frame cookies f)"
    using spent_http [of i _ f g cookies] spent_websocket [of i k cookies f g]
    by (simp add: accept_def trans_le_add1 del: granted_by.simps)
  then show ?thesis
    by (auto simp: Serve_def simp del: granted_by.simps split: prod.splits option.splits)
qed

lemma spent_read:
  assumes "tunnel_ok g"
  shows "spent i (download_read j d r g) \<le> spent i g"
proof -
  have "spent i (download_read j d r g) \<le> spent i g"
    if e: "map_of (gw_exchanges g) j = Some e" "ex_download e = Down_Read n" "length d \<le> n" for e n
  proof -
    have "exchange_ok e"
      using assms map_of_SomeD [OF e(1)] by (auto simp: tunnel_ok_def list_all_iff)
    then have "length d \<le> ex_credit e" using e by (simp add: exchange_ok_def)
    then have h: "spent i (update_exchange j (\<lambda>e. e\<lparr>ex_credit := ex_credit e - length d, ex_download := Down_Check\<rparr>) g)
        + (if j = i then length d else 0) = spent i g"
      using e(1) by (auto simp: spent_def credit_left_def update_exchange_def map_of_modify)
    define h where "h = update_exchange j (\<lambda>e. e\<lparr>ex_credit := ex_credit e - length d, ex_download := Down_Check\<rparr>) g"
    obtain b h' where s: "(if d = [] then (True, h) else send ResponseBody j d h) = (b, h')" by fastforce
    then have "spent i h' \<le> spent i g"
      using spent_send [of ResponseBody j d h b h' i] h by (auto simp: h_def [symmetric] split: if_splits)
    then show ?thesis
      using e s by (auto simp: download_read_def Let_def h_def [symmetric] intro: order_trans [OF spent_send_last]
          split: bool.splits read_end.splits)
  qed
  then show ?thesis
    by (cases "map_of (gw_exchanges g) j"; cases "ex_download (the (map_of (gw_exchanges g) j))")
       (auto simp: download_read_def not_less)
qed

lemma spent_uploads:
  "spent i (upload_take j g) \<le> spent i g" "spent i (upload_written j ok g) \<le> spent i g" "spent i (upload_stop j g) \<le> spent i g"
proof -
  show "spent i (upload_take j g) \<le> spent i g" "spent i (upload_stop j g) \<le> spent i g"
    by (simp_all add: upload_take_def upload_stop_def spent_keep split: option.splits list.splits)
  have sent: "spent i (snd (send UploadCredit j d (update_exchange j
      (\<lambda>e. e\<lparr>ex_uploaded := ex_uploaded e + n, ex_upload := Up_Idle\<rparr>) g))) \<le> spent i g" for d n
    by (rule spent_send_le) (simp_all add: spent_keep)
  then show "spent i (upload_written j ok g) \<le> spent i g"
    by (auto simp: upload_written_def case_prod_unfold spent_keep split: option.splits upload_state.splits bool.splits)
qed

lemma spent_response: "spent i (response enc j now a g) \<le> spent i g"
proof -
  have last: "spent i (send_last t j d h) \<le> spent i g" if "t \<noteq> ResponseBody" "spent i h = spent i g" for t d h
    using spent_send_last [OF that(1), of i j d h] that(2) by simp
  have sent: "spent i (snd (send ResponseStart j d h)) \<le> spent i g" if "spent i h = spent i g" for d h
    by (rule spent_send_le) (simp_all add: that)
  show ?thesis
    by (auto simp: response_def Let_def case_prod_unfold spent_keep last sent
        split: option.splits upstream_answer.splits sum.splits bool.splits)
qed

lemma spent_waits:
  "spent i (download_check j g) \<le> spent i g" "spent i (download_wake j g) \<le> spent i g"
  "spent i (ws_take j g) \<le> spent i g" "spent i (ws_writer_stop j g) \<le> spent i g"
  "spent i (ws_close_timeout j g) \<le> spent i g" "spent i (ws_wait j g) \<le> spent i g"
  by (simp_all add: download_check_def download_wake_def ws_take_def ws_writer_stop_def ws_close_timeout_def
      ws_wait_def spent_keep split: option.splits list.splits ws_reader.splits)

lemma spent_sockets:
  "spent i (ws_written j ok g) \<le> spent i g" "spent i (ws_received k j r g) \<le> spent i g" "spent i (ws_check j g) \<le> spent i g"
proof -
  show "spent i (ws_written j ok g) \<le> spent i g"
    by (simp add: ws_written_def Let_def spent_ws_fail_le split: option.splits ws_writer.splits)
  show "spent i (ws_received k j r g) \<le> spent i g"
    by (auto simp: ws_received_def case_prod_unfold spent_send_le
        split: option.splits ws_input.splits bool.splits prod.splits)
  show "spent i (ws_check j g) \<le> spent i g"
    by (auto simp: ws_check_def Let_def case_prod_unfold spent_send_le
        split: option.splits ws_reader.splits bool.splits prod.splits)
qed

lemma spent_step: "tunnel_ok g \<Longrightarrow> spent i (tunnel_step k e g) \<le> spent i g + granted_by i e"
  by (cases e)
     (simp_all add: spent_serve spent_served spent_uploads spent_response spent_waits spent_sockets spent_read del: granted_by.simps(1))

lemma spent_run: "tunnel_ok g \<Longrightarrow> spent i (run (tunnel_step k) es g) \<le> spent i g + granted i es"
proof (induction es arbitrary: g)
  case (Cons e es)
  from Cons.IH [OF tunnel_ok_step [OF Cons.prems, of k e]] spent_step [OF Cons.prems, of i k e]
  show ?case by (simp add: granted_def)
qed (simp add: granted_def)

text \<open>C25: the gateway never sends more bytes of a response body than the browser has given credit for on
  that exchange, however the upstream delivers them and whatever else goes through the tunnel.\<close>

theorem download_within_credit:
  "body_bytes i (gw_sent (run (tunnel_step k) es (new_gateway c u))) \<le> granted i es"
proof -
  have "spent i (new_gateway c u) = 0" by (simp add: spent_def credit_left_def new_gateway_def)
  then show ?thesis
    using spent_run [OF tunnel_ok_new, of i k es c u] by (simp add: spent_def)
qed

text \<open>A browser that stays within its upload window can still fill the queue with small chunks: the sixth one
  that the upstream has not taken yet ends the whole tunnel.\<close>

lemma small_chunks_end_the_tunnel:
  assumes "map_of (gw_exchanges g) 1 = Some e" "ex_listed e" "\<not> ex_ended e" "length (ex_queue e) = upload_capacity"
    "0 < ex_uploaded e" "gw_open g" "\<not> serving g"
  shows "\<not> gw_open (Serve k cookies \<lparr>f_type = Body, f_id = 1, f_data = [0]\<rparr> g)"
proof -
  have "Body \<noteq> Start" "(1 :: 32 word) AND WebSocketIDMask = 0"
    by (simp_all add: Body_def Start_def WebSocketIDMask_def)
  then show ?thesis
    using assms by (simp add: Serve_def accept_def accept_http_def listed_def accept_body_def close_gateway_def)
qed

end
