(* ===== verification/BrowserPub.thy ===== *)
theory BrowserPub
  imports GatewayFlow
begin

section \<open>Browser publications\<close>

text \<open>
  Models \<^verbatim>\<open>internal/core/browser_publication.go\<close>: the browser runtime, the mounts, the gateways and the stream
  tickets that plugins own.  Every method holds the lock of the manager throughout, so every call, timer
  and callback is one event.  The random identifier of a call is a parameter (none when the random source
  fails); a gateway carries a serial number for the pointer identity its timer and its goroutine test.
  The gateway itself is the one of the tunnel theories.
\<close>

record publication =
  pub_id :: string
  pub_owner :: string
  pub_mount :: string
  pub_bootstrap :: string
  pub_worker :: string
  pub_runtime :: string

record browser_runtime =
  rt_id :: string
  rt_owner :: string
  rt_bootstrap :: string
  rt_worker :: string

record stream_grant =
  gr_owner :: string
  gr_stream :: string

record browser_ticket = stream_grant +
  tk_expires :: int

record browser_gateway =
  bg_serial :: nat
  bg_owner :: string
  bg_publication :: string
  bg_gateway :: gateway
  bg_attached :: bool

record browser_host =
  bh_mounts :: "publication table"
  bh_gateways :: "browser_gateway table"
  bh_tickets :: "browser_ticket table"
  bh_closed :: bool
  bh_base :: string
  bh_runtime :: "browser_runtime option"
  bh_serials :: nat
  bh_emitted :: "(string \<times> string) list"

definition newBrowserPublications :: browser_host where
  "newBrowserPublications =
     \<lparr>bh_mounts = [], bh_gateways = [], bh_tickets = [], bh_closed = False, bh_base = [], bh_runtime = None,
      bh_serials = 0, bh_emitted = []\<rparr>"

subsection \<open>The calls of plugins\<close>

text \<open>The parameters of a call; none when they do not decode.\<close>

record gateway_open =
  go_publication :: string
  go_upstream_url :: string
  go_upstream_base :: string
  go_base_header :: string
  go_base_header_value :: string
  go_insecure :: bool
  go_forward_host :: bool
  go_forward_scheme :: bool
  go_public_host :: string
  go_public_scheme :: string
  go_custom :: "string table"

datatype browser_call =
    Runtime_Register "(string \<times> string) option"
  | Runtime_Remove "string option"
  | Publication_Register "(string \<times> string \<times> string \<times> string) option"
  | Publication_Remove "string option"
  | Gateway_Open "gateway_open option"
  | Gateway_Close "string option"
  | Stream_Ticket "string option"
  | Unknown_Browser_Call

datatype browser_answer =
    Answer_Runtime browser_runtime
  | Answer_Publication publication
  | Answer_Gateway string string publication string
  | Answer_Ticket string
  | Answer_Nothing

definition browserInvalid :: "string \<Rightarrow> host_failure" where
  "browserInvalid m = (''invalid_argument'', m)"

text \<open>\<open>closeLocked\<close>.\<close>

definition closeLocked :: "string \<Rightarrow> browser_host \<Rightarrow> browser_host" where
  "closeLocked i h =
     (case map_of (bh_gateways h) i of
        None \<Rightarrow> h
      | Some g \<Rightarrow>
          h\<lparr>bh_gateways := AList.delete i (bh_gateways h),
            bh_tickets := keep_if (\<lambda>_ t. gr_stream t \<noteq> i) (bh_tickets h),
            bh_emitted := bh_emitted h @ [(bg_owner g, i)]\<rparr>)"

definition close_where :: "(browser_gateway \<Rightarrow> bool) \<Rightarrow> browser_host \<Rightarrow> browser_host" where
  "close_where P h = fold closeLocked (map fst (filter (\<lambda>(i, g). P g) (bh_gateways h))) h"

definition is_js :: "string \<Rightarrow> bool" where
  "is_js v = suffix ''.js'' v"

definition runtime_register ::
  "string \<Rightarrow> string option \<Rightarrow> (string \<times> string) option \<Rightarrow> browser_host \<Rightarrow> (host_failure, browser_answer) result \<times> browser_host" where
  "runtime_register owner new_id p h =
     (case p of
        None \<Rightarrow> (Inl (browserInvalid ''invalid browser runtime assets''), h)
      | Some (bootstrap, worker) \<Rightarrow>
          if \<not> browserAsset bootstrap \<or> \<not> browserAsset worker \<or> \<not> is_js bootstrap \<or> \<not> is_js worker then
            (Inl (browserInvalid ''invalid browser runtime assets''), h)
          else (case bh_runtime h of
              Some r \<Rightarrow>
                if rt_owner r \<noteq> owner \<or> rt_bootstrap r \<noteq> bootstrap \<or> rt_worker r \<noteq> worker then
                  (Inl (''already_exists'', ''listener browser runtime is already owned''), h)
                else (Inr (Answer_Runtime r), h)
            | None \<Rightarrow>
                (case new_id of
                   None \<Rightarrow> (Inl (browserInvalid ''cannot allocate browser runtime''), h)
                 | Some i \<Rightarrow>
                     (let r = \<lparr>rt_id = i, rt_owner = owner, rt_bootstrap = bootstrap, rt_worker = worker\<rparr>
                      in (Inr (Answer_Runtime r), h\<lparr>bh_runtime := Some r\<rparr>)))))"

text \<open>The runtime of a gateway's publication; a Go map answers the zero value for a missing one.\<close>

definition gateway_runtime :: "browser_host \<Rightarrow> browser_gateway \<Rightarrow> string" where
  "gateway_runtime h g = (case map_of (bh_mounts h) (bg_publication g) of None \<Rightarrow> [] | Some p \<Rightarrow> pub_runtime p)"

definition runtime_remove ::
  "string \<Rightarrow> string option \<Rightarrow> browser_host \<Rightarrow> (host_failure, browser_answer) result \<times> browser_host" where
  "runtime_remove owner p h =
     (case p of
        None \<Rightarrow> (Inl (browserInvalid ''runtime ID required''), h)
      | Some i \<Rightarrow>
          if i = [] then (Inl (browserInvalid ''runtime ID required''), h)
          else (case bh_runtime h of
              None \<Rightarrow> (Inl (''not_found'', ''unknown browser runtime''), h)
            | Some r \<Rightarrow>
                if rt_id r \<noteq> i \<or> rt_owner r \<noteq> owner then (Inl (''not_found'', ''unknown browser runtime''), h)
                else (let h' = close_where (\<lambda>g. gateway_runtime h g = i) h
                      in (Inr Answer_Nothing,
                          h'\<lparr>bh_mounts := keep_if (\<lambda>_ p. pub_runtime p \<noteq> i) (bh_mounts h'), bh_runtime := None\<rparr>))))"

definition owns_runtime :: "string \<Rightarrow> string \<Rightarrow> browser_host \<Rightarrow> bool" where
  "owns_runtime owner i h =
     (case bh_runtime h of None \<Rightarrow> False | Some r \<Rightarrow> rt_id r = i \<and> rt_owner r = owner)"

definition publication_register ::
  "string \<Rightarrow> string option \<Rightarrow> (string \<times> string \<times> string \<times> string) option \<Rightarrow> browser_host
     \<Rightarrow> (host_failure, browser_answer) result \<times> browser_host" where
  "publication_register owner new_id p h =
     (case p of
        None \<Rightarrow> (Inl (browserInvalid ''invalid browser publication''), h)
      | Some (mount, bootstrap, worker, runtime) \<Rightarrow>
          if Mount mount \<noteq> None \<or> \<not> browserAsset bootstrap then
            (Inl (browserInvalid ''invalid browser publication''), h)
          else if runtime \<noteq> [] \<and> (worker \<noteq> [] \<or> \<not> owns_runtime owner runtime h) then
            (Inl (browserInvalid (''publication requires the owner'' @ [CHR 0x27] @ ''s active browser runtime'')), h)
          else if runtime = [] \<and> \<not> browserAsset worker then
            (Inl (browserInvalid ''publication worker required''), h)
          else if list_ex (\<lambda>(_, q). Overlap (pub_mount q) mount) (bh_mounts h) then
            (Inl (''already_exists'', ''browser mount overlaps an existing publication''), h)
          else if 256 \<le> length (bh_mounts h) then (Inl (''resource_limit'', ''browser mount limit reached''), h)
          else (case new_id of
              None \<Rightarrow> (Inl (browserInvalid ''cannot allocate publication''), h)
            | Some i \<Rightarrow>
                (let q = \<lparr>pub_id = i, pub_owner = owner, pub_mount = mount, pub_bootstrap = bootstrap,
                          pub_worker = worker, pub_runtime = runtime\<rparr>
                 in (Inr (Answer_Publication q), h\<lparr>bh_mounts := AList.update i q (bh_mounts h)\<rparr>))))"

definition publication_remove ::
  "string \<Rightarrow> string option \<Rightarrow> browser_host \<Rightarrow> (host_failure, browser_answer) result \<times> browser_host" where
  "publication_remove owner p h =
     (case p of
        None \<Rightarrow> (Inl (browserInvalid ''publication ID required''), h)
      | Some i \<Rightarrow>
          if i = [] then (Inl (browserInvalid ''publication ID required''), h)
          else (case map_of (bh_mounts h) i of
              None \<Rightarrow> (Inr Answer_Nothing, h)
            | Some q \<Rightarrow>
                if pub_owner q \<noteq> owner then (Inl (''not_found'', ''unknown publication''), h)
                else (let h' = close_where (\<lambda>g. bg_publication g = i) h
                      in (Inr Answer_Nothing, h'\<lparr>bh_mounts := AList.delete i (bh_mounts h')\<rparr>))))"

text \<open>The configuration of a gateway under a publication.\<close>

definition gateway_config_of :: "string \<Rightarrow> gateway_open \<Rightarrow> publication \<Rightarrow> gateway_config" where
  "gateway_config_of base p q =
     \<lparr>gc_upstream_url = go_upstream_url p, gc_upstream_base = go_upstream_base p,
      gc_public_prefix = Join base (pub_mount q), gc_base_header = go_base_header p,
      gc_base_header_value = go_base_header_value p, gc_insecure = go_insecure p,
      gc_forward_host = go_forward_host p, gc_forward_scheme = go_forward_scheme p,
      gc_public_host = go_public_host p, gc_public_scheme = go_public_scheme p,
      gc_custom = fold (\<lambda>(k, v). header_set k v) (go_custom p) []\<rparr>"

definition gateway_open_call ::
  "string \<Rightarrow> string \<Rightarrow> string option \<Rightarrow> gateway_open option \<Rightarrow> browser_host
     \<Rightarrow> (host_failure, browser_answer) result \<times> browser_host" where
  "gateway_open_call owner base new_id p h =
     (case p of
        None \<Rightarrow> (Inl (browserInvalid ''invalid gateway request''), h)
      | Some p \<Rightarrow>
          (case map_of (bh_mounts h) (go_publication p) of
             None \<Rightarrow> (Inl (''not_found'', ''unknown publication''), h)
           | Some q \<Rightarrow>
               if pub_owner q \<noteq> owner then (Inl (''not_found'', ''unknown publication''), h)
               else if 8 \<le> count_if (\<lambda>g. bg_owner g = owner) (bh_gateways h) \<or> 64 \<le> length (bh_gateways h) then
                 (Inl (''resource_limit'', ''HTTP gateway limit reached''), h)
               else (let c = gateway_config_of base p q in
                 case New c of
                   Inl e \<Rightarrow> (Inl (browserInvalid e), h)
                 | Inr upstream \<Rightarrow>
                     (case new_id of
                        None \<Rightarrow> (Inl (browserInvalid ''cannot allocate gateway''), h)
                      | Some i \<Rightarrow>
                          (let g = \<lparr>bg_serial = bh_serials h, bg_owner = owner, bg_publication = pub_id q,
                                    bg_gateway = new_gateway c upstream, bg_attached = False\<rparr>
                           in (Inr (Answer_Gateway i (Escape (Join base (pub_mount q))) q
                                      (Escape (trim_suffix ''/'' base) @ ''/'')),
                               h\<lparr>bh_gateways := AList.update i g (bh_gateways h), bh_serials := Suc (bh_serials h)\<rparr>))))))"

definition gateway_close ::
  "string \<Rightarrow> string option \<Rightarrow> browser_host \<Rightarrow> (host_failure, browser_answer) result \<times> browser_host" where
  "gateway_close owner p h =
     (case p of
        None \<Rightarrow> (Inl (browserInvalid ''gateway ID required''), h)
      | Some i \<Rightarrow>
          if i = [] then (Inl (browserInvalid ''gateway ID required''), h)
          else (case map_of (bh_gateways h) i of
              None \<Rightarrow> (Inr Answer_Nothing, h)
            | Some g \<Rightarrow>
                if bg_owner g \<noteq> owner then (Inl (''not_found'', ''unknown gateway''), h)
                else (Inr Answer_Nothing, closeLocked i h)))"

text \<open>A gateway of the owner that no browser has attached to.\<close>

definition available :: "string \<Rightarrow> string \<Rightarrow> browser_host \<Rightarrow> bool" where
  "available owner i h =
     (case map_of (bh_gateways h) i of None \<Rightarrow> False | Some g \<Rightarrow> bg_owner g = owner \<and> \<not> bg_attached g)"

definition minute :: int where
  "minute = 60000000000"

definition stream_ticket ::
  "string \<Rightarrow> int \<Rightarrow> string option \<Rightarrow> string option \<Rightarrow> browser_host
     \<Rightarrow> (host_failure, browser_answer) result \<times> browser_host" where
  "stream_ticket owner now new_id p h =
     (case p of
        None \<Rightarrow> (Inl (browserInvalid ''stream ID required''), h)
      | Some i \<Rightarrow>
          if \<not> available owner i h then (Inl (''not_found'', ''unknown unattached gateway''), h)
          else (let h = h\<lparr>bh_tickets := keep_if (\<lambda>_ t. now \<le> tk_expires t) (bh_tickets h)\<rparr> in
            if 256 \<le> length (bh_tickets h) then (Inl (''resource_limit'', ''browser ticket limit reached''), h)
            else (case new_id of
                None \<Rightarrow> (Inl (browserInvalid ''cannot allocate ticket''), h)
              | Some t \<Rightarrow>
                  (Inr (Answer_Ticket t),
                   h\<lparr>bh_tickets := AList.update t \<lparr>gr_owner = owner, gr_stream = i, tk_expires = now + minute\<rparr> (bh_tickets h)\<rparr>))))"

definition browser_call ::
  "string \<Rightarrow> string \<Rightarrow> int \<Rightarrow> string option \<Rightarrow> browser_call \<Rightarrow> browser_host
     \<Rightarrow> (host_failure, browser_answer) result \<times> browser_host" where
  "browser_call owner base now new_id c h =
     (if bh_closed h then (Inl (browserInvalid ''browser host is shutting down''), h)
      else (let base = (if bh_base h \<noteq> [] then bh_base h else base) in
        case c of
          Runtime_Register p \<Rightarrow> runtime_register owner new_id p h
        | Runtime_Remove p \<Rightarrow> runtime_remove owner p h
        | Publication_Register p \<Rightarrow> publication_register owner new_id p h
        | Publication_Remove p \<Rightarrow> publication_remove owner p h
        | Gateway_Open p \<Rightarrow> gateway_open_call owner base new_id p h
        | Gateway_Close p \<Rightarrow> gateway_close owner p h
        | Stream_Ticket p \<Rightarrow> stream_ticket owner now new_id p h
        | Unknown_Browser_Call \<Rightarrow> (Inl (browserInvalid ''unknown browser capability''), h)))"

subsection \<open>The browser side\<close>

text \<open>\<open>consume\<close>: a ticket is used up by the first attempt; the grant when it still holds.\<close>

definition consume :: "int \<Rightarrow> string \<Rightarrow> browser_host \<Rightarrow> stream_grant option \<times> browser_host" where
  "consume now t h =
     (case map_of (bh_tickets h) t of
        None \<Rightarrow> (None, h)
      | Some k \<Rightarrow>
          (if now < tk_expires k \<and> available (gr_owner k) (gr_stream k) h
             then Some \<lparr>gr_owner = gr_owner k, gr_stream = gr_stream k\<rparr> else None,
           h\<lparr>bh_tickets := AList.delete t (bh_tickets h)\<rparr>))"

text \<open>\<open>attach\<close>: the serial number of the gateway, for its release.\<close>

definition attach :: "string \<Rightarrow> string \<Rightarrow> browser_host \<Rightarrow> (host_failure, nat) result \<times> browser_host" where
  "attach owner i h =
     (case map_of (bh_gateways h) i of
        None \<Rightarrow> (Inl (''not_found'', ''unknown available gateway''), h)
      | Some g \<Rightarrow>
          if bg_owner g \<noteq> owner \<or> bg_attached g then (Inl (''not_found'', ''unknown available gateway''), h)
          else (Inr (bg_serial g), h\<lparr>bh_gateways := modify i (\<lambda>g. g\<lparr>bg_attached := True\<rparr>) (bh_gateways h)\<rparr>))"

definition same_gateway :: "string \<Rightarrow> nat \<Rightarrow> browser_host \<Rightarrow> browser_gateway option" where
  "same_gateway i n h =
     (case map_of (bh_gateways h) i of
        None \<Rightarrow> None
      | Some g \<Rightarrow> if bg_serial g = n then Some g else None)"

text \<open>The timer of a gateway nobody attached to, the end of its goroutine, and the release of a stream.\<close>

definition gateway_timer :: "string \<Rightarrow> nat \<Rightarrow> browser_host \<Rightarrow> browser_host" where
  "gateway_timer i n h =
     (case same_gateway i n h of None \<Rightarrow> h | Some g \<Rightarrow> if bg_attached g then h else closeLocked i h)"

definition gateway_ended :: "string \<Rightarrow> nat \<Rightarrow> browser_host \<Rightarrow> browser_host" where
  "gateway_ended i n h = (case same_gateway i n h of None \<Rightarrow> h | Some g \<Rightarrow> closeLocked i h)"

definition browser_stop :: "string \<Rightarrow> browser_host \<Rightarrow> browser_host" where
  "browser_stop owner h =
     (let h = (if owner = [] then h\<lparr>bh_closed := True\<rparr> else h);
          h = close_where (\<lambda>g. owner = [] \<or> bg_owner g = owner) h;
          h = h\<lparr>bh_mounts := keep_if (\<lambda>_ p. \<not> (owner = [] \<or> pub_owner p = owner)) (bh_mounts h)\<rparr>
      in (case bh_runtime h of
            None \<Rightarrow> h
          | Some r \<Rightarrow> if owner = [] \<or> rt_owner r = owner then h\<lparr>bh_runtime := None\<rparr> else h))"

definition BrowserRuntime :: "string \<Rightarrow> browser_host \<Rightarrow> (browser_runtime \<times> publication list) option" where
  "BrowserRuntime i h =
     (case bh_runtime h of
        None \<Rightarrow> None
      | Some r \<Rightarrow>
          if rt_id r \<noteq> i then None
          else Some (r, filter (\<lambda>p. pub_runtime p = i \<and> pub_owner p = rt_owner r) (map snd (bh_mounts h))))"

definition BrowserPublication :: "string \<Rightarrow> browser_host \<Rightarrow> publication option" where
  "BrowserPublication relative h =
     find (\<lambda>p. relative = pub_mount p \<or> prefix (pub_mount p @ ''/'') relative) (map snd (bh_mounts h))"

definition SetBrowserBasePath :: "string \<Rightarrow> browser_host \<Rightarrow> (host_failure, unit) result \<times> browser_host" where
  "SetBrowserBasePath base h =
     (if bh_gateways h \<noteq> [] \<and> bh_base h \<noteq> base then
        (Inl (browserInvalid ''cannot change browser base path with active gateways''), h)
      else (Inr (), h\<lparr>bh_base := base\<rparr>))"

subsection \<open>The events of the host\<close>

datatype browser_event =
    Browser_Call string string int "string option" browser_call
  | Browser_Consume int string
  | Browser_Attach string string
  | Gateway_Timer string nat
  | Gateway_Ended string nat
  | Browser_Stop string
  | Browser_Base string

fun browser_step :: "browser_event \<Rightarrow> browser_host \<Rightarrow> browser_host" where
  "browser_step (Browser_Call owner base now i c) h = snd (browser_call owner base now i c h)"
| "browser_step (Browser_Consume now t) h = snd (consume now t h)"
| "browser_step (Browser_Attach owner i) h = snd (attach owner i h)"
| "browser_step (Gateway_Timer i n) h = gateway_timer i n h"
| "browser_step (Gateway_Ended i n) h = gateway_ended i n h"
| "browser_step (Browser_Stop owner) h = browser_stop owner h"
| "browser_step (Browser_Base base) h = snd (SetBrowserBasePath base h)"

text \<open>A random identifier is not one that is in use.\<close>

fun fresh_browser_id :: "browser_event \<Rightarrow> browser_host \<Rightarrow> bool" where
  "fresh_browser_id (Browser_Call _ _ _ (Some i) _) h =
     (map_of (bh_mounts h) i = None \<and> map_of (bh_gateways h) i = None)"
| "fresh_browser_id _ h = True"

subsection \<open>What holds of every publication, gateway and ticket\<close>

definition gateway_ok :: "browser_host \<Rightarrow> browser_gateway \<Rightarrow> bool" where
  "gateway_ok h g =
     (case map_of (bh_mounts h) (bg_publication g) of
        None \<Rightarrow> False
      | Some p \<Rightarrow>
          pub_owner p = bg_owner g
          \<and> New (gw_config (bg_gateway g)) = Inr (gw_upstream (bg_gateway g))
          \<and> (bh_base h \<noteq> [] \<longrightarrow> gc_public_prefix (gw_config (bg_gateway g)) = Join (bh_base h) (pub_mount p)))"

definition ticket_ok :: "browser_host \<Rightarrow> browser_ticket \<Rightarrow> bool" where
  "ticket_ok h t =
     (case map_of (bh_gateways h) (gr_stream t) of None \<Rightarrow> False | Some g \<Rightarrow> bg_owner g = gr_owner t)"

definition publication_ok :: "browser_host \<Rightarrow> string \<Rightarrow> publication \<Rightarrow> bool" where
  "publication_ok h i p =
     (pub_id p = i \<and> Mount (pub_mount p) = None
      \<and> (pub_runtime p \<noteq> [] \<longrightarrow> owns_runtime (pub_owner p) (pub_runtime p) h))"

definition apart :: "string \<times> publication \<Rightarrow> string \<times> publication \<Rightarrow> bool" where
  "apart x y = (\<not> Overlap (pub_mount (snd x)) (pub_mount (snd y)))"

definition browser_inv :: "browser_host \<Rightarrow> bool" where
  "browser_inv h =
     (keys_distinct (bh_mounts h) \<and> keys_distinct (bh_gateways h) \<and> keys_distinct (bh_tickets h)
      \<and> list_all (\<lambda>(i, p). publication_ok h i p) (bh_mounts h) \<and> sorted_wrt apart (bh_mounts h)
      \<and> list_all (\<lambda>(_, g). gateway_ok h g) (bh_gateways h)
      \<and> list_all (\<lambda>(_, t). ticket_ok h t) (bh_tickets h)
      \<and> length (bh_mounts h) \<le> 256 \<and> length (bh_gateways h) \<le> 64 \<and> length (bh_tickets h) \<le> 256
      \<and> (bh_closed h \<longrightarrow> bh_mounts h = [] \<and> bh_gateways h = []))"

text \<open>The gateways of one owner.\<close>

definition owner_gateways :: "string \<Rightarrow> browser_host \<Rightarrow> nat" where
  "owner_gateways owner h = count_if (\<lambda>g. bg_owner g = owner) (bh_gateways h)"

lemma browser_inv_new: "browser_inv newBrowserPublications"
  by (simp add: browser_inv_def newBrowserPublications_def)

lemma gateways_closeLocked:
  "bh_gateways (closeLocked i h) = filter (\<lambda>(j, _). j \<noteq> i) (bh_gateways h)"
proof (cases "map_of (bh_gateways h) i")
  case None
  then have "filter (\<lambda>(j, _). j \<noteq> i) (bh_gateways h) = bh_gateways h"
    by (force simp: map_of_eq_None_iff filter_id_conv)
  with None show ?thesis by (simp add: closeLocked_def)
qed (auto simp: closeLocked_def AList.delete_eq intro!: filter_cong)

lemma closeLocked_frame [simp]:
  "bh_mounts (closeLocked i h) = bh_mounts h" "bh_closed (closeLocked i h) = bh_closed h"
  "bh_base (closeLocked i h) = bh_base h" "bh_runtime (closeLocked i h) = bh_runtime h"
  by (simp_all add: closeLocked_def split: option.splits)

lemma fold_closeLocked_frame [simp]:
  "bh_mounts (fold closeLocked is h) = bh_mounts h" "bh_closed (fold closeLocked is h) = bh_closed h"
  "bh_base (fold closeLocked is h) = bh_base h" "bh_runtime (fold closeLocked is h) = bh_runtime h"
  by (induction "is" arbitrary: h) simp_all

lemma gateways_fold_closeLocked:
  "bh_gateways (fold closeLocked is h) = filter (\<lambda>(j, _). j \<notin> set is) (bh_gateways h)"
  by (induction "is" arbitrary: h) (auto simp: gateways_closeLocked intro!: filter_cong)

lemma gateways_close_where:
  assumes "keys_distinct (bh_gateways h)"
  shows "bh_gateways (close_where P h) = filter (\<lambda>(_, g). \<not> P g) (bh_gateways h)"
proof -
  have "j \<in> fst ` set (filter (\<lambda>(_, g). P g) (bh_gateways h)) \<longleftrightarrow> P g" if "(j, g) \<in> set (bh_gateways h)" for j g
    using that assms by (force dest: eq_key_imp_eq_value)
  then show ?thesis
    by (auto simp: close_where_def gateways_fold_closeLocked intro!: filter_cong)
qed

lemma close_where_frame [simp]:
  "bh_mounts (close_where P h) = bh_mounts h" "bh_closed (close_where P h) = bh_closed h"
  "bh_base (close_where P h) = bh_base h" "bh_runtime (close_where P h) = bh_runtime h"
  by (simp_all add: close_where_def)

lemma list_all_filter: "list_all P t \<Longrightarrow> list_all P (filter Q t)"
  by (auto simp: list_all_iff)

lemma owns_runtime_same: "bh_runtime h' = bh_runtime h \<Longrightarrow> owns_runtime o' i h' = owns_runtime o' i h"
  by (simp add: owns_runtime_def)

lemma publication_ok_same: "bh_runtime h' = bh_runtime h \<Longrightarrow> publication_ok h' i p = publication_ok h i p"
  by (simp add: publication_ok_def owns_runtime_def)

lemma gateway_ok_same: "bh_mounts h' = bh_mounts h \<Longrightarrow> bh_base h' = bh_base h \<Longrightarrow> gateway_ok h' g = gateway_ok h g"
  by (simp add: gateway_ok_def split: option.split)

lemma ticket_ok_same: "bh_gateways h' = bh_gateways h \<Longrightarrow> ticket_ok h' t = ticket_ok h t"
  by (simp add: ticket_ok_def)

lemma browser_inv_close: "browser_inv h \<Longrightarrow> browser_inv (closeLocked i h)"
proof -
  assume h: "browser_inv h"
  show ?thesis
  proof (cases "map_of (bh_gateways h) i")
    case None
    with h show ?thesis by (simp add: closeLocked_def)
  next
    case (Some g)
    let ?h = "closeLocked i h"
    have tickets: "bh_tickets ?h = keep_if (\<lambda>_ t. gr_stream t \<noteq> i) (bh_tickets h)" using Some by (simp add: closeLocked_def)
    have gws: "bh_gateways ?h = AList.delete i (bh_gateways h)" using Some by (simp add: closeLocked_def)
    have "list_all (\<lambda>(_, t). ticket_ok ?h t) (bh_tickets ?h)"
      using h unfolding tickets
      by (auto simp: browser_inv_def keep_if_def list_all_iff ticket_ok_def gws map_of_delete)
    moreover have "list_all (\<lambda>(_, g). gateway_ok ?h g) (bh_gateways ?h)"
      using h by (auto simp: browser_inv_def gws AList.delete_eq list_all_iff gateway_ok_same [of ?h h])
    moreover have "length (bh_gateways ?h) \<le> 64" "length (bh_tickets ?h) \<le> 256"
      using h order_trans [OF length_delete_le] order_trans [OF length_filter_le]
      by (auto simp: browser_inv_def gws tickets keep_if_def)
    ultimately show ?thesis
      using h by (auto simp: browser_inv_def gws tickets publication_ok_same [of ?h h])
  qed
qed

lemma browser_inv_close_where: "browser_inv h \<Longrightarrow> browser_inv (close_where P h)"
proof -
  have "browser_inv h \<Longrightarrow> browser_inv (fold closeLocked is h)" for "is"
    by (induction "is" arbitrary: h) (simp_all add: browser_inv_close)
  then show "browser_inv h \<Longrightarrow> ?thesis" by (simp add: close_where_def)
qed

subsection \<open>Every call keeps it\<close>

lemma map_of_filter_snd:
  "keys_distinct t \<Longrightarrow> map_of (filter (\<lambda>(_, v). P v) t) k = (case map_of t k of None \<Rightarrow> None | Some v \<Rightarrow> if P v then Some v else None)"
  using map_of_keep [of t "\<lambda>_. P" k] by (simp add: keep_if_def)

text \<open>Dropping publications that no gateway refers to.\<close>

lemma browser_inv_drop:
  assumes h: "browser_inv h" and unused: "list_all (\<lambda>(_, g). \<forall>p. map_of (bh_mounts h) (bg_publication g) = Some p \<longrightarrow> keep p) (bh_gateways h)"
    and rt: "\<And>p. keep p \<Longrightarrow> pub_runtime p \<noteq> [] \<Longrightarrow> owns_runtime (pub_owner p) (pub_runtime p) h
               \<Longrightarrow> owns_runtime (pub_owner p) (pub_runtime p) (h\<lparr>bh_runtime := r\<rparr>)"
  shows "browser_inv (h\<lparr>bh_mounts := filter (\<lambda>(_, p). keep p) (bh_mounts h), bh_runtime := r\<rparr>)"
proof -
  let ?h = "h\<lparr>bh_mounts := filter (\<lambda>(_, p). keep p) (bh_mounts h), bh_runtime := r\<rparr>"
  have d: "keys_distinct (bh_mounts h)" using h by (simp add: browser_inv_def)
  have "gateway_ok ?h g" if "(j, g) \<in> set (bh_gateways h)" for j g
    using that h unused d
    by (fastforce simp: browser_inv_def list_all_iff gateway_ok_def map_of_filter_snd split: option.splits)
  moreover have "publication_ok ?h j p" if "(j, p) \<in> set (bh_mounts h)" "keep p" for j p
    using that h rt [of p] by (auto simp: browser_inv_def list_all_iff publication_ok_def owns_runtime_def)
  moreover have "length (filter (\<lambda>(_, p). keep p) (bh_mounts h)) \<le> 256"
    using h order_trans [OF length_filter_le] by (auto simp: browser_inv_def)
  ultimately show ?thesis
    using h by (auto simp: browser_inv_def list_all_iff distinct_map_filter sorted_wrt_filter ticket_ok_same [of ?h h])
qed

lemma browser_inv_runtime_register: "browser_inv h \<Longrightarrow> browser_inv (snd (runtime_register owner i p h))"
proof -
  assume h: "browser_inv h"
  have "browser_inv (h\<lparr>bh_runtime := Some r\<rparr>)" if "bh_runtime h = None" for r
    using h that gateway_ok_same [of "h\<lparr>bh_runtime := Some r\<rparr>" h] ticket_ok_same [of "h\<lparr>bh_runtime := Some r\<rparr>" h]
    by (auto simp: browser_inv_def list_all_iff publication_ok_def owns_runtime_def)
  with h show ?thesis by (auto simp: runtime_register_def Let_def split: option.splits)
qed

lemma browser_inv_runtime_remove: "browser_inv h \<Longrightarrow> browser_inv (snd (runtime_remove owner p h))"
proof -
  assume h: "browser_inv h"
  have "browser_inv (h'\<lparr>bh_mounts := keep_if (\<lambda>_ p. pub_runtime p \<noteq> i) (bh_mounts h'), bh_runtime := None\<rparr>)"
    if h': "h' = close_where (\<lambda>g. gateway_runtime h g = i) h" and i: "i \<noteq> []" "bh_runtime h = Some r" "rt_id r = i" for h' i r
  proof -
    have inv: "browser_inv h'" using browser_inv_close_where [OF h] h' by simp
    have "keys_distinct (bh_gateways h)" using h by (simp add: browser_inv_def)
    then have "list_all (\<lambda>(_, g). \<forall>p. map_of (bh_mounts h') (bg_publication g) = Some p \<longrightarrow> pub_runtime p \<noteq> i) (bh_gateways h')"
      by (auto simp: h' gateways_close_where list_all_iff gateway_runtime_def)
    from browser_inv_drop [OF inv this, of None] i h' show ?thesis
      by (simp add: keep_if_def owns_runtime_def)
  qed
  with h show ?thesis by (auto simp: runtime_remove_def Let_def split: option.splits)
qed

lemma browser_inv_publication_remove: "browser_inv h \<Longrightarrow> browser_inv (snd (publication_remove owner p h))"
proof -
  assume h: "browser_inv h"
  have "browser_inv (h'\<lparr>bh_mounts := AList.delete i (bh_mounts h')\<rparr>)"
    if h': "h' = close_where (\<lambda>g. bg_publication g = i) h" for h' i
  proof -
    have inv: "browser_inv h'" using browser_inv_close_where [OF h] h' by simp
    have ids: "pub_id p = j" if "(j, p) \<in> set (bh_mounts h')" for j p
      using inv that by (auto simp: browser_inv_def list_all_iff publication_ok_def)
    then have eq: "AList.delete i (bh_mounts h') = filter (\<lambda>(_, p). pub_id p \<noteq> i) (bh_mounts h')"
      by (auto simp: AList.delete_eq intro!: filter_cong)
    have "keys_distinct (bh_gateways h)" using h by (simp add: browser_inv_def)
    then have "list_all (\<lambda>(_, g). \<forall>p. map_of (bh_mounts h') (bg_publication g) = Some p \<longrightarrow> pub_id p \<noteq> i) (bh_gateways h')"
      using ids by (auto simp: h' gateways_close_where list_all_iff dest!: map_of_SomeD)
    from browser_inv_drop [OF inv this, of "bh_runtime h'"] show ?thesis
      by (simp add: eq owns_runtime_def)
  qed
  with h show ?thesis by (auto simp: publication_remove_def Let_def split: option.splits)
qed

lemma browser_inv_publication_register:
  assumes h: "browser_inv h" and fresh: "\<And>i. new_id = Some i \<Longrightarrow> map_of (bh_mounts h) i = None" and "\<not> bh_closed h"
  shows "browser_inv (snd (publication_register owner new_id p h))"
proof -
  have add: "browser_inv (h\<lparr>bh_mounts := AList.update i q (bh_mounts h)\<rparr>)"
    if "new_id = Some i" "publication_ok h i q" "list_all (\<lambda>(_, r). \<not> Overlap (pub_mount r) (pub_mount q)) (bh_mounts h)"
      "length (bh_mounts h) < 256" for i q
  proof -
    let ?h = "h\<lparr>bh_mounts := bh_mounts h @ [(i, q)]\<rparr>"
    have i: "i \<notin> fst ` set (bh_mounts h)" using fresh [OF that(1)] by (simp add: map_of_eq_None_iff)
    have "gateway_ok ?h g" if "(j, g) \<in> set (bh_gateways h)" for j g
      using that h by (fastforce simp: browser_inv_def list_all_iff gateway_ok_def split: option.splits)
    then have "browser_inv ?h"
      using h that i assms(3)
      by (auto simp: browser_inv_def list_all_iff sorted_wrt_append apart_def publication_ok_same [of ?h h] ticket_ok_same [of ?h h])
    then show ?thesis using i by (simp add: update_fresh)
  qed
  then show ?thesis
    using h by (auto simp: publication_register_def Let_def publication_ok_def list_all_iff list_ex_iff case_prod_unfold
        intro!: add split: option.splits)
qed

lemma browser_inv_gateway_open:
  assumes h: "browser_inv h" and fresh: "\<And>i. new_id = Some i \<Longrightarrow> map_of (bh_gateways h) i = None"
    and base: "bh_base h \<noteq> [] \<Longrightarrow> base = bh_base h" and "\<not> bh_closed h"
  shows "browser_inv (snd (gateway_open_call owner base new_id p h))"
proof -
  have add: "browser_inv (h\<lparr>bh_gateways := AList.update i g (bh_gateways h), bh_serials := n\<rparr>)"
    if "new_id = Some i" "gateway_ok h g" "length (bh_gateways h) < 64" for i g n
  proof -
    let ?h = "h\<lparr>bh_gateways := bh_gateways h @ [(i, g)], bh_serials := n\<rparr>"
    have i: "i \<notin> fst ` set (bh_gateways h)" using fresh [OF that(1)] by (simp add: map_of_eq_None_iff)
    have "ticket_ok ?h t" if "(j, t) \<in> set (bh_tickets h)" for j t
      using that h by (fastforce simp: browser_inv_def list_all_iff ticket_ok_def split: option.splits)
    then have "browser_inv ?h"
      using h that i assms(4)
      by (auto simp: browser_inv_def list_all_iff publication_ok_same [of ?h h] gateway_ok_same [of ?h h])
    then show ?thesis using i by (simp add: update_fresh)
  qed
  moreover have "gateway_ok h \<lparr>bg_serial = s, bg_owner = pub_owner q, bg_publication = pub_id q,
      bg_gateway = new_gateway (gateway_config_of base p q) u, bg_attached = False\<rparr>"
    if "map_of (bh_mounts h) (go_publication p) = Some q" "New (gateway_config_of base p q) = Inr u" for p q u s
  proof -
    have "pub_id q = go_publication p"
      using h map_of_SomeD [OF that(1)] by (auto simp: browser_inv_def list_all_iff publication_ok_def)
    with that base show ?thesis by (auto simp: gateway_ok_def new_gateway_def gateway_config_of_def)
  qed
  ultimately show ?thesis
    using h by (auto simp: gateway_open_call_def Let_def intro!: add split: option.splits sum.splits)
qed

lemma browser_inv_tickets:
  assumes "browser_inv h" "keys_distinct ts" "list_all (\<lambda>(_, t). ticket_ok h t) ts" "length ts \<le> 256"
  shows "browser_inv (h\<lparr>bh_tickets := ts\<rparr>)"
proof -
  let ?h = "h\<lparr>bh_tickets := ts\<rparr>"
  show ?thesis
    using assms publication_ok_same [of ?h h] gateway_ok_same [of ?h h] ticket_ok_same [of ?h h]
    by (simp add: browser_inv_def)
qed

lemma browser_inv_drop_ticket: "browser_inv h \<Longrightarrow> browser_inv (h\<lparr>bh_tickets := AList.delete t (bh_tickets h)\<rparr>)"
  by (rule browser_inv_tickets)
     (auto simp: browser_inv_def AList.delete_eq list_all_iff distinct_map_filter intro: order_trans [OF length_filter_le])

lemma browser_inv_expire: "browser_inv h \<Longrightarrow> browser_inv (h\<lparr>bh_tickets := keep_if P (bh_tickets h)\<rparr>)"
  by (rule browser_inv_tickets)
     (auto simp: browser_inv_def keep_if_def list_all_iff distinct_map_filter intro: order_trans [OF length_filter_le])

lemma browser_inv_stream_ticket: "browser_inv h \<Longrightarrow> browser_inv (snd (stream_ticket owner now i p h))"
proof -
  assume h: "browser_inv h"
  let ?live = "h\<lparr>bh_tickets := keep_if (\<lambda>_ t. now \<le> tk_expires t) (bh_tickets h)\<rparr>"
  have live: "browser_inv ?live" by (rule browser_inv_expire [OF h])
  have "browser_inv (?live\<lparr>bh_tickets := AList.update t k (bh_tickets ?live)\<rparr>)"
    if "ticket_ok h k" "length (bh_tickets ?live) < 256" for t k
  proof (rule browser_inv_tickets [OF live])
    have "set (AList.update t k (bh_tickets ?live)) \<subseteq> insert (t, k) (set (bh_tickets ?live))"
      using set_update_sub by fastforce
    then show "list_all (\<lambda>(_, t). ticket_ok ?live t) (AList.update t k (bh_tickets ?live))"
      using live that(1) ticket_ok_same [of ?live h] by (auto simp: browser_inv_def list_all_iff)
    show "length (AList.update t k (bh_tickets ?live)) \<le> 256"
      using that(2) length_update_le [of t k "bh_tickets ?live"] by (auto split: if_splits)
  qed (use live in \<open>simp add: browser_inv_def\<close>)
  then show ?thesis
    using h live by (auto simp: stream_ticket_def Let_def ticket_ok_def available_def split: option.splits)
qed

lemma browser_inv_attach: "browser_inv h \<Longrightarrow> browser_inv (snd (attach owner i h))"
proof -
  assume h: "browser_inv h"
  let ?h = "h\<lparr>bh_gateways := modify i (\<lambda>g. g\<lparr>bg_attached := True\<rparr>) (bh_gateways h)\<rparr>"
  have "gateway_ok h (g\<lparr>bg_attached := True\<rparr>) = gateway_ok h g" for g
    by (simp add: gateway_ok_def split: option.split)
  then have "list_all (\<lambda>(_, g). gateway_ok h g) (bh_gateways ?h)"
    using h by (auto simp: browser_inv_def modify_def list_all_iff)
  moreover have "list_all (\<lambda>(_, t). ticket_ok ?h t) (bh_tickets h)"
    using h by (force simp: browser_inv_def list_all_iff ticket_ok_def map_of_modify split: option.splits)
  moreover have "modify i f t = [] \<longleftrightarrow> t = []" for f and t :: "browser_gateway table"
    by (simp add: modify_def)
  ultimately have "browser_inv ?h"
    using h publication_ok_same [of ?h h] gateway_ok_same [of ?h h] by (simp add: browser_inv_def)
  then show ?thesis using h by (auto simp: attach_def split: option.splits)
qed

lemma close_where_closed: "close_where P (h\<lparr>bh_closed := b\<rparr>) = (close_where P h)\<lparr>bh_closed := b\<rparr>"
proof -
  have one: "closeLocked i (h\<lparr>bh_closed := b\<rparr>) = (closeLocked i h)\<lparr>bh_closed := b\<rparr>" for i h
    by (simp add: closeLocked_def split: option.split)
  have "fold closeLocked is (h\<lparr>bh_closed := b\<rparr>) = (fold closeLocked is h)\<lparr>bh_closed := b\<rparr>" for "is"
    by (induction "is" arbitrary: h) (simp_all add: one)
  then show ?thesis by (simp add: close_where_def)
qed

text \<open>Stopping an owner, with what it owns dropped from a host whose gateways of the owner are closed.\<close>

lemma browser_inv_stop_owner:
  fixes owner :: string
  assumes h: "browser_inv h"
  defines "h1 \<equiv> close_where (\<lambda>g. owner = [] \<or> bg_owner g = owner) h"
    and "keep \<equiv> \<lambda>p :: publication. \<not> (owner = [] \<or> pub_owner p = owner)"
  assumes r: "r = bh_runtime h1 \<or> r = None \<and> (\<forall>q. bh_runtime h1 = Some q \<longrightarrow> owner = [] \<or> rt_owner q = owner)"
  shows "browser_inv (h1\<lparr>bh_mounts := filter (\<lambda>(_, p). keep p) (bh_mounts h1), bh_runtime := r\<rparr>)"
proof -
  have inv: "browser_inv h1" unfolding h1_def by (rule browser_inv_close_where [OF h])
  have d: "keys_distinct (bh_gateways h)" using h by (simp add: browser_inv_def)
  have "list_all (\<lambda>(_, g). \<forall>p. map_of (bh_mounts h1) (bg_publication g) = Some p \<longrightarrow> keep p) (bh_gateways h1)"
    using inv d by (fastforce simp: h1_def gateways_close_where list_all_iff browser_inv_def gateway_ok_def keep_def split: option.splits)
  then show ?thesis
  proof (rule browser_inv_drop [OF inv])
    fix p assume "keep p" "owns_runtime (pub_owner p) (pub_runtime p) h1"
    then obtain q where "owner \<noteq> []" "pub_owner p \<noteq> owner" "bh_runtime h1 = Some q"
        "rt_id q = pub_runtime p" "rt_owner q = pub_owner p"
      by (simp add: owns_runtime_def keep_def split: option.split_asm)
    with r show "owns_runtime (pub_owner p) (pub_runtime p) (h1\<lparr>bh_runtime := r\<rparr>)"
      by (elim disjE) (simp_all add: owns_runtime_def)
  qed
qed

lemma browser_inv_stop: "browser_inv h \<Longrightarrow> browser_inv (browser_stop owner h)"
proof -
  assume h: "browser_inv h"
  let ?h1 = "close_where (\<lambda>g. owner = [] \<or> bg_owner g = owner) h"
  let ?keep = "\<lambda>p :: publication. \<not> (owner = [] \<or> pub_owner p = owner)"
  define after where "after = (\<lambda>r. ?h1\<lparr>bh_mounts := filter (\<lambda>(_, p). ?keep p) (bh_mounts ?h1), bh_runtime := r\<rparr>)"
  define r where "r = (case bh_runtime ?h1 of None \<Rightarrow> None
      | Some q \<Rightarrow> if owner = [] \<or> rt_owner q = owner then None else Some q)"
  have "browser_inv (after r)"
    unfolding after_def by (rule browser_inv_stop_owner [OF h]) (auto simp: r_def split: option.splits)
  moreover have "bh_mounts (after r) = [] \<and> bh_gateways (after r) = []" if "owner = []"
    using that h by (simp add: gateways_close_where browser_inv_def after_def)
  moreover have "browser_inv (x\<lparr>bh_closed := True\<rparr>)" if "browser_inv x" "bh_mounts x = []" "bh_gateways x = []" for x
    using that by (simp add: browser_inv_def list_all_iff ticket_ok_def)
  moreover have "browser_stop owner h = (if owner = [] then (after r)\<lparr>bh_closed := True\<rparr> else after r)"
    by (cases "owner = []"; cases "bh_runtime h")
       (simp_all add: browser_stop_def Let_def close_where_closed keep_if_def r_def after_def)
  ultimately show ?thesis by simp
qed

lemma browser_inv_base: "browser_inv h \<Longrightarrow> browser_inv (snd (SetBrowserBasePath base h))"
  by (auto simp: SetBrowserBasePath_def browser_inv_def list_all_iff publication_ok_def owns_runtime_def ticket_ok_def
      gateway_ok_def split: option.splits)

lemma browser_inv_call:
  assumes h: "browser_inv h" and fresh: "fresh_browser_id (Browser_Call owner base now new_id c) h"
  shows "browser_inv (snd (browser_call owner base now new_id c h))"
proof (cases "bh_closed h")
  case open_host: False
  have ids: "new_id = Some i \<Longrightarrow> map_of (bh_mounts h) i = None" "new_id = Some i \<Longrightarrow> map_of (bh_gateways h) i = None" for i
    using fresh by auto
  define b where "b = (if bh_base h \<noteq> [] then bh_base h else base)"
  have "browser_inv (snd (gateway_close owner p h))" for p
    using h browser_inv_close [OF h] by (simp add: gateway_close_def split: option.split)
  moreover have "browser_inv (snd (gateway_open_call owner b new_id p h))" for p
    by (rule browser_inv_gateway_open [OF h ids(2) _ open_host]) (simp_all add: b_def)
  moreover have "browser_inv (snd (publication_register owner new_id p h))" for p
    by (rule browser_inv_publication_register [OF h ids(1) open_host])
  moreover have "browser_call owner base now new_id c h = (case c of
          Runtime_Register p \<Rightarrow> runtime_register owner new_id p h
        | Runtime_Remove p \<Rightarrow> runtime_remove owner p h
        | Publication_Register p \<Rightarrow> publication_register owner new_id p h
        | Publication_Remove p \<Rightarrow> publication_remove owner p h
        | Gateway_Open p \<Rightarrow> gateway_open_call owner b new_id p h
        | Gateway_Close p \<Rightarrow> gateway_close owner p h
        | Stream_Ticket p \<Rightarrow> stream_ticket owner now new_id p h
        | Unknown_Browser_Call \<Rightarrow> (Inl (browserInvalid ''unknown browser capability''), h))"
    by (simp only: browser_call_def open_host if_False Let_def b_def)
  ultimately show ?thesis
    by (cases c) (simp_all only: browser_call.case snd_conv h browser_inv_runtime_register [OF h] browser_inv_runtime_remove [OF h]
      browser_inv_publication_remove [OF h] browser_inv_stream_ticket [OF h])
qed (simp add: browser_call_def h)

lemma browser_inv_timer: "browser_inv h \<Longrightarrow> browser_inv (gateway_timer i n h) \<and> browser_inv (gateway_ended i n h)"
  by (simp add: gateway_timer_def gateway_ended_def browser_inv_close split: option.split)

lemma browser_inv_consume: "browser_inv h \<Longrightarrow> browser_inv (snd (consume now t h))"
  using browser_inv_drop_ticket [of h t] by (simp add: consume_def split: option.split)

lemma browser_inv_step: "browser_inv h \<Longrightarrow> fresh_browser_id e h \<Longrightarrow> browser_inv (browser_step e h)"
  by (cases e) (simp_all add: browser_inv_call browser_inv_timer browser_inv_consume browser_inv_attach
      browser_inv_stop browser_inv_base del: fresh_browser_id.simps)

interpretation browser: guarded_machine browser_step fresh_browser_id browser_inv
  by unfold_locales (rule browser_inv_step)

lemma mounts_apart:
  "sorted_wrt apart t \<Longrightarrow> (i, p) \<in> set t \<Longrightarrow> (j, q) \<in> set t \<Longrightarrow> Overlap (pub_mount p) (pub_mount q) \<Longrightarrow> (i, p) = (j, q)"
  by (induction t) (auto simp: apart_def Overlap_def)

lemma find_unique:
  assumes "\<And>x y. x \<in> set xs \<Longrightarrow> y \<in> set xs \<Longrightarrow> P x \<Longrightarrow> P y \<Longrightarrow> x = y"
  shows "find P xs = Some x \<longleftrightarrow> x \<in> set xs \<and> P x"
proof (cases "find P xs")
  case None
  then show ?thesis using find_None_iff [of P xs] by simp
next
  case (Some y)
  then have "y \<in> set xs" "P y" by (auto simp: find_Some_iff)
  with Some assms [of x y] show ?thesis by auto
qed

text \<open>In a host that meets the invariant a request path has one publication at most: the lookup is the membership.\<close>

lemma BrowserPublication_unique:
  assumes "browser_inv h"
  shows "BrowserPublication r h = Some p \<longleftrightarrow> p \<in> snd ` set (bh_mounts h) \<and> under (pub_mount p) r"
proof -
  have "p = q" if "p \<in> set (map snd (bh_mounts h))" "q \<in> set (map snd (bh_mounts h))"
      "under (pub_mount p) r" "under (pub_mount q) r" for p q
    using that assms mounts_apart under_both_overlap by (fastforce simp: browser_inv_def)
  then have "find (\<lambda>p. under (pub_mount p) r) (map snd (bh_mounts h)) = Some p
      \<longleftrightarrow> p \<in> set (map snd (bh_mounts h)) \<and> under (pub_mount p) r"
    by (intro find_unique) auto
  then show ?thesis by (simp add: BrowserPublication_def under_def)
qed

subsection \<open>The gateways of an owner\<close>

lemma owner_gateways_close: "owner_gateways a (closeLocked i h) \<le> owner_gateways a h"
  by (simp add: owner_gateways_def closeLocked_def count_if_delete_le split: option.split)

lemma owner_gateways_close_where: "owner_gateways a (close_where P h) \<le> owner_gateways a h"
proof -
  have "owner_gateways a (fold closeLocked is h) \<le> owner_gateways a h" for "is"
    by (induction "is" arbitrary: h) (auto intro: order_trans [OF _ owner_gateways_close])
  then show ?thesis by (simp add: close_where_def)
qed

lemma owner_gateways_open:
  assumes "owner_gateways a h \<le> 8"
  shows "owner_gateways a (snd (gateway_open_call owner base i p h)) \<le> 8"
proof -
  have "count_if (\<lambda>g. bg_owner g = a) (AList.update j g (bh_gateways h)) \<le> 8"
    if "bg_owner g = owner" "\<not> 8 \<le> count_if (\<lambda>g. bg_owner g = owner) (bh_gateways h)" for j and g :: browser_gateway
    using count_if_update_le [of "\<lambda>g. bg_owner g = a" j g "bh_gateways h"] assms that
    by (auto simp: owner_gateways_def split: if_splits)
  with assms show ?thesis
    by (auto simp: gateway_open_call_def owner_gateways_def Let_def split: option.splits sum.splits)
qed

lemma gateways_frame:
  "bh_gateways (snd (runtime_register owner i p h)) = bh_gateways h"
  "bh_gateways (snd (publication_register owner i q h)) = bh_gateways h"
  "bh_gateways (snd (stream_ticket owner now i r h)) = bh_gateways h"
  "bh_gateways (snd (consume now t h)) = bh_gateways h"
  "bh_gateways (snd (SetBrowserBasePath base h)) = bh_gateways h"
  by (simp_all add: runtime_register_def publication_register_def stream_ticket_def consume_def
      SetBrowserBasePath_def Let_def split: option.split prod.split)

lemma owner_gateways_call:
  assumes le: "owner_gateways a h \<le> 8"
  shows "owner_gateways a (snd (browser_call owner base now i c h)) \<le> 8"
proof -
  have same: "owner_gateways a h' \<le> 8" if "bh_gateways h' = bh_gateways h" for h'
    using that le by (simp add: owner_gateways_def)
  have close: "owner_gateways a (close_where P h) \<le> 8" for P
    by (rule order_trans [OF owner_gateways_close_where le])
  have "owner_gateways a (snd (runtime_remove owner p h)) \<le> 8" for p
    using le close by (simp add: runtime_remove_def Let_def owner_gateways_def split: option.split)
  moreover have "owner_gateways a (snd (publication_remove owner p h)) \<le> 8" for p
    using le close by (simp add: publication_remove_def Let_def owner_gateways_def split: option.split)
  moreover have "owner_gateways a (snd (gateway_close owner p h)) \<le> 8" for p
    using le order_trans [OF owner_gateways_close le] by (simp add: gateway_close_def split: option.split)
  ultimately show ?thesis
    unfolding browser_call_def Let_def
    by (cases c) (simp_all add: le owner_gateways_open same gateways_frame)
qed

lemma owner_gateways_step: "owner_gateways a h \<le> 8 \<Longrightarrow> owner_gateways a (browser_step e h) \<le> 8"
proof (cases e)
  case (Browser_Attach owner i)
  assume "owner_gateways a h \<le> 8"
  moreover have "count_if (\<lambda>g. bg_owner g = a) (modify i (\<lambda>g. g\<lparr>bg_attached := True\<rparr>) (bh_gateways h))
      = count_if (\<lambda>g. bg_owner g = a) (bh_gateways h)"
    by (rule count_if_modify_eq) simp
  ultimately show ?thesis
    by (simp add: Browser_Attach attach_def owner_gateways_def split: option.split)
next
  case (Browser_Stop owner)
  assume h: "owner_gateways a h \<le> 8"
  have "owner_gateways a (browser_stop owner h) = owner_gateways a (close_where (\<lambda>g. owner = [] \<or> bg_owner g = owner) h)"
    by (simp add: browser_stop_def Let_def owner_gateways_def close_where_closed split: option.split)
  with h show ?thesis
    using order_trans [OF owner_gateways_close_where] by (simp add: Browser_Stop)
next
  case (Gateway_Timer i n)
  then show "owner_gateways a h \<le> 8 \<Longrightarrow> ?thesis"
    using order_trans [OF owner_gateways_close] by (simp add: gateway_timer_def split: option.split)
next
  case (Gateway_Ended i n)
  then show "owner_gateways a h \<le> 8 \<Longrightarrow> ?thesis"
    using order_trans [OF owner_gateways_close] by (simp add: gateway_ended_def split: option.split)
qed (simp_all add: owner_gateways_call, simp_all add: owner_gateways_def gateways_frame)

interpretation browser_owner: machine browser_step "\<lambda>h. owner_gateways a h \<le> 8"
  by unfold_locales (rule owner_gateways_step)

text \<open>C26: Whatever calls, timers and browser events come in whatever order (with identifiers that are not in use),
  a request path belongs to at most one publication, and the lookup finds it exactly when it is under the mount
  of a registered one; every gateway forwards to the upstream it was configured with and hangs under a live
  publication of its own owner, every stream ticket leads to a live gateway of its owner, a publication that
  uses a runtime uses the active one of its owner, and no owner has more than 8 gateways, all owners together no
  more than 64 gateways, 256 publications and 256 tickets.\<close>

theorem browser_routes:
  assumes "admissible browser_step fresh_browser_id es newBrowserPublications"
  shows "(let h = run browser_step es newBrowserPublications in
    (BrowserPublication r h = Some p \<longleftrightarrow> p \<in> snd ` set (bh_mounts h) \<and> (r = pub_mount p \<or> prefix (pub_mount p @ ''/'') r))
    \<and> list_all (\<lambda>(_, g). gateway_ok h g) (bh_gateways h)
    \<and> list_all (\<lambda>(_, t). ticket_ok h t) (bh_tickets h)
    \<and> list_all (\<lambda>(_, p). pub_runtime p \<noteq> [] \<longrightarrow> owns_runtime (pub_owner p) (pub_runtime p) h) (bh_mounts h)
    \<and> count_if (\<lambda>g. bg_owner g = a) (bh_gateways h) \<le> 8
    \<and> length (bh_gateways h) \<le> 64 \<and> length (bh_mounts h) \<le> 256 \<and> length (bh_tickets h) \<le> 256)"
proof -
  have "browser_inv (run browser_step es newBrowserPublications)"
    by (rule browser.run_inv [OF browser_inv_new assms])
  moreover have "owner_gateways a (run browser_step es newBrowserPublications) \<le> 8"
    by (rule browser_owner.run_inv) (simp add: owner_gateways_def newBrowserPublications_def)
  ultimately show ?thesis
    using BrowserPublication_unique by (auto simp: Let_def browser_inv_def publication_ok_def list_all_iff under_def owner_gateways_def)
qed

definition sample_browser_events :: "browser_event list" where
  "sample_browser_events =
     [Browser_Call ''docker'' ''/'' 0 (Some ''m1'') (Publication_Register (Some (''/docker/app'', ''web/app.js'', ''web/sw.js'', []))),
      Browser_Call ''docker'' ''/'' 0 (Some ''g1'') (Gateway_Open (Some
        \<lparr>go_publication = ''m1'', go_upstream_url = ''http://localhost:8080'', go_upstream_base = ''/'', go_base_header = [],
         go_base_header_value = [], go_insecure = False, go_forward_host = False, go_forward_scheme = False,
         go_public_host = [], go_public_scheme = [], go_custom = []\<rparr>)),
      Browser_Call ''docker'' ''/'' 0 (Some ''t1'') (Stream_Ticket (Some ''g1''))]"

lemma sample_browser_admissible: "admissible browser_step fresh_browser_id sample_browser_events newBrowserPublications"
  by code_simp

theorem browser_routes_witness:
  "admissible browser_step fresh_browser_id sample_browser_events newBrowserPublications
    \<and> (let h = run browser_step sample_browser_events newBrowserPublications in
        length (bh_tickets h) = 1 \<and> list_all (\<lambda>(_, t). ticket_ok h t) (bh_tickets h)
        \<and> length (bh_gateways h) = 1 \<and> list_all (\<lambda>(_, g). gateway_ok h g) (bh_gateways h)
        \<and> BrowserPublication ''/docker/app/x.js'' h = map_of (bh_mounts h) ''m1''
        \<and> BrowserPublication ''/docker/apple'' h = None)"
proof -
  have "length (bh_tickets (run browser_step sample_browser_events newBrowserPublications)) = 1
      \<and> length (bh_gateways (run browser_step sample_browser_events newBrowserPublications)) = 1
      \<and> BrowserPublication ''/docker/app/x.js'' (run browser_step sample_browser_events newBrowserPublications)
          = map_of (bh_mounts (run browser_step sample_browser_events newBrowserPublications)) ''m1''
      \<and> BrowserPublication ''/docker/apple'' (run browser_step sample_browser_events newBrowserPublications) = None"
    by code_simp
  then show ?thesis
    using browser_routes [OF sample_browser_admissible] unfolding Let_def
    by (intro conjI sample_browser_admissible) blast+
qed

subsection \<open>Tickets\<close>


definition ticket_held :: "string \<Rightarrow> stream_grant \<Rightarrow> browser_host \<Rightarrow> nat" where
  "ticket_held t g h = of_bool (list_ex (\<lambda>(u, k). u = t \<and> gr_owner k = gr_owner g \<and> gr_stream k = gr_stream g) (bh_tickets h))"

fun ticket_issued :: "string \<Rightarrow> stream_grant \<Rightarrow> browser_event \<Rightarrow> browser_host \<Rightarrow> nat" where
  "ticket_issued t g (Browser_Call owner base now i (Stream_Ticket (Some s))) h =
     of_bool (owner = gr_owner g \<and> s = gr_stream g \<and> fst (browser_call owner base now i (Stream_Ticket (Some s)) h) = Inr (Answer_Ticket t))"
| "ticket_issued t g _ h = 0"

fun ticket_granted :: "string \<Rightarrow> stream_grant \<Rightarrow> browser_event \<Rightarrow> browser_host \<Rightarrow> nat" where
  "ticket_granted t g (Browser_Consume now u) h = of_bool (u = t \<and> fst (consume now u h) = Some g)"
| "ticket_granted t g _ h = 0"

lemma ticket_held_mono:
  "set (bh_tickets h') \<subseteq> set (bh_tickets h) \<Longrightarrow> ticket_held t g h' \<le> ticket_held t g h"
  by (auto simp: ticket_held_def list_ex_iff)

lemma tickets_closeLocked: "set (bh_tickets (closeLocked i h)) \<subseteq> set (bh_tickets h)"
  by (auto simp: closeLocked_def keep_if_def split: option.split)

lemma tickets_close_where: "set (bh_tickets (close_where P h)) \<subseteq> set (bh_tickets h)"
proof -
  have "set (bh_tickets (fold closeLocked is h)) \<subseteq> set (bh_tickets h)" for "is"
    by (induction "is" arbitrary: h) (auto dest: subsetD [OF tickets_closeLocked])
  then show ?thesis by (simp add: close_where_def)
qed

lemma tickets_call:
  "\<nexists>s. c = Stream_Ticket s \<Longrightarrow> set (bh_tickets (snd (browser_call owner base now i c h))) \<subseteq> set (bh_tickets h)"
  by (cases c)
     (auto simp: browser_call_def Let_def runtime_register_def runtime_remove_def publication_register_def
        publication_remove_def gateway_open_call_def gateway_close_def
        dest: subsetD [OF tickets_closeLocked] subsetD [OF tickets_close_where] split: option.splits sum.splits if_splits)

lemma ticket_held_le: "ticket_held t g h \<le> 1"
  by (simp add: ticket_held_def)

lemma ticket_held_stream_ticket:
  "ticket_held t g (snd (stream_ticket owner now i (Some s) h))
     \<le> ticket_held t g h + of_bool (owner = gr_owner g \<and> s = gr_stream g
          \<and> fst (stream_ticket owner now i (Some s) h) = Inr (Answer_Ticket t))"
proof -
  let ?live = "keep_if (\<lambda>_ k. now \<le> tk_expires k) (bh_tickets h)"
  have live: "set ?live \<subseteq> set (bh_tickets h)" by (auto simp: keep_if_def)
  have upd: "ticket_held t g (h\<lparr>bh_tickets := AList.update u \<lparr>gr_owner = owner, gr_stream = s, tk_expires = now + minute\<rparr> ?live\<rparr>)
      \<le> ticket_held t g h + of_bool (owner = gr_owner g \<and> s = gr_stream g \<and> u = t)" (is "ticket_held t g ?h \<le> _") for u
  proof (cases "owner = gr_owner g \<and> s = gr_stream g \<and> u = t")
    case True
    then show ?thesis using ticket_held_le [of t g ?h] by simp
  next
    case False
    have "set (bh_tickets ?h) \<subseteq> insert (u, \<lparr>gr_owner = owner, gr_stream = s, tk_expires = now + minute\<rparr>) (set (bh_tickets h))"
      using set_update_sub [of u _ ?live] live by fastforce
    with False show ?thesis by (force simp: ticket_held_def list_ex_iff)
  qed
  have old: "ticket_held t g (h\<lparr>bh_tickets := ?live\<rparr>) \<le> ticket_held t g h"
    by (rule ticket_held_mono) (simp add: live)
  show ?thesis
  proof (cases i)
    case None
    with old show ?thesis by (simp add: stream_ticket_def Let_def)
  next
    case (Some u)
    with old upd [of u] show ?thesis by (simp add: stream_ticket_def Let_def)
  qed
qed

lemma ticket_held_consume:
  "of_bool (u = t \<and> fst (consume now u h) = Some g) + ticket_held t g (snd (consume now u h)) \<le> ticket_held t g h"
proof (cases "map_of (bh_tickets h) u")
  case (Some k)
  have less: "ticket_held t g (h\<lparr>bh_tickets := AList.delete u (bh_tickets h)\<rparr>) \<le> (if u = t then 0 else ticket_held t g h)"
    by (auto simp: ticket_held_def list_ex_iff AList.delete_eq)
  have "ticket_held t g h = 1" if "u = t" "gr_owner k = gr_owner g" "gr_stream k = gr_stream g"
    using map_of_SomeD [OF Some] that by (force simp: ticket_held_def list_ex_iff)
  with less Some show ?thesis by (auto simp: consume_def split: if_splits)
qed (simp add: consume_def)

lemma ticket_balance:
  "ticket_granted t g e h + ticket_held t g (browser_step e h) \<le> ticket_held t g h + ticket_issued t g e h"
proof (cases e)
  case (Browser_Call owner base now i c)
  show ?thesis
  proof (cases "bh_closed h")
    case True
    then show ?thesis by (simp add: Browser_Call browser_call_def)
  next
    case open_host: False
    show ?thesis
    proof (cases "\<exists>s. c = Stream_Ticket (Some s)")
      case True
      then obtain s where c: "c = Stream_Ticket (Some s)" ..
      have "browser_call owner base now i c h = stream_ticket owner now i (Some s) h"
        by (simp add: browser_call_def open_host c)
      then show ?thesis
        using ticket_held_stream_ticket [of t g owner now i s h] by (simp add: Browser_Call c)
    next
      case False
      have "set (bh_tickets (snd (browser_call owner base now i c h))) \<subseteq> set (bh_tickets h)"
      proof (cases "c = Stream_Ticket None")
        case False
        with \<open>\<nexists>s. c = Stream_Ticket (Some s)\<close> show ?thesis
          by (intro tickets_call) (metis option.exhaust)
      qed (simp add: browser_call_def stream_ticket_def)
      then show ?thesis by (simp add: Browser_Call ticket_held_mono trans_le_add1)
    qed
  qed
next
  case (Browser_Consume now u)
  then show ?thesis using ticket_held_consume [of u t now h g] by simp
next
  case (Browser_Stop owner)
  have "set (bh_tickets (browser_stop owner h)) \<subseteq> set (bh_tickets h)"
    by (auto simp: browser_stop_def Let_def dest: subsetD [OF tickets_close_where] split: option.splits if_splits)
  then show ?thesis by (simp add: Browser_Stop ticket_held_mono)
qed (auto simp: ticket_held_mono gateway_timer_def gateway_ended_def tickets_closeLocked attach_def SetBrowserBasePath_def
      split: option.splits)

interpretation tickets: ledger browser_step "ticket_granted t g" "ticket_issued t g" "ticket_held t g"
  by unfold_locales (rule ticket_balance)

text \<open>A stream ticket grants only what it was issued for and is good for one use: over any run whatever, the
  browser is granted a stream of an owner with a ticket at most as often as that owner was issued that ticket
  for that stream.\<close>

theorem tickets_single_use:
  "tally browser_step (ticket_granted t g) es newBrowserPublications
     \<le> tally browser_step (ticket_issued t g) es newBrowserPublications"
  using tickets.run_balance [of t g es newBrowserPublications]
  by (simp add: ticket_held_def newBrowserPublications_def)

end
