(* ===== verification/Base64.thy ===== *)
theory Base64
  imports Prelude
begin

section \<open>Base64\<close>

text \<open>
  Go's \<^verbatim>\<open>encoding/base64\<close> as the sources use it: the unpadded standard alphabet
  (\<^verbatim>\<open>RawStdEncoding\<close>).  Three bytes are a number of 24 bits and four symbols of 6 bits; a last group of
  one or two bytes is filled with zero bits and loses the symbols that carry no bit of it.  Decoding skips
  line breaks and ignores the bits that a short group leaves over.
\<close>

definition b64_symbols :: string where
  "b64_symbols = ''ABCDEFGHIJKLMNOPQRSTUVWXYZabcdefghijklmnopqrstuvwxyz0123456789+/''"

definition b64_symbol :: "nat \<Rightarrow> char" where
  "b64_symbol i = b64_symbols ! i"

definition b64_digit :: "char \<Rightarrow> nat option" where
  "b64_digit c = (let i = length (takeWhile (\<lambda>x. x \<noteq> c) b64_symbols) in if i < 64 then Some i else None)"

definition b64_digits :: "nat \<Rightarrow> nat list" where
  "b64_digits n = [n div 262144 mod 64, n div 4096 mod 64, n div 64 mod 64, n mod 64]"

definition b64_group :: "nat \<Rightarrow> string" where
  "b64_group n = map b64_symbol (b64_digits n)"

definition b64_number :: "char \<Rightarrow> char \<Rightarrow> char \<Rightarrow> nat" where
  "b64_number a b c = 65536 * of_char a + 256 * of_char b + of_char c"

fun b64_encode :: "string \<Rightarrow> string" where
  "b64_encode [] = []"
| "b64_encode [a] = take 2 (b64_group (b64_number a (CHR 0x00) (CHR 0x00)))"
| "b64_encode [a, b] = take 3 (b64_group (b64_number a b (CHR 0x00)))"
| "b64_encode (a # b # c # rest) = b64_group (b64_number a b c) @ b64_encode rest"

definition b64_bytes :: "nat \<Rightarrow> string" where
  "b64_bytes n = map char_of [n div 65536 mod 256, n div 256 mod 256, n mod 256]"

fun b64_decode_digits :: "nat list \<Rightarrow> string option" where
  "b64_decode_digits [] = Some []"
| "b64_decode_digits [_] = None"
| "b64_decode_digits [w, x] = Some (take 1 (b64_bytes (262144 * w + 4096 * x)))"
| "b64_decode_digits [w, x, y] = Some (take 2 (b64_bytes (262144 * w + 4096 * x + 64 * y)))"
| "b64_decode_digits (w # x # y # z # rest) =
     map_option (\<lambda>r. b64_bytes (262144 * w + 4096 * x + 64 * y + z) @ r) (b64_decode_digits rest)"

definition b64_decode :: "string \<Rightarrow> string option" where
  "b64_decode s =
     (let ds = map b64_digit (filter (\<lambda>c. c \<noteq> CHR 0x0A \<and> c \<noteq> CHR 0x0D) s)
      in if None \<in> set ds then None else b64_decode_digits (map the ds))"

subsection \<open>Decoding what was encoded\<close>

lemma b64_digits_table:
  "list_all (\<lambda>i. b64_digit (b64_symbol i) = Some i \<and> b64_symbol i \<noteq> CHR 0x0A \<and> b64_symbol i \<noteq> CHR 0x0D
      \<and> b64_symbol i \<noteq> CHR ''$'') [0..<64]"
  by code_simp

lemma b64_digit_symbol:
  "i < 64 \<Longrightarrow> b64_digit (b64_symbol i) = Some i"
  "i < 64 \<Longrightarrow> b64_symbol i \<noteq> CHR 0x0A" "i < 64 \<Longrightarrow> b64_symbol i \<noteq> CHR 0x0D" "i < 64 \<Longrightarrow> b64_symbol i \<noteq> CHR ''$''"
  using b64_digits_table by (auto simp: list_all_iff)

lemma char_bound: "(of_char (c :: char) :: nat) < 256"
  by (rule nat_of_char_less_256)

lemma b64_number_bound: "b64_number a b c < 16777216"
  using char_bound [of a] char_bound [of b] char_bound [of c] unfolding b64_number_def by linarith

lemma div_mod_low: "r < m \<Longrightarrow> (r + m * k) div m = k" "r < m \<Longrightarrow> (r + m * k) mod m = r" for r m k :: nat
  by simp_all

lemma b64_number_parts:
  "b64_number a b c div 65536 = of_char a" "b64_number a b c div 256 mod 256 = of_char b"
  "b64_number a b c mod 256 = of_char c"
proof -
  have n: "b64_number a b c = of_char c + 256 * (of_char b + 256 * of_char a)" by (simp add: b64_number_def)
  have low: "b64_number a b c div 256 = of_char b + 256 * of_char a"
    unfolding n by (rule div_mod_low [OF char_bound])
  show "b64_number a b c mod 256 = of_char c" unfolding n by (rule div_mod_low [OF char_bound])
  show "b64_number a b c div 256 mod 256 = of_char b" unfolding low by (rule div_mod_low [OF char_bound])
  have "b64_number a b c div 65536 = b64_number a b c div 256 div 256" by (simp flip: div_mult2_eq)
  then show "b64_number a b c div 65536 = of_char a" unfolding low by (simp only: div_mod_low [OF char_bound])
qed

lemma b64_bytes_number: "b64_bytes (b64_number a b c) = [a, b, c]"
  using char_bound [of a] by (simp add: b64_bytes_def b64_number_parts)

lemma b64_digits_cases:
  assumes "n < 16777216"
  obtains w x y z where "b64_digits n = [w, x, y, z]" "w < 64" "x < 64" "y < 64" "z < 64"
    "262144 * w + 4096 * x + 64 * y + z = n"
proof
  define a b c where "a = n div 64" and "b = a div 64" and "c = b div 64"
  have div: "n div 4096 = b" "n div 262144 = c" by (simp_all add: a_def b_def c_def flip: div_mult2_eq)
  have "c mod 64 = c" using assms by (simp flip: div(2))
  moreover have "n = 64 * a + n mod 64" "a = 64 * b + a mod 64" "b = 64 * c + b mod 64"
    by (simp_all add: a_def b_def c_def)
  ultimately show "262144 * (n div 262144 mod 64) + 4096 * (n div 4096 mod 64) + 64 * (n div 64 mod 64) + n mod 64 = n"
    unfolding div a_def [symmetric] by linarith
qed (simp_all add: b64_digits_def)

lemma b64_short_groups:
  assumes "b64_digits (b64_number a b c) = [w, x, y, z]"
  shows "c = CHR 0x00 \<Longrightarrow> z = 0" "b = CHR 0x00 \<Longrightarrow> c = CHR 0x00 \<Longrightarrow> y = 0"
proof -
  have "z = b64_number a b c mod 64" "y = b64_number a b c div 64 mod 64"
    using assms by (simp_all add: b64_digits_def)
  then show "c = CHR 0x00 \<Longrightarrow> z = 0" "b = CHR 0x00 \<Longrightarrow> c = CHR 0x00 \<Longrightarrow> y = 0"
    by (simp_all add: b64_number_def mod_add_eq flip: div_mult2_eq)
qed

lemma b64_decode_digits_encode:
  "list_all (\<lambda>c. \<exists>i<64. c = b64_symbol i) (b64_encode s)
   \<and> b64_decode_digits (map (\<lambda>c. the (b64_digit c)) (b64_encode s)) = Some s"
proof (induction s rule: b64_encode.induct)
  case (2 a)
  obtain w x y z where "b64_digits (b64_number a (CHR 0x00) (CHR 0x00)) = [w, x, y, z]" "w < 64" "x < 64"
      "262144 * w + 4096 * x + 64 * y + z = b64_number a (CHR 0x00) (CHR 0x00)"
    by (rule b64_digits_cases [OF b64_number_bound])
  then show ?case
    using b64_short_groups [of a "CHR 0x00" "CHR 0x00" w x y z] b64_bytes_number [of a "CHR 0x00" "CHR 0x00"]
    by (auto simp: b64_group_def b64_digit_symbol)
next
  case (3 a b)
  obtain w x y z where "b64_digits (b64_number a b (CHR 0x00)) = [w, x, y, z]" "w < 64" "x < 64" "y < 64"
      "262144 * w + 4096 * x + 64 * y + z = b64_number a b (CHR 0x00)"
    by (rule b64_digits_cases [OF b64_number_bound])
  then show ?case
    using b64_short_groups [of a b "CHR 0x00" w x y z] b64_bytes_number [of a b "CHR 0x00"]
    by (auto simp: b64_group_def b64_digit_symbol numeral_3_eq_3)
next
  case (4 a b c rest)
  obtain w x y z where "b64_digits (b64_number a b c) = [w, x, y, z]" "w < 64" "x < 64" "y < 64" "z < 64"
      "262144 * w + 4096 * x + 64 * y + z = b64_number a b c"
    by (rule b64_digits_cases [OF b64_number_bound])
  with 4 show ?case by (auto simp: b64_group_def b64_digit_symbol b64_bytes_number)
qed simp

lemma b64_symbols_decode:
  "list_all (\<lambda>c. \<exists>i<64. c = b64_symbol i) s \<Longrightarrow> b64_decode s = b64_decode_digits (map (\<lambda>c. the (b64_digit c)) s)"
proof -
  assume s: "list_all (\<lambda>c. \<exists>i<64. c = b64_symbol i) s"
  then have "filter (\<lambda>c. c \<noteq> CHR 0x0A \<and> c \<noteq> CHR 0x0D) s = s"
    using b64_digit_symbol(2,3) by (fastforce simp: list_all_iff filter_id_conv)
  moreover have "None \<notin> set (map b64_digit s)"
    using s by (force simp: list_all_iff b64_digit_symbol)
  ultimately show ?thesis by (simp add: b64_decode_def Let_def comp_def)
qed

lemma b64_decode_encode [simp]: "b64_decode (b64_encode s) = Some s"
  using b64_decode_digits_encode [of s] by (simp add: b64_symbols_decode)

lemma b64_encode_no_dollar: "CHR ''$'' \<notin> set (b64_encode s)"
  using b64_decode_digits_encode [of s] b64_digit_symbol(4) by (fastforce simp: list_all_iff)

end
