(* ===== verification/Passwords.thy ===== *)
theory Passwords
  imports Base64 Urls
begin

section \<open>Passwords and the login throttle\<close>

text \<open>
  Models the credential part of \<^verbatim>\<open>internal/web/auth.go\<close> and \<open>handleLogin\<close> of
  \<^verbatim>\<open>internal/web/server.go\<close>.  Argon2id is a library outside the repository: its function (password, salt,
  iterations, memory, threads, length of the key) is the parameter \<open>argon\<close>.  Instants are nanoseconds.
\<close>

type_synonym key_function = "string \<Rightarrow> string \<Rightarrow> nat \<Rightarrow> nat \<Rightarrow> nat \<Rightarrow> nat \<Rightarrow> string"

definition argonTime :: nat where
  "argonTime = 3"

definition argonMemory :: nat where
  "argonMemory = 65536"

definition argonThreads :: nat where
  "argonThreads = 2"

definition argonKeyLength :: nat where
  "argonKeyLength = 32"

subsection \<open>Password records\<close>

text \<open>The salt is what the random source answers (none when it fails).\<close>

definition password_record :: "nat \<Rightarrow> nat \<Rightarrow> nat \<Rightarrow> string \<Rightarrow> string \<Rightarrow> string" where
  "password_record memory iterations threads salt h =
     ''$argon2id$v=19$m='' @ itoa (int memory) @ '',t='' @ itoa (int iterations) @ '',p='' @ itoa (int threads)
       @ ''$'' @ b64_encode salt @ ''$'' @ b64_encode h"

definition hashPassword :: "key_function \<Rightarrow> string option \<Rightarrow> string \<Rightarrow> string option" where
  "hashPassword argon salt password =
     map_option (\<lambda>s. password_record argonMemory argonTime argonThreads s
       (argon password s argonTime argonMemory argonThreads argonKeyLength)) salt"

text \<open>\<^verbatim>\<open>strconv.ParseUint\<close> in base ten.\<close>

definition ParseUint :: "nat \<Rightarrow> string \<Rightarrow> nat option" where
  "ParseUint bits s =
     (if s = [] \<or> \<not> list_all is_digit s \<or> 2 ^ bits \<le> digits_value s then None else Some (digits_value s))"

definition record_parameters :: "string \<Rightarrow> (nat \<times> nat \<times> nat) option" where
  "record_parameters s =
     (case split_on (CHR '','') s of
        [m, t, p] \<Rightarrow>
          if \<not> prefix ''m='' m \<or> \<not> prefix ''t='' t \<or> \<not> prefix ''p='' p then None
          else (case (ParseUint 32 (trim_prefix ''m='' m), ParseUint 32 (trim_prefix ''t='' t), ParseUint 8 (trim_prefix ''p='' p)) of
              (Some memory, Some iterations, Some threads) \<Rightarrow>
                if memory < 8 * 1024 \<or> 256 * 1024 < memory \<or> iterations = 0 \<or> 10 < iterations \<or> threads = 0 \<or> 8 < threads
                then None else Some (memory, iterations, threads)
            | _ \<Rightarrow> None)
      | _ \<Rightarrow> None)"

definition record_bytes :: "string \<Rightarrow> string option" where
  "record_bytes s =
     (case b64_decode s of
        None \<Rightarrow> None
      | Some b \<Rightarrow> if length b < 16 \<or> 64 < length b then None else Some b)"

definition verifyPassword :: "key_function \<Rightarrow> string \<Rightarrow> string \<Rightarrow> bool" where
  "verifyPassword argon encoded password =
     (case split_on (CHR ''$'') encoded of
        [_, kind, version, parameters, salt_text, hash_text] \<Rightarrow>
          if kind \<noteq> ''argon2id'' \<or> version \<noteq> ''v=19'' then False
          else (case record_parameters parameters of
              None \<Rightarrow> False
            | Some (memory, iterations, threads) \<Rightarrow>
                (case (record_bytes salt_text, record_bytes hash_text) of
                   (Some salt, Some expected) \<Rightarrow>
                     argon password salt iterations memory threads (length expected) = expected
                 | _ \<Rightarrow> False))
      | _ \<Rightarrow> False)"

definition validCredentials :: "string \<Rightarrow> string \<Rightarrow> string option" where
  "validCredentials username password =
     (let u = trim_space username
      in if length u < 3 \<or> 64 < length u \<or> contains_any u [CHR 0x0D, CHR 0x0A, CHR 0x00] then
           Some (''username must be 3'' @ [CHR 0xE2, CHR 0x80, CHR 0x93] @ ''64 characters'')
         else if length password < 12 \<or> 1024 < length password then
           Some (''password must be 12'' @ [CHR 0xE2, CHR 0x80, CHR 0x93] @ ''1024 characters'')
         else None)"

subsection \<open>What a record verifies\<close>

lemma nat_digits_no_sep: "\<not> is_digit c \<Longrightarrow> c \<notin> set (nat_digits n)"
  using nat_digits_digits [of n] by (auto simp: list_all_iff)

lemma itoa_nat: "itoa (int n) = nat_digits n"
  by (simp add: itoa_def)

lemma ParseUint_digits: "n < 2 ^ bits \<Longrightarrow> ParseUint bits (nat_digits n) = Some n"
  by (simp add: ParseUint_def nat_digits_digits)

lemma separators_not_digits: "\<not> is_digit (CHR '','')" "\<not> is_digit (CHR ''$'')"
  by (simp_all add: is_digit_def)

lemma record_parameters_printed:
  assumes "8 * 1024 \<le> m" "m \<le> 256 * 1024" "0 < t" "t \<le> 10" "0 < p" "p \<le> 8"
  shows "record_parameters (''m='' @ nat_digits m @ '',t='' @ nat_digits t @ '',p='' @ nat_digits p) = Some (m, t, p)"
proof -
  have "split_on (CHR '','') ((''m='' @ nat_digits m) @ CHR '','' # (''t='' @ nat_digits t) @ CHR '','' # (''p='' @ nat_digits p))
      = [''m='' @ nat_digits m, ''t='' @ nat_digits t, ''p='' @ nat_digits p]"
    by (subst split_on_append, simp add: nat_digits_no_sep separators_not_digits)+
       (simp add: split_on_single nat_digits_no_sep separators_not_digits)
  with assms show ?thesis
    by (simp add: record_parameters_def trim_prefix_def ParseUint_digits)
qed

lemma verifyPassword_record:
  assumes "8 * 1024 \<le> m" "m \<le> 256 * 1024" "0 < t" "t \<le> 10" "0 < p" "p \<le> 8"
    and "16 \<le> length salt" "length salt \<le> 64" "16 \<le> length h" "length h \<le> 64"
  shows "verifyPassword argon (password_record m t p salt h) password \<longleftrightarrow> argon password salt t m p (length h) = h"
proof -
  have rec: "password_record m t p salt h = [] @ CHR ''$'' # ''argon2id'' @ CHR ''$'' # ''v=19'' @ CHR ''$''
      # (''m='' @ nat_digits m @ '',t='' @ nat_digits t @ '',p='' @ nat_digits p) @ CHR ''$''
      # b64_encode salt @ CHR ''$'' # b64_encode h"
    by (simp add: password_record_def itoa_nat)
  have "split_on (CHR ''$'') (password_record m t p salt h) = [[], ''argon2id'', ''v=19'',
      ''m='' @ nat_digits m @ '',t='' @ nat_digits t @ '',p='' @ nat_digits p, b64_encode salt, b64_encode h]"
    unfolding rec
    by (subst split_on_append, simp add: b64_encode_no_dollar nat_digits_no_sep separators_not_digits)+
       (simp add: split_on_single b64_encode_no_dollar)
  with assms show ?thesis
    by (simp add: verifyPassword_def record_parameters_printed [unfolded append.simps] record_bytes_def)
qed

text \<open>C30: A password record made by \<open>hashPassword\<close> verifies exactly the passwords that the key function does not
  tell from the original one, for every salt the random source gives and whatever bytes the key has: in particular
  the password itself.\<close>

theorem hashPassword_roundtrip:
  assumes "\<And>p s t m th n. length (argon p s t m th n) = n" and "length salt = 16"
    and "hashPassword argon (Some salt) password = Some encoded"
  shows "verifyPassword argon encoded guess \<longleftrightarrow>
     argon guess salt argonTime argonMemory argonThreads argonKeyLength
       = argon password salt argonTime argonMemory argonThreads argonKeyLength"
proof -
  have "encoded = password_record argonMemory argonTime argonThreads salt
      (argon password salt argonTime argonMemory argonThreads argonKeyLength)"
    using assms(3) by (simp add: hashPassword_def)
  then show ?thesis
    using assms(1,2)
    by (simp add: verifyPassword_record argonMemory_def argonTime_def argonThreads_def argonKeyLength_def)
qed

definition toy_key :: key_function where
  "toy_key p s t m th n = take n (p @ s @ replicate n (CHR 0x00))"

lemma hashPassword_roundtrip_witness:
  "(\<forall>p s t m th n. length (toy_key p s t m th n) = n)
   \<and> (\<exists>encoded. hashPassword toy_key (Some (replicate 16 (CHR ''s''))) ''correct horse'' = Some encoded
      \<and> verifyPassword toy_key encoded ''correct horse'' \<and> \<not> verifyPassword toy_key encoded ''battery staple'')"
proof -
  have len: "length (toy_key p s t m th n) = n" for p s t m th n by (simp add: toy_key_def)
  obtain e where e: "hashPassword toy_key (Some (replicate 16 (CHR ''s''))) ''correct horse'' = Some e"
    by (simp add: hashPassword_def)
  have "\<not> verifyPassword toy_key e ''battery staple''"
    using hashPassword_roundtrip [OF len _ e, of "''battery staple''"]
    by (simp add: toy_key_def argonKeyLength_def)
  moreover have "verifyPassword toy_key e ''correct horse''"
    using hashPassword_roundtrip [OF len _ e, of "''correct horse''"] by simp
  ultimately show ?thesis using len e by auto
qed

subsection \<open>Failed logins\<close>

record login_failure =
  lf_start :: int
  lf_count :: nat

definition login_window :: int where
  "login_window = 900000000000"

text \<open>The entry that counts at an instant.  A missing entry has the zero instant, which is more than the window ago.\<close>

definition current_failure :: "int \<Rightarrow> string \<Rightarrow> login_failure table \<Rightarrow> login_failure" where
  "current_failure now k f =
     (case map_of f k of
        None \<Rightarrow> \<lparr>lf_start = now, lf_count = 0\<rparr>
      | Some e \<Rightarrow> if login_window < now - lf_start e then \<lparr>lf_start = now, lf_count = 0\<rparr> else e)"

definition loginAllowed :: "int \<Rightarrow> string \<Rightarrow> login_failure table \<Rightarrow> bool" where
  "loginAllowed now k f = (lf_count (current_failure now k f) < 10)"

definition recordLoginFailure :: "int \<Rightarrow> string \<Rightarrow> login_failure table \<Rightarrow> login_failure table" where
  "recordLoginFailure now k f =
     (let f = (if 4096 < length f then keep_if (\<lambda>_ e. \<not> login_window < now - lf_start e) f else f)
      in if 4096 \<le> length f \<and> map_of f k = None then f
         else (let e = current_failure now k f
               in AList.update k (e\<lparr>lf_count := Suc (lf_count e)\<rparr>) f))"

definition clearLoginFailures :: "string \<Rightarrow> login_failure table \<Rightarrow> login_failure table" where
  "clearLoginFailures k f = AList.delete k f"

subsection \<open>Logging in\<close>

record login_request =
  lr_origin :: string
  lr_host :: string
  lr_client :: string

datatype login_outcome = Origin_Rejected | Too_Many | Bad_Request | Busy | Invalid | Verified

definition origin_accepted :: "login_request \<Rightarrow> bool" where
  "origin_accepted r =
     (lr_origin r = [] \<or>
      (case url_Parse (lr_origin r) of None \<Rightarrow> False | Some u \<Rightarrow> equal_fold (u_host u) (lr_host r)))"

text \<open>
  \<open>handleLogin\<close> up to the session it issues.  Requests are handled at the same time, so it is four events of a request \<open>n\<close>: the origin
  of the page and the throttle (\<open>loginAllowed\<close>, one critical section); the body and one of the two verification slots; the
  password check with the record of its outcome (\<open>recordLoginFailure\<close> or \<open>clearLoginFailures\<close>, another critical section); and the
  return, which frees the slot.  \<open>ls_admitted\<close> are the clients of the requests that the throttle has let through and whose body is
  still being read, \<open>ls_verifying\<close> and \<open>ls_answered\<close> the requests that hold a slot, before and after their check.
\<close>

record login_check =
  lc_client :: string
  lc_username :: string
  lc_password :: string
  lc_admin :: string
  lc_hash :: string

record login_state =
  ls_failures :: "login_failure table"
  ls_admitted :: "string table"
  ls_verifying :: "login_check table"
  ls_answered :: "string list"
  ls_answers :: "(string \<times> login_outcome) list"

definition new_logins :: login_state where
  "new_logins = \<lparr>ls_failures = [], ls_admitted = [], ls_verifying = [], ls_answered = [], ls_answers = []\<rparr>"

definition loginVerify :: nat where
  "loginVerify = 2"

definition answer_login :: "string \<Rightarrow> login_outcome \<Rightarrow> login_state \<Rightarrow> login_state" where
  "answer_login client a s = s\<lparr>ls_answers := ls_answers s @ [(client, a)]\<rparr>"

definition login_begin :: "string \<Rightarrow> int \<Rightarrow> login_request \<Rightarrow> login_state \<Rightarrow> login_state" where
  "login_begin n now r s =
     (if \<not> origin_accepted r then answer_login (lr_client r) Origin_Rejected s
      else if \<not> loginAllowed now (lr_client r) (ls_failures s) then answer_login (lr_client r) Too_Many s
      else s\<lparr>ls_admitted := (n, lr_client r) # ls_admitted s\<rparr>)"

text \<open>\<open>body\<close>: the user name and the password, unless it is malformed.  The account is read after the body.\<close>

definition login_body :: "string \<Rightarrow> (string \<times> string) option \<Rightarrow> string \<Rightarrow> string \<Rightarrow> login_state \<Rightarrow> login_state" where
  "login_body n body admin encoded s =
     (case map_of (ls_admitted s) n of
        None \<Rightarrow> s
      | Some client \<Rightarrow>
          (let s = s\<lparr>ls_admitted := AList.delete n (ls_admitted s)\<rparr> in
           (case body of
              None \<Rightarrow> answer_login client Bad_Request s
            | Some (username, password) \<Rightarrow>
                if loginVerify \<le> length (ls_verifying s) + length (ls_answered s) then answer_login client Busy s
                else s\<lparr>ls_verifying := (n, \<lparr>lc_client = client, lc_username = username, lc_password = password,
                         lc_admin = admin, lc_hash = encoded\<rparr>) # ls_verifying s\<rparr>)))"

definition login_verify :: "key_function \<Rightarrow> string \<Rightarrow> int \<Rightarrow> login_state \<Rightarrow> login_state" where
  "login_verify argon n now s =
     (case map_of (ls_verifying s) n of
        None \<Rightarrow> s
      | Some x \<Rightarrow>
          (let s = s\<lparr>ls_verifying := AList.delete n (ls_verifying s), ls_answered := n # ls_answered s\<rparr> in
           if lc_username x \<noteq> lc_admin x \<or> \<not> verifyPassword argon (lc_hash x) (lc_password x) then
             answer_login (lc_client x) Invalid (s\<lparr>ls_failures := recordLoginFailure now (lc_client x) (ls_failures s)\<rparr>)
           else answer_login (lc_client x) Verified (s\<lparr>ls_failures := clearLoginFailures (lc_client x) (ls_failures s)\<rparr>)))"

definition login_return :: "string \<Rightarrow> login_state \<Rightarrow> login_state" where
  "login_return n s = s\<lparr>ls_answered := removeAll n (ls_answered s)\<rparr>"

datatype login_event =
    Login_Begin string int login_request
  | Login_Body string "(string \<times> string) option" string string
  | Login_Verify string int
  | Login_Return string

fun login_step :: "key_function \<Rightarrow> login_event \<Rightarrow> login_state \<Rightarrow> login_state" where
  "login_step argon (Login_Begin n now r) s = login_begin n now r s"
| "login_step argon (Login_Body n body admin encoded) s = login_body n body admin encoded s"
| "login_step argon (Login_Verify n now) s = login_verify argon n now s"
| "login_step argon (Login_Return n) s = login_return n s"

text \<open>The requests of a client between the throttle and the record of their outcome.\<close>

definition in_flight :: "string \<Rightarrow> login_state \<Rightarrow> nat" where
  "in_flight k s =
     length (filter (\<lambda>(_, c). c = k) (ls_admitted s)) + length (filter (\<lambda>(_, x). lc_client x = k) (ls_verifying s))"

text \<open>The wrong guesses of a client since it last logged in.\<close>

fun wrong_guesses :: "string \<Rightarrow> nat \<Rightarrow> (string \<times> login_outcome) list \<Rightarrow> nat" where
  "wrong_guesses k n [] = n"
| "wrong_guesses k n ((c, a) # as) =
     wrong_guesses k (if c = k \<and> a = Invalid then Suc n else if c = k \<and> a = Verified then 0 else n) as"

lemma wrong_guesses_append: "wrong_guesses k n (as @ bs) = wrong_guesses k (wrong_guesses k n as) bs"
  by (induction k n "as" rule: wrong_guesses.induct) auto

text \<open>
  The requests considered: their instants lie within one window, their clients in a set, their numbers are new, and of the client \<open>k\<close>
  at most \<open>c\<close> are in flight at any time.
\<close>

fun login_ok :: "int \<Rightarrow> string set \<Rightarrow> string \<Rightarrow> nat \<Rightarrow> login_event \<Rightarrow> login_state \<Rightarrow> bool" where
  "login_ok t clients k c (Login_Begin n now r) s =
     (t \<le> now \<and> now \<le> t + login_window \<and> lr_client r \<in> clients
      \<and> n \<notin> fst ` set (ls_admitted s) \<union> fst ` set (ls_verifying s) \<union> set (ls_answered s)
      \<and> (lr_client r = k \<longrightarrow> in_flight k s < c))"
| "login_ok t clients k c (Login_Verify n now) s = (t \<le> now \<and> now \<le> t + login_window)"
| "login_ok t clients k c _ s = True"

text \<open>The failures on record are the wrong guesses: for clients of a set, with all instants in one window.\<close>

definition guesses_on_record :: "int \<Rightarrow> string set \<Rightarrow> login_failure table \<Rightarrow> (string \<Rightarrow> nat) \<Rightarrow> bool" where
  "guesses_on_record t clients f w =
     (keys_distinct f \<and> fst ` set f \<subseteq> clients \<and> list_all (\<lambda>(_, e). t \<le> lf_start e) f
      \<and> (\<forall>k. w k = (case map_of f k of None \<Rightarrow> 0 | Some e \<Rightarrow> lf_count e)))"

lemma guesses_current:
  assumes "guesses_on_record t clients f w" "t \<le> now" "now \<le> t + login_window"
  shows "lf_count (current_failure now k f) = w k" "t \<le> lf_start (current_failure now k f)"
proof -
  have old: "t \<le> lf_start e" if "map_of f k = Some e" for e
    using assms(1) map_of_SomeD [OF that] by (auto simp: guesses_on_record_def list_all_iff)
  then show "lf_count (current_failure now k f) = w k"
    using assms by (fastforce simp: current_failure_def guesses_on_record_def split: option.split)
  show "t \<le> lf_start (current_failure now k f)"
    using assms(2) old by (simp add: current_failure_def split: option.split)
qed

lemma guesses_record:
  assumes f: "guesses_on_record t clients f w" and now: "t \<le> now" "now \<le> t + login_window"
    and clients: "finite clients" "card clients \<le> 4096" "k \<in> clients"
  shows "guesses_on_record t clients (recordLoginFailure now k f) (w(k := Suc (w k)))"
proof -
  have d: "keys_distinct f" and sub: "fst ` set f \<subseteq> clients" using f by (auto simp: guesses_on_record_def)
  have len: "length f = card (fst ` set f)"
    using d distinct_card [of "map fst f"] by simp
  then have "length f \<le> 4096" using sub clients by (metis card_mono le_trans)
  moreover have "length f < 4096" if "map_of f k = None"
  proof -
    have "fst ` set f \<subset> clients" using that sub clients(3) by (auto simp: map_of_eq_None_iff)
    from psubset_card_mono [OF clients(1) this] show ?thesis using len clients(2) by linarith
  qed
  moreover have "lf_count (current_failure now k f) = w k" by (rule guesses_current(1) [OF f now])
  ultimately have eq: "recordLoginFailure now k f
      = AList.update k ((current_failure now k f)\<lparr>lf_count := Suc (w k)\<rparr>) f"
    by (cases "map_of f k") (simp_all add: recordLoginFailure_def Let_def)
  define e where "e = (current_failure now k f)\<lparr>lf_count := Suc (w k)\<rparr>"
  have e: "t \<le> lf_start e" "lf_count e = Suc (w k)" using guesses_current(2) [OF f now] by (simp_all add: e_def)
  have sub': "set (AList.update k e f) \<subseteq> insert (k, e) (set f)" by (rule set_update_sub)
  have names: "fst ` set (AList.update k e f) \<subseteq> clients" using sub' sub clients(3) by fastforce
  have starts: "list_all (\<lambda>(_, e). t \<le> lf_start e) (AList.update k e f)"
    using sub' f e(1) by (auto simp: guesses_on_record_def list_all_iff)
  have counts: "(w(k := Suc (w k))) j = (case map_of (AList.update k e f) j of None \<Rightarrow> 0 | Some e \<Rightarrow> lf_count e)" for j
  proof (cases "j = k")
    case False
    then have same: "(w(k := Suc (w k))) j = w j" "map_of (AList.update k e f) j = map_of f j"
      by (simp_all add: update_conv')
    show ?thesis unfolding same using f unfolding guesses_on_record_def by blast
  qed (use e(2) in \<open>simp add: update_conv'\<close>)
  have keys: "keys_distinct (AList.update k e f)" by (rule distinct_update [OF d])
  show ?thesis
    unfolding eq e_def [symmetric] guesses_on_record_def
    by (intro conjI allI names starts keys counts)
qed

lemma guesses_clear:
  assumes f: "guesses_on_record t clients f w"
  shows "guesses_on_record t clients (clearLoginFailures k f) (w(k := 0))"
proof -
  have "map_of (AList.delete k f) j = (if j = k then None else map_of f j)" for j
    by (simp add: delete_conv')
  with f show ?thesis
    by (auto simp: guesses_on_record_def clearLoginFailures_def set_delete list_all_iff)
qed

text \<open>What holds at every moment: the failures on record are the wrong guesses, and the client that is watched has guessed or can
  still guess only so often.\<close>

definition login_inv :: "int \<Rightarrow> string set \<Rightarrow> string \<Rightarrow> nat \<Rightarrow> login_state \<Rightarrow> bool" where
  "login_inv t clients k c s =
     (guesses_on_record t clients (ls_failures s) (\<lambda>j. wrong_guesses j 0 (ls_answers s))
      \<and> snd ` set (ls_admitted s) \<subseteq> clients \<and> (lc_client \<circ> snd) ` set (ls_verifying s) \<subseteq> clients
      \<and> wrong_guesses k 0 (ls_answers s) + in_flight k s \<le> 9 + c)"

lemma filter_delete_le: "length (filter P (AList.delete n t)) \<le> length (filter P t)"
  by (induction t) auto

lemma filter_delete: "map_of t n = Some x \<Longrightarrow> P (n, x) \<Longrightarrow> Suc (length (filter P (AList.delete n t))) \<le> length (filter P t)"
  using filter_delete_le [of P n] by (induction t) (auto split: if_splits simp: Suc_le_eq le_imp_less_Suc)

lemma other_answer: "a \<noteq> Invalid \<Longrightarrow> a \<noteq> Verified \<Longrightarrow> login_inv t clients k c s \<Longrightarrow> login_inv t clients k c (answer_login client a s)"
  by (simp add: login_inv_def answer_login_def wrong_guesses_append in_flight_def)

lemma inv_begin:
  assumes s: "login_inv t clients k c s" and ok: "login_ok t clients k c (Login_Begin n now r) s"
  shows "login_inv t clients k c (login_begin n now r s)"
proof -
  have "login_inv t clients k c (s\<lparr>ls_admitted := (n, lr_client r) # ls_admitted s\<rparr>)"
    if "loginAllowed now (lr_client r) (ls_failures s)"
  proof -
    have g: "guesses_on_record t clients (ls_failures s) (\<lambda>j. wrong_guesses j 0 (ls_answers s))"
      using s by (simp add: login_inv_def)
    have "wrong_guesses (lr_client r) 0 (ls_answers s) < 10"
      using that guesses_current(1) [OF g, of now "lr_client r"] ok by (simp add: loginAllowed_def)
    with s ok show ?thesis by (auto simp: login_inv_def in_flight_def)
  qed
  with s other_answer show ?thesis by (simp add: login_begin_def)
qed

lemma inv_body:
  assumes s: "login_inv t clients k c s"
  shows "login_inv t clients k c (login_body n body admin encoded s)"
proof (cases "map_of (ls_admitted s) n")
  case None
  with s show ?thesis by (simp add: login_body_def)
next
  case (Some client)
  let ?s = "s\<lparr>ls_admitted := AList.delete n (ls_admitted s)\<rparr>"
  have client: "client \<in> clients" using s map_of_SomeD [OF Some] by (force simp: login_inv_def)
  have rest: "snd ` set (AList.delete n (ls_admitted s)) \<subseteq> clients"
    using s by (auto simp: login_inv_def set_delete)
  have fewer: "in_flight k ?s \<le> in_flight k s" "client = k \<Longrightarrow> in_flight k ?s < in_flight k s"
    using filter_delete_le [of "\<lambda>(_, c). c = k" n "ls_admitted s"] filter_delete [OF Some, of "\<lambda>(_, c). c = k"]
    by (simp_all add: in_flight_def)
  have gone: "login_inv t clients k c ?s" using s rest fewer(1) by (auto simp: login_inv_def)
  have "login_inv t clients k c (?s\<lparr>ls_verifying := (n, x) # ls_verifying s\<rparr>)" if "lc_client x = client" for x
  proof -
    have "in_flight k (?s\<lparr>ls_verifying := (n, x) # ls_verifying s\<rparr>) \<le> in_flight k s"
      using fewer that by (auto simp: in_flight_def)
    with gone client that s show ?thesis by (auto simp: login_inv_def)
  qed
  with gone other_answer [OF _ _ gone] Some show ?thesis
    by (auto simp: login_body_def Let_def split: option.split)
qed

lemma inv_verify:
  assumes s: "login_inv t clients k c s" and now: "t \<le> now" "now \<le> t + login_window"
    and clients: "finite clients" "card clients \<le> 4096"
  shows "login_inv t clients k c (login_verify argon n now s)"
proof (cases "map_of (ls_verifying s) n")
  case None
  with s show ?thesis by (simp add: login_verify_def)
next
  case (Some x)
  let ?k = "lc_client x"
  let ?s = "s\<lparr>ls_verifying := AList.delete n (ls_verifying s), ls_answered := n # ls_answered s\<rparr>"
  have client: "?k \<in> clients" using s map_of_SomeD [OF Some] by (force simp: login_inv_def)
  have rest: "(lc_client \<circ> snd) ` set (AList.delete n (ls_verifying s)) \<subseteq> clients"
    using s by (auto simp: login_inv_def set_delete)
  have fewer: "in_flight k ?s \<le> in_flight k s" "?k = k \<Longrightarrow> in_flight k ?s < in_flight k s"
    using filter_delete_le [of "\<lambda>(_, x). lc_client x = k" n "ls_verifying s"]
      filter_delete [OF Some, of "\<lambda>(_, x). lc_client x = k"]
    by (simp_all add: in_flight_def)
  let ?w = "\<lambda>j. wrong_guesses j 0 (ls_answers s)"
  have g: "guesses_on_record t clients (ls_failures s) ?w" using s by (simp add: login_inv_def)
  have wrong: "(\<lambda>j. wrong_guesses j 0 (ls_answers s @ [(?k, Invalid)])) = ?w(?k := Suc (?w ?k))"
    and right: "(\<lambda>j. wrong_guesses j 0 (ls_answers s @ [(?k, Verified)])) = ?w(?k := 0)"
    by (simp_all add: wrong_guesses_append fun_eq_iff)
  have "login_inv t clients k c (answer_login ?k Invalid (?s\<lparr>ls_failures := recordLoginFailure now ?k (ls_failures s)\<rparr>))"
    unfolding login_inv_def
  proof (intro conjI)
    show "guesses_on_record t clients (ls_failures (answer_login ?k Invalid (?s\<lparr>ls_failures := recordLoginFailure now ?k (ls_failures s)\<rparr>)))
        (\<lambda>j. wrong_guesses j 0 (ls_answers (answer_login ?k Invalid (?s\<lparr>ls_failures := recordLoginFailure now ?k (ls_failures s)\<rparr>))))"
      using guesses_record [OF g now clients client] by (simp add: answer_login_def wrong)
  qed (use s rest fewer in \<open>auto simp: login_inv_def answer_login_def wrong_guesses_append in_flight_def\<close>)
  moreover have "login_inv t clients k c (answer_login ?k Verified (?s\<lparr>ls_failures := clearLoginFailures ?k (ls_failures s)\<rparr>))"
    unfolding login_inv_def
  proof (intro conjI)
    show "guesses_on_record t clients (ls_failures (answer_login ?k Verified (?s\<lparr>ls_failures := clearLoginFailures ?k (ls_failures s)\<rparr>)))
        (\<lambda>j. wrong_guesses j 0 (ls_answers (answer_login ?k Verified (?s\<lparr>ls_failures := clearLoginFailures ?k (ls_failures s)\<rparr>))))"
      using guesses_clear [OF g, of ?k] by (simp add: answer_login_def right)
  qed (use s rest fewer in \<open>auto simp: login_inv_def answer_login_def wrong_guesses_append in_flight_def\<close>)
  ultimately show ?thesis using Some by (simp add: login_verify_def Let_def)
qed

lemma inv_return: "login_inv t clients k c s \<Longrightarrow> login_inv t clients k c (login_return n s)"
  by (simp add: login_return_def login_inv_def in_flight_def)

interpretation throttle: guarded_machine "login_step argon"
    "\<lambda>e s. finite clients \<and> card clients \<le> 4096 \<and> login_ok t clients k c e s" "login_inv t clients k c"
  for argon clients t k c
proof (unfold_locales, goal_cases)
  case (1 s e)
  then show ?case by (cases e) (simp_all add: inv_begin inv_body inv_verify inv_return del: login_ok.simps, simp_all add: inv_verify)
qed

lemma admissible_and: "P \<Longrightarrow> admissible step ok es s \<Longrightarrow> admissible step (\<lambda>e s. P \<and> ok e s) es s"
  by (induction es arbitrary: s) auto

text \<open>C31: Requests of at most 4096 addresses log in within fifteen minutes, any number of them at the same time.  As long as no more
  than \<open>c\<close> requests of a client are in flight at once, between the throttle and the record of their outcome, the client gets at most
  \<open>9 + c\<close> wrong guesses after its last successful login, so at most ten if it asks one at a time; and whatever the others
  do, the throttle lets its next request through exactly while it has fewer than ten.\<close>

theorem login_throttled:
  assumes "admissible (login_step argon) (login_ok t clients k c) es new_logins"
    and "finite clients" "card clients \<le> 4096" and "t \<le> now" "now \<le> t + login_window"
    and "s = run (login_step argon) es new_logins"
  shows "wrong_guesses k 0 (ls_answers s) + in_flight k s \<le> 9 + c
    \<and> (loginAllowed now k (ls_failures s) \<longleftrightarrow> wrong_guesses k 0 (ls_answers s) < 10)"
proof -
  have "login_inv t clients k c new_logins"
    by (simp add: login_inv_def new_logins_def guesses_on_record_def in_flight_def)
  then have inv: "login_inv t clients k c s"
    unfolding assms(6) by (rule throttle.run_inv) (use assms(1-3) in \<open>simp add: admissible_and\<close>)
  then have "guesses_on_record t clients (ls_failures s) (\<lambda>j. wrong_guesses j 0 (ls_answers s))" by (simp add: login_inv_def)
  from guesses_current(1) [OF this assms(4,5), of k] inv show ?thesis by (simp add: loginAllowed_def login_inv_def)
qed

text \<open>A client that guesses wrong eleven times, one request after the other; and the same client asking all at once.\<close>

definition sample_client :: login_request where
  "sample_client = \<lparr>lr_origin = [], lr_host = ''pilot'', lr_client = ''192.0.2.7''\<rparr>"

definition guess_begin :: "string \<Rightarrow> login_event" where
  "guess_begin n = Login_Begin n 1 sample_client"

definition guess_rest :: "string \<Rightarrow> login_event list" where
  "guess_rest n = [Login_Body n (Some (''admin'', ''wrong'')) ''admin'' [], Login_Verify n 1, Login_Return n]"

definition guess_numbers :: "string list" where
  "guess_numbers = [''a'', ''b'', ''c'', ''d'', ''e'', ''f'', ''g'', ''h'', ''i'', ''j'', ''k'']"

definition patient_guesses :: "login_event list" where
  "patient_guesses = concat (map (\<lambda>n. guess_begin n # guess_rest n) guess_numbers)"

definition hasty_guesses :: "login_event list" where
  "hasty_guesses = map guess_begin guess_numbers @ concat (map guess_rest guess_numbers)"

lemmas guess_eval = sample_client_def guess_begin_def guess_rest_def guess_numbers_def new_logins_def login_begin_def login_body_def
  login_verify_def login_return_def answer_login_def origin_accepted_def verifyPassword_def loginAllowed_def current_failure_def
  recordLoginFailure_def login_window_def loginVerify_def in_flight_def

lemma patient_admissible: "admissible (login_step toy_key) (login_ok 0 {''192.0.2.7''} ''192.0.2.7'' 1) patient_guesses new_logins"
  by (simp add: patient_guesses_def guess_eval Let_def)

theorem login_throttled_witness:
  "wrong_guesses ''192.0.2.7'' 0 (ls_answers (run (login_step toy_key) patient_guesses new_logins)) \<le> 10
    \<and> length (ls_answers (run (login_step toy_key) patient_guesses new_logins)) = 11"
proof -
  have "length (ls_answers (run (login_step toy_key) patient_guesses new_logins)) = 11"
    by (simp add: patient_guesses_def guess_eval Let_def)
  with login_throttled [OF patient_admissible _ _ _ _ refl, of 5] show ?thesis by (simp add: login_window_def)
qed

text \<open>The throttle counts what is on record, so requests that are let through before the first outcome is recorded all guess: the
  limit of ten does not hold for a client that asks at the same time.\<close>

lemma eleven_guesses_at_once:
  "wrong_guesses ''192.0.2.7'' 0 (ls_answers (run (login_step toy_key) hasty_guesses new_logins)) = 11"
  by (simp add: hasty_guesses_def guess_eval Let_def)

subsection \<open>A full table of failures\<close>

text \<open>The table never has more than 4096 entries, so the clean-up for larger ones never runs, and a client that
  is not in a full table is never throttled.\<close>

lemma failures_bound: "length f \<le> 4096 \<Longrightarrow> length (recordLoginFailure now k f) \<le> 4096"
  by (auto simp: recordLoginFailure_def Let_def intro: order_trans [OF length_update_le])

lemma full_table_never_throttles:
  assumes "length f = 4096" "map_of f k = None"
  shows "recordLoginFailure now k f = f" "loginAllowed now k f"
  using assms by (simp_all add: recordLoginFailure_def loginAllowed_def current_failure_def Let_def)

end
