(* ===== verification/WebSessions.thy ===== *)
theory WebSessions
  imports BrowserPub Passwords
begin

section \<open>Browser sessions and tickets of the web server\<close>

text \<open>
  Models the session part of \<^verbatim>\<open>internal/web/auth.go\<close>, \<^verbatim>\<open>internal/web/auth_sessions.go\<close> and the tickets of
  \<^verbatim>\<open>internal/web/application_ws.go\<close>, \<^verbatim>\<open>internal/web/remote.go\<close> and \<^verbatim>\<open>internal/web/server.go\<close>.  A critical
  section is one event; so are the drop of a session and the revocation of its tickets that follows it.  \<open>authSessionKey\<close> (a digest) is the parameter \<open>key\<close>, the random source and the clock are
  parameters of the events.  A write of the session store fails at one of its stages or leaves a file of some
  length; the file is what the next start of the server reads.
\<close>

definition adminSessionTTL :: int where
  "adminSessionTTL = 86400000000000"

record auth_session =
  se_csrf :: string
  se_expires :: int

subsection \<open>The session store\<close>

definition maxPersistedAuthSessions :: nat where
  "maxPersistedAuthSessions = 128"

record persisted_sessions =
  ps_version :: int
  ps_sessions :: "auth_session table"

datatype session_store =
    Store_Missing
  | Store_Unreadable string
  | Store_File nat "persisted_sessions option"

text \<open>\<open>IsZero\<close>: the first instant of the year one.\<close>

definition zero_instant :: int where
  "zero_instant = - 62135596800000000000"

definition valid_record :: "string \<times> auth_session \<Rightarrow> bool" where
  "valid_record kv =
     (case kv of (i, r) \<Rightarrow> length i = 43 \<and> length (se_csrf r) = 43 \<and> se_expires r \<noteq> zero_instant)"

definition loadSessions :: "int \<Rightarrow> session_store \<Rightarrow> (string, auth_session table) result" where
  "loadSessions now store =
     (case store of
        Store_Missing \<Rightarrow> Inr []
      | Store_Unreadable e \<Rightarrow> Inl (''inspect browser session store: '' @ e)
      | Store_File bytes content \<Rightarrow>
          if 128 * 1024 < bytes then Inl ''browser session store is too large''
          else (case content of
              None \<Rightarrow> Inl ''decode browser session store''
            | Some p \<Rightarrow>
                if ps_version p \<noteq> 1 \<or> maxPersistedAuthSessions < length (ps_sessions p) then
                  Inl ''browser session store has an unsupported format''
                else if \<not> list_all valid_record (ps_sessions p) then
                  Inl ''browser session store contains an invalid session''
                else Inr (keep_if (\<lambda>_ r. now < se_expires r) (ps_sessions p))))"

datatype save_stage = Make_Directory | Create_Temporary | Secure_Temporary | Write_Temporary | Sync_Temporary
  | Close_Temporary | Replace_Store

type_synonym save_result = "(save_stage \<times> string, nat) result"

definition save_error :: "save_stage \<Rightarrow> string \<Rightarrow> string" where
  "save_error st e =
     (case st of
        Make_Directory \<Rightarrow> ''create browser session store directory: ''
      | Create_Temporary \<Rightarrow> ''create browser session store: ''
      | Secure_Temporary \<Rightarrow> ''secure browser session store: ''
      | Write_Temporary \<Rightarrow> ''write browser session store: ''
      | Sync_Temporary \<Rightarrow> ''sync browser session store: ''
      | Close_Temporary \<Rightarrow> ''close browser session store: ''
      | Replace_Store \<Rightarrow> ''replace browser session store: '') @ e"

subsection \<open>The state of the server\<close>

record session_ticket =
  st_session :: string
  st_expires :: int

record download_ticket = session_ticket +
  dt_storage :: string
  dt_path :: string

record attach_ticket = session_ticket +
  at_exec :: string
  at_cols :: nat
  at_rows :: nat

record remote_ticket = session_ticket +
  rm_session :: string
  rm_params :: "string table"

text \<open>
  The locks of the tickets.  A handler that takes one of them and then one that is already taken waits for ever, and keeps what it has:
  \<open>ws_stuck\<close> are the locks that are lost so.  A request that waits gets no answer, and nothing after its wait happens.
\<close>

datatype ticket_lock = Application_Lock | Attach_Lock | Remote_Lock

record web_state =
  ws_sessions :: "auth_session table"
  ws_store :: session_store
  ws_connections :: "nat list table"
  ws_next :: nat
  ws_closed :: "nat list"
  ws_application :: "session_ticket table"
  ws_downloads :: "download_ticket table"
  ws_attach :: "attach_ticket table"
  ws_remote :: "remote_ticket table"
  ws_browser :: "session_ticket table"
  ws_stuck :: "ticket_lock list"

definition new_web :: "auth_session table \<Rightarrow> session_store \<Rightarrow> web_state" where
  "new_web sessions store =
     \<lparr>ws_sessions = sessions, ws_store = store, ws_connections = [], ws_next = 0, ws_closed = [], ws_application = [],
      ws_downloads = [], ws_attach = [], ws_remote = [], ws_browser = [], ws_stuck = []\<rparr>"

text \<open>\<open>saveSessionsLocked\<close> and \<open>revokePersistedSessionsLocked\<close>: the error, if any.\<close>

definition saveSessions :: "save_result \<Rightarrow> web_state \<Rightarrow> string option \<times> web_state" where
  "saveSessions w s =
     (case w of
        Inl (st, e) \<Rightarrow> (Some (save_error st e), s)
      | Inr bytes \<Rightarrow>
          (None, s\<lparr>ws_store := Store_File bytes (Some \<lparr>ps_version = 1, ps_sessions = ws_sessions s\<rparr>)\<rparr>))"

definition revokePersistedSessions :: "save_result \<Rightarrow> string option \<Rightarrow> web_state \<Rightarrow> string option \<times> web_state" where
  "revokePersistedSessions w removal s =
     (case saveSessions w s of
        (None, s') \<Rightarrow> (None, s')
      | (Some _, _) \<Rightarrow>
          if ws_store s = Store_Missing then (None, s)
          else (case removal of
              None \<Rightarrow> (None, s\<lparr>ws_store := Store_Missing\<rparr>)
            | Some e \<Rightarrow> (Some e, s)))"

text \<open>A session that is gone takes its connections with it.\<close>

definition connections_of :: "string \<Rightarrow> web_state \<Rightarrow> nat list" where
  "connections_of k s = (case map_of (ws_connections s) k of None \<Rightarrow> [] | Some cs \<Rightarrow> cs)"

definition drop_session :: "string \<Rightarrow> web_state \<Rightarrow> web_state" where
  "drop_session k s =
     s\<lparr>ws_sessions := AList.delete k (ws_sessions s), ws_connections := AList.delete k (ws_connections s),
       ws_closed := ws_closed s @ connections_of k s\<rparr>"

text \<open>The tickets of a session, kind by kind, up to the first lock that is taken, by the request itself or for ever.\<close>

definition revokeSessionTickets :: "ticket_lock list \<Rightarrow> string \<Rightarrow> web_state \<Rightarrow> web_state" where
  "revokeSessionTickets held k s =
     (let taken = set held \<union> set (ws_stuck s) in
      if Application_Lock \<in> taken then s
      else (let s = s\<lparr>ws_application := keep_if (\<lambda>_ t. st_session t \<noteq> k) (ws_application s),
                      ws_downloads := keep_if (\<lambda>_ t. st_session t \<noteq> k) (ws_downloads s)\<rparr> in
        if Attach_Lock \<in> taken then s
        else (let s = s\<lparr>ws_attach := keep_if (\<lambda>_ t. st_session t \<noteq> k) (ws_attach s)\<rparr> in
          if Remote_Lock \<in> taken then s
          else s\<lparr>ws_remote := keep_if (\<lambda>_ t. st_session t \<noteq> k) (ws_remote s)\<rparr>)))"

lemma revoke_tickets_frame [simp]:
  "ws_sessions (revokeSessionTickets held k s) = ws_sessions s" "ws_store (revokeSessionTickets held k s) = ws_store s"
  "ws_stuck (revokeSessionTickets held k s) = ws_stuck s"
  by (simp_all add: revokeSessionTickets_def Let_def)

lemma revoke_tickets_application: "set (ws_application (revokeSessionTickets held k s)) \<subseteq> set (ws_application s)"
  by (auto simp: revokeSessionTickets_def Let_def keep_if_def)

subsection \<open>Sessions\<close>

definition expired_sessions :: "int \<Rightarrow> web_state \<Rightarrow> string list" where
  "expired_sessions now s = map fst (filter (\<lambda>(_, v). se_expires v < now) (ws_sessions s))"

definition issueSession ::
  "(string \<Rightarrow> string) \<Rightarrow> int \<Rightarrow> string option \<Rightarrow> string option \<Rightarrow> save_result \<Rightarrow> web_state \<Rightarrow> string option \<times> web_state" where
  "issueSession key now new_id csrf w s =
     (case (new_id, csrf) of
        (Some i, Some c) \<Rightarrow>
          (let expired = expired_sessions now s; s1 = fold drop_session expired s in
            if 128 \<le> length (ws_sessions s1) then (None, if expired \<noteq> [] then snd (saveSessions w s1) else s1)
            else (let s2 = s1\<lparr>ws_sessions := AList.update (key i) \<lparr>se_csrf = key c, se_expires = now + adminSessionTTL\<rparr>
                                              (ws_sessions s1)\<rparr>
                  in (case saveSessions w s2 of
                        (None, s3) \<Rightarrow> (Some (key i), s3)
                      | (Some _, s3) \<Rightarrow> (None, s3\<lparr>ws_sessions := AList.delete (key i) (ws_sessions s3)\<rparr>))))
      | _ \<Rightarrow> (None, s))"

text \<open>\<open>session\<close>, called with some of the ticket locks held.\<close>

definition session_holding ::
  "ticket_lock list \<Rightarrow> (string \<Rightarrow> string) \<Rightarrow> int \<Rightarrow> string option \<Rightarrow> save_result \<Rightarrow> web_state
     \<Rightarrow> (string \<times> auth_session) option \<times> web_state" where
  "session_holding held key now cookie w s =
     (case cookie of
        None \<Rightarrow> (None, s)
      | Some c \<Rightarrow>
          (case map_of (ws_sessions s) (key c) of
             None \<Rightarrow> (None, s)
           | Some v \<Rightarrow>
               if se_expires v < now then
                 (None, revokeSessionTickets held (key c) (snd (saveSessions w (drop_session (key c) s))))
               else (Some (key c, v), s)))"

abbreviation session ::
  "(string \<Rightarrow> string) \<Rightarrow> int \<Rightarrow> string option \<Rightarrow> save_result \<Rightarrow> web_state \<Rightarrow> (string \<times> auth_session) option \<times> web_state" where
  "session \<equiv> session_holding []"

lemmas session_def = session_holding_def [of "[]"]

text \<open>A request whose session has expired revokes its tickets, and waits for ever when one of the locks is taken.\<close>

definition session_expired :: "(string \<Rightarrow> string) \<Rightarrow> int \<Rightarrow> string option \<Rightarrow> web_state \<Rightarrow> bool" where
  "session_expired key now cookie s =
     (case cookie of
        None \<Rightarrow> False
      | Some c \<Rightarrow> (case map_of (ws_sessions s) (key c) of None \<Rightarrow> False | Some v \<Rightarrow> se_expires v < now))"

definition session_hangs :: "(string \<Rightarrow> string) \<Rightarrow> int \<Rightarrow> string option \<Rightarrow> web_state \<Rightarrow> bool" where
  "session_hangs key now cookie s = (session_expired key now cookie s \<and> ws_stuck s \<noteq> [])"

definition lose_lock :: "ticket_lock \<Rightarrow> web_state \<Rightarrow> web_state" where
  "lose_lock l s = s\<lparr>ws_stuck := l # ws_stuck s\<rparr>"

definition clearSession ::
  "(string \<Rightarrow> string) \<Rightarrow> string option \<Rightarrow> save_result \<Rightarrow> string option \<Rightarrow> web_state \<Rightarrow> string option \<times> web_state" where
  "clearSession key cookie w removal s =
     (case cookie of
        None \<Rightarrow> (None, s)
      | Some c \<Rightarrow>
          (let (e, s') = revokePersistedSessions w removal (drop_session (key c) s)
           in (e, revokeSessionTickets [] (key c) s')))"

definition revokeAllSessions :: "save_result \<Rightarrow> string option \<Rightarrow> web_state \<Rightarrow> string option \<times> web_state" where
  "revokeAllSessions w removal s =
     revokePersistedSessions w removal
       (s\<lparr>ws_sessions := [], ws_connections := [], ws_closed := ws_closed s @ concat (map snd (ws_connections s))\<rparr>)"

definition registerSessionConnection :: "string \<Rightarrow> web_state \<Rightarrow> nat option \<times> web_state" where
  "registerSessionConnection k s =
     (if k = [] then (None, s)
      else (Some (ws_next s),
            s\<lparr>ws_next := Suc (ws_next s),
              ws_connections := AList.update k (connections_of k s @ [ws_next s]) (ws_connections s)\<rparr>))"

definition unregisterSessionConnection :: "string \<Rightarrow> nat \<Rightarrow> web_state \<Rightarrow> web_state" where
  "unregisterSessionConnection k n s =
     (let cs = removeAll n (connections_of k s)
      in s\<lparr>ws_connections := (if cs = [] then AList.delete k (ws_connections s) else AList.update k cs (ws_connections s))\<rparr>)"

definition csrfValid ::
  "(string \<Rightarrow> string) \<Rightarrow> int \<Rightarrow> string option \<Rightarrow> string option \<Rightarrow> string \<Rightarrow> save_result \<Rightarrow> web_state \<Rightarrow> bool \<times> web_state" where
  "csrfValid key now cookie csrf_cookie header w s =
     (case session key now cookie w s of
        (None, s) \<Rightarrow> (False, s)
      | (Some (_, v), s) \<Rightarrow>
          (case csrf_cookie of
             None \<Rightarrow> (False, s)
           | Some c \<Rightarrow> (c \<noteq> [] \<and> key c = se_csrf v \<and> key header = se_csrf v, s)))"

text \<open>The methods that change nothing.\<close>

datatype http_method = GET | HEAD | OPTIONS | Other_Method

datatype auth_outcome = Passed | Csrf_Failed | Unauthorized | No_Answer

record auth_request =
  ar_method :: http_method
  ar_cookie :: "string option"
  ar_csrf_cookie :: "string option"
  ar_csrf_header :: string
  ar_authorization :: string

record bearer_config =
  be_enabled :: bool
  be_token :: string

text \<open>The middleware \<open>auth\<close>: the session and the check of the CSRF token are two critical sections; \<open>between\<close>
  is what the other requests do to the state in the meantime.\<close>

definition auth ::
  "(string \<Rightarrow> string) \<Rightarrow> int \<Rightarrow> int \<Rightarrow> bearer_config \<Rightarrow> auth_request \<Rightarrow> save_result \<Rightarrow> (web_state \<Rightarrow> web_state)
     \<Rightarrow> web_state \<Rightarrow> auth_outcome \<times> web_state" where
  "auth key now now' cfg r w between s =
     (case session key now (ar_cookie r) w s of
        (Some _, s) \<Rightarrow>
          if ar_method r \<in> {GET, HEAD, OPTIONS} then (Passed, s)
          else (case csrfValid key now' (ar_cookie r) (ar_csrf_cookie r) (ar_csrf_header r) w (between s) of
              (ok, s') \<Rightarrow>
                (if session_hangs key now' (ar_cookie r) (between s) then No_Answer else if ok then Passed else Csrf_Failed, s'))
      | (None, s') \<Rightarrow>
          (if session_hangs key now (ar_cookie r) s then No_Answer
           else if \<not> be_enabled cfg \<or> be_token cfg = [] \<or> trim_space (ar_authorization r) \<noteq> ''Bearer '' @ be_token cfg
             then Unauthorized else Passed, s'))"

subsection \<open>Tickets\<close>

definition session_id :: "(string \<times> auth_session) option \<Rightarrow> string" where
  "session_id x = (case x of None \<Rightarrow> [] | Some (k, _) \<Rightarrow> k)"

text \<open>
  Three of the tickets are issued under the lock of their kind, and the session is looked up under it: a session that has expired
  since the request was let in deadlocks the request with itself, and the lock is lost.
\<close>

definition handleApplicationTicket ::
  "(string \<Rightarrow> string) \<Rightarrow> int \<Rightarrow> string \<Rightarrow> string option \<Rightarrow> save_result \<Rightarrow> web_state \<Rightarrow> web_state" where
  "handleApplicationTicket key now t cookie w s =
     (if Application_Lock \<in> set (ws_stuck s) then s
      else (let (v, s') = session_holding [Application_Lock] key now cookie w s in
        if session_expired key now cookie s then lose_lock Application_Lock s'
        else s'\<lparr>ws_application := AList.update t \<lparr>st_session = session_id v, st_expires = now + minute\<rparr> (ws_application s')\<rparr>))"

definition consumeApplicationTicket :: "int \<Rightarrow> string \<Rightarrow> string \<Rightarrow> web_state \<Rightarrow> bool \<times> web_state" where
  "consumeApplicationTicket now t k s =
     (if Application_Lock \<in> set (ws_stuck s) then (False, s)
      else ((case map_of (ws_application s) t of
               None \<Rightarrow> False
             | Some i \<Rightarrow> st_session i = k \<and> now < st_expires i),
            s\<lparr>ws_application := AList.delete t (ws_application s)\<rparr>))"

definition handleDownloadTicket ::
  "(string \<Rightarrow> string) \<Rightarrow> int \<Rightarrow> string \<Rightarrow> string \<Rightarrow> string \<Rightarrow> string option \<Rightarrow> save_result \<Rightarrow> web_state \<Rightarrow> web_state" where
  "handleDownloadTicket key now t storage path cookie w s =
     (let (v, s') = session key now cookie w s
      in if session_hangs key now cookie s then s'
         else s'\<lparr>ws_downloads := AList.update t \<lparr>st_session = session_id v, st_expires = now + 2 * minute,
                                                  dt_storage = storage, dt_path = path\<rparr> (ws_downloads s')\<rparr>)"

text \<open>The storage and the path a download ticket is good for.\<close>

definition handleTicketDownload ::
  "(string \<Rightarrow> string) \<Rightarrow> int \<Rightarrow> string \<Rightarrow> string option \<Rightarrow> save_result \<Rightarrow> web_state \<Rightarrow> (string \<times> string) option \<times> web_state" where
  "handleTicketDownload key now t cookie w s =
     (let (v, s') = session key now cookie w (s\<lparr>ws_downloads := AList.delete t (ws_downloads s)\<rparr>)
      in (case map_of (ws_downloads s) t of
            None \<Rightarrow> (None, s')
          | Some d \<Rightarrow>
              (if session_hangs key now cookie s \<or> st_session d \<noteq> session_id v \<or> st_expires d < now then None
               else Some (dt_storage d, dt_path d), s')))"

definition attach_size :: "nat \<Rightarrow> nat \<Rightarrow> (nat \<times> nat) option" where
  "attach_size cols rows =
     (let cols = (if cols = 0 then 80 else cols); rows = (if rows = 0 then 24 else rows)
      in if 500 < cols \<or> 300 < rows then None else Some (cols, rows))"

definition handleDockerContainerAttachTicket ::
  "(string \<Rightarrow> string) \<Rightarrow> int \<Rightarrow> string \<Rightarrow> string \<Rightarrow> nat \<Rightarrow> nat \<Rightarrow> string option \<Rightarrow> save_result \<Rightarrow> web_state \<Rightarrow> bool \<times> web_state" where
  "handleDockerContainerAttachTicket key now t container cols rows cookie w s =
     (case attach_size cols rows of
        None \<Rightarrow> (False, s)
      | Some (cols, rows) \<Rightarrow>
          if Attach_Lock \<in> set (ws_stuck s) then (False, s)
          else (let (v, s') = session_holding [Attach_Lock] key now cookie w s in
            if session_expired key now cookie s then (False, lose_lock Attach_Lock s')
            else (True, s'\<lparr>ws_attach := AList.update t \<lparr>st_session = session_id v, st_expires = now + minute,
                    at_exec = container, at_cols = cols, at_rows = rows\<rparr> (ws_attach s')\<rparr>)))"

definition consumeDockerAttachTicket :: "int \<Rightarrow> string \<Rightarrow> string \<Rightarrow> web_state \<Rightarrow> attach_ticket option \<times> web_state" where
  "consumeDockerAttachTicket now t k s =
     (if Attach_Lock \<in> set (ws_stuck s) then (None, s)
      else (case map_of (ws_attach s) t of
          None \<Rightarrow> (None, s)
        | Some a \<Rightarrow>
            (if st_session a \<noteq> k \<or> st_expires a < now then None else Some a,
             s\<lparr>ws_attach := AList.delete t (ws_attach s)\<rparr>)))"

definition handleRemoteClientTicket ::
  "(string \<Rightarrow> string) \<Rightarrow> int \<Rightarrow> string \<Rightarrow> string \<Rightarrow> string table \<Rightarrow> string option \<Rightarrow> save_result \<Rightarrow> web_state \<Rightarrow> web_state" where
  "handleRemoteClientTicket key now t i params cookie w s =
     (if Remote_Lock \<in> set (ws_stuck s) then s
      else (let (v, s') = session_holding [Remote_Lock] key now cookie w s in
        if session_expired key now cookie s then lose_lock Remote_Lock s'
        else s'\<lparr>ws_remote := AList.update t \<lparr>st_session = session_id v, st_expires = now + 240 * minute,
                                               rm_session = i, rm_params = params\<rparr> (ws_remote s')\<rparr>))"

definition remoteTicket :: "int \<Rightarrow> string \<Rightarrow> string \<Rightarrow> string \<Rightarrow> web_state \<Rightarrow> remote_ticket option \<times> web_state" where
  "remoteTicket now t i k s =
     (if t = [] \<or> Remote_Lock \<in> set (ws_stuck s) then (None, s)
      else (case map_of (ws_remote s) t of
          None \<Rightarrow> (None, s)
        | Some r \<Rightarrow>
            if rm_session r \<noteq> i \<or> st_session r \<noteq> k \<or> st_expires r < now then
              (None, s\<lparr>ws_remote := AList.delete t (ws_remote s)\<rparr>)
            else (Some r, s)))"

subsection \<open>Tickets that plugins hand out\<close>

datatype json = JNull | JBool bool | JNumber string | JText string | JList "json list" | JObject "(string \<times> json) list"

definition own_ticket :: "string \<times> json \<Rightarrow> string list" where
  "own_ticket kv = (case kv of (k, JText t) \<Rightarrow> if k = ''ticket'' \<and> t \<noteq> [] then [t] else [] | _ \<Rightarrow> [])"

primrec tickets_in :: "json \<Rightarrow> string list" where
  "tickets_in JNull = []"
| "tickets_in (JBool _) = []"
| "tickets_in (JNumber _) = []"
| "tickets_in (JText _) = []"
| "tickets_in (JList vs) = concat (map tickets_in vs)"
| "tickets_in (JObject kvs) = concat (map own_ticket kvs) @ concat (map snd (map (map_prod (\<lambda>k. k) tickets_in) kvs))"

definition rememberSessionTickets :: "int \<Rightarrow> string \<Rightarrow> json \<Rightarrow> web_state \<Rightarrow> web_state" where
  "rememberSessionTickets now k v s =
     s\<lparr>ws_browser := fold (\<lambda>t. AList.update t \<lparr>st_session = k, st_expires = now + minute\<rparr>) (tickets_in v)
                           (keep_if (\<lambda>_ i. now \<le> st_expires i) (ws_browser s))\<rparr>"

definition browserTicketAllowed :: "int \<Rightarrow> string \<Rightarrow> (string \<times> auth_session) option \<Rightarrow> web_state \<Rightarrow> bool \<times> web_state" where
  "browserTicketAllowed now t v s =
     (case map_of (ws_browser s) t of
        None \<Rightarrow> (True, s)
      | Some i \<Rightarrow>
          if st_expires i < now then (False, s\<lparr>ws_browser := AList.delete t (ws_browser s)\<rparr>)
          else (v \<noteq> None \<and> st_session i = session_id v, s))"

subsection \<open>The events of the server\<close>

text \<open>A restart keeps the session store and nothing else; a server that cannot read it does not start and
  accepts nothing.\<close>

definition restart :: "int \<Rightarrow> web_state \<Rightarrow> web_state" where
  "restart now s = new_web (case loadSessions now (ws_store s) of Inl _ \<Rightarrow> [] | Inr t \<Rightarrow> t) (ws_store s)"

datatype web_event =
    Web_Issue int "string option" "string option" save_result
  | Web_Check int "string option" save_result
  | Web_Clear "string option" save_result "string option"
  | Web_Revoke_All save_result "string option"
  | Web_Restart int
  | Web_Register string
  | Web_Unregister string nat
  | Web_Application_Ticket int string "string option" save_result
  | Web_Application_Consume int string string
  | Web_Download_Ticket int string string string "string option" save_result
  | Web_Download int string "string option" save_result
  | Web_Attach_Ticket int string string nat nat "string option" save_result
  | Web_Attach_Consume int string string
  | Web_Remote_Ticket int string string "string table" "string option" save_result
  | Web_Remote int string string string
  | Web_Remember int string json
  | Web_Browser_Allowed int string "(string \<times> auth_session) option"

fun web_step :: "(string \<Rightarrow> string) \<Rightarrow> web_event \<Rightarrow> web_state \<Rightarrow> web_state" where
  "web_step key (Web_Issue now i c w) s = snd (issueSession key now i c w s)"
| "web_step key (Web_Check now c w) s = snd (session key now c w s)"
| "web_step key (Web_Clear c w rm) s = snd (clearSession key c w rm s)"
| "web_step key (Web_Revoke_All w rm) s = snd (revokeAllSessions w rm s)"
| "web_step key (Web_Restart now) s = restart now s"
| "web_step key (Web_Register k) s = snd (registerSessionConnection k s)"
| "web_step key (Web_Unregister k n) s = unregisterSessionConnection k n s"
| "web_step key (Web_Application_Ticket now t c w) s = handleApplicationTicket key now t c w s"
| "web_step key (Web_Application_Consume now t k) s = snd (consumeApplicationTicket now t k s)"
| "web_step key (Web_Download_Ticket now t st p c w) s = handleDownloadTicket key now t st p c w s"
| "web_step key (Web_Download now t c w) s = snd (handleTicketDownload key now t c w s)"
| "web_step key (Web_Attach_Ticket now t x cols rows c w) s =
     snd (handleDockerContainerAttachTicket key now t x cols rows c w s)"
| "web_step key (Web_Attach_Consume now t k) s = snd (consumeDockerAttachTicket now t k s)"
| "web_step key (Web_Remote_Ticket now t i ps c w) s = handleRemoteClientTicket key now t i ps c w s"
| "web_step key (Web_Remote now t i k) s = snd (remoteTicket now t i k s)"
| "web_step key (Web_Remember now k v) s = rememberSessionTickets now k v s"
| "web_step key (Web_Browser_Allowed now t v) s = snd (browserTicketAllowed now t v s)"

text \<open>The specification: the sessions that were granted, by the digest of their cookie.  A session is granted when
  the issue succeeds, and withdrawn when it is cleared, or all are, without an error.\<close>

type_synonym grants = "string \<Rightarrow> auth_session option"

fun grant_step :: "(string \<Rightarrow> string) \<Rightarrow> web_event \<Rightarrow> web_state \<Rightarrow> grants \<Rightarrow> grants" where
  "grant_step key (Web_Issue now (Some i) (Some c) w) s g =
     (if fst (issueSession key now (Some i) (Some c) w s) = Some (key i)
      then g(key i \<mapsto> \<lparr>se_csrf = key c, se_expires = now + adminSessionTTL\<rparr>) else g)"
| "grant_step key (Web_Clear (Some c) w rm) s g =
     (if fst (clearSession key (Some c) w rm s) = None then g(key c := None) else g)"
| "grant_step key (Web_Revoke_All w rm) s g =
     (if fst (revokeAllSessions w rm s) = None then (\<lambda>_. None) else g)"
| "grant_step key _ s g = g"

fun grants_after :: "(string \<Rightarrow> string) \<Rightarrow> web_event list \<Rightarrow> web_state \<Rightarrow> grants \<Rightarrow> grants" where
  "grants_after key [] s g = g"
| "grants_after key (e # es) s g = grants_after key es (web_step key e s) (grant_step key e s g)"

subsection \<open>Only granted sessions are accepted\<close>

definition stored_sessions :: "session_store \<Rightarrow> auth_session table" where
  "stored_sessions st = (case st of Store_File _ (Some p) \<Rightarrow> ps_sessions p | _ \<Rightarrow> [])"

definition all_granted :: "grants \<Rightarrow> auth_session table \<Rightarrow> bool" where
  "all_granted g t = (keys_distinct t \<and> list_all (\<lambda>(k, v). g k = Some v) t)"

definition web_granted :: "grants \<Rightarrow> web_state \<Rightarrow> bool" where
  "web_granted g s = (all_granted g (ws_sessions s) \<and> all_granted g (stored_sessions (ws_store s)))"

lemma all_granted_delete: "all_granted g t \<Longrightarrow> all_granted g (AList.delete k t)"
  by (auto simp: all_granted_def list_all_iff set_delete)

lemma all_granted_keep: "all_granted g t \<Longrightarrow> all_granted g (keep_if P t)"
  by (auto simp: all_granted_def list_all_iff keep_if_def distinct_map_filter)

lemma all_granted_withdraw: "all_granted g t \<Longrightarrow> all_granted (g(k := None)) (AList.delete k t)"
  by (auto simp: all_granted_def list_all_iff set_delete)

lemma all_granted_update: "all_granted g t \<Longrightarrow> all_granted (g(k \<mapsto> v)) (AList.update k v t)"
proof -
  assume t: "all_granted g t"
  have "set (AList.update k v t) \<subseteq> insert (k, v) {x \<in> set t. fst x \<noteq> k}" if "keys_distinct t"
    using that by (induction t) (auto, force)
  with t show ?thesis by (fastforce simp: all_granted_def list_all_iff distinct_update)
qed

lemma all_granted_map_of: "all_granted g t \<Longrightarrow> map_of t k = Some v \<Longrightarrow> g k = Some v"
  by (auto simp: all_granted_def list_all_iff dest: map_of_SomeD)

lemma web_granted_drop: "web_granted g s \<Longrightarrow> web_granted g (drop_session k s)"
  by (simp add: web_granted_def drop_session_def all_granted_delete)

lemma web_granted_fold_drop: "web_granted g s \<Longrightarrow> web_granted g (fold drop_session ks s)"
  by (induction ks arbitrary: s) (simp_all add: web_granted_drop)

lemma web_granted_save: "web_granted g s \<Longrightarrow> web_granted g (snd (saveSessions w s))"
  by (auto simp: web_granted_def saveSessions_def stored_sessions_def split: sum.split)

lemma web_granted_tickets: "web_granted g (revokeSessionTickets held k s) = web_granted g s"
  by (simp add: web_granted_def)

lemma web_granted_session: "web_granted g s \<Longrightarrow> web_granted g (snd (session key now c w s))"
  by (simp add: session_def web_granted_tickets web_granted_save web_granted_drop split: option.split)

lemma web_granted_revoke:
  assumes "all_granted g (ws_sessions s)" "all_granted h (ws_sessions s)" "all_granted h (stored_sessions (ws_store s))"
  shows "web_granted (if fst (revokePersistedSessions w rm s) = None then g else h) (snd (revokePersistedSessions w rm s))"
  using assms
  by (auto simp: web_granted_def revokePersistedSessions_def saveSessions_def stored_sessions_def all_granted_def
      split: sum.splits option.splits session_store.splits)

lemma web_granted_issue:
  assumes "web_granted g s"
  shows "web_granted (grant_step key (Web_Issue now i c w) s g) (snd (issueSession key now i c w s))"
proof (cases "\<exists>j d. i = Some j \<and> c = Some d")
  case True
  then obtain j d where eq: "i = Some j" "c = Some d" by auto
  define s1 where "s1 = fold drop_session (expired_sessions now s) s"
  define v where "v = \<lparr>se_csrf = key d, se_expires = now + adminSessionTTL\<rparr>"
  have s1: "web_granted g s1" unfolding s1_def by (rule web_granted_fold_drop [OF assms])
  then have full: "web_granted g (snd (saveSessions w s1))" by (rule web_granted_save)
  have "web_granted (if fst (saveSessions w s2) = None then g(key j \<mapsto> v) else g)
      (case saveSessions w s2 of (None, s3) \<Rightarrow> s3 | (Some _, s3) \<Rightarrow> s3\<lparr>ws_sessions := AList.delete (key j) (ws_sessions s3)\<rparr>)"
    if "s2 = s1\<lparr>ws_sessions := AList.update (key j) v (ws_sessions s1)\<rparr>" for s2
  proof -
    have "AList.delete (key j) (AList.update (key j) v t) = AList.delete (key j) t" for t
      by (induction t) auto
    with s1 show ?thesis
      using all_granted_update [of g "ws_sessions s1" "key j" v] all_granted_delete [of g "ws_sessions s1" "key j"]
      by (auto simp: that web_granted_def saveSessions_def stored_sessions_def split: sum.split)
  qed
  with s1 full assms show ?thesis
    by (auto simp: eq issueSession_def Let_def s1_def [symmetric] v_def [symmetric] split: option.splits prod.splits)
qed (use assms in \<open>auto simp: issueSession_def split: option.splits\<close>)

lemma web_granted_clear:
  assumes "web_granted g s"
  shows "web_granted (grant_step key (Web_Clear c w rm) s g) (snd (clearSession key c w rm s))"
proof (cases c)
  case (Some d)
  let ?s = "drop_session (key d) s"
  have "all_granted (g(key d := None)) (ws_sessions ?s)"
    using assms by (simp add: web_granted_def drop_session_def all_granted_withdraw)
  moreover have "web_granted g ?s" by (rule web_granted_drop [OF assms])
  ultimately have "web_granted (if fst (revokePersistedSessions w rm ?s) = None then g(key d := None) else g)
      (snd (revokePersistedSessions w rm ?s))"
    by (intro web_granted_revoke) (auto simp: web_granted_def)
  then show ?thesis by (simp add: Some clearSession_def case_prod_unfold Let_def web_granted_tickets)
qed (use assms in \<open>simp add: clearSession_def\<close>)

lemma web_granted_revoke_all:
  assumes "web_granted g s"
  shows "web_granted (grant_step key (Web_Revoke_All w rm) s g) (snd (revokeAllSessions w rm s))"
proof -
  have "web_granted (if fst (revokeAllSessions w rm s) = None then (\<lambda>_. None) else g) (snd (revokeAllSessions w rm s))"
    unfolding revokeAllSessions_def
    by (rule web_granted_revoke) (use assms in \<open>auto simp: web_granted_def all_granted_def\<close>)
  then show ?thesis by simp
qed

lemma web_granted_restart: "web_granted g s \<Longrightarrow> web_granted g (restart now s)"
  by (auto simp: web_granted_def restart_def new_web_def loadSessions_def all_granted_keep stored_sessions_def
      split: sum.splits session_store.splits option.splits if_splits) (simp_all add: all_granted_def)

text \<open>What the other events do to the sessions and the store: nothing, or what the check of a session does.\<close>

lemma web_frame:
  "ws_sessions (web_step key (Web_Register k) s) = ws_sessions s" "ws_store (web_step key (Web_Register k) s) = ws_store s"
  "ws_sessions (web_step key (Web_Unregister k n) s) = ws_sessions s" "ws_store (web_step key (Web_Unregister k n) s) = ws_store s"
  "ws_sessions (web_step key (Web_Application_Consume now t k) s) = ws_sessions s"
  "ws_store (web_step key (Web_Application_Consume now t k) s) = ws_store s"
  "ws_sessions (web_step key (Web_Attach_Consume now t k) s) = ws_sessions s"
  "ws_store (web_step key (Web_Attach_Consume now t k) s) = ws_store s"
  "ws_sessions (web_step key (Web_Remote now t i k) s) = ws_sessions s"
  "ws_store (web_step key (Web_Remote now t i k) s) = ws_store s"
  "ws_sessions (web_step key (Web_Remember now k v) s) = ws_sessions s"
  "ws_store (web_step key (Web_Remember now k v) s) = ws_store s"
  "ws_sessions (web_step key (Web_Browser_Allowed now t x) s) = ws_sessions s"
  "ws_store (web_step key (Web_Browser_Allowed now t x) s) = ws_store s"
  by (simp_all add: registerSessionConnection_def unregisterSessionConnection_def consumeApplicationTicket_def
      consumeDockerAttachTicket_def remoteTicket_def rememberSessionTickets_def browserTicketAllowed_def Let_def
      split: option.split)

text \<open>The locks that are held and the tickets make no difference to the sessions.\<close>

lemma session_frame [simp]:
  "held \<noteq> [] \<Longrightarrow> ws_sessions (snd (session_holding held key now c w s)) = ws_sessions (snd (session key now c w s))"
  "held \<noteq> [] \<Longrightarrow> ws_store (snd (session_holding held key now c w s)) = ws_store (snd (session key now c w s))"
  by (simp_all add: session_holding_def split: option.split)

lemma fst_session_holding: "fst (session_holding held key now c w s) = fst (session key now c w s)"
  by (simp add: session_holding_def split: option.split)

lemma lose_lock_frame [simp]: "ws_sessions (lose_lock l s) = ws_sessions s" "ws_store (lose_lock l s) = ws_store s"
  by (simp_all add: lose_lock_def)

lemma session_downloads:
  "ws_sessions (snd (session key now c w (s\<lparr>ws_downloads := ds\<rparr>))) = ws_sessions (snd (session key now c w s))"
  "ws_store (snd (session key now c w (s\<lparr>ws_downloads := ds\<rparr>))) = ws_store (snd (session key now c w s))"
  by (simp_all add: session_def saveSessions_def drop_session_def split: option.split sum.split)

lemma web_frame_session:
  "ws_sessions (web_step key (Web_Check now c w) s) = ws_sessions (snd (session key now c w s))"
  "ws_store (web_step key (Web_Check now c w) s) = ws_store (snd (session key now c w s))"
  "ws_sessions (web_step key (Web_Download_Ticket now t st p c w) s) = ws_sessions (snd (session key now c w s))"
  "ws_store (web_step key (Web_Download_Ticket now t st p c w) s) = ws_store (snd (session key now c w s))"
  "ws_sessions (web_step key (Web_Download now t c w) s) = ws_sessions (snd (session key now c w s))"
  "ws_store (web_step key (Web_Download now t c w) s) = ws_store (snd (session key now c w s))"
  by (simp_all add: handleDownloadTicket_def handleTicketDownload_def case_prod_unfold Let_def session_downloads split: option.split)

lemma web_frame_locked:
  "ws_sessions (web_step key (Web_Application_Ticket now t c w) s)
     = (if Application_Lock \<in> set (ws_stuck s) then ws_sessions s else ws_sessions (snd (session key now c w s)))"
  "ws_store (web_step key (Web_Application_Ticket now t c w) s)
     = (if Application_Lock \<in> set (ws_stuck s) then ws_store s else ws_store (snd (session key now c w s)))"
  "ws_sessions (web_step key (Web_Remote_Ticket now t i ps c w) s)
     = (if Remote_Lock \<in> set (ws_stuck s) then ws_sessions s else ws_sessions (snd (session key now c w s)))"
  "ws_store (web_step key (Web_Remote_Ticket now t i ps c w) s)
     = (if Remote_Lock \<in> set (ws_stuck s) then ws_store s else ws_store (snd (session key now c w s)))"
  by (simp_all add: handleApplicationTicket_def handleRemoteClientTicket_def case_prod_unfold Let_def)

lemma web_frame_attach:
  "ws_sessions (web_step key (Web_Attach_Ticket now t x cols rows c w) s)
     = (if attach_size cols rows = None \<or> Attach_Lock \<in> set (ws_stuck s) then ws_sessions s
        else ws_sessions (snd (session key now c w s)))"
  "ws_store (web_step key (Web_Attach_Ticket now t x cols rows c w) s)
     = (if attach_size cols rows = None \<or> Attach_Lock \<in> set (ws_stuck s) then ws_store s
        else ws_store (snd (session key now c w s)))"
  by (cases "attach_size cols rows"; cases "session_expired key now c s";
      simp_all add: handleDockerContainerAttachTicket_def case_prod_unfold Let_def)+

lemma web_granted_step:
  assumes "web_granted g s"
  shows "web_granted (grant_step key e s g) (web_step key e s)"
proof -
  note checked = web_granted_session [OF assms, unfolded web_granted_def]
  note same = assms [unfolded web_granted_def]
  show ?thesis
  proof (cases e)
    case (Web_Issue now i c w)
    then show ?thesis using web_granted_issue [OF assms] by simp
  next
    case (Web_Clear c w rm)
    then show ?thesis using web_granted_clear [OF assms] by simp
  next
    case (Web_Revoke_All w rm)
    then show ?thesis using web_granted_revoke_all [OF assms] by simp
  next
    case (Web_Restart now)
    then show ?thesis using web_granted_restart [OF assms] by simp
  qed (simp_all only: web_granted_def web_frame web_frame_session web_frame_locked web_frame_attach grant_step.simps checked same simp_thms if_cancel split: if_split)
qed

lemma web_granted_run: "web_granted g s \<Longrightarrow> web_granted (grants_after key es s g) (run (web_step key) es s)"
  by (induction es arbitrary: s g) (simp_all add: web_granted_step)

text \<open>C32: Whatever requests, logouts, failing writes and restarts come in whatever order, a cookie is accepted as a
  session only when the server granted a session under its digest that has not expired, and the grant was not
  withdrawn by a logout or a revocation that reported success, not even over a restart.\<close>

theorem session_authentic:
  assumes "fst (session key now (Some c) w (run (web_step key) es (new_web [] Store_Missing))) = Some (k, v)"
  shows "k = key c \<and> now \<le> se_expires v \<and> grants_after key es (new_web [] Store_Missing) (\<lambda>_. None) k = Some v"
proof -
  have "web_granted (grants_after key es (new_web [] Store_Missing) (\<lambda>_. None)) (run (web_step key) es (new_web [] Store_Missing))"
    by (rule web_granted_run) (simp add: web_granted_def all_granted_def new_web_def stored_sessions_def)
  with assms show ?thesis
    by (auto simp: session_def web_granted_def dest: all_granted_map_of split: option.splits if_splits)
qed

definition toy_digest :: "string \<Rightarrow> string" where
  "toy_digest x = take 43 (x @ replicate 43 (CHR ''0''))"

lemma toy_digest_length [simp]: "length (toy_digest x) = 43"
  by (simp add: toy_digest_def)

lemma session_authentic_witness:
  "(let es = [Web_Issue 0 (Some ''cookie'') (Some ''csrf'') (Inr 200), Web_Check 5 (Some ''cookie'') (Inr 200), Web_Restart 9];
        s = new_web [] Store_Missing; v = \<lparr>se_csrf = toy_digest ''csrf'', se_expires = adminSessionTTL\<rparr>
    in fst (session toy_digest 10 (Some ''cookie'') (Inr 200) (run (web_step toy_digest) es s)) = Some (toy_digest ''cookie'', v)
       \<and> grants_after toy_digest es s (\<lambda>_. None) (toy_digest ''cookie'') = Some v)"
proof -
  let ?es = "[Web_Issue 0 (Some ''cookie'') (Some ''csrf'') (Inr 200), Web_Check 5 (Some ''cookie'') (Inr 200), Web_Restart 9]"
  have "fst (session toy_digest 10 (Some ''cookie'') (Inr 200) (run (web_step toy_digest) ?es (new_web [] Store_Missing)))
      = Some (toy_digest ''cookie'', \<lparr>se_csrf = toy_digest ''csrf'', se_expires = adminSessionTTL\<rparr>)"
    by (simp add: issueSession_def new_web_def expired_sessions_def saveSessions_def session_def restart_def loadSessions_def
        keep_if_def valid_record_def toy_digest_length zero_instant_def adminSessionTTL_def maxPersistedAuthSessions_def)
  from this session_authentic [OF this] show ?thesis by (simp only: Let_def simp_thms)
qed

subsection \<open>A session lasts\<close>

definition fits :: "save_result \<Rightarrow> bool" where
  "fits w = (case w of Inl _ \<Rightarrow> True | Inr n \<Rightarrow> n \<le> 131072)"

text \<open>The events that leave a session alone until an instant: nobody logs it out or issues it again, no logout
  fails to write the store, and the clock has not passed the instant.\<close>

fun gentle :: "(string \<Rightarrow> string) \<Rightarrow> string \<Rightarrow> int \<Rightarrow> web_event \<Rightarrow> bool" where
  "gentle key k until (Web_Issue now i c w) =
     (0 \<le> now \<and> now \<le> until \<and> fits w \<and> (case i of None \<Rightarrow> True | Some j \<Rightarrow> key j \<noteq> k))"
| "gentle key k until (Web_Check now c w) = (now \<le> until \<and> fits w)"
| "gentle key k until (Web_Clear c w rm) = (is_ok w \<and> fits w \<and> (case c of None \<Rightarrow> True | Some d \<Rightarrow> key d \<noteq> k))"
| "gentle key k until (Web_Revoke_All w rm) = False"
| "gentle key k until (Web_Restart now) = (now < until)"
| "gentle key k until (Web_Application_Ticket now t c w) = (now \<le> until \<and> fits w)"
| "gentle key k until (Web_Download_Ticket now t st p c w) = (now \<le> until \<and> fits w)"
| "gentle key k until (Web_Download now t c w) = (now \<le> until \<and> fits w)"
| "gentle key k until (Web_Attach_Ticket now t x cols rows c w) = (now \<le> until \<and> fits w)"
| "gentle key k until (Web_Remote_Ticket now t i ps c w) = (now \<le> until \<and> fits w)"
| "gentle key k until e = True"

text \<open>A table of sessions the store can hold, and one that holds a session.\<close>

definition storable :: "auth_session table \<Rightarrow> bool" where
  "storable t = (keys_distinct t \<and> list_all valid_record t \<and> length t \<le> 128)"

definition holds_session :: "string \<Rightarrow> auth_session \<Rightarrow> web_state \<Rightarrow> bool" where
  "holds_session k v s =
     (storable (ws_sessions s) \<and> map_of (ws_sessions s) k = Some v \<and> fits (case ws_store s of Store_File n _ \<Rightarrow> Inr n | _ \<Rightarrow> Inr 0)
      \<and> (\<exists>n p. ws_store s = Store_File n (Some p) \<and> ps_version p = 1 \<and> storable (ps_sessions p) \<and> map_of (ps_sessions p) k = Some v))"

lemma storable_delete: "storable t \<Longrightarrow> storable (AList.delete k t)"
  using length_delete_le [of k t] by (auto simp: storable_def list_all_iff set_delete)

lemma storable_keep: "storable t \<Longrightarrow> storable (keep_if P t)"
  by (auto simp: storable_def keep_if_def list_all_iff distinct_map_filter intro: order_trans [OF length_filter_le])

lemma storable_update:
  "storable t \<Longrightarrow> valid_record (k, v) \<Longrightarrow> length t < 128 \<Longrightarrow> storable (AList.update k v t)"
  using length_update_le [of k v t] subsetD [OF set_update_sub [of k v t]]
  by (auto simp: storable_def list_all_iff distinct_update split: if_splits)

lemma holds_save:
  assumes "storable (ws_sessions s)" "map_of (ws_sessions s) k = Some v" "fits w" "is_ok w \<or> holds_session k v s"
  shows "holds_session k v (snd (saveSessions w s))"
  using assms by (auto simp: holds_session_def saveSessions_def fits_def split: sum.splits)

lemma holds_drop: "holds_session k v s \<Longrightarrow> j \<noteq> k \<Longrightarrow> holds_session k v (drop_session j s)"
  by (simp add: holds_session_def drop_session_def storable_delete delete_conv')

lemma holds_fold_drop: "holds_session k v s \<Longrightarrow> k \<notin> set js \<Longrightarrow> holds_session k v (fold drop_session js s)"
  by (induction js arbitrary: s) (auto simp: holds_drop)

lemma holds_tickets: "holds_session k v (revokeSessionTickets held j s) = holds_session k v s"
  by (simp add: holds_session_def)

lemma holds_same: "ws_sessions s' = ws_sessions s \<Longrightarrow> ws_store s' = ws_store s \<Longrightarrow> holds_session k v s' = holds_session k v s"
  by (simp add: holds_session_def)

lemma holds_not_expired:
  "holds_session k v s \<Longrightarrow> now \<le> se_expires v \<Longrightarrow> k \<notin> set (expired_sessions now s)"
  by (auto simp: holds_session_def storable_def expired_sessions_def)

lemma holds_session_check:
  assumes h: "holds_session k v s" and "now \<le> se_expires v" "fits w"
  shows "holds_session k v (snd (session key now c w s))"
proof -
  have gone: "holds_session k v (snd (saveSessions w (drop_session j s)))" if "j \<noteq> k" for j
    using holds_drop [OF h that] assms(3) by (intro holds_save) (auto simp: holds_session_def)
  have "key d \<noteq> k" if "map_of (ws_sessions s) (key d) = Some u" "se_expires u < now" for d u
    using that h assms(2) by (auto simp: holds_session_def)
  with h show ?thesis by (simp add: session_def holds_tickets gone split: option.split)
qed

lemma holds_restart: "holds_session k v s \<Longrightarrow> now < se_expires v \<Longrightarrow> holds_session k v (restart now s)"
proof -
  assume h: "holds_session k v s" and now: "now < se_expires v"
  then obtain n p where st: "ws_store s = Store_File n (Some p)" and p: "n \<le> 131072" "ps_version p = 1"
      "storable (ps_sessions p)" "map_of (ps_sessions p) k = Some v"
    by (auto simp: holds_session_def fits_def)
  then have "loadSessions now (ws_store s) = Inr (keep_if (\<lambda>_ r. now < se_expires r) (ps_sessions p))"
    by (simp add: loadSessions_def storable_def maxPersistedAuthSessions_def)
  moreover have "map_of (keep_if (\<lambda>_ r. now < se_expires r) (ps_sessions p)) k = Some v"
    using p(3,4) now by (simp add: storable_def map_of_keep)
  ultimately show ?thesis
    using p st by (simp add: restart_def new_web_def holds_session_def storable_keep fits_def)
qed

lemma issue_holds_other:
  assumes h: "holds_session k v s" and "now \<le> se_expires v" "fits w" "0 \<le> now" "\<And>x. length (key x) = 43"
    and other: "\<And>j. i = Some j \<Longrightarrow> key j \<noteq> k"
  shows "holds_session k v (snd (issueSession key now i c w s))"
proof (cases "\<exists>j d. i = Some j \<and> c = Some d")
  case True
  then obtain j d where eq: "i = Some j" "c = Some d" by auto
  let ?v = "\<lparr>se_csrf = key d, se_expires = now + adminSessionTTL\<rparr>"
  define s1 where "s1 = fold drop_session (expired_sessions now s) s"
  have s1: "holds_session k v s1"
    unfolding s1_def by (rule holds_fold_drop [OF h holds_not_expired [OF h assms(2)]])
  have full: "holds_session k v (snd (saveSessions w s1))"
    using s1 assms(3) by (intro holds_save) (auto simp: holds_session_def)
  define s2 where "s2 = s1\<lparr>ws_sessions := AList.update (key j) ?v (ws_sessions s1)\<rparr>"
  have "valid_record (key j, ?v)"
    using assms(4,5) by (simp add: valid_record_def zero_instant_def adminSessionTTL_def)
  then have s2: "holds_session k v s2" if "length (ws_sessions s1) < 128"
    using s1 that other [OF eq(1)] by (simp add: s2_def holds_session_def storable_update update_conv')
  have "holds_session k v s3 \<and> holds_session k v (s3\<lparr>ws_sessions := AList.delete (key j) (ws_sessions s3)\<rparr>)"
    if "saveSessions w s2 = (x, s3)" "length (ws_sessions s1) < 128" for x s3
  proof -
    have "holds_session k v s3"
      using holds_save [of s2 k v w] s2 [OF that(2)] that(1) assms(3) by (auto simp: holds_session_def)
    then show ?thesis using other [OF eq(1)] by (simp add: holds_session_def storable_delete delete_conv')
  qed
  with s1 full h show ?thesis
    by (auto simp: eq issueSession_def Let_def s1_def [symmetric] s2_def [symmetric] split: option.splits prod.splits)
qed (use h in \<open>auto simp: issueSession_def split: option.splits\<close>)

lemma holds_gentle:
  assumes h: "holds_session k v s" and "gentle key k (se_expires v) e" and key: "\<And>x. length (key x) = 43"
  shows "holds_session k v (web_step key e s)"
proof -
  note checked = holds_session_check [OF h, unfolded holds_session_def]
  note same = h [unfolded holds_session_def]
  show ?thesis
  proof (cases e)
    case (Web_Issue now i c w)
    then show ?thesis using assms by (auto intro!: issue_holds_other split: option.splits)
  next
    case (Web_Clear c w rm)
    have "holds_session k v (snd (revokePersistedSessions w rm (drop_session j s)))" if "j \<noteq> k" "w = Inr n" "fits w" for j n
      using holds_save [of "drop_session j s" k v w] holds_drop [OF h that(1)] that(2,3)
      by (simp add: revokePersistedSessions_def holds_session_def saveSessions_def)
    then show ?thesis
      using assms by (auto simp: Web_Clear clearSession_def case_prod_unfold Let_def holds_tickets is_ok_iff split: option.split)
  next
    case (Web_Restart now)
    then show ?thesis using assms holds_restart by simp
  next
    case (Web_Attach_Ticket now t x cols rows c w)
    then show ?thesis
      using assms holds_session_check [OF h, of now w key c]
      by (cases "attach_size cols rows = None \<or> Attach_Lock \<in> set (ws_stuck s)") (simp_all add: holds_session_def web_frame_attach del: web_step.simps)
  qed (use assms in \<open>simp_all add: holds_session_def web_frame web_frame_session web_frame_locked checked same del: web_step.simps\<close>)
qed

lemma holds_gentle_run:
  assumes "\<And>x. length (key x) = 43"
  shows "holds_session k v s \<Longrightarrow> list_all (gentle key k (se_expires v)) es \<Longrightarrow> holds_session k v (run (web_step key) es s)"
  by (induction es arbitrary: s) (simp_all add: holds_gentle [OF _ _ assms])

text \<open>The sessions of a server are always ones that can be stored.\<close>

fun timely :: "web_event \<Rightarrow> bool" where
  "timely (Web_Issue now i c w) = (0 \<le> now)"
| "timely e = True"

definition web_storable :: "web_state \<Rightarrow> bool" where
  "web_storable s = (storable (ws_sessions s) \<and> keys_distinct (stored_sessions (ws_store s)))"

lemma web_storable_drop: "web_storable s \<Longrightarrow> web_storable (drop_session k s)"
  by (simp add: web_storable_def drop_session_def storable_delete)

lemma web_storable_fold_drop: "web_storable s \<Longrightarrow> web_storable (fold drop_session ks s)"
  by (induction ks arbitrary: s) (simp_all add: web_storable_drop)

lemma web_storable_save: "web_storable s \<Longrightarrow> web_storable (snd (saveSessions w s))"
  by (auto simp: web_storable_def saveSessions_def stored_sessions_def storable_def split: sum.split)

lemma web_storable_tickets: "web_storable (revokeSessionTickets held k s) = web_storable s"
  by (simp add: web_storable_def)

lemma web_storable_session: "web_storable s \<Longrightarrow> web_storable (snd (session key now c w s))"
  by (simp add: session_def web_storable_tickets web_storable_save web_storable_drop split: option.split)

lemma web_storable_revoke: "web_storable s \<Longrightarrow> web_storable (snd (revokePersistedSessions w rm s))"
  using web_storable_save [of s w]
  by (auto simp: revokePersistedSessions_def web_storable_def stored_sessions_def split: prod.split option.split)

lemma web_storable_issue:
  assumes s: "web_storable s" and "0 \<le> now" "\<And>x. length (key x) = 43"
  shows "web_storable (snd (issueSession key now i c w s))"
proof (cases "\<exists>j d. i = Some j \<and> c = Some d")
  case True
  then obtain j d where eq: "i = Some j" "c = Some d" by auto
  let ?v = "\<lparr>se_csrf = key d, se_expires = now + adminSessionTTL\<rparr>"
  define s1 where "s1 = fold drop_session (expired_sessions now s) s"
  have s1: "web_storable s1" unfolding s1_def by (rule web_storable_fold_drop [OF s])
  define s2 where "s2 = s1\<lparr>ws_sessions := AList.update (key j) ?v (ws_sessions s1)\<rparr>"
  have "valid_record (key j, ?v)"
    using assms(2,3) by (simp add: valid_record_def zero_instant_def adminSessionTTL_def)
  then have s2: "web_storable s2" if "length (ws_sessions s1) < 128"
    using s1 that by (simp add: s2_def web_storable_def storable_update)
  have "web_storable s3 \<and> web_storable (s3\<lparr>ws_sessions := AList.delete (key j) (ws_sessions s3)\<rparr>)"
    if "saveSessions w s2 = (x, s3)" "length (ws_sessions s1) < 128" for x s3
    using web_storable_save [OF s2 [OF that(2)], of w] that(1) by (simp add: web_storable_def storable_delete)
  with s1 s web_storable_save [OF s1, of w] show ?thesis
    by (auto simp: eq issueSession_def Let_def s1_def [symmetric] s2_def [symmetric] split: option.splits prod.splits)
qed (use s in \<open>auto simp: issueSession_def split: option.splits\<close>)

lemma web_storable_restart: "web_storable s \<Longrightarrow> web_storable (restart now s)"
proof -
  assume s: "web_storable s"
  have "storable t" if "loadSessions now (ws_store s) = Inr t" for t
  proof (cases "ws_store s")
    case (Store_File n x)
    with that s show ?thesis
      by (auto simp: loadSessions_def web_storable_def stored_sessions_def maxPersistedAuthSessions_def
          intro!: storable_keep split: option.splits if_splits) (simp add: storable_def)
  qed (use that in \<open>simp_all add: loadSessions_def storable_def\<close>)
  then show ?thesis using s by (auto simp: restart_def new_web_def web_storable_def storable_def split: sum.split)
qed

lemma web_storable_step:
  assumes s: "web_storable s" and "timely e" and key: "\<And>x. length (key x) = 43"
  shows "web_storable (web_step key e s)"
proof -
  note checked = web_storable_session [OF s, unfolded web_storable_def]
  note same = s [unfolded web_storable_def]
  show ?thesis
  proof (cases e)
    case (Web_Issue now i c w)
    then show ?thesis using assms by (simp add: web_storable_issue)
  next
    case (Web_Clear c w rm)
    have "web_storable (snd (revokePersistedSessions w rm (drop_session j s)))" for j
      by (rule web_storable_revoke [OF web_storable_drop [OF s]])
    then show ?thesis
      using s by (simp add: Web_Clear clearSession_def case_prod_unfold Let_def web_storable_tickets split: option.split)
  next
    case (Web_Revoke_All w rm)
    have "web_storable (snd (revokeAllSessions w rm s))"
      unfolding revokeAllSessions_def by (rule web_storable_revoke) (use s in \<open>simp add: web_storable_def storable_def\<close>)
    then show ?thesis by (simp add: Web_Revoke_All)
  next
    case (Web_Restart now)
    then show ?thesis using web_storable_restart [OF s] by simp
  next
    case (Web_Attach_Ticket now t x cols rows c w)
    then show ?thesis
      using s web_storable_session [OF s, of key now c w]
      by (cases "attach_size cols rows = None \<or> Attach_Lock \<in> set (ws_stuck s)") (simp_all add: web_storable_def web_frame_attach del: web_step.simps)
  qed (simp_all add: web_storable_def web_frame web_frame_session web_frame_locked checked same del: web_step.simps)
qed

interpretation web: guarded_machine "web_step key" "\<lambda>e _. timely e \<and> (\<forall>x. length (key x) = 43)" web_storable
  by unfold_locales (simp add: web_storable_step)

lemma admissible_timely:
  "list_all timely es \<Longrightarrow> (\<And>x. length (key x) = 43)
     \<Longrightarrow> admissible (web_step key) (\<lambda>e _. timely e \<and> (\<forall>x. length (key x) = 43)) es s"
  by (induction es arbitrary: s) simp_all

lemma issue_holds:
  assumes s: "web_storable s" and "0 \<le> now" "fits w" "\<And>x. length (key x) = 43"
    and issued: "fst (issueSession key now (Some i) (Some c) w s) = Some k"
  shows "k = key i \<and> holds_session k \<lparr>se_csrf = key c, se_expires = now + adminSessionTTL\<rparr>
    (snd (issueSession key now (Some i) (Some c) w s))"
proof -
  let ?v = "\<lparr>se_csrf = key c, se_expires = now + adminSessionTTL\<rparr>"
  define s1 where "s1 = fold drop_session (expired_sessions now s) s"
  define s2 where "s2 = s1\<lparr>ws_sessions := AList.update (key i) ?v (ws_sessions s1)\<rparr>"
  have s1: "web_storable s1" unfolding s1_def by (rule web_storable_fold_drop [OF s])
  from issued have room: "length (ws_sessions s1) < 128" and saved: "fst (saveSessions w s2) = None" and k: "k = key i"
      and result: "snd (issueSession key now (Some i) (Some c) w s) = snd (saveSessions w s2)"
    by (auto simp: issueSession_def Let_def s1_def [symmetric] s2_def [symmetric] split: if_splits prod.splits option.splits)
  have "valid_record (key i, ?v)"
    using assms(2,4) by (simp add: valid_record_def zero_instant_def adminSessionTTL_def)
  then have "storable (ws_sessions s2)"
    using s1 room by (simp add: s2_def web_storable_def storable_update)
  moreover have "is_ok w" using saved by (auto simp: saveSessions_def is_ok_def split: sum.splits)
  ultimately have "holds_session k ?v (snd (saveSessions w s2))"
    using assms(3) by (intro holds_save) (simp_all add: s2_def k update_conv')
  then show ?thesis using k result by simp
qed

text \<open>C33: A session lasts: once the server has granted it, its cookie is accepted until the day is over, through
  logins and logouts of others, expired sessions, failing writes of new sessions, tickets and restarts of the
  server; only its own logout, a revocation of all sessions or a logout that could not be saved ends it.\<close>

theorem session_lasts:
  assumes key: "\<And>x. length (key x) = 43" and "list_all timely es" "0 \<le> t" "fits w"
    and "s = run (web_step key) es (new_web [] Store_Missing)"
    and "fst (issueSession key t (Some i) (Some c) w s) = Some k"
    and "list_all (gentle key k (t + adminSessionTTL)) es'" "now \<le> t + adminSessionTTL"
  shows "fst (session key now (Some i) w' (run (web_step key) es' (snd (issueSession key t (Some i) (Some c) w s))))
     = Some (k, \<lparr>se_csrf = key c, se_expires = t + adminSessionTTL\<rparr>)"
proof -
  let ?v = "\<lparr>se_csrf = key c, se_expires = t + adminSessionTTL\<rparr>"
  have "web_storable s"
    unfolding assms(5)
    by (rule web.run_inv [OF _ admissible_timely [OF assms(2) key]])
       (simp add: web_storable_def new_web_def stored_sessions_def storable_def)
  from issue_holds [OF this assms(3,4) key assms(6)]
  have k: "k = key i" and h: "holds_session k ?v (snd (issueSession key t (Some i) (Some c) w s))" by blast+
  have "holds_session k ?v (run (web_step key) es' (snd (issueSession key t (Some i) (Some c) w s)))"
    by (rule holds_gentle_run [OF key h]) (use assms(7) in simp)
  then show ?thesis using assms(8) by (simp add: session_def holds_session_def k [symmetric])
qed

lemma session_lasts_witness:
  "fst (session toy_digest 50 (Some ''mine'') (Inr 9)
      (run (web_step toy_digest) [Web_Issue 20 (Some ''other'') (Some ''x'') (Inl (Sync_Temporary, ''disk full'')), Web_Restart 30]
        (snd (issueSession toy_digest 10 (Some ''mine'') (Some ''csrf'') (Inr 200) (new_web [] Store_Missing)))))
    = Some (toy_digest ''mine'', \<lparr>se_csrf = toy_digest ''csrf'', se_expires = 10 + adminSessionTTL\<rparr>)"
proof (rule session_lasts [where es = "[]"])
  show "fst (issueSession toy_digest 10 (Some ''mine'') (Some ''csrf'') (Inr 200) (new_web [] Store_Missing)) = Some (toy_digest ''mine'')"
    by (simp add: issueSession_def new_web_def expired_sessions_def saveSessions_def)
  have "toy_digest ''other'' \<noteq> toy_digest ''mine''" by (simp add: toy_digest_def)
  then show "list_all (gentle toy_digest (toy_digest ''mine'') (10 + adminSessionTTL))
      [Web_Issue 20 (Some ''other'') (Some ''x'') (Inl (Sync_Temporary, ''disk full'')), Web_Restart 30]"
    by (simp add: fits_def adminSessionTTL_def)
qed (simp_all add: fits_def adminSessionTTL_def)

subsection \<open>Tickets\<close>

text \<open>A ticket asked for by a request whose session was logged out after it was let in belongs to nobody: its holder
  opens the application connection without a session.\<close>

lemma ticket_outlives_logout:
  fixes key :: "string \<Rightarrow> string"
  defines "s \<equiv> snd (issueSession key 0 (Some ''cookie'') (Some ''csrf'') (Inr 200) (new_web [] Store_Missing))"
  shows "fst (session key 1 (Some ''cookie'') (Inr 200) s) \<noteq> None"
    "fst (clearSession key (Some ''cookie'') (Inr 100) None s) = None"
    "fst (consumeApplicationTicket 4 ''t'' []
       (run (web_step key) [Web_Check 1 (Some ''cookie'') (Inr 200), Web_Clear (Some ''cookie'') (Inr 100) None,
          Web_Application_Ticket 3 ''t'' (Some ''cookie'') (Inr 100)] s))"
  by (simp_all add: s_def issueSession_def new_web_def expired_sessions_def saveSessions_def session_def clearSession_def
      revokePersistedSessions_def drop_session_def revokeSessionTickets_def handleApplicationTicket_def session_holding_def session_expired_def Let_def
      consumeApplicationTicket_def session_id_def minute_def adminSessionTTL_def keep_if_def)

text \<open>A request for an application ticket whose session has expired since the request was let in: from then on nobody gets or uses such a
  ticket, and the lock stays lost until the server starts again.\<close>

lemma expired_session_deadlocks:
  assumes "session_expired key now cookie s" "s' = handleApplicationTicket key now t cookie w s"
  shows "Application_Lock \<in> set (ws_stuck s')" "handleApplicationTicket key now' t' cookie' w' s' = s'"
    "consumeApplicationTicket now' t' k s' = (False, s')"
proof -
  show "Application_Lock \<in> set (ws_stuck s')"
    using assms by (auto simp: handleApplicationTicket_def lose_lock_def case_prod_unfold Let_def)
  then show "handleApplicationTicket key now' t' cookie' w' s' = s'" "consumeApplicationTicket now' t' k s' = (False, s')"
    by (simp_all add: handleApplicationTicket_def consumeApplicationTicket_def)
qed

lemma fold_drop_stuck [simp]: "ws_stuck (fold drop_session ks s) = ws_stuck s"
  by (induction ks arbitrary: s) (simp_all add: drop_session_def)

lemma save_stuck [simp]: "ws_stuck (snd (saveSessions w s)) = ws_stuck s" "ws_stuck (snd (revokePersistedSessions w rm s)) = ws_stuck s"
  by (auto simp: saveSessions_def revokePersistedSessions_def split: sum.split option.split)

lemma session_stuck [simp]: "ws_stuck (snd (session_holding held key now c w s)) = ws_stuck s"
  by (simp add: session_holding_def drop_session_def split: option.split)

lemma lost_locks_stay:
  assumes "\<nexists>now. e = Web_Restart now"
  shows "set (ws_stuck s) \<subseteq> set (ws_stuck (web_step key e s))"
  using assms
  by (cases e) (auto simp: issueSession_def clearSession_def revokeAllSessions_def registerSessionConnection_def
      unregisterSessionConnection_def handleApplicationTicket_def consumeApplicationTicket_def handleDownloadTicket_def
      handleTicketDownload_def handleDockerContainerAttachTicket_def consumeDockerAttachTicket_def handleRemoteClientTicket_def
      remoteTicket_def rememberSessionTickets_def browserTicketAllowed_def lose_lock_def drop_session_def saveSessions_def
      case_prod_unfold Let_def split: option.split sum.split)

end
