(* ===== verification/ApplicationWS.thy ===== *)
theory ApplicationWS
  imports WebSessions "HOL-Library.Multiset"
begin

section \<open>The application connection\<close>

text \<open>
  Models \<^verbatim>\<open>internal/web/application_ws.go\<close>: the admission of a WebSocket to the server, which joins the sessions of
  the web server with the tickets of the browser publications, the frames of its streams, and the loop over its
  messages.  What the connections, the plugins and the stream managers answer is part of the event.
\<close>

definition applicationStreamChunk :: nat where
  "applicationStreamChunk = 32768"

definition applicationStreamFrame :: nat where
  "applicationStreamFrame = 38 + applicationStreamChunk"

definition applicationStreamCount :: nat where
  "applicationStreamCount = 64"

definition applicationStreamMagic :: string where
  "applicationStreamMagic = ''RPS1''"

subsection \<open>Frames\<close>

definition decodeApplicationStreamFrame :: "string \<Rightarrow> nat \<Rightarrow> (string \<times> string) option" where
  "decodeApplicationStreamFrame data kind =
     (if length data < 6 \<or> applicationStreamFrame < length data \<or> take 4 data \<noteq> applicationStreamMagic
         \<or> of_char (data ! 4) \<noteq> kind then None
      else (let n = of_char (data ! 5) in
        if n = 0 \<or> length data \<le> 6 + n then None
        else Some (take n (drop 6 data), drop (6 + n) data)))"

text \<open>The length byte wraps around; a copy stops at the end of the buffer.\<close>

definition encodeApplicationStreamFrame :: "string \<Rightarrow> string \<Rightarrow> string" where
  "encodeApplicationStreamFrame i payload =
     applicationStreamMagic @ [CHR 0x02, char_of (length i mod 256)] @ i @ payload"

subsection \<open>Admission\<close>

text \<open>A request that waits for a lost lock is not answered.\<close>

datatype admission = Refused string | Admitted "stream_grant option" | Unanswered

record ws_request =
  wr_cookie :: "string option"
  wr_ticket :: string
  wr_origin :: string
  wr_host :: string

definition same_origin :: "ws_request \<Rightarrow> bool" where
  "same_origin r =
     (case url_Parse (wr_origin r) of None \<Rightarrow> False | Some u \<Rightarrow> u_host u \<noteq> [] \<and> equal_fold (u_host u) (wr_host r))"

definition admitApplicationWS ::
  "(string \<Rightarrow> string) \<Rightarrow> int \<Rightarrow> ws_request \<Rightarrow> save_result \<Rightarrow> web_state \<times> browser_host \<Rightarrow> admission \<times> web_state \<times> browser_host" where
  "admitApplicationWS key now r w sh =
     (let (v, s) = session key now (wr_cookie r) w (fst sh) in
      if session_hangs key now (wr_cookie r) (fst sh) then (Unanswered, s, snd sh)
      else (let (grant, h) = consume now (wr_ticket r) (snd sh) in
        case grant of
          Some g \<Rightarrow>
            (case browserTicketAllowed now (wr_ticket r) v s of
               (ok, s) \<Rightarrow> (if ok then Admitted (Some g) else Refused ''browser session expired'', s, h))
        | None \<Rightarrow>
            if Application_Lock \<in> set (ws_stuck s) then (Unanswered, s, h)
            else (case consumeApplicationTicket now (wr_ticket r) (session_id v) s of
               (ok, s) \<Rightarrow>
                 (if \<not> ok then Refused ''application connection expired''
                  else if v \<noteq> None \<and> \<not> same_origin r then Refused ''websocket origin rejected''
                  else Admitted None, s, h))))"

subsection \<open>The message loop\<close>

datatype app_answer =
    Stream_Error string string
  | Stream_Attached string
  | Stream_Closed string
  | Stream_Data string
  | Call_Failed string string string
  | Call_Result string string
  | Plugin_Event string string string

text \<open>
  Every stream that is attached to has a number, its place in the order of the attachments, and is read by a forwarder of its own
  (\<open>forwardNetworkStream\<close>), which runs beside the loop over the messages: \<open>ac_forwarders\<close> are those that run, with the identifier of
  their stream.  \<open>ac_writing\<close> is the stream that the loop writes a message to.  Both release a stream: \<open>ac_released\<close> are the releases of
  the loop, \<open>ac_forward_released\<close> those of the forwarders.  \<open>ac_socket\<close> is false once the server has closed the socket, \<open>ac_open\<close> once the
  loop has ended.
\<close>

record app_connection =
  ac_grant :: "stream_grant option"
  ac_session :: string
  ac_attachments :: "(string \<times> nat) table"
  ac_serials :: nat
  ac_sent :: "app_answer list"
  ac_released :: "nat list"
  ac_forwarders :: "(nat \<times> string) list"
  ac_forward_released :: "nat list"
  ac_writing :: "(string \<times> nat) option"
  ac_attaches :: "(string \<times> string) list"
  ac_calls :: "(string \<times> string) list"
  ac_socket :: bool
  ac_open :: bool

definition new_connection :: "stream_grant option \<Rightarrow> string \<Rightarrow> app_connection" where
  "new_connection g k =
     \<lparr>ac_grant = g, ac_session = k, ac_attachments = [], ac_serials = 0, ac_sent = [], ac_released = [],
      ac_forwarders = [], ac_forward_released = [], ac_writing = None, ac_attaches = [], ac_calls = [], ac_socket = True,
      ac_open = True\<rparr>"

record stream_control =
  sc_type :: string
  sc_plugin :: string
  sc_stream :: string

record plugin_request =
  pr_id :: string
  pr_plugin :: string
  pr_method :: string

text \<open>
  What happens to a connection: its session is no longer valid or its socket ends; a binary message comes; the write of its payload
  to its stream ends, well or not; a text message comes, as what it decodes to, with the answer of the
  stream manager (an error code) to an attachment and whether the browser could be told of it, or of the plugin (an error or a result)
  to a call; a message of another
  kind; the data and the end of a stream, at its forwarder.
\<close>

datatype app_event =
    App_Ends
  | App_Binary string
  | App_Written bool
  | App_Control stream_control "string option" bool
  | App_Call "(string, plugin_request) result" "(string \<times> string, string) result"
  | App_Other
  | App_Stream_Data nat string
  | App_Stream_Ended nat bool

definition send_app :: "app_answer \<Rightarrow> app_connection \<Rightarrow> app_connection" where
  "send_app a c = c\<lparr>ac_sent := ac_sent c @ [a]\<rparr>"

definition detach :: "string \<Rightarrow> app_connection \<Rightarrow> app_connection" where
  "detach i c =
     (case map_of (ac_attachments c) i of
        None \<Rightarrow> c
      | Some (_, n) \<Rightarrow>
          c\<lparr>ac_attachments := AList.delete i (ac_attachments c), ac_released := ac_released c @ [n]\<rparr>)"

text \<open>The end of the loop: it releases what is still attached.\<close>

definition close_connection :: "app_connection \<Rightarrow> app_connection" where
  "close_connection c =
     c\<lparr>ac_attachments := [], ac_released := ac_released c @ map (snd \<circ> snd) (ac_attachments c), ac_writing := None, ac_open := False\<rparr>"

text \<open>A restricted connection may only name the stream of its grant, and only its owner to attach to it.\<close>

definition forbidden_control :: "stream_grant option \<Rightarrow> stream_control \<Rightarrow> bool" where
  "forbidden_control grant ctl =
     (case grant of
        None \<Rightarrow> False
      | Some g \<Rightarrow> (sc_plugin ctl \<noteq> gr_owner g \<and> sc_type ctl = ''stream.attach'') \<or> sc_stream ctl \<noteq> gr_stream g)"

definition attach_target :: "stream_grant option \<Rightarrow> stream_control \<Rightarrow> string \<times> string" where
  "attach_target grant ctl =
     (case grant of None \<Rightarrow> (sc_plugin ctl, sc_stream ctl) | Some g \<Rightarrow> (gr_owner g, gr_stream g))"

definition attach_stream :: "stream_control \<Rightarrow> string option \<Rightarrow> bool \<Rightarrow> app_connection \<Rightarrow> app_connection" where
  "attach_stream ctl answer told c =
     (let i = sc_stream ctl in
      if sc_plugin ctl = [] \<or> i = [] then send_app (Stream_Error i ''invalid_argument'') c
      else if map_of (ac_attachments c) i \<noteq> None \<or> applicationStreamCount \<le> length (ac_attachments c) then
        send_app (Stream_Error i ''failed_precondition'') c
      else (let c = c\<lparr>ac_attaches := ac_attaches c @ [attach_target (ac_grant c) ctl]\<rparr> in
        case answer of
          Some code \<Rightarrow> send_app (Stream_Error i code) c
        | None \<Rightarrow>
            (let n = ac_serials c;
                 c = c\<lparr>ac_attachments := AList.update i (sc_plugin ctl, n) (ac_attachments c), ac_serials := Suc n\<rparr>
             in if \<not> told then close_connection c
                else (send_app (Stream_Attached i) c)\<lparr>ac_forwarders := (n, i) # ac_forwarders c\<rparr>)))"

definition stream_control_step :: "stream_control \<Rightarrow> string option \<Rightarrow> bool \<Rightarrow> app_connection \<Rightarrow> app_connection" where
  "stream_control_step ctl answer told c =
     (if forbidden_control (ac_grant c) ctl then send_app (Stream_Error (sc_stream ctl) ''forbidden'') c
      else if sc_type ctl = ''stream.attach'' then attach_stream ctl answer told c
      else if sc_type ctl = ''stream.close'' then
        (if map_of (ac_attachments c) (sc_stream ctl) = None then send_app (Stream_Error (sc_stream ctl) ''not_found'') c
         else send_app (Stream_Closed (sc_stream ctl)) (detach (sc_stream ctl) c))
      else send_app (Stream_Error (sc_stream ctl) ''bad_request'') c)"

definition binary_step :: "string \<Rightarrow> app_connection \<Rightarrow> app_connection" where
  "binary_step data c =
     (case decodeApplicationStreamFrame data 1 of
        None \<Rightarrow> send_app (Stream_Error [] ''bad_request'') c
      | Some (i, payload) \<Rightarrow>
          (case map_of (ac_attachments c) i of
             None \<Rightarrow> send_app (Stream_Error i ''not_found'') c
           | Some (_, n) \<Rightarrow> c\<lparr>ac_writing := Some (i, n)\<rparr>))"

text \<open>When the write fails, the stream is released even if its forwarder has taken it out of the table in the meantime.\<close>

definition written_step :: "bool \<Rightarrow> app_connection \<Rightarrow> app_connection" where
  "written_step ok c =
     (case ac_writing c of
        None \<Rightarrow> c
      | Some (i, n) \<Rightarrow>
          if ok then c\<lparr>ac_writing := None\<rparr>
          else send_app (Stream_Closed i)
            (c\<lparr>ac_writing := None, ac_attachments := AList.delete i (ac_attachments c), ac_released := ac_released c @ [n]\<rparr>))"

definition call_step ::
  "(string, plugin_request) result \<Rightarrow> (string \<times> string, string) result \<Rightarrow> app_connection \<Rightarrow> app_connection" where
  "call_step request answer c =
     (if ac_grant c \<noteq> None then
        send_app (Call_Failed [] ''forbidden'' ''connection is restricted to one browser stream'') c
      else (case request of
          Inl e \<Rightarrow> send_app (Call_Failed [] ''bad_request'' e) c
        | Inr r \<Rightarrow>
            (let c = c\<lparr>ac_calls := ac_calls c @ [(pr_plugin r, pr_method r)]\<rparr> in
             case answer of
               Inl (code, m) \<Rightarrow> send_app (Call_Failed (pr_id r) code m) c
             | Inr v \<Rightarrow>
                 (let c = send_app (Call_Result (pr_id r) v) c
                  in if suffix ''.get'' (pr_method r) then
                       send_app (Plugin_Event (pr_plugin r) (trim_suffix ''.get'' (pr_method r) @ ''.changed'') v) c
                     else c))))"

text \<open>\<open>forwardNetworkStream\<close>: the data of a stream, and its end; \<open>live\<close> when the request has not ended.  At its end a forwarder takes its
  stream out of the table, if it is still there, and releases it in any case; on a restricted connection it then closes the socket.\<close>

definition stream_data :: "nat \<Rightarrow> string \<Rightarrow> app_connection \<Rightarrow> app_connection" where
  "stream_data n d c =
     (case map_of (ac_forwarders c) n of
        None \<Rightarrow> c
      | Some i \<Rightarrow> send_app (Stream_Data (encodeApplicationStreamFrame i (take applicationStreamChunk d))) c)"

definition stream_ended :: "nat \<Rightarrow> bool \<Rightarrow> app_connection \<Rightarrow> app_connection" where
  "stream_ended n live c =
     (case map_of (ac_forwarders c) n of
        None \<Rightarrow> c
      | Some i \<Rightarrow>
          (let c = c\<lparr>ac_forwarders := filter (\<lambda>(m, _). m \<noteq> n) (ac_forwarders c),
                     ac_attachments := (if map_option snd (map_of (ac_attachments c) i) = Some n
                                        then AList.delete i (ac_attachments c) else ac_attachments c),
                     ac_forward_released := ac_forward_released c @ [n]\<rparr>
           in if \<not> live then c
              else (let c = send_app (Stream_Closed i) c in if ac_grant c \<noteq> None then c\<lparr>ac_socket := False\<rparr> else c)))"

text \<open>The loop takes a message when it is not writing another one and the socket is not closed.\<close>

definition takes_message :: "app_connection \<Rightarrow> bool" where
  "takes_message c = (ac_open c \<and> ac_socket c \<and> ac_writing c = None)"

fun app_step :: "app_event \<Rightarrow> app_connection \<Rightarrow> app_connection" where
  "app_step App_Ends c = (if ac_open c \<and> ac_writing c = None then close_connection c else c)"
| "app_step (App_Binary d) c = (if takes_message c then binary_step d c else c)"
| "app_step (App_Written ok) c = written_step ok c"
| "app_step (App_Control ctl answer told) c = (if takes_message c then stream_control_step ctl answer told c else c)"
| "app_step (App_Call r answer) c = (if takes_message c then call_step r answer c else c)"
| "app_step App_Other c =
     (if takes_message c then send_app (Call_Failed [] ''bad_request'' ''application messages must be JSON text'') c else c)"
| "app_step (App_Stream_Data n d) c = stream_data n d c"
| "app_step (App_Stream_Ended n live) c = stream_ended n live c"

subsection \<open>Frames that were encoded\<close>

lemma char_code: "of_char (char_of (n mod 256) :: char) = n mod (256 :: nat)"
  by simp

lemma decode_encode_frame:
  assumes "0 < length i" "length i \<le> 255" "payload \<noteq> []" "length i + length payload \<le> 32 + applicationStreamChunk"
  shows "decodeApplicationStreamFrame (encodeApplicationStreamFrame i payload) 2 = Some (i, payload)"
proof -
  define header where "header = applicationStreamMagic @ [CHR 0x02, char_of (length i mod 256)]"
  have header: "length header = 6" "take 4 header = applicationStreamMagic" "header ! 4 = CHR 0x02"
      "header ! 5 = char_of (length i mod 256)"
    by (simp_all add: header_def applicationStreamMagic_def)
  have "encodeApplicationStreamFrame i payload = header @ i @ payload"
    by (simp add: encodeApplicationStreamFrame_def header_def)
  with assms header show ?thesis
    by (auto simp: decodeApplicationStreamFrame_def applicationStreamFrame_def Let_def nth_append)
qed

text \<open>An identifier of 256 bytes has the length byte zero, and nobody decodes its frames.\<close>

lemma long_identifier_lost: "length i = 256 \<Longrightarrow> decodeApplicationStreamFrame (encodeApplicationStreamFrame i payload) 2 = None"
  by (simp add: decodeApplicationStreamFrame_def encodeApplicationStreamFrame_def applicationStreamMagic_def Let_def)

subsection \<open>What holds of every connection\<close>

text \<open>The numbers of the streams that are attached, and those that somebody has released.\<close>

definition attached :: "app_connection \<Rightarrow> nat set" where
  "attached c = (snd \<circ> snd) ` set (ac_attachments c)"

definition released :: "app_connection \<Rightarrow> nat set" where
  "released c = set (ac_released c) \<union> set (ac_forward_released c)"

text \<open>A stream that is in use under an identifier is attached under no other.\<close>

definition only_under :: "string \<Rightarrow> nat \<Rightarrow> (string \<times> nat) table \<Rightarrow> bool" where
  "only_under i n t = (\<forall>(j, _, m) \<in> set t. m = n \<longrightarrow> j = i)"

definition numbers_ok :: "app_connection \<Rightarrow> bool" where
  "numbers_ok c =
     (attached c \<union> released c = {..<ac_serials c} \<and> attached c \<inter> released c = {}
      \<and> distinct (ac_released c) \<and> distinct (ac_forward_released c))"

definition forwarders_ok :: "app_connection \<Rightarrow> bool" where
  "forwarders_ok c =
     (\<forall>(n, i) \<in> set (ac_forwarders c). n < ac_serials c \<and> n \<notin> set (ac_forward_released c) \<and> only_under i n (ac_attachments c))"

definition writing_ok :: "app_connection \<Rightarrow> bool" where
  "writing_ok c =
     (\<forall>i n. ac_writing c = Some (i, n) \<longrightarrow>
        n < ac_serials c \<and> n \<notin> set (ac_released c) \<and> ac_open c \<and> only_under i n (ac_attachments c)
        \<and> (\<forall>p m. (i, p, m) \<in> set (ac_attachments c) \<longrightarrow> m = n))"

definition connection_ok :: "app_connection \<Rightarrow> bool" where
  "connection_ok c =
     (keys_distinct (ac_attachments c) \<and> length (ac_attachments c) \<le> applicationStreamCount
      \<and> inj_on (snd \<circ> snd) (set (ac_attachments c))
      \<and> numbers_ok c \<and> forwarders_ok c \<and> writing_ok c \<and> (\<not> ac_open c \<longrightarrow> ac_attachments c = []))"

lemmas connection_defs = connection_ok_def numbers_ok_def forwarders_ok_def writing_ok_def attached_def released_def

definition confined :: "stream_grant option \<Rightarrow> app_connection \<Rightarrow> bool" where
  "confined grant c =
     (ac_grant c = grant
      \<and> (case grant of
           None \<Rightarrow> True
         | Some g \<Rightarrow> ac_calls c = [] \<and> list_all (\<lambda>a. a = (gr_owner g, gr_stream g)) (ac_attaches c)
                      \<and> list_all (\<lambda>(i, _). i = gr_stream g) (ac_attachments c)))"

lemma connection_ok_send: "connection_ok (send_app a c) = connection_ok c"
  by (simp add: send_app_def connection_defs)

lemma confined_send: "confined g (send_app a c) = confined g c"
  by (cases g) (simp_all add: send_app_def confined_def)

lemma confined_delete:
  "confined g c \<Longrightarrow> ac_grant c' = ac_grant c \<Longrightarrow> ac_calls c' = ac_calls c \<Longrightarrow> ac_attaches c' = ac_attaches c
     \<Longrightarrow> set (ac_attachments c') \<subseteq> set (ac_attachments c) \<Longrightarrow> confined g c'"
  by (fastforce simp: confined_def list_all_iff split: option.splits)

text \<open>Taking a stream out of the table.\<close>

lemma only_under_subset: "set t' \<subseteq> set t \<Longrightarrow> only_under i n t \<Longrightarrow> only_under i n t'"
  by (fastforce simp: only_under_def)

lemma set_delete_subset: "set (AList.delete i t) \<subseteq> set t"
  by (auto simp: set_delete)

lemma removes_number:
  assumes "only_under i n t" "\<And>p m. (i, p, m) \<in> set t \<Longrightarrow> m = n"
  shows "(snd \<circ> snd) ` set (AList.delete i t) = (snd \<circ> snd) ` set t - {n}"
proof -
  have "fst x = i \<longleftrightarrow> snd (snd x) = n" if "x \<in> set t" for x
    using assms that by (cases x) (fastforce simp: only_under_def)
  then have "{x \<in> set t. fst x \<noteq> i} = {x \<in> set t. snd (snd x) \<noteq> n}" by auto
  then show ?thesis by (auto simp: set_delete image_iff)
qed

lemma connection_entry:
  assumes c: "connection_ok c" and i: "map_of (ac_attachments c) i = Some (p, n)"
  shows "only_under i n (ac_attachments c)" "(i, q, m) \<in> set (ac_attachments c) \<Longrightarrow> m = n" "n < ac_serials c" "n \<notin> released c"
proof -
  have i': "(i, p, n) \<in> set (ac_attachments c)" using i by (rule map_of_SomeD)
  then have "n \<in> attached c" by (force simp: attached_def)
  then show "n < ac_serials c" "n \<notin> released c" using c by (auto simp: connection_ok_def numbers_ok_def)
  show "only_under i n (ac_attachments c)"
  proof -
    have inj: "inj_on (snd \<circ> snd) (set (ac_attachments c))" using c by (simp add: connection_ok_def)
    have "x = (i, p, n)" if "x \<in> set (ac_attachments c)" "snd (snd x) = n" for x
      using inj_onD [OF inj, of x "(i, p, n)"] that i' by simp
    then show ?thesis by (fastforce simp: only_under_def)
  qed
  show "(i, q, m) \<in> set (ac_attachments c) \<Longrightarrow> m = n"
    using c i' eq_key_imp_eq_value [of "ac_attachments c" i] by (fastforce simp: connection_ok_def)
qed

lemma table_delete:
  assumes "connection_ok c"
  shows "keys_distinct (AList.delete i (ac_attachments c))" "length (AList.delete i (ac_attachments c)) \<le> applicationStreamCount"
    "inj_on (snd \<circ> snd) (set (AList.delete i (ac_attachments c)))"
  using assms length_delete_le [of i "ac_attachments c"] set_delete_subset [of i "ac_attachments c"]
  by (auto simp: connection_ok_def intro: inj_on_subset)

text \<open>A release of the loop.\<close>

lemma connection_ok_release:
  assumes c: "connection_ok c" and n: "only_under i n (ac_attachments c)" "\<And>p m. (i, p, m) \<in> set (ac_attachments c) \<Longrightarrow> m = n"
    "n < ac_serials c" "n \<notin> set (ac_released c)"
  shows "connection_ok (c\<lparr>ac_writing := None, ac_attachments := AList.delete i (ac_attachments c), ac_released := ac_released c @ [n]\<rparr>)"
    (is "connection_ok ?c")
proof -
  have a: "attached ?c = attached c - {n}" unfolding attached_def using removes_number [OF n(1,2)] by simp
  have r: "released ?c = insert n (released c)" by (auto simp: released_def)
  have "numbers_ok ?c" using c n(3,4) unfolding numbers_ok_def a r by (auto simp: connection_ok_def numbers_ok_def)
  moreover have "forwarders_ok ?c"
    using c only_under_subset [OF set_delete_subset] by (fastforce simp: connection_ok_def forwarders_ok_def)
  ultimately show ?thesis
    using c table_delete [OF c, of i] by (auto simp: connection_ok_def writing_ok_def)
qed

lemma connection_ok_detach:
  assumes "connection_ok c" "ac_writing c = None"
  shows "connection_ok (detach i c)"
proof (cases "map_of (ac_attachments c) i")
  case None
  with assms show ?thesis by (simp add: detach_def)
next
  case (Some x)
  obtain p n where x: "x = (p, n)" by (cases x)
  have "c\<lparr>ac_writing := None\<rparr> = c" using assms(2) by simp
  moreover have "n \<notin> set (ac_released c)" using connection_entry(4) [OF assms(1) Some [unfolded x]] by (simp add: released_def)
  moreover note connection_ok_release [OF assms(1) connection_entry(1,2,3) [OF assms(1) Some [unfolded x]]]
  ultimately show ?thesis using Some x by (simp add: detach_def)
qed

lemma confined_detach: "confined g c \<Longrightarrow> confined g (detach i c)"
  by (erule confined_delete) (auto simp: detach_def set_delete split: option.splits)

lemma connection_ok_close:
  assumes c: "connection_ok c"
  shows "connection_ok (close_connection c)"
proof -
  have "distinct (ac_attachments c)" using c by (simp add: connection_ok_def distinct_map)
  then have "distinct (map (snd \<circ> snd) (ac_attachments c))" using c by (simp add: distinct_map connection_ok_def)
  with c show ?thesis
    by (auto simp: connection_ok_def close_connection_def numbers_ok_def attached_def released_def forwarders_ok_def writing_ok_def only_under_def)
qed

lemma confined_close: "confined g c \<Longrightarrow> confined g (close_connection c)"
  by (cases g) (simp_all add: confined_def close_connection_def)

text \<open>The number of a new attachment is new.\<close>

lemma connection_ok_new:
  assumes c: "connection_ok c" "ac_open c" "ac_writing c = None"
    and i: "map_of (ac_attachments c) i = None" "length (ac_attachments c) < applicationStreamCount"
    and f: "fs = ac_forwarders c \<or> fs = (ac_serials c, i) # ac_forwarders c"
  shows "connection_ok (c\<lparr>ac_attaches := as, ac_attachments := AList.update i (p, ac_serials c) (ac_attachments c),
    ac_serials := Suc (ac_serials c), ac_forwarders := fs\<rparr>)" (is "connection_ok ?c")
proof -
  have fresh: "AList.update i (p, ac_serials c) (ac_attachments c) = ac_attachments c @ [(i, p, ac_serials c)]"
    using i(1) by (simp add: update_fresh map_of_eq_None_iff)
  have below: "m < ac_serials c" if "(j, q, m) \<in> set (ac_attachments c)" for j q m
  proof -
    have "m \<in> attached c" using that by (force simp: attached_def)
    then show ?thesis using c(1) by (auto simp: connection_ok_def numbers_ok_def)
  qed
  have a: "attached ?c = insert (ac_serials c) (attached c)" by (simp add: attached_def fresh)
  have r: "released ?c = released c" by (simp add: released_def)
  have "ac_serials c \<notin> released c" using c(1) by (auto simp: connection_ok_def numbers_ok_def)
  then have "numbers_ok ?c"
    using c(1) unfolding numbers_ok_def a r by (auto simp: connection_ok_def numbers_ok_def)
  moreover have "inj_on (snd \<circ> snd) (set (ac_attachments ?c))"
    using c(1) below by (fastforce simp: fresh connection_ok_def inj_on_def)
  moreover have "forwarders_ok ?c"
    using c(1) f below \<open>ac_serials c \<notin> released c\<close>
    by (fastforce simp: fresh connection_ok_def forwarders_ok_def only_under_def released_def)
  ultimately show ?thesis
    using c i by (simp add: connection_ok_def writing_ok_def fresh map_of_eq_None_iff)
qed

lemma connection_ok_attach:
  assumes c: "connection_ok c" "ac_open c" "ac_writing c = None"
  shows "connection_ok (attach_stream ctl answer told c)"
proof -
  have told: "(send_app a (c\<lparr>ac_attaches := as, ac_attachments := t, ac_serials := k\<rparr>))\<lparr>ac_forwarders := fs\<rparr>
      = send_app a (c\<lparr>ac_attaches := as, ac_attachments := t, ac_serials := k, ac_forwarders := fs\<rparr>)" for a "as" t k fs
    by (simp add: send_app_def)
  have untold: "c\<lparr>ac_attaches := as, ac_attachments := t, ac_serials := k\<rparr>
      = c\<lparr>ac_attaches := as, ac_attachments := t, ac_serials := k, ac_forwarders := ac_forwarders c\<rparr>" for "as" t k
    by simp
  have tried: "connection_ok (c\<lparr>ac_attaches := as\<rparr>)" for "as" using c by (simp add: connection_defs)
  show ?thesis
    using c tried connection_ok_new [OF c] connection_ok_close [OF connection_ok_new [OF c _ _ disjI1 [OF refl]]]
    by (auto simp: attach_stream_def Let_def connection_ok_send told simp del: not_None_eq split: option.split)
qed

lemma confined_attach:
  assumes c: "confined g c" and "\<not> forbidden_control g ctl"
  shows "confined g (attach_stream ctl answer told c)"
proof -
  have "set (AList.update i a (ac_attachments c)) \<subseteq> insert (i, a) (set (ac_attachments c))" for i a by (rule set_update_sub)
  with assms show ?thesis
    by (fastforce simp: attach_stream_def Let_def close_connection_def confined_def forbidden_control_def attach_target_def list_all_iff
        send_app_def split: option.splits)
qed

text \<open>A release of a forwarder.\<close>

lemma connection_ok_forwarded:
  assumes c: "connection_ok c" and n: "(n, i) \<in> set (ac_forwarders c)"
    and t: "t = (if map_option snd (map_of (ac_attachments c) i) = Some n then AList.delete i (ac_attachments c) else ac_attachments c)"
  shows "connection_ok (c\<lparr>ac_forwarders := filter (\<lambda>(m, _). m \<noteq> n) (ac_forwarders c), ac_attachments := t,
    ac_forward_released := ac_forward_released c @ [n]\<rparr>)" (is "connection_ok ?c")
proof -
  have f: "n < ac_serials c" "n \<notin> set (ac_forward_released c)" "only_under i n (ac_attachments c)"
    using c n by (auto simp: connection_ok_def forwarders_ok_def)
  have t': "set t \<subseteq> set (ac_attachments c)" "keys_distinct t" "length t \<le> applicationStreamCount" "inj_on (snd \<circ> snd) (set t)"
    using c table_delete [OF c, of i] set_delete_subset [of i] by (auto simp: t connection_ok_def)
  have a: "attached ?c = attached c - {n}"
  proof (cases "map_option snd (map_of (ac_attachments c) i) = Some n")
    case True
    then obtain p where "map_of (ac_attachments c) i = Some (p, n)" by auto
    with removes_number [OF f(3)] connection_entry(2) [OF c this] True show ?thesis by (simp add: attached_def t)
  next
    case False
    have "n \<notin> attached c"
    proof
      assume "n \<in> attached c"
      then obtain j p where j: "(j, p, n) \<in> set (ac_attachments c)" by (auto simp: attached_def)
      then have "j = i" using f(3) by (auto simp: only_under_def)
      with j c have "map_of (ac_attachments c) i = Some (p, n)" by (simp add: connection_ok_def)
      with False show False by simp
    qed
    with False show ?thesis by (simp add: attached_def t)
  qed
  have r: "released ?c = insert n (released c)" by (auto simp: released_def)
  have "numbers_ok ?c"
    using c f(1,2) unfolding numbers_ok_def a r by (auto simp: connection_ok_def numbers_ok_def)
  moreover have "forwarders_ok ?c"
    using c only_under_subset [OF t'(1)] by (fastforce simp: connection_ok_def forwarders_ok_def)
  moreover have "writing_ok ?c"
    unfolding writing_ok_def
  proof (intro allI impI)
    fix j k
    assume "ac_writing ?c = Some (j, k)"
    with c have w: "k < ac_serials c" "k \<notin> set (ac_released c)" "ac_open c" "only_under j k (ac_attachments c)"
        "\<forall>p m. (j, p, m) \<in> set (ac_attachments c) \<longrightarrow> m = k"
      by (simp_all add: connection_ok_def writing_ok_def)
    moreover have "only_under j k t" using only_under_subset [OF t'(1) w(4)] .
    moreover have "\<forall>p m. (j, p, m) \<in> set t \<longrightarrow> m = k" using t'(1) w(5) by blast
    ultimately show "k < ac_serials ?c \<and> k \<notin> set (ac_released ?c) \<and> ac_open ?c \<and> only_under j k (ac_attachments ?c)
        \<and> (\<forall>p m. (j, p, m) \<in> set (ac_attachments ?c) \<longrightarrow> m = k)" by simp
  qed
  moreover have "ac_open c \<or> t = []" using c t'(1) by (auto simp: connection_ok_def)
  ultimately show ?thesis using t' by (auto simp: connection_ok_def)
qed

lemma connection_ok_ended:
  assumes c: "connection_ok c"
  shows "connection_ok (stream_ended n live c)"
proof (cases "map_of (ac_forwarders c) n")
  case None
  with c show ?thesis by (simp add: stream_ended_def)
next
  case (Some i)
  have socket: "connection_ok (c\<lparr>ac_socket := b\<rparr>) = connection_ok c" for b c by (simp add: connection_defs)
  show ?thesis
    using connection_ok_forwarded [OF c map_of_SomeD [OF Some] refl] Some
    by (simp add: stream_ended_def Let_def connection_ok_send socket)
qed

lemma confined_ended: "confined g c \<Longrightarrow> confined g (stream_ended n live c)"
  by (erule confined_delete)
    (auto simp: stream_ended_def Let_def send_app_def set_delete split: option.splits if_splits)

lemma connection_ok_written:
  assumes c: "connection_ok c"
  shows "connection_ok (written_step ok c)"
proof (cases "ac_writing c")
  case None
  with c show ?thesis by (simp add: written_step_def)
next
  case (Some x)
  obtain i n where x: "x = (i, n)" by (cases x)
  have w: "only_under i n (ac_attachments c)" "\<And>p m. (i, p, m) \<in> set (ac_attachments c) \<Longrightarrow> m = n"
    "n < ac_serials c" "n \<notin> set (ac_released c)"
    using c Some x by (auto simp: connection_ok_def writing_ok_def)
  have "connection_ok (c\<lparr>ac_writing := None\<rparr>)" using c by (simp add: connection_defs)
  with connection_ok_release [OF c w] Some x show ?thesis by (simp add: written_step_def connection_ok_send)
qed

lemma confined_written: "confined g c \<Longrightarrow> confined g (written_step ok c)"
  by (erule confined_delete)
    (auto simp: written_step_def send_app_def set_delete split: option.splits if_splits)

lemma connection_ok_binary:
  assumes c: "connection_ok c" "takes_message c"
  shows "connection_ok (binary_step d c)"
proof -
  have "connection_ok (c\<lparr>ac_writing := Some (i, n)\<rparr>)" if i: "map_of (ac_attachments c) i = Some (p, n)" for i p n
    using c connection_entry [OF c(1) i] by (auto simp: connection_ok_def writing_ok_def takes_message_def connection_defs)
  with c show ?thesis by (auto simp: binary_step_def connection_ok_send split: option.split)
qed

lemma confined_binary: "confined g c \<Longrightarrow> confined g (binary_step d c)"
  by (erule confined_delete) (auto simp: binary_step_def send_app_def split: option.splits)

lemma connection_ok_step: "connection_ok c \<Longrightarrow> connection_ok (app_step e c)"
proof (cases e)
  case (App_Control ctl answer told)
  then show "connection_ok c \<Longrightarrow> ?thesis"
    by (simp add: stream_control_step_def takes_message_def connection_ok_send connection_ok_detach connection_ok_attach)
next
  case (App_Call r answer)
  have "connection_ok (c\<lparr>ac_calls := cs\<rparr>) = connection_ok c" for cs by (simp add: connection_defs)
  then show "connection_ok c \<Longrightarrow> ?thesis"
    by (simp add: App_Call call_step_def Let_def connection_ok_send split: sum.split)
qed (simp_all add: connection_ok_binary connection_ok_written connection_ok_ended stream_data_def connection_ok_send
    connection_ok_close split: option.split)

lemma confined_step: "confined g c \<Longrightarrow> confined g (app_step e c)"
proof (cases e)
  case (App_Control ctl answer told)
  assume c: "confined g c"
  then have "ac_grant c = g" by (simp add: confined_def)
  with c show ?thesis
    by (simp add: App_Control stream_control_step_def confined_send confined_detach confined_attach)
next
  case (App_Call r answer)
  have "confined None (c\<lparr>ac_calls := cs\<rparr>)" if "confined None c" for cs using that by (simp add: confined_def)
  then show "confined g c \<Longrightarrow> ?thesis"
    by (cases g) (auto simp: App_Call call_step_def Let_def confined_send split: sum.split, simp_all add: confined_def)
qed (simp_all add: confined_binary confined_written confined_ended stream_data_def confined_send confined_close split: option.split)

interpretation app: machine app_step "\<lambda>c. connection_ok c \<and> confined g c"
  by unfold_locales (simp add: connection_ok_step confined_step)


text \<open>A stream that the browser closes is released twice: when the loop closes it, and when its forwarder then ends.\<close>

lemma closed_stream_released_twice:
  "(let attach = App_Control \<lparr>sc_type = ''stream.attach'', sc_plugin = ''remote'', sc_stream = ''s1''\<rparr> None True;
        close = App_Control \<lparr>sc_type = ''stream.close'', sc_plugin = ''remote'', sc_stream = ''s1''\<rparr> None True;
        c = run app_step [attach, close, App_Stream_Ended 0 True] (new_connection None ''k'')
    in ac_released c = [0] \<and> ac_forward_released c = [0])"
  by code_simp

end
