(* ===== verification/Utf8.thy ===== *)
theory Utf8
  imports Prelude
begin

section \<open>UTF-8\<close>

text \<open>
  Go's \<^verbatim>\<open>unicode/utf8\<close> and \<^verbatim>\<open>strings.ToValidUTF8\<close> as far as the sources use them: a rune is one to four bytes, the
  ranges of the first and the second byte exclude overlong forms, surrogates and values above the last code point.
\<close>

definition byte_in :: "nat \<Rightarrow> nat \<Rightarrow> char \<Rightarrow> bool" where
  "byte_in lo hi c = (lo \<le> of_char c \<and> of_char c \<le> (hi :: nat))"

text \<open>The length of a rune by its first byte (0: no first byte) and the range of its second byte.\<close>

definition lead_length :: "char \<Rightarrow> nat" where
  "lead_length c =
     (if byte_in 0 0x7F c then 1 else if byte_in 0xC2 0xDF c then 2 else if byte_in 0xE0 0xEF c then 3
      else if byte_in 0xF0 0xF4 c then 4 else 0)"

definition second_byte :: "char \<Rightarrow> char \<Rightarrow> bool" where
  "second_byte c d =
     (if c = CHR 0xE0 then byte_in 0xA0 0xBF d else if c = CHR 0xED then byte_in 0x80 0x9F d
      else if c = CHR 0xF0 then byte_in 0x90 0xBF d else if c = CHR 0xF4 then byte_in 0x80 0x8F d
      else byte_in 0x80 0xBF d)"

text \<open>The length of the rune at the front of a text, 0 if it is not one.\<close>

definition rune_length :: "string \<Rightarrow> nat" where
  "rune_length s =
     (case s of
        [] \<Rightarrow> 0
      | c # t \<Rightarrow>
          (let n = lead_length c in
           if n = 1 then 1
           else if n \<noteq> 0 \<and> n \<le> length s \<and> second_byte c (hd t) \<and> list_all (byte_in 0x80 0xBF) (take (n - 2) (tl t))
           then n else 0))"

lemma rune_length_le: "rune_length s \<le> length s"
  by (auto simp: rune_length_def Let_def split: list.split)

lemma rune_length_append: "rune_length s \<noteq> 0 \<Longrightarrow> rune_length (s @ t) = rune_length s"
proof (cases s)
  case (Cons c u)
  assume "rune_length s \<noteq> 0"
  then consider "lead_length c = 1" | "lead_length c \<noteq> 1" "lead_length c \<noteq> 0" "lead_length c \<le> Suc (length u)"
    by (auto simp: rune_length_def Cons Let_def split: if_splits)
  then show ?thesis
  proof cases
    case 2
    then obtain d v where u: "u = d # v" by (cases u) auto
    with 2 have "take (lead_length c - 2) (v @ t) = take (lead_length c - 2) v" by simp
    with 2 show ?thesis by (simp add: rune_length_def Cons u Let_def)
  qed (simp add: rune_length_def Cons Let_def)
qed (simp add: rune_length_def)

function valid_utf8 :: "string \<Rightarrow> bool" where
  "valid_utf8 s = (if s = [] then True else if rune_length s = 0 then False else valid_utf8 (drop (rune_length s) s))"
  by pat_completeness auto

termination by (relation "measure length") auto

declare valid_utf8.simps [simp del]

lemma valid_utf8_Nil [simp]: "valid_utf8 []"
  by (simp add: valid_utf8.simps)

lemma valid_utf8_append: "valid_utf8 s \<Longrightarrow> valid_utf8 t \<Longrightarrow> valid_utf8 (s @ t)"
proof (induction s rule: valid_utf8.induct)
  case (1 s)
  show ?case
  proof (cases "s = []")
    case False
    from 1(2) False have r: "rune_length s \<noteq> 0" and v: "valid_utf8 (drop (rune_length s) s)"
      by (simp_all add: valid_utf8.simps [of s] split: if_splits)
    have "valid_utf8 (drop (rune_length s) s @ t)" by (rule 1(1) [OF False r v 1(3)])
    moreover have "drop (rune_length s) s @ t = drop (rune_length (s @ t)) (s @ t)"
      using rune_length_le [of s] by (simp add: rune_length_append [OF r])
    ultimately show ?thesis using r by (subst valid_utf8.simps) (simp add: rune_length_append)
  qed (use 1(3) in simp)
qed

lemma ascii_rune: "byte_in 0 0x7F c \<Longrightarrow> rune_length (c # s) = 1"
  by (simp add: rune_length_def lead_length_def)

lemma ascii_valid: "list_all (byte_in 0 0x7F) s \<Longrightarrow> valid_utf8 s"
proof (induction s)
  case (Cons c s)
  then show ?case by (subst valid_utf8.simps) (simp add: ascii_rune)
qed simp

text \<open>\<^verbatim>\<open>utf8.RuneStart\<close>: a byte that does not continue a rune.\<close>

definition rune_start :: "char \<Rightarrow> bool" where
  "rune_start c = (\<not> byte_in 0x80 0xBF c)"

text \<open>\<^verbatim>\<open>strings.ToValidUTF8\<close>: each maximal run of bytes that belong to no rune becomes one replacement.\<close>

function to_valid_from :: "bool \<Rightarrow> string \<Rightarrow> string \<Rightarrow> string" where
  "to_valid_from broken r s =
     (if s = [] then []
      else if rune_length s = 0 then (if broken then [] else r) @ to_valid_from True r (tl s)
      else take (rune_length s) s @ to_valid_from False r (drop (rune_length s) s))"
  by pat_completeness auto

termination by (relation "measure (\<lambda>(_, _, s). length s)") auto

declare to_valid_from.simps [simp del]

definition to_valid_utf8 :: "string \<Rightarrow> string \<Rightarrow> string" where
  "to_valid_utf8 s r = to_valid_from False r s"

lemma valid_rune: "rune_length s \<noteq> 0 \<Longrightarrow> valid_utf8 (take (rune_length s) s)"
proof -
  assume r: "rune_length s \<noteq> 0"
  have "rune_length (take (rune_length s) s) = rune_length s"
  proof (cases s)
    case (Cons c u)
    then have n: "rune_length s = lead_length c" "lead_length c \<noteq> 0" using r
      by (auto simp: rune_length_def Let_def split: if_splits)
    show ?thesis
    proof (cases "lead_length c = 1")
      case False
      with n r Cons obtain d v where u: "u = d # v" by (cases u) (auto simp: rune_length_def Let_def split: if_splits)
      obtain k where k: "lead_length c = Suc (Suc k)" using False n by (cases "lead_length c"; cases "lead_length c - 1") auto
      from r show ?thesis by (simp add: n Cons u k rune_length_def Let_def split: if_splits)
    qed (simp add: n Cons rune_length_def)
  qed (use r in \<open>simp add: rune_length_def\<close>)
  with r show ?thesis by (subst valid_utf8.simps) simp
qed

lemma to_valid_from_valid: "valid_utf8 r \<Longrightarrow> valid_utf8 (to_valid_from b r s)"
proof (induction b r s rule: to_valid_from.induct)
  case (1 b r s)
  then show ?case
    by (subst to_valid_from.simps) (auto intro!: valid_utf8_append valid_rune)
qed

lemma to_valid_from_id: "valid_utf8 s \<Longrightarrow> to_valid_from b r s = s"
proof (induction s arbitrary: b rule: valid_utf8.induct)
  case (1 s)
  show ?case
  proof (cases "s = []")
    case False
    with 1(2) have r: "rune_length s \<noteq> 0" and v: "valid_utf8 (drop (rune_length s) s)"
      by (simp_all add: valid_utf8.simps [of s] split: if_splits)
    from 1(1) [OF False r v] False r show ?thesis by (subst to_valid_from.simps) simp
  qed (simp add: to_valid_from.simps)
qed

lemma to_valid_utf8_valid: "valid_utf8 r \<Longrightarrow> valid_utf8 (to_valid_utf8 s r)"
  by (simp add: to_valid_utf8_def to_valid_from_valid)

lemma to_valid_utf8_id: "valid_utf8 s \<Longrightarrow> to_valid_utf8 s r = s"
  by (simp add: to_valid_utf8_def to_valid_from_id)

text \<open>
  \<^verbatim>\<open>history.truncateText\<close> (\<^verbatim>\<open>internal/history/owned.go\<close>): a text of at most \<open>limit\<close> bytes, cut back until it is valid.
\<close>

function cut_valid :: "string \<Rightarrow> string" where
  "cut_valid s = (if s \<noteq> [] \<and> \<not> valid_utf8 s then cut_valid (butlast s) else s)"
  by pat_completeness auto

termination by (relation "measure length") (auto simp: length_greater_0_conv)

declare cut_valid.simps [simp del]

definition truncateText :: "string \<Rightarrow> nat \<Rightarrow> string" where
  "truncateText v limit = (if length v \<le> limit then v else cut_valid (take limit v))"

lemma cut_valid_valid: "valid_utf8 (cut_valid s)"
  by (induction s rule: cut_valid.induct) (subst cut_valid.simps, auto)

lemma cut_valid_prefix: "prefix (cut_valid s) s"
proof (induction s rule: cut_valid.induct)
  case (1 s)
  show ?case
  proof (cases "s \<noteq> [] \<and> \<not> valid_utf8 s")
    case True
    then have "prefix (cut_valid (butlast s)) (butlast s)" by (intro 1) auto
    moreover have "prefix (butlast s) s" by (rule prefixeq_butlast)
    ultimately show ?thesis using True by (subst cut_valid.simps) (auto dest: prefix_order.trans)
  next
    case False
    then show ?thesis by (subst cut_valid.simps) auto
  qed
qed

text \<open>The cut loses nothing that is valid: every valid prefix of the text within the limit is kept.\<close>

lemma cut_valid_longest: "prefix p s \<Longrightarrow> valid_utf8 p \<Longrightarrow> prefix p (cut_valid s)"
proof (induction s rule: cut_valid.induct)
  case (1 s)
  show ?case
  proof (cases "s \<noteq> [] \<and> \<not> valid_utf8 s")
    case True
    with 1(3) have "p \<noteq> s" by auto
    with 1(2) True have "prefix p (butlast s)"
      by (metis append_butlast_last_id prefix_snoc)
    with 1 True have "prefix p (cut_valid (butlast s))" by blast
    with True show ?thesis by (subst cut_valid.simps) auto
  next
    case False
    with 1(2) show ?thesis by (subst cut_valid.simps) auto
  qed
qed

lemma truncateText_spec:
  "length (truncateText v limit) \<le> limit \<and> prefix (truncateText v limit) v
   \<and> (valid_utf8 v \<longrightarrow> valid_utf8 (truncateText v limit))"
proof (cases "length v \<le> limit")
  case False
  have "prefix (cut_valid (take limit v)) v"
    using prefix_order.trans [OF cut_valid_prefix take_is_prefix] .
  moreover have "length (cut_valid (take limit v)) \<le> limit"
    using prefix_length_le [OF cut_valid_prefix [of "take limit v"]] by simp
  ultimately show ?thesis using False cut_valid_valid by (simp add: truncateText_def)
qed (simp add: truncateText_def)

end
