(* ===== verification/Guac.thy ===== *)
theory Guac
  imports Utf8
begin

section \<open>The Guacamole protocol\<close>

text \<open>
  Models the protocol part of \<^verbatim>\<open>plugins/remote/backend/plugin.go\<close>: instructions as guacd reads and writes them, and the
  plugin reading and writing them over a network stream of the host.  A call of the host is one element of
  the transcript; what the host answers is the next element of a list of answers.
\<close>

type_synonym rpc_failure = "string \<times> string"

definition fail :: "string \<Rightarrow> string \<Rightarrow> rpc_failure" where
  "fail code m = (code, m)"

definition maxGuacElement :: nat where "maxGuacElement = 1048576"
definition maxGuacInstruction :: nat where "maxGuacInstruction = 65536"
definition guacReadWindow :: nat where "guacReadWindow = 4096"
definition maxGuacArgs :: nat where "maxGuacArgs = 512"
definition streamChunk :: nat where "streamChunk = 49152"

lemmas guac_limits = maxGuacElement_def maxGuacInstruction_def guacReadWindow_def maxGuacArgs_def streamChunk_def

record guac_instruction =
  gi_opcode :: string
  gi_args :: "string list"

subsection \<open>Parsing\<close>

text \<open>
  \<open>parseGuacInstruction\<close>: the elements read so far, the bytes they have, the bytes consumed and the rest of the data.
  \<open>Incomplete\<close> is the answer of the code that asks for more data.
\<close>

datatype guac_parse =
    Malformed rpc_failure
  | Incomplete
  | Complete guac_instruction nat

function parse_elements :: "string list \<Rightarrow> nat \<Rightarrow> nat \<Rightarrow> string \<Rightarrow> guac_parse" where
  "parse_elements vs acc offset data =
     (let digits = takeWhile is_digit data; rest = dropWhile is_digit data in
      if 8 < length digits then Malformed (fail ''failed'' ''invalid guacamole element length'')
      else if rest = [] then Incomplete
      else if digits = [] \<or> hd rest \<noteq> CHR ''.'' then Malformed (fail ''failed'' ''invalid guacamole element length'')
      else (case atoi digits of
          None \<Rightarrow> Malformed (fail ''failed'' ''guacamole element exceeds limit'')
        | Some n \<Rightarrow>
            (let len = nat n; body = tl rest in
             if int maxGuacElement < n then Malformed (fail ''failed'' ''guacamole element exceeds limit'')
             else if length body < len + 1 then Incomplete
             else if body ! len \<noteq> CHR '','' \<and> body ! len \<noteq> CHR '';'' then
               Malformed (fail ''failed'' ''invalid guacamole instruction separator'')
             else if \<not> valid_utf8 (take len body) then Malformed (fail ''failed'' ''guacamole instruction is not UTF-8'')
             else if maxGuacInstruction < acc + len \<or> maxGuacArgs \<le> length vs then
               Malformed (fail ''failed'' ''guacamole instruction exceeds limit'')
             else (let vs' = vs @ [take len body]; offset' = offset + length digits + 1 + len + 1 in
                   if body ! len = CHR '';'' then
                     (if hd vs' = [] then Malformed (fail ''failed'' ''guacamole opcode is missing'')
                      else Complete \<lparr>gi_opcode = hd vs', gi_args = tl vs'\<rparr> offset')
                   else parse_elements vs' (acc + len) offset' (drop (len + 1) body)))))"
  by pat_completeness auto

termination
proof (relation "measure (\<lambda>(_, _, _, data). length data)", simp, goal_cases)
  case (1 vs acc offset data digits rest n len body vs' offset')
  have "length (dropWhile is_digit data) \<le> length data" by (rule length_dropWhile_le)
  with 1 show ?case by (cases "dropWhile is_digit data") auto
qed

declare parse_elements.simps [simp del]

definition parseGuacInstruction :: "string \<Rightarrow> guac_parse" where
  "parseGuacInstruction data = parse_elements [] 0 0 data"

subsection \<open>Printing\<close>

definition guac_element :: "string \<Rightarrow> string" where
  "guac_element v = itoa (int (length v)) @ ''.'' @ v"

definition guac_text :: "string list \<Rightarrow> string" where
  "guac_text vs = join_with '','' (map guac_element vs) @ '';''"

text \<open>The checks of \<open>writeInstruction\<close>, and the instruction as bytes.\<close>

definition print_instruction :: "string \<Rightarrow> string list \<Rightarrow> (rpc_failure, string) result" where
  "print_instruction opcode args =
     (if opcode = [] \<or> maxGuacArgs < length args + 1 then Inl (fail ''invalid_argument'' ''invalid guacamole instruction'')
      else if list_ex (\<lambda>v. \<not> valid_utf8 v \<or> maxGuacElement < length v) (opcode # args) then
        Inl (fail ''invalid_argument'' ''invalid guacamole element'')
      else Inr (guac_text (opcode # args)))"

subsection \<open>What is printed is parsed\<close>

text \<open>The length of an element, read back.\<close>

lemma takeWhile_itoa: "takeWhile is_digit (itoa (int n) @ CHR ''.'' # s) = itoa (int n)"
  and dropWhile_itoa: "dropWhile is_digit (itoa (int n) @ CHR ''.'' # s) = CHR ''.'' # s"
proof -
  have d: "list_all is_digit (itoa (int n))" by (simp add: itoa_def nat_digits_digits)
  then show "takeWhile is_digit (itoa (int n) @ CHR ''.'' # s) = itoa (int n)"
    by (subst takeWhile_append2) (auto simp: list_all_iff is_digit_def)
  from d show "dropWhile is_digit (itoa (int n) @ CHR ''.'' # s) = CHR ''.'' # s"
    by (subst dropWhile_append2) (auto simp: list_all_iff is_digit_def)
qed

lemma length_nat_digits: "n < 10 ^ k \<Longrightarrow> 0 < k \<Longrightarrow> length (nat_digits n) \<le> k"
proof (induction n arbitrary: k rule: nat_digits.induct)
  case (1 n)
  show ?case
  proof (cases "n < 10")
    case True
    with 1(3) show ?thesis by (subst nat_digits.simps) simp
  next
    case False
    with 1(2) obtain j where k: "k = Suc j" "0 < j" by (cases k; cases "k - 1") auto
    with 1(2) have "n div 10 < 10 ^ j" by auto
    from 1(1) [OF False this k(2)] False show ?thesis by (subst nat_digits.simps) (simp add: k)
  qed
qed

lemma length_itoa: "n \<le> maxGuacInstruction \<Longrightarrow> length (itoa (int n)) \<le> 8"
  using length_nat_digits [of n 8] by (simp add: itoa_def maxGuacInstruction_def)

lemma itoa_not_Nil [simp]: "itoa (int n) \<noteq> []"
  by (simp add: itoa_def)

text \<open>One element with its separator.\<close>

lemma parse_element:
  assumes v: "valid_utf8 v" and small: "acc + length v \<le> maxGuacInstruction" "length vs < maxGuacArgs"
    and c: "c = CHR '','' \<or> c = CHR '';''"
  shows "parse_elements vs acc offset (guac_element v @ c # s) =
    (let vs' = vs @ [v]; offset' = offset + length (guac_element v) + 1 in
     if c = CHR '';'' then
       (if hd vs' = [] then Malformed (fail ''failed'' ''guacamole opcode is missing'')
        else Complete \<lparr>gi_opcode = hd vs', gi_args = tl vs'\<rparr> offset')
     else parse_elements vs' (acc + length v) offset' s)"
proof -
  have len: "length v \<le> maxGuacInstruction" using small by simp
  then have d: "\<not> 8 < length (itoa (int (length v)))" using length_itoa [of "length v"] by simp
  have n: "atoi (itoa (int (length v))) = Some (int (length v))"
    using len by (intro atoi_itoa) (simp_all add: max_int64_def maxGuacInstruction_def)
  have e: "\<not> int maxGuacElement < int (length v)" using len by (simp add: guac_limits)
  have bytes: "guac_element v @ c # s = itoa (int (length v)) @ CHR ''.'' # v @ c # s" by (simp add: guac_element_def)
  have sep: "(v @ c # s) ! length v = c" by simp
  show ?thesis
    unfolding bytes
    using c v small d n e
    by (subst parse_elements.simps)
      (auto simp: takeWhile_itoa dropWhile_itoa sep Let_def guac_element_def not_less add.assoc)
qed

text \<open>All elements.\<close>

definition parsable :: "string list \<Rightarrow> bool" where
  "parsable vs = (vs \<noteq> [] \<and> hd vs \<noteq> [] \<and> list_all valid_utf8 vs \<and> length vs \<le> maxGuacArgs
     \<and> sum_list (map length vs) \<le> maxGuacInstruction)"

lemma parse_elements_text:
  assumes "ws \<noteq> []" "hd (vs @ ws) \<noteq> []" "list_all valid_utf8 ws" "length vs + length ws \<le> maxGuacArgs"
    "acc + sum_list (map length ws) \<le> maxGuacInstruction"
  shows "parse_elements vs acc offset (guac_text ws @ s) =
    Complete \<lparr>gi_opcode = hd (vs @ ws), gi_args = tl (vs @ ws)\<rparr> (offset + length (guac_text ws))"
  using assms
proof (induction ws arbitrary: vs acc offset)
  case (Cons w ws)
  show ?case
  proof (cases ws)
    case Nil
    with Cons.prems parse_element [of w acc vs "CHR '';''" offset s] show ?thesis
      by (simp add: guac_text_def join_with.simps Let_def)
  next
    case (Cons x xs)
    have bytes: "guac_text (w # ws) @ s = guac_element w @ CHR '','' # (guac_text ws @ s)"
      by (simp add: guac_text_def Cons)
    have "parse_elements vs acc offset (guac_text (w # ws) @ s) =
        parse_elements (vs @ [w]) (acc + length w) (offset + length (guac_element w) + 1) (guac_text ws @ s)"
      unfolding bytes using Cons.prems Cons by (subst parse_element) (simp_all add: Let_def)
    also have "\<dots> = Complete \<lparr>gi_opcode = hd ((vs @ [w]) @ ws), gi_args = tl ((vs @ [w]) @ ws)\<rparr>
        (offset + length (guac_element w) + 1 + length (guac_text ws))"
      using Cons.prems Cons by (intro Cons.IH) auto
    also have "offset + length (guac_element w) + 1 + length (guac_text ws) = offset + length (guac_text (w # ws))"
      by (simp add: guac_text_def Cons)
    finally show ?thesis by simp
  qed
qed simp

text \<open>A part of an instruction is never refused.\<close>

lemma parse_element_part:
  assumes p: "strict_prefix p (guac_element v @ [c])" and small: "length v \<le> maxGuacInstruction"
  shows "parse_elements vs acc offset p = Incomplete"
proof -
  let ?d = "itoa (int (length v))"
  have digits: "list_all is_digit ?d" by (simp add: itoa_def nat_digits_digits)
  have short: "length ?d \<le> 8" using length_itoa small by simp
  obtain q where q: "guac_element v @ [c] = p @ q" "q \<noteq> []" using p by (auto elim: strict_prefixE')
  have part: "p = take (length p) (?d @ CHR ''.'' # v @ [c])"
    using q(1) by (simp add: guac_element_def)
  show ?thesis
  proof (cases "length p \<le> length ?d")
    case True
    with part have pd: "p = take (length p) ?d" by simp
    then have "list_all is_digit p" using digits by (metis append_take_drop_id list_all_append)
    then have whole: "takeWhile is_digit p = p" "dropWhile is_digit p = []" by (simp_all add: list_all_iff)
    have "length p \<le> 8" using True short by simp
    then show ?thesis by (subst parse_elements.simps) (simp only: whole Let_def, simp)
  next
    case False
    define b where "b = take (length p - Suc (length ?d)) (v @ [c])"
    have pd: "p = ?d @ CHR ''.'' # b" using part False by (simp add: b_def take_Cons' Suc_diff_Suc)
    have "length (p @ q) = length ?d + 2 + length v" by (simp flip: q(1) add: guac_element_def)
    then have "length b < length v + 1" using q(2) pd by (cases q) auto
    moreover have n: "atoi ?d = Some (int (length v))"
      using small by (intro atoi_itoa) (simp_all add: max_int64_def maxGuacInstruction_def)
    ultimately show ?thesis
      using short small
      by (subst parse_elements.simps) (simp add: pd takeWhile_itoa dropWhile_itoa Let_def guac_limits)
  qed
qed

lemma strict_prefix_split:
  assumes "strict_prefix p (x @ c # s)"
  obtains "strict_prefix p (x @ [c])" | p' where "p = x @ c # p'" "strict_prefix p' s"
proof (cases "prefix (x @ [c]) p")
  case True
  then obtain p' where "p = x @ c # p'" by (auto elim: prefixE)
  with assms that(2) show ?thesis by (auto simp: strict_prefix_def)
next
  case False
  have "prefix p (x @ c # s)" "prefix (x @ [c]) (x @ c # s)" using assms by (auto simp: strict_prefix_def)
  then have "prefix p (x @ [c])" using False prefix_same_cases by blast
  moreover have "p \<noteq> x @ [c]" using False by auto
  ultimately show ?thesis using that(1) by (simp add: strict_prefix_def)
qed

lemma parse_elements_part:
  assumes "ws \<noteq> []" "hd (vs @ ws) \<noteq> []" "list_all valid_utf8 ws" "length vs + length ws \<le> maxGuacArgs"
    "acc + sum_list (map length ws) \<le> maxGuacInstruction" "strict_prefix p (guac_text ws)"
  shows "parse_elements vs acc offset p = Incomplete"
  using assms
proof (induction ws arbitrary: vs acc offset p)
  case (Cons w ws)
  have small: "length w \<le> maxGuacInstruction" using Cons.prems(5) by simp
  show ?case
  proof (cases ws)
    case Nil
    with Cons.prems(6) have "strict_prefix p (guac_element w @ [CHR '';''])" by (simp add: guac_text_def)
    then show ?thesis by (rule parse_element_part) (rule small)
  next
    case (Cons x xs)
    have "guac_text (w # ws) = guac_element w @ CHR '','' # guac_text ws" by (simp add: guac_text_def Cons)
    with Cons.prems(6) have "strict_prefix p (guac_element w @ CHR '','' # guac_text ws)" by simp
    then show ?thesis
    proof (cases rule: strict_prefix_split)
      case 1
      then show ?thesis by (rule parse_element_part) (rule small)
    next
      case (2 p')
      have "parse_elements vs acc offset p = parse_elements (vs @ [w]) (acc + length w) (offset + length (guac_element w) + 1) p'"
        unfolding 2(1) using Cons.prems Cons by (subst parse_element) (simp_all add: Let_def)
      also have "\<dots> = Incomplete" using Cons.prems Cons 2(2) by (intro Cons.IH) auto
      finally show ?thesis .
    qed
  qed
qed simp

text \<open>The bound on the length: an instruction may be printed that is longer than the parser takes.\<close>

lemma print_not_Nil: "print_instruction opcode args = Inr text \<Longrightarrow> text \<noteq> []"
  by (auto simp: print_instruction_def guac_text_def split: if_splits)

lemma print_parse:
  assumes "print_instruction opcode args = Inr text" and "length text \<le> maxGuacInstruction"
  shows "parseGuacInstruction (text @ s) = Complete \<lparr>gi_opcode = opcode, gi_args = args\<rparr> (length text)"
    and "strict_prefix p text \<Longrightarrow> parseGuacInstruction p = Incomplete"
proof -
  have t: "text = guac_text (opcode # args)" and op: "opcode \<noteq> []" "length (opcode # args) \<le> maxGuacArgs"
    and ok: "list_all valid_utf8 (opcode # args)"
    using assms(1) by (auto simp: print_instruction_def list_all_iff list_ex_iff split: if_splits)
  have len: "sum_list (map length vs) \<le> length (guac_text vs)" for vs
    by (induction vs rule: induct_list012) (auto simp: guac_text_def guac_element_def)
  have small: "sum_list (map length (opcode # args)) \<le> maxGuacInstruction"
    using le_trans [OF len [of "opcode # args"]] assms(2) unfolding t by blast
  show "parseGuacInstruction (text @ s) = Complete \<lparr>gi_opcode = opcode, gi_args = args\<rparr> (length text)"
    and "strict_prefix p text \<Longrightarrow> parseGuacInstruction p = Incomplete"
    using parse_elements_text [of "opcode # args" "[]" 0 0 s] parse_elements_part [of "opcode # args" "[]" 0 p 0] op ok small
    by (simp_all add: parseGuacInstruction_def t)
qed

text \<open>C37: An instruction of at most 64 KiB that the plugin writes is parsed back as it was, whatever follows it, and consumes
  exactly its own bytes; of a proper part of it the parser asks for more, it does not refuse one.\<close>

theorem guac_roundtrip:
  assumes "print_instruction opcode args = Inr text" and "length text \<le> maxGuacInstruction"
  shows "parseGuacInstruction (text @ s) = Complete \<lparr>gi_opcode = opcode, gi_args = args\<rparr> (length text)
    \<and> (strict_prefix p text \<longrightarrow> parseGuacInstruction p = Incomplete)"
  using print_parse [OF assms] by blast

theorem guac_roundtrip_witness:
  "print_instruction ''size'' [''1280'', ''800'', ''96''] = Inr ''4.size,4.1280,3.800,2.96;''
   \<and> parseGuacInstruction ''4.size,4.1280,3.800,2.96;5.audio;''
     = Complete \<lparr>gi_opcode = ''size'', gi_args = [''1280'', ''800'', ''96'']\<rparr> 25"
proof -
  have "print_instruction ''size'' [''1280'', ''800'', ''96''] = Inr ''4.size,4.1280,3.800,2.96;''"
    by (simp add: print_instruction_def guac_text_def guac_element_def guac_limits itoa_def nat_digits.simps ascii_valid byte_in_def) code_simp
  from this guac_roundtrip [OF this, of "''5.audio;''"] show ?thesis by (simp add: maxGuacInstruction_def)
qed

text \<open>The plugin also writes longer instructions, with elements of up to 1 MiB, which its own parser refuses.\<close>

lemma long_instruction_refused:
  assumes "v = replicate 65536 (CHR ''a'')"
  shows "print_instruction ''x'' [v] = Inr (guac_text [''x'', v])"
    and "parseGuacInstruction (guac_text [''x'', v]) = Malformed (fail ''failed'' ''guacamole instruction exceeds limit'')"
proof -
  have v: "valid_utf8 v" "length v = 65536" "valid_utf8 ''x''"
    using assms by (auto intro!: ascii_valid simp: list_all_iff byte_in_def)
  then show "print_instruction ''x'' [v] = Inr (guac_text [''x'', v])"
    by (simp add: print_instruction_def guac_limits)
  have n: "atoi (itoa (int 65536)) = Some (int 65536)" "length (itoa (int 65536)) \<le> 8"
    using atoi_itoa [of 65536] length_itoa [of 65536] by (simp_all add: max_int64_def maxGuacInstruction_def)
  have t: "guac_text [''x'', v] = guac_element ''x'' @ CHR '','' # (itoa (int 65536) @ CHR ''.'' # v @ '';'')"
    by (simp add: guac_text_def guac_element_def v)
  have sep: "(v @ '';'') ! 65536 = CHR '';''" "take 65536 v = v" using v(2) by (simp_all add: nth_append)
  have second: "parse_elements vs 1 off (itoa (int 65536) @ CHR ''.'' # v @ '';'')
      = Malformed (fail ''failed'' ''guacamole instruction exceeds limit'')" for vs off
    using v n sep
    by (subst parse_elements.simps) (simp add: takeWhile_itoa dropWhile_itoa Let_def guac_limits del: of_nat_numeral)
  have "parseGuacInstruction (guac_text [''x'', v])
      = parse_elements [''x''] 1 (length (guac_element ''x'') + 1) (itoa (int 65536) @ CHR ''.'' # v @ '';'')"
    unfolding t parseGuacInstruction_def using v by (subst parse_element) (simp_all add: guac_limits Let_def)
  then show "parseGuacInstruction (guac_text [''x'', v]) = Malformed (fail ''failed'' ''guacamole instruction exceeds limit'')"
    by (simp only: second)
qed

subsection \<open>Over a stream\<close>

text \<open>
  The calls of the host on a stream, and what it answers: a refusal (with the code and the message of a capability
  error, if it is one), data (\<open>None\<close>: not base64) with the end-of-stream mark, the identifier of an opened stream, or an answer
  without any of these.  \<open>io_replies\<close> are the answers to come, \<open>io_calls\<close> the calls made, \<open>io_stages\<close> the stages reported to the
  diagnostics.
\<close>

datatype stream_call =
    Stream_Open string int bool int
  | Stream_Read string nat nat bool
  | Stream_Write string string
  | Stream_Close string

datatype stream_reply =
    Refused "rpc_failure option"
  | Data_Reply "string option" bool
  | Opened string
  | Done

record guac_io =
  io_replies :: "stream_reply list"
  io_calls :: "stream_call list"
  io_stages :: "string list"

type_synonym 'a guac = "guac_io \<Rightarrow> (rpc_failure, 'a) result \<times> guac_io"

definition and_then :: "'a guac \<Rightarrow> ('a \<Rightarrow> 'b guac) \<Rightarrow> 'b guac" where
  "and_then m f io = (case m io of (Inl e, io') \<Rightarrow> (Inl e, io') | (Inr x, io') \<Rightarrow> f x io')"

definition call_host :: "stream_call \<Rightarrow> guac_io \<Rightarrow> stream_reply \<times> guac_io" where
  "call_host c io =
     (case io_replies io of
        [] \<Rightarrow> (Refused None, io\<lparr>io_calls := io_calls io @ [c]\<rparr>)
      | r # rs \<Rightarrow> (r, io\<lparr>io_replies := rs, io_calls := io_calls io @ [c]\<rparr>))"

definition stage :: "string \<Rightarrow> unit guac" where
  "stage s io = (Inr (), io\<lparr>io_stages := io_stages io @ [s]\<rparr>)"

definition hostError :: "rpc_failure option \<Rightarrow> rpc_failure" where
  "hostError e = (case e of Some (code, m) \<Rightarrow> fail code m | None \<Rightarrow> fail ''failed'' ''network stream operation failed'')"

definition readWindow :: "string \<Rightarrow> nat \<Rightarrow> nat \<Rightarrow> (string \<times> bool) guac" where
  "readWindow sid offset maximum io =
     (case call_host (Stream_Read sid maximum offset True) io of
        (Refused e, io') \<Rightarrow> (Inl (hostError e), io')
      | (Data_Reply None eof, io') \<Rightarrow> (Inl (fail ''failed'' ''invalid guacd stream response''), io')
      | (Data_Reply (Some d) eof, io') \<Rightarrow>
          (if maximum < length d then Inl (fail ''failed'' ''invalid guacd stream response'') else Inr (d, eof), io')
      | (_, io') \<Rightarrow> (Inr ([], False), io'))"

function consume_bytes :: "string \<Rightarrow> nat \<Rightarrow> unit guac" where
  "consume_bytes sid len io =
     (if len = 0 then (Inr (), io)
      else (let count = min len 65536 in
        (case call_host (Stream_Read sid count 0 False) io of
           (Refused e, io') \<Rightarrow> (Inl (hostError e), io')
         | (Data_Reply (Some d) eof, io') \<Rightarrow>
             if d = [] \<or> count < length d then (Inl (fail ''failed'' ''invalid guacd stream response''), io')
             else consume_bytes sid (len - length d) io'
         | (_, io') \<Rightarrow> (Inl (fail ''failed'' ''invalid guacd stream response''), io'))))"
  by pat_completeness auto

termination by (relation "measure (\<lambda>(_, len, _). len)") auto

function read_from :: "string \<Rightarrow> string \<Rightarrow> guac_instruction guac" where
  "read_from sid data io =
     (if maxGuacInstruction \<le> length data then (Inl (fail ''failed'' ''guacamole instruction exceeds limit''), io)
      else (case readWindow sid (length data) (min guacReadWindow (maxGuacInstruction - length data)) io of
          (Inl e, io') \<Rightarrow> (Inl e, io')
        | (Inr (chunk, eof), io') \<Rightarrow>
            if chunk = [] then (Inl (fail ''failed'' ''guacd closed during RDP negotiation''), io')
            else (case parseGuacInstruction (data @ chunk) of
                Malformed e \<Rightarrow> (Inl e, io')
              | Complete i n \<Rightarrow> and_then (consume_bytes sid n) (\<lambda>_ io. (Inr i, io)) io'
              | Incomplete \<Rightarrow>
                  if eof then (Inl (fail ''failed'' ''guacd closed during RDP negotiation''), io')
                  else read_from sid (data @ chunk) io')))"
  by pat_completeness auto

termination by (relation "measure (\<lambda>(_, data, _). maxGuacInstruction - length data)") (auto intro: diff_less_mono2)

declare consume_bytes.simps [simp del] read_from.simps [simp del]

definition readInstruction :: "string \<Rightarrow> guac_instruction guac" where
  "readInstruction sid = read_from sid []"

function write_data :: "string \<Rightarrow> string \<Rightarrow> unit guac" where
  "write_data sid data io =
     (if data = [] then (Inr (), io)
      else (case call_host (Stream_Write sid (take streamChunk data)) io of
          (Refused e, io') \<Rightarrow> (Inl (hostError e), io')
        | (_, io') \<Rightarrow> write_data sid (drop streamChunk data) io'))"
  by pat_completeness auto

termination by (relation "measure (\<lambda>(_, data, _). length data)") (auto simp: streamChunk_def)

declare write_data.simps [simp del]

definition writeInstruction :: "string \<Rightarrow> string \<Rightarrow> string list \<Rightarrow> unit guac" where
  "writeInstruction sid opcode args io =
     (case print_instruction opcode args of Inl e \<Rightarrow> (Inl e, io) | Inr text \<Rightarrow> write_data sid text io)"

subsection \<open>What guacd sent is what is read\<close>

text \<open>
  The host serves a stream on which guacd sends some bytes.  \<open>host_serves\<close> takes the bytes that are still to be read, a call and its
  answer and returns the bytes left after it, or \<open>None\<close> when the host does not answer so: a read outside of the limits is refused; a
  lookahead returns some of the bytes from the requested offset on, at most as many as asked for, and reports the end of the stream
  only with the last of them; any other read returns bytes from the front and takes them off the stream, whatever the offset.  Where
  there is nothing to return the host may answer anything.
\<close>

definition some_of :: "string \<Rightarrow> nat \<Rightarrow> stream_reply \<Rightarrow> bool" where
  "some_of data maximum r =
     (data = [] \<or> (case r of
        Data_Reply (Some d) eof \<Rightarrow> d \<noteq> [] \<and> length d \<le> maximum \<and> prefix d data \<and> (eof \<longrightarrow> d = data)
      | _ \<Rightarrow> False))"

definition reply_length :: "stream_reply \<Rightarrow> nat" where
  "reply_length r = (case r of Data_Reply (Some d) _ \<Rightarrow> length d | _ \<Rightarrow> 0)"

fun host_serves :: "string \<Rightarrow> string \<Rightarrow> stream_call \<Rightarrow> stream_reply \<Rightarrow> string option" where
  "host_serves sid data (Stream_Read s maximum offset peek) r =
     (if s \<noteq> sid then Some data
      else if maximum < 1 \<or> 65536 < maximum \<or> peek \<and> 65536 < offset + maximum then
        (case r of Refused _ \<Rightarrow> Some data | _ \<Rightarrow> None)
      else if peek then (if some_of (drop offset data) maximum r then Some data else None)
      else (if some_of data maximum r then Some (drop (reply_length r) data) else None))"
| "host_serves sid data _ r = Some data"

text \<open>A whole conversation: every call has an answer, and the host serves each of them.\<close>

fun served :: "string \<Rightarrow> string \<Rightarrow> stream_call list \<Rightarrow> stream_reply list \<Rightarrow> string option" where
  "served sid data [] rs = Some data"
| "served sid data (c # cs) [] = None"
| "served sid data (c # cs) (r # rs) =
     (case host_serves sid data c r of None \<Rightarrow> None | Some data' \<Rightarrow> served sid data' cs rs)"

lemma served_append:
  "served sid data (cs @ ds) rs =
     (case served sid data cs rs of None \<Rightarrow> None | Some data' \<Rightarrow> served sid data' ds (drop (length cs) rs))"
  by (induction sid data cs rs rule: served.induct) (auto split: option.split)

text \<open>The calls between two states of the conversation.\<close>

definition calls_between :: "guac_io \<Rightarrow> guac_io \<Rightarrow> stream_call list" where
  "calls_between io io' = drop (length (io_calls io)) (io_calls io')"

text \<open>Every operation only adds calls, and takes one answer for each.\<close>

definition continues :: "guac_io \<Rightarrow> guac_io \<Rightarrow> bool" where
  "continues io io' = (io_calls io' = io_calls io @ calls_between io io'
     \<and> io_replies io' = drop (length (calls_between io io')) (io_replies io))"

lemma continues_iff:
  "continues io io' \<longleftrightarrow> (\<exists>cs. io_calls io' = io_calls io @ cs \<and> io_replies io' = drop (length cs) (io_replies io))"
  by (auto simp: continues_def calls_between_def)

lemma continues_refl [simp]: "continues io io" and calls_between_refl [simp]: "calls_between io io = []"
  by (simp_all add: continues_def calls_between_def)

lemma continues_trans:
  assumes "continues a b" "continues b c"
  shows "continues a c" and "calls_between a c = calls_between a b @ calls_between b c"
  using assms by (auto simp: continues_iff calls_between_def add.commute)

lemma continues_call: "call_host c io = (r, io') \<Longrightarrow> continues io io' \<and> calls_between io io' = [c]"
  by (auto simp: call_host_def continues_iff calls_between_def split: list.splits)

text \<open>What a served conversation says of its parts.\<close>

lemma served_parts:
  assumes "continues a b" "continues b c" "served sid data (calls_between a c) (io_replies a) = Some rest"
  obtains data' where "served sid data (calls_between a b) (io_replies a) = Some data'"
    "served sid data' (calls_between b c) (io_replies b) = Some rest"
proof -
  have "io_replies b = drop (length (calls_between a b)) (io_replies a)" using assms(1) by (simp add: continues_def)
  then show thesis
    using assms(3) that unfolding continues_trans(2) [OF assms(1,2)] by (auto simp: served_append split: option.splits)
qed

lemma served_call:
  assumes "call_host c io = (r, io1)" "served sid data (calls_between io io1) (io_replies io) = Some data'"
  shows "host_serves sid data c r = Some data'"
proof -
  have "calls_between io io1 = [c]" using continues_call [OF assms(1)] by simp
  then show ?thesis using assms by (cases "io_replies io") (auto simp: call_host_def split: option.splits)
qed

lemma continues_window: "readWindow sid off n io = (x, io') \<Longrightarrow> continues io io'"
  by (auto simp: readWindow_def dest: continues_call split: prod.splits stream_reply.splits option.splits)

lemma continues_consume: "consume_bytes sid n io = (x, io') \<Longrightarrow> continues io io'"
proof (induction sid n io arbitrary: x io' rule: consume_bytes.induct)
  case (1 sid n io)
  obtain r io1 where c: "call_host (Stream_Read sid (min n 65536) 0 False) io = (r, io1)" by fastforce
  note unfold = consume_bytes.simps [of sid n io]
  show ?case
  proof (cases "n \<noteq> 0 \<and> (\<exists>d eof. r = Data_Reply (Some d) eof \<and> \<not> (d = [] \<or> min n 65536 < length d))")
    case True
    then obtain d eof where r: "n \<noteq> 0" "r = Data_Reply (Some d) eof" "\<not> (d = [] \<or> min n 65536 < length d)" by blast
    with 1(2) c have next_call: "consume_bytes sid (n - length d) io1 = (x, io')" by (simp add: unfold Let_def)
    have "continues io1 io'" by (rule 1(1) [OF r(1) refl c [symmetric] r(2) refl r(3) next_call])
    with continues_call [OF c] continues_trans(1) show ?thesis by blast
  next
    case False
    with 1(2) c have "io' = io \<or> io' = io1"
      by (auto simp: unfold Let_def split: stream_reply.splits option.splits if_splits)
    with continues_call [OF c] show ?thesis by auto
  qed
qed

lemma continues_read_from: "read_from sid data io = (x, io') \<Longrightarrow> continues io io'"
proof (induction "maxGuacInstruction - length data" arbitrary: data io x io' rule: less_induct)
  case less
  obtain r io1 where c: "readWindow sid (length data) (min guacReadWindow (maxGuacInstruction - length data)) io = (r, io1)"
    by fastforce
  note unfold = read_from.simps [of sid data io]
  show ?case
  proof (cases "\<not> maxGuacInstruction \<le> length data
      \<and> (\<exists>chunk. r = Inr (chunk, False) \<and> chunk \<noteq> [] \<and> parseGuacInstruction (data @ chunk) = Incomplete)")
    case True
    then obtain chunk where r: "\<not> maxGuacInstruction \<le> length data" "r = Inr (chunk, False)" "chunk \<noteq> []"
      "parseGuacInstruction (data @ chunk) = Incomplete" by blast
    then have "read_from sid (data @ chunk) io1 = (x, io')" using less(2) c by (simp add: unfold)
    moreover have "maxGuacInstruction - length (data @ chunk) < maxGuacInstruction - length data"
      using r by (cases chunk) auto
    ultimately have "continues io1 io'" using less(1) by blast
    with continues_window [OF c] continues_trans(1) show ?thesis by blast
  next
    case False
    with less(2) c have "io' = io \<or> io' = io1 \<or> (\<exists>n y. consume_bytes sid n io1 = (y, io'))"
      by (auto simp: unfold and_then_def split: sum.splits prod.splits if_splits guac_parse.splits)
    then show ?thesis using continues_window [OF c] continues_consume continues_trans(1) continues_refl by metis
  qed
qed

text \<open>What is consumed are the bytes at the front, whatever portions the host returns them in.\<close>

lemma consume_served:
  assumes "consume_bytes sid n io = (x, io')" "n \<le> length data"
    and "served sid data (calls_between io io') (io_replies io) = Some rest"
  shows "x = Inr () \<and> rest = drop n data"
  using assms
proof (induction n arbitrary: io data rule: less_induct)
  case (less n)
  show ?case
  proof (cases "n = 0")
    case True
    with less(2,4) show ?thesis by (simp add: consume_bytes.simps)
  next
    case False
    let ?c = "Stream_Read sid (min n 65536) 0 False"
    obtain r io1 where c: "call_host ?c io = (r, io1)" by fastforce
    note unfold = consume_bytes.simps [of sid n io]
    have "continues io1 io'"
      using less(2) False c
      by (auto simp: unfold Let_def dest: continues_consume split: stream_reply.splits option.splits if_splits)
    then obtain data' where serves: "host_serves sid data ?c r = Some data'"
      and later: "served sid data' (calls_between io1 io') (io_replies io1) = Some rest"
      using served_parts [OF _ _ less(4)] continues_call [OF c] served_call [OF c] by metis
    from serves False less(3) obtain d eof where r: "r = Data_Reply (Some d) eof" "d \<noteq> []" "length d \<le> min n 65536"
      and d: "data' = drop (length d) data"
      by (cases data) (auto simp: some_of_def reply_length_def split: if_splits stream_reply.splits option.splits)
    have "consume_bytes sid (n - length d) io1 = (x, io')" using less(2) False c r by (simp add: unfold Let_def not_less)
    moreover have "n - length d < n" using False r(2) by simp
    moreover have "n - length d \<le> length data'" using less(3) d by simp
    ultimately have "x = Inr () \<and> rest = drop (n - length d) data'" using less(1) later by blast
    then show ?thesis using r(3) d by simp
  qed
qed

lemma read_from_served:
  assumes "read_from sid data io = (x, io')" "strict_prefix data text" "length text \<le> maxGuacInstruction"
    and "served sid (text @ extra) (calls_between io io') (io_replies io) = Some rest"
    and whole: "\<And>s. parseGuacInstruction (text @ s) = Complete i (length text)"
    and part: "\<And>p. strict_prefix p text \<Longrightarrow> parseGuacInstruction p = Incomplete"
  shows "x = Inr i \<and> rest = extra"
  using assms(1-4)
proof (induction "maxGuacInstruction - length data" arbitrary: data io rule: less_induct)
  case less
  have short: "length data < length text" using less(3) prefix_length_less by blast
  then have small: "\<not> maxGuacInstruction \<le> length data" using less(4) by simp
  let ?n = "min guacReadWindow (maxGuacInstruction - length data)"
  let ?c = "Stream_Read sid ?n (length data) True"
  obtain r io1 where c: "call_host ?c io = (r, io1)" by fastforce
  obtain w io1' where w: "readWindow sid (length data) ?n io = (w, io1')" by fastforce
  then have same: "io1' = io1" using c by (auto simp: readWindow_def split: stream_reply.splits option.splits)
  note unfold = read_from.simps [of sid data io]
  have "continues io1 io'"
    using less(2) small w same
    by (auto simp: unfold and_then_def dest: continues_consume continues_read_from
        split: sum.splits prod.splits if_splits guac_parse.splits)
  then obtain data' where serves: "host_serves sid (text @ extra) ?c r = Some data'"
    and later: "served sid data' (calls_between io1 io') (io_replies io1) = Some rest"
    using served_parts [OF _ _ less(5)] continues_call [OF c] served_call [OF c] by metis
  have n: "1 \<le> ?n" "?n \<le> 65536" "length data + ?n \<le> 65536" using small by (auto simp: guac_limits)
  have rest: "drop (length data) (text @ extra) \<noteq> []" using short by simp
  from serves n have "some_of (drop (length data) (text @ extra)) ?n r" and d': "data' = text @ extra"
    by (simp_all split: if_splits)
  then obtain d eof where r: "r = Data_Reply (Some d) eof" "d \<noteq> []" "length d \<le> ?n"
    and d: "prefix d (drop (length data) (text @ extra))" "eof \<Longrightarrow> d = drop (length data) (text @ extra)"
    using rest by (auto simp: some_of_def split: stream_reply.splits option.splits)
  have w: "readWindow sid (length data) ?n io = (Inr (d, eof), io1)" using c r by (simp add: readWindow_def not_less)
  have data: "text @ extra = data @ drop (length data) (text @ extra)"
    using less(3) by (auto simp: strict_prefix_def elim: prefixE)
  then have more: "prefix (data @ d) (text @ extra)" using d(1) by (metis same_prefix_prefix)
  show ?case
  proof (cases "strict_prefix (data @ d) text")
    case True
    have "\<not> eof"
    proof
      assume eof
      then have "data @ d = text @ extra" using d(2) data by simp
      with True show False using prefix_length_less [OF True] by (metis length_append not_add_less1)
    qed
    then have "read_from sid (data @ d) io1 = (x, io')"
      using less(2) small w r(2) part [OF True] by (simp add: unfold)
    moreover have "maxGuacInstruction - length (data @ d) < maxGuacInstruction - length data"
      using small r(2) by (cases d) auto
    ultimately show ?thesis using less(1) True less(4) later d' by blast
  next
    case False
    have "prefix text (text @ extra)" by simp
    then have "prefix text (data @ d)"
      using more False prefix_same_cases [of "data @ d" "text @ extra" "text"] by (auto simp: strict_prefix_def)
    then obtain s where "data @ d = text @ s" by (elim prefixE)
    with whole have "parseGuacInstruction (data @ d) = Complete i (length text)" by metis
    then obtain y where y: "consume_bytes sid (length text) io1 = (y, io')" "x = (case y of Inl e \<Rightarrow> Inl e | Inr u \<Rightarrow> Inr i)"
      using less(2) small w r(2) by (auto simp: unfold and_then_def split: prod.splits sum.splits)
    from consume_served [OF y(1) _ later] y(2) d' show ?thesis by simp
  qed
qed

lemma readInstruction_served:
  assumes "print_instruction opcode args = Inr text" "length text \<le> maxGuacInstruction"
    and "readInstruction sid io = (x, io')"
    and "served sid (text @ extra) (calls_between io io') (io_replies io) = Some rest"
  shows "x = Inr \<lparr>gi_opcode = opcode, gi_args = args\<rparr> \<and> rest = extra"
proof (rule read_from_served [OF assms(3) [unfolded readInstruction_def] _ assms(2,4)])
  show "strict_prefix [] text" using print_not_Nil [OF assms(1)] by (cases "text") auto
qed (use print_parse [OF assms(1,2)] in auto)

text \<open>C38: When guacd sends an instruction of at most 64 KiB, and after it any further bytes, the plugin reads exactly that
  instruction and takes exactly its bytes off the stream: what follows is left for the next read.  The host answers each call of the
  plugin with some of the bytes from where the call asked for them, in portions of any size.\<close>

theorem readInstruction_exact:
  assumes "print_instruction opcode args = Inr text" "length text \<le> maxGuacInstruction"
    and "readInstruction sid io = (x, io')"
    and "served sid (text @ extra) (calls_between io io') (io_replies io) = Some rest"
  shows "x = Inr \<lparr>gi_opcode = opcode, gi_args = args\<rparr> \<and> rest = extra"
  using assms by (rule readInstruction_served)

text \<open>guacd sends one instruction and the beginning of another; the host returns it in three windows and two portions.\<close>

definition sample_read :: guac_io where
  "sample_read =
     \<lparr>io_replies = [Data_Reply (Some ''4.si'') False, Data_Reply (Some ''ze,1'') False, Data_Reply (Some ''.9;5.au'') True,
        Data_Reply (Some ''4.size,1'') False, Data_Reply (Some ''.9;'') False, Done], io_calls = [], io_stages = []\<rparr>"

definition sample_read_done :: guac_io where
  "sample_read_done =
     \<lparr>io_replies = [Done],
      io_calls = [Stream_Read ''s1'' 4096 0 True, Stream_Read ''s1'' 4096 4 True, Stream_Read ''s1'' 4096 8 True,
        Stream_Read ''s1'' 11 0 False, Stream_Read ''s1'' 3 0 False], io_stages = []\<rparr>"

lemma sample_print: "print_instruction ''size'' [''9''] = Inr ''4.size,1.9;''"
  by (simp add: print_instruction_def guac_text_def guac_element_def guac_limits itoa_def nat_digits.simps ascii_valid byte_in_def) code_simp

lemma sample_reads:
  "readInstruction ''s1'' sample_read = (Inr \<lparr>gi_opcode = ''size'', gi_args = [''9'']\<rparr>, sample_read_done)"
proof -
  have "parseGuacInstruction ''4.si'' = Incomplete" "parseGuacInstruction ''4.size,1'' = Incomplete"
    "parseGuacInstruction ''4.size,1.9;5.au'' = Complete \<lparr>gi_opcode = ''size'', gi_args = [''9'']\<rparr> 11"
    using print_parse [OF sample_print, of "''5.au''"] print_parse(2) [OF sample_print, of "''4.si''"]
      print_parse(2) [OF sample_print, of "''4.size,1''"]
    by (simp_all add: maxGuacInstruction_def strict_prefix_def)
  then show ?thesis
    by (simp add: readInstruction_def read_from.simps consume_bytes.simps readWindow_def call_host_def and_then_def guac_limits
        sample_read_def sample_read_done_def Let_def)
qed

theorem readInstruction_exact_witness:
  "readInstruction ''s1'' sample_read = (Inr \<lparr>gi_opcode = ''size'', gi_args = [''9'']\<rparr>, sample_read_done)
   \<and> served ''s1'' ''4.size,1.9;5.au'' (calls_between sample_read sample_read_done) (io_replies sample_read) = Some ''5.au''"
proof -
  have "served ''s1'' (''4.size,1.9;'' @ ''5.au'') (calls_between sample_read sample_read_done) (io_replies sample_read) = Some ''5.au''"
    by (simp add: calls_between_def sample_read_def sample_read_done_def some_of_def reply_length_def)
  with readInstruction_exact [OF sample_print _ sample_reads this] sample_reads show ?thesis
    by (simp add: maxGuacInstruction_def)
qed

end
