(* ===== verification/RemoteModel.thy ===== *)
theory RemoteModel
  imports Guac NetStreams
begin

section \<open>The remote desktop plugin: targets and settings\<close>

text \<open>
  Models the records and the validation of \<^verbatim>\<open>plugins/remote/backend/plugin.go\<close> and \<^verbatim>\<open>vnc.go\<close>: the settings of guacd,
  the options of an RDP target and the targets of VNC.  A pointer to a boolean is an option.
\<close>

subsection \<open>Hosts\<close>

definition validHost :: "string \<Rightarrow> bool" where
  "validHost host =
     (if host = [] \<or> 253 < length host \<or> trim_space host \<noteq> host then False
      else if parse_ip host then True
      else if contains_any host host_specials then False
      else list_all valid_label (split_on (CHR ''.'') host))"

text \<open>
  The host accepts what the plugin accepts: an address has at most 45 bytes.  An address whose fields are followed by
  an ellipsis has one field less.
\<close>

lemma is_ipv4_length: "is_ipv4 s \<Longrightarrow> length s \<le> 15"
proof -
  assume s: "is_ipv4 s"
  obtain a b c d where parts: "split_on (CHR ''.'') s = [a, b, c, d]"
    using s by (auto simp: is_ipv4_def Let_def length_Suc_conv numeral_eq_Suc)
  have "s = join_with [CHR ''.''] [a, b, c, d]" using join_split [of "CHR ''.''" s] parts by simp
  then have "length s = length a + length b + length c + length d + 3" by simp
  then show ?thesis using s by (simp add: is_ipv4_def Let_def parts)
qed

lemma ipv6_fields_length:
  "ipv6_fields i ell s \<Longrightarrow> even i \<Longrightarrow> length s + 5 * (i div 2) \<le> (if ell then 40 else 45)"
proof (induction i ell s rule: ipv6_fields.induct)
  case (1 i ell s)
  let ?h = "takeWhile is_hex s" and ?rest = "dropWhile is_hex s"
  have len: "length s = length ?h + length ?rest" by (metis length_append takeWhile_dropWhile_id)
  from 1(3) have base: "\<not> 16 \<le> i" "?h \<noteq> []" "length ?h \<le> 4"
    by (auto simp: ipv6_fields.simps [of i] Let_def split: if_splits)
  obtain k where k: "i = 2 * k" using 1(4) by (rule evenE)
  show ?case
  proof (cases "?rest")
    case Nil
    with 1(3) have "if ell then i + 2 < 16 else i + 2 = 16"
      by (auto simp: ipv6_fields.simps [of i] Let_def split: if_splits)
    then show ?thesis using len base Nil k by (auto split: if_splits)
  next
    case (Cons c r)
    consider (dot) "c = CHR ''.''" | (bad) "c \<noteq> CHR ''.''" "c \<noteq> CHR '':'' \<or> r = []"
      | (ellipsis) "c = CHR '':''" "r \<noteq> []" "hd r = CHR '':''" | (field) "c = CHR '':''" "r \<noteq> []" "hd r \<noteq> CHR '':''"
      by blast
    then show ?thesis
    proof cases
      case dot
      with 1(3) Cons have "if ell then i + 4 < 16 else i + 4 = 16" "is_ipv4 s"
        by (auto simp: ipv6_fields.simps [of i] Let_def split: if_splits)
      then show ?thesis using is_ipv4_length [of s] k by (auto split: if_splits)
    next
      case bad
      with 1(3) Cons show ?thesis by (auto simp: ipv6_fields.simps [of i] Let_def split: if_splits)
    next
      case ellipsis
      show ?thesis
      proof (cases "tl r = []")
        case True
        with 1(3) Cons ellipsis base have "\<not> ell" "i + 2 < 16"
          by (auto simp: ipv6_fields.simps [of i] Let_def split: if_splits)
        then show ?thesis using len base Cons True k by (cases r) auto
      next
        case False
        with 1(3) Cons ellipsis base have e: "\<not> ell" "ipv6_fields (i + 2) True (tl r)"
          by (auto simp: ipv6_fields.simps [of i] Let_def split: if_splits)
        have "length (tl r) + 5 * ((i + 2) div 2) \<le> 40"
          using 1(1) [OF refl refl] base Cons ellipsis False e 1(4) by auto
        then show ?thesis using len base Cons ellipsis(2) e(1) k by (cases r) auto
      qed
    next
      case field
      with 1(3) Cons base have f: "ipv6_fields (i + 2) ell r"
        by (auto simp: ipv6_fields.simps [of i] Let_def split: if_splits)
      have "length r + 5 * ((i + 2) div 2) \<le> (if ell then 40 else 45)"
        using 1(2) [OF refl refl] base Cons field f 1(4) by auto
      then show ?thesis using len base Cons k by auto
    qed
  qed
qed

lemma parse_ip_length: "parse_ip s \<Longrightarrow> length s \<le> 45"
  using is_ipv4_length [of s] ipv6_fields_length [of 0 True "drop 2 s"] ipv6_fields_length [of 0 False s]
  by (auto simp: parse_ip_def is_ipv6_def split: option.splits if_splits)

lemma validHost_network: "validHost h \<Longrightarrow> validNetworkHost h"
  using parse_ip_length [of h] by (auto simp: validHost_def validNetworkHost_def split: if_splits)

subsection \<open>Settings of guacd\<close>

record guacd_settings =
  gs_version :: int
  gs_host :: string
  gs_port :: int
  gs_tls :: bool
  gs_timeout :: int

definition defaultSettings :: guacd_settings where
  "defaultSettings = \<lparr>gs_version = 1, gs_host = ''127.0.0.1'', gs_port = 4822, gs_tls = False, gs_timeout = 5\<rparr>"

definition validateSettings :: "guacd_settings \<Rightarrow> rpc_failure option" where
  "validateSettings s =
     (if \<not> validHost (gs_host s) \<or> gs_port s < 1 \<or> 65535 < gs_port s \<or> gs_timeout s < 1 \<or> 30 < gs_timeout s
      then Some (fail ''invalid_argument'' ''guacd host, port or timeout is invalid'') else None)"

definition streamOpenParams :: "guacd_settings \<Rightarrow> stream_call" where
  "streamOpenParams s = Stream_Open (gs_host s) (gs_port s) (gs_tls s) (gs_timeout s)"

text \<open>The request that the host's stream manager decodes from such a call.\<close>

fun network_request :: "stream_call \<Rightarrow> net_open option" where
  "network_request (Stream_Open h p t secs) =
     Some \<lparr>no_host = h, no_port = p, no_timeout = secs, no_tls = t, no_server_name = []\<rparr>"
| "network_request _ = None"

subsection \<open>Options of an RDP target\<close>

record rdp_options =
  ro_host :: string
  ro_port :: int
  ro_username :: string
  ro_domain :: string
  ro_security :: string
  ro_clipboard :: "bool option"
  ro_dynamic_resize :: "bool option"
  ro_layout :: string
  ro_resize :: string
  ro_dpi_mode :: string
  ro_dpi :: int
  ro_depth :: int
  ro_cert_policy :: string
  ro_cert_print :: string
  ro_copy :: "bool option"
  ro_paste :: "bool option"
  ro_normalization :: string
  ro_profile :: string
  ro_timeout :: int
  ro_timezone :: string

definition server_layouts :: "string list" where
  "server_layouts = [''en-us-qwerty'', ''en-gb-qwerty'', ''de-de-qwertz'', ''de-ch-qwertz'', ''fr-fr-azerty'',
     ''fr-be-azerty'', ''fr-ch-qwertz'', ''hu-hu-qwertz'', ''it-it-qwerty'', ''es-es-qwerty'', ''es-latam-qwerty'',
     ''sv-se-qwerty'', ''no-no-qwerty'', ''tr-tr-qwerty'', ''pt-br-qwerty'', ''ja-jp-qwerty'', ''failsafe'']"

definition validServerLayout :: "string \<Rightarrow> bool" where
  "validServerLayout v = (v \<in> set server_layouts)"

definition invalid_option :: "string \<Rightarrow> rpc_failure" where
  "invalid_option m = fail ''invalid_argument'' m"

definition or_default :: "string \<Rightarrow> string \<Rightarrow> string" where
  "or_default d v = (if v = [] then d else v)"

text \<open>\<open>normalizeOptions\<close>: the defaults are filled in, in the order of the code, before each check.\<close>

definition fill_options :: "rdp_options \<Rightarrow> rdp_options" where
  "fill_options o1 =
     (let o2 = o1\<lparr>ro_host := trim_space (ro_host o1), ro_port := (if ro_port o1 = 0 then 3389 else ro_port o1),
                  ro_security := or_default ''automatic'' (ro_security o1),
                  ro_timeout := (if ro_timeout o1 = 0 then 10 else ro_timeout o1),
                  ro_resize := or_default ''display-update'' (ro_resize o1)\<rparr>;
          o3 = (if ro_dynamic_resize o2 = Some False \<and> ro_resize o2 = ''display-update''
                then o2\<lparr>ro_resize := ''fixed''\<rparr> else o2);
          o4 = o3\<lparr>ro_dpi_mode := or_default ''auto'' (ro_dpi_mode o3)\<rparr>;
          o5 = (if ro_dpi_mode o4 = ''96'' then o4\<lparr>ro_dpi := 96\<rparr> else o4)
      in o5\<lparr>ro_cert_policy := or_default ''validate'' (ro_cert_policy o5),
            ro_normalization := or_default ''preserve'' (ro_normalization o5),
            ro_profile := or_default ''balanced'' (ro_profile o5),
            ro_copy := (case ro_clipboard o5 of Some b \<Rightarrow> Some b
                        | None \<Rightarrow> (case ro_copy o5 of None \<Rightarrow> Some True | Some b \<Rightarrow> Some b)),
            ro_paste := (case ro_clipboard o5 of Some b \<Rightarrow> Some b
                         | None \<Rightarrow> (case ro_paste o5 of None \<Rightarrow> Some True | Some b \<Rightarrow> Some b))\<rparr>)"

definition check_options :: "rdp_options \<Rightarrow> (rpc_failure, rdp_options) result" where
  "check_options r =
     reject_if (\<not> validHost (ro_host r)) (invalid_option ''RDP host is invalid'')
     (reject_if (ro_port r < 1 \<or> 65535 < ro_port r) (invalid_option ''RDP port is invalid'')
     (reject_if (ro_security r \<notin> set [''automatic'', ''nla'', ''nla-ext'', ''tls'', ''rdp''])
        (invalid_option ''RDP security mode is invalid'')
     (reject_if (ro_timeout r < 1 \<or> 120 < ro_timeout r) (invalid_option ''RDP timeout is invalid'')
     (reject_if (ro_resize r \<notin> set [''display-update'', ''reconnect'', ''fixed''])
        (invalid_option ''RDP resize method is invalid'')
     (reject_if (ro_dpi_mode r \<notin> set [''auto'', ''96'', ''custom'']) (invalid_option ''RDP DPI mode is invalid'')
     (reject_if (ro_dpi_mode r = ''custom'' \<and> (ro_dpi r < 72 \<or> 240 < ro_dpi r)) (invalid_option ''RDP DPI is invalid'')
     (reject_if (ro_depth r \<notin> set [0, 8, 16, 24]) (invalid_option ''RDP color depth is invalid'')
     (reject_if (ro_cert_policy r \<notin> set [''validate'', ''tofu'', ''ignore'', ''fingerprint''])
        (invalid_option ''RDP certificate policy is invalid'')
     (reject_if (ro_cert_policy r = ''fingerprint'' \<and> trim_space (ro_cert_print r) = [])
        (invalid_option ''RDP certificate fingerprint is required'')
     (reject_if (ro_normalization r \<notin> set [''preserve'', ''unix'', ''windows''])
        (invalid_option ''clipboard normalization is invalid'')
     (reject_if (ro_profile r \<notin> set [''balanced'', ''quality'', ''low-bandwidth'', ''custom''])
        (invalid_option ''RDP performance profile is invalid'')
     (reject_if (128 < length (ro_timezone r) \<or> contains_any (ro_timezone r) [CHR 0x00, CHR 0x0D, CHR 0x0A])
        (invalid_option ''RDP timezone is invalid'')
     (reject_if (ro_layout r \<noteq> [] \<and> \<not> validServerLayout (ro_layout r))
        (invalid_option ''RDP server keyboard layout is invalid'')
     (Inr r))))))))))))))"

definition normalizeOptions :: "rdp_options \<Rightarrow> (rpc_failure, rdp_options) result" where
  "normalizeOptions r = check_options (fill_options r)"

text \<open>The type of the options that are stored and used: every value is one of those the protocol knows, and none is missing.\<close>

definition options_typed :: "rdp_options \<Rightarrow> bool" where
  "options_typed r =
     (validHost (ro_host r) \<and> 1 \<le> ro_port r \<and> ro_port r \<le> 65535
      \<and> ro_security r \<in> set [''automatic'', ''nla'', ''nla-ext'', ''tls'', ''rdp'']
      \<and> 1 \<le> ro_timeout r \<and> ro_timeout r \<le> 120
      \<and> ro_resize r \<in> set [''display-update'', ''reconnect'', ''fixed'']
      \<and> (ro_dynamic_resize r = Some False \<longrightarrow> ro_resize r \<noteq> ''display-update'')
      \<and> ro_dpi_mode r \<in> set [''auto'', ''96'', ''custom''] \<and> (ro_dpi_mode r = ''96'' \<longrightarrow> ro_dpi r = 96)
      \<and> (ro_dpi_mode r = ''custom'' \<longrightarrow> 72 \<le> ro_dpi r \<and> ro_dpi r \<le> 240)
      \<and> ro_depth r \<in> set [0, 8, 16, 24]
      \<and> ro_cert_policy r \<in> set [''validate'', ''tofu'', ''ignore'', ''fingerprint'']
      \<and> (ro_cert_policy r = ''fingerprint'' \<longrightarrow> trim_space (ro_cert_print r) \<noteq> [])
      \<and> ro_normalization r \<in> set [''preserve'', ''unix'', ''windows'']
      \<and> ro_profile r \<in> set [''balanced'', ''quality'', ''low-bandwidth'', ''custom'']
      \<and> length (ro_timezone r) \<le> 128 \<and> \<not> contains_any (ro_timezone r) [CHR 0x00, CHR 0x0D, CHR 0x0A]
      \<and> (ro_layout r \<noteq> [] \<longrightarrow> validServerLayout (ro_layout r))
      \<and> ro_copy r \<noteq> None \<and> ro_paste r \<noteq> None
      \<and> (\<forall>b. ro_clipboard r = Some b \<longrightarrow> ro_copy r = Some b \<and> ro_paste r = Some b))"

lemma or_default_idem: "v \<noteq> [] \<Longrightarrow> or_default d v = v" by (simp add: or_default_def)

lemma check_options_id: "check_options r = Inr q \<Longrightarrow> q = r"
  by (simp add: check_options_def)

lemma fill_options_fields:
  "ro_clipboard (fill_options r) = ro_clipboard r" "ro_dynamic_resize (fill_options r) = ro_dynamic_resize r"
  "ro_resize (fill_options r) =
     (let m = or_default ''display-update'' (ro_resize r) in
      if ro_dynamic_resize r = Some False \<and> m = ''display-update'' then ''fixed'' else m)"
  "ro_dpi_mode (fill_options r) = or_default ''auto'' (ro_dpi_mode r)"
  "ro_dpi (fill_options r) = (if or_default ''auto'' (ro_dpi_mode r) = ''96'' then 96 else ro_dpi r)"
  "ro_copy (fill_options r) \<noteq> None" "ro_paste (fill_options r) \<noteq> None"
  "ro_clipboard r = Some b \<Longrightarrow> ro_copy (fill_options r) = Some b \<and> ro_paste (fill_options r) = Some b"
  by (auto simp: fill_options_def Let_def split: option.split)

lemma fill_options_rest:
  "ro_host (fill_options r) = trim_space (ro_host r)" "ro_port (fill_options r) = (if ro_port r = 0 then 3389 else ro_port r)"
  "ro_username (fill_options r) = ro_username r" "ro_domain (fill_options r) = ro_domain r"
  "ro_security (fill_options r) = or_default ''automatic'' (ro_security r)" "ro_layout (fill_options r) = ro_layout r"
  "ro_depth (fill_options r) = ro_depth r" "ro_cert_policy (fill_options r) = or_default ''validate'' (ro_cert_policy r)"
  "ro_cert_print (fill_options r) = ro_cert_print r"
  "ro_normalization (fill_options r) = or_default ''preserve'' (ro_normalization r)"
  "ro_profile (fill_options r) = or_default ''balanced'' (ro_profile r)"
  "ro_timeout (fill_options r) = (if ro_timeout r = 0 then 10 else ro_timeout r)"
  "ro_timezone (fill_options r) = ro_timezone r" "rdp_options.more (fill_options r) = rdp_options.more r"
  "ro_copy (fill_options r) = (case ro_clipboard r of Some b \<Rightarrow> Some b
     | None \<Rightarrow> (case ro_copy r of None \<Rightarrow> Some True | Some b \<Rightarrow> Some b))"
  "ro_paste (fill_options r) = (case ro_clipboard r of Some b \<Rightarrow> Some b
     | None \<Rightarrow> (case ro_paste r of None \<Rightarrow> Some True | Some b \<Rightarrow> Some b))"
  by (simp_all add: fill_options_def Let_def cong: option.case_cong)

lemma options_typed_intro:
  assumes "check_options q = Inr q" "ro_dynamic_resize q = Some False \<Longrightarrow> ro_resize q \<noteq> ''display-update''"
    "ro_dpi_mode q = ''96'' \<Longrightarrow> ro_dpi q = 96" "ro_copy q \<noteq> None" "ro_paste q \<noteq> None"
    "\<And>b. ro_clipboard q = Some b \<Longrightarrow> ro_copy q = Some b \<and> ro_paste q = Some b"
  shows "options_typed q"
  using assms unfolding options_typed_def check_options_def reject_if_Inr by (auto simp del: set_simps)

lemma options_typed_check: "options_typed q \<Longrightarrow> check_options q = Inr q"
  unfolding options_typed_def check_options_def reject_if_Inr by (auto simp del: set_simps)

lemma or_default_in: "v \<in> set vs \<Longrightarrow> [] \<notin> set vs \<Longrightarrow> or_default d v = v"
  by (auto simp: or_default_def)

lemma validHost_trimmed: "validHost h \<Longrightarrow> trim_space h = h"
  by (simp add: validHost_def split: if_splits)

lemma options_typed_fill:
  assumes "options_typed q"
  shows "fill_options q = q"
proof -
  from assms have modes: "ro_security q \<in> set [''automatic'', ''nla'', ''nla-ext'', ''tls'', ''rdp'']"
      "ro_resize q \<in> set [''display-update'', ''reconnect'', ''fixed'']" "ro_dpi_mode q \<in> set [''auto'', ''96'', ''custom'']"
      "ro_cert_policy q \<in> set [''validate'', ''tofu'', ''ignore'', ''fingerprint'']"
      "ro_normalization q \<in> set [''preserve'', ''unix'', ''windows'']"
      "ro_profile q \<in> set [''balanced'', ''quality'', ''low-bandwidth'', ''custom'']"
    and ranges: "validHost (ro_host q)" "1 \<le> ro_port q" "1 \<le> ro_timeout q" "ro_dpi_mode q = ''96'' \<longrightarrow> ro_dpi q = 96"
      "ro_dynamic_resize q = Some False \<longrightarrow> ro_resize q \<noteq> ''display-update''"
    and clip: "ro_copy q \<noteq> None" "ro_paste q \<noteq> None"
      "\<forall>b. ro_clipboard q = Some b \<longrightarrow> ro_copy q = Some b \<and> ro_paste q = Some b"
    unfolding options_typed_def by blast+
  have "or_default ''automatic'' (ro_security q) = ro_security q" "or_default ''display-update'' (ro_resize q) = ro_resize q"
    "or_default ''auto'' (ro_dpi_mode q) = ro_dpi_mode q" "or_default ''validate'' (ro_cert_policy q) = ro_cert_policy q"
    "or_default ''preserve'' (ro_normalization q) = ro_normalization q" "or_default ''balanced'' (ro_profile q) = ro_profile q"
    by (rule or_default_in [OF modes(1)] or_default_in [OF modes(2)] or_default_in [OF modes(3)] or_default_in [OF modes(4)]
      or_default_in [OF modes(5)] or_default_in [OF modes(6)]; simp)+
  moreover have "trim_space (ro_host q) = ro_host q" "(if ro_port q = 0 then 3389 else ro_port q) = ro_port q"
    "(if ro_timeout q = 0 then 10 else ro_timeout q) = ro_timeout q" "(if ro_dpi_mode q = ''96'' then 96 else ro_dpi q) = ro_dpi q"
    "(ro_dynamic_resize q = Some False \<and> ro_resize q = ''display-update'') = False"
    using ranges validHost_trimmed [OF ranges(1)] by simp_all
  moreover have "(case ro_clipboard q of Some b \<Rightarrow> Some b | None \<Rightarrow> (case ro_copy q of None \<Rightarrow> Some True | Some b \<Rightarrow> Some b)) = ro_copy q"
    "(case ro_clipboard q of Some b \<Rightarrow> Some b | None \<Rightarrow> (case ro_paste q of None \<Rightarrow> Some True | Some b \<Rightarrow> Some b)) = ro_paste q"
    using clip by (auto split: option.split)
  ultimately show ?thesis
    by (intro rdp_options.equality) (simp_all only: fill_options_rest fill_options_fields(1-5) Let_def if_False)
qed

lemma normalize_options_typed: "normalizeOptions r = Inr q \<Longrightarrow> options_typed q \<and> normalizeOptions q = Inr q"
proof -
  assume norm: "normalizeOptions r = Inr q"
  have q: "q = fill_options r" using norm check_options_id by (auto simp: normalizeOptions_def)
  have "options_typed q"
  proof (rule options_typed_intro)
    show "check_options q = Inr q" using norm q by (simp add: normalizeOptions_def)
    show "ro_dynamic_resize q = Some False \<Longrightarrow> ro_resize q \<noteq> ''display-update''"
      by (simp add: q fill_options_fields Let_def)
    show "ro_dpi_mode q = ''96'' \<Longrightarrow> ro_dpi q = 96" by (simp add: q fill_options_fields)
    show "ro_copy q \<noteq> None" "ro_paste q \<noteq> None" by (simp_all only: q fill_options_fields not_False_eq_True)
    show "ro_clipboard q = Some b \<Longrightarrow> ro_copy q = Some b \<and> ro_paste q = Some b" for b
      by (simp add: q fill_options_fields)
  qed
  then show ?thesis by (simp add: normalizeOptions_def options_typed_fill options_typed_check)
qed

text \<open>The options that pass \<open>normalizeOptions\<close> are well typed (every mode is one of those the protocol knows, every number
  within its range, no default missing, the clipboard switch carried through), and normalising them again changes nothing.\<close>

theorem normalizeOptions_typed:
  assumes "normalizeOptions r = Inr q"
  shows "options_typed q \<and> normalizeOptions q = Inr q"
  using assms by (rule normalize_options_typed)

text \<open>The options of a target with nothing but a host, and without a clipboard.\<close>

definition bare_options :: "string \<Rightarrow> rdp_options" where
  "bare_options host =
     \<lparr>ro_host = host, ro_port = 0, ro_username = [], ro_domain = [], ro_security = [], ro_clipboard = None,
      ro_dynamic_resize = Some False, ro_layout = [], ro_resize = [], ro_dpi_mode = [], ro_dpi = 0, ro_depth = 0,
      ro_cert_policy = [], ro_cert_print = [], ro_copy = None, ro_paste = Some False, ro_normalization = [], ro_profile = [],
      ro_timeout = 0, ro_timezone = []\<rparr>"

theorem normalizeOptions_typed_witness:
  "\<exists>q. normalizeOptions (bare_options '' 10.0.0.7 '') = Inr q \<and> options_typed q \<and> ro_host q = ''10.0.0.7''
     \<and> ro_resize q = ''fixed'' \<and> ro_port q = 3389"
proof -
  obtain q where q: "normalizeOptions (bare_options '' 10.0.0.7 '') = Inr q"
    and f: "ro_host q = ''10.0.0.7'' \<and> ro_resize q = ''fixed'' \<and> ro_port q = 3389"
  proof (cases "normalizeOptions (bare_options '' 10.0.0.7 '')")
    case (Inr q)
    have "case normalizeOptions (bare_options '' 10.0.0.7 '') of Inl _ \<Rightarrow> False
      | Inr q \<Rightarrow> ro_host q = ''10.0.0.7'' \<and> ro_resize q = ''fixed'' \<and> ro_port q = 3389" by code_simp
    with Inr that show ?thesis by simp
  next
    case (Inl e)
    have "is_ok (normalizeOptions (bare_options '' 10.0.0.7 ''))" by code_simp
    with Inl show ?thesis by simp
  qed
  from normalizeOptions_typed [OF q] q f show ?thesis by blast
qed

subsection \<open>Targets of VNC\<close>

record vnc_target =
  vt_id :: string
  vt_name :: string
  vt_host :: string
  vt_port :: int
  vt_username :: string
  vt_timeout :: int

definition normalizeVNCTarget :: "vnc_target \<Rightarrow> (rpc_failure, vnc_target) result" where
  "normalizeVNCTarget t0 =
     (let t = t0\<lparr>vt_name := trim_space (vt_name t0), vt_host := trim_space (vt_host t0),
                 vt_username := trim_space (vt_username t0),
                 vt_port := (if vt_port t0 = 0 then 5900 else vt_port t0),
                 vt_timeout := (if vt_timeout t0 = 0 then 10 else vt_timeout t0)\<rparr>
      in reject_if (vt_name t = [] \<or> 100 < length (vt_name t) \<or> \<not> valid_utf8 (vt_name t))
           (invalid_option ''target name must contain 1 to 100 valid characters'')
         (reject_if (\<not> validHost (vt_host t)) (invalid_option ''VNC host is invalid'')
         (reject_if (vt_port t < 1 \<or> 65535 < vt_port t) (invalid_option ''VNC port is invalid'')
         (reject_if (256 < length (vt_username t) \<or> \<not> valid_utf8 (vt_username t)) (invalid_option ''VNC username is invalid'')
         (reject_if (vt_timeout t < 1 \<or> 30 < vt_timeout t)
            (invalid_option ''VNC connect timeout must be between 1 and 30 seconds'')
         (Inr t))))))"

definition vnc_typed :: "vnc_target \<Rightarrow> bool" where
  "vnc_typed t =
     (vt_name t \<noteq> [] \<and> length (vt_name t) \<le> 100 \<and> valid_utf8 (vt_name t) \<and> trim_space (vt_name t) = vt_name t
      \<and> validHost (vt_host t) \<and> 1 \<le> vt_port t \<and> vt_port t \<le> 65535
      \<and> length (vt_username t) \<le> 256 \<and> valid_utf8 (vt_username t) \<and> trim_space (vt_username t) = vt_username t
      \<and> 1 \<le> vt_timeout t \<and> vt_timeout t \<le> 30)"

lemma normalizeVNCTarget_typed: "normalizeVNCTarget t0 = Inr t \<Longrightarrow> vnc_typed t \<and> vt_id t = vt_id t0"
  by (auto simp: normalizeVNCTarget_def Let_def vnc_typed_def)

lemma vnc_typed_normal: "vnc_typed t \<Longrightarrow> normalizeVNCTarget t = Inr t"
  by (cases t) (auto simp: normalizeVNCTarget_def Let_def vnc_typed_def validHost_trimmed)

subsection \<open>The streams that the plugin asks for\<close>

lemma stream_request_valid:
  "validHost h \<Longrightarrow> 1 \<le> p \<Longrightarrow> p \<le> 65535 \<Longrightarrow> 1 \<le> secs \<Longrightarrow> secs \<le> 30
    \<Longrightarrow> network_request (Stream_Open h p t secs) = Some r \<Longrightarrow> valid_open r \<and> no_server_name r = []"
  by (auto simp: valid_open_def validHost_network wrap64_id max_int64_def)

lemma settings_request_valid:
  "validateSettings s = None \<Longrightarrow> network_request (streamOpenParams s) = Some r \<Longrightarrow> valid_open r \<and> no_server_name r = []"
  unfolding streamOpenParams_def by (rule stream_request_valid) (auto simp: validateSettings_def split: if_splits)

end
