(* ===== verification/RemoteSession.thy ===== *)
theory RemoteSession
  imports RemoteModel
begin

section \<open>The remote desktop plugin: the handshake with guacd\<close>

text \<open>
  Models \<open>negotiate\<close> of \<^verbatim>\<open>plugins/remote/backend/plugin.go\<close>: the instructions that select RDP, describe the client and
  answer the parameters that guacd asks for, over a stream of the host (theory \<open>Guac\<close>).
\<close>

record credentials =
  cr_username :: string
  cr_domain :: string
  cr_password :: string

record client_info =
  ci_width :: int
  ci_height :: int
  ci_dpi :: int
  ci_timezone :: string
  ci_name :: string
  ci_audio :: "string list"
  ci_video :: "string list"
  ci_image :: "string list"

subsection \<open>Protocol versions\<close>

record protocol_version =
  pv_major :: int
  pv_minor :: int
  pv_patch :: int

definition version_String :: "protocol_version \<Rightarrow> string" where
  "version_String v = ''VERSION_'' @ itoa (pv_major v) @ ''_'' @ itoa (pv_minor v) @ ''_'' @ itoa (pv_patch v)"

definition atLeast :: "protocol_version \<Rightarrow> protocol_version \<Rightarrow> bool" where
  "atLeast v w =
     (if pv_major v \<noteq> pv_major w then pv_major w < pv_major v
      else if pv_minor v \<noteq> pv_minor w then pv_minor w < pv_minor v
      else pv_patch w \<le> pv_patch v)"

definition version_part :: "string \<Rightarrow> int option" where
  "version_part p = (if p = [] \<or> \<not> list_all is_digit p then None else atoi p)"

definition parseProtocolVersion :: "string \<Rightarrow> protocol_version option" where
  "parseProtocolVersion v =
     (if \<not> prefix ''VERSION_'' v then None
      else (case split_on (CHR ''_'') (trim_prefix ''VERSION_'' v) of
          [a, b, c] \<Rightarrow>
            (case (version_part a, version_part b, version_part c) of
               (Some x, Some y, Some z) \<Rightarrow> Some \<lparr>pv_major = x, pv_minor = y, pv_patch = z\<rparr>
             | _ \<Rightarrow> None)
        | _ \<Rightarrow> None))"

definition newest_version :: protocol_version where
  "newest_version = \<lparr>pv_major = 1, pv_minor = 5, pv_patch = 0\<rparr>"

definition first_version :: protocol_version where
  "first_version = \<lparr>pv_major = 1, pv_minor = 0, pv_patch = 0\<rparr>"

text \<open>The version that guacd advertises in the first parameter, if it does; the plugin speaks at most 1.5.0.\<close>

definition negotiated :: "string list \<Rightarrow> protocol_version option" where
  "negotiated names =
     (case names of
        [] \<Rightarrow> None
      | n # _ \<Rightarrow> map_option (\<lambda>v. if atLeast v newest_version then newest_version else v) (parseProtocolVersion n))"

subsection \<open>The parameters of the connection\<close>

definition bool_text :: "bool \<Rightarrow> string" where
  "bool_text b = (if b then ''true'' else ''false'')"

definition connectionValues :: "rdp_options \<Rightarrow> credentials \<Rightarrow> string table" where
  "connectionValues r who =
     [(''hostname'', ro_host r), (''port'', itoa (ro_port r)), (''username'', cr_username who),
      (''password'', cr_password who), (''domain'', cr_domain who),
      (''security'', if ro_security r = ''automatic'' then ''any'' else ro_security r),
      (''timeout'', itoa (ro_timeout r)), (''enable-drive'', ''false''), (''enable-printing'', ''false''),
      (''disable-audio'', ''true''), (''disable-copy'', bool_text (ro_copy r \<noteq> Some True)),
      (''disable-paste'', bool_text (ro_paste r \<noteq> Some True)), (''normalize-clipboard'', ro_normalization r)]
     @ (if ro_layout r \<noteq> [] then [(''server-layout'', ro_layout r)] else [])
     @ (if ro_resize r \<noteq> ''fixed'' then [(''resize-method'', ro_resize r)] else [])
     @ (if ro_depth r \<noteq> 0 then [(''color-depth'', itoa (ro_depth r))] else [])
     @ (if ro_timezone r \<noteq> [] then [(''timezone'', ro_timezone r)] else [])
     @ (if ro_cert_policy r = ''tofu'' then [(''cert-tofu'', ''true'')]
        else if ro_cert_policy r = ''ignore'' then [(''ignore-cert'', ''true'')]
        else if ro_cert_policy r = ''fingerprint'' then [(''cert-fingerprints'', ro_cert_print r)] else [])
     @ (let q = bool_text (ro_profile r = ''quality'') in
        [(''enable-wallpaper'', q), (''enable-theming'', q),
         (''enable-font-smoothing'', bool_text (ro_profile r \<noteq> ''low-bandwidth'')),
         (''enable-full-window-drag'', q), (''enable-desktop-composition'', q), (''enable-menu-animations'', q)])"

definition parameter_value :: "string table \<Rightarrow> string \<Rightarrow> string" where
  "parameter_value vs name = (case map_of vs name of None \<Rightarrow> [] | Some v \<Rightarrow> v)"

text \<open>One value for each parameter: the version in place of the first, if it is one.\<close>

definition connect_arguments :: "rdp_options \<Rightarrow> credentials \<Rightarrow> string list \<Rightarrow> string list" where
  "connect_arguments r who names =
     (let vs = map (parameter_value (connectionValues r who)) names
      in case negotiated names of None \<Rightarrow> vs | Some v \<Rightarrow> version_String v # tl vs)"

subsection \<open>The handshake\<close>

definition fill_client :: "client_info \<Rightarrow> client_info" where
  "fill_client c =
     c\<lparr>ci_width := (if ci_width c = 0 then 1280 else ci_width c), ci_height := (if ci_height c = 0 then 800 else ci_height c),
       ci_dpi := (if ci_dpi c = 0 then 96 else ci_dpi c)\<rparr>"

definition client_failure :: "client_info \<Rightarrow> rpc_failure option" where
  "client_failure c =
     (if ci_width c < 1 \<or> 8192 < ci_width c \<or> ci_height c < 1 \<or> 8192 < ci_height c \<or> ci_dpi c < 1 \<or> 240 < ci_dpi c
         \<or> 128 < length (ci_name c)
      then Some (fail ''invalid_argument'' ''RDP client dimensions or name are invalid'') else None)"

fun media_failure :: "string list list \<Rightarrow> rpc_failure option" where
  "media_failure [] = None"
| "media_failure (vs # rest) =
     (if 32 < length vs then Some (fail ''invalid_argument'' ''too many RDP client media types'')
      else if list_ex (\<lambda>v. 128 < length v \<or> contains_any v [CHR 0x00, CHR 0x0D, CHR 0x0A]) vs then
        Some (fail ''invalid_argument'' ''RDP client media type is invalid'')
      else media_failure rest)"

definition throw :: "rpc_failure \<Rightarrow> 'a guac" where
  "throw e io = (Inl e, io)"

definition give :: "'a \<Rightarrow> 'a guac" where
  "give x io = (Inr x, io)"

definition ensure :: "rpc_failure option \<Rightarrow> unit guac" where
  "ensure e = (case e of None \<Rightarrow> give () | Some e \<Rightarrow> throw e)"

text \<open>Instructions sent one after the other, each reported as a stage.\<close>

fun send_all :: "string \<Rightarrow> (string \<times> string list \<times> string) list \<Rightarrow> unit guac" where
  "send_all sid [] = give ()"
| "send_all sid ((opcode, args, s) # rest) =
     and_then (writeInstruction sid opcode args) (\<lambda>_. and_then (stage s) (\<lambda>_. send_all sid rest))"

text \<open>The instructions after the parameters of guacd are known.\<close>

definition client_instructions :: "rdp_options \<Rightarrow> credentials \<Rightarrow> client_info \<Rightarrow> string list \<Rightarrow> (string \<times> string list \<times> string) list" where
  "client_instructions r who c names =
     (let version = (case negotiated names of None \<Rightarrow> first_version | Some v \<Rightarrow> v);
          zone = (if ro_timezone r = [] then ci_timezone c else ro_timezone r)
      in [(''size'', [itoa (ci_width c), itoa (ci_height c), itoa (ci_dpi c)], ''sent size''),
          (''audio'', ci_audio c, ''sent audio''), (''video'', ci_video c, ''sent video''), (''image'', ci_image c, ''sent image'')]
         @ (if atLeast version \<lparr>pv_major = 1, pv_minor = 1, pv_patch = 0\<rparr> \<and> zone \<noteq> [] then [(''timezone'', [zone], ''sent timezone'')] else [])
         @ (if atLeast version newest_version \<and> ci_name c \<noteq> [] then [(''name'', [ci_name c], ''sent client name'')] else [])
         @ [(''connect'', connect_arguments r who names, ''sent connect instruction'')])"

definition read_ready :: "string \<Rightarrow> string guac" where
  "read_ready sid io =
     (case readInstruction sid io of
        (Inr i, io') \<Rightarrow>
          if gi_opcode i \<noteq> ''ready'' \<or> gi_args i = [] \<or> hd (gi_args i) = [] then
            (Inl (fail ''failed'' ''guacd did not establish the RDP session''), io')
          else (Inr (hd (gi_args i)), io')
      | (Inl e, io') \<Rightarrow> (Inl (fail ''failed'' ''guacd did not establish the RDP session''), io'))"

definition negotiate :: "string \<Rightarrow> rdp_options \<Rightarrow> credentials \<Rightarrow> client_info \<Rightarrow> string guac" where
  "negotiate sid r who c0 =
     (let c = fill_client c0 in
      and_then (ensure (client_failure c)) (\<lambda>_.
      and_then (stage (''negotiating desktop size '' @ itoa (ci_width c) @ ''x'' @ itoa (ci_height c) @ '' at '' @ itoa (ci_dpi c) @ '' DPI'')) (\<lambda>_.
      and_then (ensure (media_failure [ci_audio c, ci_video c, ci_image c])) (\<lambda>_.
      and_then (send_all sid [(''select'', [''rdp''], ''sent select rdp'')]) (\<lambda>_.
      and_then (readInstruction sid) (\<lambda>i.
      and_then (ensure (if gi_opcode i \<noteq> ''args'' then Some (fail ''failed'' ''guacd did not accept RDP negotiation'') else None)) (\<lambda>_.
      and_then (stage (''received args ('' @ itoa (int (length (gi_args i))) @ '' parameters)'')) (\<lambda>_.
      and_then (case negotiated (gi_args i) of None \<Rightarrow> give ()
                | Some v \<Rightarrow> stage (''negotiated protocol version '' @ version_String v)) (\<lambda>_.
      and_then (send_all sid (client_instructions r who c (gi_args i))) (\<lambda>_.
      and_then (read_ready sid) (\<lambda>cid.
      and_then (stage ''received ready'') (\<lambda>_. give cid))))))))))))"

subsection \<open>What the plugin sends\<close>

fun sent_data :: "string \<Rightarrow> stream_call \<Rightarrow> string" where
  "sent_data sid (Stream_Write s d) = (if s = sid then d else [])"
| "sent_data sid _ = []"

definition written :: "string \<Rightarrow> guac_io \<Rightarrow> string" where
  "written sid io = concat (map (sent_data sid) (io_calls io))"

lemma and_then_Inr: "and_then m f io = (Inr y, io') \<longleftrightarrow> (\<exists>x io1. m io = (Inr x, io1) \<and> f x io1 = (Inr y, io'))"
  by (auto simp: and_then_def split: prod.split sum.split)

lemma ensure_Inr: "ensure e io = (Inr y, io') \<longleftrightarrow> e = None \<and> io' = io"
  by (cases e) (auto simp: ensure_def give_def throw_def)

lemma written_call: "call_host c io = (r, io') \<Longrightarrow> written sid io' = written sid io @ sent_data sid c"
  by (auto simp: call_host_def written_def split: list.splits)

lemma written_stage: "stage s io = (x, io') \<Longrightarrow> written sid io' = written sid io"
  by (auto simp: stage_def written_def)

lemma written_window: "readWindow s off n io = (x, io') \<Longrightarrow> written sid io' = written sid io"
  by (auto simp: readWindow_def dest: written_call split: prod.splits stream_reply.splits option.splits)

lemma written_consume: "consume_bytes s n io = (x, io') \<Longrightarrow> written sid io' = written sid io"
proof (induction n arbitrary: io x io' rule: less_induct)
  case (less n)
  show ?case
  proof (cases "n = 0")
    case True
    with less(2) show ?thesis by (simp add: consume_bytes.simps)
  next
    case False
    obtain r io1 where c: "call_host (Stream_Read s (min n 65536) 0 False) io = (r, io1)" by fastforce
    have w: "written sid io1 = written sid io" using written_call [OF c] by simp
    show ?thesis
    proof (cases "\<exists>d eof. r = Data_Reply (Some d) eof \<and> \<not> (d = [] \<or> min n 65536 < length d)")
      case True
      then obtain d eof where r: "r = Data_Reply (Some d) eof" "d \<noteq> []" "\<not> min n 65536 < length d" by blast
      then have "consume_bytes s (n - length d) io1 = (x, io')"
        using less(2) False c by (simp add: consume_bytes.simps [of s n io] Let_def)
      moreover have "n - length d < n" using r(2) False by simp
      ultimately show ?thesis using less(1) w by metis
    next
      case fail: False
      have "io' = io1"
        using less(2) False c fail
        by (auto simp: consume_bytes.simps [of s n io] Let_def split: stream_reply.splits option.splits if_splits)
      with w show ?thesis by simp
    qed
  qed
qed

lemma written_read_from: "read_from s data io = (x, io') \<Longrightarrow> written sid io' = written sid io"
proof (induction "maxGuacInstruction - length data" arbitrary: data io x io' rule: less_induct)
  case less
  show ?case
  proof (cases "maxGuacInstruction \<le> length data")
    case True
    with less(2) show ?thesis by (simp add: read_from.simps)
  next
    case False
    obtain r io1 where c: "readWindow s (length data) (min guacReadWindow (maxGuacInstruction - length data)) io = (r, io1)"
      by fastforce
    have w: "written sid io1 = written sid io" using written_window [OF c] .
    show ?thesis
    proof (cases "\<exists>chunk. r = Inr (chunk, False) \<and> chunk \<noteq> [] \<and> parseGuacInstruction (data @ chunk) = Incomplete")
      case True
      then obtain chunk where r: "r = Inr (chunk, False)" "chunk \<noteq> []" "parseGuacInstruction (data @ chunk) = Incomplete" by blast
      then have "read_from s (data @ chunk) io1 = (x, io')"
        using less(2) False c by (simp add: read_from.simps [of s data io])
      moreover have "maxGuacInstruction - length (data @ chunk) < maxGuacInstruction - length data"
        using r(2) False by (cases chunk) auto
      ultimately show ?thesis using less(1) w by metis
    next
      case stop: False
      have "io' = io1 \<or> (\<exists>n y. consume_bytes s n io1 = (y, io'))"
        using less(2) False c stop
        by (auto simp: read_from.simps [of s data io] and_then_def
            split: sum.splits prod.splits if_splits guac_parse.splits)
      with w written_consume show ?thesis by metis
    qed
  qed
qed

lemma written_read: "readInstruction s io = (x, io') \<Longrightarrow> written sid io' = written sid io"
  unfolding readInstruction_def by (rule written_read_from)

lemma written_data: "write_data sid d io = (Inr u, io') \<Longrightarrow> written sid io' = written sid io @ d"
proof (induction "length d" arbitrary: d io rule: less_induct)
  case less
  show ?case
  proof (cases "d = []")
    case True
    with less(2) show ?thesis by (simp add: write_data.simps)
  next
    case False
    obtain r io1 where c: "call_host (Stream_Write sid (take streamChunk d)) io = (r, io1)" by fastforce
    have "\<nexists>e. r = Refused e" using less(2) False c by (auto simp: write_data.simps [of sid d io])
    then have "write_data sid (drop streamChunk d) io1 = (Inr u, io')"
      using less(2) False c by (cases r) (simp_all add: write_data.simps [of sid d io])
    moreover have "length (drop streamChunk d) < length d" using False by (simp add: streamChunk_def)
    ultimately have "written sid io' = written sid io1 @ drop streamChunk d" using less(1) by blast
    with written_call [OF c, of sid] show ?thesis by simp
  qed
qed

lemma written_instruction:
  "writeInstruction sid opcode args io = (Inr u, io') \<Longrightarrow> written sid io' = written sid io @ guac_text (opcode # args)"
  by (auto simp: writeInstruction_def print_instruction_def split: if_splits dest: written_data)

definition instructions_text :: "(string \<times> string list \<times> string) list \<Rightarrow> string" where
  "instructions_text is = concat (map (\<lambda>(opcode, args, _). guac_text (opcode # args)) is)"

lemma written_all: "send_all sid is io = (Inr u, io') \<Longrightarrow> written sid io' = written sid io @ instructions_text is"
proof (induction "is" arbitrary: io)
  case Nil
  then show ?case by (simp add: give_def instructions_text_def)
next
  case (Cons i "is")
  obtain opcode args s where i: "i = (opcode, args, s)" by (cases i)
  from Cons.prems obtain u1 io1 u2 io2 where
    w: "writeInstruction sid opcode args io = (Inr u1, io1)" and s: "stage s io1 = (Inr u2, io2)"
    and r: "send_all sid is io2 = (Inr u, io')"
    by (auto simp: i and_then_Inr)
  from Cons.IH [OF r] written_stage [OF s, of sid] written_instruction [OF w]
  show ?case by (simp add: i instructions_text_def)
qed

lemma written_ready: "read_ready sid io = (Inr cid, io') \<Longrightarrow> written sid io' = written sid io \<and> cid \<noteq> []"
  using written_read [of sid io _ _ sid] by (auto simp: read_ready_def split: prod.splits sum.splits if_splits)

text \<open>How the parts of the handshake continue the conversation.  What the plugin writes leaves what guacd has sent as it is.\<close>

definition leaves_stream :: "guac_io \<Rightarrow> guac_io \<Rightarrow> bool" where
  "leaves_stream io io' = (continues io io'
     \<and> (\<forall>sid data rest. served sid data (calls_between io io') (io_replies io) = Some rest \<longrightarrow> rest = data))"

lemma leaves_refl: "leaves_stream io io"
  by (simp add: leaves_stream_def)

lemma leaves_trans:
  assumes "leaves_stream a b" "leaves_stream b c"
  shows "leaves_stream a c"
proof -
  have ab: "continues a b" and bc: "continues b c" using assms by (simp_all add: leaves_stream_def)
  have "rest = data" if "served sid data (calls_between a c) (io_replies a) = Some rest" for sid data rest
    using served_parts [OF ab bc that] assms by (metis leaves_stream_def)
  with continues_trans(1) [OF ab bc] show ?thesis by (simp add: leaves_stream_def)
qed

lemma leaves_stage: "stage s io = (x, io') \<Longrightarrow> leaves_stream io io'"
  by (auto simp: stage_def leaves_stream_def continues_def calls_between_def)

lemma leaves_write: "call_host (Stream_Write s d) io = (r, io') \<Longrightarrow> leaves_stream io io'"
  using continues_call [of "Stream_Write s d" io r io'] served_call [of "Stream_Write s d" io r io']
  by (auto simp: leaves_stream_def)

lemma leaves_data: "write_data sid d io = (x, io') \<Longrightarrow> leaves_stream io io'"
proof (induction "length d" arbitrary: d io rule: less_induct)
  case less
  obtain r io1 where c: "call_host (Stream_Write sid (take streamChunk d)) io = (r, io1)" by fastforce
  have l: "leaves_stream io io1" using leaves_write [OF c] .
  show ?case
  proof (cases "d = [] \<or> (\<exists>e. r = Refused e)")
    case True
    with less(2) c have "io' = io \<or> io' = io1" by (auto simp: write_data.simps [of sid d io] split: if_splits)
    with l leaves_refl show ?thesis by auto
  next
    case False
    then have "write_data sid (drop streamChunk d) io1 = (x, io')"
      using less(2) c by (cases r) (auto simp: write_data.simps [of sid d io])
    moreover have "length (drop streamChunk d) < length d" using False by (simp add: streamChunk_def)
    ultimately show ?thesis using less(1) l leaves_trans by blast
  qed
qed

lemma leaves_all: "send_all sid is io = (Inr u, io') \<Longrightarrow> leaves_stream io io'"
proof (induction "is" arbitrary: io)
  case (Cons i "is")
  obtain opcode args s where i: "i = (opcode, args, s)" by (cases i)
  from Cons.prems obtain u1 io1 u2 io2 where
    w: "writeInstruction sid opcode args io = (Inr u1, io1)" and s: "stage s io1 = (Inr u2, io2)"
    and r: "send_all sid is io2 = (Inr u, io')"
    by (auto simp: i and_then_Inr)
  have "leaves_stream io io1" using w by (auto simp: writeInstruction_def dest: leaves_data split: sum.splits)
  with leaves_stage [OF s] Cons.IH [OF r] leaves_trans show ?case by blast
qed (simp add: give_def leaves_refl)

lemma continues_read: "readInstruction sid io = (x, io') \<Longrightarrow> continues io io'"
  unfolding readInstruction_def by (rule continues_read_from)

lemma served_leaves:
  assumes "leaves_stream a b" "continues b c" "served sid data (calls_between a c) (io_replies a) = Some rest"
  shows "served sid data (calls_between b c) (io_replies b) = Some rest"
proof -
  have ab: "continues a b" using assms(1) by (simp add: leaves_stream_def)
  from served_parts [OF ab assms(2,3)] assms(1) show ?thesis by (metis leaves_stream_def)
qed

text \<open>The parts of a handshake that succeeds: \<open>io2\<close> to \<open>io3\<close> and \<open>io6\<close> to \<open>io7\<close> read an instruction each, the rest writes.\<close>

lemma negotiate_parts:
  assumes "negotiate sid r who c io = (Inr cid, io')"
  obtains io2 i io3 io6 io7 where
    "leaves_stream io io2" "readInstruction sid io2 = (Inr i, io3)" "gi_opcode i = ''args''"
    "leaves_stream io3 io6" "read_ready sid io6 = (Inr cid, io7)" "leaves_stream io7 io'"
    "written sid io' = written sid io @ guac_text [''select'', ''rdp'']
      @ instructions_text (client_instructions r who (fill_client c) (gi_args i))"
proof -
  let ?c = "fill_client c"
  from assms obtain u1 io1 u2 io2 i io3 u4 io4 u5 io5 u6 io6 cid' io7 where
    s1: "stage (''negotiating desktop size '' @ itoa (ci_width ?c) @ ''x'' @ itoa (ci_height ?c) @ '' at '' @ itoa (ci_dpi ?c) @ '' DPI'') io = (Inr u1, io1)"
    and w1: "send_all sid [(''select'', [''rdp''], ''sent select rdp'')] io1 = (Inr u2, io2)"
    and r: "readInstruction sid io2 = (Inr i, io3)"
    and op: "(if gi_opcode i \<noteq> ''args'' then Some (fail ''failed'' ''guacd did not accept RDP negotiation'') else None) = None"
    and s2: "stage (''received args ('' @ itoa (int (length (gi_args i))) @ '' parameters)'') io3 = (Inr u4, io4)"
    and s3: "(case negotiated (gi_args i) of None \<Rightarrow> give ()
       | Some v \<Rightarrow> stage (''negotiated protocol version '' @ version_String v)) io4 = (Inr u5, io5)"
    and w2: "send_all sid (client_instructions r who ?c (gi_args i)) io5 = (Inr u6, io6)"
    and ready: "read_ready sid io6 = (Inr cid', io7)"
    and fin: "and_then (stage ''received ready'') (\<lambda>_. give cid') io7 = (Inr cid, io')"
    unfolding negotiate_def Let_def and_then_Inr ensure_Inr by blast
  have s3': "written sid io5 = written sid io4" "leaves_stream io4 io5"
    using s3 by (auto simp: give_def leaves_refl dest: written_stage leaves_stage split: option.splits)
  have s4: "cid = cid'" "written sid io' = written sid io7" "leaves_stream io7 io'"
    using fin by (auto simp: and_then_Inr give_def written_stage leaves_stage)
  show thesis
  proof (rule that [of io2 i io3 io6 io7])
    show "leaves_stream io io2" using leaves_stage [OF s1] leaves_all [OF w1] leaves_trans by blast
    show "leaves_stream io3 io6" using leaves_stage [OF s2] s3'(2) leaves_all [OF w2] leaves_trans by blast
    show "gi_opcode i = ''args''" using op by (simp split: if_splits)
    show "written sid io' = written sid io @ guac_text [''select'', ''rdp'']
        @ instructions_text (client_instructions r who ?c (gi_args i))"
      using written_stage [OF s1, of sid] written_all [OF w1] written_read [OF r, of sid] written_stage [OF s2, of sid] s3'
        written_all [OF w2] written_ready [OF ready] s4
      by (simp add: instructions_text_def)
  qed (use r ready s4 in simp_all)
qed

lemma connect_argument:
  assumes "k < length names"
  shows "connect_arguments r who names ! k =
    (case negotiated names of Some v \<Rightarrow> if k = 0 then version_String v else parameter_value (connectionValues r who) (names ! k)
     | None \<Rightarrow> parameter_value (connectionValues r who) (names ! k))"
  using assms by (cases names; cases k) (auto simp: connect_arguments_def Let_def split: option.split)

lemma length_connect_arguments: "length (connect_arguments r who names) = length names"
  by (cases names) (auto simp: connect_arguments_def negotiated_def Let_def split: option.split)


text \<open>A guacd that speaks version 1.3 and asks for a host, a password and a parameter that the plugin does not know.\<close>

lemma read_whole:
  assumes "io_replies io = Data_Reply (Some text) False # Data_Reply (Some text) False # rs"
    and "parseGuacInstruction text = Complete i (length text)" "text \<noteq> []" "length text \<le> 4096"
  shows "readInstruction sid io = (Inr i, io\<lparr>io_replies := rs,
    io_calls := io_calls io @ [Stream_Read sid 4096 0 True, Stream_Read sid (length text) 0 False]\<rparr>)"
  using assms
  by (simp add: readInstruction_def read_from.simps consume_bytes.simps readWindow_def call_host_def and_then_def guac_limits Let_def min_def)

definition args_text :: string where
  "args_text = ''4.args,13.VERSION_1_3_0,8.hostname,8.password,3.dpi;''"

definition ready_text :: string where
  "ready_text = ''5.ready,2.$1;''"

lemma parse_args: "parseGuacInstruction args_text
    = Complete \<lparr>gi_opcode = ''args'', gi_args = [''VERSION_1_3_0'', ''hostname'', ''password'', ''dpi'']\<rparr> (length args_text)"
  by (simp add: args_text_def parseGuacInstruction_def parse_elements.simps Let_def guac_limits ascii_valid byte_in_def is_digit_def
      atoi_def digits_value_def digit_value_def max_int64_def)

lemma parse_ready: "parseGuacInstruction ready_text = Complete \<lparr>gi_opcode = ''ready'', gi_args = [''$1'']\<rparr> (length ready_text)"
  by (simp add: ready_text_def parseGuacInstruction_def parse_elements.simps Let_def guac_limits ascii_valid byte_in_def is_digit_def
      atoi_def digits_value_def digit_value_def max_int64_def)

lemma write_short:
  assumes "io_replies io = Done # rs" "print_instruction opcode args = Inr text" "length text \<le> 49152" "text \<noteq> []"
  shows "writeInstruction sid opcode args io = (Inr (), io\<lparr>io_replies := rs, io_calls := io_calls io @ [Stream_Write sid text]\<rparr>)"
  using assms by (simp add: writeInstruction_def write_data.simps call_host_def streamChunk_def)

definition sample_io :: guac_io where
  "sample_io =
     \<lparr>io_replies = [Done, Data_Reply (Some args_text) False, Data_Reply (Some args_text) False, Done, Done, Done, Done, Done, Done,
        Data_Reply (Some ready_text) False, Data_Reply (Some ready_text) False], io_calls = [], io_stages = []\<rparr>"

definition sample_client :: client_info where
  "sample_client = \<lparr>ci_width = 0, ci_height = 600, ci_dpi = 0, ci_timezone = ''UTC'', ci_name = ''me'', ci_audio = [],
     ci_video = [], ci_image = [''image/png'']\<rparr>"

definition sample_credentials :: credentials where
  "sample_credentials = \<lparr>cr_username = ''u'', cr_domain = [], cr_password = ''secret''\<rparr>"

lemma sample_prints:
  "print_instruction ''select'' [''rdp''] = Inr ''6.select,3.rdp;''"
  "print_instruction ''size'' [''1280'', ''600'', ''96''] = Inr ''4.size,4.1280,3.600,2.96;''"
  "print_instruction ''audio'' [] = Inr ''5.audio;''" "print_instruction ''video'' [] = Inr ''5.video;''"
  "print_instruction ''image'' [''image/png''] = Inr ''5.image,9.image/png;''"
  "print_instruction ''timezone'' [''UTC''] = Inr ''8.timezone,3.UTC;''"
  "print_instruction ''connect'' [''VERSION_1_3_0'', ''srv'', ''secret'', []] = Inr ''7.connect,13.VERSION_1_3_0,3.srv,6.secret,0.;''"
  by (simp add: print_instruction_def guac_text_def guac_element_def guac_limits itoa_def nat_digits.simps ascii_valid byte_in_def; code_simp)+

lemma sample_arguments:
  "fill_client sample_client = sample_client\<lparr>ci_width := 1280, ci_dpi := 96\<rparr>"
  "client_instructions (bare_options ''srv'') sample_credentials (sample_client\<lparr>ci_width := 1280, ci_dpi := 96\<rparr>)
     [''VERSION_1_3_0'', ''hostname'', ''password'', ''dpi''] =
     [(''size'', [''1280'', ''600'', ''96''], ''sent size''), (''audio'', [], ''sent audio''), (''video'', [], ''sent video''),
      (''image'', [''image/png''], ''sent image''), (''timezone'', [''UTC''], ''sent timezone''),
      (''connect'', [''VERSION_1_3_0'', ''srv'', ''secret'', []], ''sent connect instruction'')]"
  by code_simp+

lemma sample_checks:
  "client_failure (sample_client\<lparr>ci_width := 1280, ci_dpi := 96\<rparr>) = None"
  "media_failure [ci_audio (sample_client\<lparr>ci_width := 1280, ci_dpi := 96\<rparr>), ci_video (sample_client\<lparr>ci_width := 1280, ci_dpi := 96\<rparr>),
     ci_image (sample_client\<lparr>ci_width := 1280, ci_dpi := 96\<rparr>)] = None"
  by (simp_all add: client_failure_def sample_client_def contains_any_def)

lemma sample_lengths: "length args_text = 52" "length ready_text = 13" "args_text \<noteq> []" "ready_text \<noteq> []"
  by (simp_all add: args_text_def ready_text_def)

definition sample_done :: "string list \<Rightarrow> guac_io" where
  "sample_done stages =
     \<lparr>io_replies = [],
      io_calls = [Stream_Write ''s'' ''6.select,3.rdp;'', Stream_Read ''s'' 4096 0 True, Stream_Read ''s'' 52 0 False,
        Stream_Write ''s'' ''4.size,4.1280,3.600,2.96;'', Stream_Write ''s'' ''5.audio;'', Stream_Write ''s'' ''5.video;'',
        Stream_Write ''s'' ''5.image,9.image/png;'', Stream_Write ''s'' ''8.timezone,3.UTC;'',
        Stream_Write ''s'' ''7.connect,13.VERSION_1_3_0,3.srv,6.secret,0.;'',
        Stream_Read ''s'' 4096 0 True, Stream_Read ''s'' 13 0 False],
      io_stages = stages\<rparr>"

lemma sample_succeeds:
  "\<exists>stages. negotiate ''s'' (bare_options ''srv'') sample_credentials sample_client sample_io = (Inr ''$1'', sample_done stages)"
proof -
  have v: "negotiated [''VERSION_1_3_0'', ''hostname'', ''password'', ''dpi'']
      = Some \<lparr>pv_major = 1, pv_minor = 3, pv_patch = 0\<rparr>" by code_simp
  show ?thesis
    unfolding negotiate_def Let_def sample_arguments(1)
    by (simp add: and_then_def ensure_def give_def stage_def sample_arguments(2) sample_checks [simplified] sample_checks sample_io_def sample_done_def v read_ready_def
        write_short [OF _ sample_prints(1)] write_short [OF _ sample_prints(2)] write_short [OF _ sample_prints(3)]
        write_short [OF _ sample_prints(4)] write_short [OF _ sample_prints(5)] write_short [OF _ sample_prints(6)]
        write_short [OF _ sample_prints(7)] read_whole [OF _ parse_args] read_whole [OF _ parse_ready] sample_lengths)
qed

lemma sample_args: "print_instruction ''args'' [''VERSION_1_3_0'', ''hostname'', ''password'', ''dpi''] = Inr args_text"
  unfolding args_text_def
  by (simp add: print_instruction_def guac_text_def guac_element_def guac_limits itoa_def nat_digits.simps ascii_valid byte_in_def) code_simp

lemma sample_served:
  "served ''s'' (args_text @ ready_text) (calls_between sample_io (sample_done stages)) (io_replies sample_io) = Some []"
proof -
  have "prefix ready_text ready_text" by simp
  then show ?thesis
    using sample_lengths
    by (simp add: calls_between_def sample_io_def sample_done_def some_of_def reply_length_def)
qed


end
