(* ===== verification/RemoteStore.thy ===== *)
theory RemoteStore
  imports RemoteSession
begin

section \<open>The remote desktop plugin: its stored targets\<close>

text \<open>
  Models the stores of \<^verbatim>\<open>plugins/remote/backend/plugin.go\<close> and \<^verbatim>\<open>vnc.go\<close>.  A value of the host's storage is absent, unreadable (it
  does not decode, has another version, or no list of targets) or what it decodes to.  A refusal of the host is \<open>Some\<close> of a
  capability error, if it is one.  Identifiers count in \<^verbatim>\<open>uint64\<close>.
\<close>

record rdp_target =
  rt_id :: string
  rt_name :: string
  rt_options :: rdp_options

record 'a target_store =
  ts_next :: nat
  ts_targets :: "'a list"

definition invalid_configuration :: "string \<Rightarrow> rpc_failure" where
  "invalid_configuration m = fail ''invalid_configuration'' m"

subsection \<open>Reading\<close>

text \<open>The targets of a stored list, each checked by \<open>norm\<close>; \<open>seen\<close> are the identifiers so far.\<close>

fun load_targets :: "('a \<Rightarrow> string) \<Rightarrow> ('a \<Rightarrow> 'a option) \<Rightarrow> string list \<Rightarrow> 'a list \<Rightarrow> 'a list option" where
  "load_targets key norm seen [] = Some []"
| "load_targets key norm seen (t # ts) =
     (case norm t of
        None \<Rightarrow> None
      | Some t' \<Rightarrow>
          if key t \<in> set seen then None
          else map_option ((#) t') (load_targets key norm (key t # seen) ts))"

definition rdp_norm :: "rdp_target \<Rightarrow> rdp_target option" where
  "rdp_norm t =
     (let name = trim_space (rt_name t) in
      if rt_id t = [] \<or> name = [] \<or> 100 < length name then None
      else (case normalizeOptions (rt_options t) of Inl _ \<Rightarrow> None
            | Inr r \<Rightarrow> Some (t\<lparr>rt_name := name, rt_options := r\<rparr>)))"

definition vnc_norm :: "vnc_target \<Rightarrow> vnc_target option" where
  "vnc_norm t =
     (case normalizeVNCTarget t of Inl _ \<Rightarrow> None
      | Inr t' \<Rightarrow> if vt_id t = [] \<or> 100 < length (vt_id t) then None else Some t')"

definition maxVNCTargets :: nat where
  "maxVNCTargets = 256"

text \<open>\<open>readTargets\<close> and \<open>readVNCTargets\<close> have the same shape; \<open>kind\<close> is the protocol in their messages.\<close>

definition read_store ::
  "string \<Rightarrow> ('a \<Rightarrow> string) \<Rightarrow> ('a \<Rightarrow> 'a option) \<Rightarrow> refusal \<Rightarrow> 'a target_store stored \<Rightarrow> (rpc_failure, 'a target_store) result" where
  "read_store kind key norm refused v =
     (case refused of
        Some e \<Rightarrow> Inl (hostError e)
      | None \<Rightarrow>
          (case v of
             Absent \<Rightarrow> Inr \<lparr>ts_next = 1, ts_targets = []\<rparr>
           | Unreadable \<Rightarrow> Inl (invalid_configuration (''stored '' @ kind @ '' targets are unreadable''))
           | Readable s \<Rightarrow>
               if 256 < length (ts_targets s) then Inl (invalid_configuration (''stored '' @ kind @ '' targets are unreadable''))
               else (case load_targets key norm [] (ts_targets s) of
                   None \<Rightarrow> Inl (invalid_configuration (''stored '' @ kind @ '' targets are invalid''))
                 | Some ts \<Rightarrow> Inr \<lparr>ts_next = (if ts_next s = 0 then 1 else ts_next s), ts_targets = ts\<rparr>)))"

definition readTargets :: "refusal \<Rightarrow> rdp_target target_store stored \<Rightarrow> (rpc_failure, rdp_target target_store) result" where
  "readTargets = read_store ''RDP'' rt_id rdp_norm"

definition readVNCTargets :: "refusal \<Rightarrow> vnc_target target_store stored \<Rightarrow> (rpc_failure, vnc_target target_store) result" where
  "readVNCTargets = read_store ''VNC'' vt_id vnc_norm"

subsection \<open>Identifiers\<close>

definition rdp_id :: "nat \<Rightarrow> string" where
  "rdp_id n = ''rdp-'' @ itoa (int n)"

definition vnc_id :: "nat \<Rightarrow> string" where
  "vnc_id n = ''vnc-'' @ itoa (int n)"

text \<open>The loop of \<open>saveTarget\<close>; it ends at the last number.\<close>

function alloc_rdp :: "string list \<Rightarrow> nat \<Rightarrow> (string \<times> nat) option" where
  "alloc_rdp ids n =
     (if rdp_id n \<notin> set ids then Some (rdp_id n, n + 1)
      else if max_uint64 \<le> n + 1 then None
      else alloc_rdp ids (n + 1))"
  by pat_completeness auto

termination by (relation "measure (\<lambda>(_, n). max_uint64 - n)") auto

declare alloc_rdp.simps [simp del]

text \<open>\<open>nextVNCTargetID\<close> wraps around from the last number to 1 and has no other end than a free identifier; the
  fuel is the number of attempts.\<close>

fun alloc_vnc :: "nat \<Rightarrow> string list \<Rightarrow> nat \<Rightarrow> (string \<times> nat) option" where
  "alloc_vnc 0 ids n = None"
| "alloc_vnc (Suc k) ids n =
     (let n' = (if n = max_uint64 then 1 else n + 1)
      in if vnc_id n \<notin> set ids then Some (vnc_id n, n') else alloc_vnc k ids n')"

definition nextVNCTargetID :: "vnc_target target_store \<Rightarrow> (string \<times> nat) option" where
  "nextVNCTargetID s = alloc_vnc (length (ts_targets s) + 1) (map vt_id (ts_targets s)) (ts_next s)"

lemma rdp_id_inj: "rdp_id m = rdp_id n \<longleftrightarrow> m = n"
  using itoa_inj [of "int m" "int n"] by (auto simp: rdp_id_def)

lemma vnc_id_inj: "vnc_id m = vnc_id n \<longleftrightarrow> m = n"
  using itoa_inj [of "int m" "int n"] by (auto simp: vnc_id_def)

lemma alloc_rdp_fresh: "alloc_rdp ids n = Some (i, n') \<Longrightarrow> i \<notin> set ids \<and> n < n' \<and> i \<noteq> []"
proof (induction ids n rule: alloc_rdp.induct)
  case (1 ids n)
  show ?case
  proof (cases "rdp_id n \<notin> set ids")
    case True
    with 1(2) show ?thesis by (auto simp: alloc_rdp.simps [of ids n] rdp_id_def)
  next
    case False
    with 1(2) have more: "\<not> max_uint64 \<le> n + 1" "alloc_rdp ids (n + 1) = Some (i, n')"
      by (auto simp: alloc_rdp.simps [of ids n] split: if_splits)
    from 1(1) [OF _ more] False show ?thesis by simp
  qed
qed

lemma alloc_rdp_bound: "alloc_rdp ids n = Some (i, n') \<Longrightarrow> n < max_uint64 \<Longrightarrow> n' \<le> max_uint64"
proof (induction ids n rule: alloc_rdp.induct)
  case (1 ids n)
  show ?case
  proof (cases "rdp_id n \<notin> set ids")
    case True
    with 1(2,3) show ?thesis by (auto simp: alloc_rdp.simps [of ids n])
  next
    case False
    with 1(2) have more: "\<not> max_uint64 \<le> n + 1" "alloc_rdp ids (n + 1) = Some (i, n')"
      by (auto simp: alloc_rdp.simps [of ids n] split: if_splits)
    from 1(1) [OF _ more] False more(1) show ?thesis by simp
  qed
qed

text \<open>The numbers after \<open>n\<close>: each attempt that fails has used up one stored identifier.\<close>

definition successor :: "nat \<Rightarrow> nat" where
  "successor n = (if n = max_uint64 then 1 else n + 1)"

lemma alloc_vnc_some:
  "alloc_vnc k ids n = (case find (\<lambda>j. vnc_id ((successor ^^ j) n) \<notin> set ids) [0..<k] of
     None \<Rightarrow> None | Some j \<Rightarrow> Some (vnc_id ((successor ^^ j) n), (successor ^^ Suc j) n))"
proof (induction k arbitrary: n)
  case (Suc k)
  have shift: "[0..<Suc k] = 0 # map Suc [0..<k]" by (simp add: upt_conv_Cons map_Suc_upt del: upt_Suc)
  have find: "find P (map f xs) = map_option f (find (P \<circ> f) xs)" for P and f :: "nat \<Rightarrow> nat" and xs
    by (induction xs) auto
  show ?case
    using Suc [of "successor n"]
    by (simp add: shift find comp_def funpow_swap1 successor_def [of n, symmetric] Let_def del: upt_Suc split: option.split)
qed simp

lemma successor_closed: "1 \<le> n \<Longrightarrow> n \<le> max_uint64 \<Longrightarrow> 1 \<le> (successor ^^ j) n \<and> (successor ^^ j) n \<le> max_uint64"
  by (induction j) (auto simp: successor_def)

lemma successor_mod:
  assumes "1 \<le> n" "n \<le> max_uint64"
  shows "(successor ^^ j) n = (n - 1 + j) mod max_uint64 + 1"
proof (induction j)
  case 0
  with assms show ?case by (simp add: max_uint64_def)
next
  case (Suc j)
  have pos: "0 < max_uint64" by (simp add: max_uint64_def)
  show ?case
  proof (cases "(n - 1 + j) mod max_uint64 + 1 = max_uint64")
    case True
    then have "(n - 1 + Suc j) mod max_uint64 = 0" using pos
      by (metis Suc_eq_plus1 add_Suc_right mod_Suc_eq mod_self)
    with Suc True show ?thesis by (simp add: successor_def)
  next
    case False
    have "(n - 1 + j) mod max_uint64 < max_uint64" using pos by simp
    with False have "(n - 1 + Suc j) mod max_uint64 = (n - 1 + j) mod max_uint64 + 1"
      by (simp add: mod_Suc)
    with Suc False show ?thesis by (simp add: successor_def)
  qed
qed

lemma mod_add_inj: "(a + i) mod m = (a + j) mod m \<Longrightarrow> i \<le> j \<Longrightarrow> j < m \<Longrightarrow> i = j" for m :: nat
proof -
  assume "(a + i) mod m = (a + j) mod m" "i \<le> j" "j < m"
  then have "m dvd j - i" using mod_eq_dvd_iff_nat [of "a + i" "a + j" m] by simp
  then show "i = j" using \<open>i \<le> j\<close> \<open>j < m\<close> by (cases "j - i = 0") (auto dest: dvd_imp_le)
qed

lemma successor_inj:
  assumes "1 \<le> n" "n \<le> max_uint64" "i < max_uint64" "j < max_uint64" "(successor ^^ i) n = (successor ^^ j) n"
  shows "i = j"
proof -
  have "(n - 1 + i) mod max_uint64 = (n - 1 + j) mod max_uint64" using assms by (simp add: successor_mod)
  then show ?thesis using mod_add_inj [of "n - 1" i max_uint64 j] mod_add_inj [of "n - 1" j max_uint64 i] assms(3,4)
    by (cases "i \<le> j") auto
qed

lemma vnc_identifier:
  assumes "1 \<le> ts_next s" "ts_next s \<le> max_uint64" "length (ts_targets s) \<le> 256"
  shows "\<exists>i n. nextVNCTargetID s = Some (i, n) \<and> i \<notin> set (map vt_id (ts_targets s)) \<and> i \<noteq> [] \<and> 1 \<le> n \<and> n \<le> max_uint64"
proof -
  let ?ids = "map vt_id (ts_targets s)" and ?k = "length (ts_targets s) + 1"
  let ?name = "\<lambda>j. vnc_id ((successor ^^ j) (ts_next s))"
  have "inj_on ?name {..<?k}"
  proof (rule inj_onI)
    fix i j assume "i \<in> {..<?k}" "j \<in> {..<?k}" "?name i = ?name j"
    then have ij: "i < ?k" "j < ?k" and eq: "(successor ^^ i) (ts_next s) = (successor ^^ j) (ts_next s)"
      by (simp_all only: vnc_id_inj lessThan_iff)
    have "257 < max_uint64" by (simp add: max_uint64_def)
    with ij assms(3) have "i < max_uint64" "j < max_uint64" by linarith+
    from successor_inj [OF assms(1,2) this eq] show "i = j" .
  qed
  then have "card (?name ` {..<?k}) = ?k" by (simp add: card_image)
  moreover have "card (set ?ids) < ?k" using card_length [of ?ids] by simp
  ultimately have "\<not> ?name ` {..<?k} \<subseteq> set ?ids" using card_mono [of "set ?ids"] by (metis finite_set leD)
  then obtain x where x: "x < ?k" "?name x \<notin> set ?ids" by blast
  have "x \<in> set [0..<?k]" using x(1) unfolding set_upt atLeastLessThan_iff by simp
  then have "find (\<lambda>j. ?name j \<notin> set ?ids) [0..<?k] \<noteq> None" using x(2) unfolding find_None_iff by blast
  then obtain j where j: "find (\<lambda>j. ?name j \<notin> set ?ids) [0..<?k] = Some j" by blast
  then have free: "?name j \<notin> set ?ids" by (auto simp: find_Some_iff)
  have "nextVNCTargetID s = Some (?name j, (successor ^^ Suc j) (ts_next s))"
    unfolding nextVNCTargetID_def alloc_vnc_some j by simp
  moreover have "?name j \<noteq> []" by (simp add: vnc_id_def)
  ultimately show ?thesis using free successor_closed [OF assms(1,2), of "Suc j"] by blast
qed

text \<open>C40: The loop that looks for an unused VNC identifier ends: with as many attempts as there are targets and one more it has
  found one, whatever the stored targets and wherever the counter stands, even across the wrap-around of the counter.\<close>

theorem nextVNCTargetID_returns:
  assumes "1 \<le> ts_next s" "ts_next s \<le> max_uint64" "length (ts_targets s) \<le> 256"
  shows "\<exists>i n. nextVNCTargetID s = Some (i, n) \<and> i \<notin> set (map vt_id (ts_targets s)) \<and> i \<noteq> [] \<and> 1 \<le> n \<and> n \<le> max_uint64"
  using assms by (rule vnc_identifier)

theorem nextVNCTargetID_returns_witness:
  "\<exists>i n. nextVNCTargetID \<lparr>ts_next = max_uint64, ts_targets =
       [\<lparr>vt_id = vnc_id max_uint64, vt_name = ''a'', vt_host = ''h'', vt_port = 1, vt_username = [], vt_timeout = 1\<rparr>]\<rparr> = Some (i, n)
     \<and> i \<noteq> vnc_id max_uint64 \<and> i \<noteq> []"
  using nextVNCTargetID_returns [of "\<lparr>ts_next = max_uint64, ts_targets =
       [\<lparr>vt_id = vnc_id max_uint64, vt_name = ''a'', vt_host = ''h'', vt_port = 1, vt_username = [], vt_timeout = 1\<rparr>]\<rparr>"]
  by (auto simp: max_uint64_def)

subsection \<open>Saving and deleting\<close>

fun replace_first :: "('a \<Rightarrow> string) \<Rightarrow> 'a \<Rightarrow> 'a list \<Rightarrow> 'a list" where
  "replace_first key t [] = []"
| "replace_first key t (x # xs) = (if key x = key t then t # xs else x # replace_first key t xs)"

fun remove_first :: "('a \<Rightarrow> string) \<Rightarrow> string \<Rightarrow> 'a list \<Rightarrow> 'a list" where
  "remove_first key i [] = []"
| "remove_first key i (x # xs) = (if key x = i then xs else x # remove_first key i xs)"

definition invalid_request :: rpc_failure where
  "invalid_request = fail ''invalid_argument'' ''invalid request''"

text \<open>The host stores the value, or refuses and keeps the old one.\<close>

definition write_store :: "refusal \<Rightarrow> 'a \<Rightarrow> 'b target_store \<Rightarrow> 'b target_store stored \<Rightarrow> (rpc_failure, 'a) result \<times> 'b target_store stored" where
  "write_store refused answer s v =
     (case refused of Some e \<Rightarrow> (Inl (hostError e), v) | None \<Rightarrow> (Inr answer, Readable s))"

definition place_rdp :: "rdp_target \<Rightarrow> rdp_target target_store \<Rightarrow> (rpc_failure, rdp_target \<times> rdp_target target_store) result" where
  "place_rdp t s =
     (if rt_id t = [] then
        (if ts_next s = max_uint64 then Inl (fail ''resource_limit'' ''RDP target ID sequence is exhausted'')
         else (case alloc_rdp (map rt_id (ts_targets s)) (ts_next s) of
             None \<Rightarrow> Inl (fail ''resource_limit'' ''RDP target ID sequence is exhausted'')
           | Some (i, n) \<Rightarrow> Inr (t\<lparr>rt_id := i\<rparr>, s\<lparr>ts_next := n, ts_targets := ts_targets s @ [t\<lparr>rt_id := i\<rparr>]\<rparr>)))
      else if rt_id t \<in> rt_id ` set (ts_targets s) then Inr (t, s\<lparr>ts_targets := replace_first rt_id t (ts_targets s)\<rparr>)
      else Inl (fail ''not_found'' ''unknown RDP target''))"

definition saveTarget ::
  "rdp_target option \<Rightarrow> refusal \<Rightarrow> refusal \<Rightarrow> rdp_target target_store stored
     \<Rightarrow> (rpc_failure, rdp_target) result \<times> rdp_target target_store stored" where
  "saveTarget req got put v =
     (case req of
        None \<Rightarrow> (Inl invalid_request, v)
      | Some t0 \<Rightarrow>
          (let name = trim_space (rt_name t0) in
           if name = [] \<or> 100 < length name then
             (Inl (fail ''invalid_argument'' ''target name must contain 1 to 100 characters''), v)
           else (case normalizeOptions (rt_options t0) of
               Inl e \<Rightarrow> (Inl e, v)
             | Inr r \<Rightarrow>
                 (case readTargets got v of
                    Inl e \<Rightarrow> (Inl e, v)
                  | Inr s \<Rightarrow>
                      (case place_rdp (t0\<lparr>rt_name := name, rt_options := r\<rparr>) s of
                         Inl e \<Rightarrow> (Inl e, v)
                       | Inr (t, s') \<Rightarrow>
                           if 256 < length (ts_targets s') then (Inl (fail ''resource_limit'' ''RDP target limit reached''), v)
                           else write_store put t s' v)))))"

definition place_vnc :: "vnc_target \<Rightarrow> vnc_target target_store \<Rightarrow> (rpc_failure, vnc_target \<times> vnc_target target_store) result" where
  "place_vnc t s =
     (if vt_id t = [] then
        (if maxVNCTargets \<le> length (ts_targets s) then Inl (fail ''resource_limit'' ''VNC target limit reached'')
         else (case nextVNCTargetID s of
             None \<Rightarrow> Inl (fail ''failed'' ''no identifier'')
           | Some (i, n) \<Rightarrow> Inr (t\<lparr>vt_id := i\<rparr>, s\<lparr>ts_next := n, ts_targets := ts_targets s @ [t\<lparr>vt_id := i\<rparr>]\<rparr>)))
      else if vt_id t \<in> vt_id ` set (ts_targets s) then Inr (t, s\<lparr>ts_targets := replace_first vt_id t (ts_targets s)\<rparr>)
      else Inl (fail ''not_found'' ''unknown VNC target''))"

definition saveVNCTarget ::
  "vnc_target option \<Rightarrow> refusal \<Rightarrow> refusal \<Rightarrow> vnc_target target_store stored
     \<Rightarrow> (rpc_failure, vnc_target) result \<times> vnc_target target_store stored" where
  "saveVNCTarget req got put v =
     (case req of
        None \<Rightarrow> (Inl invalid_request, v)
      | Some t0 \<Rightarrow>
          (case normalizeVNCTarget t0 of
             Inl e \<Rightarrow> (Inl e, v)
           | Inr t1 \<Rightarrow>
               (case readVNCTargets got v of
                  Inl e \<Rightarrow> (Inl e, v)
                | Inr s \<Rightarrow>
                    (case place_vnc t1 s of Inl e \<Rightarrow> (Inl e, v) | Inr (t, s') \<Rightarrow> write_store put t s' v))))"

text \<open>Deletion, once no session of the target is active.\<close>

definition delete_stored ::
  "string \<Rightarrow> ('a \<Rightarrow> string) \<Rightarrow> string \<Rightarrow> (rpc_failure, 'a target_store) result \<Rightarrow> refusal \<Rightarrow> 'a target_store stored
     \<Rightarrow> (rpc_failure, unit) result \<times> 'a target_store stored" where
  "delete_stored kind key i r put v =
     (case r of
        Inl e \<Rightarrow> (Inl e, v)
      | Inr s \<Rightarrow>
          if i \<in> key ` set (ts_targets s) then write_store put () (s\<lparr>ts_targets := remove_first key i (ts_targets s)\<rparr>) v
          else (Inl (fail ''not_found'' (''unknown '' @ kind @ '' target'')), v))"

definition find_target :: "('a \<Rightarrow> string) \<Rightarrow> string \<Rightarrow> 'a target_store \<Rightarrow> 'a option" where
  "find_target key i s = find (\<lambda>t. key t = i) (ts_targets s)"

subsection \<open>What holds of a store\<close>

text \<open>A kind of target: normalising keeps the identifier, which is not empty, and is done once.\<close>

locale target_kind =
  fixes key :: "'a \<Rightarrow> string"
    and norm :: "'a \<Rightarrow> 'a option"
  assumes norm_key: "norm t = Some t' \<Longrightarrow> key t' = key t"
    and norm_idem: "norm t = Some t' \<Longrightarrow> norm t' = Some t'"
begin

lemma load_targets_ok:
  "load_targets key norm seen ts = Some ts' \<Longrightarrow>
     map key ts' = map key ts \<and> distinct (map key ts') \<and> set (map key ts') \<inter> set seen = {} \<and> (\<forall>t\<in>set ts'. norm t = Some t)"
proof (induction ts arbitrary: seen ts')
  case (Cons t ts)
  then obtain t1 ts1 where t1: "norm t = Some t1" "key t \<notin> set seen"
    and ts1: "load_targets key norm (key t # seen) ts = Some ts1" and ts': "ts' = t1 # ts1"
    by (auto split: option.splits if_splits)
  have keys: "map key ts1 = map key ts" using Cons.IH [OF ts1] by blast
  then have "key ` set ts1 = key ` set ts" by (metis list.set_map)
  with Cons.IH [OF ts1] norm_key [OF t1(1)] norm_idem [OF t1(1)] t1(2) show ?case
    by (auto simp: ts' keys)
qed simp

lemma load_targets_fixed:
  "distinct (map key ts) \<Longrightarrow> set (map key ts) \<inter> set seen = {} \<Longrightarrow> \<forall>t\<in>set ts. norm t = Some t
    \<Longrightarrow> load_targets key norm seen ts = Some ts"
  by (induction ts arbitrary: seen) auto

end

definition store_ok :: "('a \<Rightarrow> string) \<Rightarrow> ('a \<Rightarrow> 'a option) \<Rightarrow> 'a target_store \<Rightarrow> bool" where
  "store_ok key norm s =
     (distinct (map key (ts_targets s)) \<and> length (ts_targets s) \<le> 256 \<and> list_all (\<lambda>t. norm t = Some t) (ts_targets s)
      \<and> 1 \<le> ts_next s \<and> ts_next s \<le> max_uint64)"

context target_kind begin

lemma replace_first_keys: "map key (replace_first key t ts) = map key ts"
  by (induction ts) auto

lemma set_replace_first: "set (replace_first key t ts) \<subseteq> insert t (set ts)"
  by (induction ts) auto

lemma length_replace_first: "length (replace_first key t ts) = length ts"
  by (induction ts) auto

lemma set_remove_first: "set (remove_first key i ts) \<subseteq> set ts"
  by (induction ts) auto

lemma distinct_remove_first: "distinct (map key ts) \<Longrightarrow> distinct (map key (remove_first key i ts))"
  by (induction ts) (use set_remove_first in fastforce)+

lemma length_remove_first: "length (remove_first key i ts) \<le> length ts"
  by (induction ts) auto

lemma keys_remove_first: "distinct (map key ts) \<Longrightarrow> key ` set (remove_first key i ts) = key ` set ts - {i}"
  by (induction ts) (auto simp: image_iff)

lemma store_ok_replace:
  "store_ok key norm s \<Longrightarrow> norm t = Some t \<Longrightarrow> store_ok key norm (s\<lparr>ts_targets := replace_first key t (ts_targets s)\<rparr>)"
  using set_replace_first [of t "ts_targets s"]
  by (auto simp: store_ok_def replace_first_keys length_replace_first list_all_iff)

lemma store_ok_remove: "store_ok key norm s \<Longrightarrow> store_ok key norm (s\<lparr>ts_targets := remove_first key i (ts_targets s)\<rparr>)"
  using set_remove_first [of i "ts_targets s"] length_remove_first [of i "ts_targets s"]
  by (auto simp: store_ok_def list_all_iff distinct_remove_first)

lemma store_ok_append:
  "store_ok key norm s \<Longrightarrow> norm t = Some t \<Longrightarrow> key t \<notin> set (map key (ts_targets s)) \<Longrightarrow> length (ts_targets s) < 256
    \<Longrightarrow> 1 \<le> n \<Longrightarrow> n \<le> max_uint64 \<Longrightarrow> store_ok key norm (s\<lparr>ts_next := n, ts_targets := ts_targets s @ [t]\<rparr>)"
  by (auto simp: store_ok_def)

end

subsection \<open>The two kinds\<close>

interpretation rdp_targets: target_kind rt_id rdp_norm
proof unfold_locales
  fix t t' assume t: "rdp_norm t = Some t'"
  then show "rt_id t' = rt_id t" by (auto simp: rdp_norm_def Let_def split: if_splits sum.splits)
  from t show "rdp_norm t' = Some t'"
    by (auto simp: rdp_norm_def Let_def dest: normalize_options_typed split: if_splits sum.splits)
qed

interpretation vnc_targets: target_kind vt_id vnc_norm
proof unfold_locales
  fix t t' assume t: "vnc_norm t = Some t'"
  then have n: "normalizeVNCTarget t = Inr t'" and i: "vt_id t \<noteq> []" "\<not> 100 < length (vt_id t)"
    by (auto simp: vnc_norm_def split: if_splits sum.splits)
  from normalizeVNCTarget_typed [OF n] show "vt_id t' = vt_id t" by simp
  from normalizeVNCTarget_typed [OF n] vnc_typed_normal [of t'] i show "vnc_norm t' = Some t'" by (simp add: vnc_norm_def)
qed

text \<open>The counter of a stored value is a \<^verbatim>\<open>uint64\<close>.\<close>

definition counted :: "'a target_store stored \<Rightarrow> bool" where
  "counted v = (case v of Readable s \<Rightarrow> ts_next s \<le> max_uint64 | _ \<Rightarrow> True)"

definition stored_ids :: "('a \<Rightarrow> string) \<Rightarrow> 'a target_store stored \<Rightarrow> string set" where
  "stored_ids key v = (case v of Readable s \<Rightarrow> key ` set (ts_targets s) | _ \<Rightarrow> {})"

context target_kind begin

lemma read_store_ok: "read_store kind key norm got v = Inr s \<Longrightarrow> counted v \<Longrightarrow> store_ok key norm s"
  by (auto simp: read_store_def store_ok_def counted_def max_uint64_def list_all_iff dest!: load_targets_ok dest: map_eq_imp_length_eq
      split: stored.splits option.splits if_splits)

lemma read_store_ids: "read_store kind key norm got v = Inr s \<Longrightarrow> key ` set (ts_targets s) = stored_ids key v"
  by (auto simp: read_store_def stored_ids_def dest!: load_targets_ok split: stored.splits option.splits if_splits)
    (metis image_eqI list.set_map)+

lemma read_store_written: "store_ok key norm s \<Longrightarrow> read_store kind key norm None (Readable s) = Inr s"
  by (cases s) (simp add: read_store_def store_ok_def load_targets_fixed list_all_iff)

lemma read_store_same: "read_store kind key norm got v = Inr s \<Longrightarrow> read_store kind key norm None v = Inr s"
  by (simp add: read_store_def split: option.splits)

lemma find_replace:
  "distinct (map key ts) \<Longrightarrow> key t \<in> key ` set ts \<Longrightarrow>
    find (\<lambda>x. key x = j) (replace_first key t ts) = (if j = key t then Some t else find (\<lambda>x. key x = j) ts)"
  by (induction ts) auto

lemma find_append:
  "key t \<notin> set (map key ts) \<Longrightarrow>
    find (\<lambda>x. key x = j) (ts @ [t]) = (if j = key t then Some t else find (\<lambda>x. key x = j) ts)"
  by (induction ts) auto

lemma find_absent: "i \<notin> key ` set ts \<Longrightarrow> find (\<lambda>x. key x = i) ts = None"
  by (auto simp: find_None_iff)

lemma ids_append: "key ` set (ts @ [t]) = insert (key t) (key ` set ts)"
  by auto

lemma ids_replace: "key ` set (replace_first key t ts) = key ` set ts"
  by (metis list.set_map replace_first_keys)

end

text \<open>A target \<open>t\<close> has been put into a store, under the identifier \<open>old\<close> or, if that is empty, a new one.\<close>

definition placed :: "('a \<Rightarrow> string) \<Rightarrow> ('a \<Rightarrow> 'a option) \<Rightarrow> string \<Rightarrow> 'a \<Rightarrow> 'a target_store \<Rightarrow> 'a target_store \<Rightarrow> bool" where
  "placed key norm old t s s' =
     (store_ok key norm s' \<and> find_target key (key t) s' = Some t \<and> key t \<noteq> []
      \<and> (\<forall>j. j \<noteq> key t \<longrightarrow> find_target key j s' = find_target key j s)
      \<and> key ` set (ts_targets s') = insert (key t) (key ` set (ts_targets s))
      \<and> (if old = [] then key t \<notin> key ` set (ts_targets s) else key t = old))"

lemma place_rdp_ok:
  assumes s: "store_ok rt_id rdp_norm s" and t0: "rdp_norm (t0\<lparr>rt_id := ''x''\<rparr>) = Some (t0\<lparr>rt_id := ''x''\<rparr>)"
    and place: "place_rdp t0 s = Inr (t, s')" and small: "length (ts_targets s') \<le> 256"
  shows "placed rt_id rdp_norm (rt_id t0) t s s'"
proof (cases "rt_id t0 = []")
  case True
  with place obtain i n where i: "alloc_rdp (map rt_id (ts_targets s)) (ts_next s) = Some (i, n)"
    and t: "t = t0\<lparr>rt_id := i\<rparr>" and s': "s' = s\<lparr>ts_next := n, ts_targets := ts_targets s @ [t]\<rparr>"
    by (auto simp: place_rdp_def split: if_splits option.splits)
  have fresh: "i \<notin> set (map rt_id (ts_targets s))" "ts_next s < n" "i \<noteq> []" using alloc_rdp_fresh [OF i] by auto
  have n: "n \<le> max_uint64" using alloc_rdp_bound [OF i] place True s by (auto simp: place_rdp_def store_ok_def split: if_splits)
  have "rdp_norm t = Some t" using t0 fresh(3)
    by (cases t0) (auto simp: t rdp_norm_def Let_def split: if_splits sum.splits)
  then have "store_ok rt_id rdp_norm s'"
    unfolding s' using s fresh n small
    by (intro rdp_targets.store_ok_append) (auto simp: t s' store_ok_def)
  with fresh True show ?thesis
    by (auto simp: placed_def s' t find_target_def rdp_targets.find_append rdp_targets.ids_append)
next
  case False
  with place have t: "t = t0" "rt_id t \<in> rt_id ` set (ts_targets s)"
    and s': "s' = s\<lparr>ts_targets := replace_first rt_id t (ts_targets s)\<rparr>"
    by (auto simp: place_rdp_def split: if_splits)
  have d: "distinct (map rt_id (ts_targets s))" using s by (simp add: store_ok_def)
  have "rdp_norm t = Some t" using t0 False
    by (cases t0) (auto simp: t rdp_norm_def Let_def split: if_splits sum.splits)
  then have "store_ok rt_id rdp_norm s'" unfolding s' by (intro rdp_targets.store_ok_replace [OF s])
  with False t d show ?thesis
    by (auto simp: placed_def s' find_target_def rdp_targets.find_replace rdp_targets.ids_replace)
qed

lemma place_vnc_ok:
  assumes s: "store_ok vt_id vnc_norm s" and t0: "vnc_typed t0" "length (vt_id t0) \<le> 100"
    and place: "place_vnc t0 s = Inr (t, s')" and short: "length (vt_id t) \<le> 100"
  shows "placed vt_id vnc_norm (vt_id t0) t s s'"
proof (cases "vt_id t0 = []")
  case True
  with place obtain i n where i: "nextVNCTargetID s = Some (i, n)" and room: "length (ts_targets s) < 256"
    and t: "t = t0\<lparr>vt_id := i\<rparr>" and s': "s' = s\<lparr>ts_next := n, ts_targets := ts_targets s @ [t]\<rparr>"
    by (auto simp: place_vnc_def maxVNCTargets_def split: if_splits option.splits)
  have fresh: "i \<notin> set (map vt_id (ts_targets s))" "i \<noteq> []" "1 \<le> n" "n \<le> max_uint64"
    using vnc_identifier [of s] s i by (auto simp: store_ok_def)
  have "vnc_typed t" using t0 by (simp add: t vnc_typed_def)
  then have norm: "vnc_norm t = Some t" using fresh(2) short by (auto simp: vnc_norm_def vnc_typed_normal t)
  then have "store_ok vt_id vnc_norm s'"
    unfolding s' using s fresh room by (intro vnc_targets.store_ok_append) (auto simp: t)
  with fresh True show ?thesis
    by (auto simp: placed_def s' t find_target_def vnc_targets.find_append vnc_targets.ids_append)
next
  case False
  with place have t: "t = t0" "vt_id t \<in> vt_id ` set (ts_targets s)"
    and s': "s' = s\<lparr>ts_targets := replace_first vt_id t (ts_targets s)\<rparr>"
    by (auto simp: place_vnc_def split: if_splits)
  have d: "distinct (map vt_id (ts_targets s))" using s by (simp add: store_ok_def)
  have "vnc_norm t = Some t" using t0 False short by (auto simp: t vnc_norm_def vnc_typed_normal)
  then have "store_ok vt_id vnc_norm s'" unfolding s' by (intro vnc_targets.store_ok_replace [OF s])
  with False t d show ?thesis
    by (auto simp: placed_def s' find_target_def vnc_targets.find_replace vnc_targets.ids_replace)
qed

lemma write_store_Inr: "write_store put a s v = (Inr b, v') \<longleftrightarrow> put = None \<and> b = a \<and> v' = Readable s"
  by (auto simp: write_store_def split: option.splits)

lemma write_store_Inl: "write_store put a s v = (Inl e, v') \<Longrightarrow> v' = v"
  by (auto simp: write_store_def split: option.splits)

lemma saveTarget_placed:
  assumes save: "saveTarget (Some t0) got put v = (Inr t, v')" and v: "counted v"
  shows "\<exists>s s'. readTargets got v = Inr s \<and> v' = Readable s' \<and> placed rt_id rdp_norm (rt_id t0) t s s'"
proof -
  let ?name = "trim_space (rt_name t0)"
  from save obtain r s s' where name: "?name \<noteq> []" "\<not> 100 < length ?name" and r: "normalizeOptions (rt_options t0) = Inr r"
    and s: "readTargets got v = Inr s" and place: "place_rdp (t0\<lparr>rt_name := ?name, rt_options := r\<rparr>) s = Inr (t, s')"
    and small: "\<not> 256 < length (ts_targets s')" and w: "write_store put t s' v = (Inr t, v')"
    by (auto simp: saveTarget_def Let_def write_store_Inr split: if_splits sum.splits)
  have ok: "store_ok rt_id rdp_norm s" using s v rdp_targets.read_store_ok unfolding readTargets_def by blast
  have "rdp_norm (t0\<lparr>rt_name := ?name, rt_options := r, rt_id := ''x''\<rparr>) = Some (t0\<lparr>rt_name := ?name, rt_options := r, rt_id := ''x''\<rparr>)"
    using name normalize_options_typed [OF r] by (simp add: rdp_norm_def Let_def)
  from place_rdp_ok [OF ok this place] small s w show ?thesis by (simp add: write_store_Inr)
qed

lemma saveTarget_error: "saveTarget req got put v = (Inl e, v') \<Longrightarrow> v' = v"
  by (auto simp: saveTarget_def Let_def split: option.splits if_splits sum.splits dest: write_store_Inl)

lemma saveVNCTarget_error: "saveVNCTarget req got put v = (Inl e, v') \<Longrightarrow> v' = v"
  by (auto simp: saveVNCTarget_def split: option.splits sum.splits dest: write_store_Inl)

text \<open>A target that is saved is found again under its identifier, by the next read of the store; every other target is found as
  before.  A new target gets an identifier that none had; one that is saved under an identifier keeps it.\<close>

theorem saved_target_found:
  assumes "saveTarget (Some t0) got put v = (Inr t, v')" "counted v"
  shows "\<exists>s s'. readTargets got v = Inr s \<and> readTargets None v' = Inr s' \<and> find_target rt_id (rt_id t) s' = Some t
    \<and> (\<forall>j. j \<noteq> rt_id t \<longrightarrow> find_target rt_id j s' = find_target rt_id j s)
    \<and> (if rt_id t0 = [] then find_target rt_id (rt_id t) s = None else rt_id t = rt_id t0)"
proof -
  obtain s s' where s: "readTargets got v = Inr s" "v' = Readable s'" and p: "placed rt_id rdp_norm (rt_id t0) t s s'"
    using saveTarget_placed [OF assms] by blast
  have "readTargets None v' = Inr s'"
    using p unfolding s(2) readTargets_def by (simp add: placed_def rdp_targets.read_store_written)
  then show ?thesis using s(1) p
    by (auto simp: placed_def find_target_def rdp_targets.find_absent)
qed

definition sample_target :: "string \<Rightarrow> rdp_target" where
  "sample_target i = \<lparr>rt_id = i, rt_name = '' office '', rt_options = bare_options ''srv''\<rparr>"

theorem saved_target_found_witness:
  "\<exists>t v' s'. saveTarget (Some (sample_target [])) None None Absent = (Inr t, v')
     \<and> readTargets None v' = Inr s' \<and> find_target rt_id (rt_id t) s' = Some t"
proof -
  have "trim_space '' office '' = ''office''" "is_ok (normalizeOptions (bare_options ''srv''))" by code_simp+
  then have "is_ok (fst (saveTarget (Some (sample_target [])) None None Absent))"
    by (auto simp: is_ok_iff saveTarget_def sample_target_def readTargets_def read_store_def place_rdp_def max_uint64_def
        alloc_rdp.simps write_store_def)
  then obtain t v' where t: "saveTarget (Some (sample_target [])) None None Absent = (Inr t, v')"
    by (metis is_ok_iff prod.collapse)
  from saved_target_found [OF this] t show ?thesis by (auto simp: counted_def)
qed

end
