(* ===== verification/RemotePlugin.thy ===== *)
theory RemotePlugin
  imports RemoteStore
begin

section \<open>The remote desktop plugin\<close>

text \<open>
  Models the state and the handlers of \<^verbatim>\<open>plugins/remote/backend/plugin.go\<close> and \<^verbatim>\<open>vnc.go\<close>: sessions over streams of the
  host, their diagnostics, and the requests.  The plugin runs one call at a time; a call is one event.  What the host answers to the
  calls of one event is its environment.  A session is kept under the identifier of its stream.
\<close>

definition maxRDPClients :: nat where "maxRDPClients = 8"
definition maxVNCClients :: nat where "maxVNCClients = 8"
definition maxDiagnostics :: nat where "maxDiagnostics = 100"
definition maxDiagnosticScopes :: nat where "maxDiagnosticScopes = 32"

record rdp_session =
  si_target :: string
  si_name :: string
  si_diagnostic :: string
  si_connection :: string
  si_state :: string

record vnc_session =
  vs_target :: string
  vs_name :: string
  vs_state :: string

text \<open>\<open>rp_asked\<close> records the streams asked of the host; the three stores are the plugin's storage at the host.\<close>

record remote_plugin =
  rp_rdp :: "rdp_target target_store stored"
  rp_vnc :: "vnc_target target_store stored"
  rp_settings :: "guacd_settings stored"
  rp_sessions :: "rdp_session table"
  rp_vnc_sessions :: "vnc_session table"
  rp_diagnostics :: "string list table"
  rp_diagnostic_ids :: "string list"
  rp_session_diagnostics :: "string table"
  rp_next_diagnostic :: nat
  rp_asked :: "stream_call list"

text \<open>The plugin starts anew over what is stored.\<close>

definition newPlugin :: "remote_plugin \<Rightarrow> remote_plugin" where
  "newPlugin p =
     p\<lparr>rp_sessions := [], rp_vnc_sessions := [], rp_diagnostics := [], rp_diagnostic_ids := [],
       rp_session_diagnostics := [], rp_next_diagnostic := 1\<rparr>"

subsection \<open>Diagnostics\<close>

definition validDiagnosticID :: "string \<Rightarrow> bool" where
  "validDiagnosticID v =
     (v \<noteq> [] \<and> length v \<le> 96 \<and> list_all (\<lambda>c. is_alnum c \<or> c = CHR ''-'' \<or> c = CHR ''_'') v)"

definition newDiagnosticID :: "remote_plugin \<Rightarrow> string \<times> remote_plugin" where
  "newDiagnosticID p =
     (rdp_id (rp_next_diagnostic p),
      p\<lparr>rp_next_diagnostic := (if rp_next_diagnostic p = max_uint64 then 1 else rp_next_diagnostic p + 1)\<rparr>)"

text \<open>The scopes beyond the limit are dropped, the oldest first.\<close>

fun trim_scopes :: "string list \<Rightarrow> remote_plugin \<Rightarrow> remote_plugin" where
  "trim_scopes [] p = p\<lparr>rp_diagnostic_ids := []\<rparr>"
| "trim_scopes (oldest # ids) p =
     (if length ids < maxDiagnosticScopes then p\<lparr>rp_diagnostic_ids := oldest # ids\<rparr>
      else trim_scopes ids
        (p\<lparr>rp_diagnostics := AList.delete oldest (rp_diagnostics p),
           rp_session_diagnostics := keep_if (\<lambda>_ d. d \<noteq> oldest) (rp_session_diagnostics p)\<rparr>))"

definition scope_lines :: "string \<Rightarrow> remote_plugin \<Rightarrow> string list" where
  "scope_lines i p = (case map_of (rp_diagnostics p) i of None \<Rightarrow> [] | Some ls \<Rightarrow> ls)"

definition addDiagnostic :: "string \<Rightarrow> string \<Rightarrow> remote_plugin \<Rightarrow> remote_plugin" where
  "addDiagnostic i s p =
     (if \<not> validDiagnosticID i \<or> s = [] \<or> 256 < length s \<or> \<not> valid_utf8 s \<or> contains_any s [CHR 0x0D, CHR 0x0A] then p
      else (let ids = (if map_of (rp_diagnostics p) i = None then rp_diagnostic_ids p @ [i] else rp_diagnostic_ids p);
                lines = scope_lines i p @ [s];
                kept = (if maxDiagnostics < length lines then drop (length lines - maxDiagnostics) lines else lines)
            in trim_scopes ids (p\<lparr>rp_diagnostics := AList.update i kept (rp_diagnostics p)\<rparr>)))"

record diagnostics_report =
  dr_id :: string
  dr_log :: string
  dr_session :: "(string \<times> rdp_session) option"

definition getDiagnostics :: "(string \<times> string) option \<Rightarrow> remote_plugin \<Rightarrow> (rpc_failure, diagnostics_report) result" where
  "getDiagnostics req p =
     (case req of
        None \<Rightarrow> Inl invalid_request
      | Some (i, d0) \<Rightarrow>
          bind_result
            (if i = [] then Inr d0
             else (case map_of (rp_sessions p) i of
                 Some s \<Rightarrow> Inr (si_diagnostic s)
               | None \<Rightarrow>
                   (case map_of (rp_session_diagnostics p) i of
                      Some d \<Rightarrow> if d = [] then Inl (fail ''not_found'' ''unknown RDP session'') else Inr d
                    | None \<Rightarrow> Inl (fail ''not_found'' ''unknown RDP session''))))
            (\<lambda>d. if \<not> validDiagnosticID d then Inl (fail ''invalid_argument'' ''diagnosticId is required'')
                 else (case map_of (rp_diagnostics p) d of
                     None \<Rightarrow> Inl (fail ''not_found'' ''unknown RDP diagnostics'')
                   | Some lines \<Rightarrow>
                       Inr \<lparr>dr_id = d, dr_log = join_with [CHR 0x0A] lines,
                            dr_session = find (\<lambda>(_, s). si_diagnostic s = d) (rp_sessions p)\<rparr>)))"

subsection \<open>Settings\<close>

record remote_env =
  en_get_settings :: refusal
  en_get_targets :: refusal
  en_put :: refusal
  en_open :: stream_reply
  en_replies :: "stream_reply list"
  en_close :: refusal

definition readSettings :: "refusal \<Rightarrow> guacd_settings stored \<Rightarrow> (rpc_failure, guacd_settings) result" where
  "readSettings refused v =
     (case refused of
        Some e \<Rightarrow> Inl (hostError e)
      | None \<Rightarrow>
          (case v of
             Absent \<Rightarrow> Inr defaultSettings
           | Unreadable \<Rightarrow> Inl (invalid_configuration ''stored guacd settings are unreadable'')
           | Readable s \<Rightarrow>
               if gs_version s \<noteq> 1 then Inl (invalid_configuration ''stored guacd settings are unreadable'')
               else if validateSettings s \<noteq> None then Inl (invalid_configuration ''stored guacd settings are invalid'')
               else Inr s))"

definition ask_stream :: "stream_call \<Rightarrow> remote_plugin \<Rightarrow> remote_plugin" where
  "ask_stream c p = p\<lparr>rp_asked := rp_asked p @ [c]\<rparr>"

text \<open>The request decodes to the settings it names over the default ones.\<close>

definition setSettings :: "remote_env \<Rightarrow> guacd_settings option \<Rightarrow> remote_plugin \<Rightarrow> (rpc_failure, guacd_settings) result \<times> remote_plugin" where
  "setSettings env req p =
     (case readSettings (en_get_settings env) (rp_settings p) of
        Inl e \<Rightarrow> (Inl e, p)
      | Inr _ \<Rightarrow>
          (case req of
             None \<Rightarrow> (Inl invalid_request, p)
           | Some s0 \<Rightarrow>
               (let s = s0\<lparr>gs_version := 1\<rparr> in
                case validateSettings s of
                  Some e \<Rightarrow> (Inl e, p)
                | None \<Rightarrow>
                    (case en_put env of
                       Some e \<Rightarrow> (Inl (hostError e), p)
                     | None \<Rightarrow> (Inr s, p\<lparr>rp_settings := Readable s\<rparr>)))))"

definition testSettings :: "remote_env \<Rightarrow> guacd_settings option \<Rightarrow> remote_plugin \<Rightarrow> (rpc_failure, unit) result \<times> remote_plugin" where
  "testSettings env req p =
     (case req of
        None \<Rightarrow> (Inl invalid_request, p)
      | Some s0 \<Rightarrow>
          (let s = s0\<lparr>gs_version := 1\<rparr> in
           case validateSettings s of
             Some e \<Rightarrow> (Inl e, p)
           | None \<Rightarrow>
               (let p = ask_stream (streamOpenParams s) p in
                case en_open env of
                  Refused e \<Rightarrow> (Inl (hostError e), p)
                | Opened i \<Rightarrow>
                    if i = [] then (Inl (fail ''failed'' ''could not test guacd connection''), p)
                    else (case en_close env of Some e \<Rightarrow> (Inl (hostError e), p) | None \<Rightarrow> (Inr (), p))
                | _ \<Rightarrow> (Inl (fail ''failed'' ''could not test guacd connection''), p))))"

subsection \<open>RDP sessions\<close>

record open_request =
  oq_target :: string
  oq_diagnostic :: string
  oq_credentials :: credentials
  oq_client :: client_info

text \<open>The stream is open: the handshake, and the session or the end of the stream.\<close>

definition open_negotiated ::
  "remote_env \<Rightarrow> string \<Rightarrow> rdp_target \<Rightarrow> rdp_options \<Rightarrow> credentials \<Rightarrow> client_info \<Rightarrow> string \<Rightarrow> remote_plugin
     \<Rightarrow> (rpc_failure, string) result \<times> remote_plugin" where
  "open_negotiated env d t r who client sid p =
     (let p = addDiagnostic d ''guacd stream connected'' p;
          (answer, io) = negotiate sid r who client \<lparr>io_replies = en_replies env, io_calls = [], io_stages = []\<rparr>;
          p = fold (addDiagnostic d) (io_stages io) p
      in case answer of
           Inl e \<Rightarrow> (Inl e, addDiagnostic d (''Guacamole negotiation failed ('' @ fst e @ '')'') p)
         | Inr cid \<Rightarrow>
             (Inr sid,
              addDiagnostic d ''RDP session ready''
                (p\<lparr>rp_session_diagnostics := AList.update sid d (rp_session_diagnostics p),
                   rp_sessions := AList.update sid
                     \<lparr>si_target = rt_id t, si_name = rt_name t, si_diagnostic = d, si_connection = cid, si_state = ''ready''\<rparr>
                     (rp_sessions p)\<rparr>)))"

definition identity_of :: "rdp_options \<Rightarrow> credentials \<Rightarrow> credentials" where
  "identity_of r who =
     who\<lparr>cr_username := (if cr_username who = [] then ro_username r else cr_username who),
         cr_domain := (if cr_domain who = [] then ro_domain r else cr_domain who)\<rparr>"

text \<open>The target is known: its options, the credentials, the settings, the stream.\<close>

definition open_target ::
  "remote_env \<Rightarrow> string \<Rightarrow> rdp_target \<Rightarrow> credentials \<Rightarrow> client_info \<Rightarrow> remote_plugin
     \<Rightarrow> (rpc_failure, string) result \<times> remote_plugin" where
  "open_target env d t who client p =
     (let p = addDiagnostic d ''target loaded'' p in
      case normalizeOptions (rt_options t) of
        Inl _ \<Rightarrow> (Inl (invalid_configuration ''stored RDP target is invalid''),
                   addDiagnostic d ''target validation failed (invalid_configuration)'' p)
      | Inr r \<Rightarrow>
          (let p = addDiagnostic d (''target endpoint '' @ ro_host r @ '':'' @ itoa (ro_port r) @ ''; security '' @ ro_security r
                     @ ''; password '' @ (if cr_password who = [] then ''omitted'' else ''supplied'')) p;
               identity = identity_of r who
           in if (ro_security r = ''nla'' \<or> ro_security r = ''nla-ext'') \<and> cr_password identity = [] then
                (Inl (fail ''failed_precondition'' ''this RDP security mode requires a password''),
                 addDiagnostic d ''session validation failed (failed_precondition)'' p)
              else (let p = addDiagnostic d ''opening guacd stream'' p in
                case readSettings (en_get_settings env) (rp_settings p) of
                  Inl e \<Rightarrow> (Inl e, addDiagnostic d (''guacd settings unavailable ('' @ fst e @ '')'') p)
                | Inr g \<Rightarrow>
                    (let p = ask_stream (streamOpenParams g)
                               (addDiagnostic d (''guacd endpoint '' @ gs_host g @ '':'' @ itoa (gs_port g) @ ''; ''
                                  @ (if gs_tls g then ''TLS enabled'' else ''TLS disabled'')) p);
                         none = (Inl (fail ''failed'' ''could not open guacd stream''),
                                 addDiagnostic d ''guacd stream open returned no id'' p)
                     in case en_open env of
                          Refused e \<Rightarrow> (Inl (hostError e), addDiagnostic d (''guacd stream open failed ('' @ fst (hostError e) @ '')'') p)
                        | Opened sid \<Rightarrow> if sid = [] then none else open_negotiated env d t r identity client sid p
                        | _ \<Rightarrow> none))))"

definition open_session :: "remote_env \<Rightarrow> open_request option \<Rightarrow> remote_plugin \<Rightarrow> (rpc_failure, string) result \<times> remote_plugin" where
  "open_session env req p =
     (case req of
        None \<Rightarrow> (Inl invalid_request, p)
      | Some q \<Rightarrow>
          if maxRDPClients \<le> length (rp_sessions p) then (Inl (fail ''resource_limit'' ''RDP session limit reached''), p)
          else if oq_target q = [] then (Inl (fail ''invalid_argument'' ''targetId is required''), p)
          else (let (d, p) = (if oq_diagnostic q = [] then newDiagnosticID p else (oq_diagnostic q, p)) in
            if \<not> validDiagnosticID d then (Inl (fail ''invalid_argument'' ''diagnosticId is invalid''), p)
            else (let p = addDiagnostic d ''RDP session open requested'' p in
              case readTargets (en_get_targets env) (rp_rdp p) of
                Inl e \<Rightarrow> (Inl e, p)
              | Inr s \<Rightarrow>
                  (case find_target rt_id (oq_target q) s of
                     None \<Rightarrow> (Inl (fail ''not_found'' ''unknown RDP target''), addDiagnostic d ''target lookup failed (not_found)'' p)
                   | Some t \<Rightarrow> open_target env d t (oq_credentials q) (oq_client q) p))))"

definition status :: "string option \<Rightarrow> remote_plugin \<Rightarrow> (rpc_failure, rdp_session) result" where
  "status req p =
     (case req of
        None \<Rightarrow> Inl (fail ''invalid_argument'' ''session id is required'')
      | Some i \<Rightarrow>
          if i = [] then Inl (fail ''invalid_argument'' ''session id is required'')
          else (case map_of (rp_sessions p) i of None \<Rightarrow> Inl (fail ''not_found'' ''unknown RDP session'') | Some s \<Rightarrow> Inr s))"

text \<open>A stream that the host no longer knows is closed already.\<close>

definition close_session :: "remote_env \<Rightarrow> string option \<Rightarrow> remote_plugin \<Rightarrow> (rpc_failure, unit) result \<times> remote_plugin" where
  "close_session env req p =
     (case req of
        None \<Rightarrow> (Inl (fail ''invalid_argument'' ''session id is required''), p)
      | Some i \<Rightarrow>
          if i = [] then (Inl (fail ''invalid_argument'' ''session id is required''), p)
          else (case map_of (rp_sessions p) i of
              None \<Rightarrow> (Inr (), p)
            | Some s \<Rightarrow>
                (let gone = (let p = addDiagnostic (si_diagnostic s) ''session closed'' p
                             in (Inr (), p\<lparr>rp_sessions := AList.delete i (rp_sessions p)\<rparr>))
                 in case en_close env of
                      None \<Rightarrow> gone
                    | Some e \<Rightarrow>
                        (case e of
                           Some (code, m) \<Rightarrow> if code = ''not_found'' then gone else (Inl (hostError e), p)
                         | None \<Rightarrow> (Inl (hostError e), p)))))"

definition deleteTarget :: "remote_env \<Rightarrow> string option \<Rightarrow> remote_plugin \<Rightarrow> (rpc_failure, unit) result \<times> remote_plugin" where
  "deleteTarget env req p =
     (case req of
        None \<Rightarrow> (Inl (fail ''invalid_argument'' ''target id is required''), p)
      | Some i \<Rightarrow>
          if i = [] then (Inl (fail ''invalid_argument'' ''target id is required''), p)
          else if list_ex (\<lambda>(_, s). si_target s = i) (rp_sessions p) then
            (Inl (fail ''failed_precondition'' ''target has an active session''), p)
          else (let (r, v) = delete_stored ''RDP'' rt_id i (readTargets (en_get_targets env) (rp_rdp p)) (en_put env) (rp_rdp p)
                in (r, p\<lparr>rp_rdp := v\<rparr>)))"

subsection \<open>VNC sessions\<close>

definition vnc_open :: "remote_env \<Rightarrow> string option \<Rightarrow> remote_plugin \<Rightarrow> (rpc_failure, string) result \<times> remote_plugin" where
  "vnc_open env req p =
     (case req of
        None \<Rightarrow> (Inl (fail ''invalid_argument'' ''targetId is required''), p)
      | Some i \<Rightarrow>
          if i = [] then (Inl (fail ''invalid_argument'' ''targetId is required''), p)
          else if maxVNCClients \<le> length (rp_vnc_sessions p) then (Inl (fail ''resource_limit'' ''VNC session limit reached''), p)
          else (case readVNCTargets (en_get_targets env) (rp_vnc p) of
              Inl e \<Rightarrow> (Inl e, p)
            | Inr s \<Rightarrow>
                (case find_target vt_id i s of
                   None \<Rightarrow> (Inl (fail ''not_found'' ''unknown VNC target''), p)
                 | Some t \<Rightarrow>
                     (let p = ask_stream (Stream_Open (vt_host t) (vt_port t) False (vt_timeout t)) p;
                          none = (Inl (fail ''failed'' ''could not open VNC stream''), p)
                      in case en_open env of
                           Refused e \<Rightarrow> (Inl (hostError e), p)
                         | Opened sid \<Rightarrow>
                             if sid = [] then none
                             else (Inr sid, p\<lparr>rp_vnc_sessions := AList.update sid
                                     \<lparr>vs_target = vt_id t, vs_name = vt_name t, vs_state = ''connected''\<rparr> (rp_vnc_sessions p)\<rparr>)
                         | _ \<Rightarrow> none))))"

definition vnc_close :: "remote_env \<Rightarrow> string option \<Rightarrow> remote_plugin \<Rightarrow> (rpc_failure, unit) result \<times> remote_plugin" where
  "vnc_close env req p =
     (case req of
        None \<Rightarrow> (Inl (fail ''invalid_argument'' ''session id is required''), p)
      | Some i \<Rightarrow>
          if i = [] then (Inl (fail ''invalid_argument'' ''session id is required''), p)
          else if map_of (rp_vnc_sessions p) i = None then (Inr (), p)
          else (case en_close env of
              Some e \<Rightarrow> (Inl (hostError e), p)
            | None \<Rightarrow> (Inr (), p\<lparr>rp_vnc_sessions := AList.delete i (rp_vnc_sessions p)\<rparr>)))"

definition vnc_delete :: "remote_env \<Rightarrow> string option \<Rightarrow> remote_plugin \<Rightarrow> (rpc_failure, unit) result \<times> remote_plugin" where
  "vnc_delete env req p =
     (case req of
        None \<Rightarrow> (Inl (fail ''invalid_argument'' ''target id is required''), p)
      | Some i \<Rightarrow>
          if i = [] then (Inl (fail ''invalid_argument'' ''target id is required''), p)
          else if list_ex (\<lambda>(_, s). vs_target s = i) (rp_vnc_sessions p) then
            (Inl (fail ''failed_precondition'' ''target has an active session''), p)
          else (let (r, v) = delete_stored ''VNC'' vt_id i (readVNCTargets (en_get_targets env) (rp_vnc p)) (en_put env) (rp_vnc p)
                in (r, p\<lparr>rp_vnc := v\<rparr>)))"

definition vnc_status :: "string option \<Rightarrow> remote_plugin \<Rightarrow> (rpc_failure, vnc_session) result" where
  "vnc_status req p =
     (case req of
        None \<Rightarrow> Inl (fail ''invalid_argument'' ''session id is required'')
      | Some i \<Rightarrow>
          if i = [] then Inl (fail ''invalid_argument'' ''session id is required'')
          else (case map_of (rp_vnc_sessions p) i of None \<Rightarrow> Inl (fail ''not_found'' ''unknown VNC session'') | Some s \<Rightarrow> Inr s))"

subsection \<open>Requests and events\<close>

datatype remote_call =
    Settings_Get
  | Settings_Set "guacd_settings option"
  | Settings_Test "guacd_settings option"
  | Targets_List
  | Targets_Get "string option"
  | Targets_Save "rdp_target option"
  | Targets_Delete "string option"
  | Session_Open "open_request option"
  | Session_Status "string option"
  | Session_Diagnostics "(string \<times> string) option"
  | Session_Close "string option"
  | VNC_List
  | VNC_Get "string option"
  | VNC_Save "vnc_target option"
  | VNC_Delete "string option"
  | VNC_Open "string option"
  | VNC_Status "string option"
  | VNC_Close "string option"
  | Unknown_Call string

datatype remote_answer =
    A_Settings guacd_settings
  | A_Available
  | A_Ok
  | A_Targets "rdp_target list"
  | A_Target rdp_target
  | A_Opened string
  | A_Session rdp_session
  | A_Diagnostics diagnostics_report
  | A_VNC_Targets "vnc_target list"
  | A_VNC_Target vnc_target
  | A_VNC_Session vnc_session

definition answer_with :: "('a \<Rightarrow> remote_answer) \<Rightarrow> (rpc_failure, 'a) result \<Rightarrow> (rpc_failure, remote_answer) result" where
  "answer_with f r = bind_result r (\<lambda>x. Inr (f x))"

definition reply :: "('a \<Rightarrow> remote_answer) \<Rightarrow> (rpc_failure, 'a) result \<times> remote_plugin \<Rightarrow> (rpc_failure, remote_answer) result \<times> remote_plugin" where
  "reply f rp = (answer_with f (fst rp), snd rp)"

text \<open>One target of a store, by its identifier.\<close>

definition get_stored :: "string \<Rightarrow> ('a \<Rightarrow> string) \<Rightarrow> string option \<Rightarrow> (rpc_failure, 'a target_store) result \<Rightarrow> (rpc_failure, 'a) result" where
  "get_stored kind key req r =
     (case req of
        None \<Rightarrow> Inl (fail ''invalid_argument'' ''target id is required'')
      | Some i \<Rightarrow>
          if i = [] then Inl (fail ''invalid_argument'' ''target id is required'')
          else bind_result r (\<lambda>s. case find_target key i s of
              None \<Rightarrow> Inl (fail ''not_found'' (''unknown '' @ kind @ '' target'')) | Some t \<Rightarrow> Inr t))"

fun handle :: "remote_env \<Rightarrow> remote_call \<Rightarrow> remote_plugin \<Rightarrow> (rpc_failure, remote_answer) result \<times> remote_plugin" where
  "handle env Settings_Get p = (answer_with A_Settings (readSettings (en_get_settings env) (rp_settings p)), p)"
| "handle env (Settings_Set q) p = reply A_Settings (setSettings env q p)"
| "handle env (Settings_Test q) p = reply (\<lambda>_. A_Available) (testSettings env q p)"
| "handle env Targets_List p = (answer_with (\<lambda>s. A_Targets (ts_targets s)) (readTargets (en_get_targets env) (rp_rdp p)), p)"
| "handle env (Targets_Get q) p = (answer_with A_Target (get_stored ''RDP'' rt_id q (readTargets (en_get_targets env) (rp_rdp p))), p)"
| "handle env (Targets_Save q) p =
     (let (r, v) = saveTarget q (en_get_targets env) (en_put env) (rp_rdp p) in (answer_with A_Target r, p\<lparr>rp_rdp := v\<rparr>))"
| "handle env (Targets_Delete q) p = reply (\<lambda>_. A_Ok) (deleteTarget env q p)"
| "handle env (Session_Open q) p = reply A_Opened (open_session env q p)"
| "handle env (Session_Status q) p = (answer_with A_Session (status q p), p)"
| "handle env (Session_Diagnostics q) p = (answer_with A_Diagnostics (getDiagnostics q p), p)"
| "handle env (Session_Close q) p = reply (\<lambda>_. A_Ok) (close_session env q p)"
| "handle env VNC_List p = (answer_with (\<lambda>s. A_VNC_Targets (ts_targets s)) (readVNCTargets (en_get_targets env) (rp_vnc p)), p)"
| "handle env (VNC_Get q) p = (answer_with A_VNC_Target (get_stored ''VNC'' vt_id q (readVNCTargets (en_get_targets env) (rp_vnc p))), p)"
| "handle env (VNC_Save q) p =
     (let (r, v) = saveVNCTarget q (en_get_targets env) (en_put env) (rp_vnc p) in (answer_with A_VNC_Target r, p\<lparr>rp_vnc := v\<rparr>))"
| "handle env (VNC_Delete q) p = reply (\<lambda>_. A_Ok) (vnc_delete env q p)"
| "handle env (VNC_Open q) p = reply A_Opened (vnc_open env q p)"
| "handle env (VNC_Status q) p = (answer_with A_VNC_Session (vnc_status q p), p)"
| "handle env (VNC_Close q) p = reply (\<lambda>_. A_Ok) (vnc_close env q p)"
| "handle env (Unknown_Call m) p =
     (Inl (fail ''unknown_method'' (if prefix ''vnc.'' m then ''unknown VNC method'' else ''unknown RDP method'')), p)"

text \<open>\<open>event\<close>: the host tells that a stream is closed.\<close>

definition stream_closed :: "string option \<Rightarrow> remote_plugin \<Rightarrow> rpc_failure option \<times> remote_plugin" where
  "stream_closed req p =
     (case req of
        None \<Rightarrow> (Some (fail ''invalid_argument'' ''invalid network stream event''), p)
      | Some i \<Rightarrow>
          if i = [] then (Some (fail ''invalid_argument'' ''invalid network stream event''), p)
          else (let p = (case map_of (rp_sessions p) i of
                           None \<Rightarrow> p
                         | Some s \<Rightarrow> (addDiagnostic (si_diagnostic s) ''network stream closed'' p)
                             \<lparr>rp_sessions := AList.delete i (rp_sessions p)\<rparr>)
                in (None, p\<lparr>rp_vnc_sessions := AList.delete i (rp_vnc_sessions p)\<rparr>)))"

text \<open>The sessions and the diagnostics end with the plugin; what is stored stays.\<close>

definition shutdown :: "remote_plugin \<Rightarrow> remote_plugin" where
  "shutdown p =
     p\<lparr>rp_vnc_sessions := [], rp_sessions := [], rp_diagnostics := [], rp_diagnostic_ids := [], rp_session_diagnostics := []\<rparr>"

datatype remote_event =
    Remote_Call remote_env remote_call
  | Remote_Closed "string option"
  | Remote_Shutdown
  | Remote_Start

fun remote_step :: "remote_event \<Rightarrow> remote_plugin \<Rightarrow> remote_plugin" where
  "remote_step (Remote_Call env c) p = snd (handle env c p)"
| "remote_step (Remote_Closed q) p = snd (stream_closed q p)"
| "remote_step Remote_Shutdown p = shutdown p"
| "remote_step Remote_Start p = newPlugin p"

subsection \<open>The invariant\<close>

definition diagnostics_ok :: "remote_plugin \<Rightarrow> bool" where
  "diagnostics_ok p =
     (distinct (rp_diagnostic_ids p) \<and> length (rp_diagnostic_ids p) \<le> maxDiagnosticScopes
      \<and> fst ` set (rp_diagnostics p) = set (rp_diagnostic_ids p) \<and> keys_distinct (rp_diagnostics p)
      \<and> list_all (\<lambda>(_, ls). length ls \<le> maxDiagnostics) (rp_diagnostics p))"

definition sessions_ok :: "remote_plugin \<Rightarrow> bool" where
  "sessions_ok p =
     (length (rp_sessions p) \<le> maxRDPClients \<and> length (rp_vnc_sessions p) \<le> maxVNCClients
      \<and> list_all (\<lambda>(_, s). si_target s \<in> stored_ids rt_id (rp_rdp p)) (rp_sessions p)
      \<and> list_all (\<lambda>(_, s). vs_target s \<in> stored_ids vt_id (rp_vnc p)) (rp_vnc_sessions p)
      \<and> counted (rp_rdp p) \<and> counted (rp_vnc p))"

text \<open>A stream request that the host's stream manager accepts as well-formed.\<close>

definition request_ok :: "stream_call \<Rightarrow> bool" where
  "request_ok c = (case network_request c of None \<Rightarrow> False | Some r \<Rightarrow> valid_open r \<and> no_server_name r = [])"

definition remote_ok :: "remote_plugin \<Rightarrow> bool" where
  "remote_ok p = (diagnostics_ok p \<and> sessions_ok p \<and> list_all request_ok (rp_asked p))"

text \<open>Diagnostics touch nothing else.\<close>

lemma trim_scopes_fields [simp]:
  "rp_rdp (trim_scopes ids p) = rp_rdp p" "rp_vnc (trim_scopes ids p) = rp_vnc p" "rp_settings (trim_scopes ids p) = rp_settings p"
  "rp_sessions (trim_scopes ids p) = rp_sessions p" "rp_vnc_sessions (trim_scopes ids p) = rp_vnc_sessions p"
  "rp_asked (trim_scopes ids p) = rp_asked p"
  by (induction ids p rule: trim_scopes.induct) simp_all

lemma addDiagnostic_fields [simp]:
  "rp_rdp (addDiagnostic i s p) = rp_rdp p" "rp_vnc (addDiagnostic i s p) = rp_vnc p"
  "rp_settings (addDiagnostic i s p) = rp_settings p" "rp_sessions (addDiagnostic i s p) = rp_sessions p"
  "rp_vnc_sessions (addDiagnostic i s p) = rp_vnc_sessions p" "rp_asked (addDiagnostic i s p) = rp_asked p"
  by (simp_all add: addDiagnostic_def Let_def)

lemma trim_scopes_ok:
  "distinct ids \<Longrightarrow> fst ` set (rp_diagnostics p) = set ids \<Longrightarrow> keys_distinct (rp_diagnostics p)
    \<Longrightarrow> list_all (\<lambda>(_, ls). length ls \<le> maxDiagnostics) (rp_diagnostics p) \<Longrightarrow> diagnostics_ok (trim_scopes ids p)"
proof (induction ids p rule: trim_scopes.induct)
  case (2 oldest ids p)
  show ?case
  proof (cases "length ids < maxDiagnosticScopes")
    case True
    with 2 show ?thesis by (simp add: diagnostics_ok_def)
  next
    case False
    have "fst ` set (AList.delete oldest (rp_diagnostics p)) = set ids"
      using 2(2,3) by (auto simp: delete_keys set_delete image_iff)
    moreover have "list_all (\<lambda>(_, ls). length ls \<le> maxDiagnostics) (AList.delete oldest (rp_diagnostics p))"
      using 2(5) by (auto simp: list_all_iff set_delete)
    ultimately show ?thesis using 2 False by simp
  qed
qed (simp add: diagnostics_ok_def)

lemma addDiagnostic_ok: "diagnostics_ok p \<Longrightarrow> diagnostics_ok (addDiagnostic i s p)"
proof -
  assume p: "diagnostics_ok p"
  define lines where "lines = scope_lines i p @ [s]"
  define kept where "kept = (if maxDiagnostics < length lines then drop (length lines - maxDiagnostics) lines else lines)"
  define ids where "ids = (if map_of (rp_diagnostics p) i = None then rp_diagnostic_ids p @ [i] else rp_diagnostic_ids p)"
  have "length kept \<le> maxDiagnostics" by (simp add: kept_def)
  then have "diagnostics_ok (trim_scopes ids (p\<lparr>rp_diagnostics := AList.update i kept (rp_diagnostics p)\<rparr>))"
    using p
    by (intro trim_scopes_ok)
      (auto simp: ids_def diagnostics_ok_def list_all_iff dom_update map_of_eq_None_iff dest!: set_mp [OF set_update_sub])
  with p show ?thesis by (auto simp: addDiagnostic_def Let_def ids_def kept_def lines_def)
qed

lemma addDiagnostics_ok: "diagnostics_ok p \<Longrightarrow> diagnostics_ok (fold (addDiagnostic i) ss p)"
  by (induction ss arbitrary: p) (simp_all add: addDiagnostic_ok)

lemma fold_diagnostics_fields [simp]:
  "rp_rdp (fold (addDiagnostic i) ss p) = rp_rdp p" "rp_vnc (fold (addDiagnostic i) ss p) = rp_vnc p"
  "rp_settings (fold (addDiagnostic i) ss p) = rp_settings p" "rp_sessions (fold (addDiagnostic i) ss p) = rp_sessions p"
  "rp_vnc_sessions (fold (addDiagnostic i) ss p) = rp_vnc_sessions p" "rp_asked (fold (addDiagnostic i) ss p) = rp_asked p"
  by (induction ss arbitrary: p) simp_all

lemma sessions_ok_diagnostics [simp]:
  "sessions_ok (addDiagnostic i s p) = sessions_ok p" "sessions_ok (fold (addDiagnostic i) ss p) = sessions_ok p"
  by (simp_all add: sessions_ok_def)

lemma diagnostics_ok_update [simp]:
  "diagnostics_ok (p\<lparr>rp_sessions := a\<rparr>) = diagnostics_ok p" "diagnostics_ok (p\<lparr>rp_vnc_sessions := b\<rparr>) = diagnostics_ok p"
  "diagnostics_ok (p\<lparr>rp_rdp := c\<rparr>) = diagnostics_ok p" "diagnostics_ok (p\<lparr>rp_vnc := d\<rparr>) = diagnostics_ok p"
  "diagnostics_ok (p\<lparr>rp_settings := e\<rparr>) = diagnostics_ok p" "diagnostics_ok (p\<lparr>rp_asked := f\<rparr>) = diagnostics_ok p"
  "diagnostics_ok (p\<lparr>rp_session_diagnostics := g\<rparr>) = diagnostics_ok p"
  "diagnostics_ok (p\<lparr>rp_next_diagnostic := h\<rparr>) = diagnostics_ok p"
  by (simp_all add: diagnostics_ok_def)

lemma sessions_ok_update [simp]:
  "sessions_ok (p\<lparr>rp_settings := e\<rparr>) = sessions_ok p" "sessions_ok (p\<lparr>rp_asked := f\<rparr>) = sessions_ok p"
  "sessions_ok (p\<lparr>rp_session_diagnostics := g\<rparr>) = sessions_ok p" "sessions_ok (p\<lparr>rp_next_diagnostic := h\<rparr>) = sessions_ok p"
  by (simp_all add: sessions_ok_def)

lemma remote_ok_diagnostic: "remote_ok p \<Longrightarrow> remote_ok (addDiagnostic i s p)"
  by (simp add: remote_ok_def addDiagnostic_ok)

lemma remote_ok_diagnostics: "remote_ok p \<Longrightarrow> remote_ok (fold (addDiagnostic i) ss p)"
  by (simp add: remote_ok_def addDiagnostics_ok)

lemma ask_stream_fields [simp]:
  "rp_sessions (ask_stream c p) = rp_sessions p" "rp_rdp (ask_stream c p) = rp_rdp p"
  "rp_vnc_sessions (ask_stream c p) = rp_vnc_sessions p" "rp_vnc (ask_stream c p) = rp_vnc p"
  by (simp_all add: ask_stream_def)

lemma remote_ok_asked: "remote_ok p \<Longrightarrow> request_ok c \<Longrightarrow> remote_ok (ask_stream c p)"
  by (simp add: remote_ok_def ask_stream_def)

lemma remote_ok_drop:
  "remote_ok p \<Longrightarrow> remote_ok (p\<lparr>rp_sessions := AList.delete i (rp_sessions p)\<rparr>)"
  "remote_ok p \<Longrightarrow> remote_ok (p\<lparr>rp_vnc_sessions := AList.delete i (rp_vnc_sessions p)\<rparr>)"
  using length_delete_le [of i "rp_sessions p"] length_delete_le [of i "rp_vnc_sessions p"]
  by (auto simp: remote_ok_def sessions_ok_def list_all_iff set_delete)

lemma remote_ok_session:
  "remote_ok p \<Longrightarrow> length (rp_sessions p) < maxRDPClients \<Longrightarrow> si_target x \<in> stored_ids rt_id (rp_rdp p)
    \<Longrightarrow> remote_ok (p\<lparr>rp_session_diagnostics := g, rp_sessions := AList.update i x (rp_sessions p)\<rparr>)"
  using length_update_le [of i x "rp_sessions p"] set_update_sub [of i x "rp_sessions p"]
  by (fastforce simp: remote_ok_def sessions_ok_def list_all_iff split: if_splits)

lemma remote_ok_vnc_session:
  "remote_ok p \<Longrightarrow> length (rp_vnc_sessions p) < maxVNCClients \<Longrightarrow> vs_target x \<in> stored_ids vt_id (rp_vnc p)
    \<Longrightarrow> remote_ok (p\<lparr>rp_vnc_sessions := AList.update i x (rp_vnc_sessions p)\<rparr>)"
  using length_update_le [of i x "rp_vnc_sessions p"] set_update_sub [of i x "rp_vnc_sessions p"]
  by (fastforce simp: remote_ok_def sessions_ok_def list_all_iff split: if_splits)

text \<open>The streams that are asked for.\<close>

lemma settings_request_ok: "validateSettings s = None \<Longrightarrow> request_ok (streamOpenParams s)"
  using settings_request_valid [of s] by (auto simp: request_ok_def streamOpenParams_def)

lemma readSettings_valid: "readSettings e v = Inr s \<Longrightarrow> validateSettings s = None"
proof -
  have "validateSettings defaultSettings = None" by code_simp
  then show "readSettings e v = Inr s \<Longrightarrow> ?thesis"
    by (cases "e = None"; cases v) (auto simp: readSettings_def simp del: not_None_eq split: option.splits if_splits)
qed

lemma vnc_request_ok: "vnc_typed t \<Longrightarrow> request_ok (Stream_Open (vt_host t) (vt_port t) b (vt_timeout t))"
  using stream_request_valid [of "vt_host t" "vt_port t" "vt_timeout t" b] by (auto simp: vnc_typed_def request_ok_def)

lemma vnc_norm_typed: "vnc_norm t = Some t \<Longrightarrow> vnc_typed t"
  by (auto simp: vnc_norm_def dest: normalizeVNCTarget_typed split: sum.splits if_splits)

lemma found_stored:
  "readTargets e v = Inr s \<Longrightarrow> find_target rt_id i s = Some t \<Longrightarrow> rt_id t \<in> stored_ids rt_id v"
  unfolding readTargets_def find_target_def using rdp_targets.read_store_ids [of "''RDP''" e v s]
  by (force simp: find_Some_iff)

lemma found_vnc:
  "readVNCTargets e v = Inr s \<Longrightarrow> counted v \<Longrightarrow> find_target vt_id i s = Some t \<Longrightarrow> vt_id t \<in> stored_ids vt_id v \<and> vnc_typed t"
  unfolding readVNCTargets_def find_target_def
  using vnc_targets.read_store_ids [of "''VNC''" e v s] vnc_targets.read_store_ok [of "''VNC''" e v s]
  by (force simp: find_Some_iff store_ok_def list_all_iff dest: vnc_norm_typed)

subsection \<open>Every event keeps it\<close>

lemma remote_setSettings: "remote_ok p \<Longrightarrow> remote_ok (snd (setSettings env q p))"
  by (auto simp: setSettings_def remote_ok_def Let_def split: sum.split option.split)

lemma remote_testSettings: "remote_ok p \<Longrightarrow> remote_ok (snd (testSettings env q p))"
  using remote_ok_asked [OF _ settings_request_ok]
  by (auto simp: testSettings_def Let_def split: option.split stream_reply.split)

lemma remote_negotiated:
  "remote_ok p \<Longrightarrow> length (rp_sessions p) < maxRDPClients \<Longrightarrow> rt_id t \<in> stored_ids rt_id (rp_rdp p)
    \<Longrightarrow> remote_ok (snd (open_negotiated env d t r who client sid p))"
proof -
  assume p: "remote_ok p" "length (rp_sessions p) < maxRDPClients" "rt_id t \<in> stored_ids rt_id (rp_rdp p)"
  obtain a io where n: "negotiate sid r who client \<lparr>io_replies = en_replies env, io_calls = [], io_stages = []\<rparr> = (a, io)" by fastforce
  define q where "q = fold (addDiagnostic d) (io_stages io) (addDiagnostic d ''guacd stream connected'' p)"
  have q: "remote_ok q" "rp_sessions q = rp_sessions p" "rp_rdp q = rp_rdp p"
    using p(1) by (simp_all add: q_def remote_ok_diagnostic remote_ok_diagnostics)
  show ?thesis
  proof (cases a)
    case (Inl e)
    then show ?thesis using q(1) by (simp add: open_negotiated_def n q_def [symmetric] Let_def remote_ok_diagnostic)
  next
    case (Inr cid)
    have "remote_ok (q\<lparr>rp_session_diagnostics := AList.update sid d (rp_session_diagnostics q), rp_sessions := AList.update sid
        \<lparr>si_target = rt_id t, si_name = rt_name t, si_diagnostic = d, si_connection = cid, si_state = ''ready''\<rparr> (rp_sessions p)\<rparr>)"
      using remote_ok_session [of q] q p by simp
    then show ?thesis by (simp add: open_negotiated_def n q_def [symmetric] Let_def Inr remote_ok_diagnostic)
  qed
qed

lemma remote_open_target:
  "remote_ok p \<Longrightarrow> length (rp_sessions p) < maxRDPClients \<Longrightarrow> rt_id t \<in> stored_ids rt_id (rp_rdp p)
    \<Longrightarrow> remote_ok (snd (open_target env d t who client p))"
  by (auto simp: open_target_def Let_def
      intro!: remote_ok_diagnostic remote_ok_asked settings_request_ok remote_negotiated
      dest: readSettings_valid split: sum.split stream_reply.split)

lemma remote_open_session: "remote_ok p \<Longrightarrow> remote_ok (snd (open_session env q p))"
proof -
  assume p: "remote_ok p"
  have opened: "remote_ok (snd (open_target env d t who client (addDiagnostic d m p')))"
    if "remote_ok p'" "rp_sessions p' = rp_sessions p" "\<not> maxRDPClients \<le> length (rp_sessions p)" "rp_rdp p' = rp_rdp p"
      "readTargets e (rp_rdp p) = Inr s" "find_target rt_id i s = Some t" for d t who client m p' e s i
    using that by (intro remote_open_target remote_ok_diagnostic) (auto dest: found_stored)
  have fresh: "remote_ok (snd (newDiagnosticID p))" "rp_sessions (snd (newDiagnosticID p)) = rp_sessions p"
    "rp_rdp (snd (newDiagnosticID p)) = rp_rdp p"
    using p by (simp_all add: newDiagnosticID_def remote_ok_def)
  obtain d1 p1 where n: "newDiagnosticID p = (d1, p1)" by fastforce
  show ?thesis
    using p fresh opened [of p] opened [of p1]
    by (auto simp: open_session_def n Let_def intro!: remote_ok_diagnostic split: option.split sum.split)
qed

lemma remote_close_session: "remote_ok p \<Longrightarrow> remote_ok (snd (close_session env q p))"
proof -
  assume p: "remote_ok p"
  have gone: "remote_ok (addDiagnostic d m p\<lparr>rp_sessions := AList.delete i (rp_sessions p)\<rparr>)" for d m i
    using remote_ok_drop(1) [OF remote_ok_diagnostic [OF p], of i d m] by simp
  show ?thesis using p gone by (auto simp: close_session_def Let_def split: option.split)
qed

lemma remote_stream_closed: "remote_ok p \<Longrightarrow> remote_ok (snd (stream_closed q p))"
proof -
  assume p: "remote_ok p"
  have gone: "remote_ok (addDiagnostic d m p\<lparr>rp_sessions := AList.delete i (rp_sessions p)\<rparr>)" for d m i
    using remote_ok_drop(1) [OF remote_ok_diagnostic [OF p], of i d m] by simp
  show ?thesis using p remote_ok_drop(2) [OF p] remote_ok_drop(2) [OF gone]
    by (auto simp: stream_closed_def Let_def split: option.split)
qed

text \<open>Storage: a save adds identifiers, a delete removes one that no session uses.\<close>

lemma remote_ok_rdp_store:
  "remote_ok p \<Longrightarrow> counted v \<Longrightarrow> \<forall>x \<in> set (rp_sessions p). si_target (snd x) \<in> stored_ids rt_id v \<Longrightarrow> remote_ok (p\<lparr>rp_rdp := v\<rparr>)"
  by (auto simp: remote_ok_def sessions_ok_def list_all_iff)

lemma remote_ok_vnc_store:
  "remote_ok p \<Longrightarrow> counted v \<Longrightarrow> \<forall>x \<in> set (rp_vnc_sessions p). vs_target (snd x) \<in> stored_ids vt_id v \<Longrightarrow> remote_ok (p\<lparr>rp_vnc := v\<rparr>)"
  by (auto simp: remote_ok_def sessions_ok_def list_all_iff)

lemma remote_ok_targets:
  "remote_ok p \<Longrightarrow> counted (rp_rdp p) \<and> (\<forall>x \<in> set (rp_sessions p). si_target (snd x) \<in> stored_ids rt_id (rp_rdp p))"
  "remote_ok p \<Longrightarrow> counted (rp_vnc p) \<and> (\<forall>x \<in> set (rp_vnc_sessions p). vs_target (snd x) \<in> stored_ids vt_id (rp_vnc p))"
  by (auto simp: remote_ok_def sessions_ok_def list_all_iff)

lemma counted_ok: "store_ok key norm s \<Longrightarrow> counted (Readable s)"
  by (simp add: store_ok_def counted_def)

lemma saved_ids:
  assumes "saveTarget q got put v = (r, v')" "counted v"
  shows "counted v' \<and> stored_ids rt_id v \<subseteq> stored_ids rt_id v'"
proof (cases r)
  case (Inl e)
  with assms show ?thesis using saveTarget_error by blast
next
  case (Inr t)
  with assms(1) obtain t0 where q: "q = Some t0" by (cases q) (simp_all add: saveTarget_def)
  from saveTarget_placed [OF assms(1) [unfolded q Inr] assms(2)] obtain s s' where s: "readTargets got v = Inr s"
    and v': "v' = Readable s'" and p: "placed rt_id rdp_norm (rt_id t0) t s s'" by blast
  have "rt_id ` set (ts_targets s) = stored_ids rt_id v"
    using s rdp_targets.read_store_ids unfolding readTargets_def by blast
  with p show ?thesis by (auto simp: v' placed_def stored_ids_def dest: counted_ok)
qed

lemma vnc_place_counted:
  assumes "place_vnc t0 s = Inr (t, s')" "store_ok vt_id vnc_norm s"
  shows "counted (Readable s') \<and> vt_id ` set (ts_targets s) \<subseteq> vt_id ` set (ts_targets s')"
proof (cases "vt_id t0 = []")
  case True
  with assms(1) obtain i n where i: "nextVNCTargetID s = Some (i, n)"
    and s': "s' = s\<lparr>ts_next := n, ts_targets := ts_targets s @ [t]\<rparr>"
    by (auto simp: place_vnc_def split: if_splits option.splits)
  have "n \<le> max_uint64" using vnc_identifier [of s] assms(2) i by (auto simp: store_ok_def)
  with s' show ?thesis by (auto simp: counted_def)
next
  case False
  with assms have "s' = s\<lparr>ts_targets := replace_first vt_id t (ts_targets s)\<rparr>"
    by (auto simp: place_vnc_def split: if_splits)
  with assms(2) show ?thesis by (simp add: counted_def store_ok_def vnc_targets.ids_replace)
qed

lemma saved_vnc_ids:
  assumes "saveVNCTarget q got put v = (r, v')" "counted v"
  shows "counted v' \<and> stored_ids vt_id v \<subseteq> stored_ids vt_id v'"
proof (cases r)
  case (Inl e)
  with assms show ?thesis using saveVNCTarget_error by blast
next
  case (Inr t)
  with assms(1) obtain t1 s s' where s: "readVNCTargets got v = Inr s" and place: "place_vnc t1 s = Inr (t, s')"
    and v': "v' = Readable s'"
    by (auto simp: saveVNCTarget_def write_store_Inr split: option.splits sum.splits)
  have ids: "vt_id ` set (ts_targets s) = stored_ids vt_id v" and ok: "store_ok vt_id vnc_norm s"
    using s assms(2) vnc_targets.read_store_ids vnc_targets.read_store_ok unfolding readVNCTargets_def by blast+
  from vnc_place_counted [OF place ok] ids show ?thesis by (simp add: v' stored_ids_def)
qed

context target_kind begin

lemma deleted_ids:
  assumes "delete_stored kind' key i (read_store kind key norm got v) put v = (r, v')" "counted v"
  shows "counted v' \<and> stored_ids key v - {i} \<subseteq> stored_ids key v'"
proof (cases "\<exists>s. read_store kind key norm got v = Inr s \<and> i \<in> key ` set (ts_targets s) \<and> put = None")
  case True
  then obtain s where s: "read_store kind key norm got v = Inr s" "i \<in> key ` set (ts_targets s)" "put = None" by blast
  have ok: "store_ok key norm s" using read_store_ok [OF s(1) assms(2)] .
  have v': "v' = Readable (s\<lparr>ts_targets := remove_first key i (ts_targets s)\<rparr>)"
    using assms(1) s by (auto simp: delete_stored_def write_store_def)
  have "key ` set (remove_first key i (ts_targets s)) = key ` set (ts_targets s) - {i}"
    using ok by (intro keys_remove_first) (simp add: store_ok_def)
  with v' read_store_ids [OF s(1)] ok show ?thesis by (simp add: stored_ids_def counted_def store_ok_def)
next
  case False
  then have "v' = v" using assms(1)
    by (auto simp: delete_stored_def write_store_def split: sum.splits if_splits option.splits)
  with assms(2) show ?thesis by blast
qed

end

lemma remote_deleteTarget: "remote_ok p \<Longrightarrow> remote_ok (snd (deleteTarget env q p))"
proof -
  assume p: "remote_ok p"
  have "remote_ok (p\<lparr>rp_rdp := v\<rparr>)"
    if "delete_stored ''RDP'' rt_id i (readTargets e (rp_rdp p)) put (rp_rdp p) = (r, v)"
      "\<not> list_ex (\<lambda>(_, s). si_target s = i) (rp_sessions p)" for i e put r v
    using rdp_targets.deleted_ids [OF that(1) [unfolded readTargets_def]] remote_ok_targets(1) [OF p] that(2)
    by (intro remote_ok_rdp_store [OF p]) (fastforce simp: list_ex_iff case_prod_unfold)+
  with p show ?thesis by (auto simp: deleteTarget_def split: option.split prod.split)
qed

lemma remote_vnc_delete: "remote_ok p \<Longrightarrow> remote_ok (snd (vnc_delete env q p))"
proof -
  assume p: "remote_ok p"
  have "remote_ok (p\<lparr>rp_vnc := v\<rparr>)"
    if "delete_stored ''VNC'' vt_id i (readVNCTargets e (rp_vnc p)) put (rp_vnc p) = (r, v)"
      "\<not> list_ex (\<lambda>(_, s). vs_target s = i) (rp_vnc_sessions p)" for i e put r v
    using vnc_targets.deleted_ids [OF that(1) [unfolded readVNCTargets_def]] remote_ok_targets(2) [OF p] that(2)
    by (intro remote_ok_vnc_store [OF p]) (fastforce simp: list_ex_iff case_prod_unfold)+
  with p show ?thesis by (auto simp: vnc_delete_def split: option.split prod.split)
qed

lemma remote_vnc_open: "remote_ok p \<Longrightarrow> remote_ok (snd (vnc_open env q p))"
proof -
  assume p: "remote_ok p"
  have asked: "remote_ok (ask_stream (Stream_Open (vt_host t) (vt_port t) False (vt_timeout t)) p) \<and> vt_id t \<in> stored_ids vt_id (rp_vnc p)"
    if "readVNCTargets e (rp_vnc p) = Inr s" "find_target vt_id i s = Some t" for e s i t
    using found_vnc [OF that(1) _ that(2)] remote_ok_targets(2) [OF p] remote_ok_asked [OF p vnc_request_ok] by blast
  have "remote_ok ((ask_stream (Stream_Open (vt_host t) (vt_port t) False (vt_timeout t)) p)
      \<lparr>rp_vnc_sessions := AList.update sid x (rp_vnc_sessions p)\<rparr>)"
    if "readVNCTargets e (rp_vnc p) = Inr s" "find_target vt_id i s = Some t" "\<not> maxVNCClients \<le> length (rp_vnc_sessions p)"
      "vs_target x = vt_id t" for e s i t sid x
    using remote_ok_vnc_session [OF conjunct1 [OF asked [OF that(1,2)]], of x sid] asked [OF that(1,2)] that(3,4) by simp
  with p asked show ?thesis
    by (auto simp: vnc_open_def Let_def split: option.split sum.split stream_reply.split)
qed

lemma remote_vnc_close: "remote_ok p \<Longrightarrow> remote_ok (snd (vnc_close env q p))"
  by (auto simp: vnc_close_def remote_ok_drop split: option.split)

lemma remote_handle: "remote_ok p \<Longrightarrow> remote_ok (snd (handle env c p))"
proof (cases c)
  case (Targets_Save q)
  assume p: "remote_ok p"
  obtain r v where s: "saveTarget q (en_get_targets env) (en_put env) (rp_rdp p) = (r, v)" by fastforce
  have "remote_ok (p\<lparr>rp_rdp := v\<rparr>)"
    using saved_ids [OF s] remote_ok_targets(1) [OF p] by (intro remote_ok_rdp_store [OF p]) auto
  then show ?thesis by (simp add: Targets_Save s)
next
  case (VNC_Save q)
  assume p: "remote_ok p"
  obtain r v where s: "saveVNCTarget q (en_get_targets env) (en_put env) (rp_vnc p) = (r, v)" by fastforce
  have "remote_ok (p\<lparr>rp_vnc := v\<rparr>)"
    using saved_vnc_ids [OF s] remote_ok_targets(2) [OF p] by (intro remote_ok_vnc_store [OF p]) auto
  then show ?thesis by (simp add: VNC_Save s)
qed (simp_all add: reply_def remote_setSettings remote_testSettings remote_deleteTarget remote_open_session remote_close_session
    remote_vnc_delete remote_vnc_open remote_vnc_close)

lemma remote_ok_empty: "remote_ok p \<Longrightarrow> remote_ok (shutdown p) \<and> remote_ok (newPlugin p)"
  by (simp add: remote_ok_def shutdown_def newPlugin_def sessions_ok_def diagnostics_ok_def)

lemma remote_ok_step: "remote_ok p \<Longrightarrow> remote_ok (remote_step e p)"
  by (cases e) (simp_all add: remote_handle remote_stream_closed remote_ok_empty)

interpretation remote: machine remote_step remote_ok
  by unfold_locales (rule remote_ok_step)

subsection \<open>Properties\<close>

text \<open>The plugin has started over the values it finds in its storage.\<close>

definition started :: "rdp_target target_store stored \<Rightarrow> vnc_target target_store stored \<Rightarrow> guacd_settings stored \<Rightarrow> remote_plugin" where
  "started v w g =
     \<lparr>rp_rdp = v, rp_vnc = w, rp_settings = g, rp_sessions = [], rp_vnc_sessions = [], rp_diagnostics = [],
      rp_diagnostic_ids = [], rp_session_diagnostics = [], rp_next_diagnostic = 1, rp_asked = []\<rparr>"

lemma started_ok: "counted v \<Longrightarrow> counted w \<Longrightarrow> remote_ok (started v w g)"
  by (simp add: remote_ok_def started_def sessions_ok_def diagnostics_ok_def)

text \<open>C35: Over any sequence of requests, stream events, shutdowns and starts, whatever is stored and whatever the host answers: the
  plugin has at most eight sessions of each protocol, the target of every active session is still stored, and it keeps at most
  thirty-two scopes of diagnostics with at most a hundred lines each.\<close>

theorem remote_run_bounded:
  assumes "counted v" "counted w" "run remote_step es (started v w g) = p"
  shows "length (rp_sessions p) \<le> 8 \<and> length (rp_vnc_sessions p) \<le> 8
    \<and> (\<forall>x \<in> set (rp_sessions p). si_target (snd x) \<in> stored_ids rt_id (rp_rdp p))
    \<and> (\<forall>x \<in> set (rp_vnc_sessions p). vs_target (snd x) \<in> stored_ids vt_id (rp_vnc p))
    \<and> length (rp_diagnostics p) \<le> 32 \<and> (\<forall>x \<in> set (rp_diagnostics p). length (snd x) \<le> 100)"
proof -
  have p: "remote_ok p" using remote.run_inv [OF started_ok [OF assms(1,2)], of es g] assms(3) by simp
  then have d: "diagnostics_ok p" by (simp add: remote_ok_def)
  have "length (rp_diagnostics p) = card (fst ` set (rp_diagnostics p))"
    using d distinct_card [of "map fst (rp_diagnostics p)"] by (simp add: diagnostics_ok_def)
  also have "\<dots> \<le> 32" using d card_length [of "rp_diagnostic_ids p"] by (simp add: diagnostics_ok_def maxDiagnosticScopes_def)
  finally show ?thesis using p d remote_ok_targets [OF p]
    by (auto simp: remote_ok_def sessions_ok_def diagnostics_ok_def list_all_iff maxRDPClients_def maxVNCClients_def
        maxDiagnostics_def)
qed

text \<open>C36: The plugin and the host agree on what a stream request is: every stream that the plugin asks for, for a target or for
  the settings of guacd, passes the checks of the host's stream manager, so a refusal is never about its arguments.\<close>

theorem remote_streams_accepted:
  assumes "counted v" "counted w" "c \<in> set (rp_asked (run remote_step es (started v w g)))"
  shows "\<exists>r. network_request c = Some r
    \<and> fst (open_stream owner (Some r) dial sid now m) \<noteq> Inl (networkInvalid ''host, port and connect timeout are invalid'')
    \<and> fst (open_stream owner (Some r) dial sid now m) \<noteq> Inl (networkInvalid ''TLS server name is invalid'')"
proof -
  have "remote_ok (run remote_step es (started v w g))" by (rule remote.run_inv [OF started_ok [OF assms(1,2)]])
  then have "request_ok c" using assms(3) by (simp add: remote_ok_def list_all_iff)
  then obtain r where r: "network_request c = Some r" "valid_open r" "no_server_name r = []"
    by (auto simp: request_ok_def split: option.splits)
  then show ?thesis
    by (auto simp: open_stream_def networkInvalid_def admit_def Let_def split: dial_outcome.split option.split)
qed

definition desk :: vnc_target where
  "desk = \<lparr>vt_id = ''vnc-1'', vt_name = ''desk'', vt_host = ''10.0.0.7'', vt_port = 5900, vt_username = [], vt_timeout = 10\<rparr>"

definition calm_env :: remote_env where
  "calm_env = \<lparr>en_get_settings = None, en_get_targets = None, en_put = None, en_open = Opened ''s1'', en_replies = [], en_close = None\<rparr>"

definition desk_run :: "remote_event list" where
  "desk_run = [Remote_Call calm_env (VNC_Open (Some ''vnc-1'')), Remote_Call calm_env (VNC_Delete (Some ''vnc-1''))]"

abbreviation desk_state :: remote_plugin where
  "desk_state \<equiv> run remote_step desk_run (started Absent (Readable \<lparr>ts_next = 2, ts_targets = [desk]\<rparr>) Absent)"

lemma desk_asked: "rp_asked desk_state = [Stream_Open ''10.0.0.7'' 5900 False 10]"
  by code_simp

lemma desk_sessions: "rp_vnc_sessions desk_state = [(''s1'', \<lparr>vs_target = ''vnc-1'', vs_name = ''desk'', vs_state = ''connected''\<rparr>)]"
  by code_simp

theorem remote_run_bounded_witness:
  "\<exists>p. p = desk_state \<and> ''vnc-1'' \<in> stored_ids vt_id (rp_vnc p) \<and> length (rp_vnc_sessions p) \<le> 8"
  using remote_run_bounded [of Absent "Readable \<lparr>ts_next = 2, ts_targets = [desk]\<rparr>" desk_run Absent desk_state]
  by (simp add: desk_sessions counted_def max_uint64_def)

theorem remote_streams_accepted_witness:
  "\<exists>r. network_request (Stream_Open ''10.0.0.7'' 5900 False 10) = Some r
    \<and> fst (open_stream ''remote'' (Some r) Dialled (Some ''n1'') 0 newPluginNetworkStreamManager)
        \<noteq> Inl (networkInvalid ''host, port and connect timeout are invalid'')"
  using remote_streams_accepted [of Absent "Readable \<lparr>ts_next = 2, ts_targets = [desk]\<rparr>" "Stream_Open ''10.0.0.7'' 5900 False 10" desk_run Absent
      "''remote''" Dialled "Some ''n1''" 0 newPluginNetworkStreamManager]
  by (simp add: desk_asked counted_def max_uint64_def)

end
