(* ===== verification/AppTargets.thy ===== *)
theory AppTargets
  imports GatewayUrl Utf8
begin

section \<open>The web applications plugin: its targets\<close>

text \<open>
  Models the targets of \<^verbatim>\<open>plugins/web-apps/backend/plugin.go\<close>: what a target may be, and what a stored list of them may be.
  The custom headers are a table in the order in which the map is traversed; the answer does not depend on it, but for the message.
\<close>

record app_target =
  at_id :: string
  at_name :: string
  at_mount :: string
  at_upstream :: string
  at_base :: string
  at_header :: string
  at_header_value :: string
  at_insecure :: bool
  at_forward_host :: bool
  at_forward_scheme :: bool
  at_custom :: "string table"

record app_store =
  as_next :: nat
  as_targets :: "app_target list"

definition app_fail :: "string \<Rightarrow> string \<Rightarrow> host_failure" where
  "app_fail code m = (code, m)"

definition app_invalid :: "string \<Rightarrow> host_failure" where
  "app_invalid m = app_fail ''invalid_argument'' m"

definition app_hostError :: "host_failure option \<Rightarrow> host_failure" where
  "app_hostError e = (case e of Some f \<Rightarrow> f | None \<Rightarrow> app_fail ''failed'' ''browser host operation failed'')"

definition app_id :: "nat \<Rightarrow> string" where
  "app_id n = ''app-'' @ itoa (int n)"

definition parse_uint64 :: "string \<Rightarrow> nat option" where
  "parse_uint64 s = (if s = [] \<or> \<not> list_all is_digit s \<or> max_uint64 < digits_value s then None else Some (digits_value s))"

definition app_validID :: "string \<Rightarrow> bool" where
  "app_validID i =
     (prefix ''app-'' i
      \<and> (case parse_uint64 (trim_prefix ''app-'' i) of None \<Rightarrow> False | Some n \<Rightarrow> 0 < n \<and> i = app_id n))"

text \<open>\<^verbatim>\<open>unicode.IsControl\<close> of a rune of valid text: the two blocks of controls, one byte or two.\<close>

definition has_control_rune :: "string \<Rightarrow> bool" where
  "has_control_rune s = (has_control s \<or> list_ex (\<lambda>(c, d). c = CHR 0xC2 \<and> byte_in 0x80 0x9F d) (zip s (tl s)))"

definition validHeaderName :: "string \<Rightarrow> bool" where
  "validHeaderName name =
     (name \<noteq> [] \<and> list_all (\<lambda>c. is_alnum c \<or> c \<in> set ''!#$%&*+-.^_|~'' \<or> c = CHR 0x27 \<or> c = CHR 0x60) name)"

definition forbiddenCustomHeader :: "string \<Rightarrow> bool" where
  "forbiddenCustomHeader name =
     (prefix ''proxy-'' name \<or> prefix ''sec-websocket-'' name
      \<or> name \<in> set [''host'', ''content-length'', ''transfer-encoding'', ''connection'', ''upgrade'', ''keep-alive'', ''te'',
          ''trailer'', ''cookie'', ''set-cookie'', ''authorization'', ''proxy-authorization'', ''forwarded'', ''origin'',
          ''referer'', ''service-worker'', ''accept-encoding'', ''range'', ''if-range'', ''x-real-ip'', ''x-forwarded-host'',
          ''x-forwarded-proto'', ''x-forwarded-for'', ''x-forwarded-prefix'', ''x-script-name''])"

text \<open>The loop over the custom headers; \<open>n\<close> counts their bytes, \<open>clean\<close> are the headers so far.\<close>

fun clean_headers :: "string list \<Rightarrow> nat \<Rightarrow> string table \<Rightarrow> string table \<Rightarrow> (host_failure, string table) result" where
  "clean_headers seen n clean [] = Inr clean"
| "clean_headers seen n clean ((name, v) # hs) =
     (let lower = to_lower name in
      if \<not> validHeaderName name \<or> lower \<in> set seen \<or> forbiddenCustomHeader lower \<or> 128 < length name \<or> 1024 < length v
         \<or> contains_any v line_specials then
        Inl (app_invalid ''custom header name or value is invalid or forbidden'')
      else (let n' = n + length name + length v in
        if 8192 < n' then Inl (app_invalid ''custom headers exceed 8 KiB'')
        else clean_headers (lower # seen) n' (AList.update (canonicalKey name) v clean) hs))"

text \<open>The last part of \<open>normalizeTarget\<close>: the origin of the upstream, printed without a path.\<close>

definition upstream_origin :: "string \<Rightarrow> (host_failure, string) result" where
  "upstream_origin v =
     (case url_Parse v of
        None \<Rightarrow> Inl (app_invalid ''upstream URL must be an HTTP(S) origin without userinfo, path, query or fragment'')
      | Some u \<Rightarrow>
          if 2048 < length v \<or> \<not> is_origin u \<or> contains_any v line_specials then
            Inl (app_invalid ''upstream URL must be an HTTP(S) origin without userinfo, path, query or fragment'')
          else if port_of u \<noteq> [] \<and> (case atoi (port_of u) of None \<Rightarrow> True | Some p \<Rightarrow> p < 1 \<or> 65535 < p) then
            Inl (app_invalid ''invalid upstream port'')
          else Inr (url_String (u\<lparr>u_path := []\<rparr>)))"

definition clean_base :: "string \<Rightarrow> string" where
  "clean_base b = (let b = (if b = [] then ''/'' else b) in if b \<noteq> ''/'' then trim_suffix ''/'' b else b)"

definition app_normalizeTarget :: "app_target \<Rightarrow> (host_failure, app_target) result" where
  "app_normalizeTarget t =
     (let name = trim_space (at_name t); mount = trim_suffix ''/'' (at_mount t); base = clean_base (at_base t);
          v0 = trim_space (at_header_value t); v = (if at_header t = [] then [] else v0) in
      if name = [] \<or> 100 < length name \<or> \<not> valid_utf8 name \<or> has_control_rune name then
        Inl (app_invalid ''name must contain 1 to 100 printable bytes'')
      else if at_id t \<noteq> [] \<and> \<not> app_validID (at_id t) then Inl (app_invalid ''invalid generated target ID'')
      else if Mount mount \<noteq> None then Inl (app_invalid ''mount must be a normalized nonreserved path'')
      else if Validate base True \<noteq> None then Inl (app_invalid ''upstream base path must be normalized'')
      else if at_header t \<notin> {'''', ''X-Forwarded-Prefix'', ''X-Script-Name''} then
        Inl (app_invalid ''unsupported base path header'')
      else if at_header t \<noteq> [] \<and> (1024 < length v0 \<or> contains_any v0 line_specials) then
        Inl (app_invalid ''base path header value is invalid'')
      else if 16 < length (at_custom t) then Inl (app_invalid ''at most 16 custom headers are allowed'')
      else bind_result (clean_headers [] 0 [] (at_custom t)) (\<lambda>custom.
        bind_result (upstream_origin (at_upstream t)) (\<lambda>upstream.
          Inr (t\<lparr>at_name := name, at_mount := mount, at_upstream := upstream, at_base := base, at_header_value := v,
                 at_custom := custom\<rparr>))))"

subsection \<open>Reading the store\<close>

text \<open>The loop of \<open>readTargets\<close>: the identifiers and the mounts so far.\<close>

fun load_apps :: "string list \<Rightarrow> string list \<Rightarrow> app_target list \<Rightarrow> (host_failure, app_target list) result" where
  "load_apps seen mounts [] = Inr []"
| "load_apps seen mounts (t # ts) =
     (case app_normalizeTarget t of
        Inl e \<Rightarrow> Inl (app_fail ''invalid_configuration'' ''invalid stored target'')
      | Inr t' \<Rightarrow>
          if \<not> app_validID (at_id t) \<or> at_id t \<in> set seen then
            Inl (app_fail ''invalid_configuration'' ''invalid stored target'')
          else if list_ex (\<lambda>m. Overlap m (at_mount t)) mounts then
            Inl (app_fail ''invalid_configuration'' ''overlapping stored mounts'')
          else bind_result (load_apps (at_id t # seen) (at_mount t' # mounts) ts) (\<lambda>ts'. Inr (t' # ts')))"

definition app_readTargets :: "refusal \<Rightarrow> app_store stored \<Rightarrow> (host_failure, app_store) result" where
  "app_readTargets refused v =
     (case refused of
        Some e \<Rightarrow> Inl (app_hostError e)
      | None \<Rightarrow>
          (case v of
             Absent \<Rightarrow> Inr \<lparr>as_next = 1, as_targets = []\<rparr>
           | Unreadable \<Rightarrow> Inl (app_fail ''invalid_configuration'' ''invalid stored Web Apps targets'')
           | Readable s \<Rightarrow>
               if as_next s = 0 \<or> 256 < length (as_targets s) then
                 Inl (app_fail ''invalid_configuration'' ''invalid stored Web Apps targets'')
               else bind_result (load_apps [] [] (as_targets s)) (\<lambda>ts. Inr (s\<lparr>as_targets := ts\<rparr>))))"

text \<open>The loop that allocates an identifier; it ends at the last number.\<close>

function alloc_app :: "string list \<Rightarrow> nat \<Rightarrow> (string \<times> nat) option" where
  "alloc_app ids n =
     (if max_uint64 \<le> n then None
      else if app_id n \<in> set ids then alloc_app ids (n + 1)
      else Some (app_id n, n + 1))"
  by pat_completeness auto

termination by (relation "measure (\<lambda>(_, n). max_uint64 - n)") auto

declare alloc_app.simps [simp del]

subsection \<open>Mounts\<close>

lemma Mount_Validate: "Mount m = None \<Longrightarrow> Validate m False = None"
  by (simp add: Mount_def split: if_splits option.splits)

lemma Mount_no_slash: "Mount m = None \<Longrightarrow> \<not> suffix ''/'' m"
proof
  assume "Mount m = None" and s: "suffix ''/'' m"
  then have v: "prefix ''/'' m" "path_clean m = m" "m \<noteq> ''/''"
    using Mount_Validate [of m] by (auto simp: Validate_def split: if_splits sum.splits)
  then obtain segs where segs: "split_on (CHR ''/'') m = [] # segs" "list_all plain segs" using clean_rooted by blast
  from s obtain x where m: "m = x @ [CHR ''/'']" by (auto elim: suffixE)
  with v(3) have "x \<noteq> []" by auto
  have "split_on (CHR ''/'') m = split_on (CHR ''/'') x @ [[]]" using split_on_parts [of "CHR ''/''" x "[]"] by (simp add: m)
  with segs(1) have "segs = tl (split_on (CHR ''/'') x) @ [[]]" by (cases "split_on (CHR ''/'') x") auto
  with segs(2) show False by (simp add: plain_def)
qed

lemma Mount_trimmed: "Mount m = None \<Longrightarrow> trim_suffix ''/'' m = m"
  using Mount_no_slash by (simp add: trim_suffix_def)

lemma normalizeTarget_mount:
  "app_normalizeTarget t = Inr t' \<Longrightarrow> at_id t' = at_id t \<and> at_mount t' = trim_suffix ''/'' (at_mount t) \<and> Mount (at_mount t') = None"
  by (auto simp: app_normalizeTarget_def Let_def bind_result_def split: if_splits sum.splits)

lemma load_apps_ids: "load_apps seen ms ts = Inr ts' \<Longrightarrow> map at_id ts' = map at_id ts \<and> distinct (map at_id ts) \<and> set (map at_id ts) \<inter> set seen = {}"
proof (induction ts arbitrary: seen ms ts')
  case (Cons t ts)
  then obtain t1 ts1 where t1: "app_normalizeTarget t = Inr t1" "at_id t \<notin> set seen"
    and ts1: "load_apps (at_id t # seen) (at_mount t1 # ms) ts = Inr ts1" and ts': "ts' = t1 # ts1"
    by (auto simp: bind_result_def split: if_splits sum.splits)
  with Cons.IH [OF ts1] normalizeTarget_mount [OF t1(1)] show ?case by auto
qed simp

text \<open>The mounts that a stored list stands for.\<close>

definition stored_mounts :: "app_store stored \<Rightarrow> string table" where
  "stored_mounts v = (case v of Readable s \<Rightarrow> map (\<lambda>t. (at_id t, trim_suffix ''/'' (at_mount t))) (as_targets s) | _ \<Rightarrow> [])"

lemma load_apps_mounts:
  "load_apps seen ms ts = Inr ts' \<Longrightarrow>
     map (\<lambda>t. (at_id t, at_mount t)) ts' = map (\<lambda>t. (at_id t, trim_suffix ''/'' (at_mount t))) ts
     \<and> list_all (\<lambda>t. Mount (at_mount t) = None \<and> app_validID (at_id t)) ts'"
proof (induction ts arbitrary: seen ms ts')
  case (Cons t ts)
  then obtain t1 ts1 where t1: "app_normalizeTarget t = Inr t1" "app_validID (at_id t)"
    and ts1: "load_apps (at_id t # seen) (at_mount t1 # ms) ts = Inr ts1" and ts': "ts' = t1 # ts1"
    by (auto simp: bind_result_def split: if_splits sum.splits)
  with Cons.IH [OF ts1] normalizeTarget_mount [OF t1(1)] show ?case by auto
qed simp

lemma readTargets_ok:
  assumes "app_readTargets got v = Inr s"
  shows "map (\<lambda>t. (at_id t, at_mount t)) (as_targets s) = stored_mounts v" "distinct (map at_id (as_targets s))"
    "list_all (\<lambda>t. Mount (at_mount t) = None \<and> app_validID (at_id t)) (as_targets s)"
proof -
  from assms have "got = None" by (simp add: app_readTargets_def split: option.splits)
  with assms consider "v = Absent" "as_targets s = []"
    | s0 where "v = Readable s0" "load_apps [] [] (as_targets s0) = Inr (as_targets s)"
    by (auto simp: app_readTargets_def bind_result_def split: stored.splits if_splits sum.splits)
  then have "map (\<lambda>t. (at_id t, at_mount t)) (as_targets s) = stored_mounts v \<and> distinct (map at_id (as_targets s))
    \<and> list_all (\<lambda>t. Mount (at_mount t) = None \<and> app_validID (at_id t)) (as_targets s)"
  proof cases
    case 2
    from load_apps_ids [OF 2(2)] load_apps_mounts [OF 2(2)] show ?thesis by (simp add: stored_mounts_def 2(1))
  qed (simp add: stored_mounts_def)
  then show "map (\<lambda>t. (at_id t, at_mount t)) (as_targets s) = stored_mounts v" "distinct (map at_id (as_targets s))"
    "list_all (\<lambda>t. Mount (at_mount t) = None \<and> app_validID (at_id t)) (as_targets s)" by blast+
qed

lemma stored_mounts_written:
  "list_all (\<lambda>t. Mount (at_mount t) = None) (as_targets s) \<Longrightarrow>
     stored_mounts (Readable s) = map (\<lambda>t. (at_id t, at_mount t)) (as_targets s)"
  by (auto simp: stored_mounts_def list_all_iff Mount_trimmed)

lemma alloc_app_fresh: "alloc_app ids n = Some (i, n') \<Longrightarrow> i \<notin> set ids \<and> n < n' \<and> n' \<le> max_uint64 \<and> (\<exists>k. n \<le> k \<and> i = app_id k)"
proof (induction ids n rule: alloc_app.induct)
  case (1 ids n)
  show ?case
  proof (cases "app_id n \<in> set ids")
    case True
    with 1(2) have m: "\<not> max_uint64 \<le> n" "alloc_app ids (n + 1) = Some (i, n')"
      by (auto simp: alloc_app.simps [of ids n] split: if_splits)
    from 1(1) [OF m(1) True m(2)] obtain k where "i \<notin> set ids" "n < n'" "n' \<le> max_uint64" "n + 1 \<le> k" "i = app_id k" by auto
    then show ?thesis by (intro conjI exI [of _ k]) auto
  next
    case False
    with 1(2) show ?thesis by (auto simp: alloc_app.simps [of ids n] split: if_splits)
  qed
qed

text \<open>The check of a stored list compares the mounts read so far with the text of the next one: a mount with a final slash passes
  beside a mount below it.\<close>

lemma trailing_slash_passes:
  "\<not> Overlap ''/a/b'' ''/a/'' \<and> Overlap ''/a/b'' (trim_suffix ''/'' ''/a/'')"
  by code_simp

subsection \<open>The origin of the upstream\<close>

definition plain_host :: "string \<Rightarrow> bool" where
  "plain_host h = list_all (\<lambda>c. \<not> should_escape Host_Part c) h"

lemma cut_absent: "c \<notin> set s \<Longrightarrow> cut c s = (s, [], False)"
  by (induction s) auto

lemma cut_last_absent: "c \<notin> set s \<Longrightarrow> cut_last c s = None"
  by (simp add: cut_last_def cut_absent)

lemma parse_plain_origin:
  assumes sch: "sch \<in> {''http'', ''https''}" and h: "set h \<inter> set ''/?#@'' = {}" "\<not> has_control h" "parse_host h = Some h'"
  shows "url_Parse (sch @ ''://'' @ h) = Some (empty_url\<lparr>u_scheme := sch, u_host := h'\<rparr>)"
proof -
  have g: "get_scheme True (sch @ ''://'' @ h) [] (sch @ ''://'' @ h) = Some (sch, ''//'' @ h)"
    using sch by (auto simp: is_lower_def is_upper_def is_digit_def)
  have lower: "to_lower sch = sch" using sch by (auto simp: to_lower_def lower_char_def is_upper_def)
  have q: "cut_query (''//'' @ h) u = (''//'' @ h, u\<lparr>u_raw_query := []\<rparr>)" for u
  proof -
    have "CHR ''?'' \<notin> set (''//'' @ h)" using h(1) by auto
    moreover from this have "\<not> suffix ''?'' (''//'' @ h)" by (auto dest: set_mono_suffix)
    ultimately show ?thesis by (simp add: cut_query_def cut_absent del: cut.simps)
  qed
  have a: "parse_authority h = Some (None, h')" using h by (simp add: parse_authority_def cut_last_absent)
  have c: "\<not> has_control (sch @ ''://'' @ h)" "CHR ''#'' \<notin> set (sch @ ''://'' @ h)" "sch @ ''://'' @ h \<noteq> ''*''"
    using sch h by (auto simp: has_control_def)
  have "parse_url (sch @ ''://'' @ h) False = parse_hierarchy (''//'' @ h) False (empty_url\<lparr>u_scheme := sch, u_raw_query := []\<rparr>)"
    unfolding parse_url_def g option.case prod.case q lower using c by simp
  also have "\<dots> = Some (empty_url\<lparr>u_scheme := sch, u_host := h'\<rparr>)"
    using sch h(1) by (auto simp: parse_hierarchy_def cut_absent a set_path_def escape_in_def empty_url_def)
  finally have "parse_url (sch @ ''://'' @ h) False = Some (empty_url\<lparr>u_scheme := sch, u_host := h'\<rparr>)" .
  then show ?thesis by (simp only: url_Parse_def cut_absent [OF c(2)] prod.case option.case if_True simp_thms)
qed

lemma get_scheme_length: "get_scheme first raw acc s = Some (sch, rest) \<Longrightarrow> sch \<noteq> [] \<Longrightarrow> length sch + 1 + length rest = length acc + length s"
  by (induction first raw acc s rule: get_scheme.induct) (auto split: if_splits)

lemma cut_length: "cut c s = (a, r, b) \<Longrightarrow> length a \<le> length s"
  by (induction s arbitrary: a r b) (auto split: if_splits prod.splits)

lemma cut_query_host: "cut_query rest u = (r, v) \<Longrightarrow> length r \<le> length rest \<and> u_host v = u_host u \<and> u_scheme v = u_scheme u"
  by (auto simp: cut_query_def cut_length split: if_splits prod.splits)

lemma set_path_host: "set_path p u = Some v \<Longrightarrow> u_host v = u_host u \<and> u_scheme v = u_scheme u"
  by (auto simp: set_path_def split: option.splits)

lemma set_fragment_host: "set_fragment p u = Some v \<Longrightarrow> u_host v = u_host u \<and> u_scheme v = u_scheme u"
  by (auto simp: set_fragment_def split: option.splits)

text \<open>The host of a URL with a scheme was parsed from a part of its text.\<close>

lemma parse_hierarchy_host:
  assumes "parse_hierarchy rest request u = Some v" "u_host u = []" "u_host v \<noteq> []" "u_user v = None"
  shows "u_scheme v = u_scheme u \<and> (\<exists>h. parse_host h = Some (u_host v) \<and> length h + 2 \<le> length rest)"
proof -
  let ?slashes = "(u_scheme u \<noteq> [] \<or> \<not> request \<and> \<not> prefix ''///'' rest) \<and> prefix ''//'' rest"
  let ?a = "fst (cut (CHR ''/'') (drop 2 rest))"
  have sl: ?slashes
  proof (rule ccontr)
    assume "\<not> ?slashes"
    with assms(1) have "set_path rest (if u_scheme u \<noteq> [] \<and> prefix ''/'' rest then u\<lparr>u_omit_host := True\<rparr> else u) = Some v"
      unfolding parse_hierarchy_def by (simp only: if_False)
    with assms(2,3) show False by (auto dest!: set_path_host split: if_splits)
  qed
  then have two: "length rest = length (drop 2 rest) + 2" by (auto elim: prefixE)
  have len: "length ?a \<le> length (drop 2 rest)" by (metis cut_length prod.collapse)
  from assms(1) sl obtain user host where a: "parse_authority ?a = Some (user, host)"
    and v: "set_path (drop (length ?a) (drop 2 rest)) (u\<lparr>u_user := user, u_host := host\<rparr>) = Some v"
    unfolding parse_hierarchy_def Let_def by (simp only: if_True) (cases "parse_authority ?a"; force)
  have "user = None" using v assms(4) by (auto simp: set_path_def split: option.splits)
  with a have "parse_host ?a = Some host" by (auto simp: parse_authority_def split: option.splits)
  moreover from set_path_host [OF v] have "u_host v = host" "u_scheme v = u_scheme u" by simp_all
  moreover have "length ?a + 2 \<le> length rest" using len two by linarith
  ultimately show ?thesis by blast
qed

lemma parse_url_host:
  assumes "parse_url raw False = Some v" "u_host v \<noteq> []" "u_user v = None" "u_scheme v \<noteq> []"
  shows "\<exists>h. parse_host h = Some (u_host v) \<and> length (u_scheme v) + 3 + length h \<le> length raw"
proof -
  from assms obtain sch rest0 where g: "get_scheme True raw [] raw = Some (sch, rest0)"
    by (auto simp: parse_url_def empty_url_def split: if_splits option.splits)
  obtain rest u where q: "cut_query rest0 (empty_url\<lparr>u_scheme := to_lower sch\<rparr>) = (rest, u)" by fastforce
  from cut_query_host [OF q] have u: "length rest \<le> length rest0" "u_host u = []" "u_scheme u = to_lower sch"
    by (simp_all add: empty_url_def)
  from assms g q u have h: "parse_hierarchy rest False u = Some v"
    by (auto simp: parse_url_def empty_url_def split: if_splits)
  from parse_hierarchy_host [OF h u(2) assms(2,3)] obtain h0 where h0: "parse_host h0 = Some (u_host v)"
    "length h0 + 2 \<le> length rest" "u_scheme v = to_lower sch" using u(3) by auto
  with assms(4) have "sch \<noteq> []" by (auto simp: to_lower_def)
  from get_scheme_length [OF g this] h0 u(1) show ?thesis by (intro exI [of _ h0]) (simp add: to_lower_def)
qed

lemma Parse_host:
  assumes "url_Parse raw = Some v" "u_host v \<noteq> []" "u_user v = None" "u_scheme v \<noteq> []"
  shows "\<exists>h. parse_host h = Some (u_host v) \<and> length (u_scheme v) + 3 + length h \<le> length raw"
proof -
  obtain a frag b where c: "cut (CHR ''#'') raw = (a, frag, b)" by (metis prod_cases3)
  from assms c obtain v0 where v0: "parse_url a False = Some v0" and same: "u_host v0 = u_host v" "u_scheme v0 = u_scheme v" "u_user v0 = u_user v"
    by (auto simp: url_Parse_def set_fragment_def split: option.splits if_splits)
  from parse_url_host [OF v0] assms same cut_length [OF c] show ?thesis by fastforce
qed

lemma not_ascii: "128 \<le> (of_char c :: nat) \<Longrightarrow> list_all (\<lambda>d. (of_char d :: nat) < 128) s \<Longrightarrow> c \<notin> set s"
  by (auto simp: list_all_iff)

lemma not_ascii_escaped: "128 \<le> (of_char c :: nat) \<Longrightarrow> should_escape part c"
proof -
  assume c: "128 \<le> (of_char c :: nat)"
  have "list_all (\<lambda>d. (of_char d :: nat) < 128) ''!$&()*+,;=:[]<>''" "list_all (\<lambda>d. (of_char d :: nat) < 128) ''-_.~''"
    "list_all (\<lambda>d. (of_char d :: nat) < 128) ''$&+,/:;=?@''" "list_all (\<lambda>d. (of_char d :: nat) < 128) ''!()*''"
    by code_simp+
  note this [THEN not_ascii [OF c]]
  moreover have "\<not> is_alnum c" "c \<noteq> CHR 0x27" "c \<noteq> CHR 0x22"
    using c by (auto simp: is_alnum_def is_lower_def is_upper_def is_digit_def)
  ultimately show ?thesis by (simp only: should_escape_def if_False simp_thms)
qed

lemma hex_value_less: "hex_value c = Some x \<Longrightarrow> x < 16"
proof -
  have "\<forall>c \<in> set ''abcdef''. (of_char c :: nat) - 87 < 16" "\<forall>c \<in> set ''ABCDEF''. (of_char c :: nat) - 55 < 16"
    by code_simp+
  moreover have "is_digit c \<Longrightarrow> (of_char c :: nat) - 48 < 16" unfolding is_digit_def by linarith
  moreover assume "hex_value c = Some x"
  ultimately show ?thesis unfolding hex_value_def by (metis option.distinct(1) option.inject)
qed

lemma plain_cons: "plain_host (c # v) \<Longrightarrow> \<not> should_escape Host_Part c \<and> plain_host v"
  by (simp add: plain_host_def)

text \<open>An escape in a host stands for a byte that is escaped.\<close>

lemma unescape_host_escape:
  "unescape_in Host_Part (CHR ''%'' # cs) = Some v \<Longrightarrow> \<exists>d w. v = d # w \<and> should_escape Host_Part d"
proof -
  assume u: "unescape_in Host_Part (CHR ''%'' # cs) = Some v"
  then obtain a b rest x y w where cs: "cs = a # b # rest" and xy: "hex_value a = Some x" "hex_value b = Some y"
    by (auto split: list.splits option.splits)
  with u obtain w where v: "v = char_of (16 * x + y) # w" and e: "x < 8 \<longrightarrow> a = CHR ''2'' \<and> b = CHR ''5''"
    by (auto split: if_splits)
  have "should_escape Host_Part (char_of (16 * x + y))"
  proof (cases "x < 8")
    case True
    with e xy have "x = 2" "y = 5" by (auto simp: hex_value_def is_digit_def)
    moreover have "should_escape Host_Part (char_of (16 * 2 + 5 :: nat))" by code_simp
    ultimately show ?thesis by simp
  next
    case False
    with hex_value_less [OF xy(1)] hex_value_less [OF xy(2)] show ?thesis
      by (intro not_ascii_escaped) (simp add: of_char_char_of_small)
  qed
  with v show ?thesis by blast
qed

lemma unescape_plain_host: "unescape_in Host_Part s = Some v \<Longrightarrow> plain_host v \<Longrightarrow> s = v"
proof (induction s arbitrary: v)
  case (Cons c cs)
  show ?case
  proof (cases "c = CHR ''%''")
    case True
    with unescape_host_escape [of cs v] Cons(2,3) show ?thesis by (auto dest: plain_cons)
  next
    case False
    with Cons(2) obtain w where "unescape_in Host_Part cs = Some w" "v = c # w" by (auto split: if_splits)
    with Cons(1) [of w] Cons(3) show ?thesis by (auto dest: plain_cons)
  qed
qed simp

lemma plain_host_chars: "plain_host h \<Longrightarrow> set h \<inter> set ''/?#@'' = {} \<and> \<not> has_control h"
proof -
  assume p: "plain_host h"
  have "list_all (should_escape Host_Part) ''/?#@''" by code_simp
  then have "c \<notin> set h" if "c \<in> set ''/?#@''" for c
    using that p unfolding plain_host_def list_all_iff by blast
  moreover have "should_escape Host_Part c" if "(of_char c :: nat) < 32 \<or> (of_char c :: nat) = 127" for c
  proof -
    have "\<not> is_alnum c" using that by (auto simp: is_alnum_def is_lower_def is_upper_def is_digit_def)
    moreover have "list_all (\<lambda>d. 32 \<le> (of_char d :: nat) \<and> (of_char d :: nat) \<noteq> 127) (CHR 0x27 # CHR 0x22 # ''!$&()*+,;=:[]<>'' @ ''-_.~'' @ ''$&+,/:;=?@'' @ ''!()*'')"
      by code_simp
    then have "c \<notin> set (CHR 0x27 # CHR 0x22 # ''!$&()*+,;=:[]<>'' @ ''-_.~'' @ ''$&+,/:;=?@'' @ ''!()*'')"
      using that unfolding list_all_iff by (metis leD)
    then have "c \<notin> set ''!$&()*+,;=:[]<>''" "c \<notin> set ''-_.~''" "c \<notin> set ''$&+,/:;=?@''" "c \<notin> set ''!()*''" "c \<noteq> CHR 0x27" "c \<noteq> CHR 0x22"
      by (simp_all only: set_append list.set(2) Un_iff insert_iff de_Morgan_disj simp_thms)
    ultimately show ?thesis by (simp only: should_escape_def if_False simp_thms)
  qed
  then have "\<not> has_control h" using p unfolding plain_host_def has_control_def list_all_iff list_ex_iff by blast
  ultimately show ?thesis by blast
qed

lemma cut_zone_front: "cut_zone s = Some (a, z) \<Longrightarrow> prefix ''%25'' z"
  by (induction s arbitrary: a) (auto split: if_splits)

lemma parse_host_plain: "parse_host h0 = Some h \<Longrightarrow> plain_host h \<Longrightarrow> h0 = h"
proof -
  assume p: "parse_host h0 = Some h" and h: "plain_host h"
  have "unescape_in Host_Part h0 = Some h"
  proof (cases "prefix ''['' h0")
    case False
    with p show ?thesis by (auto simp: parse_host_def split: option.splits if_splits)
  next
    case True
    then obtain front port where f: "cut_last (CHR '']'') h0 = Some (front, port)" "valid_optional_port port"
      using p by (auto simp: parse_host_def split: option.splits if_splits)
    show ?thesis
    proof (cases "cut_zone front")
      case None
      with True f p show ?thesis by (simp add: parse_host_def)
    next
      case (Some az)
      obtain a z where az: "az = (a, z)" by fastforce
      with True f p Some obtain x y w where y: "unescape_in Zone_Part z = Some y" and hh: "h = x @ y @ w"
        by (auto simp: parse_host_def split: option.splits)
      obtain rest where "z = ''%25'' @ rest" using cut_zone_front [of front a z] Some az by (auto elim: prefixE)
      with y obtain y' where "y = char_of (16 * 2 + 5 :: nat) # y'"
        by (auto simp: hex_value_def is_digit_def split: if_splits)
      moreover have "should_escape Host_Part (char_of (16 * 2 + 5 :: nat))" by code_simp
      ultimately have False using h by (simp add: hh plain_host_def)
      then show ?thesis ..
    qed
  qed
  then show ?thesis using h by (rule unescape_plain_host)
qed

lemma set_path_opaque: "set_path p u = Some v \<Longrightarrow> u_opaque v = u_opaque u"
  by (auto simp: set_path_def split: option.splits)

lemma parse_hierarchy_opaque: "parse_hierarchy rest request u = Some v \<Longrightarrow> u_opaque v = u_opaque u"
  by (auto simp: parse_hierarchy_def Let_def dest!: set_path_opaque split: if_splits option.splits)

lemma Parse_opaque:
  assumes "url_Parse raw = Some v" "u_host v \<noteq> []"
  shows "u_opaque v = []"
proof -
  obtain a frag b where c: "cut (CHR ''#'') raw = (a, frag, b)" by (metis prod_cases3)
  from assms c obtain v0 where v0: "parse_url a False = Some v0" and same: "u_host v0 = u_host v" "u_opaque v0 = u_opaque v"
    by (auto simp: url_Parse_def set_fragment_def split: option.splits if_splits)
  have q: "u_opaque u' = u_opaque u \<and> u_host u' = u_host u" if "cut_query r u = (r', u')" for r u r' u'
    using that by (auto simp: cut_query_def split: if_splits prod.splits)
  from v0 same assms(2) have "u_opaque v0 = []"
    by (auto simp: parse_url_def empty_url_def dest!: q parse_hierarchy_opaque split: if_splits option.splits prod.splits)
  with same show ?thesis by simp
qed

lemma path_unescape_Nil: "path_unescape s = Some [] \<Longrightarrow> s = []"
  by (cases s) (auto split: if_splits list.splits option.splits)

lemma escape_plain: "plain_host h \<Longrightarrow> escape_in Host_Part h = h"
  by (induction h) (auto simp: plain_host_def escape_in_def)

text \<open>The printed origin of a host that needs no escaping is read as the same origin.\<close>

lemma upstream_origin_read:
  assumes "upstream_origin v = Inr o'" "url_Parse v = Some u" "plain_host (u_host u)"
  shows "\<exists>w. url_Parse o' = Some w \<and> is_origin w \<and> length o' \<le> 2048"
proof -
  from assms(1,2) have u: "is_origin u" "length v \<le> 2048" "o' = url_String (u\<lparr>u_path := []\<rparr>)"
    by (auto simp: upstream_origin_def split: if_splits)
  then have f: "u_scheme u \<in> {''http'', ''https''}" "u_host u \<noteq> []" "u_user u = None" "\<not> u_force_query u" "u_raw_query u = []" "u_fragment u = []"
    "hostname u \<noteq> []"
    by (auto simp: is_origin_def)
  then have "u_scheme u \<noteq> []" by auto
  from Parse_host [OF assms(2) f(2,3) this] parse_host_plain [OF _ assms(3)]
  have h: "parse_host (u_host u) = Some (u_host u)" "length (u_scheme u) + 3 + length (u_host u) \<le> length v" by auto
  have "escaped_path (u\<lparr>u_path := []\<rparr>) = []"
    by (auto simp: escaped_path_def escape_in_def dest: path_unescape_Nil)
  then have o': "o' = u_scheme u @ ''://'' @ u_host u"
    using u(3) f Parse_opaque [OF assms(2) f(2)] \<open>u_scheme u \<noteq> []\<close> assms(3)
    by (simp add: url_String_def Let_def query_text_def escape_plain)
  let ?w = "empty_url\<lparr>u_scheme := u_scheme u, u_host := u_host u\<rparr>"
  have "url_Parse o' = Some ?w"
    unfolding o' using plain_host_chars [OF assms(3)] f(1) h(1) by (intro parse_plain_origin) auto
  moreover have "is_origin ?w" using f by (auto simp: is_origin_def empty_url_def hostname_def)
  moreover have "length o' \<le> 2048" using h(2) u(2) by (simp add: o')
  ultimately show ?thesis by blast
qed

subsection \<open>Custom headers\<close>

lemma validHeaderName_token: "validHeaderName name = validHeaderToken name"
proof -
  have "(is_alnum c \<or> c \<in> set ''!#$%&*+-.^_|~'' \<or> c = CHR 0x27 \<or> c = CHR 0x60) = token_char c" for c
    by (auto simp: token_char_def)
  then show ?thesis by (simp add: validHeaderName_def validHeaderToken_def)
qed

lemma forbiddenCustomHeader_iff:
  "forbiddenCustomHeader lower = (prefix ''proxy-'' lower \<or> prefix ''sec-websocket-'' lower \<or> lower \<in> set forbidden_custom)"
  unfolding forbiddenCustomHeader_def forbidden_custom_def by simp

lemma length_canonicalKey [simp]: "length (canonicalKey k) = length k"
proof -
  have "length (canonical b k) = length k" for b by (induction k arbitrary: b) auto
  then show ?thesis by (simp add: canonicalKey_def)
qed

lemma validHeaderToken_canonical [simp]: "validHeaderToken (canonicalKey k) = validHeaderToken k"
proof -
  have "canonicalKey k = [] \<longleftrightarrow> k = []" using length_canonicalKey [of k] by (metis length_0_conv)
  moreover have "list_all token_char (canonicalKey k) = list_all token_char k" by (simp add: canonicalKey_def)
  ultimately show ?thesis by (simp add: validHeaderToken_def)
qed

text \<open>Headers as the gateway takes them: canonical, each accepted, no two the same up to case.\<close>

definition gateway_headers :: "string table \<Rightarrow> bool" where
  "gateway_headers hs =
     (list_all (\<lambda>(k, v). canonicalKey k = k \<and> custom_ok (k, [v])) hs \<and> distinct (map (\<lambda>kv. to_lower (fst kv)) hs))"

definition header_bytes :: "string table \<Rightarrow> nat" where
  "header_bytes hs = (\<Sum>(k, v)\<leftarrow>hs. length k + length v)"

lemma clean_headers_ok:
  "clean_headers seen n clean hs = Inr out \<Longrightarrow> gateway_headers clean \<Longrightarrow> set seen = to_lower ` fst ` set clean \<Longrightarrow> n = header_bytes clean
     \<Longrightarrow> n \<le> 8192 \<Longrightarrow> gateway_headers out \<and> header_bytes out \<le> 8192 \<and> length out = length clean + length hs"
proof (induction seen n clean hs rule: clean_headers.induct)
  case (2 seen n clean name v hs)
  let ?lower = "to_lower name" and ?k = "canonicalKey name" and ?n = "n + length name + length v"
  from 2(2) have ok: "validHeaderName name" "?lower \<notin> set seen" "\<not> forbiddenCustomHeader ?lower" "length name \<le> 128"
    "length v \<le> 1024" "\<not> contains_any v line_specials" "?n \<le> 8192"
    and more: "clean_headers (?lower # seen) ?n (AList.update ?k v clean) hs = Inr out"
    by (auto simp: Let_def split: if_splits)
  have new: "?k \<notin> fst ` set clean"
  proof
    assume "?k \<in> fst ` set clean"
    then have "to_lower ?k \<in> set seen" unfolding 2(4) by (rule imageI)
    with ok(2) show False by simp
  qed
  have c: "custom_ok (?k, [v])"
    using ok by (simp add: custom_ok_def validHeaderName_token forbiddenCustomHeader_iff is_proxy_header_def)
  have "gateway_headers (clean @ [(?k, v)])"
    using 2(3,4) c ok(2) by (auto simp: gateway_headers_def image_image)
  moreover have "set (?lower # seen) = to_lower ` fst ` set (clean @ [(?k, v)])" using 2(4) by auto
  moreover have "?n = header_bytes (clean @ [(?k, v)])" using 2(5) by (simp add: header_bytes_def)
  ultimately show ?case
    using 2(1) [of ?lower ?n] more ok by (auto simp: update_fresh [OF new] Let_def)
qed simp

text \<open>What the host makes of them.\<close>

lemma gateway_custom:
  assumes "gateway_headers hs"
  shows "fold (\<lambda>(k, v). header_set k v) hs [] = map (\<lambda>(k, v). (k, [v])) hs"
proof -
  have "fold (\<lambda>(k, v). header_set k v) hs h = h @ map (\<lambda>(k, v). (k, [v])) hs"
    if "list_all (\<lambda>(k, v). canonicalKey k = k) hs" "distinct (map fst hs)" "fst ` set h \<inter> fst ` set hs = {}" for h
    using that
  proof (induction hs arbitrary: h)
    case (Cons kv hs)
    obtain k v where kv: "kv = (k, v)" by fastforce
    have "header_set k v h = h @ [(k, [v])]" using Cons.prems by (auto simp: kv header_set_def update_fresh)
    with Cons.IH [of "h @ [(k, [v])]"] Cons.prems show ?case by (auto simp: kv)
  qed simp
  moreover have "distinct (map fst hs)"
    using assms distinct_map [of to_lower "map fst hs"] by (simp add: gateway_headers_def comp_def)
  moreover have "list_all (\<lambda>(k, v). canonicalKey k = k) hs" using assms by (auto simp: gateway_headers_def list_all_iff)
  ultimately show ?thesis by simp
qed

lemma gateway_custom_valid:
  assumes "gateway_headers hs" "header_bytes hs \<le> 8192" "length hs \<le> 16"
  shows "validateCustomHeaders (fold (\<lambda>(k, v). header_set k v) hs []) = None"
proof -
  have "(\<Sum>(name, vs)\<leftarrow>map (\<lambda>(k, v). (k, [v])) hs. length name + length (hd vs)) = header_bytes hs"
    unfolding header_bytes_def by (induction hs) auto
  moreover have "map (\<lambda>kv. to_lower (fst kv)) (map (\<lambda>(k, v). (k, [v])) hs) = map (\<lambda>kv. to_lower (fst kv)) hs"
    by (induction hs) auto
  moreover have "list_all custom_ok (map (\<lambda>(k, v). (k, [v])) hs)" using assms(1) by (auto simp: gateway_headers_def list_all_iff)
  ultimately show ?thesis using assms
    unfolding gateway_custom [OF assms(1)] validateCustomHeaders_iff by (simp add: gateway_headers_def del: map_map)
qed

text \<open>What a normalized target is.\<close>

lemma normalizeTarget_parts:
  assumes "app_normalizeTarget t0 = Inr t"
  shows "upstream_origin (at_upstream t0) = Inr (at_upstream t)" "Validate (at_base t) True = None"
    "at_header t \<in> {'''', ''X-Forwarded-Prefix'', ''X-Script-Name''}" "length (at_header_value t) \<le> 1024"
    "\<not> contains_any (at_header_value t) line_specials"
    "validateCustomHeaders (fold (\<lambda>(k, v). header_set k v) (at_custom t) []) = None"
    "at_forward_host t = at_forward_host t0" "at_forward_scheme t = at_forward_scheme t0"
proof -
  from assms obtain custom upstream where c: "clean_headers [] 0 [] (at_custom t0) = Inr custom" "length (at_custom t0) \<le> 16"
    and u: "upstream_origin (at_upstream t0) = Inr upstream"
    and t: "t = t0\<lparr>at_name := trim_space (at_name t0), at_mount := trim_suffix ''/'' (at_mount t0), at_upstream := upstream,
        at_base := clean_base (at_base t0), at_header_value := (if at_header t0 = [] then [] else trim_space (at_header_value t0)),
        at_custom := custom\<rparr>"
    and v: "Validate (clean_base (at_base t0)) True = None" "at_header t0 \<in> {'''', ''X-Forwarded-Prefix'', ''X-Script-Name''}"
      "at_header t0 = [] \<or> length (trim_space (at_header_value t0)) \<le> 1024 \<and> \<not> contains_any (trim_space (at_header_value t0)) line_specials"
    unfolding app_normalizeTarget_def Let_def bind_result_def by (auto split: if_splits sum.splits)
  from clean_headers_ok [OF c(1)] c(2) have h: "gateway_headers custom" "header_bytes custom \<le> 8192" "length custom \<le> 16"
    by (simp_all add: gateway_headers_def header_bytes_def)
  show "upstream_origin (at_upstream t0) = Inr (at_upstream t)" using u by (simp add: t)
  show "Validate (at_base t) True = None" "at_header t \<in> {'''', ''X-Forwarded-Prefix'', ''X-Script-Name''}"
    "length (at_header_value t) \<le> 1024" "\<not> contains_any (at_header_value t) line_specials"
    "at_forward_host t = at_forward_host t0" "at_forward_scheme t = at_forward_scheme t0"
    using v by (auto simp: t contains_any_def)
  show "validateCustomHeaders (fold (\<lambda>(k, v). header_set k v) (at_custom t) []) = None"
    using gateway_custom_valid [OF h] by (simp add: t)
qed

subsection \<open>A stored origin may be longer than the limit\<close>

lemma long_origin:
  assumes "list_all (\<lambda>c. 128 \<le> (of_char c :: nat)) h" "length h \<le> 2041" "2041 < 3 * length h"
  shows "\<exists>o'. upstream_origin (''http://'' @ h) = Inr o' \<and> \<not> is_ok (upstream_origin o')"
proof -
  have no: "c \<notin> set h" if "(of_char c :: nat) < 128" for c using that assms(1) by (force simp: list_all_iff)
  have no_sep: "set h \<inter> set ''/?#@'' = {}" "CHR ''['' \<notin> set h" "CHR '':'' \<notin> set h" using no by auto
  have u: "unescape_in Host_Part s = Some s" if "list_all (\<lambda>c. 128 \<le> (of_char c :: nat)) s" for s
    using that by (induction s) auto
  have "h \<noteq> []" using assms(3) by auto
  have "\<not> prefix ''['' h" using no_sep(2) by (auto elim: prefixE)
  then have p: "parse_host h = Some h" using no_sep(3) u [OF assms(1)] by (simp add: parse_host_def cut_last_absent)
  have ctl: "\<not> has_control h" using assms(1) by (auto simp: has_control_def list_ex_iff list_all_iff)
  have parsed: "url_Parse (''http'' @ ''://'' @ h) = Some (empty_url\<lparr>u_scheme := ''http'', u_host := h\<rparr>)"
    using no_sep ctl p by (intro parse_plain_origin) auto
  have hp: "split_host_port h = (h, [])" using no_sep by (auto simp: split_host_port_def cut_last_absent elim: prefixE)
  have e: "length (escape_in Host_Part s) = 3 * length s" if "list_all (\<lambda>c. 128 \<le> (of_char c :: nat)) s" for s
    using that by (induction s) (auto simp: escape_in_def not_ascii_escaped)
  have ln: "\<not> contains_any h line_specials" using no by (auto simp: contains_any_def line_specials_def list_ex_iff)
  let ?o = "''http://'' @ escape_in Host_Part h"
  have s: "url_String (empty_url\<lparr>u_scheme := ''http'', u_host := h, u_path := []\<rparr>) = ?o"
    using \<open>h \<noteq> []\<close> by (simp add: url_String_def empty_url_def escaped_path_def escape_in_def query_text_def)
  have "upstream_origin (''http://'' @ h) = Inr ?o"
    using parsed assms(2) hp ln \<open>h \<noteq> []\<close> s
    by (simp add: upstream_origin_def is_origin_def empty_url_def hostname_def port_of_def contains_any_def line_specials_def)
  moreover have "\<not> is_ok (upstream_origin ?o)"
    using e [OF assms(1)] assms(3) by (auto simp: upstream_origin_def is_ok_def split: option.splits)
  ultimately show ?thesis by blast
qed

end
