(* ===== verification/WebApps.thy ===== *)
theory WebApps
  imports AppTargets BrowserPub
begin

section \<open>The web applications plugin and the browser host\<close>

text \<open>
  Models \<^verbatim>\<open>plugins/web-apps/backend/plugin.go\<close> as it runs against the browser host of the program (\<^verbatim>\<open>BrowserPub\<close>): each capability that
  the plugin calls is the call of that model, so that the state holds the plugin, its storage and the host.  The plugin runs one
  call at a time.  The environment of a call says what the storage refuses, the random identifiers the host draws, the clock and
  the base path of the listener.
\<close>

definition web_apps_id :: string where
  "web_apps_id = ''web.apps''"

record app_session =
  ap_target :: string
  ap_prefix :: string
  ap_publication :: string
  ap_runtime :: string
  ap_base :: string

record web_apps =
  wa_publications :: "string table"
  wa_sessions :: "app_session table"
  wa_runtime :: string
  wa_stored :: "app_store stored"
  wa_host :: browser_host
  wa_draws :: "string option list"

record apps_env =
  ae_get :: refusal
  ae_put :: refusal
  ae_base :: string
  ae_now :: int

text \<open>\<open>newPlugin\<close>, over what is stored and at a host.\<close>

definition apps_newPlugin :: "app_store stored \<Rightarrow> browser_host \<Rightarrow> web_apps" where
  "apps_newPlugin v h =
     \<lparr>wa_publications = [], wa_sessions = [], wa_runtime = [], wa_stored = v, wa_host = h, wa_draws = []\<rparr>"

subsection \<open>Calls to the host\<close>

definition ask :: "apps_env \<Rightarrow> browser_call \<Rightarrow> web_apps \<Rightarrow> (host_failure, browser_answer) result \<times> web_apps" where
  "ask env c w =
     (let (i, rest) = (case wa_draws w of [] \<Rightarrow> (None, []) | i # rest \<Rightarrow> (i, rest));
          (r, h) = browser_call web_apps_id (ae_base env) (ae_now env) i c (wa_host w)
      in (r, w\<lparr>wa_host := h, wa_draws := rest\<rparr>))"

definition ensureRuntime :: "apps_env \<Rightarrow> web_apps \<Rightarrow> host_failure option \<times> web_apps" where
  "ensureRuntime env w =
     (if wa_runtime w \<noteq> [] then (None, w)
      else (case ask env (Runtime_Register (Some (''web/bootstrap.js'', ''web/sw.js''))) w of
          (Inl e, w) \<Rightarrow> (Some e, w)
        | (Inr a, w) \<Rightarrow>
            (let i = (case a of Answer_Runtime r \<Rightarrow> rt_id r | _ \<Rightarrow> [])
             in if i = [] then (Some (app_fail ''failed'' ''browser runtime returned no ID''), w)
                else (None, w\<lparr>wa_runtime := i\<rparr>))))"

text \<open>A Go map answers the zero value for a missing key.\<close>

definition publication_of :: "string \<Rightarrow> web_apps \<Rightarrow> string" where
  "publication_of i w = (case map_of (wa_publications w) i of None \<Rightarrow> [] | Some q \<Rightarrow> q)"

definition publish :: "apps_env \<Rightarrow> app_target \<Rightarrow> web_apps \<Rightarrow> host_failure option \<times> web_apps" where
  "publish env t w =
     (case ensureRuntime env w of
        (Some f, w) \<Rightarrow> (Some f, w)
      | (None, w) \<Rightarrow>
          if publication_of (at_id t) w \<noteq> [] then (None, w)
          else (case ask env (Publication_Register (Some (at_mount t, ''web/bootstrap.html'', [], wa_runtime w))) w of
              (Inl e, w) \<Rightarrow> (Some e, w)
            | (Inr a, w) \<Rightarrow>
                (let i = (case a of Answer_Publication q \<Rightarrow> pub_id q | _ \<Rightarrow> [])
                 in if i = [] then (Some (app_fail ''failed'' ''publication returned no ID''), w)
                    else (None, w\<lparr>wa_publications := AList.update (at_id t) i (wa_publications w)\<rparr>))))"

definition removePublication :: "apps_env \<Rightarrow> string \<Rightarrow> web_apps \<Rightarrow> web_apps" where
  "removePublication env i w =
     (if publication_of i w = [] then w
      else (let w' = snd (ask env (Publication_Remove (Some (publication_of i w))) w)
            in w'\<lparr>wa_publications := AList.delete i (wa_publications w')\<rparr>))"

definition apps_shutdown :: "apps_env \<Rightarrow> web_apps \<Rightarrow> web_apps" where
  "apps_shutdown env w =
     (let w = fold (\<lambda>i w. let w = snd (ask env (Gateway_Close (Some i)) w) in w\<lparr>wa_sessions := AList.delete i (wa_sessions w)\<rparr>)
                (map fst (wa_sessions w)) w;
          w = fold (removePublication env) (map fst (wa_publications w)) w
      in if wa_runtime w = [] then w
         else (snd (ask env (Runtime_Remove (Some (wa_runtime w))) w))\<lparr>wa_runtime := []\<rparr>)"

text \<open>The loop of \<open>initialize\<close>: every target is published, or all is taken back.\<close>

fun publish_all :: "apps_env \<Rightarrow> app_target list \<Rightarrow> web_apps \<Rightarrow> host_failure option \<times> web_apps" where
  "publish_all env [] w = (None, w)"
| "publish_all env (t # ts) w =
     (case publish env t w of
        (Some f, w) \<Rightarrow> (Some f, apps_shutdown env w)
      | (None, w) \<Rightarrow> publish_all env ts w)"

definition apps_initialize :: "apps_env \<Rightarrow> web_apps \<Rightarrow> host_failure option \<times> web_apps" where
  "apps_initialize env w =
     (case app_readTargets (ae_get env) (wa_stored w) of
        Inl f \<Rightarrow> (Some f, w)
      | Inr s \<Rightarrow>
          (case ensureRuntime env w of
             (Some f, w) \<Rightarrow> (Some f, w)
           | (None, w) \<Rightarrow> publish_all env (as_targets s) w))"

definition app_active :: "string \<Rightarrow> web_apps \<Rightarrow> bool" where
  "app_active i w = list_ex (\<lambda>(_, s). ap_target s = i) (wa_sessions w)"

definition writeTargets :: "apps_env \<Rightarrow> app_store \<Rightarrow> web_apps \<Rightarrow> host_failure option \<times> web_apps" where
  "writeTargets env s w =
     (case ae_put env of Some e \<Rightarrow> (Some (app_hostError e), w) | None \<Rightarrow> (None, w\<lparr>wa_stored := Readable s\<rparr>))"

subsection \<open>Saving a target\<close>

definition forget_publication :: "string \<Rightarrow> web_apps \<Rightarrow> web_apps" where
  "forget_publication i w = w\<lparr>wa_publications := AList.delete i (wa_publications w)\<rparr>"

definition restore_publication :: "apps_env \<Rightarrow> app_target \<Rightarrow> string \<Rightarrow> bool \<Rightarrow> string \<Rightarrow> web_apps \<Rightarrow> web_apps" where
  "restore_publication env old prior removed i w =
     (if removed then snd (publish env old w)
      else if prior \<noteq> [] then w\<lparr>wa_publications := AList.update i prior (wa_publications w)\<rparr> else w)"

text \<open>The mount of a target changes: the new publication before the old one goes, unless the two overlap.\<close>

definition move_mount :: "apps_env \<Rightarrow> app_target \<Rightarrow> app_target \<Rightarrow> app_store \<Rightarrow> web_apps \<Rightarrow> (host_failure, app_target) result \<times> web_apps" where
  "move_mount env old t s w =
     (let i = at_id t; prior = publication_of i w;
          removed = (prior \<noteq> [] \<and> Overlap (at_mount old) (at_mount t));
          w = forget_publication i (if removed then removePublication env i w else w)
      in case publish env t w of
           (Some f, w) \<Rightarrow> (Inl f, restore_publication env old prior removed i w)
         | (None, w) \<Rightarrow>
             (let nxt = publication_of i w in
              case writeTargets env s w of
                (Some f, w) \<Rightarrow>
                  (let w = forget_publication i (snd (ask env (Publication_Remove (Some nxt)) w))
                   in (Inl f, restore_publication env old prior removed i w))
              | (None, w) \<Rightarrow>
                  (Inr t, if prior \<noteq> [] \<and> \<not> removed then snd (ask env (Publication_Remove (Some prior)) w) else w)))"

definition no_target :: app_target where
  "no_target = \<lparr>at_id = [], at_name = [], at_mount = [], at_upstream = [], at_base = [], at_header = [], at_header_value = [],
     at_insecure = False, at_forward_host = False, at_forward_scheme = False, at_custom = []\<rparr>"

definition find_app :: "string \<Rightarrow> app_store \<Rightarrow> app_target option" where
  "find_app i s = find (\<lambda>t. at_id t = i) (as_targets s)"

text \<open>The identifiers of a list that was read are distinct, so the index of the code is the one target with the identifier.\<close>

definition replace_app :: "app_target \<Rightarrow> app_store \<Rightarrow> app_store" where
  "replace_app t s = s\<lparr>as_targets := map (\<lambda>u. if at_id u = at_id t then t else u) (as_targets s)\<rparr>"

definition place_app :: "apps_env \<Rightarrow> app_target \<Rightarrow> app_store \<Rightarrow> web_apps \<Rightarrow> (host_failure, app_target) result \<times> web_apps" where
  "place_app env t s w =
     (case find_app (at_id t) s of
        None \<Rightarrow>
          if 256 \<le> length (as_targets s) then (Inl (app_fail ''resource_limit'' ''target limit reached''), w)
          else (case alloc_app (map at_id (as_targets s)) (as_next s) of
              None \<Rightarrow> (Inl (app_fail ''resource_limit'' ''target ID sequence exhausted''), w)
            | Some (i, n) \<Rightarrow>
                (let t = t\<lparr>at_id := i\<rparr>
                 in move_mount env no_target t (s\<lparr>as_next := n, as_targets := as_targets s @ [t]\<rparr>) w))
      | Some old \<Rightarrow>
          if at_mount old \<noteq> at_mount t then move_mount env old t (replace_app t s) w
          else (case writeTargets env (replace_app t s) w of (Some f, w) \<Rightarrow> (Inl f, w) | (None, w) \<Rightarrow> (Inr t, w)))"

definition apps_save :: "apps_env \<Rightarrow> app_target option \<Rightarrow> web_apps \<Rightarrow> (host_failure, app_target) result \<times> web_apps" where
  "apps_save env req w =
     (case req of
        None \<Rightarrow> (Inl (app_invalid ''invalid request''), w)
      | Some t0 \<Rightarrow>
          (case app_normalizeTarget t0 of
             Inl f \<Rightarrow> (Inl f, w)
           | Inr t \<Rightarrow>
               (case app_readTargets (ae_get env) (wa_stored w) of
                  Inl f \<Rightarrow> (Inl f, w)
                | Inr s \<Rightarrow>
                    if list_ex (\<lambda>old. at_id old \<noteq> at_id t \<and> Overlap (at_mount old) (at_mount t)) (as_targets s) then
                      (Inl (app_fail ''already_exists'' ''mount overlaps another target''), w)
                    else if at_id t \<noteq> [] \<and> find_app (at_id t) s = None then
                      (Inl (app_fail ''not_found'' ''unknown target''), w)
                    else if app_active (at_id t) w then
                      (Inl (app_fail ''failed_precondition'' ''close active gateway sessions before editing the target''), w)
                    else place_app env t s w)))"

subsection \<open>The other calls\<close>

definition apps_delete :: "apps_env \<Rightarrow> string option \<Rightarrow> web_apps \<Rightarrow> (host_failure, unit) result \<times> web_apps" where
  "apps_delete env req w =
     (case req of
        None \<Rightarrow> (Inl (app_invalid ''target ID required''), w)
      | Some i \<Rightarrow>
          if \<not> app_validID i then (Inl (app_invalid ''target ID required''), w)
          else if app_active i w then
            (Inl (app_fail ''failed_precondition'' ''close active gateway sessions before deleting the target''), w)
          else (case app_readTargets (ae_get env) (wa_stored w) of
              Inl f \<Rightarrow> (Inl f, w)
            | Inr s \<Rightarrow>
                if find_app i s = None then (Inl (app_fail ''not_found'' ''unknown target''), w)
                else (case writeTargets env (s\<lparr>as_targets := filter (\<lambda>t. at_id t \<noteq> i) (as_targets s)\<rparr>) w of
                    (Some f, w) \<Rightarrow> (Inl f, w)
                  | (None, w) \<Rightarrow> (Inr (), removePublication env i w))))"

record app_open =
  ao_target :: string
  ao_host :: string
  ao_scheme :: string

definition invalid_origin :: "app_open \<Rightarrow> bool" where
  "invalid_origin q =
     (ao_host q \<noteq> [] \<and> (255 < length (ao_host q) \<or> contains_any (ao_host q) (CHR '' '' # CHR ''/'' # path_specials))
      \<or> ao_scheme q \<notin> {'''', ''https'', ''http''} \<or> (ao_host q = [] \<and> ao_scheme q \<noteq> []) \<or> (ao_scheme q = [] \<and> ao_host q \<noteq> []))"

definition gateway_request :: "app_target \<Rightarrow> string \<Rightarrow> app_open \<Rightarrow> gateway_open" where
  "gateway_request t pub q =
     \<lparr>go_publication = pub, go_upstream_url = at_upstream t, go_upstream_base = at_base t, go_base_header = at_header t,
      go_base_header_value = at_header_value t, go_insecure = at_insecure t, go_forward_host = at_forward_host t,
      go_forward_scheme = at_forward_scheme t, go_public_host = ao_host q, go_public_scheme = ao_scheme q,
      go_custom = at_custom t\<rparr>"

text \<open>The gateway of a published target and its ticket; without a ticket the gateway is closed again.\<close>

definition open_gateway ::
  "apps_env \<Rightarrow> app_target \<Rightarrow> app_open \<Rightarrow> web_apps \<Rightarrow> (host_failure, string \<times> app_session \<times> string) result \<times> web_apps" where
  "open_gateway env t q w =
     (case ask env (Gateway_Open (Some (gateway_request t (publication_of (at_id t) w) q))) w of
        (Inl e, w) \<Rightarrow> (Inl e, w)
      | (Inr (Answer_Gateway sid pre pub base), w) \<Rightarrow>
          if sid = [] then (Inl (app_fail ''failed'' ''gateway returned no session ID''), w)
          else (case ask env (Stream_Ticket (Some sid)) w of
              (Inl e, w) \<Rightarrow> (Inl e, snd (ask env (Gateway_Close (Some sid)) w))
            | (Inr a, w) \<Rightarrow>
                (let s = \<lparr>ap_target = at_id t, ap_prefix = pre, ap_publication = pub_id pub, ap_runtime = pub_runtime pub,
                          ap_base = base\<rparr>
                 in (Inr (sid, s, case a of Answer_Ticket k \<Rightarrow> k | _ \<Rightarrow> []),
                     w\<lparr>wa_sessions := AList.update sid s (wa_sessions w)\<rparr>)))
      | (Inr _, w) \<Rightarrow> (Inl (app_fail ''failed'' ''gateway returned no session ID''), w))"

definition apps_open ::
  "apps_env \<Rightarrow> app_open option \<Rightarrow> web_apps \<Rightarrow> (host_failure, string \<times> app_session \<times> string) result \<times> web_apps" where
  "apps_open env req w =
     (case req of
        None \<Rightarrow> (Inl (app_invalid ''target ID required''), w)
      | Some q \<Rightarrow>
          if \<not> app_validID (ao_target q) then (Inl (app_invalid ''target ID required''), w)
          else if invalid_origin q then (Inl (app_invalid ''invalid public origin''), w)
          else if 8 \<le> length (wa_sessions w) then (Inl (app_fail ''resource_limit'' ''gateway session limit reached''), w)
          else (case app_readTargets (ae_get env) (wa_stored w) of
              Inl f \<Rightarrow> (Inl f, w)
            | Inr s \<Rightarrow>
                (case find_app (ao_target q) s of
                   None \<Rightarrow> (Inl (app_fail ''not_found'' ''unknown target''), w)
                 | Some t \<Rightarrow>
                     (case publish env t w of
                        (Some f, w) \<Rightarrow> (Inl f, w)
                      | (None, w) \<Rightarrow> open_gateway env t q w))))"

definition apps_close :: "apps_env \<Rightarrow> string option \<Rightarrow> web_apps \<Rightarrow> (host_failure, unit) result \<times> web_apps" where
  "apps_close env req w =
     (case req of
        None \<Rightarrow> (Inl (app_invalid ''session ID required''), w)
      | Some i \<Rightarrow>
          if i = [] then (Inl (app_invalid ''session ID required''), w)
          else if map_of (wa_sessions w) i = None then (Inr (), w)
          else (case ask env (Gateway_Close (Some i)) w of
              (Inl e, w) \<Rightarrow> (Inl e, w)
            | (Inr _, w) \<Rightarrow> (Inr (), w\<lparr>wa_sessions := AList.delete i (wa_sessions w)\<rparr>)))"

datatype apps_request =
    Targets_List
  | Targets_Save "app_target option"
  | Targets_Delete "string option"
  | Session_Open "app_open option"
  | Sessions_List
  | Session_Close "string option"
  | Unknown_Method

datatype apps_reply =
    Reply_Targets "app_target list"
  | Reply_Target app_target
  | Reply_Session string app_session string
  | Reply_Sessions "app_session table"
  | Reply_Ok

definition apps_answer :: "('a \<Rightarrow> apps_reply) \<Rightarrow> (host_failure, 'a) result \<times> web_apps \<Rightarrow> (host_failure, apps_reply) result \<times> web_apps" where
  "apps_answer f r = (bind_result (fst r) (\<lambda>a. Inr (f a)), snd r)"

definition apps_handle :: "apps_env \<Rightarrow> apps_request \<Rightarrow> web_apps \<Rightarrow> (host_failure, apps_reply) result \<times> web_apps" where
  "apps_handle env req w =
     (case req of
        Targets_List \<Rightarrow> apps_answer (\<lambda>s. Reply_Targets (as_targets s)) (app_readTargets (ae_get env) (wa_stored w), w)
      | Targets_Save t \<Rightarrow> apps_answer Reply_Target (apps_save env t w)
      | Targets_Delete i \<Rightarrow> apps_answer (\<lambda>_. Reply_Ok) (apps_delete env i w)
      | Session_Open q \<Rightarrow> apps_answer (\<lambda>(i, s, k). Reply_Session i s k) (apps_open env q w)
      | Sessions_List \<Rightarrow> (Inr (Reply_Sessions (wa_sessions w)), w)
      | Session_Close i \<Rightarrow> apps_answer (\<lambda>_. Reply_Ok) (apps_close env i w)
      | Unknown_Method \<Rightarrow> (Inl (app_fail ''unknown_method'' ''unknown Web Apps method''), w))"

text \<open>The event \<^verbatim>\<open>http.gateway.closed\<close>.\<close>

definition apps_event :: "string option \<Rightarrow> web_apps \<Rightarrow> host_failure option \<times> web_apps" where
  "apps_event e w =
     (case e of
        None \<Rightarrow> (Some (app_invalid ''invalid gateway event''), w)
      | Some i \<Rightarrow> (None, w\<lparr>wa_sessions := AList.delete i (wa_sessions w)\<rparr>))"

subsection \<open>The events of the plugin and its host\<close>

datatype apps_step =
    Apps_Start apps_env
  | Apps_Call apps_env apps_request
  | Apps_Closed "string option"
  | Apps_Stop apps_env
  | Apps_Restart
  | Apps_Host browser_event

text \<open>A call of the plugin draws from the identifiers \<open>ids\<close>.\<close>

fun apps_run :: "string option list \<times> apps_step \<Rightarrow> web_apps \<Rightarrow> web_apps" where
  "apps_run (ids, Apps_Start env) w = snd (apps_initialize env (w\<lparr>wa_draws := ids\<rparr>))"
| "apps_run (ids, Apps_Call env req) w = snd (apps_handle env req (w\<lparr>wa_draws := ids\<rparr>))"
| "apps_run (ids, Apps_Closed e) w = snd (apps_event e w)"
| "apps_run (ids, Apps_Stop env) w = apps_shutdown env (w\<lparr>wa_draws := ids\<rparr>)"
| "apps_run (ids, Apps_Restart) w = apps_newPlugin (wa_stored w) (browser_stop web_apps_id (wa_host w))"
| "apps_run (ids, Apps_Host e) w = w\<lparr>wa_host := browser_step e (wa_host w)\<rparr>"

section \<open>A target, as an example\<close>

definition public_wiki :: app_target where
  "public_wiki = \<lparr>at_id = [], at_name = ''wiki'', at_mount = ''/wiki'', at_upstream = ''http://localhost'', at_base = [], at_header = [],
     at_header_value = [], at_insecure = False, at_forward_host = True, at_forward_scheme = False, at_custom = [(''X-Team'', ''a'')]\<rparr>"

definition quiet_env :: apps_env where
  "quiet_env = \<lparr>ae_get = None, ae_put = None, ae_base = ''/'', ae_now = 0\<rparr>"

lemma wiki_origin: "upstream_origin ''http://localhost'' = Inr ''http://localhost''" by code_simp

lemma wiki_headers: "clean_headers [] 0 [] [(''X-Team'', ''a'')] = Inr [(''X-Team'', ''a'')]" by code_simp

lemma wiki_name: "trim_space ''wiki'' = ''wiki''" "valid_utf8 ''wiki''" "\<not> has_control_rune ''wiki''" by code_simp+

lemma wiki_paths: "Mount ''/wiki'' = None" "Validate ''/'' True = None" "trim_suffix ''/'' ''/wiki'' = ''/wiki''" "clean_base [] = ''/''" by code_simp+

lemma wiki_accepted: "app_normalizeTarget public_wiki = Inr (public_wiki\<lparr>at_base := ''/''\<rparr>)"
  by (simp add: app_normalizeTarget_def public_wiki_def wiki_origin wiki_headers wiki_name wiki_paths Let_def bind_result_def del: clean_headers.simps)


lemma wiki_fields: "at_id public_wiki = []" "at_mount public_wiki = ''/wiki''"
  by (simp_all add: public_wiki_def)

lemma wiki_id: "alloc_app [] (Suc 0) = Some (''app-1'', 2)"
proof -
  have "app_id (Suc 0) = ''app-1''" by (simp add: app_id_def) code_simp
  moreover have "\<not> max_uint64 \<le> Suc 0" by (simp add: max_uint64_def)
  ultimately show ?thesis by (subst alloc_app.simps) simp
qed

lemma wiki_assets: "browserAsset ''web/bootstrap.js''" "browserAsset ''web/sw.js''" "browserAsset ''web/bootstrap.html''"
  "is_js ''web/bootstrap.js''" "is_js ''web/sw.js''" by code_simp+

lemma wiki_saved:
  "wa_publications (apps_run ([Some ''r'', Some ''p''], Apps_Call quiet_env (Targets_Save (Some public_wiki)))
     (apps_newPlugin Absent newBrowserPublications)) = [(''app-1'', ''p'')]"
  by (simp add: apps_handle_def apps_answer_def apps_save_def wiki_accepted app_readTargets_def apps_newPlugin_def app_active_def
      place_app_def find_app_def wiki_fields wiki_id move_mount_def publication_of_def forget_publication_def publish_def
      ensureRuntime_def ask_def browser_call_def newBrowserPublications_def runtime_register_def publication_register_def
      wiki_assets wiki_paths owns_runtime_def writeTargets_def quiet_env_def Let_def)

section \<open>What the host accepts\<close>

text \<open>C28: The plugin and the host agree on what a target is: a gateway for a target that the plugin has accepted is never refused for its
  upstream, its paths or its headers, when its host needs no escaping, the public prefix is a valid path and the public origin is
  one that the gateway takes.\<close>

theorem accepted_target_opens:
  assumes "app_normalizeTarget t0 = Inr t" "url_Parse (at_upstream t0) = Some u" "plain_host (u_host u)"
    and "Validate (Join base (pub_mount p)) False = None"
    and "ao_host q = [] \<or> valid_public_host (ao_host q)" "at_forward_host t0 \<longrightarrow> ao_host q \<noteq> []"
    and "at_forward_scheme t0 \<longrightarrow> ao_scheme q \<in> {''http'', ''https''}"
  shows "is_ok (New (gateway_config_of base (gateway_request t i q) p))"
proof -
  note t = normalizeTarget_parts [OF assms(1)]
  obtain w where w: "url_Parse (at_upstream t) = Some w" "is_origin w" "length (at_upstream t) \<le> 2048"
    using upstream_origin_read [OF t(1) assms(2,3)] by blast
  let ?c = "gateway_config_of base (gateway_request t i q) p"
  have c: "gc_upstream_url ?c = at_upstream t" "gc_upstream_base ?c = at_base t" "gc_public_prefix ?c = Join base (pub_mount p)"
    "gc_base_header ?c = at_header t" "gc_base_header_value ?c = at_header_value t" "gc_forward_host ?c = at_forward_host t"
    "gc_forward_scheme ?c = at_forward_scheme t" "gc_public_host ?c = ao_host q" "gc_public_scheme ?c = ao_scheme q"
    "gc_custom ?c = fold (\<lambda>(k, v). header_set k v) (at_custom t) []"
    by (simp_all add: gateway_config_of_def gateway_request_def)
  have "New ?c = Inr w"
    unfolding New_def c using w t assms(4-7) by auto
  then show ?thesis by (simp add: is_ok_def)
qed

theorem accepted_target_opens_witness:
  "is_ok (New (gateway_config_of ''/'' (gateway_request (public_wiki\<lparr>at_base := ''/''\<rparr>) ''p''
       \<lparr>ao_target = ''app-1'', ao_host = ''example.org'', ao_scheme = ''https''\<rparr>)
     \<lparr>pub_id = ''p'', pub_owner = web_apps_id, pub_mount = ''/wiki'', pub_bootstrap = ''web/bootstrap.html'', pub_worker = [],
      pub_runtime = ''r''\<rparr>))"
proof (rule accepted_target_opens [OF wiki_accepted])
  show "url_Parse (at_upstream public_wiki) = Some (empty_url\<lparr>u_scheme := ''http'', u_host := ''localhost''\<rparr>)"
    by (simp add: public_wiki_def) code_simp
  show "plain_host (u_host (empty_url\<lparr>u_scheme := ''http'', u_host := ''localhost''\<rparr>))" by code_simp
  show "Validate (Join ''/'' (pub_mount \<lparr>pub_id = ''p'', pub_owner = web_apps_id, pub_mount = ''/wiki'',
      pub_bootstrap = ''web/bootstrap.html'', pub_worker = [], pub_runtime = ''r''\<rparr>)) False = None" by simp code_simp
  show "ao_host \<lparr>ao_target = ''app-1'', ao_host = ''example.org'', ao_scheme = ''https''\<rparr> = []
      \<or> valid_public_host (ao_host \<lparr>ao_target = ''app-1'', ao_host = ''example.org'', ao_scheme = ''https''\<rparr>)" by simp code_simp
qed simp_all

end
