(* ===== verification/AppPublications.thy ===== *)
theory AppPublications
  imports WebApps
begin

section \<open>The web applications plugin and its publications\<close>

text \<open>
  What the plugin of \<open>WebApps\<close> has at the browser host: an invariant of the plugin, its storage and the host together, that every
  call of the plugin keeps on every path, failures of the storage and of the host included, and every other event of the host.
\<close>

section \<open>The publications of the plugin\<close>

text \<open>The publications at the host that belong to the plugin.\<close>

definition my_mounts :: "browser_host \<Rightarrow> (string \<times> publication) set" where
  "my_mounts h = {(i, p). (i, p) \<in> set (bh_mounts h) \<and> pub_owner p = web_apps_id}"

text \<open>
  The table \<open>pubs\<close> names the publications \<open>S\<close>, each for a target with the mount \<open>M\<close> says, but for those with the identifiers
  \<open>X\<close>, which no target has at the moment.
\<close>

definition published :: "string set \<Rightarrow> (string \<Rightarrow> string option) \<Rightarrow> string table \<Rightarrow> (string \<times> publication) set \<Rightarrow> bool" where
  "published X M pubs S =
     (keys_distinct pubs \<and> distinct (map snd pubs) \<and> X \<inter> snd ` set pubs = {} \<and> X \<subseteq> fst ` S
      \<and> (\<forall>(t, i) \<in> set pubs. i \<noteq> [] \<and> (\<exists>p. (i, p) \<in> S \<and> M t = Some (pub_mount p)))
      \<and> (\<forall>(i, p) \<in> S. i \<in> X \<union> snd ` set pubs))"

lemma publishedI:
  "keys_distinct pubs \<Longrightarrow> distinct (map snd pubs) \<Longrightarrow> X \<inter> snd ` set pubs = {} \<Longrightarrow> X \<subseteq> fst ` S
    \<Longrightarrow> (\<And>t i. (t, i) \<in> set pubs \<Longrightarrow> i \<noteq> [] \<and> (\<exists>p. (i, p) \<in> S \<and> M t = Some (pub_mount p)))
    \<Longrightarrow> (\<And>i p. (i, p) \<in> S \<Longrightarrow> i \<in> X \<union> snd ` set pubs) \<Longrightarrow> published X M pubs S"
  unfolding published_def by blast

lemma published_M: "published X M pubs S \<Longrightarrow> (\<And>t. t \<in> fst ` set pubs \<Longrightarrow> M' t = M t) \<Longrightarrow> published X M' pubs S"
  by (fastforce simp: published_def)

lemma published_keys: "published X M pubs S \<Longrightarrow> t \<in> fst ` set pubs \<Longrightarrow> M t \<noteq> None"
  by (fastforce simp: published_def)

lemma published_entry: "published X M pubs S \<Longrightarrow> (t, i) \<in> set pubs \<Longrightarrow> i \<noteq> [] \<and> (\<exists>p. (i, p) \<in> S \<and> M t = Some (pub_mount p))"
  unfolding published_def by blast

lemma published_ids: "published X M pubs S \<Longrightarrow> i \<in> snd ` set pubs \<Longrightarrow> i \<in> fst ` S"
proof -
  assume p: "published X M pubs S" and "i \<in> snd ` set pubs"
  then obtain t where "(t, i) \<in> set pubs" by auto
  from published_entry [OF p this] show "i \<in> fst ` S" by (auto intro: rev_image_eqI)
qed

lemma snd_delete: "keys_distinct t \<Longrightarrow> distinct (map snd t) \<Longrightarrow> map_of t k = Some i \<Longrightarrow> snd ` set (AList.delete k t) = snd ` set t - {i}"
proof -
  assume d: "keys_distinct t" "distinct (map snd t)" and i: "map_of t k = Some i"
  have "(a, b) \<in> set t \<Longrightarrow> b = i \<longleftrightarrow> a = k" for a b
    using d map_of_SomeD [OF i] unfolding distinct_map by (metis Pair_inject inj_onD snd_conv fst_conv)
  then show ?thesis by (force simp: AList.delete_eq)
qed

lemma delete_sub: "set (AList.delete k t) \<subseteq> set t"
  by (auto simp: AList.delete_eq)

lemma distinct_snd_delete: "distinct (map snd t) \<Longrightarrow> distinct (map snd (AList.delete k t))"
  by (simp add: AList.delete_eq distinct_map_filter)

lemma published_forget:
  assumes "published X M pubs S" "map_of pubs t = Some i"
  shows "published (insert i X) M (AList.delete t pubs) S"
proof -
  have s: "snd ` set (AList.delete t pubs) = snd ` set pubs - {i}" using assms by (intro snd_delete) (auto simp: published_def)
  have "i \<in> snd ` set pubs" using map_of_SomeD [OF assms(2)] by force
  with assms(1) s show ?thesis
    using published_ids [OF assms(1)] delete_sub [of t pubs]
    by (auto simp: published_def distinct_snd_delete distinct_delete)
qed

lemma published_absent:
  assumes "published X M pubs S" "map_of pubs t = None"
  shows "AList.delete t pubs = pubs"
  using assms(2) by (force simp: map_of_eq_None_iff AList.delete_eq filter_id_conv)

lemma published_add:
  assumes "published X M pubs S" "t \<notin> fst ` set pubs" "M t = Some (pub_mount q)" "i \<notin> fst ` S" "i \<noteq> []"
  shows "published X M (AList.update t i pubs) (insert (i, q) S)"
proof -
  have "i \<notin> snd ` set pubs" using published_ids [OF assms(1)] assms(4) by blast
  moreover have "i \<notin> X" using assms(1,4) by (auto simp: published_def)
  ultimately show ?thesis using assms unfolding update_fresh [OF assms(2)]
    by (auto simp: published_def)
qed

lemma published_restore:
  assumes "published (insert i X) M pubs S" "i \<notin> X" "t \<notin> fst ` set pubs" "(i, p) \<in> S" "M t = Some (pub_mount p)" "i \<noteq> []"
  shows "published X M (AList.update t i pubs) S"
  using assms unfolding update_fresh [OF assms(3)] by (auto simp: published_def)

lemma published_drop:
  assumes "published (insert i X) M pubs S" "i \<notin> X"
  shows "published X M pubs {(j, p). (j, p) \<in> S \<and> j \<noteq> i}"
proof -
  have i: "i \<notin> snd ` set pubs" using assms(1) unfolding published_def by blast
  have sub: "X \<subseteq> fst ` {(j, p). (j, p) \<in> S \<and> j \<noteq> i}"
  proof
    fix x assume x: "x \<in> X"
    then obtain p where "(x, p) \<in> S" using assms(1) by (auto simp: published_def)
    with x assms(2) show "x \<in> fst ` {(j, p). (j, p) \<in> S \<and> j \<noteq> i}" by (auto intro!: rev_image_eqI [of "(x, p)"])
  qed
  have entry: "j \<noteq> [] \<and> (\<exists>p. (j, p) \<in> {(j, p). (j, p) \<in> S \<and> j \<noteq> i} \<and> M t = Some (pub_mount p))" if "(t, j) \<in> set pubs" for t j
    using published_entry [OF assms(1) that] that i by (auto intro: rev_image_eqI)
  have named: "j \<in> X \<union> snd ` set pubs" if "(j, p) \<in> S" "j \<noteq> i" for j p
    using assms(1) that unfolding published_def by blast
  have k: "keys_distinct pubs" "distinct (map snd pubs)" "X \<inter> snd ` set pubs = {}"
    using assms(1) unfolding published_def by blast+
  show ?thesis by (rule publishedI [OF k sub entry]) (use named in blast)+
qed

subsection \<open>Effects of a call on the host\<close>

definition drawn :: "string option list \<Rightarrow> string list" where
  "drawn ids = concat (map (\<lambda>x. case x of None \<Rightarrow> [] | Some i \<Rightarrow> [i]) ids)"

lemma drawn_simps [simp]: "drawn [] = []" "drawn (None # ids) = drawn ids" "drawn (Some i # ids) = i # drawn ids"
  by (simp_all add: drawn_def)

text \<open>The identifiers to come are not in use, and no two are the same.\<close>

definition unused :: "browser_host \<Rightarrow> string \<Rightarrow> bool" where
  "unused h i = (i \<noteq> [] \<and> i \<notin> fst ` set (bh_mounts h) \<and> i \<notin> fst ` set (bh_gateways h))"

definition fresh_draws :: "string option list \<Rightarrow> browser_host \<Rightarrow> bool" where
  "fresh_draws ids h = (distinct (drawn ids) \<and> list_all (unused h) (drawn ids))"

text \<open>What a call may put into the tables of the host: the identifier that it drew.\<close>

definition grows_by :: "string option \<Rightarrow> browser_host \<Rightarrow> browser_host \<Rightarrow> bool" where
  "grows_by x h h' =
     (fst ` set (bh_mounts h') \<subseteq> fst ` set (bh_mounts h) \<union> set_option x
      \<and> fst ` set (bh_gateways h') \<subseteq> fst ` set (bh_gateways h) \<union> set_option x)"

lemma unused_grows: "unused h i \<Longrightarrow> grows_by x h h' \<Longrightarrow> x \<noteq> Some i \<Longrightarrow> unused h' i"
  by (cases x) (auto simp: unused_def grows_by_def)

lemma fresh_draws_rest: "fresh_draws (x # rest) h \<Longrightarrow> grows_by x h h' \<Longrightarrow> fresh_draws rest h'"
proof (cases x)
  case None
  assume f: "fresh_draws (x # rest) h" and g: "grows_by x h h'"
  have "unused h' i" if "i \<in> set (drawn rest)" for i
    using f that None by (intro unused_grows [OF _ g]) (auto simp: fresh_draws_def list_all_iff)
  with f None show ?thesis by (simp add: fresh_draws_def list_all_iff)
next
  case (Some a)
  assume f: "fresh_draws (x # rest) h" and g: "grows_by x h h'"
  have "unused h' i" if "i \<in> set (drawn rest)" for i
    using f that Some by (intro unused_grows [OF _ g]) (auto simp: fresh_draws_def list_all_iff)
  with f Some show ?thesis by (simp add: fresh_draws_def list_all_iff)
qed

lemma keys_update: "fst ` set (AList.update k v t) = insert k (fst ` set t)"
  by (induction t) auto

lemma grows_refl: "grows_by x h h"
  by (auto simp: grows_by_def)

lemma grows_sub:
  "set (bh_mounts h') \<subseteq> set (bh_mounts h) \<Longrightarrow> set (bh_gateways h') \<subseteq> set (bh_gateways h) \<Longrightarrow> grows_by x h h'"
  by (auto simp: grows_by_def)

lemma set_gateways_close: "set (bh_gateways (closeLocked i h)) \<subseteq> set (bh_gateways h)"
  by (auto simp: gateways_closeLocked)

lemma set_gateways_close_where: "set (bh_gateways (close_where P h)) \<subseteq> set (bh_gateways h)"
  by (auto simp: close_where_def gateways_fold_closeLocked)

lemma grows_runtime_remove: "grows_by x h (snd (runtime_remove owner p h))"
proof (rule grows_sub)
  show "set (bh_mounts (snd (runtime_remove owner p h))) \<subseteq> set (bh_mounts h)"
    by (auto simp: runtime_remove_def Let_def keep_if_def split: option.split)
  show "set (bh_gateways (snd (runtime_remove owner p h))) \<subseteq> set (bh_gateways h)"
    using set_gateways_close_where by (auto simp: runtime_remove_def Let_def split: option.split)
qed

lemma grows_publication_remove: "grows_by x h (snd (publication_remove owner p h))"
proof (rule grows_sub)
  show "set (bh_mounts (snd (publication_remove owner p h))) \<subseteq> set (bh_mounts h)"
    by (auto simp: publication_remove_def Let_def split: option.split dest!: subsetD [OF delete_sub])
  show "set (bh_gateways (snd (publication_remove owner p h))) \<subseteq> set (bh_gateways h)"
    using set_gateways_close_where by (auto simp: publication_remove_def Let_def split: option.split)
qed

lemma grows_gateway_close: "grows_by x h (snd (gateway_close owner p h))"
proof (rule grows_sub)
  show "set (bh_mounts (snd (gateway_close owner p h))) \<subseteq> set (bh_mounts h)"
    by (auto simp: gateway_close_def split: option.split)
  show "set (bh_gateways (snd (gateway_close owner p h))) \<subseteq> set (bh_gateways h)"
    using set_gateways_close by (auto simp: gateway_close_def split: option.split)
qed

lemma grows_register:
  "grows_by x h (snd (runtime_register owner x p1 h))" "grows_by x h (snd (publication_register owner x p2 h))"
  "grows_by x h (snd (gateway_open_call owner base x p3 h))" "grows_by x h (snd (stream_ticket owner now x p4 h))"
  by (auto simp: runtime_register_def publication_register_def gateway_open_call_def stream_ticket_def grows_by_def keys_update Let_def
      split: option.split sum.split)

lemma grows_call: "grows_by x h (snd (browser_call owner base now x c h))"
  by (simp add: browser_call_def Let_def grows_refl grows_runtime_remove grows_publication_remove grows_gateway_close grows_register
      split: browser_call.split)

text \<open>The plugin with a host and draws that are in order.\<close>

definition base_ok :: "web_apps \<Rightarrow> bool" where
  "base_ok w = (browser_inv (wa_host w) \<and> fresh_draws (wa_draws w) (wa_host w))"

lemma base_ok_update [simp]:
  "base_ok (w\<lparr>wa_runtime := i\<rparr>) = base_ok w" "base_ok (w\<lparr>wa_publications := p\<rparr>) = base_ok w"
  "base_ok (w\<lparr>wa_sessions := s\<rparr>) = base_ok w" "base_ok (w\<lparr>wa_stored := v\<rparr>) = base_ok w"
  by (simp_all add: base_ok_def)

text \<open>What a call of the host leaves alone.\<close>

definition same_plugin :: "web_apps \<Rightarrow> web_apps \<Rightarrow> bool" where
  "same_plugin w w' =
     (wa_publications w' = wa_publications w \<and> wa_sessions w' = wa_sessions w \<and> wa_runtime w' = wa_runtime w
      \<and> wa_stored w' = wa_stored w)"

lemma ask_call:
  assumes "ask env c w = (r, w')" "base_ok w"
  shows "\<exists>x. browser_call web_apps_id (ae_base env) (ae_now env) x c (wa_host w) = (r, wa_host w') \<and> base_ok w' \<and> same_plugin w w'
    \<and> (\<forall>i. x = Some i \<longrightarrow> unused (wa_host w) i)"
proof -
  obtain x rest where d: "(case wa_draws w of [] \<Rightarrow> (None, []) | i # rest \<Rightarrow> (i, rest)) = (x, rest)" by fastforce
  then have draws: "wa_draws w = x # rest \<or> x = None \<and> rest = [] \<and> wa_draws w = []" by (auto split: list.splits)
  obtain h where call: "browser_call web_apps_id (ae_base env) (ae_now env) x c (wa_host w) = (r, h)" and w': "w' = w\<lparr>wa_host := h, wa_draws := rest\<rparr>"
    using assms(1) by (auto simp: ask_def d Let_def split: prod.splits)
  have fresh: "fresh_draws (wa_draws w) (wa_host w)" and inv: "browser_inv (wa_host w)" using assms(2) by (simp_all add: base_ok_def)
  have x: "unused (wa_host w) i" if "x = Some i" for i
    using fresh draws that by (auto simp: fresh_draws_def)
  have fr: "fresh_browser_id (Browser_Call web_apps_id (ae_base env) (ae_now env) x c) (wa_host w)"
    using x by (cases x) (auto simp: unused_def map_of_eq_None_iff)
  have "browser_inv h" using browser_inv_step [OF inv fr] by (simp add: call)
  moreover have "grows_by x (wa_host w) h"
    using grows_call [of x "wa_host w" web_apps_id "ae_base env" "ae_now env" c] unfolding call snd_conv .
  with fresh draws have "fresh_draws rest h"
    using fresh_draws_rest [of x rest "wa_host w" h] by (auto simp: fresh_draws_def)
  ultimately show ?thesis using call x by (intro exI [of _ x]) (simp add: w' base_ok_def same_plugin_def)
qed

lemma my_mounts_same: "bh_mounts h' = bh_mounts h \<Longrightarrow> my_mounts h' = my_mounts h"
  by (simp add: my_mounts_def)

text \<open>A call that registers and removes no mount.\<close>

definition quiet_call :: "browser_call \<Rightarrow> bool" where
  "quiet_call c = (case c of Publication_Register _ \<Rightarrow> False | Publication_Remove _ \<Rightarrow> False | Runtime_Remove _ \<Rightarrow> False | _ \<Rightarrow> True)"

lemma quiet_mounts: "quiet_call c \<Longrightarrow> bh_mounts (snd (browser_call owner base now x c h)) = bh_mounts h"
  by (cases c) (auto simp: quiet_call_def browser_call_def runtime_register_def gateway_open_call_def gateway_close_def stream_ticket_def
      Let_def split: option.split sum.split)

lemma ask_quiet:
  assumes "ask env c w = (r, w')" "base_ok w" "quiet_call c"
  shows "base_ok w' \<and> same_plugin w w' \<and> my_mounts (wa_host w') = my_mounts (wa_host w)"
proof -
  from ask_call [OF assms(1,2)] obtain x where call: "browser_call web_apps_id (ae_base env) (ae_now env) x c (wa_host w) = (r, wa_host w')"
    and w': "base_ok w'" "same_plugin w w'" by blast
  have "bh_mounts (wa_host w') = bh_mounts (wa_host w)"
    using quiet_mounts [OF assms(3), of web_apps_id "ae_base env" "ae_now env" x "wa_host w"] unfolding call snd_conv .
  with w' my_mounts_same show ?thesis by blast
qed

lemma register_call:
  "browser_call owner base now x (Publication_Register (Some (m, b, k, rt))) h = (r, h') \<Longrightarrow>
     (case r of
        Inl _ \<Rightarrow> h' = h
      | Inr a \<Rightarrow> \<exists>i q. x = Some i \<and> a = Answer_Publication q \<and> pub_id q = i \<and> pub_mount q = m \<and> pub_owner q = owner
          \<and> h' = h\<lparr>bh_mounts := AList.update i q (bh_mounts h)\<rparr>)"
  by (auto simp: browser_call_def publication_register_def Let_def split: if_splits option.splits)

lemma ask_register:
  assumes "ask env (Publication_Register (Some (m, b, k, rt))) w = (r, w')" "base_ok w"
  shows "base_ok w' \<and> same_plugin w w' \<and>
    (case r of
       Inl _ \<Rightarrow> my_mounts (wa_host w') = my_mounts (wa_host w)
     | Inr a \<Rightarrow> \<exists>i q. a = Answer_Publication q \<and> pub_id q = i \<and> i \<noteq> [] \<and> i \<notin> fst ` my_mounts (wa_host w) \<and> pub_mount q = m
         \<and> my_mounts (wa_host w') = insert (i, q) (my_mounts (wa_host w)))"
proof -
  from ask_call [OF assms] obtain x where call: "browser_call web_apps_id (ae_base env) (ae_now env) x
      (Publication_Register (Some (m, b, k, rt))) (wa_host w) = (r, wa_host w')"
    and w': "base_ok w'" "same_plugin w w'" and fresh: "\<And>i. x = Some i \<Longrightarrow> unused (wa_host w) i" by blast
  show ?thesis
  proof (cases r)
    case (Inl e)
    with register_call [OF call] have "wa_host w' = wa_host w" by simp
    with w' Inl show ?thesis by simp
  next
    case (Inr a)
    with register_call [OF call] obtain i q where i: "x = Some i" and a: "a = Answer_Publication q" "pub_id q = i" "pub_mount q = m" "pub_owner q = web_apps_id"
      and h: "wa_host w' = (wa_host w)\<lparr>bh_mounts := AList.update i q (bh_mounts (wa_host w))\<rparr>" by auto
    from fresh [OF i] have new: "i \<noteq> []" "i \<notin> fst ` set (bh_mounts (wa_host w))" by (simp_all add: unused_def)
    then have "my_mounts (wa_host w') = insert (i, q) (my_mounts (wa_host w))" "i \<notin> fst ` my_mounts (wa_host w)"
      using a(4) by (auto simp: my_mounts_def h update_fresh)
    with w' new(1) a Inr show ?thesis by auto
  qed
qed

lemma remove_call:
  "map_of (bh_mounts h) i = Some p \<Longrightarrow> pub_owner p = owner \<Longrightarrow> \<not> bh_closed h \<Longrightarrow> i \<noteq> [] \<Longrightarrow>
     bh_mounts (snd (browser_call owner base now x (Publication_Remove (Some i)) h)) = AList.delete i (bh_mounts h)"
  by (simp add: browser_call_def publication_remove_def Let_def)

lemma ask_remove:
  assumes "ask env (Publication_Remove (Some i)) w = (r, w')" "base_ok w" "i \<in> fst ` my_mounts (wa_host w)" "i \<noteq> []"
  shows "base_ok w' \<and> same_plugin w w' \<and> my_mounts (wa_host w') = {(j, p). (j, p) \<in> my_mounts (wa_host w) \<and> j \<noteq> i}"
proof -
  from ask_call [OF assms(1,2)] obtain x where call: "browser_call web_apps_id (ae_base env) (ae_now env) x
      (Publication_Remove (Some i)) (wa_host w) = (r, wa_host w')" and w': "base_ok w'" "same_plugin w w'" by blast
  have inv: "browser_inv (wa_host w)" using assms(2) by (simp add: base_ok_def)
  from assms(3) obtain p where p: "(i, p) \<in> set (bh_mounts (wa_host w))" "pub_owner p = web_apps_id" by (auto simp: my_mounts_def)
  then have m: "map_of (bh_mounts (wa_host w)) i = Some p" using inv by (simp add: browser_inv_def)
  have "\<not> bh_closed (wa_host w)" using inv p(1) by (auto simp: browser_inv_def)
  from remove_call [OF m p(2) this assms(4), of "ae_base env" "ae_now env" x]
  have "bh_mounts (wa_host w') = AList.delete i (bh_mounts (wa_host w))" unfolding call snd_conv .
  with w' show ?thesis by (auto simp: my_mounts_def AList.delete_eq)
qed

subsection \<open>Publishing and removing\<close>

text \<open>The plugin is in order with its publications; storage and sessions are not touched.\<close>

definition plugin_ok :: "string set \<Rightarrow> (string \<Rightarrow> string option) \<Rightarrow> web_apps \<Rightarrow> bool" where
  "plugin_ok X M w = (base_ok w \<and> published X M (wa_publications w) (my_mounts (wa_host w)))"

definition steady :: "web_apps \<Rightarrow> web_apps \<Rightarrow> bool" where
  "steady w w' = (wa_stored w' = wa_stored w \<and> wa_sessions w' = wa_sessions w)"

lemma steady_refl [simp]: "steady w w"
  by (simp add: steady_def)

lemma steady_trans: "steady u v \<Longrightarrow> steady v w \<Longrightarrow> steady u w"
  by (simp add: steady_def)

lemma publication_of_known: "plugin_ok X M w \<Longrightarrow> publication_of i w = [] \<longleftrightarrow> i \<notin> fst ` set (wa_publications w)"
proof (cases "map_of (wa_publications w) i")
  case None
  then have "i \<notin> fst ` set (wa_publications w)" by (rule map_of_eq_None_iff [THEN iffD1])
  with None show ?thesis by (simp add: publication_of_def)
next
  case (Some q)
  assume "plugin_ok X M w"
  then have "q \<noteq> []" using published_entry [OF _ map_of_SomeD [OF Some]] by (auto simp: plugin_ok_def)
  moreover have "i \<in> fst ` set (wa_publications w)" using map_of_SomeD [OF Some] by (force intro: rev_image_eqI)
  ultimately show ?thesis using Some by (simp add: publication_of_def)
qed

lemma publication_of_entry:
  "plugin_ok X M w \<Longrightarrow> publication_of i w \<noteq> [] \<Longrightarrow> map_of (wa_publications w) i = Some (publication_of i w)
     \<and> (\<exists>p. (publication_of i w, p) \<in> my_mounts (wa_host w) \<and> M i = Some (pub_mount p)) \<and> publication_of i w \<notin> X"
proof -
  assume ok: "plugin_ok X M w" and q: "publication_of i w \<noteq> []"
  then have m: "map_of (wa_publications w) i = Some (publication_of i w)" by (auto simp: publication_of_def split: option.splits)
  from ok have p: "published X M (wa_publications w) (my_mounts (wa_host w))" by (simp add: plugin_ok_def)
  have "publication_of i w \<in> snd ` set (wa_publications w)" using map_of_SomeD [OF m] by (force intro: rev_image_eqI)
  with p have "publication_of i w \<notin> X" unfolding published_def by blast
  with m published_entry [OF p map_of_SomeD [OF m]] show ?thesis by blast
qed

lemma ensureRuntime_ok:
  assumes "ensureRuntime env w = (r, w')" "plugin_ok X M w"
  shows "plugin_ok X M w' \<and> steady w w' \<and> wa_publications w' = wa_publications w \<and> my_mounts (wa_host w') = my_mounts (wa_host w)"
proof (cases "wa_runtime w = []")
  case True
  obtain a w1 where ask: "ask env (Runtime_Register (Some (''web/bootstrap.js'', ''web/sw.js''))) w = (a, w1)" by fastforce
  from assms(2) have "base_ok w" by (simp add: plugin_ok_def)
  from ask_quiet [OF ask this] have w1: "base_ok w1" "same_plugin w w1" "my_mounts (wa_host w1) = my_mounts (wa_host w)"
    by (simp_all add: quiet_call_def)
  moreover from assms(1) True ask have "w' = w1 \<or> (\<exists>i. w' = w1\<lparr>wa_runtime := i\<rparr>)"
    by (auto simp: ensureRuntime_def Let_def split: sum.splits if_splits)
  ultimately show ?thesis using assms(2) by (elim disjE exE) (simp_all add: plugin_ok_def same_plugin_def steady_def)
qed (use assms in \<open>simp add: ensureRuntime_def\<close>)

definition publish_result :: "string set \<Rightarrow> (string \<Rightarrow> string option) \<Rightarrow> string \<Rightarrow> web_apps \<Rightarrow> host_failure option \<Rightarrow> web_apps \<Rightarrow> bool" where
  "publish_result X M i w r w' =
     (plugin_ok X M w' \<and> steady w w' \<and> my_mounts (wa_host w) \<subseteq> my_mounts (wa_host w')
      \<and> (case r of Some _ \<Rightarrow> wa_publications w' = wa_publications w | None \<Rightarrow> i \<in> fst ` set (wa_publications w') \<and> fst ` set (wa_publications w') \<subseteq> insert i (fst ` set (wa_publications w))))"

lemma publish_ok:
  assumes "publish env t w = (r, w')" "plugin_ok X M w" "M (at_id t) = Some (at_mount t)"
  shows "publish_result X M (at_id t) w r w'"
proof -
  obtain r1 w1 where e: "ensureRuntime env w = (r1, w1)" by fastforce
  note w1 = ensureRuntime_ok [OF e assms(2)]
  show ?thesis
  proof (cases r1)
    case (Some f)
    with assms(1) e w1 show ?thesis by (auto simp: publish_def publish_result_def)
  next
    case None
    show ?thesis
    proof (cases "publication_of (at_id t) w1 = []")
      case False
      then have "at_id t \<in> fst ` set (wa_publications w1)" using publication_of_known w1 by blast
      with assms(1) e w1 None False show ?thesis by (auto simp: publish_def publish_result_def)
    next
      case True
      obtain a w2 where ask: "ask env (Publication_Register (Some (at_mount t, ''web/bootstrap.html'', [], wa_runtime w1))) w1 = (a, w2)"
        by fastforce
      have b: "base_ok w1" using w1 by (simp add: plugin_ok_def)
      note w2 = ask_register [OF ask b]
      show ?thesis
      proof (cases a)
        case (Inl f)
        with assms(1) e None True ask have "r = Some f" "w' = w2" by (simp_all add: publish_def)
        with w1 w2 Inl assms(2) show ?thesis by (simp add: publish_result_def plugin_ok_def same_plugin_def steady_def)
      next
        case (Inr c)
        with w2 obtain q where q: "c = Answer_Publication q" "pub_id q \<noteq> []" "pub_id q \<notin> fst ` my_mounts (wa_host w1)"
          "pub_mount q = at_mount t" "my_mounts (wa_host w2) = insert (pub_id q, q) (my_mounts (wa_host w1))" by auto
        with assms(1) e None True ask Inr have r: "r = None"
          "w' = w2\<lparr>wa_publications := AList.update (at_id t) (pub_id q) (wa_publications w2)\<rparr>"
          by (simp_all add: publish_def)
        have "at_id t \<notin> fst ` set (wa_publications w1)" using publication_of_known w1 True by blast
        moreover have "published X M (wa_publications w1) (my_mounts (wa_host w1))" using w1 by (auto simp: plugin_ok_def)
        ultimately have "published X M (AList.update (at_id t) (pub_id q) (wa_publications w1)) (my_mounts (wa_host w2))"
          unfolding q(5) using assms(3) q by (intro published_add) simp_all
        with w1 w2 q(5) r show ?thesis
          by (auto simp: publish_result_def plugin_ok_def same_plugin_def steady_def keys_update)
      qed
    qed
  qed
qed

lemma forget_ok:
  assumes "plugin_ok X M w" "publication_of i w \<noteq> []"
  shows "plugin_ok (insert (publication_of i w) X) M (forget_publication i w) \<and> steady w (forget_publication i w)"
  using published_forget [of X M "wa_publications w" "my_mounts (wa_host w)" i] publication_of_entry [OF assms] assms(1)
  by (auto simp: plugin_ok_def forget_publication_def steady_def)

lemma forget_absent: "plugin_ok X M w \<Longrightarrow> publication_of i w = [] \<Longrightarrow> forget_publication i w = w"
  using publication_of_known [of X M w i] published_absent [of X M "wa_publications w" "my_mounts (wa_host w)" i]
  by (simp add: plugin_ok_def forget_publication_def map_of_eq_None_iff)

text \<open>A publication that no target has any more is removed at the host.\<close>

lemma remove_ok:
  assumes "plugin_ok (insert i X) M w" "i \<notin> X" "i \<noteq> []" "ask env (Publication_Remove (Some i)) w = (r, w')"
  shows "plugin_ok X M w' \<and> steady w w' \<and> wa_publications w' = wa_publications w
    \<and> my_mounts (wa_host w') = {(j, p). (j, p) \<in> my_mounts (wa_host w) \<and> j \<noteq> i}"
proof -
  have b: "base_ok w" and p: "published (insert i X) M (wa_publications w) (my_mounts (wa_host w))"
    using assms(1) by (simp_all add: plugin_ok_def)
  then have "i \<in> fst ` my_mounts (wa_host w)" unfolding published_def by blast
  from ask_remove [OF assms(4) b this assms(3)] published_drop [OF p assms(2)] show ?thesis
    by (simp add: plugin_ok_def same_plugin_def steady_def)
qed

lemma ask_forget: "forget_publication i (snd (ask env c w)) = snd (ask env c (forget_publication i w))"
  by (simp add: ask_def forget_publication_def Let_def split: prod.split list.split)

lemma removePublication_alt:
  "removePublication env i w =
     (if publication_of i w = [] then w else snd (ask env (Publication_Remove (Some (publication_of i w))) (forget_publication i w)))"
proof -
  have "removePublication env i w =
      (if publication_of i w = [] then w else forget_publication i (snd (ask env (Publication_Remove (Some (publication_of i w))) w)))"
    by (simp add: removePublication_def forget_publication_def Let_def)
  then show ?thesis by (simp only: ask_forget)
qed

lemma removePublication_ok:
  assumes "plugin_ok X M w"
  shows "plugin_ok X M (removePublication env i w) \<and> steady w (removePublication env i w)
    \<and> wa_publications (removePublication env i w) = AList.delete i (wa_publications w)
    \<and> (\<forall>(j, p) \<in> my_mounts (wa_host w). j \<noteq> publication_of i w \<longrightarrow> (j, p) \<in> my_mounts (wa_host (removePublication env i w)))"
proof (cases "publication_of i w = []")
  case True
  then have "i \<notin> fst ` set (wa_publications w)" using publication_of_known [OF assms] by simp
  then have "AList.delete i (wa_publications w) = wa_publications w" by (force simp: AList.delete_eq filter_id_conv)
  with True assms show ?thesis by (auto simp: removePublication_alt)
next
  case False
  let ?q = "publication_of i w"
  note f = forget_ok [OF assms False]
  obtain r w' where ask: "ask env (Publication_Remove (Some ?q)) (forget_publication i w) = (r, w')" by fastforce
  from publication_of_entry [OF assms False] have "?q \<notin> X" by blast
  from remove_ok [OF _ this False ask] f have w': "plugin_ok X M w'" "steady (forget_publication i w) w'"
    "wa_publications w' = wa_publications (forget_publication i w)"
    "my_mounts (wa_host w') = {(j, p). (j, p) \<in> my_mounts (wa_host (forget_publication i w)) \<and> j \<noteq> ?q}" by blast+
  moreover have "removePublication env i w = w'" using False by (simp add: removePublication_alt ask)
  ultimately show ?thesis using f by (auto simp: forget_publication_def steady_def)
qed

lemma keys_delete: "fst ` set (AList.delete k t) = fst ` set t - {k}"
  by (auto simp: AList.delete_eq image_iff)

lemma plugin_ok_M: "plugin_ok X M w \<Longrightarrow> (\<And>k. k \<in> fst ` set (wa_publications w) \<Longrightarrow> M' k = M k) \<Longrightarrow> plugin_ok X M' w"
  unfolding plugin_ok_def using published_M by blast

text \<open>What is set aside while a target moves: the old publication, unless it is gone already.\<close>

lemma restore_ok:
  assumes "plugin_ok (if prior \<noteq> [] \<and> \<not> removed then {prior} else {}) M w" "i \<notin> fst ` set (wa_publications w)"
    and "removed \<Longrightarrow> at_id old = i \<and> M i = Some (at_mount old)"
    and "prior \<noteq> [] \<Longrightarrow> \<not> removed \<Longrightarrow> \<exists>p. (prior, p) \<in> my_mounts (wa_host w) \<and> M i = Some (pub_mount p)"
  shows "plugin_ok {} M (restore_publication env old prior removed i w) \<and> steady w (restore_publication env old prior removed i w)"
proof (cases removed)
  case True
  obtain r w' where p: "publish env old w = (r, w')" by fastforce
  from publish_ok [OF p, of "{}" M] assms True show ?thesis by (simp add: restore_publication_def p publish_result_def)
next
  case removed: False
  show ?thesis
  proof (cases "prior = []")
    case False
    with assms(4) removed obtain p where p: "(prior, p) \<in> my_mounts (wa_host w)" "M i = Some (pub_mount p)" by blast
    have "published {} M (AList.update i prior (wa_publications w)) (my_mounts (wa_host w))"
      using assms(1,2) removed False by (intro published_restore [of prior "{}" M _ _ i p]) (simp_all add: plugin_ok_def p)
    with assms(1) removed False show ?thesis by (simp add: restore_publication_def plugin_ok_def steady_def)
  qed (use assms(1) removed in \<open>simp add: restore_publication_def\<close>)
qed

text \<open>The outcome of a call that may write the store: on a failure nothing has changed, on success the targets are \<open>s\<close>.\<close>

definition saved_result :: "(string \<Rightarrow> string option) \<Rightarrow> app_store \<Rightarrow> web_apps \<Rightarrow> ('e, 'a) result \<Rightarrow> web_apps \<Rightarrow> bool" where
  "saved_result M s w r w' =
     (case r of
        Inl _ \<Rightarrow> plugin_ok {} M w' \<and> steady w w'
      | Inr _ \<Rightarrow> plugin_ok {} (map_of (stored_mounts (Readable s))) w' \<and> wa_stored w' = Readable s)"

lemma writeTargets_cases:
  assumes "writeTargets env s w = (r, w')"
  obtains f where "r = Some f" "w' = w" | "r = None" "w' = w\<lparr>wa_stored := Readable s\<rparr>"
proof (cases "ae_put env")
  case None
  with assms show thesis by (intro that(2)) (simp_all add: writeTargets_def)
next
  case (Some e)
  with assms show thesis by (intro that(1) [of "app_hostError e"]) (simp_all add: writeTargets_def)
qed

lemma plugin_ok_stored [simp]: "plugin_ok X M (w\<lparr>wa_stored := v\<rparr>) = plugin_ok X M w"
  by (simp add: plugin_ok_def)

lemma publication_of_stored [simp]: "publication_of i (w\<lparr>wa_stored := v\<rparr>) = publication_of i w"
  by (simp add: publication_of_def)

lemma move_mount_ok:
  assumes ok: "plugin_ok {} M w"
    and old: "publication_of (at_id t) w \<noteq> [] \<Longrightarrow> at_id old = at_id t \<and> M (at_id t) = Some (at_mount old)"
    and new: "map_of (stored_mounts (Readable s)) (at_id t) = Some (at_mount t)"
    and rest: "\<And>k. k \<noteq> at_id t \<Longrightarrow> k \<in> fst ` set (wa_publications w) \<Longrightarrow> map_of (stored_mounts (Readable s)) k = M k"
    and move: "move_mount env old t s w = (r, w')"
  shows "saved_result M s w r w'"
proof -
  define M' where "M' = map_of (stored_mounts (Readable s))"
  define i where "i = at_id t"
  define prior where "prior = publication_of i w"
  define removed where "removed = (prior \<noteq> [] \<and> Overlap (at_mount old) (at_mount t))"
  define X where "X = (if prior \<noteq> [] \<and> \<not> removed then {prior} else {})"
  define w1 where "w1 = forget_publication i (if removed then removePublication env i w else w)"
  note old' = old [folded i_def, folded prior_def]
  have w1: "plugin_ok X M w1 \<and> steady w w1 \<and> wa_publications w1 = AList.delete i (wa_publications w)
    \<and> (prior \<noteq> [] \<longrightarrow> \<not> removed \<longrightarrow> (\<exists>p. (prior, p) \<in> my_mounts (wa_host w1) \<and> M i = Some (pub_mount p)))"
  proof (cases removed)
    case True
    note rm = removePublication_ok [OF ok, of env i]
    then have "i \<notin> fst ` set (wa_publications (removePublication env i w))" by (simp add: keys_delete)
    then have "publication_of i (removePublication env i w) = []" using rm publication_of_known by blast
    with rm forget_absent have "w1 = removePublication env i w" using True by (auto simp: w1_def)
    with rm True show ?thesis by (simp add: X_def)
  next
    case False
    show ?thesis
    proof (cases "prior = []")
      case True
      then have w: "forget_publication i w = w" using forget_absent [OF ok] by (simp add: prior_def)
      have "wa_publications (forget_publication i w) = AList.delete i (wa_publications w)" by (simp add: forget_publication_def)
      with w have "wa_publications w = AList.delete i (wa_publications w)" by simp
      with w ok True False show ?thesis by (simp add: X_def w1_def)
    next
      case prior: False
      from forget_ok [OF ok, of i] publication_of_entry [OF ok, of i] prior False show ?thesis
        by (auto simp: w1_def X_def prior_def forget_publication_def)
    qed
  qed
  then have i1: "i \<notin> fst ` set (wa_publications w1)" by (simp add: keys_delete)
  have same: "M' k = M k" if "k \<in> fst ` set (wa_publications w1)" for k
    using that w1 rest [folded i_def M'_def, of k] by (simp add: keys_delete)
  have w1': "plugin_ok X M' w1" using w1 same by (intro plugin_ok_M [of X M w1 M']) blast+
  obtain r2 w2 where p: "publish env t w1 = (r2, w2)" by fastforce
  note w2 = publish_ok [OF p w1'] new [folded M'_def]
  then have w2: "publish_result X M' i w1 r2 w2" by (simp add: i_def)
  have undo: "plugin_ok {} M (restore_publication env old prior removed i v) \<and> steady w (restore_publication env old prior removed i v)"
    if v: "plugin_ok X M' v" "i \<notin> fst ` set (wa_publications v)" "fst ` set (wa_publications v) \<subseteq> fst ` set (wa_publications w1)" "steady w1 v"
      "\<And>p. prior \<noteq> [] \<Longrightarrow> \<not> removed \<Longrightarrow> (prior, p) \<in> my_mounts (wa_host w1) \<Longrightarrow> (prior, p) \<in> my_mounts (wa_host v)" for v
  proof -
    have "plugin_ok X M v" using v(1,3) same by (intro plugin_ok_M [of X M' v M]) (auto simp: subset_iff)
    then have "plugin_ok (if prior \<noteq> [] \<and> \<not> removed then {prior} else {}) M v" by (simp only: X_def)
    then have "plugin_ok {} M (restore_publication env old prior removed i v) \<and> steady v (restore_publication env old prior removed i v)"
      using v(2,5) w1 old' by (intro restore_ok) (auto simp: removed_def)
    with v(4) w1 steady_trans show ?thesis by blast
  qed
  have mm: "move_mount env old t s w =
      (case (r2, w2) of
         (Some f, w) \<Rightarrow> (Inl f, restore_publication env old prior removed i w)
       | (None, w) \<Rightarrow>
           (case writeTargets env s w of
              (Some f, w3) \<Rightarrow> (Inl f, restore_publication env old prior removed i
                  (forget_publication i (snd (ask env (Publication_Remove (Some (publication_of i w))) w3))))
            | (None, w3) \<Rightarrow> (Inr t, if prior \<noteq> [] \<and> \<not> removed then snd (ask env (Publication_Remove (Some prior)) w3) else w3)))"
    unfolding move_mount_def Let_def i_def [symmetric] prior_def [symmetric] removed_def [symmetric] w1_def [symmetric] p
    by (simp split: option.split)
  show ?thesis
  proof (cases r2)
    case (Some f)
    with move mm have "r = Inl f" "w' = restore_publication env old prior removed i w2" by simp_all
    moreover have "plugin_ok {} M (restore_publication env old prior removed i w2) \<and> steady w (restore_publication env old prior removed i w2)"
      using w2 Some i1 by (intro undo) (auto simp: publish_result_def)
    ultimately show ?thesis by (simp add: saved_result_def)
  next
    case None
    then have i2: "i \<in> fst ` set (wa_publications w2)" "fst ` set (wa_publications w2) \<subseteq> insert i (fst ` set (wa_publications w1))"
      "plugin_ok X M' w2" "steady w1 w2" "my_mounts (wa_host w1) \<subseteq> my_mounts (wa_host w2)"
      using w2 by (simp_all add: publish_result_def)
    then have q: "publication_of i w2 \<noteq> []" using publication_of_known by blast
    note q' = publication_of_entry [OF i2(3) q]
    obtain r3 w3 where wr: "writeTargets env s w2 = (r3, w3)" by fastforce
    then show ?thesis
    proof (cases rule: writeTargets_cases)
      case (1 f)
      let ?v = "removePublication env i w2"
      from move mm None wr 1 q have r: "r = Inl f" "w' = restore_publication env old prior removed i ?v"
        by (simp_all add: removePublication_alt ask_forget)
      note rm = removePublication_ok [OF i2(3), of env i]
      have keys: "fst ` set (wa_publications ?v) = fst ` set (wa_publications w2) - {i}" using rm by (simp add: keys_delete)
      have "plugin_ok {} M (restore_publication env old prior removed i ?v) \<and> steady w (restore_publication env old prior removed i ?v)"
      proof (rule undo)
        show "plugin_ok X M' ?v" using rm by blast
        show "i \<notin> fst ` set (wa_publications ?v)" by (simp add: keys)
        show "fst ` set (wa_publications ?v) \<subseteq> fst ` set (wa_publications w1)" using keys i2(2) by auto
        show "steady w1 ?v" using rm i2(4) steady_trans by blast
        show "(prior, p) \<in> my_mounts (wa_host ?v)" if "prior \<noteq> []" "\<not> removed" "(prior, p) \<in> my_mounts (wa_host w1)" for p
          using rm i2(5) that q' by (auto simp: X_def)
      qed
      with r show ?thesis by (simp add: saved_result_def)
    next
      case 2
      with move mm None wr have r: "r = Inr t"
        "w' = (if prior \<noteq> [] \<and> \<not> removed then snd (ask env (Publication_Remove (Some prior)) w3) else w3)" by auto
      show ?thesis
      proof (cases "prior \<noteq> [] \<and> \<not> removed")
        case True
        obtain a w4 where ask: "ask env (Publication_Remove (Some prior)) w3 = (a, w4)" by fastforce
        have "plugin_ok (insert prior {}) M' w3" using i2(3) True 2 by (simp add: X_def)
        from remove_ok [OF this _ _ ask] True have "plugin_ok {} M' w4" "steady w3 w4" by simp_all
        with r True ask 2 show ?thesis by (simp add: saved_result_def M'_def steady_def)
      next
        case False
        with r 2 i2(3) show ?thesis by (simp add: saved_result_def M'_def X_def)
      qed
    qed
  qed
qed

subsection \<open>Every call\<close>

definition mount_map :: "web_apps \<Rightarrow> string \<Rightarrow> string option" where
  "mount_map w = map_of (stored_mounts (wa_stored w))"

text \<open>The invariant, but for the identifiers to come.\<close>

definition apps_ok :: "web_apps \<Rightarrow> bool" where
  "apps_ok w = (browser_inv (wa_host w) \<and> published {} (mount_map w) (wa_publications w) (my_mounts (wa_host w)))"

lemma plugin_apps_ok: "plugin_ok {} (mount_map w) w \<Longrightarrow> apps_ok w"
  by (simp add: plugin_ok_def base_ok_def apps_ok_def)

lemma apps_ok_start: "apps_ok w \<Longrightarrow> fresh_draws ids (wa_host w) \<Longrightarrow> plugin_ok {} (mount_map (w\<lparr>wa_draws := ids\<rparr>)) (w\<lparr>wa_draws := ids\<rparr>)"
  by (simp add: plugin_ok_def base_ok_def apps_ok_def mount_map_def)

definition kept :: "web_apps \<Rightarrow> bool" where
  "kept w = plugin_ok {} (mount_map w) w"

lemma kept_steady: "plugin_ok {} (mount_map w) w' \<Longrightarrow> steady w w' \<Longrightarrow> kept w'"
  by (simp add: kept_def mount_map_def steady_def)

lemma find_app_mount:
  "app_readTargets got (wa_stored w) = Inr s \<Longrightarrow> find_app i s = Some t \<Longrightarrow> at_id t = i \<and> mount_map w i = Some (at_mount t)"
proof -
  assume read: "app_readTargets got (wa_stored w) = Inr s" and find: "find_app i s = Some t"
  then have t: "t \<in> set (as_targets s)" "at_id t = i" by (auto simp: find_app_def find_Some_iff)
  have "distinct (map fst (map (\<lambda>t. (at_id t, at_mount t)) (as_targets s)))"
    using readTargets_ok(2) [OF read] by (simp add: comp_def)
  then have "map_of (map (\<lambda>t. (at_id t, at_mount t)) (as_targets s)) i = Some (at_mount t)"
    using t by (intro map_of_is_SomeI) force+
  with t(2) readTargets_ok(1) [OF read] show ?thesis by (simp add: mount_map_def)
qed

lemma find_app_none:
  "app_readTargets got (wa_stored w) = Inr s \<Longrightarrow> find_app i s = None \<longleftrightarrow> mount_map w i = None"
proof -
  assume read: "app_readTargets got (wa_stored w) = Inr s"
  have "find_app i s = None \<longleftrightarrow> i \<notin> fst ` set (map (\<lambda>t. (at_id t, at_mount t)) (as_targets s))"
    by (force simp: find_app_def find_None_iff)
  then show ?thesis using readTargets_ok(1) [OF read] by (simp add: mount_map_def map_of_eq_None_iff)
qed

text \<open>The mounts of a list with a target replaced or added.\<close>

lemma mounts_replaced:
  assumes "map_of (map (\<lambda>t. (at_id t, at_mount t)) ts) (at_id t) \<noteq> None"
  shows "map_of (map (\<lambda>t. (at_id t, at_mount t)) (map (\<lambda>u. if at_id u = at_id t then t else u) ts))
    = (map_of (map (\<lambda>t. (at_id t, at_mount t)) ts)) (at_id t \<mapsto> at_mount t)"
  using assms
proof (induction ts)
  case (Cons u ts)
  have "map_of (map (\<lambda>t. (at_id t, at_mount t)) (map (\<lambda>u. if at_id u = at_id t then t else u) ts))
      = (if map_of (map (\<lambda>t. (at_id t, at_mount t)) ts) (at_id t) = None then map_of (map (\<lambda>t. (at_id t, at_mount t)) ts)
         else (map_of (map (\<lambda>t. (at_id t, at_mount t)) ts)) (at_id t \<mapsto> at_mount t))"
  proof (cases "map_of (map (\<lambda>t. (at_id t, at_mount t)) ts) (at_id t) = None")
    case True
    then have "at_id t \<notin> at_id ` set ts" by (simp add: map_of_eq_None_iff image_image comp_def)
    then have "\<forall>u \<in> set ts. at_id u \<noteq> at_id t" by (metis imageI)
    then have "map (\<lambda>u. if at_id u = at_id t then t else u) ts = ts" by (induction ts) auto
    with True show ?thesis by simp
  next
    case False
    show ?thesis by (simp only: False Cons.IH [OF False] if_False)
  qed
  with Cons.prems show ?case by (auto simp: fun_eq_iff)
qed simp

lemma apps_save_kept: "kept w \<Longrightarrow> apps_save env req w = (r, w') \<Longrightarrow> kept w'"
proof -
  assume ok: "kept w" and save: "apps_save env req w = (r, w')"
  show ?thesis
  proof (cases "w' = w")
    case False
    with save obtain t0 t s where t: "app_normalizeTarget t0 = Inr t" and read: "app_readTargets (ae_get env) (wa_stored w) = Inr s"
      and known: "at_id t = [] \<or> find_app (at_id t) s \<noteq> None" and place: "place_app env t s w = (r, w')"
      by (auto simp: apps_save_def split: option.splits sum.splits if_splits)
    note targets = readTargets_ok [OF read]
    have mount: "Mount (at_mount t) = None" using normalizeTarget_mount [OF t] by blast
    have all: "list_all (\<lambda>t. Mount (at_mount t) = None) (as_targets s)" using targets(3) by (auto simp: list_all_iff)
    have plug: "plugin_ok {} (mount_map w) w" using ok by (simp add: kept_def)
    have known_keys: "mount_map w k \<noteq> None" if "k \<in> fst ` set (wa_publications w)" for k
      using published_keys that plug unfolding plugin_ok_def by blast
    have done': "kept w'" if "saved_result (mount_map w) s' w r w'" for s'
    proof (cases r)
      case (Inl f)
      with that have "plugin_ok {} (mount_map w) w'" "steady w w'" by (simp_all add: saved_result_def)
      then show ?thesis by (rule kept_steady)
    next
      case (Inr t)
      with that show ?thesis by (simp add: saved_result_def kept_def mount_map_def)
    qed
    show ?thesis
    proof (cases "find_app (at_id t) s")
      case None
      with place False obtain i n where i: "alloc_app (map at_id (as_targets s)) (as_next s) = Some (i, n)"
        and m: "move_mount env no_target (t\<lparr>at_id := i\<rparr>) (s\<lparr>as_next := n, as_targets := as_targets s @ [t\<lparr>at_id := i\<rparr>]\<rparr>) w = (r, w')"
        by (auto simp: place_app_def Let_def split: if_splits option.splits)
      have new: "i \<notin> set (map at_id (as_targets s))" using alloc_app_fresh [OF i] by blast
      then have "find_app i s = None" by (auto simp: find_app_def find_None_iff)
      then have none: "mount_map w i = None" using find_app_none [OF read] by blast
      let ?s = "s\<lparr>as_next := n, as_targets := as_targets s @ [t\<lparr>at_id := i\<rparr>]\<rparr>"
      have "stored_mounts (Readable ?s) = stored_mounts (wa_stored w) @ [(i, at_mount t)]"
        using all mount targets(1) by (subst stored_mounts_written) auto
      then have ms: "map_of (stored_mounts (Readable ?s)) = (mount_map w) (i \<mapsto> at_mount t)"
        using none by (auto simp: mount_map_def fun_eq_iff map_add_def split: option.split)
      have "publication_of i w = []" using known_keys [of i] none publication_of_known [OF plug, of i] by blast
      then have "saved_result (mount_map w) ?s w r w'"
        by (intro move_mount_ok [OF plug _ _ _ m]) (auto simp: ms)
      then show ?thesis by (rule done')
    next
      case (Some old)
      note o' = find_app_mount [OF read Some]
      let ?s = "replace_app t s"
      have "list_all (\<lambda>t. Mount (at_mount t) = None) (as_targets ?s)"
        using all mount by (auto simp: replace_app_def list_all_iff)
      from stored_mounts_written [OF this]
      have "map_of (stored_mounts (Readable ?s))
          = map_of (map (\<lambda>t. (at_id t, at_mount t)) (map (\<lambda>u. if at_id u = at_id t then t else u) (as_targets s)))"
        by (simp add: replace_app_def)
      also have "\<dots> = (mount_map w) (at_id t \<mapsto> at_mount t)"
        using o' targets(1) by (subst mounts_replaced) (simp_all add: mount_map_def)
      finally have ms: "map_of (stored_mounts (Readable ?s)) = (mount_map w) (at_id t \<mapsto> at_mount t)" .
      show ?thesis
      proof (cases "at_mount old = at_mount t")
        case False
        with place Some have m: "move_mount env old t ?s w = (r, w')" by (simp add: place_app_def)
        have "saved_result (mount_map w) ?s w r w'"
          using o' by (intro move_mount_ok [OF plug _ _ _ m]) (auto simp: ms)
        then show ?thesis by (rule done')
      next
        case True
        with place Some False have "w' = w\<lparr>wa_stored := Readable ?s\<rparr>"
          by (auto simp: place_app_def writeTargets_def split: option.splits)
        moreover have "map_of (stored_mounts (Readable ?s)) = mount_map w" using ms o' True by (auto simp: fun_eq_iff)
        ultimately show ?thesis using plug by (simp add: kept_def mount_map_def)
      qed
    qed
  qed (use ok in simp)
qed

lemma kept_sessions [simp]: "kept (w\<lparr>wa_sessions := s\<rparr>) = kept w"
  by (simp add: kept_def plugin_ok_def mount_map_def)

lemma kept_runtime [simp]: "kept (w\<lparr>wa_runtime := i\<rparr>) = kept w"
  by (simp add: kept_def plugin_ok_def mount_map_def)

lemma ask_kept: "ask env c w = (r, w') \<Longrightarrow> kept w \<Longrightarrow> quiet_call c \<Longrightarrow> kept w'"
  using ask_quiet [of env c w r w'] by (simp add: kept_def plugin_ok_def mount_map_def same_plugin_def)

lemma snd_ask_kept: "kept w \<Longrightarrow> quiet_call c \<Longrightarrow> kept (snd (ask env c w))"
  using ask_kept [of env c w] by (cases "ask env c w") auto

lemma quiet_calls [simp]: "quiet_call (Gateway_Open g)" "quiet_call (Gateway_Close i)" "quiet_call (Stream_Ticket i)" "quiet_call (Runtime_Register r)"
  by (simp_all add: quiet_call_def)

lemma publish_kept:
  "publish env t w = (r, w') \<Longrightarrow> kept w \<Longrightarrow> mount_map w (at_id t) = Some (at_mount t) \<Longrightarrow> kept w' \<and> steady w w'"
  using publish_ok [of env t w r w' "{}" "mount_map w"] kept_steady by (auto simp: kept_def publish_result_def)

lemma removePublication_kept: "kept w \<Longrightarrow> kept (removePublication env i w) \<and> steady w (removePublication env i w)"
  using removePublication_ok [of "{}" "mount_map w" w env i] kept_steady [of w "removePublication env i w"] by (simp add: kept_def)

lemma map_of_filter_ids:
  "k \<noteq> i \<Longrightarrow> map_of (map (\<lambda>t. (at_id t, at_mount t)) (filter (\<lambda>t. at_id t \<noteq> i) ts)) k = map_of (map (\<lambda>t. (at_id t, at_mount t)) ts) k"
  by (induction ts) auto

lemma apps_delete_kept: "kept w \<Longrightarrow> apps_delete env req w = (r, w') \<Longrightarrow> kept w'"
proof -
  assume ok: "kept w" and del: "apps_delete env req w = (r, w')"
  show ?thesis
  proof (cases "w' = w")
    case False
    define less where "less = (\<lambda>i (s :: app_store). s\<lparr>as_targets := filter (\<lambda>t. at_id t \<noteq> i) (as_targets s)\<rparr>)"
    from del False obtain i s where read: "app_readTargets (ae_get env) (wa_stored w) = Inr s"
      and w': "w' = removePublication env i (w\<lparr>wa_stored := Readable (less i s)\<rparr>)"
      by (auto simp: apps_delete_def writeTargets_def less_def split: option.splits sum.splits if_splits)
    note targets = readTargets_ok [OF read]
    let ?v = "removePublication env i (w\<lparr>wa_stored := Readable (less i s)\<rparr>)"
    have "plugin_ok {} (mount_map w) (w\<lparr>wa_stored := Readable (less i s)\<rparr>)" using ok by (simp add: kept_def)
    note rm = removePublication_ok [OF this, of env i]
    have "list_all (\<lambda>t. Mount (at_mount t) = None) (as_targets (less i s))"
      using targets(3) by (auto simp: less_def list_all_iff)
    note written = stored_mounts_written [OF this]
    have same: "map_of (stored_mounts (Readable (less i s))) k = mount_map w k" if "k \<noteq> i" for k
      using written targets(1) map_of_filter_ids [OF that, of "as_targets s"]
      by (simp add: less_def mount_map_def)
    have keys: "fst ` set (wa_publications ?v) = fst ` set (wa_publications w) - {i}" using rm by (simp add: keys_delete)
    have "plugin_ok {} (map_of (stored_mounts (Readable (less i s)))) ?v"
    proof (rule plugin_ok_M)
      show "plugin_ok {} (mount_map w) ?v" using rm by blast
      show "map_of (stored_mounts (Readable (less i s))) k = mount_map w k" if "k \<in> fst ` set (wa_publications ?v)" for k
        using that unfolding keys by (intro same) blast
    qed
    moreover have "wa_stored ?v = Readable (less i s)" using rm by (simp add: steady_def)
    ultimately show ?thesis by (simp add: w' kept_def mount_map_def)
  qed (use ok in simp)
qed

lemma open_gateway_kept: "kept w \<Longrightarrow> open_gateway env t q w = (r, w') \<Longrightarrow> kept w'"
proof -
  assume ok: "kept w" and op: "open_gateway env t q w = (r, w')"
  obtain a w1 where g: "ask env (Gateway_Open (Some (gateway_request t (publication_of (at_id t) w) q))) w = (a, w1)" by fastforce
  have w1: "kept w1" using ask_kept [OF g ok] by simp
  show ?thesis
  proof (cases "w' = w1")
    case False
    with op g obtain sid b w2 where tick: "ask env (Stream_Ticket (Some sid)) w1 = (b, w2)"
      and w': "w' = snd (ask env (Gateway_Close (Some sid)) w2) \<or> (\<exists>s. w' = w2\<lparr>wa_sessions := s\<rparr>)"
      by (auto simp: open_gateway_def Let_def split: sum.splits browser_answer.splits if_splits prod.splits)
    have "kept w2" using ask_kept [OF tick w1] by simp
    with w' show ?thesis by (auto intro: snd_ask_kept)
  qed (use w1 in simp)
qed

lemma apps_open_kept: "kept w \<Longrightarrow> apps_open env req w = (r, w') \<Longrightarrow> kept w'"
proof -
  assume ok: "kept w" and op: "apps_open env req w = (r, w')"
  show ?thesis
  proof (cases "w' = w")
    case False
    with op obtain q s t f w1 where read: "app_readTargets (ae_get env) (wa_stored w) = Inr s" and t: "find_app (ao_target q) s = Some t"
      and p: "publish env t w = (f, w1)" and w': "w' = w1 \<or> open_gateway env t q w1 = (r, w')"
      by (auto simp: apps_open_def split: option.splits sum.splits if_splits prod.splits)
    from find_app_mount [OF read t] have "mount_map w (at_id t) = Some (at_mount t)" by simp
    from publish_kept [OF p ok this] have "kept w1" by blast
    with w' open_gateway_kept show ?thesis by blast
  qed (use ok in simp)
qed

lemma apps_close_kept: "kept w \<Longrightarrow> apps_close env req w = (r, w') \<Longrightarrow> kept w'"
  using snd_ask_kept [of w]
  by (auto simp: apps_close_def split: option.splits sum.splits if_splits prod.splits dest: ask_kept)

lemma apps_answer_state: "snd (apps_answer f x) = snd x"
  by (simp add: apps_answer_def)

lemma apps_handle_kept: "kept w \<Longrightarrow> kept (snd (apps_handle env req w))"
proof (cases req)
  case (Targets_Save t)
  assume "kept w"
  with Targets_Save apps_save_kept show ?thesis
    by (cases "apps_save env t w") (simp add: apps_handle_def apps_answer_state)
next
  case (Targets_Delete i)
  assume "kept w"
  with Targets_Delete apps_delete_kept show ?thesis
    by (cases "apps_delete env i w") (simp add: apps_handle_def apps_answer_state)
next
  case (Session_Open q)
  assume "kept w"
  with Session_Open apps_open_kept show ?thesis
    by (cases "apps_open env q w") (simp add: apps_handle_def apps_answer_state)
next
  case (Session_Close i)
  assume "kept w"
  with Session_Close apps_close_kept show ?thesis
    by (cases "apps_close env i w") (simp add: apps_handle_def apps_answer_state)
qed (simp_all add: apps_handle_def apps_answer_state)

subsection \<open>Start and stop\<close>

lemma fold_kept: "kept w \<Longrightarrow> (\<And>i w. kept w \<Longrightarrow> kept (f i w)) \<Longrightarrow> kept (fold f is w)"
  by (induction "is" arbitrary: w) simp_all

lemma fold_remove_keys:
  "kept w \<Longrightarrow> fst ` set (wa_publications (fold (removePublication env) is w)) = fst ` set (wa_publications w) - set is"
proof (induction "is" arbitrary: w)
  case (Cons i "is")
  then have "wa_publications (removePublication env i w) = AList.delete i (wa_publications w)"
    using removePublication_ok [of "{}" "mount_map w" w env i] by (simp add: kept_def)
  then have "fst ` set (wa_publications (removePublication env i w)) = fst ` set (wa_publications w) - {i}" by (simp add: keys_delete)
  with Cons.IH [of "removePublication env i w"] removePublication_kept [OF Cons.prems] show ?case by auto
qed simp

lemma runtime_remove_mounts: "set (bh_mounts (snd (runtime_remove owner p h))) \<subseteq> set (bh_mounts h)"
  by (auto simp: runtime_remove_def Let_def keep_if_def split: option.split)

lemma ask_runtime_remove:
  assumes "ask env (Runtime_Remove i) w = (r, w')" "kept w" "wa_publications w = []"
  shows "kept w'"
proof -
  have b: "base_ok w" "published {} (mount_map w) [] (my_mounts (wa_host w))" using assms(2,3) by (simp_all add: kept_def plugin_ok_def)
  from ask_call [OF assms(1) b(1)] obtain x where call: "browser_call web_apps_id (ae_base env) (ae_now env) x (Runtime_Remove i) (wa_host w)
      = (r, wa_host w')" and w': "base_ok w'" "same_plugin w w'" by blast
  have "set (bh_mounts (snd (browser_call web_apps_id (ae_base env) (ae_now env) x (Runtime_Remove i) (wa_host w)))) \<subseteq> set (bh_mounts (wa_host w))"
    using runtime_remove_mounts by (simp add: browser_call_def Let_def)
  then have "my_mounts (wa_host w') \<subseteq> my_mounts (wa_host w)" unfolding call snd_conv by (auto simp: my_mounts_def)
  moreover have "my_mounts (wa_host w) = {}" using b(2) by (auto simp: published_def)
  ultimately show ?thesis using w' assms(3) by (simp add: kept_def plugin_ok_def same_plugin_def published_def)
qed

lemma apps_shutdown_kept: "kept w \<Longrightarrow> kept (apps_shutdown env w)"
proof -
  assume ok: "kept w"
  define w1 where "w1 = fold (\<lambda>i w. let w = snd (ask env (Gateway_Close (Some i)) w) in w\<lparr>wa_sessions := AList.delete i (wa_sessions w)\<rparr>)
    (map fst (wa_sessions w)) w"
  define w2 where "w2 = fold (removePublication env) (map fst (wa_publications w1)) w1"
  have w1: "kept w1" unfolding w1_def by (rule fold_kept [OF ok]) (simp add: Let_def snd_ask_kept)
  have w2: "kept w2" unfolding w2_def by (rule fold_kept [OF w1]) (simp add: removePublication_kept)
  have "fst ` set (wa_publications w2) = {}" using fold_remove_keys [OF w1, of env "map fst (wa_publications w1)"] by (simp add: w2_def)
  then have "wa_publications w2 = []" by simp
  with w2 have "kept (snd (ask env (Runtime_Remove i) w2))" for i
    using ask_runtime_remove [of env i w2] by (cases "ask env (Runtime_Remove i) w2") simp
  with w2 show ?thesis unfolding apps_shutdown_def Let_def w1_def [symmetric, unfolded Let_def] w2_def [symmetric] by simp
qed

lemma publish_all_kept:
  "kept w \<Longrightarrow> list_all (\<lambda>t. mount_map w (at_id t) = Some (at_mount t)) ts \<Longrightarrow> publish_all env ts w = (r, w') \<Longrightarrow> kept w'"
proof (induction ts arbitrary: w)
  case (Cons t ts)
  obtain f w1 where p: "publish env t w = (f, w1)" by fastforce
  have w1: "kept w1" "steady w w1" using publish_kept [OF p Cons.prems(1)] Cons.prems(2) by simp_all
  then have "mount_map w1 = mount_map w" by (simp add: steady_def mount_map_def)
  with Cons.IH [OF w1(1)] Cons.prems p w1(1) apps_shutdown_kept show ?case by (cases f) auto
qed simp

lemma apps_initialize_kept: "kept w \<Longrightarrow> apps_initialize env w = (r, w') \<Longrightarrow> kept w'"
proof -
  assume ok: "kept w" and init: "apps_initialize env w = (r, w')"
  show ?thesis
  proof (cases "w' = w")
    case False
    with init obtain s f w1 where read: "app_readTargets (ae_get env) (wa_stored w) = Inr s"
      and e: "ensureRuntime env w = (f, w1)" and w': "w' = w1 \<or> publish_all env (as_targets s) w1 = (r, w')"
      by (auto simp: apps_initialize_def split: option.splits sum.splits prod.splits)
    have "plugin_ok {} (mount_map w) w" using ok by (simp add: kept_def)
    from ensureRuntime_ok [OF e this] have w1: "kept w1" "steady w w1" by (auto intro: kept_steady)
    note targets = readTargets_ok [OF read]
    have d: "distinct (map fst (map (\<lambda>t. (at_id t, at_mount t)) (as_targets s)))" using targets(2) by (simp add: comp_def)
    have "mount_map w1 (at_id t) = Some (at_mount t)" if "t \<in> set (as_targets s)" for t
    proof -
      have "(at_id t, at_mount t) \<in> set (map (\<lambda>t. (at_id t, at_mount t)) (as_targets s))"
        unfolding set_map using that by (rule rev_image_eqI) simp
      from map_of_is_SomeI [OF d this] show ?thesis
        using w1(2) unfolding targets(1) by (simp add: mount_map_def steady_def)
    qed
    then have "list_all (\<lambda>t. mount_map w1 (at_id t) = Some (at_mount t)) (as_targets s)" by (simp add: list_all_iff)
    with w' w1(1) publish_all_kept show ?thesis by blast
  qed (use ok in simp)
qed

subsection \<open>The rest of the program\<close>

text \<open>An event of the host that is neither a call of the plugin nor the end of the plugin or of the program.\<close>

fun foreign :: "browser_event \<Rightarrow> bool" where
  "foreign (Browser_Call owner _ _ _ _) = (owner \<noteq> web_apps_id)"
| "foreign (Browser_Stop owner) = (owner \<noteq> [] \<and> owner \<noteq> web_apps_id)"
| "foreign _ = True"

lemma my_mounts_runtime_remove:
  assumes "browser_inv h" "owner \<noteq> web_apps_id"
  shows "my_mounts (snd (runtime_remove owner p h)) = my_mounts h"
proof (cases "snd (runtime_remove owner p h) = h")
  case False
  then obtain i r where r: "p = Some i" "i \<noteq> []" "bh_runtime h = Some r" "rt_id r = i" "rt_owner r = owner"
    by (auto simp: runtime_remove_def split: option.splits if_splits)
  then have mounts: "bh_mounts (snd (runtime_remove owner p h)) = keep_if (\<lambda>_ q. pub_runtime q \<noteq> i) (bh_mounts h)"
    by (simp add: runtime_remove_def Let_def)
  have "pub_runtime q \<noteq> i" if "(j, q) \<in> set (bh_mounts h)" "pub_owner q = web_apps_id" for j q
  proof
    assume q: "pub_runtime q = i"
    have "list_all (\<lambda>(i, p). publication_ok h i p) (bh_mounts h)" using assms(1) by (simp add: browser_inv_def)
    with that(1) have "publication_ok h j q" by (fastforce simp: list_all_iff)
    with q r that(2) assms(2) show False by (simp add: publication_ok_def owns_runtime_def)
  qed
  then show ?thesis by (auto simp: my_mounts_def mounts keep_if_def)
qed simp

lemma my_mounts_publication_remove:
  assumes "browser_inv h" "owner \<noteq> web_apps_id"
  shows "my_mounts (snd (publication_remove owner p h)) = my_mounts h"
proof (cases "snd (publication_remove owner p h) = h")
  case False
  then obtain i q where q: "p = Some i" "i \<noteq> []" "map_of (bh_mounts h) i = Some q" "pub_owner q = owner"
    by (auto simp: publication_remove_def split: option.splits if_splits)
  then have mounts: "bh_mounts (snd (publication_remove owner p h)) = AList.delete i (bh_mounts h)"
    by (simp add: publication_remove_def Let_def)
  have "j \<noteq> i" if "(j, q') \<in> set (bh_mounts h)" "pub_owner q' = web_apps_id" for j q'
  proof
    assume "j = i"
    moreover have "keys_distinct (bh_mounts h)" using assms(1) by (simp add: browser_inv_def)
    ultimately have "q' = q" using that(1) q(3) by simp
    with that(2) q(4) assms(2) show False by simp
  qed
  then show ?thesis by (auto simp: my_mounts_def mounts AList.delete_eq)
qed simp

lemma my_mounts_register:
  assumes "\<And>i. x = Some i \<Longrightarrow> map_of (bh_mounts h) i = None" "owner \<noteq> web_apps_id"
  shows "my_mounts (snd (publication_register owner x p h)) = my_mounts h"
proof -
  have "AList.update i q (bh_mounts h) = bh_mounts h @ [(i, q)]" if "x = Some i" for i q
    using assms(1) [OF that] by (simp add: map_of_eq_None_iff update_fresh)
  with assms(2) show ?thesis
    by (auto simp: publication_register_def Let_def my_mounts_def split: option.split)
qed

lemma my_mounts_foreign_call:
  assumes "browser_inv h" "fresh_browser_id (Browser_Call owner base now x c) h" "owner \<noteq> web_apps_id"
  shows "my_mounts (snd (browser_call owner base now x c h)) = my_mounts h"
proof (cases "quiet_call c")
  case True
  then show ?thesis by (intro my_mounts_same quiet_mounts)
next
  case False
  have "x = Some i \<Longrightarrow> map_of (bh_mounts h) i = None" for i using assms(2) by auto
  note my_mounts_register [OF this assms(3)]
  with False show ?thesis
    using my_mounts_runtime_remove [OF assms(1,3)] my_mounts_publication_remove [OF assms(1,3)]
    by (cases c) (simp_all add: quiet_call_def browser_call_def Let_def)
qed

lemma browser_stop_mounts: "bh_mounts (browser_stop owner h) = keep_if (\<lambda>_ p. \<not> (owner = [] \<or> pub_owner p = owner)) (bh_mounts h)"
  by (simp add: browser_stop_def Let_def close_where_closed split: option.split)

lemma my_mounts_foreign:
  assumes "browser_inv h" "fresh_browser_id e h" "foreign e"
  shows "my_mounts (browser_step e h) = my_mounts h"
proof (cases e)
  case (Browser_Call owner base now x c)
  with assms my_mounts_foreign_call show ?thesis by simp
next
  case (Browser_Stop owner)
  with assms(3) show ?thesis by (auto simp: my_mounts_def browser_stop_mounts keep_if_def)
qed (auto intro!: my_mounts_same simp: consume_def attach_def gateway_timer_def gateway_ended_def SetBrowserBasePath_def split: option.split)

subsection \<open>Every event\<close>

text \<open>A call of the plugin is served identifiers that are not in use; the rest of the program does not act for the plugin.\<close>

fun apps_step_ok :: "string option list \<times> apps_step \<Rightarrow> web_apps \<Rightarrow> bool" where
  "apps_step_ok (_, Apps_Host e) w = (fresh_browser_id e (wa_host w) \<and> foreign e)"
| "apps_step_ok (_, Apps_Closed _) w = True"
| "apps_step_ok (_, Apps_Restart) w = True"
| "apps_step_ok (ids, _) w = fresh_draws ids (wa_host w)"

lemma kept_apps_ok: "kept w \<Longrightarrow> apps_ok w"
  unfolding kept_def by (rule plugin_apps_ok)

lemma apps_ok_kept: "apps_ok w \<Longrightarrow> fresh_draws ids (wa_host w) \<Longrightarrow> kept (w\<lparr>wa_draws := ids\<rparr>)"
  unfolding kept_def by (rule apps_ok_start)

lemma apps_ok_new: "browser_inv h \<Longrightarrow> my_mounts h = {} \<Longrightarrow> apps_ok (apps_newPlugin v h)"
  by (simp add: apps_ok_def apps_newPlugin_def published_def)

lemma apps_step_inv: "apps_ok w \<Longrightarrow> apps_step_ok e w \<Longrightarrow> apps_ok (apps_run e w)"
proof (cases e)
  case (Pair ids s)
  assume ok: "apps_ok w" and e: "apps_step_ok e w"
  show ?thesis
  proof (cases s)
    case (Apps_Start env)
    with ok e Pair have "kept (w\<lparr>wa_draws := ids\<rparr>)" by (simp add: apps_ok_kept)
    with Apps_Start Pair show ?thesis using apps_initialize_kept kept_apps_ok
      by (cases "apps_initialize env (w\<lparr>wa_draws := ids\<rparr>)") simp
  next
    case (Apps_Call env req)
    with ok e Pair have "kept (w\<lparr>wa_draws := ids\<rparr>)" by (simp add: apps_ok_kept)
    with Apps_Call Pair show ?thesis using apps_handle_kept kept_apps_ok by simp
  next
    case (Apps_Closed c)
    with ok Pair show ?thesis by (simp add: apps_event_def apps_ok_def mount_map_def split: option.split)
  next
    case (Apps_Stop env)
    with ok e Pair have "kept (w\<lparr>wa_draws := ids\<rparr>)" by (simp add: apps_ok_kept)
    with Apps_Stop Pair show ?thesis using apps_shutdown_kept kept_apps_ok by simp
  next
    case Apps_Restart
    have "my_mounts (browser_stop web_apps_id (wa_host w)) = {}" by (auto simp: my_mounts_def browser_stop_mounts keep_if_def)
    with Apps_Restart Pair ok show ?thesis by (simp add: apps_ok_new browser_inv_stop apps_ok_def [of w])
  next
    case (Apps_Host h)
    with ok e Pair show ?thesis
      using browser_inv_step [of "wa_host w" h] my_mounts_foreign [of "wa_host w" h] by (simp add: apps_ok_def mount_map_def)
  qed
qed

interpretation apps_machine: guarded_machine apps_run apps_step_ok apps_ok
  by unfold_locales (rule apps_step_inv)

section \<open>What the host serves\<close>

lemma published_mounts:
  assumes "published {} M pubs S" "\<And>i p q. (i, p) \<in> S \<Longrightarrow> (i, q) \<in> S \<Longrightarrow> p = q"
  shows "{(i, pub_mount p) | i p. (i, p) \<in> S} = {(i, m) | i m t. (t, i) \<in> set pubs \<and> M t = Some m}"
proof -
  note entry = published_entry [OF assms(1)]
  have "(\<exists>p. (i, p) \<in> S \<and> m = pub_mount p) \<longleftrightarrow> (\<exists>t. (t, i) \<in> set pubs \<and> M t = Some m)" for i m
  proof
    assume "\<exists>p. (i, p) \<in> S \<and> m = pub_mount p"
    then obtain p where p: "(i, p) \<in> S" "m = pub_mount p" by blast
    with assms(1) have "i \<in> snd ` set pubs" unfolding published_def by blast
    then obtain t where t: "(t, i) \<in> set pubs" by auto
    from entry [OF t] obtain q where q: "(i, q) \<in> S" "M t = Some (pub_mount q)" by blast
    from assms(2) [OF p(1) q(1)] q(2) p(2) t show "\<exists>t. (t, i) \<in> set pubs \<and> M t = Some m" by blast
  next
    assume "\<exists>t. (t, i) \<in> set pubs \<and> M t = Some m"
    then obtain t where t: "(t, i) \<in> set pubs" "M t = Some m" by blast
    from entry [OF t(1)] obtain p where p: "(i, p) \<in> S" "M t = Some (pub_mount p)" by blast
    from t(2) p(2) have "m = pub_mount p" by simp
    with p(1) show "\<exists>p. (i, p) \<in> S \<and> m = pub_mount p" by blast
  qed
  then show ?thesis by blast
qed

text \<open>C27: The mounts that the browser host serves for the plugin are exactly the mounts of the targets that its table of
  publications names: whatever is saved, moved, deleted and opened, in whatever order the storage and the host fail, and
  across restarts, no mount of a deleted target and no former mount of a target stays, and no publication is lost.\<close>

theorem publications_match:
  assumes "admissible apps_run apps_step_ok es (apps_newPlugin v newBrowserPublications)"
    and "w = run apps_run es (apps_newPlugin v newBrowserPublications)"
  shows "distinct (map fst (wa_publications w)) \<and> distinct (map snd (wa_publications w))
    \<and> (\<forall>t \<in> fst ` set (wa_publications w). map_of (stored_mounts (wa_stored w)) t \<noteq> None)
    \<and> {(i, pub_mount p) | i p. (i, p) \<in> set (bh_mounts (wa_host w)) \<and> pub_owner p = web_apps_id}
      = {(i, m) | i m t. (t, i) \<in> set (wa_publications w) \<and> map_of (stored_mounts (wa_stored w)) t = Some m}"
proof -
  have "apps_ok (apps_newPlugin v newBrowserPublications)"
    by (intro apps_ok_new browser_inv_new) (simp add: my_mounts_def newBrowserPublications_def)
  from apps_machine.run_inv [OF this assms(1)] have inv: "browser_inv (wa_host w)"
    and p: "published {} (mount_map w) (wa_publications w) (my_mounts (wa_host w))" by (simp_all add: apps_ok_def assms(2))
  have same: "q = r" if "(i, q) \<in> my_mounts (wa_host w)" "(i, r) \<in> my_mounts (wa_host w)" for i q r
    using that inv by (auto simp: my_mounts_def browser_inv_def dest: eq_key_imp_eq_value)
  have "{(i, pub_mount p) | i p. (i, p) \<in> my_mounts (wa_host w)}
      = {(i, m) | i m t. (t, i) \<in> set (wa_publications w) \<and> mount_map w t = Some m}"
    by (rule published_mounts [OF p]) (rule same)
  moreover have "distinct (map fst (wa_publications w))" "distinct (map snd (wa_publications w))" using p by (simp_all add: published_def)
  ultimately show ?thesis using published_keys [OF p] by (simp add: my_mounts_def mount_map_def)
qed

theorem publications_match_witness:
  "admissible apps_run apps_step_ok
     [([Some ''r'', Some ''p''], Apps_Call quiet_env (Targets_Save (Some public_wiki))), ([], Apps_Closed (Some ''g''))]
     (apps_newPlugin Absent newBrowserPublications)
   \<and> (\<exists>w :: web_apps. wa_publications w = [(''app-1'', ''p'')]
       \<and> {(i, pub_mount p) | i p. (i, p) \<in> set (bh_mounts (wa_host w)) \<and> pub_owner p = web_apps_id}
         = {(i, m) | i m t. (t, i) \<in> set (wa_publications w) \<and> map_of (stored_mounts (wa_stored w)) t = Some m})"
proof -
  let ?es = "[([Some ''r'', Some ''p''], Apps_Call quiet_env (Targets_Save (Some public_wiki))), ([], Apps_Closed (Some ''g''))]"
  have adm: "admissible apps_run apps_step_ok ?es (apps_newPlugin Absent newBrowserPublications)"
    by (simp add: fresh_draws_def unused_def apps_newPlugin_def newBrowserPublications_def del: apps_run.simps)
  have out: "wa_publications (run apps_run ?es (apps_newPlugin Absent newBrowserPublications)) = [(''app-1'', ''p'')]"
    using wiki_saved by (simp add: apps_event_def del: apps_run.simps(2))
  note m = publications_match [OF adm refl]
  show ?thesis
  proof (intro conjI exI [of _ "run apps_run ?es (apps_newPlugin Absent newBrowserPublications)"])
  qed (rule adm, rule out, rule m [THEN conjunct2, THEN conjunct2, THEN conjunct2])
qed

end
