(* ===== verification/History.thy ===== *)
theory History
  imports Utf8
begin

section \<open>Executions of plugins and their logs\<close>

text \<open>
  Models \<^verbatim>\<open>internal/history/owned.go\<close>: the records of what plugins ran, and the log of each.  The rows of all owners are one
  list in the order of their row numbers; every query of the code names an owner.  A call is one event; what the
  file system and the database may refuse is a parameter of the call that begins an execution (\<open>None\<close>: done); elsewhere they are
  taken to do what they are asked for.
\<close>

definition MaxExecutionLogBytes :: nat where "MaxExecutionLogBytes = 16777216"
definition MaxExecutionAppend :: nat where "MaxExecutionAppend = 65536"
definition MaxExecutionRead :: int where "MaxExecutionRead = 1048576"
definition DefaultExecutionRead :: int where "DefaultExecutionRead = 65536"
definition DefaultExecutionLimit :: int where "DefaultExecutionLimit = 50"
definition MaxExecutionLimit :: int where "MaxExecutionLimit = 100"
definition ExecutionRetention :: nat where "ExecutionRetention = 200"
definition maxKindLength :: nat where "maxKindLength = 32"
definition maxSubjectLength :: nat where "maxSubjectLength = 128"
definition maxLabelLength :: nat where "maxLabelLength = 256"
definition maxMessageLength :: nat where "maxMessageLength = 1024"

datatype history_error =
    ErrExecutionNotFound
  | ErrInvalidExecution string
  | History_IO string

record execution =
  ex_owner :: string
  ex_id :: string
  ex_kind :: string
  ex_subject :: string
  ex_label :: string
  ex_started :: int
  ex_finished :: "int option"
  ex_exit :: "int option"
  ex_success :: "bool option"
  ex_message :: string

record history_store =
  hs_rows :: "execution list"
  hs_logs :: "((string \<times> string) \<times> string) list"

definition valid_history_name :: "nat \<Rightarrow> string \<Rightarrow> bool" where
  "valid_history_name limit v =
     (v \<noteq> [] \<and> length v \<le> limit
      \<and> list_all (\<lambda>c. is_alnum c \<or> c = CHR ''.'' \<or> c = CHR ''_'' \<or> c = CHR ''-'' \<or> c = CHR '':'') v)"

definition validOwner :: "string \<Rightarrow> bool" where
  "validOwner owner =
     (valid_history_name 128 owner \<and> CHR '':'' \<notin> set owner \<and> owner \<noteq> ''.'' \<and> owner \<noteq> ''..'')"

subsection \<open>Executions\<close>

text \<open>A new execution \<open>i\<close> with its empty log; \<open>made\<close> is a failure up to the creation of the log, \<open>inserted\<close> one of the database.
  The identifier is the primary key.\<close>

definition BeginExecution ::
  "string \<Rightarrow> string \<Rightarrow> string \<Rightarrow> string \<Rightarrow> string \<Rightarrow> int \<Rightarrow> string option \<Rightarrow> string option \<Rightarrow> history_store
     \<Rightarrow> (history_error, execution) result \<times> history_store" where
  "BeginExecution owner kind subject label i now made inserted s =
     (if \<not> validOwner owner \<or> \<not> valid_history_name maxKindLength kind \<or> \<not> valid_history_name maxSubjectLength subject then
        (Inl (ErrInvalidExecution ''owner, kind and subject must be short identifiers''), s)
      else (case made of
          Some e \<Rightarrow> (Inl (History_IO e), s)
        | None \<Rightarrow>
            if map_of (hs_logs s) (owner, i) \<noteq> None then (Inl (History_IO ''file exists''), s)
            else (case inserted of
                Some e \<Rightarrow> (Inl (History_IO e), s)
              | None \<Rightarrow>
                  if list_ex (\<lambda>r. ex_owner r = owner \<and> ex_id r = i) (hs_rows s) then (Inl (History_IO ''constraint failed''), s)
                  else (let r = \<lparr>ex_owner = owner, ex_id = i, ex_kind = kind, ex_subject = subject,
                                ex_label = truncateText (trim_space label) maxLabelLength, ex_started = now,
                                ex_finished = None, ex_exit = None, ex_success = None, ex_message = []\<rparr>
                        in (Inr r, s\<lparr>hs_rows := hs_rows s @ [r], hs_logs := AList.update (owner, i) [] (hs_logs s)\<rparr>)))))"

definition getExecutionLocked :: "string \<Rightarrow> string \<Rightarrow> history_store \<Rightarrow> (history_error, execution) result" where
  "getExecutionLocked owner i s =
     (case find (\<lambda>r. ex_owner r = owner \<and> ex_id r = i) (hs_rows s) of
        None \<Rightarrow> Inl ErrExecutionNotFound | Some r \<Rightarrow> Inr r)"

definition GetExecution :: "string \<Rightarrow> string \<Rightarrow> history_store \<Rightarrow> (history_error, execution) result" where
  "GetExecution owner i s =
     (if \<not> validOwner owner \<or> \<not> valid_history_name 128 i then Inl ErrExecutionNotFound else getExecutionLocked owner i s)"

definition finish_row :: "int \<Rightarrow> int option \<Rightarrow> bool option \<Rightarrow> string \<Rightarrow> execution \<Rightarrow> execution" where
  "finish_row now code ok message r =
     r\<lparr>ex_finished := Some now, ex_exit := code, ex_success := ok, ex_message := message\<rparr>"

text \<open>The first critical section of \<open>FinishExecution\<close>: the update of an unfinished row and the row as it is then; whether a row changed.\<close>

definition finish_update ::
  "string \<Rightarrow> string \<Rightarrow> int option \<Rightarrow> bool option \<Rightarrow> string \<Rightarrow> int \<Rightarrow> history_store
     \<Rightarrow> (history_error, execution \<times> bool) result \<times> history_store" where
  "finish_update owner i code ok message now s =
     (if \<not> validOwner owner \<or> \<not> valid_history_name 128 i then (Inl ErrExecutionNotFound, s)
      else (let hit = (\<lambda>r. ex_owner r = owner \<and> ex_id r = i \<and> ex_finished r = None);
                s' = s\<lparr>hs_rows := map (\<lambda>r. if hit r then finish_row now code ok (truncateText message maxMessageLength) r else r) (hs_rows s)\<rparr>
            in (bind_result (getExecutionLocked owner i s') (\<lambda>r. Inr (r, list_ex hit (hs_rows s))), s')))"

text \<open>\<^verbatim>\<open>ORDER BY started_at DESC, rowid DESC\<close>.\<close>

definition newest_first :: "execution list \<Rightarrow> execution list" where
  "newest_first rows = rev (sort_key ex_started rows)"

definition finished_of :: "string \<Rightarrow> string \<Rightarrow> execution list \<Rightarrow> execution list" where
  "finished_of owner subject rows = filter (\<lambda>r. ex_owner r = owner \<and> ex_subject r = subject \<and> ex_finished r \<noteq> None) rows"

definition stale_ids :: "string \<Rightarrow> string \<Rightarrow> execution list \<Rightarrow> string list" where
  "stale_ids owner subject rows = map ex_id (drop ExecutionRetention (newest_first (finished_of owner subject rows)))"

definition pruneExecutions :: "string \<Rightarrow> string \<Rightarrow> history_store \<Rightarrow> history_store" where
  "pruneExecutions owner subject s =
     (let stale = stale_ids owner subject (hs_rows s)
      in s\<lparr>hs_rows := filter (\<lambda>r. \<not> (ex_owner r = owner \<and> ex_id r \<in> set stale)) (hs_rows s),
           hs_logs := filter (\<lambda>((o', i), _). \<not> (o' = owner \<and> i \<in> set stale)) (hs_logs s)\<rparr>)"

definition FinishExecution ::
  "string \<Rightarrow> string \<Rightarrow> int option \<Rightarrow> bool option \<Rightarrow> string \<Rightarrow> int \<Rightarrow> history_store
     \<Rightarrow> (history_error, execution) result \<times> history_store" where
  "FinishExecution owner i code ok message now s =
     (case finish_update owner i code ok message now s of
        (Inl e, s') \<Rightarrow> (Inl e, s')
      | (Inr (r, changed), s') \<Rightarrow> (Inr r, if changed then pruneExecutions owner (ex_subject r) s' else s'))"

definition ListExecutions :: "string \<Rightarrow> string \<Rightarrow> int \<Rightarrow> history_store \<Rightarrow> (history_error, execution list) result" where
  "ListExecutions owner subject limit s =
     (if \<not> validOwner owner \<or> (subject \<noteq> [] \<and> \<not> valid_history_name maxSubjectLength subject) then
        Inl (ErrInvalidExecution ''owner or subject'')
      else (let n = min (if limit \<le> 0 then DefaultExecutionLimit else limit) MaxExecutionLimit
            in Inr (take (nat n) (newest_first
                 (filter (\<lambda>r. ex_owner r = owner \<and> (subject = [] \<or> ex_subject r = subject)) (hs_rows s))))))"

definition AbandonExecutions :: "int \<Rightarrow> history_store \<Rightarrow> history_store" where
  "AbandonExecutions now s =
     s\<lparr>hs_rows := map (\<lambda>r. if ex_finished r = None
                         then r\<lparr>ex_finished := Some now, ex_success := Some False,
                                ex_message := ''interrupted by RunPilot restart''\<rparr> else r) (hs_rows s)\<rparr>"

subsection \<open>Logs\<close>

text \<open>\<open>log_text\<close>: the file of an execution; a file that does not exist is created by the calls that write.\<close>

definition log_text :: "string \<Rightarrow> string \<Rightarrow> history_store \<Rightarrow> string" where
  "log_text owner i s = (case map_of (hs_logs s) (owner, i) of None \<Rightarrow> [] | Some t \<Rightarrow> t)"

definition set_log :: "string \<Rightarrow> string \<Rightarrow> string \<Rightarrow> history_store \<Rightarrow> history_store" where
  "set_log owner i t s = s\<lparr>hs_logs := AList.update (owner, i) t (hs_logs s)\<rparr>"

record execution_log =
  xl_owner :: string
  xl_id :: string
  xl_size :: nat
  xl_truncated :: bool
  xl_closed :: bool

definition truncationMarker :: string where
  "truncationMarker = CHR 0x0A # ''[output truncated: execution log limit reached]'' @ [CHR 0x0A]"

definition OpenExecutionLog :: "string \<Rightarrow> string \<Rightarrow> history_store \<Rightarrow> (history_error, execution_log) result \<times> history_store" where
  "OpenExecutionLog owner i s =
     (case GetExecution owner i s of
        Inl e \<Rightarrow> (Inl e, s)
      | Inr r \<Rightarrow>
          if ex_finished r \<noteq> None then (Inl (ErrInvalidExecution ''execution is finished''), s)
          else (Inr \<lparr>xl_owner = owner, xl_id = i, xl_size = length (log_text owner i s), xl_truncated = False, xl_closed = False\<rparr>,
                set_log owner i (log_text owner i s) s))"

text \<open>
  A write to a log whose file takes all of it; the size it notifies.  A file that was removed while it is open is not seen again.
\<close>

definition log_write :: "string \<Rightarrow> execution_log \<times> history_store \<Rightarrow> nat option \<times> execution_log \<times> history_store" where
  "log_write p ls =
     (let (l, s) = ls in
      if xl_closed l then (None, l, s)
      else (let data = take (MaxExecutionLogBytes - xl_size l) p;
                mark = (length data < length p \<and> \<not> xl_truncated l);
                out = data @ (if mark then truncationMarker else []);
                l' = l\<lparr>xl_size := xl_size l + length out, xl_truncated := (xl_truncated l \<or> mark)\<rparr>
            in (Some (xl_size l'), l',
                if map_of (hs_logs s) (xl_owner l, xl_id l) = None then s
                else set_log (xl_owner l) (xl_id l) (log_text (xl_owner l) (xl_id l) s @ out) s)))"

definition log_close :: "execution_log \<Rightarrow> execution_log" where
  "log_close l = l\<lparr>xl_closed := True\<rparr>"

definition AppendExecutionOutput :: "string \<Rightarrow> string \<Rightarrow> string \<Rightarrow> history_store \<Rightarrow> history_error option \<times> history_store" where
  "AppendExecutionOutput owner i t s =
     (if MaxExecutionAppend < length t then (Some (ErrInvalidExecution ''text exceeds 65536 bytes''), s)
      else (case GetExecution owner i s of
          Inl e \<Rightarrow> (Some e, s)
        | Inr _ \<Rightarrow>
            (let old = log_text owner i s
             in (None, set_log owner i (if MaxExecutionLogBytes < length old + length t then old else old @ t) s))))"

definition replacement :: string where
  "replacement = [CHR 0xEF, CHR 0xBF, CHR 0xBD]"

text \<open>At most \<open>limit\<close> bytes from the end of the log: the text, the size of the log and whether it was cut.\<close>

definition tail_text :: "nat \<Rightarrow> string \<Rightarrow> string \<times> nat \<times> bool" where
  "tail_text limit t =
     (if limit < length t
      then (to_valid_utf8 (dropWhile (\<lambda>c. \<not> rune_start c) (drop (length t - limit) t)) replacement, length t, True)
      else (to_valid_utf8 t replacement, length t, False))"

definition ReadExecutionOutput :: "string \<Rightarrow> string \<Rightarrow> int \<Rightarrow> history_store \<Rightarrow> (history_error, string \<times> nat \<times> bool) result" where
  "ReadExecutionOutput owner i n s =
     (case GetExecution owner i s of
        Inl e \<Rightarrow> Inl e
      | Inr _ \<Rightarrow>
          (case map_of (hs_logs s) (owner, i) of
             None \<Rightarrow> Inr ([], 0, False)
           | Some t \<Rightarrow> Inr (tail_text (nat (min (if n \<le> 0 then DefaultExecutionRead else n) MaxExecutionRead)) t)))"

subsection \<open>The capability of plugins\<close>

text \<open>
  \<^verbatim>\<open>internal/core/plugin_history.go\<close>: the operations a plugin may call, with the owner that the host supplies; \<open>None\<close>: arguments
  that do not decode.
\<close>

datatype history_request =
    History_Begin string string string
  | History_Append string string
  | History_Finish string "int option" "bool option" string
  | History_List string int
  | History_Get string
  | History_Output string int
  | History_Unknown

datatype history_reply =
    No_Content
  | Execution_Content execution
  | Executions_Content "execution list"
  | Output_Content string string nat bool

datatype history_failure = Host_Failure string string | Internal_Failure string

definition historyFailure :: "history_error \<Rightarrow> history_failure" where
  "historyFailure e =
     (case e of
        ErrExecutionNotFound \<Rightarrow> Host_Failure ''not_found'' ''unknown execution''
      | ErrInvalidExecution m \<Rightarrow> Host_Failure ''invalid_argument'' (''invalid execution: '' @ m)
      | History_IO m \<Rightarrow> Internal_Failure m)"

definition history_answer :: "('a \<Rightarrow> history_reply) \<Rightarrow> (history_error, 'a) result \<Rightarrow> (history_failure, history_reply) result" where
  "history_answer f r = (case r of Inl e \<Rightarrow> Inl (historyFailure e) | Inr v \<Rightarrow> Inr (f v))"

text \<open>What one call finds: the identifier drawn, the clock, and the failures of the file system and the database.\<close>

record history_env =
  he_id :: string
  he_now :: int
  he_made :: "string option"
  he_inserted :: "string option"

definition history_call ::
  "history_env \<Rightarrow> string \<Rightarrow> history_request option \<Rightarrow> history_store \<Rightarrow> (history_failure, history_reply) result \<times> history_store" where
  "history_call env owner request s =
     (case request of
        None \<Rightarrow> (Inl (Host_Failure ''invalid_argument'' ''invalid history parameters''), s)
      | Some (History_Begin kind subject label) \<Rightarrow>
          (let (r, s') = BeginExecution owner (if kind = [] then ''run'' else kind) subject label
             (he_id env) (he_now env) (he_made env) (he_inserted env) s
           in (history_answer Execution_Content r, s'))
      | Some (History_Append i t) \<Rightarrow>
          (case AppendExecutionOutput owner i t s of
             (Some e, s') \<Rightarrow> (Inl (historyFailure e), s')
           | (None, s') \<Rightarrow> (Inr No_Content, s'))
      | Some (History_Finish i code ok message) \<Rightarrow>
          (let (r, s') = FinishExecution owner i code ok message (he_now env) s
           in (history_answer Execution_Content r, s'))
      | Some (History_List subject limit) \<Rightarrow> (history_answer Executions_Content (ListExecutions owner subject limit s), s)
      | Some (History_Get i) \<Rightarrow> (history_answer Execution_Content (GetExecution owner i s), s)
      | Some (History_Output i n) \<Rightarrow>
          (history_answer (\<lambda>(t, n', b). Output_Content i t n' b) (ReadExecutionOutput owner i n s), s)
      | Some History_Unknown \<Rightarrow> (Inl (Internal_Failure ''unknown history operation''), s))"

text \<open>The events of the store: a call of a plugin, a log opened, the output of a captured process, a restart of the program.\<close>

datatype history_event =
    History_Call history_env string "history_request option"
  | Log_Opened string string
  | Log_Written execution_log string
  | Restarted int

fun history_step :: "history_event \<Rightarrow> history_store \<Rightarrow> history_store" where
  "history_step (History_Call env owner request) s = snd (history_call env owner request s)"
| "history_step (Log_Opened owner i) s = snd (OpenExecutionLog owner i s)"
| "history_step (Log_Written l p) s = snd (snd (log_write p (l, s)))"
| "history_step (Restarted now) s = AbandonExecutions now s"

section \<open>What the store keeps\<close>

abbreviation ex_key :: "execution \<Rightarrow> string \<times> string" where
  "ex_key r \<equiv> (ex_owner r, ex_id r)"

definition execution_ok :: "execution \<Rightarrow> bool" where
  "execution_ok r =
     (validOwner (ex_owner r) \<and> valid_history_name maxKindLength (ex_kind r) \<and> valid_history_name maxSubjectLength (ex_subject r)
      \<and> length (ex_label r) \<le> maxLabelLength \<and> length (ex_message r) \<le> maxMessageLength
      \<and> (ex_finished r = None \<longrightarrow> ex_exit r = None \<and> ex_success r = None \<and> ex_message r = []))"

definition history_ok :: "history_store \<Rightarrow> bool" where
  "history_ok s =
     (distinct (map ex_key (hs_rows s)) \<and> list_all execution_ok (hs_rows s)
      \<and> distinct (map fst (hs_logs s)) \<and> set (map fst (hs_logs s)) = set (map ex_key (hs_rows s)))"

lemma find_key:
  "find (\<lambda>r. ex_owner r = owner \<and> ex_id r = i) rows = Some r \<Longrightarrow> r \<in> set rows \<and> ex_key r = (owner, i)"
  by (auto simp: find_Some_iff)

lemma getExecution_Inr:
  "getExecutionLocked owner i s = Inr r \<Longrightarrow> r \<in> set (hs_rows s) \<and> ex_key r = (owner, i)"
  by (cases "find (\<lambda>r. ex_owner r = owner \<and> ex_id r = i) (hs_rows s)") (auto simp: getExecutionLocked_def dest: find_key)

lemma GetExecution_Inr:
  "GetExecution owner i s = Inr r \<Longrightarrow> r \<in> set (hs_rows s) \<and> ex_key r = (owner, i)"
  using getExecution_Inr by (simp add: GetExecution_def split: if_splits)

lemma set_log_keys:
  "k \<in> set (map fst (hs_logs s)) \<Longrightarrow> k = (owner, i) \<Longrightarrow> set (map fst (hs_logs (set_log owner i t s))) = set (map fst (hs_logs s))"
  by (auto simp: set_log_def dom_map_of_conv_image_fst [symmetric] update_conv')

lemma set_log_ok:
  "history_ok s \<Longrightarrow> (owner, i) \<in> set (map fst (hs_logs s)) \<Longrightarrow> history_ok (set_log owner i t s)"
  using set_log_keys [of "(owner, i)" s owner i t]
  by (simp add: history_ok_def) (simp add: set_log_def distinct_update)

lemma AppendExecutionOutput_ok: "history_ok s \<Longrightarrow> history_ok (snd (AppendExecutionOutput owner i t s))"
  by (auto simp: AppendExecutionOutput_def Let_def split: sum.split dest!: GetExecution_Inr intro!: set_log_ok)
     (auto simp: history_ok_def)

lemma OpenExecutionLog_ok: "history_ok s \<Longrightarrow> history_ok (snd (OpenExecutionLog owner i s))"
  by (auto simp: OpenExecutionLog_def Let_def split: sum.split dest!: GetExecution_Inr intro!: set_log_ok)
     (auto simp: history_ok_def)

lemma log_write_ok: "history_ok s \<Longrightarrow> history_ok (snd (snd (log_write p (l, s))))"
  by (auto simp: log_write_def Let_def intro!: set_log_ok dest: map_of_SomeD split: if_splits)
     (metis image_eqI fst_conv map_of_SomeD)+

text \<open>A change of the rows that keeps their keys.\<close>

lemma map_rows_ok:
  assumes "history_ok s" "\<And>r. ex_key (f r) = ex_key r" "\<And>r. execution_ok r \<Longrightarrow> execution_ok (f r)"
  shows "history_ok (s\<lparr>hs_rows := map f (hs_rows s)\<rparr>)"
proof -
  have "map ex_key (map f (hs_rows s)) = map ex_key (hs_rows s)" using assms(2) by simp
  moreover from this have "set (map ex_key (map f (hs_rows s))) = set (map ex_key (hs_rows s))" by (rule arg_cong)
  moreover have "list_all execution_ok (map f (hs_rows s))" using assms(1,3) by (simp add: history_ok_def list_all_iff)
  ultimately show ?thesis using assms(1) by (simp add: history_ok_def del: map_map)
qed

lemma finish_row_ok: "execution_ok r \<Longrightarrow> length message \<le> maxMessageLength \<Longrightarrow> execution_ok (finish_row now code ok message r)"
  by (simp add: execution_ok_def finish_row_def)

lemma truncate_message: "length (truncateText m maxMessageLength) \<le> maxMessageLength"
  using truncateText_spec [of m maxMessageLength] by simp

lemma finish_update_ok: "history_ok s \<Longrightarrow> history_ok (snd (finish_update owner i code ok message now s))"
  unfolding finish_update_def Let_def
  by (auto intro!: map_rows_ok simp: finish_row_ok truncate_message) (simp_all add: finish_row_def)

lemma AbandonExecutions_ok: "history_ok s \<Longrightarrow> history_ok (AbandonExecutions now s)"
  unfolding AbandonExecutions_def
  by (rule map_rows_ok) (auto simp: execution_ok_def maxMessageLength_def)

lemma filter_keys_ok:
  assumes "history_ok s" "\<And>r. P r = Q (ex_key r)"
  shows "history_ok (s\<lparr>hs_rows := filter P (hs_rows s), hs_logs := filter (\<lambda>(k, _). Q k) (hs_logs s)\<rparr>)"
proof -
  have "set (map fst (filter (\<lambda>(k, _). Q k) (hs_logs s))) = {k \<in> set (map fst (hs_logs s)). Q k}" by force
  moreover have "set (map ex_key (filter P (hs_rows s))) = {k \<in> set (map ex_key (hs_rows s)). Q k}" using assms(2) by auto
  moreover have "set (map fst (hs_logs s)) = set (map ex_key (hs_rows s))" using assms(1) by (simp add: history_ok_def)
  ultimately have "set (map fst (filter (\<lambda>(k, _). Q k) (hs_logs s))) = set (map ex_key (filter P (hs_rows s)))" by simp
  then show ?thesis using assms(1)
    by (simp add: history_ok_def distinct_map_filter list_all_iff)
qed

lemma pruneExecutions_ok: "history_ok s \<Longrightarrow> history_ok (pruneExecutions owner subject s)"
proof -
  define Q where "Q k = (\<not> (fst k = owner \<and> snd k \<in> set (stale_ids owner subject (hs_rows s))))" for k
  have "(\<lambda>((o', i), _ :: string). \<not> (o' = owner \<and> i \<in> set (stale_ids owner subject (hs_rows s)))) = (\<lambda>(k, _). Q k)"
    by (auto simp: Q_def fun_eq_iff)
  moreover assume "history_ok s"
  ultimately show ?thesis
    using filter_keys_ok [of s "\<lambda>r. Q (ex_key r)" Q] by (simp add: pruneExecutions_def Let_def Q_def)
qed

lemma FinishExecution_ok: "history_ok s \<Longrightarrow> history_ok (snd (FinishExecution owner i code ok message now s))"
  using finish_update_ok [of s owner i code ok message now]
  by (auto simp: FinishExecution_def split: prod.splits sum.splits intro: pruneExecutions_ok)

lemma BeginExecution_ok: "history_ok s \<Longrightarrow> history_ok (snd (BeginExecution owner kind subject label i now made inserted s))"
proof -
  assume h: "history_ok s"
  have l: "length (truncateText l maxLabelLength) \<le> maxLabelLength" for l
    using truncateText_spec [of l maxLabelLength] by simp
  have d: "set (map fst (AList.update k v xs)) = insert k (set (map fst xs))" for k and v :: string and xs
    by (auto simp: dom_map_of_conv_image_fst [symmetric] update_conv')
  show ?thesis using h l
    unfolding BeginExecution_def Let_def
    by (auto split: option.split simp: list_ex_iff history_ok_def execution_ok_def distinct_update d [simplified])
qed

lemma history_step_ok: "history_ok s \<Longrightarrow> history_ok (history_step e s)"
proof (induction e s rule: history_step.induct)
  case (1 env owner request s)
  then show ?case
    using BeginExecution_ok AppendExecutionOutput_ok FinishExecution_ok
    by (fastforce simp: history_call_def case_prod_beta split: option.split history_request.split)
qed (simp_all add: OpenExecutionLog_ok log_write_ok AbandonExecutions_ok)

interpretation history: machine history_step history_ok
  by unfold_locales (rule history_step_ok)

subsection \<open>An execution finishes once\<close>

definition begins_execution :: "string \<times> string \<Rightarrow> history_event \<Rightarrow> bool" where
  "begins_execution k e =
     (case e of History_Call env owner (Some (History_Begin _ _ _)) \<Rightarrow> (owner, he_id env) = k | _ \<Rightarrow> False)"

text \<open>The only row of the key of \<open>r\<close>, if there is one, is \<open>r\<close>.\<close>

definition settled :: "execution \<Rightarrow> history_store \<Rightarrow> bool" where
  "settled r s = (\<forall>r' \<in> set (hs_rows s). ex_key r' = ex_key r \<longrightarrow> r' = r)"

lemma settled_rows: "settled r s \<Longrightarrow> set (hs_rows s') \<subseteq> set (hs_rows s) \<Longrightarrow> settled r s'"
  by (auto simp: settled_def)

lemma settled_map:
  "settled r s \<Longrightarrow> ex_finished r \<noteq> None \<Longrightarrow> (\<And>q. ex_key (f q) = ex_key q) \<Longrightarrow> (\<And>q. ex_finished q \<noteq> None \<Longrightarrow> f q = q) \<Longrightarrow>
     settled r (s\<lparr>hs_rows := map f (hs_rows s)\<rparr>)"
  by (auto simp: settled_def)

lemma set_log_rows [simp]: "hs_rows (set_log owner i t s) = hs_rows s"
  by (simp add: set_log_def)

lemma finish_update_settled:
  "settled r s \<Longrightarrow> ex_finished r \<noteq> None \<Longrightarrow> settled r (snd (finish_update owner i code ok message now s))"
  unfolding finish_update_def Let_def
  by (auto intro!: settled_map split: if_splits) (simp_all add: finish_row_def)

lemma prune_rows: "set (hs_rows (pruneExecutions owner subject s)) \<subseteq> set (hs_rows s)"
  by (auto simp: pruneExecutions_def Let_def)

lemma FinishExecution_settled:
  "settled r s \<Longrightarrow> ex_finished r \<noteq> None \<Longrightarrow> settled r (snd (FinishExecution owner i code ok message now s))"
  using finish_update_settled [of r s owner i code ok message now]
  by (auto simp: FinishExecution_def split: prod.splits sum.splits intro: settled_rows [OF _ prune_rows])

lemma BeginExecution_settled:
  "settled r s \<Longrightarrow> (owner, i) \<noteq> ex_key r \<Longrightarrow>
     settled r (snd (BeginExecution owner kind subject label i now made inserted s))"
  by (auto simp: BeginExecution_def settled_def Let_def split: option.splits)

lemma AppendExecutionOutput_rows [simp]: "hs_rows (snd (AppendExecutionOutput owner i t s)) = hs_rows s"
  by (simp add: AppendExecutionOutput_def Let_def split: sum.split)

lemma OpenExecutionLog_rows [simp]: "hs_rows (snd (OpenExecutionLog owner i s)) = hs_rows s"
  by (simp add: OpenExecutionLog_def split: sum.split)

lemma log_write_rows [simp]: "hs_rows (snd (snd (log_write p (l, s)))) = hs_rows s"
  by (simp add: log_write_def Let_def)

lemma AppendExecutionOutput_settled: "settled r s \<Longrightarrow> settled r (snd (AppendExecutionOutput owner i t s))"
  by (simp add: settled_def)

lemma history_step_settled:
  assumes "settled r s" "ex_finished r \<noteq> None" "\<not> begins_execution (ex_key r) e"
  shows "settled r (history_step e s)"
  using assms
proof (induction e s rule: history_step.induct)
  case (1 env owner request s)
  then show ?case
    using BeginExecution_settled [of r s owner "he_id env"] AppendExecutionOutput_settled [of r s] FinishExecution_settled [of r s]
    by (fastforce simp: history_call_def begins_execution_def case_prod_beta split: option.splits history_request.splits)
next
  case (4 now s)
  then show ?case unfolding history_step.simps AbandonExecutions_def by (intro settled_map) auto
qed (simp_all add: settled_def)

interpretation settled_machine:
  guarded_machine history_step "\<lambda>e _. \<not> begins_execution (ex_key r) e" "\<lambda>s. settled r s \<and> ex_finished r \<noteq> None" for r
  by unfold_locales (simp add: history_step_settled)

lemma never_begun: "\<forall>e \<in> set es. \<not> begins_execution k e \<Longrightarrow> admissible history_step (\<lambda>e _. \<not> begins_execution k e) es s"
  by (induction es arbitrary: s) auto

lemma key_determines: "history_ok s \<Longrightarrow> q \<in> set (hs_rows s) \<Longrightarrow> r \<in> set (hs_rows s) \<Longrightarrow> ex_key q = ex_key r \<Longrightarrow> q = r"
  unfolding history_ok_def distinct_map by (blast dest: inj_onD)

lemma row_settled: "history_ok s \<Longrightarrow> r \<in> set (hs_rows s) \<Longrightarrow> settled r s"
  unfolding settled_def using key_determines by blast

text \<open>C17: A finished execution never changes: whatever calls, logs and restarts follow, the record that is read under its
  identifier is the one that was finished, or there is none any more, as long as the identifier is not drawn again.\<close>

theorem execution_finishes_once:
  assumes "history_ok s" "r \<in> set (hs_rows s)" "ex_finished r \<noteq> None"
    and "\<forall>e \<in> set es. \<not> begins_execution (ex_owner r, ex_id r) e"
  shows "GetExecution (ex_owner r) (ex_id r) (run history_step es s) \<in> {Inr r, Inl ErrExecutionNotFound}"
proof -
  let ?s = "run history_step es s"
  have "settled r ?s"
    using settled_machine.run_inv [OF _ never_begun [OF assms(4)], of s] row_settled [OF assms(1,2)] assms(3) by simp
  then have "GetExecution (ex_owner r) (ex_id r) ?s = Inr q \<Longrightarrow> q = r" for q
    using GetExecution_Inr [of "ex_owner r" "ex_id r" ?s q] by (auto simp: settled_def)
  then show ?thesis
    by (auto simp: GetExecution_def getExecutionLocked_def split: option.splits if_splits)
qed

subsection \<open>Retention\<close>

lemma filter_not_dropped:
  "distinct (map f xs) \<Longrightarrow> filter (\<lambda>x. f x \<notin> set (map f (drop n xs))) xs = take n xs"
proof -
  assume d: "distinct (map f xs)"
  have "set (map f (take n xs)) \<inter> set (map f (drop n xs)) = {}"
    using d by (metis distinct_append append_take_drop_id map_append)
  then have "filter (\<lambda>x. f x \<notin> set (map f (drop n xs))) (take n xs) = take n xs"
    and "filter (\<lambda>x. f x \<notin> set (map f (drop n xs))) (drop n xs) = []"
    by (auto simp: filter_id_conv filter_empty_conv)
  then show ?thesis by (metis append_take_drop_id filter_append append_Nil2)
qed

lemma newest_filter: "filter P (newest_first rows) = newest_first (filter P rows)"
  by (simp add: newest_first_def filter_sort rev_filter [symmetric])

lemma newest_first_set [simp]: "set (newest_first rows) = set rows"
  by (simp add: newest_first_def)

lemma newest_first_length [simp]: "length (newest_first rows) = length rows"
  by (simp add: newest_first_def)

lemma newest_first_distinct: "distinct (map f (newest_first rows)) = distinct (map f rows)"
  using distinct_map [of f "newest_first rows"] distinct_map [of f rows] by (simp add: newest_first_def)

lemma newest_first_sorted: "sorted (rev (map ex_started (newest_first rows)))"
  by (simp add: newest_first_def rev_map)

lemma finished_distinct: "history_ok s \<Longrightarrow> distinct (map ex_id (finished_of owner subject (hs_rows s)))"
proof -
  assume "history_ok s"
  then have "distinct (map ex_key (finished_of owner subject (hs_rows s)))"
    by (simp add: history_ok_def finished_of_def distinct_map_filter)
  then show ?thesis by (auto simp: distinct_map finished_of_def inj_on_def)
qed

lemma prune_keeps_newest:
  assumes "history_ok s"
  shows "newest_first (finished_of owner subject (hs_rows (pruneExecutions owner subject s)))
    = take ExecutionRetention (newest_first (finished_of owner subject (hs_rows s)))"
proof -
  let ?old = "newest_first (finished_of owner subject (hs_rows s))"
  have "finished_of owner subject (hs_rows (pruneExecutions owner subject s))
      = filter (\<lambda>r. ex_id r \<notin> set (map ex_id (drop ExecutionRetention ?old))) (finished_of owner subject (hs_rows s))"
    by (simp add: pruneExecutions_def Let_def stale_ids_def finished_of_def) (rule filter_cong, auto)
  then show ?thesis
    using filter_not_dropped [of ex_id ?old ExecutionRetention] finished_distinct [OF assms]
    by (simp add: newest_filter [symmetric] newest_first_distinct)
qed

lemma prune_keeps_others:
  assumes "history_ok s" "r \<in> set (hs_rows s)" "r \<notin> set (finished_of owner subject (hs_rows s))"
  shows "r \<in> set (hs_rows (pruneExecutions owner subject s))"
proof -
  have "\<not> (ex_owner r = owner \<and> ex_id r \<in> set (stale_ids owner subject (hs_rows s)))"
  proof
    assume a: "ex_owner r = owner \<and> ex_id r \<in> set (stale_ids owner subject (hs_rows s))"
    then obtain q where q: "q \<in> set (finished_of owner subject (hs_rows s))" "ex_id q = ex_id r"
      by (auto simp: stale_ids_def dest: in_set_dropD)
    then have "q = r" using a assms(1,2) by (intro key_determines) (auto simp: finished_of_def)
    with q assms(3) show False by simp
  qed
  with assms(2) show ?thesis by (simp add: pruneExecutions_def Let_def)
qed

text \<open>The update of an unfinished execution replaces its row.\<close>

lemma finish_update_replaces:
  assumes "history_ok s" "GetExecution owner i s = Inr q" "ex_finished q = None"
    and r_def: "r = finish_row now code ok (truncateText message maxMessageLength) q"
  shows "finish_update owner i code ok message now s
    = (Inr (r, True), s\<lparr>hs_rows := map (\<lambda>p. if p = q then r else p) (hs_rows s)\<rparr>)"
proof -
  let ?hit = "\<lambda>p. ex_owner p = owner \<and> ex_id p = i \<and> ex_finished p = None"
  let ?s = "s\<lparr>hs_rows := map (\<lambda>p. if p = q then r else p) (hs_rows s)\<rparr>"
  note q = GetExecution_Inr [OF assms(2)]
  have valid: "validOwner owner" "valid_history_name 128 i" using assms(2) by (auto simp: GetExecution_def split: if_splits)
  have hit: "?hit p \<longleftrightarrow> p = q" if "p \<in> set (hs_rows s)" for p
    using that q assms(3) key_determines [OF assms(1) that, of q] by auto
  then have rows: "map (\<lambda>p. if ?hit p then finish_row now code ok (truncateText message maxMessageLength) p else p) (hs_rows s)
      = map (\<lambda>p. if p = q then r else p) (hs_rows s)"
    by (auto simp: r_def)
  have any: "list_ex ?hit (hs_rows s)" using q assms(3) by (auto simp: list_ex_iff)
  have r: "ex_key r = (owner, i)" "r \<in> set (hs_rows ?s)" using q by (auto simp: r_def finish_row_def)
  have "history_ok ?s"
    using finish_update_ok [OF assms(1), of owner i code ok message now] valid
    unfolding finish_update_def Let_def rows by simp
  moreover obtain p where p: "getExecutionLocked owner i ?s = Inr p"
    using r by (cases "getExecutionLocked owner i ?s") (auto simp: getExecutionLocked_def find_None_iff split: option.splits)
  ultimately have "p = r" using r getExecution_Inr [OF p] by (intro key_determines) auto
  with p show ?thesis using valid any unfolding finish_update_def Let_def rows by (simp add: bind_result_def)
qed

text \<open>C18: When an execution is finished, its record gets the outcome, the newest two hundred finished executions of its owner and
  subject are kept, it counted among them, and nothing else is removed.\<close>

theorem retention:
  assumes "history_ok s" "GetExecution owner i s = Inr q" "ex_finished q = None"
    and "FinishExecution owner i code ok message now s = (Inr r, s')"
  shows "r = finish_row now code ok (truncateText message 1024) q
    \<and> newest_first (finished_of owner (ex_subject q) (hs_rows s'))
        = take 200 (newest_first (finished_of owner (ex_subject q) (map (\<lambda>p. if p = q then r else p) (hs_rows s))))
    \<and> set (hs_rows s) - {q} - set (finished_of owner (ex_subject q) (hs_rows s)) \<subseteq> set (hs_rows s')"
proof -
  let ?s = "s\<lparr>hs_rows := map (\<lambda>p. if p = q then r else p) (hs_rows s)\<rparr>"
  note u = finish_update_replaces [OF assms(1,2,3) refl, where now = now and code = code and ok = ok and message = message, unfolded maxMessageLength_def]
  have r: "r = finish_row now code ok (truncateText message 1024) q"
    and s': "s' = pruneExecutions owner (ex_subject r) ?s"
    using assms(4) by (auto simp add: FinishExecution_def u)
  have ok: "history_ok ?s"
    using finish_update_ok [OF assms(1), of owner i code ok message now] unfolding u r by simp
  have subject: "ex_subject r = ex_subject q" by (simp add: r finish_row_def)
  have "p \<in> set (hs_rows s')" if "p \<in> set (hs_rows s) - {q} - set (finished_of owner (ex_subject q) (hs_rows s))" for p
    unfolding s' by (rule prune_keeps_others [OF ok]) (use that in \<open>auto simp: subject finished_of_def\<close>)
  moreover have "newest_first (finished_of owner (ex_subject q) (hs_rows s'))
      = take 200 (newest_first (finished_of owner (ex_subject q) (map (\<lambda>p. if p = q then r else p) (hs_rows s))))"
    using prune_keeps_newest [OF ok, of owner "ex_subject q"] unfolding s' subject ExecutionRetention_def by simp
  ultimately show ?thesis using r by blast
qed

subsection \<open>Captured logs\<close>

fun log_writes :: "string list \<Rightarrow> execution_log \<times> history_store \<Rightarrow> execution_log \<times> history_store" where
  "log_writes [] ls = ls"
| "log_writes (p # ps) ls = log_writes ps (snd (log_write p ls))"

text \<open>What a log of all the output \<open>w\<close> is to hold.\<close>

definition capped :: "string \<Rightarrow> string" where
  "capped w = take MaxExecutionLogBytes w @ (if MaxExecutionLogBytes < length w then truncationMarker else [])"

text \<open>A log of an open handle that has seen the output \<open>w\<close>.\<close>

definition log_captures :: "string \<Rightarrow> execution_log \<times> history_store \<Rightarrow> bool" where
  "log_captures w ls =
     (\<not> xl_closed (fst ls) \<and> map_of (hs_logs (snd ls)) (xl_owner (fst ls), xl_id (fst ls)) = Some (capped w)
      \<and> xl_size (fst ls) = length (capped w) \<and> xl_truncated (fst ls) = (MaxExecutionLogBytes < length w))"

lemma log_captures_write: "log_captures w ls \<Longrightarrow> log_captures (w @ p) (snd (log_write p ls))"
proof -
  assume c: "log_captures w ls"
  obtain l s where ls: "ls = (l, s)" by fastforce
  let ?k = "(xl_owner l, xl_id l)"
  from c have l: "\<not> xl_closed l" "map_of (hs_logs s) ?k = Some (capped w)" "xl_size l = length (capped w)"
    "xl_truncated l = (MaxExecutionLogBytes < length w)" by (simp_all add: log_captures_def ls)
  then have t: "log_text (xl_owner l) (xl_id l) s = capped w" by (simp add: log_text_def)
  show ?thesis
  proof (cases "MaxExecutionLogBytes < length w")
    case True
    then have "MaxExecutionLogBytes - length (capped w) = 0" "capped (w @ p) = capped w" by (simp_all add: capped_def)
    with True l t show ?thesis
      by (simp add: log_captures_def ls log_write_def Let_def set_log_def update_conv')
  next
    case False
    then have "capped (w @ p) = w @ take (MaxExecutionLogBytes - length w) p
        @ (if MaxExecutionLogBytes - length w < length p then truncationMarker else [])" "capped w = w"
      by (auto simp: capped_def)
    with False l t show ?thesis
      by (auto simp add: log_captures_def ls log_write_def Let_def set_log_def update_conv' min_def)
  qed
qed

lemma log_captures_writes: "log_captures w ls \<Longrightarrow> log_captures (w @ concat ps) (log_writes ps ls)"
proof (induction ps arbitrary: w ls)
  case (Cons p ps)
  from Cons.IH [OF log_captures_write [OF Cons.prems, of p]] show ?case by simp
qed simp

lemma OpenExecutionLog_captures:
  "OpenExecutionLog owner i s = (Inr l, s1) \<Longrightarrow> length (log_text owner i s) \<le> MaxExecutionLogBytes
     \<Longrightarrow> log_captures (log_text owner i s) (l, s1) \<and> xl_owner l = owner \<and> xl_id l = i"
  by (auto simp: OpenExecutionLog_def log_captures_def capped_def set_log_def update_conv' split: sum.splits if_splits)

lemma log_writes_handle: "xl_owner (fst (log_writes ps ls)) = xl_owner (fst ls) \<and> xl_id (fst (log_writes ps ls)) = xl_id (fst ls)"
proof (induction ps arbitrary: ls)
  case (Cons p ps)
  then show ?case by (cases ls) (simp add: log_write_def Let_def)
qed simp

text \<open>C19: The log of a captured process that alone writes to it holds all its output in order up to the limit, followed by exactly one
  marker when output was cut, however the output was split into writes.\<close>

theorem captured_log:
  assumes "OpenExecutionLog owner i s = (Inr l, s1)" "length (log_text owner i s) \<le> 16777216"
  shows "let w = log_text owner i s @ concat ps in
    log_text owner i (snd (log_writes ps (l, s1)))
      = take 16777216 w @ (if 16777216 < length w then truncationMarker else [])"
proof -
  have c: "log_captures (log_text owner i s) (l, s1)" and l: "xl_owner l = owner" "xl_id l = i"
    using OpenExecutionLog_captures [OF assms(1)] assms(2) by (simp_all add: MaxExecutionLogBytes_def)
  from log_captures_writes [OF c, of ps] log_writes_handle [of ps "(l, s1)"] l show ?thesis
    unfolding log_captures_def capped_def MaxExecutionLogBytes_def log_text_def Let_def by simp
qed

text \<open>A log that is opened again after it was cut has forgotten that it was: a second marker is written.\<close>

lemma reopened_log_marks_again:
  assumes "OpenExecutionLog owner i s = (Inr l, s1)" "MaxExecutionLogBytes \<le> length (log_text owner i s)" "p \<noteq> []"
  shows "log_text owner i (snd (log_writes [p] (l, s1))) = log_text owner i s @ truncationMarker"
  using assms
  by (auto simp: OpenExecutionLog_def log_write_def Let_def set_log_def update_conv' log_text_def split: sum.splits if_splits)

text \<open>An open log does not count what the plugin appends: after an append that the file has room for, it still writes as
  if its own bytes were all, and the file exceeds the limit.\<close>

lemma append_exceeds_limit:
  assumes "OpenExecutionLog owner i s = (Inr l, s1)" "length (log_text owner i s) \<le> MaxExecutionLogBytes"
    and "AppendExecutionOutput owner i t s1 = (None, s2)" "length (log_text owner i s) + length t \<le> MaxExecutionLogBytes"
    and "length p = MaxExecutionLogBytes - length (log_text owner i s)" "t \<noteq> []"
  shows "length (log_text owner i (snd (log_writes [p] (l, s2)))) = MaxExecutionLogBytes + length t"
proof -
  have l: "xl_owner l = owner" "xl_id l = i" "xl_size l = length (log_text owner i s)" "\<not> xl_closed l"
    and t: "log_text owner i s1 = log_text owner i s"
    using assms(1) by (auto simp: OpenExecutionLog_def set_log_def log_text_def update_conv' split: sum.splits if_splits)
  with assms(3,4) have s2: "log_text owner i s2 = log_text owner i s @ t" "map_of (hs_logs s2) (owner, i) \<noteq> None"
    by (auto simp: AppendExecutionOutput_def Let_def set_log_def log_text_def update_conv' split: sum.splits if_splits)
  then show ?thesis using l assms(2,5) by (auto simp: log_write_def Let_def set_log_def log_text_def update_conv')
qed

subsection \<open>The end of a log\<close>

lemma lead_not_continuation: "rune_length (c # t) \<noteq> 0 \<Longrightarrow> rune_start c"
  by (auto simp: rune_length_def lead_length_def rune_start_def byte_in_def Let_def split: if_splits)

lemma rune_length_max: "rune_length s \<le> 4"
  by (auto simp: rune_length_def lead_length_def Let_def split: list.split)

lemma second_continues: "second_byte c d \<Longrightarrow> byte_in 0x80 0xBF d"
  by (auto simp: second_byte_def byte_in_def split: if_splits)

text \<open>The bytes of a rune after the first continue it.\<close>

lemma rune_tail: "list_all (\<lambda>c. \<not> rune_start c) (tl (take (rune_length s) s))"
proof (cases s)
  case (Cons c t)
  show ?thesis
  proof (cases "rune_length s \<le> 1")
    case True
    then show ?thesis by (cases "rune_length s") (simp_all add: Cons)
  next
    case False
    then have n: "rune_length s = lead_length c" "lead_length c \<le> length s" "second_byte c (hd t)"
      "list_all (byte_in 0x80 0xBF) (take (lead_length c - 2) (tl t))"
      by (auto simp: rune_length_def Cons Let_def split: if_splits)
    with False obtain d u k where t: "t = d # u" "lead_length c = Suc (Suc k)"
      by (cases t; cases "lead_length c"; cases "lead_length c - 1") (auto simp: Cons)
    with n second_continues show ?thesis by (simp add: n(1) Cons rune_start_def list_all_iff)
  qed
qed simp

lemma valid_starts: "valid_utf8 (c # t) \<Longrightarrow> rune_start c"
  using lead_not_continuation by (simp add: valid_utf8.simps [of "c # t"] split: if_splits)

lemma dropWhile_all_append: "list_all P xs \<Longrightarrow> dropWhile P (xs @ ys) = dropWhile P ys"
  by (induction xs) auto

lemma drop_continuation: "valid_utf8 s \<Longrightarrow> dropWhile (\<lambda>c. \<not> rune_start c) s = s"
  by (cases s) (auto dest: valid_starts)

lemma tail_runes:
  assumes "valid_utf8 s"
  shows "valid_utf8 (dropWhile (\<lambda>c. \<not> rune_start c) (drop n s))
    \<and> length (drop n s) \<le> length (dropWhile (\<lambda>c. \<not> rune_start c) (drop n s)) + 3"
  using assms
proof (induction s arbitrary: n rule: valid_utf8.induct)
  case (1 s)
  show ?case
  proof (cases "s = []")
    case False
    let ?k = "rune_length s"
    from 1(2) False have r: "?k \<noteq> 0" and v: "valid_utf8 (drop ?k s)"
      by (simp_all add: valid_utf8.simps [of s] split: if_splits)
    consider "n = 0" | "?k \<le> n" | "0 < n" "n < ?k" by linarith
    then show ?thesis
    proof cases
      case 1
      then show ?thesis using \<open>valid_utf8 s\<close> by (simp add: drop_continuation)
    next
      case 2
      then have "drop n s = drop (n - ?k) (drop ?k s)" by simp
      with "1.IH" [OF False r v, of "n - ?k"] show ?thesis by simp
    next
      case 3
      then obtain m where n: "n = Suc m" by (cases n) auto
      have split: "drop n s = drop n (take ?k s) @ drop ?k s"
        using 3 rune_length_le [of s] by (metis append_take_drop_id drop_append length_take min.absorb2 diff_is_0_eq' less_imp_le_nat drop0)
      have "set (drop n (take ?k s)) \<subseteq> set (tl (take ?k s))" by (simp add: n drop_Suc set_drop_subset)
      then have c: "list_all (\<lambda>c. \<not> rune_start c) (drop n (take ?k s))"
        using rune_tail [of s] by (auto simp: list_all_iff)
      have "dropWhile (\<lambda>c. \<not> rune_start c) (drop n s) = drop ?k s"
        unfolding split by (simp add: dropWhile_all_append [OF c] drop_continuation [OF v])
      moreover have "length (drop n s) \<le> length (drop ?k s) + 3" using 3 rune_length_max [of s] by simp
      ultimately show ?thesis using v by simp
    qed
  qed simp
qed

text \<open>The end of a log of valid text is read as it is: the answer is valid, is an end of the log, never starts within a
  character, has at most the bytes asked for and loses at most three of them.\<close>

theorem tail_read:
  assumes "valid_utf8 t" "tail_text limit t = (out, n, b)"
  shows "valid_utf8 out \<and> suffix out t \<and> length out \<le> limit \<and> min limit (length t) \<le> length out + 3
    \<and> n = length t \<and> b = (limit < length t)"
proof (cases "limit < length t")
  case True
  let ?d = "drop (length t - limit) t"
  note r = tail_runes [OF assms(1), of "length t - limit"]
  have "suffix (dropWhile (\<lambda>c. \<not> rune_start c) ?d) t"
    using suffix_order.trans [OF suffix_dropWhile suffix_drop] .
  moreover have "length (dropWhile (\<lambda>c. \<not> rune_start c) ?d) \<le> limit"
    using length_dropWhile_le [of "\<lambda>c. \<not> rune_start c" ?d] True by simp
  ultimately show ?thesis using assms(2) r True by (auto simp: tail_text_def to_valid_utf8_id)
qed (use assms in \<open>auto simp: tail_text_def to_valid_utf8_id\<close>)

section \<open>An example\<close>

definition plain_run :: execution where
  "plain_run = \<lparr>ex_owner = ''tasks'', ex_id = ''e1'', ex_kind = ''run'', ex_subject = ''backup'', ex_label = ''Backup'', ex_started = 5,
     ex_finished = None, ex_exit = None, ex_success = None, ex_message = []\<rparr>"

definition ended_run :: execution where
  "ended_run = finish_row 9 (Some 0) (Some True) [] plain_run"

abbreviation one_run :: "execution \<Rightarrow> history_store" where
  "one_run r \<equiv> \<lparr>hs_rows = [r], hs_logs = [((''tasks'', ''e1''), [])]\<rparr>"

lemmas run_defs = ended_run_def plain_run_def finish_row_def

lemma names_valid:
  "validOwner ''tasks''" "valid_history_name 128 ''e1''" "valid_history_name maxKindLength ''run''"
  "valid_history_name maxSubjectLength ''backup''"
  by code_simp+

lemma run_ok: "history_ok (one_run plain_run)" "history_ok (one_run ended_run)"
  by (simp_all add: history_ok_def execution_ok_def names_valid run_defs maxLabelLength_def maxMessageLength_def)

lemma run_read: "GetExecution ''tasks'' ''e1'' (one_run plain_run) = Inr plain_run"
  by (simp add: GetExecution_def getExecutionLocked_def names_valid run_defs)

abbreviation run_log :: execution_log where
  "run_log \<equiv> \<lparr>xl_owner = ''tasks'', xl_id = ''e1'', xl_size = 0, xl_truncated = False, xl_closed = False\<rparr>"

lemma run_opened: "OpenExecutionLog ''tasks'' ''e1'' (one_run plain_run) = (Inr run_log, one_run plain_run)"
  by (simp add: OpenExecutionLog_def run_read log_text_def set_log_def) (simp add: run_defs)

lemma run_finished:
  "FinishExecution ''tasks'' ''e1'' (Some 0) (Some True) [] 9 (one_run plain_run) = (Inr ended_run, one_run ended_run)"
proof -
  have "finish_update ''tasks'' ''e1'' (Some 0) (Some True) [] 9 (one_run plain_run) = (Inr (ended_run, True), one_run ended_run)"
    using finish_update_replaces [OF run_ok(1) run_read _ refl, where now = 9 and code = "Some 0" and ok = "Some True" and message = "[]"]
    by (simp add: ended_run_def plain_run_def truncateText_def)
  moreover have "pruneExecutions ''tasks'' ''backup'' (one_run ended_run) = one_run ended_run"
    by (simp add: pruneExecutions_def stale_ids_def newest_first_def finished_of_def ExecutionRetention_def)
  ultimately show ?thesis by (simp add: FinishExecution_def) (simp add: run_defs)
qed

theorem execution_finishes_once_witness:
  "GetExecution ''tasks'' ''e1'' (run history_step [Restarted 11, Log_Written run_log ''x''] (one_run ended_run))
     \<in> {Inr ended_run, Inl ErrExecutionNotFound}"
  using execution_finishes_once [OF run_ok(2), of ended_run "[Restarted 11, Log_Written run_log ''x'']"]
  by (simp add: begins_execution_def) (simp add: run_defs)

theorem retention_witness:
  "newest_first (finished_of ''tasks'' ''backup'' (hs_rows (one_run ended_run))) = take 200 [ended_run]"
  using retention [OF run_ok(1) run_read _ run_finished] by (simp add: run_defs finished_of_def newest_first_def)

theorem captured_log_witness:
  "log_text ''tasks'' ''e1'' (snd (log_writes [''ab'', [], ''c''] (run_log, one_run plain_run))) = ''abc''"
  using captured_log [OF run_opened, of "[''ab'', [], ''c'']"] by (simp add: log_text_def)

lemma accents_valid: "valid_utf8 [CHR 0xC3, CHR 0xA9, CHR ''a'', CHR 0xC3, CHR 0xA9]"
  by code_simp

theorem tail_read_witness:
  "valid_utf8 [CHR ''a'', CHR 0xC3, CHR 0xA9] \<and> suffix [CHR ''a'', CHR 0xC3, CHR 0xA9] [CHR 0xC3, CHR 0xA9, CHR ''a'', CHR 0xC3, CHR 0xA9]"
proof -
  have "tail_text 4 [CHR 0xC3, CHR 0xA9, CHR ''a'', CHR 0xC3, CHR 0xA9] = ([CHR ''a'', CHR 0xC3, CHR 0xA9], 5, True)"
    by code_simp
  from tail_read [OF accents_valid this] show ?thesis by simp
qed

end
