(* ===== verification/Spec2Isabelle.thy ===== *)
theory Spec2Isabelle
  imports TaskProperties Backup Launcher Jobs Scheduler NetStreams Processes Sessions Tunnel ApplicationWS RemotePlugin AppPublications
    History
begin

section \<open>RunPilot: the model and what it shows\<close>

text \<open>
  RunPilot is a service that runs scheduled commands and backups, hosts plugins (WebAssembly modules that reach
  the machine through host capabilities only), and serves a web interface.  This development models its own logic,
  component by component, as executable definitions that follow the Go sources, and proves what makes each component
  correct.

  \<^bold>\<open>How the parts interact.\<close>  The web server (\<^verbatim>\<open>internal/web\<close>) authenticates a browser and opens an application
  connection, over which the browser calls plugins and attaches to streams.  A plugin calls back into the core
  (\<^verbatim>\<open>internal/core\<close>) for schedules, processes, sessions, network streams and browser publications; a publication
  carries HTTP gateways (\<^verbatim>\<open>internal/httpgateway\<close>) that tunnel requests of a service worker to a server of the
  local network.  The scheduler (\<^verbatim>\<open>internal/scheduler\<close>) fires the backup jobs (\<^verbatim>\<open>internal/jobs\<close>) of the
  configuration and the schedules of plugins; jobs and plugin processes are started by the command launcher
  (\<^verbatim>\<open>internal/launcher\<close>).  The tasks plugin (\<^verbatim>\<open>plugins/tasks\<close>) is the largest client of the host: it keeps its
  configuration in its storage and drives processes and schedules.

  \<^bold>\<open>Conventions.\<close>  A Go string is a byte sequence (\<open>string\<close>), a Go map an association list with one entry per key whose
  order is the iteration order of one execution, a struct a record, an error a value of a sum or option type.
  A component is a state record and a step function over events: a method that holds its lock throughout is one
  event, a method that lets the lock go is one event per critical section, so that a \<open>run\<close> (theory \<open>Prelude\<close>) is an
  arbitrary interleaving of goroutines, timers and callbacks.  A goroutine between two of its events is part of the state:
  a reader that still has a chunk to hand over (\<open>Processes\<close>), a login that is being checked (\<open>Passwords\<close>), a frame that
  waits for a dial (\<open>GatewaySockets\<close>), a forwarder that has not released its stream (\<open>ApplicationWS\<close>).  A lock that a
  goroutine asks for twice is never released: the ticket locks of the web server can get lost that way, and
  \<open>WebSessions\<close> says when (\<open>expired_session_deadlocks\<close>).  What the operating system, the network, the clock,
  the random source or a library outside of the repository answers is a parameter of the definition or of the event.
  Machine integers are \<open>int\<close> with the wrap-around written out (\<open>wrap64\<close>) where a value can leave the range, and
  words in the frames of the tunnel.

  \<^bold>\<open>The theories.\<close>
  \<^item> \<open>Prelude\<close>: strings, numbers, results, tables, runs; the locales \<open>machine\<close>, \<open>guarded_machine\<close> and
    \<open>owner_machine\<close> (a component whose steps keep an invariant, under a side condition, and without touching what
    another owner sees) and \<open>ledger\<close> (no step spends more than is held and earned).  Every component that runs
    interprets them on its own step function.  \<open>Base64\<close>, \<open>Urls\<close>: Go's \<^verbatim>\<open>encoding/base64\<close> and \<^verbatim>\<open>net/url\<close> as far as the
    sources use them.
  \<^item> \<open>TaskModel\<close>, \<open>Tasks\<close>, \<open>TaskRpc\<close>, \<open>TaskInvariant\<close>, \<open>TaskPlugin\<close>, \<open>TaskProperties\<close>: the tasks plugin
    (\<^verbatim>\<open>plugins/tasks/backend/model.go, plugin.go, rpc.go\<close>): definitions and their validation; the runtime of each task,
    host calls, executions, restarts; requests and events; the invariant and that every operation keeps it; the
    properties (one execution at most, exactly one exit per process, restart and overlap policies, durability of the
    configuration, read-only mode).
  \<^item> \<open>Model\<close>, \<open>Backup\<close>, \<open>Launcher\<close>, \<open>Jobs\<close>: the data model with its defaults and validation
    (\<^verbatim>\<open>internal/model\<close>), the plans of the backup providers (\<^verbatim>\<open>internal/backup\<close>), the command line and
    environment of a child process (\<^verbatim>\<open>internal/launcher\<close>), the job runner (\<^verbatim>\<open>internal/jobs/runner.go\<close>).
  \<^item> \<open>Calendar\<close>, \<open>Schedule\<close>, \<open>Scheduler\<close>: civil time with the time zone as a parameter, the compiler of schedules
    with its search for the next instant, the registry of jobs and plugin schedules
    (\<^verbatim>\<open>internal/scheduler/scheduler.go\<close>), which refines a map from schedules to deadlines.
  \<^item> \<open>NetStreams\<close>, \<open>Processes\<close>, \<open>Sessions\<close>: the network streams, processes and interactive sessions of plugins
    (\<^verbatim>\<open>internal/core/plugin_network_streams.go, plugin_processes.go, plugin_process_run.go, plugin_process_sessions.go\<close>):
    bounds, isolation of owners, one exit after all output, what a bounded capture keeps.
  \<^item> \<open>Paths\<close>, \<open>BrowserPub\<close>: mounts, assets and package paths (\<^verbatim>\<open>internal/browserpath/path.go\<close>), the browser
    publications with their gateways and tickets (\<^verbatim>\<open>internal/core/browser_publication.go\<close>).
  \<^item> \<open>AppTargets\<close>, \<open>WebApps\<close>, \<open>AppPublications\<close>: the web applications plugin
    (\<^verbatim>\<open>plugins/web-apps/backend/plugin.go\<close>): what a target and a stored list may be, every call of the plugin against the browser
    publications of \<open>BrowserPub\<close>, and the invariant of the two: the host serves exactly the mounts of the targets the plugin has
    published, whatever the storage or the host refuses half way through a call.
  \<^item> \<open>Frames\<close>, \<open>Headers\<close>, \<open>GatewayUrl\<close>, \<open>GatewayRequest\<close>, \<open>Cookies\<close>, \<open>GatewayFlow\<close>, \<open>GatewaySockets\<close>, \<open>Tunnel\<close>: the
    HTTP gateway (\<^verbatim>\<open>internal/httpgateway\<close>): frames on the wire, header filters, the mapping of request paths and
    redirects, the request sent upstream, the cookie jar, the exchanges and WebSocket channels with their flow control, and
    the gateway as one machine.
  \<^item> \<open>Passwords\<close>, \<open>WebSessions\<close>, \<open>ApplicationWS\<close>: password records and the login throttle, sessions with their
    store and tickets (\<^verbatim>\<open>internal/web/auth.go, auth_sessions.go\<close> and the ticket handlers of \<^verbatim>\<open>server.go\<close> and
    \<^verbatim>\<open>remote.go\<close>), the application connection (\<^verbatim>\<open>internal/web/application_ws.go\<close>).
  \<^item> \<open>Utf8\<close>, \<open>Guac\<close>, \<open>RemoteModel\<close>, \<open>RemoteSession\<close>, \<open>RemoteStore\<close>, \<open>RemotePlugin\<close>: the remote desktop plugin
    (\<^verbatim>\<open>plugins/remote/backend/plugin.go, vnc.go\<close>): the Guacamole protocol over a stream of the host, the options and
    settings, the handshake with guacd, the stored targets with their identifiers, sessions and diagnostics; the streams it
    asks for are ones that \<open>NetStreams\<close> accepts.
  \<^item> \<open>History\<close>: the executions of plugins (\<^verbatim>\<open>internal/history/owned.go\<close>, \<^verbatim>\<open>internal/core/plugin_history.go\<close>): an execution
    ends once, the newest two hundred are kept, a captured log is the output up to its limit, the end of a log is read whole
    characters at a time.
  \<^item> This theory: the admission of application connections by the web server and the browser publications together.

  \<^bold>\<open>Fuel and bounds.\<close>  Loops over a list are structural.  The loop over a cron field (\<open>Schedule.field_loop\<close>) has fuel 200 and is
  proved to return with it for every field the parser admits; the search for the next matching second is bounded by the
  year the code itself allows.  The search for an unused VNC identifier has as many attempts as there are targets and one more,
  which \<open>RemoteStore.nextVNCTargetID_returns\<close> proves enough.  The decoding rounds of paths (4) and of request URLs (4) are the bounds of
  the sources.

  \<^bold>\<open>Not modelled.\<close>  The JSON codec and the WebAssembly runtime that carries plugin calls (\<^verbatim>\<open>internal/plugins/runtime.go\<close>,
  \<^verbatim>\<open>internal/pluginapi\<close>): a request is what it decodes to.  The installation of plugins and of packages, the
  checks of a request to run a process, the
  configuration store, the storage providers and Docker: they mostly drive files, child processes and
  servers, and are left for later.  The handlers of the web server that only decode a request, call a component and encode
  the answer; the service and daemon glue; the front end in JavaScript.
\<close>

subsection \<open>Admission over the whole system\<close>

text \<open>
  The web server and the browser publications run side by side; a WebSocket request is admitted by both.  A restart
  of the server is a restart of the publications too.
\<close>

datatype system_event =
    Web web_event
  | Browser browser_event
  | Connect int ws_request save_result

fun system_step :: "(string \<Rightarrow> string) \<Rightarrow> system_event \<Rightarrow> web_state \<times> browser_host \<Rightarrow> web_state \<times> browser_host" where
  "system_step key (Web e) sh =
     (web_step key e (fst sh), case e of Web_Restart _ \<Rightarrow> newBrowserPublications | _ \<Rightarrow> snd sh)"
| "system_step key (Browser e) sh = (fst sh, browser_step e (snd sh))"
| "system_step key (Connect now r w) sh = snd (admitApplicationWS key now r w sh)"

text \<open>The connections admitted for a stream, and the tickets issued for it.\<close>

fun stream_admitted :: "(string \<Rightarrow> string) \<Rightarrow> string \<Rightarrow> stream_grant \<Rightarrow> system_event \<Rightarrow> web_state \<times> browser_host \<Rightarrow> nat" where
  "stream_admitted key t g (Connect now r w) sh =
     of_bool (wr_ticket r = t \<and> fst (admitApplicationWS key now r w sh) = Admitted (Some g))"
| "stream_admitted key t g _ sh = 0"

fun stream_issued :: "string \<Rightarrow> stream_grant \<Rightarrow> system_event \<Rightarrow> web_state \<times> browser_host \<Rightarrow> nat" where
  "stream_issued t g (Browser e) sh = ticket_issued t g e (snd sh)"
| "stream_issued t g _ sh = 0"

text \<open>The connections admitted to the whole application, and the application tickets, of a session.\<close>

fun application_admitted :: "(string \<Rightarrow> string) \<Rightarrow> string \<Rightarrow> string \<Rightarrow> system_event \<Rightarrow> web_state \<times> browser_host \<Rightarrow> nat" where
  "application_admitted key t k (Connect now r w) sh =
     of_bool (wr_ticket r = t \<and> session_id (fst (session key now (wr_cookie r) w (fst sh))) = k
        \<and> fst (admitApplicationWS key now r w sh) = Admitted None)"
| "application_admitted key t k _ sh = 0"

fun application_issued :: "(string \<Rightarrow> string) \<Rightarrow> string \<Rightarrow> string \<Rightarrow> system_event \<Rightarrow> web_state \<times> browser_host \<Rightarrow> nat" where
  "application_issued key t k (Web (Web_Application_Ticket now u c w)) sh =
     of_bool (u = t \<and> session_id (fst (session key now c w (fst sh))) = k
        \<and> Application_Lock \<notin> set (ws_stuck (fst sh)) \<and> \<not> session_expired key now c (fst sh))"
| "application_issued key t k _ sh = 0"

definition application_held :: "string \<Rightarrow> string \<Rightarrow> web_state \<Rightarrow> nat" where
  "application_held t k s = of_bool (list_ex (\<lambda>(u, i). u = t \<and> st_session i = k) (ws_application s))"

lemma application_held_mono:
  "set (ws_application s') \<subseteq> set (ws_application s) \<Longrightarrow> application_held t k s' \<le> application_held t k s"
  by (auto simp: application_held_def list_ex_iff)

lemma session_application: "set (ws_application (snd (session_holding held key now c w s))) \<subseteq> set (ws_application s)"
proof -
  have "ws_application (snd (saveSessions w (drop_session k s))) = ws_application s" for k
    by (simp add: saveSessions_def drop_session_def split: sum.split)
  then have "set (ws_application (revokeSessionTickets held k (snd (saveSessions w (drop_session k s))))) \<subseteq> set (ws_application s)" for k
    using revoke_tickets_application [of held k "snd (saveSessions w (drop_session k s))"] by simp
  then show ?thesis by (simp add: session_holding_def split: option.split)
qed

lemma session_application_downloads:
  "set (ws_application (snd (session key now c w (s\<lparr>ws_downloads := ds\<rparr>)))) \<subseteq> set (ws_application s)"
  using session_application [of "[]" key now c w "s\<lparr>ws_downloads := ds\<rparr>"] by simp

lemma fold_drop_application [simp]: "ws_application (fold drop_session ks s) = ws_application s"
  by (induction ks arbitrary: s) (simp_all add: drop_session_def)

lemma saveSessions_application [simp]: "ws_application (snd (saveSessions w s)) = ws_application s"
  by (simp add: saveSessions_def split: sum.split)

lemma revoke_application [simp]: "ws_application (snd (revokePersistedSessions w rm s)) = ws_application s"
  by (auto simp: revokePersistedSessions_def saveSessions_def split: sum.split option.split)

lemma issue_application [simp]: "ws_application (snd (issueSession key now i c w s)) = ws_application s"
  by (auto simp: issueSession_def Let_def saveSessions_def split: option.split sum.split)

lemma lose_lock_application [simp]: "ws_application (lose_lock l s) = ws_application s"
  by (simp add: lose_lock_def)

text \<open>No event of the server but the issue of an application ticket adds one.\<close>

lemma web_application:
  assumes "\<nexists>now u c w. e = Web_Application_Ticket now u c w"
  shows "set (ws_application (web_step key e s)) \<subseteq> set (ws_application s)"
proof (cases e)
  case (Web_Clear c w rm)
  have "ws_application (snd (revokePersistedSessions w rm (drop_session k s))) = ws_application s" for k
    by (simp add: drop_session_def)
  then have "set (ws_application (revokeSessionTickets [] k (snd (revokePersistedSessions w rm (drop_session k s)))))
      \<subseteq> set (ws_application s)" for k
    using revoke_tickets_application [of "[]" k "snd (revokePersistedSessions w rm (drop_session k s))"] by simp
  then show ?thesis by (simp add: Web_Clear clearSession_def Let_def case_prod_unfold split: option.split)
next
  case (Web_Application_Consume now t k)
  then show ?thesis by (auto simp: consumeApplicationTicket_def set_delete)
qed (use assms in \<open>simp_all add: revokeAllSessions_def restart_def new_web_def registerSessionConnection_def
      unregisterSessionConnection_def handleDownloadTicket_def handleTicketDownload_def
      handleDockerContainerAttachTicket_def consumeDockerAttachTicket_def handleRemoteClientTicket_def remoteTicket_def
      rememberSessionTickets_def browserTicketAllowed_def Let_def case_prod_unfold session_application
      session_application_downloads split: option.split\<close>)

lemma application_held_issue:
  "application_held t k (handleApplicationTicket key now u c w s)
     \<le> application_held t k s + of_bool (u = t \<and> session_id (fst (session key now c w s)) = k
          \<and> Application_Lock \<notin> set (ws_stuck s) \<and> \<not> session_expired key now c s)"
proof -
  obtain v s' where v: "session_holding [Application_Lock] key now c w s = (v, s')"
    by (cases "session_holding [Application_Lock] key now c w s")
  have fst_v: "fst (session key now c w s) = v"
    using v fst_session_holding [of "[Application_Lock]" key now c w s] by simp
  let ?i = "\<lparr>st_session = session_id v, st_expires = now + minute\<rparr> :: session_ticket"
  have "set (AList.update u ?i (ws_application s')) \<subseteq> insert (u, ?i) (set (ws_application s'))" by (rule set_update_sub)
  moreover have sub: "set (ws_application s') \<subseteq> set (ws_application s)"
    using session_application [of "[Application_Lock]" key now c w s] v by simp
  ultimately have "set (AList.update u ?i (ws_application s')) \<subseteq> insert (u, ?i) (set (ws_application s))" by blast
  moreover have "application_held t k (lose_lock l s') \<le> application_held t k s" for l
    using sub by (intro application_held_mono) simp
  moreover have "application_held t k (s'\<lparr>ws_application := AList.update u ?i (ws_application s')\<rparr>)
      \<le> application_held t k s + of_bool (u = t \<and> session_id v = k)"
    if "set (AList.update u ?i (ws_application s')) \<subseteq> insert (u, ?i) (set (ws_application s))"
    using that by (force simp: application_held_def list_ex_iff)
  ultimately show ?thesis
    by (cases "Application_Lock \<in> set (ws_stuck s)"; cases "session_expired key now c s")
      (simp_all add: handleApplicationTicket_def v fst_v)
qed

lemma application_held_consume:
  "of_bool (u = t \<and> j = k \<and> fst (consumeApplicationTicket now u j s))
     + application_held t k (snd (consumeApplicationTicket now u j s)) \<le> application_held t k s"
proof (cases "Application_Lock \<in> set (ws_stuck s)")
  case True
  then show ?thesis by (simp add: consumeApplicationTicket_def)
next
  case False
  have "application_held t k s = 1" if "map_of (ws_application s) t = Some i" "st_session i = k" for i
    using map_of_SomeD [OF that(1)] that(2) by (force simp: application_held_def list_ex_iff)
  moreover have "application_held t k (snd (consumeApplicationTicket now u j s)) \<le> (if u = t then 0 else application_held t k s)"
    using False by (auto simp: application_held_def consumeApplicationTicket_def list_ex_iff set_delete)
  ultimately show ?thesis by (auto simp: consumeApplicationTicket_def split: option.splits if_splits)
qed

lemma admit_application:
  "of_bool (wr_ticket r = t \<and> session_id (fst (session key now (wr_cookie r) w s)) = k
      \<and> fst (admitApplicationWS key now r w (s, h)) = Admitted None)
    + application_held t k (fst (snd (admitApplicationWS key now r w (s, h)))) \<le> application_held t k s"
proof -
  obtain v s1 where v: "session key now (wr_cookie r) w s = (v, s1)" by (cases "session key now (wr_cookie r) w s")
  obtain grant h1 where g: "consume now (wr_ticket r) h = (grant, h1)" by (cases "consume now (wr_ticket r) h")
  have s1: "application_held t k s1 \<le> application_held t k s"
    using session_application [of "[]" key now "wr_cookie r" w s] v by (intro application_held_mono) simp
  show ?thesis
  proof (cases "session_hangs key now (wr_cookie r) s")
    case True
    with s1 show ?thesis by (simp add: admitApplicationWS_def v)
  next
    case False
    show ?thesis
    proof (cases grant)
      case None
      then show ?thesis
        using s1 False application_held_consume [of "wr_ticket r" t "session_id v" k now s1]
        by (auto simp: admitApplicationWS_def v g case_prod_unfold Let_def split: if_splits)
    next
      case (Some x)
      have "ws_application (snd (browserTicketAllowed now (wr_ticket r) v s1)) = ws_application s1"
        by (simp add: browserTicketAllowed_def split: option.split)
      then have "application_held t k (snd (browserTicketAllowed now (wr_ticket r) v s1)) = application_held t k s1"
        by (simp add: application_held_def)
      with Some s1 False show ?thesis by (simp add: admitApplicationWS_def v g case_prod_unfold Let_def)
    qed
  qed
qed

lemma admit_stream:
  "of_bool (wr_ticket r = t \<and> fst (admitApplicationWS key now r w (s, h)) = Admitted (Some g))
    + ticket_held t g (snd (snd (admitApplicationWS key now r w (s, h)))) \<le> ticket_held t g h"
proof (cases "session_hangs key now (wr_cookie r) s")
  case True
  then show ?thesis by (simp add: admitApplicationWS_def case_prod_unfold Let_def)
next
  case False
  obtain grant h1 where g: "consume now (wr_ticket r) h = (grant, h1)" by (cases "consume now (wr_ticket r) h")
  have "snd (snd (admitApplicationWS key now r w (s, h))) = h1"
    using False by (simp add: admitApplicationWS_def g case_prod_unfold Let_def split: option.split)
  moreover have "grant = Some g" if "fst (admitApplicationWS key now r w (s, h)) = Admitted (Some g)"
    using that False by (auto simp: admitApplicationWS_def g case_prod_unfold Let_def split: option.splits if_splits)
  ultimately show ?thesis
    using ticket_held_consume [of "wr_ticket r" t now h g] by (auto simp: g)
qed

lemma ticket_held_new [simp]: "ticket_held t g newBrowserPublications = 0"
  by (simp add: ticket_held_def newBrowserPublications_def)

lemma stream_balance:
  "stream_admitted key t g e sh + ticket_held t g (snd (system_step key e sh)) \<le> ticket_held t g (snd sh) + stream_issued t g e sh"
proof (cases e)
  case (Web x)
  then show ?thesis by (cases sh; cases x) simp_all
next
  case (Browser x)
  then show ?thesis using ticket_balance [of t g x "snd sh"] by (cases sh) simp
next
  case (Connect now r w)
  then show ?thesis using admit_stream [of r t key now w "fst sh" "snd sh" g] by simp
qed

lemma application_balance:
  "application_admitted key t k e sh + application_held t k (fst (system_step key e sh))
     \<le> application_held t k (fst sh) + application_issued key t k e sh"
proof (cases e)
  case (Web x)
  show ?thesis
  proof (cases "\<exists>now u c w. x = Web_Application_Ticket now u c w")
    case True
    then show ?thesis using application_held_issue by (cases sh) (auto simp: Web)
  next
    case False
    then have "application_held t k (web_step key x (fst sh)) \<le> application_held t k (fst sh)"
      by (intro application_held_mono web_application)
    moreover have "fst (system_step key (Web x) sh) = web_step key x (fst sh)" by (cases sh; cases x) simp_all
    ultimately show ?thesis by (simp add: Web)
  qed
next
  case (Browser x)
  then show ?thesis by (cases sh) simp
next
  case (Connect now r w)
  then show ?thesis using admit_application [of r t key now w "fst sh" k "snd sh"] by simp
qed

interpretation stream_tickets: ledger "system_step key" "stream_admitted key t g" "stream_issued t g" "\<lambda>sh. ticket_held t g (snd sh)"
  by unfold_locales (rule stream_balance)

interpretation application_tickets: ledger "system_step key" "application_admitted key t k" "application_issued key t k"
    "\<lambda>sh. application_held t k (fst sh)"
  by unfold_locales (rule application_balance)

text \<open>C29: No WebSocket without a ticket: over any run of the server with its publications, restarts included, a
  connection is admitted to a stream with a ticket at most as often as that ticket was issued for that stream, and to the
  whole application by a session at most as often as that ticket was issued to that session.\<close>

theorem admissions_have_tickets:
  "tally (system_step key) (stream_admitted key t g) es (new_web [] Store_Missing, newBrowserPublications)
     \<le> tally (system_step key) (stream_issued t g) es (new_web [] Store_Missing, newBrowserPublications)
   \<and> tally (system_step key) (application_admitted key t k) es (new_web [] Store_Missing, newBrowserPublications)
     \<le> tally (system_step key) (application_issued key t k) es (new_web [] Store_Missing, newBrowserPublications)"
  using stream_tickets.run_balance [of key t g es "(new_web [] Store_Missing, newBrowserPublications)"]
    application_tickets.run_balance [of key t k es "(new_web [] Store_Missing, newBrowserPublications)"]
  by (simp add: application_held_def new_web_def)

end
